(* ===== verification/Prelude.thy ===== *)
theory Prelude
  imports Main "HOL-Library.Word" "HOL-Library.Monad_Syntax"
begin

text \<open>
  Shared vocabulary of the development: machine integer types, the model of C memory
  accesses and loops, little-endian numbers and the generic lemmas the component theories
  use.

  A C object that is accessed by index is a list, and an access outside its bounds is the
  value \<open>None\<close>: undefined behaviour is a value of the model, so a theorem that a function
  returns \<open>Some\<close> says that the function performs no such access.
\<close>

unbundle bit_operations_syntax

named_theorems c_mem \<open>characteristic equations of the C memory operations\<close>
named_theorems loop_simps \<open>unfolding rules for the loop combinators\<close>

subsection \<open>Integer types\<close>

type_synonym u8 = "8 word"
type_synonym u16 = "16 word"
type_synonym u32 = "32 word"
type_synonym u64 = "64 word"
type_synonym cint = "32 word"
type_synonym bytes = "8 word list"

subsection \<open>Reads and writes of C arrays\<close>

definition rd :: "'a list \<Rightarrow> nat \<Rightarrow> 'a option" where
  "rd xs i = (if i < length xs then Some (xs ! i) else None)"

definition wr :: "'a list \<Rightarrow> nat \<Rightarrow> 'a \<Rightarrow> 'a list option" where
  "wr xs i v = (if i < length xs then Some (xs[i := v]) else None)"

text \<open>An index of type \<open>int\<close>, which may be negative.\<close>

definition rdi :: "'a list \<Rightarrow> int \<Rightarrow> 'a option" where
  "rdi xs i = (if 0 \<le> i then rd xs (nat i) else None)"

text \<open>\<open>memcpy\<close> out of an object: \<open>n\<close> bytes from offset \<open>off\<close>.\<close>

definition rd_range :: "'a list \<Rightarrow> nat \<Rightarrow> nat \<Rightarrow> 'a list option" where
  "rd_range xs off n = (if off + n \<le> length xs then Some (take n (drop off xs)) else None)"

text \<open>\<open>memcpy\<close> into an object at offset \<open>off\<close>.\<close>

definition wr_range :: "'a list \<Rightarrow> nat \<Rightarrow> 'a list \<Rightarrow> 'a list option" where
  "wr_range xs off ys =
     (if off + length ys \<le> length xs
      then Some (take off xs @ ys @ drop (off + length ys) xs) else None)"

lemma rd_Some [c_mem]: "i < length xs \<Longrightarrow> rd xs i = Some (xs ! i)"
  by (simp add: rd_def)

lemma rd_None [c_mem]: "length xs \<le> i \<Longrightarrow> rd xs i = None"
  by (simp add: rd_def)

lemma rd_eq_Some_iff: "rd xs i = Some v \<longleftrightarrow> i < length xs \<and> v = xs ! i"
  by (auto simp: rd_def)

lemma wr_Some [c_mem]: "i < length xs \<Longrightarrow> wr xs i v = Some (xs[i := v])"
  by (simp add: wr_def)

lemma wr_None [c_mem]: "length xs \<le> i \<Longrightarrow> wr xs i v = None"
  by (simp add: wr_def)

lemma rdi_nonneg [c_mem]: "0 \<le> i \<Longrightarrow> rdi xs i = rd xs (nat i)"
  by (simp add: rdi_def)

lemma rdi_neg [c_mem]: "i < 0 \<Longrightarrow> rdi xs i = None"
  by (simp add: rdi_def)

lemma rd_append_left: "i < length xs \<Longrightarrow> rd (xs @ ys) i = rd xs i"
  by (simp add: rd_def nth_append)

lemma rd_drop: "rd (drop n xs) i = rd xs (n + i)"
  by (auto simp: rd_def)

lemma rd_range_Some [c_mem]:
  "off + n \<le> length xs \<Longrightarrow> rd_range xs off n = Some (take n (drop off xs))"
  by (simp add: rd_range_def)

lemma wr_range_Some [c_mem]:
  "off + length ys \<le> length xs \<Longrightarrow>
     wr_range xs off ys = Some (take off xs @ ys @ drop (off + length ys) xs)"
  by (simp add: wr_range_def)

lemma length_wr_range: "wr_range xs off ys = Some zs \<Longrightarrow> length zs = length xs"
  by (auto simp: wr_range_def split: if_splits)

subsection \<open>Counting loops\<close>

text \<open>
  \<open>for_each f xs s\<close> runs the loop body \<open>f x\<close> for every \<open>x\<close> of \<open>xs\<close> in order, threading
  the state; the loop \<open>for (i = 0; i < n; i++)\<close> is \<open>for_each f [0..<n]\<close>.
\<close>

fun for_each :: "('a \<Rightarrow> 's \<Rightarrow> 's option) \<Rightarrow> 'a list \<Rightarrow> 's \<Rightarrow> 's option" where
  "for_each f [] s = Some s"
| "for_each f (x # xs) s = Option.bind (f x s) (for_each f xs)"

lemma for_each_append [loop_simps]:
  "for_each f (xs @ ys) s = Option.bind (for_each f xs s) (for_each f ys)"
  by (induction xs arbitrary: s) (auto split: Option.bind_splits)

lemma for_each_snoc [loop_simps]:
  "for_each f (xs @ [y]) s = Option.bind (for_each f xs s) (f y)"
  by (induction xs arbitrary: s) (auto split: Option.bind_splits)

text \<open>Two nested loops are one loop over the pairs in lexicographic order.\<close>

lemma for_each_concat:
  "for_each f (concat xss) s = for_each (\<lambda>xs. for_each f xs) xss s"
  by (induction xss arbitrary: s) (auto simp: for_each_append split: Option.bind_splits)

lemma for_each_map: "for_each f (map g xs) s = for_each (\<lambda>x. f (g x)) xs s"
  by (induction xs arbitrary: s) (auto split: Option.bind_splits)

lemma for_each_product:
  "for_each (\<lambda>x. for_each (\<lambda>y. f (x, y)) ys) xs = for_each f (List.product xs ys)"
proof
  show "for_each (\<lambda>x. for_each (\<lambda>y. f (x, y)) ys) xs s = for_each f (List.product xs ys) s" for s
    by (induction xs arbitrary: s)
       (auto simp: for_each_append for_each_map split: Option.bind_splits)
qed

text \<open>The loop rule: an indexed invariant that every iteration carries one step further.\<close>

lemma for_each_invariant:
  assumes "P 0 s"
    and "\<And>i s. i < length xs \<Longrightarrow> P i s \<Longrightarrow> \<exists>s'. f (xs ! i) s = Some s' \<and> P (Suc i) s'"
  shows "\<exists>s'. for_each f xs s = Some s' \<and> P (length xs) s'"
  using assms
proof (induction xs arbitrary: s P)
  case Nil
  then show ?case by simp
next
  case (Cons x xs)
  from Cons.prems obtain s1 where s1: "f x s = Some s1" "P (Suc 0) s1" by fastforce
  have "\<exists>s'. for_each f xs s1 = Some s' \<and> (\<lambda>i. P (Suc i)) (length xs) s'"
    by (rule Cons.IH) (use s1 Cons.prems(2) in fastforce)+
  with s1 show ?case by auto
qed

text \<open>A loop fails as soon as some iteration fails.\<close>

lemma for_each_None:
  "for_each f xs s = Some t \<Longrightarrow> f x t = None \<Longrightarrow> for_each f (xs @ x # ys) s = None"
  by (simp add: for_each_append)

subsection \<open>Little-endian numbers\<close>

fun le_nat :: "bytes \<Rightarrow> nat" where
  "le_nat [] = 0"
| "le_nat (b # bs) = unat b + 256 * le_nat bs"

lemma le_nat_append: "le_nat (xs @ ys) = le_nat xs + 256 ^ length xs * le_nat ys"
  by (induction xs) (auto simp: algebra_simps)

lemma unat_u8_less [simp]: "unat (b :: u8) < 256"
  using unsigned_less [of b] by simp

lemma unat_u16_less [simp]: "unat (b :: u16) < 65536"
  using unsigned_less [of b] by simp

lemma le_nat_less: "le_nat xs < 256 ^ length xs"
proof (induction xs)
  case Nil
  then show ?case by simp
next
  case (Cons b xs)
  have "unat b + 256 * le_nat xs < 256 * (1 + le_nat xs)"
    using unat_u8_less [of b] by simp
  also have "\<dots> \<le> 256 * 256 ^ length xs"
    using Cons.IH by (intro mult_le_mono2) simp
  finally show ?case by simp
qed

lemma le_nat_take: "n \<le> length xs \<Longrightarrow> le_nat (take n xs) = le_nat xs mod 256 ^ n"
proof -
  assume n: "n \<le> length xs"
  have "le_nat xs = le_nat (take n xs) + 256 ^ n * le_nat (drop n xs)"
    using le_nat_append [of "take n xs" "drop n xs"] n by simp
  moreover have "le_nat (take n xs) < 256 ^ n"
    using le_nat_less [of "take n xs"] n by simp
  ultimately show ?thesis by simp
qed

text \<open>A field of \<open>w\<close> bits that starts at bit \<open>a\<close> is already determined by a prefix.\<close>

lemma le_nat_take_field:
  assumes "a + w \<le> 8 * n" and "n \<le> length xs"
  shows "le_nat (take n xs) div 2 ^ a mod 2 ^ w = le_nat xs div 2 ^ a mod 2 ^ w"
proof -
  have p: "(256::nat) ^ n = 2 ^ (8 * n)"
    by (simp add: power_mult)
  have "le_nat xs mod 2 ^ (8 * n) div 2 ^ a mod 2 ^ w = le_nat xs div 2 ^ a mod 2 ^ w"
    using assms(1)
    by (metis (no_types) drop_bit_eq_div take_bit_drop_bit take_bit_eq_mod take_bit_take_bit
        min.absorb1 add.commute)
  then show ?thesis
    using assms(2) by (simp add: le_nat_take p)
qed

lemma le_nat_take_Suc2:
  assumes "n + 2 \<le> length xs"
  shows "le_nat (take (n + 2) xs) =
         le_nat (take n xs) + 256 ^ n * (unat (xs ! n) + 256 * unat (xs ! (n + 1)))"
proof -
  have "take (n + 2) xs = take n xs @ [xs ! n, xs ! (n + 1)]"
    using assms by (simp add: take_Suc_conv_app_nth)
  then show ?thesis
    using assms by (simp add: le_nat_append)
qed

subsection \<open>Words\<close>

lemma unat_pair_less: "unat (a :: u8) + 256 * unat (b :: u8) < 65536"
  using unat_u8_less [of a] unat_u8_less [of b] by linarith

lemma unat_push_bit_small:
  fixes w :: "'a::len word"
  assumes "unat w * 2 ^ n < 2 ^ LENGTH('a)"
  shows "unat (push_bit n w) = unat w * 2 ^ n"
  unfolding unsigned_push_bit_eq using assms by (simp add: push_bit_eq_mult take_bit_nat_eq_self)

lemma unat_ucast_up:
  fixes w :: "'a::len word"
  assumes "LENGTH('a) \<le> LENGTH('b::len)"
  shows "unat (ucast w :: 'b word) = unat w"
  using assms by (simp add: unsigned_ucast_eq take_bit_nat_eq_self unsigned_less
      order.strict_trans2 [OF unsigned_less])

lemma bit_small:
  fixes x :: "'a::len word"
  assumes "unat x < 2 ^ k" and "bit x n"
  shows "n < k"
proof -
  have "bit (unat x) n"
    using assms(2) bit_imp_le_length [OF assms(2)] by (simp add: bit_unsigned_iff)
  moreover have "take_bit k (unat x) = unat x"
    using assms(1) by (simp only: take_bit_nat_eq_self)
  ultimately show ?thesis
    by (metis bit_take_bit_iff)
qed

lemma and_push_bit_zero: "unat x < 2 ^ k \<Longrightarrow> x AND push_bit k m = 0"
  by (rule bit_eqI) (auto simp: bit_and_iff bit_push_bit_iff dest: bit_small)

lemma bit_cases8: "n < LENGTH(8) \<Longrightarrow> n = 0 \<or> n = 1 \<or> n = 2 \<or> n = 3 \<or> n = 4 \<or> n = 5 \<or> n = 6 \<or> n = (7 :: nat)"
  by (simp add: numeral_eq_Suc less_Suc_eq)

lemma high_bits: "8 \<le> n \<Longrightarrow> \<not> bit (x :: u8) n"
  using bit_imp_le_length [of x n] by auto

subsection \<open>Outcomes of a call\<close>

text \<open>A call returns, ends the process by \<open>abort\<close> or a failed \<open>assert\<close>, or has undefined behaviour.\<close>

datatype 'a outcome = Ret 'a | Abort | UB

primrec bind_outcome :: "'a outcome \<Rightarrow> ('a \<Rightarrow> 'b outcome) \<Rightarrow> 'b outcome" where
  "bind_outcome (Ret x) f = f x"
| "bind_outcome Abort f = Abort"
| "bind_outcome UB f = UB"

primrec access :: "'a option \<Rightarrow> 'a outcome" where
  "access None = UB"
| "access (Some x) = Ret x"

end
