(* ===== verification/BitReader.thy ===== *)
theory BitReader
  imports Prelude
begin

text \<open>
  The Atheros hardware reports the channel matrix as a stream of 10-bit two's complement
  samples, packed little-endian into bytes. This theory says what the \<open>s\<close>-th sample of a
  byte string is, and states as a locale what a routine that reads the samples one after the
  other promises. The receivers (\<open>csi_fun.c\<close>) and the Matlab gateway (\<open>read_csi.c\<close>) both
  contain such a routine, written over different integer types; both interpret the locale.
\<close>

subsection \<open>The packed samples of a byte string\<close>

definition sext :: "nat \<Rightarrow> nat \<Rightarrow> int" where
  "sext w v = (if 2 ^ (w - 1) \<le> v then int v - 2 ^ w else int v)"

definition field :: "bytes \<Rightarrow> nat \<Rightarrow> nat \<Rightarrow> nat" where
  "field bs a w = le_nat bs div 2 ^ a mod 2 ^ w"

definition sample :: "bytes \<Rightarrow> nat \<Rightarrow> cint" where
  "sample bs s = word_of_int (sext 10 (field bs (10 * s) 10))"

text \<open>The number of bytes, fetched two at a time, that hold the first \<open>s\<close> samples.\<close>

definition sample_bytes :: "nat \<Rightarrow> nat" where
  "sample_bytes s = 2 * ((10 * s + 15) div 16)"

lemma field_less: "field bs a w < 2 ^ w"
  by (simp add: field_def)

lemma sext_bounds:
  assumes "v < 2 ^ w" and "0 < w"
  shows "- (2 ^ (w - 1)) \<le> sext w v \<and> sext w v < 2 ^ (w - 1)"
proof -
  have "(2::int) ^ w = 2 * 2 ^ (w - 1)"
    using assms(2) by (simp flip: power_Suc)
  moreover have "int v < 2 ^ w"
    using assms(1) by (metis of_nat_less_iff of_nat_numeral of_nat_power)
  moreover have "2 ^ (w - 1) \<le> v \<longleftrightarrow> 2 ^ (w - 1) \<le> int v"
    by (metis of_nat_le_iff of_nat_numeral of_nat_power)
  ultimately show ?thesis
    by (auto simp: sext_def)
qed

lemma sint_sample: "sint (sample bs s) = sext 10 (field bs (10 * s) 10)"
proof -
  have "- 512 \<le> sext 10 (field bs (10 * s) 10) \<and> sext 10 (field bs (10 * s) 10) < 512"
    using sext_bounds [OF field_less, of 10 bs "10 * s"] by simp
  then show ?thesis
    by (simp add: sample_def signed_of_int signed_take_bit_int_eq_self)
qed

lemma sample_range: "- 512 \<le> sint (sample bs s) \<and> sint (sample bs s) \<le> 511"
  using sext_bounds [OF field_less, of 10 bs "10 * s"] by (simp add: sint_sample)

lemma sample_bytes_mono: "s \<le> t \<Longrightarrow> sample_bytes s \<le> sample_bytes t"
  by (simp add: sample_bytes_def div_le_mono)

subsection \<open>The interface of a sample reader\<close>

text \<open>
  \<open>next_sample bs st\<close> delivers one sample and the advanced state; \<open>at bs s st\<close> says that the
  state \<open>st\<close> has delivered exactly the first \<open>s\<close> samples of \<open>bs\<close>. The reader delivers the
  next sample exactly when the bytes that hold it are there.
\<close>

locale sample_reader =
  fixes next_sample :: "bytes \<Rightarrow> 's \<Rightarrow> (cint \<times> 's) option"
    and at :: "bytes \<Rightarrow> nat \<Rightarrow> 's \<Rightarrow> bool"
  assumes next_ok: "at bs s st \<Longrightarrow> sample_bytes (Suc s) \<le> length bs \<Longrightarrow>
      \<exists>st'. next_sample bs st = Some (sample bs s, st') \<and> at bs (Suc s) st'"
    and next_short: "at bs s st \<Longrightarrow> length bs < sample_bytes (Suc s) \<Longrightarrow>
      next_sample bs st = None"
begin

text \<open>
  The loop both clients run: each iteration reads the imaginary part, stores it, reads the
  real part and stores it. \<open>Q i m\<close> describes the store after \<open>i\<close> iterations.
\<close>

lemma read_loop:
  assumes "at bs s st" and "Q 0 m"
    and "sample_bytes (s + 2 * length xs) \<le> length bs"
    and "\<And>i m. i < length xs \<Longrightarrow> Q i m \<Longrightarrow>
      \<exists>m1 m2. put_im (xs ! i) (sample bs (s + 2 * i)) m = Some m1 \<and>
        put_re (xs ! i) (sample bs (s + 2 * i + 1)) m1 = Some m2 \<and> Q (Suc i) m2"
  shows "\<exists>st' m'. for_each (\<lambda>x (st, m). do {
             (im, st) \<leftarrow> next_sample bs st;
             m \<leftarrow> put_im x im m;
             (re, st) \<leftarrow> next_sample bs st;
             m \<leftarrow> put_re x re m;
             Some (st, m) }) xs (st, m) = Some (st', m') \<and>
           at bs (s + 2 * length xs) st' \<and> Q (length xs) m'"
proof -
  let ?P = "\<lambda>i (st, m). at bs (s + 2 * i) st \<and> Q i m"
  have step: "\<exists>z'. (\<lambda>x (st, m). do {
             (im, st) \<leftarrow> next_sample bs st;
             m \<leftarrow> put_im x im m;
             (re, st) \<leftarrow> next_sample bs st;
             m \<leftarrow> put_re x re m;
             Some (st, m) }) (xs ! i) z = Some z' \<and> ?P (Suc i) z'"
    if i: "i < length xs" and P: "?P i z" for i z
  proof -
    obtain st1 m where z: "z = (st1, m)" by (cases z)
    from P z have at: "at bs (s + 2 * i) st1" and Q: "Q i m" by auto
    have b: "sample_bytes (Suc (s + 2 * i)) \<le> length bs"
        "sample_bytes (Suc (Suc (s + 2 * i))) \<le> length bs"
      using sample_bytes_mono [of "Suc (s + 2 * i)" "s + 2 * length xs"]
        sample_bytes_mono [of "Suc (Suc (s + 2 * i))" "s + 2 * length xs"] i assms(3) by auto
    from next_ok [OF at b(1)] obtain st2 where
      st2: "next_sample bs st1 = Some (sample bs (s + 2 * i), st2)" "at bs (Suc (s + 2 * i)) st2"
      by blast
    from next_ok [OF st2(2) b(2)] obtain st3 where
      st3: "next_sample bs st2 = Some (sample bs (Suc (s + 2 * i)), st3)"
        "at bs (Suc (Suc (s + 2 * i))) st3" by blast
    from assms(4) [OF i Q] obtain m1 m2 where
      "put_im (xs ! i) (sample bs (s + 2 * i)) m = Some m1"
      "put_re (xs ! i) (sample bs (Suc (s + 2 * i))) m1 = Some m2" "Q (Suc i) m2" by auto
    with z st2 st3 show ?thesis by simp
  qed
  have "\<exists>z'. for_each (\<lambda>x (st, m). do {
             (im, st) \<leftarrow> next_sample bs st;
             m \<leftarrow> put_im x im m;
             (re, st) \<leftarrow> next_sample bs st;
             m \<leftarrow> put_re x re m;
             Some (st, m) }) xs (st, m) = Some z' \<and> ?P (length xs) z'"
    by (rule for_each_invariant) (use assms(1,2) step in auto)
  then show ?thesis by auto
qed

text \<open>Conversely, a loop that ran to its end had its bytes, and every store was accepted.\<close>

lemma read_loop_needs:
  assumes "at bs s st"
    and "for_each (\<lambda>x (st, m). do {
             (im, st) \<leftarrow> next_sample bs st;
             m \<leftarrow> put_im x im m;
             (re, st) \<leftarrow> next_sample bs st;
             m \<leftarrow> put_re x re m;
             Some (st, m) }) xs (st, m) = Some z"
  shows "(\<forall>x \<in> set xs. \<exists>v m. put_im x v m \<noteq> None) \<and>
         (xs = [] \<or> sample_bytes (s + 2 * length xs) \<le> length bs)"
  using assms
proof (induction xs arbitrary: s st m)
  case Nil
  then show ?case by simp
next
  case (Cons x xs)
  from Cons.prems(2) obtain im st1 m1 re st2 m2 where
    run: "next_sample bs st = Some (im, st1)" "put_im x im m = Some m1"
      "next_sample bs st1 = Some (re, st2)" and
    rest: "for_each (\<lambda>x (st, m). do {
             (im, st) \<leftarrow> next_sample bs st;
             m \<leftarrow> put_im x im m;
             (re, st) \<leftarrow> next_sample bs st;
             m \<leftarrow> put_re x re m;
             Some (st, m) }) xs (st2, m2) = Some z"
    by (auto simp: bind_eq_Some_conv)
  have "sample_bytes (Suc s) \<le> length bs"
    using next_short [OF Cons.prems(1)] run(1) by (cases "length bs < sample_bytes (Suc s)") auto
  from next_ok [OF Cons.prems(1) this] run(1) have at1: "at bs (Suc s) st1" by auto
  have b: "sample_bytes (Suc (Suc s)) \<le> length bs"
    using next_short [OF at1] run(3) by (cases "length bs < sample_bytes (Suc (Suc s))") auto
  from next_ok [OF at1 b] run(3) have "at bs (Suc (Suc s)) st2" by auto
  from Cons.IH [OF this rest] have IH: "(\<forall>x \<in> set xs. \<exists>v m. put_im x v m \<noteq> None) \<and>
      (xs = [] \<or> sample_bytes (Suc (Suc s) + 2 * length xs) \<le> length bs)" .
  show ?case
    using IH b run(2) by auto
qed

end

end
