(* ===== verification/CsiFun.thy ===== *)
theory CsiFun
  imports BitReader
begin

text \<open>
  The CSI decoding functions of the receiver that logs to a file
  (\<open>recvCSIToFile/csi_fun.c\<close>, \<open>csi_fun.h\<close>): the status header of a report, the payload copy and
  the extraction of the channel matrix from the packed samples.

  C's \<open>int\<close> is a 32-bit word read in two's complement; \<open>u_int8_t\<close> values are promoted to
  \<open>int\<close> where the source computes with them. Shifting an \<open>int\<close> by 32 or more is undefined
  in C: the value a compiler gives such an expression is a parameter \<open>ub\<close> of the model.
\<close>

subsection \<open>Data\<close>

record COMPLEX =
  real :: cint
  imag :: cint

record csi_struct =
  s_tstamp :: u64
  s_channel :: u16
  s_chanBW :: u8
  s_rate :: u8
  s_nr :: u8
  s_nc :: u8
  s_num_tones :: u8
  s_noise :: u8
  s_phyerr :: u8
  s_rssi :: u8
  s_rssi_0 :: u8
  s_rssi_1 :: u8
  s_rssi_2 :: u8
  s_payload_len :: u16
  s_csi_len :: u16
  s_buf_len :: u16

text \<open>
  \<open>COMPLEX csi_matrix[3][3][114]\<close>, indexed by receive antenna, transmit antenna and tone; an
  access outside the declared dimensions is undefined.
\<close>

type_synonym csi_matrix = "nat \<times> nat \<times> nat \<Rightarrow> COMPLEX"

definition in_matrix :: "nat \<times> nat \<times> nat \<Rightarrow> bool" where
  "in_matrix p = (case p of (r, c, k) \<Rightarrow> r < 3 \<and> c < 3 \<and> k < 114)"

definition put_imag :: "nat \<times> nat \<times> nat \<Rightarrow> cint \<Rightarrow> csi_matrix \<Rightarrow> csi_matrix option" where
  "put_imag p v m = (if in_matrix p then Some (m(p := (m p)\<lparr>imag := v\<rparr>)) else None)"

definition put_real :: "nat \<times> nat \<times> nat \<Rightarrow> cint \<Rightarrow> csi_matrix \<Rightarrow> csi_matrix option" where
  "put_real p v m = (if in_matrix p then Some (m(p := (m p)\<lparr>real := v\<rparr>)) else None)"

subsection \<open>Endianness test and sign conversion\<close>

datatype byte_order = LittleEndian | BigEndian

text \<open>The object representation of a four-byte \<open>int\<close>.\<close>

definition int_repr :: "byte_order \<Rightarrow> cint \<Rightarrow> bytes" where
  "int_repr bo a =
     (let le = map (\<lambda>i. ucast (drop_bit (8 * i) a)) [0, 1, 2, 3]
      in case bo of LittleEndian \<Rightarrow> le | BigEndian \<Rightarrow> rev le)"

definition is_big_endian :: "byte_order \<Rightarrow> bool" where
  "is_big_endian bo =
     (let a = 0x1234; b = int_repr bo a ! 0
      in if b = 0x12 then True else False)"

definition bit_convert :: "cint \<Rightarrow> nat \<Rightarrow> cint" where
  "bit_convert data maxbit =
     (if data AND push_bit (maxbit - 1) 1 \<noteq> 0 then data - push_bit maxbit 1 else data)"

subsection \<open>Extraction of the channel matrix\<close>

text \<open>The local variables of \<open>fill_csi_matrix\<close> that its loops carry.\<close>

record csi_reader =
  idx :: u32
  current_data :: u32
  bits_left :: u8

definition fetch16 :: "bytes \<Rightarrow> u32 \<Rightarrow> (u32 \<times> u32) option" where
  "fetch16 csi_addr i = do {
     b0 \<leftarrow> rd csi_addr (unat i);
     b1 \<leftarrow> rd csi_addr (unat (i + 1));
     Some (ucast b0 + ucast (push_bit 8 (ucast b1 :: cint)), i + 2) }"

definition csi_refill :: "bytes \<Rightarrow> csi_reader \<Rightarrow> csi_reader option" where
  "csi_refill csi_addr st =
     (if int (unat (bits_left st)) - 10 < 0
      then do {
        (h_data, i) \<leftarrow> fetch16 csi_addr (idx st);
        Some (st\<lparr>idx := i,
                current_data := current_data st + push_bit (unat (bits_left st)) h_data,
                bits_left := bits_left st + 16\<rparr>) }
      else Some st)"

definition csi_next :: "bytes \<Rightarrow> csi_reader \<Rightarrow> (cint \<times> csi_reader) option" where
  "csi_next csi_addr st = do {
     st \<leftarrow> csi_refill csi_addr st;
     let v = bit_convert (ucast (current_data st AND (push_bit 10 1 - 1))) 10;
     Some (v, st\<lparr>bits_left := bits_left st - 10,
               current_data := drop_bit 10 (current_data st)\<rparr>) }"

text \<open>The body of the three nested loops, at the matrix position \<open>p\<close>.\<close>

definition csi_body :: "bytes \<Rightarrow> nat \<times> nat \<times> nat \<Rightarrow> csi_reader \<times> csi_matrix \<Rightarrow>
    (csi_reader \<times> csi_matrix) option" where
  "csi_body csi_addr = (\<lambda>p (st, m). do {
     (im, st) \<leftarrow> csi_next csi_addr st;
     m \<leftarrow> put_imag p im m;
     (re, st) \<leftarrow> csi_next csi_addr st;
     m \<leftarrow> put_real p re m;
     Some (st, m) })"

text \<open>
  The dimensions are \<open>int\<close> parameters in the source. Its only callers, the two versions of
  \<open>record_csi_payload\<close>, pass the \<open>u_int8_t\<close> fields of the status, which the call promotes without
  change of value, so the model takes the bytes; other values of the parameters do not occur. The
  counters of the loops are \<open>u_int8_t\<close> too and a bound of at most 255 never makes them wrap.
\<close>

definition fill_csi_matrix :: "bytes \<Rightarrow> u8 \<Rightarrow> u8 \<Rightarrow> u8 \<Rightarrow> csi_matrix \<Rightarrow> csi_matrix option" where
  "fill_csi_matrix csi_addr nr nc num_tones csi_matrix = do {
     (h_data, i) \<leftarrow> fetch16 csi_addr 0;
     let st = \<lparr>idx = i, current_data = h_data AND (push_bit 16 1 - 1), bits_left = 16\<rparr>;
     (st, csi_matrix) \<leftarrow>
       for_each (\<lambda>k.
         for_each (\<lambda>nc_idx.
           for_each (\<lambda>nr_idx. csi_body csi_addr (nr_idx, nc_idx, k))
             [0..<unat nr]) [0..<unat nc]) [0..<unat num_tones] (st, csi_matrix);
     Some csi_matrix }"

subsection \<open>The status header\<close>

definition shl_int :: "(cint \<Rightarrow> nat \<Rightarrow> cint) \<Rightarrow> cint \<Rightarrow> nat \<Rightarrow> cint" where
  "shl_int ub x n = (if n < 32 then push_bit n x else ub x n)"

text \<open>
  The assignment to \<open>tstamp\<close>, with the bytes in the order in which the expression names
  them: the masks up to \<open>0x00000000ff000000\<close> are 32-bit constants, the later ones 64-bit, so
  the last four operands are widened (with their sign) before they are masked.
\<close>

definition tstamp_expr :: "(cint \<Rightarrow> nat \<Rightarrow> cint) \<Rightarrow> bytes \<Rightarrow> u64" where
  "tstamp_expr ub b =
     (let sh = (\<lambda>i n. shl_int ub (ucast (b ! i)) n)
      in ucast ((sh 0 56 AND 0xff) OR (sh 1 48 AND 0xff00) OR
                (sh 2 40 AND 0xff0000) OR (sh 3 32 AND 0xff000000)) OR
         (scast (sh 4 24) AND 0x000000ff00000000) OR (scast (sh 5 16) AND 0x0000ff0000000000) OR
         (scast (sh 6 8) AND 0x00ff000000000000) OR (ucast (b ! 7) AND 0xff00000000000000))"

definition pair16 :: "u8 \<Rightarrow> u8 \<Rightarrow> u16" where
  "pair16 hi lo = ucast ((push_bit 8 (ucast hi :: cint) AND 0xff00) OR (ucast lo AND 0x00ff))"

abbreviation csi_st_len :: nat where
  "csi_st_len \<equiv> 23"

definition record_status ::
    "byte_order \<Rightarrow> (cint \<Rightarrow> nat \<Rightarrow> cint) \<Rightarrow> bytes \<Rightarrow> int \<Rightarrow> csi_struct \<Rightarrow> csi_struct option" where
  "record_status bo ub buf_addr cnt csi_status = do {
     b \<leftarrow> rd_range buf_addr 0 23;
     p0 \<leftarrow> rd buf_addr csi_st_len;
     p1 \<leftarrow> rd buf_addr (csi_st_len + 1);
     l2 \<leftarrow> rdi buf_addr (cnt - 2);
     l1 \<leftarrow> rdi buf_addr (cnt - 1);
     let csi_status =
       (if is_big_endian bo
        then csi_status\<lparr>s_tstamp := tstamp_expr ub (take 8 b),
               s_csi_len := pair16 (b ! 8) (b ! 9), s_channel := pair16 (b ! 10) (b ! 11),
               s_buf_len := pair16 l2 l1, s_payload_len := pair16 p0 p1\<rparr>
        else csi_status\<lparr>s_tstamp := tstamp_expr ub (rev (take 8 b)),
               s_csi_len := pair16 (b ! 9) (b ! 8), s_channel := pair16 (b ! 11) (b ! 10),
               s_buf_len := pair16 l1 l2, s_payload_len := pair16 p1 p0\<rparr>);
     Some (csi_status\<lparr>s_phyerr := b ! 12, s_noise := b ! 13, s_rate := b ! 14,
             s_chanBW := b ! 15, s_num_tones := b ! 16, s_nr := b ! 17, s_nc := b ! 18,
             s_rssi := b ! 19, s_rssi_0 := b ! 20, s_rssi_1 := b ! 21, s_rssi_2 := b ! 22\<rparr>) }"

subsection \<open>Payload and matrix of a report\<close>

definition record_csi_payload ::
    "bytes \<Rightarrow> csi_struct \<Rightarrow> bytes \<Rightarrow> csi_matrix \<Rightarrow> (bytes \<times> csi_matrix) option" where
  "record_csi_payload buf_addr csi_status data_buf csi_matrix = do {
     let nr = s_nr csi_status;
     let nc = s_nc csi_status;
     let num_tones = s_num_tones csi_status;
     let payload_len = unat (s_payload_len csi_status);
     let csi_len = unat (s_csi_len csi_status);
     data_buf \<leftarrow> for_each (\<lambda>i d. do {
         v \<leftarrow> rd buf_addr (csi_st_len + csi_len + i + 1);
         wr d (i - 1) v }) [1..<payload_len + 1] data_buf;
     csi_matrix \<leftarrow> fill_csi_matrix (drop (csi_st_len + 2) buf_addr) nr nc num_tones csi_matrix;
     Some (data_buf, csi_matrix) }"

definition porcess_csi :: "bytes \<Rightarrow> csi_struct \<Rightarrow> csi_matrix \<Rightarrow> bytes \<times> csi_struct \<times> csi_matrix" where
  "porcess_csi data_buf csi_status csi_buf = (data_buf, csi_status, csi_buf)"

text \<open>
  \<open>read\<close> is the system call: its return value and the contents it leaves in the buffer are
  the argument \<open>ret\<close>.
\<close>

definition read_csi_buf :: "int \<times> bytes \<Rightarrow> int \<times> bytes" where
  "read_csi_buf ret = (let (cnt, buf_addr) = ret in if cnt \<noteq> 0 then (cnt, buf_addr) else (0, buf_addr))"

subsection \<open>The sample reader of fill-csi-matrix\<close>

lemma unat_fetch: "unat (ucast (b0 :: u8) + push_bit 8 (ucast (b1 :: u8)) :: u32) =
   unat b0 + 256 * unat b1"
proof -
  have 1: "unat (ucast b1 :: cint) = unat b1" by (simp add: unat_ucast_up)
  have 2: "unat (push_bit 8 (ucast b1 :: cint)) = 256 * unat b1"
    using unat_push_bit_small [of "ucast b1 :: cint" 8] unat_u8_less [of b1] by (simp add: 1)
  have 3: "unat (ucast b0 :: u32) = unat b0" by (simp add: unat_ucast_up)
  show ?thesis
    using unat_add_lem [of "ucast b0 :: u32" "push_bit 8 (ucast b1 :: cint)"] unat_u8_less [of b1] unat_u8_less [of b0]
    by (simp add: 2 3)
qed

lemma bit_convert_sext:
  assumes "1 \<le> w" "w < 31" "unat x < 2 ^ w"
  shows "bit_convert x w = word_of_int (sext w (unat x))"
proof -
  have "x AND push_bit (w - 1) 1 \<noteq> 0 \<longleftrightarrow> bit x (w - 1)"
    by (metis and_exp_eq_0_iff_not_bit push_bit_of_1)
  also have "\<dots> \<longleftrightarrow> odd (unat x div 2 ^ (w - 1))"
    using bit_unsigned_iff [where ?'a = nat, of x "w - 1"] by (simp add: bit_iff_odd [of "unat x"])
  also have "\<dots> \<longleftrightarrow> 2 ^ (w - 1) \<le> unat x"
  proof -
    have "(2::nat) ^ w = 2 * 2 ^ (w - 1)" using assms(1) by (simp flip: power_Suc)
    then have "unat x div 2 ^ (w - 1) < 2" using assms(3) by (simp add: less_mult_imp_div_less)
    then show ?thesis
      by (cases "unat x < 2 ^ (w - 1)") (auto simp: less_2_cases_iff div_eq_0_iff not_less)
  qed
  finally have c: "x AND push_bit (w - 1) 1 \<noteq> 0 \<longleftrightarrow> 2 ^ (w - 1) \<le> unat x" .
  show ?thesis
    unfolding bit_convert_def c by (simp add: sext_def push_bit_of_1 assms)
qed

text \<open>The number of bytes fetched when \<open>s\<close> samples have been delivered.\<close>

definition fetched :: "nat \<Rightarrow> nat" where
  "fetched s = 2 * max 1 ((10 * s + 15) div 16)"

lemma fetched_bounds: "10 * s \<le> 8 * fetched s" "8 * fetched s - 10 * s \<le> 16"
proof -
  define q where "q = (10 * s + 15) div 16"
  have "16 * q \<le> 10 * s + 15" "10 * s < 16 * q + 1"
    unfolding q_def by (auto simp: algebra_simps dividend_less_times_div)
  then show "10 * s \<le> 8 * fetched s" "8 * fetched s - 10 * s \<le> 16"
    unfolding fetched_def q_def [symmetric] by auto
qed

lemma sample_bytes_fetched:
  "sample_bytes (Suc s) = (if 8 * fetched s - 10 * s < 10 then fetched s + 2 else fetched s)"
proof -
  define q where "q = (10 * s + 15) div 16"
  define r where "r = (10 * Suc s + 15) div 16"
  have q: "16 * q \<le> 10 * s + 15" "10 * s < 16 * q + 1"
    unfolding q_def by (auto simp: algebra_simps dividend_less_times_div)
  have r: "16 * r \<le> 10 * s + 25" "10 * s + 25 < 16 * r + 16"
    unfolding r_def by (auto simp: algebra_simps dividend_less_times_div)
  have ord: "q \<le> r" "r \<le> q + 1" using q r by linarith+
  show ?thesis
  proof (cases "q = 0")
    case True
    with q r have "s = 0" "r = 1" by linarith+
    with True show ?thesis
      unfolding fetched_def sample_bytes_def q_def [symmetric] r_def [symmetric] by simp
  next
    case False
    have "r = (if 16 * q - 10 * s < 10 then q + 1 else q)"
      using q r ord by (cases "16 * q - 10 * s < 10") simp_all
    with False show ?thesis
      unfolding fetched_def sample_bytes_def q_def [symmetric] r_def [symmetric] by simp
  qed
qed

lemma sample_bytes_Suc_le: "sample_bytes (Suc s) = fetched (Suc s)"
  by (simp add: sample_bytes_def fetched_def)

definition csi_at :: "bytes \<Rightarrow> nat \<Rightarrow> csi_reader \<Rightarrow> bool" where
  "csi_at bs s st \<longleftrightarrow>
     (let n = fetched s in
      length bs < 2 ^ 32 \<and> n \<le> length bs \<and> unat (idx st) = n \<and>
      unat (bits_left st) = 8 * n - 10 * s \<and>
      unat (current_data st) = le_nat (take n bs) div 2 ^ (10 * s))"

lemma fetch16_ok:
  assumes "unat i + 2 \<le> length bs" and "length bs < 2 ^ 32"
  shows "\<exists>h j. fetch16 bs i = Some (h, j) \<and> unat j = unat i + 2 \<and>
           unat h = unat (bs ! unat i) + 256 * unat (bs ! (unat i + 1))"
proof -
  have i1: "unat (i + 1) = unat i + 1" and i2: "unat (i + 2) = unat i + 2"
    using unat_add_lem [of i 1] unat_add_lem [of i 2] assms by simp_all
  show ?thesis
    using assms by (auto simp: fetch16_def c_mem i1 i2 unat_fetch)
qed

lemma fetch16_short:
  assumes "length bs < unat i + 2" and "length bs < 2 ^ 32"
  shows "fetch16 bs i = None"
proof (cases "unat i < length bs")
  case True
  then have "unat (i + 1) = unat i + 1"
    using unat_add_lem [of i 1] assms by simp
  with True assms show ?thesis
    by (simp add: fetch16_def c_mem)
qed (simp add: fetch16_def c_mem)

lemma unat_mask10: "unat (x AND 1023 :: u32) = unat x mod 1024"
proof -
  have "(1023 :: u32) = mask 10"
    by (simp add: mask_eq_exp_minus_1)
  then have "unat (x AND 1023) = unat (take_bit 10 x)"
    by (simp only: take_bit_eq_mask)
  also have "\<dots> = unat x mod 1024"
    unfolding unsigned_take_bit_eq by (simp add: take_bit_eq_mod)
  finally show ?thesis .
qed

text \<open>The state after the refill that precedes a sample: enough bits are buffered.\<close>

definition csi_ready :: "bytes \<Rightarrow> nat \<Rightarrow> csi_reader \<Rightarrow> bool" where
  "csi_ready bs s st \<longleftrightarrow>
     (let n = fetched (Suc s) in
      length bs < 2 ^ 32 \<and> n \<le> length bs \<and> unat (idx st) = n \<and>
      unat (bits_left st) = 8 * n - 10 * s \<and>
      unat (current_data st) = le_nat (take n bs) div 2 ^ (10 * s))"

lemma csi_refill_alt:
  "csi_refill bs st =
     (if unat (bits_left st) < 10
      then do {
        (h_data, i) \<leftarrow> fetch16 bs (idx st);
        Some (st\<lparr>idx := i,
                current_data := current_data st + push_bit (unat (bits_left st)) h_data,
                bits_left := bits_left st + 16\<rparr>) }
      else Some st)"
proof -
  have "int (unat (bits_left st)) - 10 < 0 \<longleftrightarrow> unat (bits_left st) < 10"
    by linarith
  then show ?thesis
    unfolding csi_refill_def by presburger
qed

lemma csi_refill_ok:
  assumes "csi_at bs s st" and "sample_bytes (Suc s) \<le> length bs"
  shows "\<exists>st'. csi_refill bs st = Some st' \<and> csi_ready bs s st'"
proof -
  define n where "n = fetched s"
  note fb = fetched_bounds [of s, folded n_def] sample_bytes_fetched [of s, folded n_def]
  from assms(1) have at: "length bs < 2 ^ 32" "n \<le> length bs" "unat (idx st) = n"
      "unat (bits_left st) = 8 * n - 10 * s"
      "unat (current_data st) = le_nat (take n bs) div 2 ^ (10 * s)"
    by (auto simp: csi_at_def Let_def n_def)
  show ?thesis
  proof (cases "8 * n - 10 * s < 10")
    case False
    then have "fetched (Suc s) = n"
      using fb by (simp add: sample_bytes_Suc_le)
    with at False show ?thesis
      by (simp add: csi_refill_alt csi_ready_def Let_def)
  next
    case True
    then have n': "fetched (Suc s) = n + 2" and le: "10 * s \<le> 8 * n"
      using fb by (simp_all add: sample_bytes_Suc_le)
    with assms(2) have len: "n + 2 \<le> length bs"
      by (simp add: sample_bytes_Suc_le)
    from fetch16_ok [of "idx st" bs] at(1,3) len obtain h j where
      h: "fetch16 bs (idx st) = Some (h, j)" "unat j = n + 2"
         "unat h = unat (bs ! n) + 256 * unat (bs ! (n + 1))" by auto
    let ?l = "unat (bits_left st)"
    have l: "?l < 10" "8 * n = ?l + 10 * s" using True at(4) le by auto
    have "(256::nat) ^ n = 2 ^ (8 * n)" by (simp add: power_mult)
    then have p: "(256::nat) ^ n = 2 ^ ?l * 2 ^ (10 * s)"
      by (simp only: l(2) power_add)
    have "unat h < 65536"
      using h(3) unat_pair_less [of "bs ! n" "bs ! (n + 1)"] by simp
    moreover have l9: "(2::nat) ^ ?l \<le> 2 ^ 9"
      using l(1) by (intro power_increasing) auto
    ultimately have hl: "unat h * 2 ^ ?l \<le> 65535 * 2 ^ 9"
      by (intro mult_le_mono) auto
    have cur: "unat (current_data st) < 2 ^ ?l"
      using le_nat_less [of "take n bs"] at(2,5) p
      by (simp add: less_mult_imp_div_less)
    have u: "unat (push_bit ?l h) = unat h * 2 ^ ?l"
      by (rule unat_push_bit_small) (use hl in simp)
    have cur': "unat (current_data st + push_bit ?l h) = unat (current_data st) + unat h * 2 ^ ?l"
      using unat_add_lem [of "current_data st" "push_bit ?l h"] cur hl l9 by (simp add: u)
    have left': "unat (bits_left st + 16) = ?l + 16"
      using unat_add_lem [of "bits_left st" 16] l(1) by simp
    have "le_nat (take (n + 2) bs) div 2 ^ (10 * s) =
          (le_nat (take n bs) + (unat h * 2 ^ ?l) * 2 ^ (10 * s)) div 2 ^ (10 * s)"
      by (simp only: le_nat_take_Suc2 [OF len] p h(3) mult.assoc mult.commute mult.left_commute)
    also have "\<dots> = unat (current_data st + push_bit ?l h)"
      by (simp add: cur' at(5))
    finally have d: "unat (current_data st + push_bit ?l h) =
        le_nat (take (n + 2) bs) div 2 ^ (10 * s)" by (rule sym)
    have "8 * (n + 2) - 10 * s = ?l + 16" using l(2) by simp
    then have "csi_ready bs s (st\<lparr>idx := j, current_data := current_data st + push_bit ?l h,
        bits_left := bits_left st + 16\<rparr>)"
      using at(1) len h(2) left' d by (simp add: csi_ready_def Let_def n')
    with l(1) h(1) show ?thesis by (simp add: csi_refill_alt)
  qed
qed

lemma csi_refill_short:
  assumes "csi_at bs s st" and "length bs < sample_bytes (Suc s)"
  shows "csi_refill bs st = None"
proof -
  have "unat (idx st) = fetched s" "unat (bits_left st) = 8 * fetched s - 10 * s"
    "fetched s \<le> length bs" "length bs < 2 ^ 32"
    using assms(1) by (auto simp: csi_at_def Let_def)
  then have "unat (bits_left st) < 10 \<and> length bs < unat (idx st) + 2 \<and> length bs < 2 ^ 32"
    using assms(2) sample_bytes_fetched [of s] by (auto split: if_splits)
  then show ?thesis
    by (simp add: csi_refill_alt fetch16_short)
qed


lemma csi_next_ok:
  assumes "csi_at bs s st" and "sample_bytes (Suc s) \<le> length bs"
  shows "\<exists>st'. csi_next bs st = Some (sample bs s, st') \<and> csi_at bs (Suc s) st'"
proof -
  from csi_refill_ok [OF assms] obtain st' where
    st': "csi_refill bs st = Some st'" "csi_ready bs s st'" by blast
  let ?n = "fetched (Suc s)"
  from st'(2) have r: "length bs < 2 ^ 32" "?n \<le> length bs" "unat (idx st') = ?n"
      "unat (bits_left st') = 8 * ?n - 10 * s"
      "unat (current_data st') = le_nat (take ?n bs) div 2 ^ (10 * s)"
    by (auto simp: csi_ready_def Let_def)
  have b: "10 * s + 10 \<le> 8 * ?n" using fetched_bounds(1) [of "Suc s"] by simp
  let ?x = "ucast (current_data st' AND (push_bit 10 1 - 1)) :: cint"
  have x: "unat ?x = field bs (10 * s) 10"
    using le_nat_take_field [OF b r(2)] by (simp add: unat_mask10 r(5) field_def)
  have "bit_convert ?x 10 = sample bs s"
    using bit_convert_sext [of 10 ?x] field_less [of bs "10 * s" 10]
    unfolding x sample_def by simp
  moreover have "unat (bits_left st' - 10) = 8 * ?n - 10 * Suc s"
    using unat_sub [of 10 "bits_left st'"] b r(4) by (simp add: word_le_nat_alt)
  moreover have "unat (drop_bit 10 (current_data st')) = le_nat (take ?n bs) div 2 ^ (10 * Suc s)"
    using unat_drop_bit_eq [of 10 "current_data st'"]
    by (simp only: r(5) drop_bit_eq_div div_mult2_eq [symmetric] power_add [symmetric] mult_Suc_right add.commute)
  ultimately show ?thesis
    using st'(1) r(1,2,3) by (simp add: csi_next_def csi_at_def Let_def)
qed

lemma csi_next_short:
  assumes "csi_at bs s st" and "length bs < sample_bytes (Suc s)"
  shows "csi_next bs st = None"
  using csi_refill_short [OF assms] by (simp add: csi_next_def)

interpretation csi_rdr: sample_reader csi_next csi_at
  by unfold_locales (fact csi_next_ok, fact csi_next_short)


subsection \<open>Nested loops over the matrix\<close>

definition csi_index :: "nat \<Rightarrow> nat \<Rightarrow> nat \<times> nat \<times> nat \<Rightarrow> nat" where
  "csi_index nr nc p = (case p of (r, c, k) \<Rightarrow> (k * nc + c) * nr + r)"

definition csi_order :: "nat \<Rightarrow> nat \<Rightarrow> nat \<Rightarrow> (nat \<times> nat \<times> nat) list" where
  "csi_order nr nc tones = map (\<lambda>(k, c, r). (r, c, k))
     (List.product [0..<tones] (List.product [0..<nc] [0..<nr]))"

lemma for_each_csi_order:
  "for_each (\<lambda>k. for_each (\<lambda>c. for_each (\<lambda>r. g (r, c, k)) [0..<nr]) [0..<nc]) [0..<tones] s =
   for_each g (csi_order nr nc tones) s"
  by (simp add: csi_order_def for_each_map for_each_product [symmetric])

lemma length_csi_order: "length (csi_order nr nc tones) = tones * (nc * nr)"
  by (simp add: csi_order_def length_product)

lemma csi_order_nth:
  assumes "i < tones * (nc * nr)"
  shows "csi_order nr nc tones ! i = (i mod (nc * nr) mod nr, i mod (nc * nr) div nr, i div (nc * nr))"
proof -
  have n: "0 < nc * nr" using assms by (cases "nc * nr = 0") auto
  have "i mod (nc * nr) div nr < nc" and "i div (nc * nr) < tones"
    using assms n by (simp_all add: less_mult_imp_div_less)
  with assms n show ?thesis
    by (simp add: csi_order_def product_nth length_product)
qed

lemma csi_order_index:
  assumes "i < tones * (nc * nr)"
  shows "csi_index nr nc (csi_order nr nc tones ! i) = i"
proof -
  let ?N = "nc * nr" and ?m = "i mod (nc * nr)"
  have "csi_index nr nc (csi_order nr nc tones ! i) = i div ?N * ?N + (?m div nr * nr + ?m mod nr)"
    by (simp add: csi_order_nth [OF assms] csi_index_def algebra_simps)
  also have "\<dots> = i"
    by (simp only: div_mult_mod_eq)
  finally show ?thesis .
qed

lemma set_csi_order: "set (csi_order nr nc tones) = {(r, c, k). r < nr \<and> c < nc \<and> k < tones}"
  by (auto simp: csi_order_def image_iff)

lemma csi_index_inj:
  assumes "r < nr" "c < nc" "k < tones" "r' < nr" "c' < nc" "k' < tones"
    and "csi_index nr nc (r, c, k) = csi_index nr nc (r', c', k')"
  shows "(r, c, k) = (r', c', k')"
proof -
  have mod: "((a * nr + r) mod nr) = r" "((a * nr + r') mod nr) = r'" for a
    using assms(1,4) by simp_all
  have 1: "(k * nc + c) * nr + r = (k' * nc + c') * nr + r'"
    using assms(7) by (simp add: csi_index_def)
  then have r: "r = r'" by (metis mod)
  with 1 assms(1) have 2: "k * nc + c = k' * nc + c'" by simp
  then have c: "c = c'" by (metis assms(2,5) mod_less mod_mult_self3)
  with 2 assms(2) have "k = k'" by simp
  with r c show ?thesis by simp
qed

text \<open>The matrix that the packed samples describe.\<close>

definition csi_cell :: "bytes \<Rightarrow> nat \<Rightarrow> nat \<Rightarrow> nat \<times> nat \<times> nat \<Rightarrow> COMPLEX" where
  "csi_cell bs nr nc p =
     \<lparr>real = sample bs (2 * csi_index nr nc p + 1), imag = sample bs (2 * csi_index nr nc p)\<rparr>"

definition csi_spec :: "bytes \<Rightarrow> nat \<Rightarrow> nat \<Rightarrow> nat \<Rightarrow> csi_matrix \<Rightarrow> csi_matrix" where
  "csi_spec bs nr nc tones m =
     (\<lambda>(r, c, k). if r < nr \<and> c < nc \<and> k < tones then csi_cell bs nr nc (r, c, k) else m (r, c, k))"

lemma csi_at_init:
  assumes "2 \<le> length bs" and "length bs < 2 ^ 32"
  shows "\<exists>h i. fetch16 bs 0 = Some (h, i) \<and>
    csi_at bs 0 \<lparr>idx = i, current_data = h AND (push_bit 16 1 - 1), bits_left = 16\<rparr>"
proof -
  from fetch16_ok [of 0 bs] assms obtain h i where
    h: "fetch16 bs 0 = Some (h, i)" "unat i = 2" "unat h = unat (bs ! 0) + 256 * unat (bs ! 1)"
    by auto
  have "(push_bit 16 1 - 1 :: u32) = mask 16"
    by (simp add: mask_eq_exp_minus_1)
  moreover have "take_bit 16 h = h"
  proof -
    have "unat h < 2 ^ 16"
      using h(3) unat_pair_less [of "bs ! 0" "bs ! 1"] by simp
    then have "unat (take_bit 16 h) = unat h"
      unfolding unsigned_take_bit_eq by (simp only: take_bit_nat_eq_self)
    then show ?thesis by (rule unsigned_word_eqI)
  qed
  ultimately have "h AND (push_bit 16 1 - 1) = h"
    by (metis take_bit_eq_mask)
  moreover have "le_nat (take 2 bs) = unat h"
    using le_nat_take_Suc2 [of 0 bs] assms(1) h(3) by (simp add: numeral_2_eq_2)
  ultimately show ?thesis
    using h assms by (simp add: csi_at_def fetched_def)
qed

lemma put_cell:
  assumes "in_matrix p"
  shows "\<exists>m1. put_imag p im m = Some m1 \<and> put_real p re m1 = Some (m(p := \<lparr>real = re, imag = im\<rparr>))"
  using assms by (cases "m p") (simp add: put_imag_def put_real_def)

lemma fill_csi_matrix_flat:
  "fill_csi_matrix bs nr nc tones m = do {
     (h, i) \<leftarrow> fetch16 bs 0;
     (st, m) \<leftarrow> for_each (csi_body bs) (csi_order (unat nr) (unat nc) (unat tones))
        (\<lparr>idx = i, current_data = h AND (push_bit 16 1 - 1), bits_left = 16\<rparr>, m);
     Some m }"
  by (simp add: fill_csi_matrix_def Let_def for_each_csi_order [where g = "csi_body bs"])

lemma fill_csi_matrix_ok:
  assumes "unat nr \<le> 3" and "unat nc \<le> 3" and "unat tones \<le> 114"
    and "2 \<le> length bs" and "sample_bytes (2 * (unat tones * (unat nc * unat nr))) \<le> length bs"
    and "length bs < 2 ^ 32"
  shows "fill_csi_matrix bs nr nc tones m = Some (csi_spec bs (unat nr) (unat nc) (unat tones) m)"
proof -
  let ?xs = "csi_order (unat nr) (unat nc) (unat tones)"
  let ?Q = "\<lambda>i m'. m' = (\<lambda>p. if p \<in> set (take i ?xs) then csi_cell bs (unat nr) (unat nc) p else m p)"
  from csi_at_init [OF assms(4,6)] obtain h i where
    init: "fetch16 bs 0 = Some (h, i)"
      "csi_at bs 0 \<lparr>idx = i, current_data = h AND (push_bit 16 1 - 1), bits_left = 16\<rparr>" (is "csi_at bs 0 ?st")
    by blast
  have "\<exists>st' m'. for_each (csi_body bs) ?xs (?st, m) = Some (st', m') \<and>
           csi_at bs (0 + 2 * length ?xs) st' \<and> ?Q (length ?xs) m'"
    unfolding csi_body_def
  proof (rule csi_rdr.read_loop [OF init(2)])
    show "sample_bytes (0 + 2 * length ?xs) \<le> length bs"
      using assms(5) by (simp add: length_csi_order)
    fix i m' assume i: "i < length ?xs" and Q: "?Q i m'"
    let ?p = "?xs ! i"
    have p: "in_matrix ?p"
      using nth_mem [OF i] assms(1-3) by (auto simp: set_csi_order in_matrix_def)
    have ix: "csi_index (unat nr) (unat nc) ?p = i"
      using i by (simp add: csi_order_index length_csi_order)
    from put_cell [OF p] show "\<exists>m1 m2. put_imag ?p (sample bs (0 + 2 * i)) m' = Some m1 \<and>
        put_real ?p (sample bs (0 + 2 * i + 1)) m1 = Some m2 \<and> ?Q (Suc i) m2"
      using Q i by (fastforce simp: take_Suc_conv_app_nth csi_cell_def ix)
  qed simp
  moreover have "?Q (length ?xs) m' \<Longrightarrow> m' = csi_spec bs (unat nr) (unat nc) (unat tones) m" for m'
    by (auto simp: csi_spec_def set_csi_order fun_eq_iff)
  ultimately show ?thesis
    using init(1) by (auto simp: fill_csi_matrix_flat)
qed

lemma fill_csi_matrix_needs:
  assumes "fill_csi_matrix bs nr nc tones m = Some m'" and "length bs < 2 ^ 32"
  shows "2 \<le> length bs \<and>
    (unat nr = 0 \<or> unat nc = 0 \<or> unat tones = 0 \<or>
     unat nr \<le> 3 \<and> unat nc \<le> 3 \<and> unat tones \<le> 114 \<and>
     sample_bytes (2 * (unat tones * (unat nc * unat nr))) \<le> length bs)"
proof -
  let ?xs = "csi_order (unat nr) (unat nc) (unat tones)"
  from assms(1) obtain h i where "fetch16 bs 0 = Some (h, i)"
    by (auto simp: fill_csi_matrix_flat bind_eq_Some_conv)
  then have len: "2 \<le> length bs"
    using fetch16_short [of bs 0] assms(2) by (cases "length bs < 2") auto
  from csi_at_init [OF len assms(2)] \<open>fetch16 bs 0 = Some (h, i)\<close>
  have at: "csi_at bs 0 \<lparr>idx = i, current_data = h AND (push_bit 16 1 - 1), bits_left = 16\<rparr>"
    by auto
  from assms(1) \<open>fetch16 bs 0 = Some (h, i)\<close> obtain z where
    "for_each (csi_body bs) ?xs
       (\<lparr>idx = i, current_data = h AND (push_bit 16 1 - 1), bits_left = 16\<rparr>, m) = Some z"
    by (auto simp: fill_csi_matrix_flat bind_eq_Some_conv)
  from csi_rdr.read_loop_needs [OF at this [unfolded csi_body_def]]
  have stores: "\<forall>p \<in> set ?xs. in_matrix p" and
    bytes: "?xs = [] \<or> sample_bytes (2 * length ?xs) \<le> length bs"
    by (auto simp: put_imag_def split: if_splits)
  show ?thesis
  proof (cases "unat nr = 0 \<or> unat nc = 0 \<or> unat tones = 0")
    case False
    then have pos: "0 < unat nr" "0 < unat nc" "0 < unat tones" by simp_all
    then have "?xs \<noteq> []" using length_csi_order [of "unat nr" "unat nc" "unat tones"] by auto
    moreover have "(unat nr - 1, unat nc - 1, unat tones - 1) \<in> set ?xs"
      using pos by (simp add: set_csi_order)
    then have "in_matrix (unat nr - 1, unat nc - 1, unat tones - 1)"
      using stores by blast
    ultimately show ?thesis
      using len bytes pos by (auto simp: in_matrix_def length_csi_order)
  qed (use len in auto)
qed

lemma scast_small:
  assumes "unat (w :: cint) < 2 ^ 31"
  shows "(scast w :: u64) = ucast w"
proof (rule bit_eqI)
  fix n
  have "bit w (min 31 n) = bit w n"
    using bit_small [OF assms, of "min 31 n"] bit_small [OF assms, of n] by (cases "n < 31") auto
  then show "bit (scast w :: u64) n = bit (ucast w :: u64) n"
    by (auto simp: bit_signed_iff bit_unsigned_iff)
qed

lemma unat_pair16: "unat (pair16 hi lo) = unat lo + 256 * unat hi"
proof -
  let ?x = "push_bit 8 (ucast hi :: cint)" and ?y = "ucast lo :: cint"
  have hi: "unat ?x = 256 * unat hi" and lo: "unat ?y = unat lo"
    using unat_push_bit_small [of "ucast hi :: cint" 8] unat_u8_less [of hi]
    by (simp_all add: unat_ucast_up)
  have m1: "?x AND 0xff00 = ?x"
  proof (rule bit_eqI)
    fix n
    have "(0xff00 :: cint) = push_bit 8 (mask 8)" by (simp add: mask_eq_exp_minus_1)
    then show "bit (?x AND 0xff00) n = bit ?x n"
      by (auto simp only: bit_and_iff bit_push_bit_iff bit_mask_iff bit_unsigned_iff dest: bit_imp_le_length) 
         (auto dest: bit_imp_le_length)
  qed
  have m2: "?y AND 0x00ff = ?y"
  proof (rule bit_eqI)
    fix n
    have "(0x00ff :: cint) = mask 8" by (simp add: mask_eq_exp_minus_1)
    then show "bit (?y AND 0x00ff) n = bit ?y n"
      by (auto simp only: bit_and_iff bit_mask_iff bit_unsigned_iff) (auto dest: bit_imp_le_length)
  qed
  have "?y AND ?x = 0"
    by (rule and_push_bit_zero) (simp add: lo)
  then have "?x OR ?y = ?y + ?x"
    by (metis disjunctive_add_eq_or or.commute)
  then have "unat (?x OR ?y) = unat lo + 256 * unat hi"
    using unat_add_lem [of ?y ?x] unat_pair_less [of lo hi] by (simp add: lo hi)
  then show ?thesis
    unfolding pair16_def m1 m2 unsigned_ucast_eq
    using unat_pair_less [of lo hi] by (simp add: take_bit_nat_eq_self)
qed

subsection \<open>What the functions compute\<close>

text \<open>A zeroed status structure, for concrete runs.\<close>

definition zero_status :: csi_struct where
  "zero_status = \<lparr>s_tstamp = 0, s_channel = 0, s_chanBW = 0, s_rate = 0, s_nr = 0, s_nc = 0,
     s_num_tones = 0, s_noise = 0, s_phyerr = 0, s_rssi = 0, s_rssi_0 = 0, s_rssi_1 = 0,
     s_rssi_2 = 0, s_payload_len = 0, s_csi_len = 0, s_buf_len = 0\<rparr>"

lemma fill_csi_matrix_char:
  assumes "length bs < 2 ^ 32"
  shows "fill_csi_matrix bs nr nc tones m =
    (if 2 \<le> length bs \<and>
        (unat nr = 0 \<or> unat nc = 0 \<or> unat tones = 0 \<or>
         unat nr \<le> 3 \<and> unat nc \<le> 3 \<and> unat tones \<le> 114 \<and>
         sample_bytes (2 * (unat tones * (unat nc * unat nr))) \<le> length bs)
     then Some (csi_spec bs (unat nr) (unat nc) (unat tones) m) else None)"
    (is "_ = (if ?ok then _ else _)")
proof (cases ?ok)
  case False
  then show ?thesis
    using fill_csi_matrix_needs [OF _ assms] by (metis option.exhaust)
next
  case True
  show ?thesis
  proof (cases "unat nr = 0 \<or> unat nc = 0 \<or> unat tones = 0")
    case False
    with True show ?thesis using fill_csi_matrix_ok [OF _ _ _ _ _ assms] by simp
  next
    case empty: True
    then have "csi_order (unat nr) (unat nc) (unat tones) = []"
      using length_csi_order [of "unat nr" "unat nc" "unat tones"] by (metis length_0_conv mult_0 mult_0_right)
    moreover have "csi_spec bs (unat nr) (unat nc) (unat tones) m = m"
      using empty by (auto simp: csi_spec_def fun_eq_iff)
    ultimately show ?thesis
      using True csi_at_init [OF _ assms] by (auto simp: fill_csi_matrix_flat)
  qed
qed

text \<open>
  C9. \<open>fill_csi_matrix\<close> is defined exactly when the first two bytes can be read and, unless
  the loops are empty, the reported dimensions fit the array \<open>[3][3][114]\<close> and all the packed
  samples lie inside the buffer. In that case every cell of the reported dimensions gets the
  two 10-bit two's complement samples at its position of the bit stream and every other cell
  is unchanged.
\<close>

theorem fill_csi_matrix_exact:
  assumes "length bs < 2 ^ 32"
  shows "fill_csi_matrix bs nr nc tones m =
    (if 2 \<le> length bs \<and>
        (unat nr = 0 \<or> unat nc = 0 \<or> unat tones = 0 \<or>
         unat nr \<le> 3 \<and> unat nc \<le> 3 \<and> unat tones \<le> 114 \<and>
         sample_bytes (2 * (unat tones * (unat nc * unat nr))) \<le> length bs)
     then Some (csi_spec bs (unat nr) (unat nc) (unat tones) m) else None)"
  by (rule fill_csi_matrix_char [OF assms])

theorem fill_csi_matrix_exact_witness:
  "length [0xff, 0x07, 0x08, 0x00 :: u8] < 2 ^ 32 \<and>
   fill_csi_matrix [0xff, 0x07, 0x08, 0x00] 1 1 1 (\<lambda>_. \<lparr>real = 0, imag = 0\<rparr>) =
     Some (csi_spec [0xff, 0x07, 0x08, 0x00] 1 1 1 (\<lambda>_. \<lparr>real = 0, imag = 0\<rparr>)) \<and>
   csi_spec [0xff, 0x07, 0x08, 0x00] 1 1 1 (\<lambda>_. \<lparr>real = 0, imag = 0\<rparr>) (0, 0, 0) =
     \<lparr>real = - 511, imag = - 1\<rparr>"
  using fill_csi_matrix_exact [of "[0xff, 0x07, 0x08, 0x00]" 1 1 1 "\<lambda>_. \<lparr>real = 0, imag = 0\<rparr>"]
  by (simp add: sample_bytes_def csi_spec_def csi_cell_def csi_index_def sample_def field_def sext_def)

text \<open>Every byte order selects the little-endian branch.\<close>

lemma not_is_big_endian: "\<not> is_big_endian bo"
  by (cases bo) (simp_all add: is_big_endian_def int_repr_def)

lemma record_status_ok:
  assumes "25 \<le> length buf" and "2 \<le> cnt" and "cnt \<le> int (length buf)"
  shows "record_status bo ub buf cnt st = Some (st\<lparr>
    s_tstamp := tstamp_expr ub (rev (take 8 buf)),
    s_csi_len := pair16 (buf ! 9) (buf ! 8), s_channel := pair16 (buf ! 11) (buf ! 10),
    s_buf_len := pair16 (buf ! nat (cnt - 1)) (buf ! nat (cnt - 2)),
    s_payload_len := pair16 (buf ! 24) (buf ! 23),
    s_phyerr := buf ! 12, s_noise := buf ! 13, s_rate := buf ! 14, s_chanBW := buf ! 15,
    s_num_tones := buf ! 16, s_nr := buf ! 17, s_nc := buf ! 18, s_rssi := buf ! 19,
    s_rssi_0 := buf ! 20, s_rssi_1 := buf ! 21, s_rssi_2 := buf ! 22\<rparr>)"
proof -
  have "nat (cnt - 1) < length buf" "nat (cnt - 2) < length buf"
    using assms(2,3) by auto
  then show ?thesis
    using assms by (simp add: record_status_def c_mem not_is_big_endian Let_def min_def)
qed

text \<open>
  C23. On every machine \<open>record_status\<close> decodes the header of a report of \<open>cnt\<close> bytes: the
  16-bit fields are little-endian at offsets 8, 10, 23 and at the last two bytes, the
  single-byte fields are copied from offsets 12 to 22.
\<close>

theorem record_status_fields:
  assumes "25 \<le> length buf" and "2 \<le> cnt" and "cnt \<le> int (length buf)"
  shows "\<exists>st'. record_status bo ub buf cnt st = Some st' \<and>
    unat (s_csi_len st') = le_nat [buf ! 8, buf ! 9] \<and>
    unat (s_channel st') = le_nat [buf ! 10, buf ! 11] \<and>
    unat (s_payload_len st') = le_nat [buf ! 23, buf ! 24] \<and>
    unat (s_buf_len st') = le_nat [buf ! nat (cnt - 2), buf ! nat (cnt - 1)] \<and>
    map (\<lambda>f. f st') [s_phyerr, s_noise, s_rate, s_chanBW, s_num_tones, s_nr, s_nc,
      s_rssi, s_rssi_0, s_rssi_1, s_rssi_2] = map ((!) buf) [12..<23]"
  by (simp add: record_status_ok [OF assms] unat_pair16 upt_conv_Cons)

theorem record_status_fields_witness:
  "\<exists>st'. record_status LittleEndian (\<lambda>_ _. 0) (replicate 8 0 @ [0x34, 0x12] @ replicate 20 7) 30
      zero_status = Some st' \<and>
    unat (s_csi_len st') = 0x1234"
  using record_status_fields [of "replicate 8 0 @ [0x34, 0x12] @ replicate 20 7" 30 LittleEndian
      "\<lambda>_ _. 0" zero_status]
  by (auto simp: nth_append)

lemma shifted_byte_small:
  assumes "n \<le> 16"
  shows "unat (push_bit n (ucast (b :: u8) :: cint)) < 2 ^ 24"
proof -
  have "unat b * 2 ^ n \<le> 255 * 2 ^ 16"
    using unat_u8_less [of b] power_increasing [OF assms, of "2::nat"]
    by (intro mult_le_mono) (simp_all del: unat_u8_less)
  then show ?thesis
    using unat_push_bit_small [of "ucast b :: cint" n] by (simp add: unat_ucast_up)
qed

lemma shifted_byte_masked:
  assumes "n \<le> 16" and "24 \<le> k"
  shows "scast (push_bit n (ucast (b :: u8) :: cint)) AND push_bit k m = (0 :: u64)"
proof (rule and_push_bit_zero)
  let ?w = "push_bit n (ucast b :: cint)"
  have w: "unat ?w < 2 ^ 24" by (rule shifted_byte_small [OF assms(1)])
  then have sc: "(scast ?w :: u64) = ucast ?w" by (intro scast_small) simp
  have "unat (ucast ?w :: u64) = unat ?w" by (rule unat_ucast_up) simp
  then have "unat (scast ?w :: u64) = unat ?w" by (simp only: sc)
  with w show "unat (scast ?w :: u64) < 2 ^ k"
    using power_increasing [OF assms(2), of "2::nat"] by linarith
qed

lemma tstamp_expr_high_zero:
  "tstamp_expr ub [b7, b6, b5, b4, b3, b2, b1, b0] = tstamp_expr ub [b7, b6, b5, b4, b3, 0, 0, 0]"
proof -
  have "ucast b AND push_bit 56 255 = (0 :: u64)" for b :: u8
    using unat_u8_less [of b] by (intro and_push_bit_zero) (simp add: unat_ucast_up del: unat_u8_less)
  then have b0: "ucast b AND 0xff00000000000000 = (0 :: u64)" for b :: u8 by simp
  have b1: "scast (push_bit 8 (ucast b :: cint)) AND 0x00ff000000000000 = (0 :: u64)" for b :: u8
    using shifted_byte_masked [of 8 48 b 255] by simp
  have b2: "scast (push_bit 16 (ucast b :: cint)) AND 0x0000ff0000000000 = (0 :: u64)" for b :: u8
    using shifted_byte_masked [of 16 40 b 255] by simp
  show ?thesis
    by (simp add: tstamp_expr_def shl_int_def b0 b1 b2)
qed

text \<open>
  Whatever the compiler makes of the over-wide shifts, the time stamp that
  \<open>record_status\<close> stores does not depend on the three least significant bytes of the
  little-endian time stamp in the report (code bug: consecutive time stamps collapse).
\<close>

lemma record_status_tstamp_ignores_low_bytes:
  assumes "25 \<le> length buf" and "2 \<le> cnt" and "cnt \<le> int (length buf)"
  shows "map_option s_tstamp (record_status bo ub (buf[0 := x, 1 := y, 2 := z]) cnt st) =
         map_option s_tstamp (record_status bo ub buf cnt st)"
proof -
  obtain b0 b1 b2 b3 b4 b5 b6 b7 bs where buf: "buf = b0 # b1 # b2 # b3 # b4 # b5 # b6 # b7 # bs"
    using assms(1) by (auto simp: numeral_eq_Suc Suc_le_length_iff)
  have "length (buf[0 := x, 1 := y, 2 := z]) = length buf" by simp
  then show ?thesis
    using assms tstamp_expr_high_zero [of ub b7 b6 b5 b4 b3 b2 b1 b0]
      tstamp_expr_high_zero [of ub b7 b6 b5 b4 b3 z y x]
    by (simp add: record_status_ok) (simp add: buf numeral_2_eq_2)
qed

lemma copy_payload_exact:
  "for_each (\<lambda>i d. do {
       v \<leftarrow> rd buf (csi_st_len + cl + i + 1);
       wr d (i - 1) v }) [1..<n + 1] d =
   (if n = 0 \<or> 25 + cl + n \<le> length buf \<and> n \<le> length d
    then Some (take n (drop (25 + cl) buf) @ drop n d) else None)"
proof (induction n)
  case 0
  then show ?case by simp
next
  case (Suc n)
  have split: "[1..<Suc n + 1] = [1..<n + 1] @ [n + 1]" by simp
  show ?case
  proof (cases "25 + cl + Suc n \<le> length buf \<and> Suc n \<le> length d")
    case True
    then have "n < length (drop (25 + cl) buf)" by auto
    then have "take (Suc n) (drop (25 + cl) buf) = take n (drop (25 + cl) buf) @ [buf ! (25 + cl + n)]"
      by (simp add: take_Suc_conv_app_nth)
    moreover have "(take n (drop (25 + cl) buf) @ drop n d)[n := v] =
        take n (drop (25 + cl) buf) @ v # drop (Suc n) d" for v
    proof -
      have "length (take n (drop (25 + cl) buf)) = n" using True by auto
      moreover have "drop n d = d ! n # drop (Suc n) d" using True by (simp add: Cons_nth_drop_Suc)
      ultimately show ?thesis by (simp add: list_update_append)
    qed
    moreover have "n < length (take n (drop (25 + cl) buf) @ drop n d)" using True by auto
    ultimately show ?thesis
      using True Suc unfolding split for_each_snoc by (simp add: c_mem add_ac)
  next
    case False
    show ?thesis
    proof (cases "n = 0 \<or> 25 + cl + n \<le> length buf \<and> n \<le> length d")
      case True
      let ?e = "take n (drop (25 + cl) buf) @ drop n d"
      have "length ?e = length d" using True by auto
      with False have "length buf \<le> csi_st_len + cl + (n + 1) + 1 \<or> length ?e \<le> n"
        by linarith
      then have "do { v \<leftarrow> rd buf (csi_st_len + cl + (n + 1) + 1); wr ?e (n + 1 - 1) v } = None"
        by (cases "rd buf (csi_st_len + cl + (n + 1) + 1)") (auto simp: rd_def wr_def split: if_splits)
      with True False Suc show ?thesis
        unfolding split for_each_snoc by simp
    next
      case nf: False
      with Suc have "for_each (\<lambda>i d. do {
         v \<leftarrow> rd buf (csi_st_len + cl + i + 1);
         wr d (i - 1) v }) [1..<n + 1] d = None" by simp
      with False show ?thesis
        unfolding split for_each_snoc by simp
    qed
  qed
qed

lemma sample_bytes_full:
  assumes "nr \<le> 3" "nc \<le> 3" "tones \<le> (114::nat)"
  shows "sample_bytes (2 * (tones * (nc * nr))) \<le> 2566"
proof -
  have "nc * nr \<le> 3 * 3" using assms by (intro mult_le_mono)
  then have "tones * (nc * nr) \<le> 114 * (3 * 3)" using assms by (intro mult_le_mono)
  then have "sample_bytes (2 * (tones * (nc * nr))) \<le> sample_bytes (2 * (114 * (3 * 3)))"
    by (intro sample_bytes_mono mult_le_mono2)
  then show ?thesis by (simp add: sample_bytes_def)
qed

lemma record_csi_payload_char:
  assumes "length buf = 4096" and "length data_buf = 1500"
  shows "record_csi_payload buf st data_buf m =
    (let nr = unat (s_nr st); nc = unat (s_nc st); tones = unat (s_num_tones st);
         pl = unat (s_payload_len st); cl = unat (s_csi_len st)
     in if (pl = 0 \<or> 25 + cl + pl \<le> 4096 \<and> pl \<le> 1500) \<and>
           (nr = 0 \<or> nc = 0 \<or> tones = 0 \<or> nr \<le> 3 \<and> nc \<le> 3 \<and> tones \<le> 114)
        then Some (take pl (drop (25 + cl) buf) @ drop pl data_buf,
                   csi_spec (drop 25 buf) nr nc tones m)
        else None)"
proof -
  have fill: "fill_csi_matrix (drop 25 buf) (s_nr st) (s_nc st) (s_num_tones st) m =
    (if unat (s_nr st) = 0 \<or> unat (s_nc st) = 0 \<or> unat (s_num_tones st) = 0 \<or>
        unat (s_nr st) \<le> 3 \<and> unat (s_nc st) \<le> 3 \<and> unat (s_num_tones st) \<le> 114
     then Some (csi_spec (drop 25 buf) (unat (s_nr st)) (unat (s_nc st)) (unat (s_num_tones st)) m)
     else None)"
    using fill_csi_matrix_char [of "drop 25 buf" "s_nr st" "s_nc st" "s_num_tones st" m] assms(1)
      sample_bytes_full [of "unat (s_nr st)" "unat (s_nc st)" "unat (s_num_tones st)"]
    by auto
  show ?thesis
    using copy_payload_exact [of buf "unat (s_csi_len st)" "unat (s_payload_len st)" data_buf] assms
    by (simp add: record_csi_payload_def Let_def fill)
qed


text \<open>
  C18. On the program's own buffers (4096 bytes of report, 1500 bytes of payload),
  \<open>record_csi_payload\<close> is defined exactly when the reported payload fits both buffers and the
  reported dimensions are empty or fit the matrix; it then stores the payload that follows the
  CSI block and the matrix that the block describes. No length field has to be trusted for the
  matrix: 114 tones of a 3 by 3 matrix always end inside the report buffer.
\<close>

theorem record_csi_payload_exact:
  assumes "length buf = 4096" and "length data_buf = 1500"
  shows "record_csi_payload buf st data_buf m =
    (let nr = unat (s_nr st); nc = unat (s_nc st); tones = unat (s_num_tones st);
         pl = unat (s_payload_len st); cl = unat (s_csi_len st)
     in if (pl = 0 \<or> 25 + cl + pl \<le> 4096 \<and> pl \<le> 1500) \<and>
           (nr = 0 \<or> nc = 0 \<or> tones = 0 \<or> nr \<le> 3 \<and> nc \<le> 3 \<and> tones \<le> 114)
        then Some (take pl (drop (25 + cl) buf) @ drop pl data_buf,
                   csi_spec (drop 25 buf) nr nc tones m)
        else None)"
  by (rule record_csi_payload_char [OF assms])

theorem record_csi_payload_exact_witness:
  "length (replicate 4096 (1::u8)) = 4096 \<and> length (replicate 1500 (0::u8)) = 1500 \<and>
   (\<exists>m'. record_csi_payload (replicate 4096 1)
      (zero_status\<lparr>s_nr := 3, s_nc := 3, s_num_tones := 114, s_payload_len := 2, s_csi_len := 2565\<rparr>)
      (replicate 1500 0) (\<lambda>_. \<lparr>real = 0, imag = 0\<rparr>) = Some (replicate 2 1 @ replicate 1498 0, m'))"
  using record_csi_payload_exact [of "replicate 4096 1" "replicate 1500 0"
      "zero_status\<lparr>s_nr := 3, s_nc := 3, s_num_tones := 114, s_payload_len := 2, s_csi_len := 2565\<rparr>" "\<lambda>_. \<lparr>real = 0, imag = 0\<rparr>"]
  by (simp add: Let_def)

end
