(* ===== verification/CsiMain.thy ===== *)
theory CsiMain
  imports CsiFun
begin

text \<open>
  The main program of the file-logging receiver (\<open>recvCSIToFile/main.c\<close>). Its globals and the
  contents of the output file are one record. What the kernel does is input: the result of
  \<open>fopen\<close> and of opening the device, and for every call of \<open>read\<close> its return value together
  with the contents of the report buffer afterwards. A run of the receiver consumes a list of
  such reads.
\<close>

subsection \<open>State\<close>

abbreviation BUFSIZE :: nat where
  "BUFSIZE \<equiv> 4096"

record recv_state =
  quit :: int
  buf_addr :: bytes
  data_buf :: bytes
  g_matrix :: csi_matrix
  g_status :: csi_struct
  total_msg_cnt :: cint
  log_flag :: bool
  fp :: "bytes option"
  printed :: "(cint \<times> u8 \<times> u16) list"

definition sig_handler :: "int \<Rightarrow> recv_state \<Rightarrow> recv_state" where
  "sig_handler signo s = (if signo = 2 then s\<lparr>quit := 1\<rparr> else s)"

subsection \<open>Start-up\<close>

text \<open>
  \<open>Inl r\<close> is the program returning \<open>r\<close>, \<open>Inr s\<close> the state in which the receive loop starts.
  \<open>st0\<close> is the uninitialised status structure that \<open>malloc\<close> returned. \<open>fclose\<close> of the null
  pointer is undefined.
\<close>

definition recv_start :: "nat \<Rightarrow> bool \<Rightarrow> int \<Rightarrow> int \<Rightarrow> csi_struct \<Rightarrow> (int + recv_state) option" where
  "recv_start argc fopen_ok fd errno st0 =
     (if argc = 2 \<and> \<not> fopen_ok then None
      else if 2 < argc then Some (Inl 0)
      else if fd < 0 then Some (Inl errno)
      else Some (Inr \<lparr>quit = 0, buf_addr = replicate BUFSIZE 0, data_buf = replicate 1500 0,
        g_matrix = (\<lambda>_. \<lparr>real = 0, imag = 0\<rparr>), g_status = st0, total_msg_cnt = 0,
        log_flag = (argc \<noteq> 1), fp = (if argc = 2 then Some [] else None), printed = []\<rparr>))"

subsection \<open>The receive loop\<close>

definition u16_repr :: "byte_order \<Rightarrow> u16 \<Rightarrow> bytes" where
  "u16_repr bo x = (case bo of LittleEndian \<Rightarrow> [ucast x, ucast (drop_bit 8 x)]
     | BigEndian \<Rightarrow> [ucast (drop_bit 8 x), ucast x])"

definition log_message :: "byte_order \<Rightarrow> recv_state \<Rightarrow> recv_state option" where
  "log_message bo s =
     (if log_flag s then do {
        out \<leftarrow> fp s;
        let buf_len = s_buf_len (g_status s);
        block \<leftarrow> rd_range (buf_addr s) 0 (unat buf_len);
        Some (s\<lparr>fp := Some (out @ u16_repr bo buf_len @ block)\<rparr>) }
      else Some s)"

definition recv_step ::
    "byte_order \<Rightarrow> (cint \<Rightarrow> nat \<Rightarrow> cint) \<Rightarrow> int \<times> bytes \<Rightarrow> recv_state \<Rightarrow> (int + recv_state) option" where
  "recv_step bo ub ret s =
     (if quit s = 1 then Some (Inl 0)
      else do {
        let (cnt, buf) = read_csi_buf ret;
        let s = s\<lparr>buf_addr := buf\<rparr>;
        if cnt \<noteq> 0 then do {
          let s = s\<lparr>total_msg_cnt := total_msg_cnt s + 1\<rparr>;
          st \<leftarrow> record_status bo ub (buf_addr s) cnt (g_status s);
          let s = s\<lparr>g_status := st\<rparr>;
          (d, m) \<leftarrow> record_csi_payload (buf_addr s) (g_status s) (data_buf s) (g_matrix s);
          let s = s\<lparr>data_buf := d, g_matrix := m,
                   printed := printed s @ [(total_msg_cnt s, s_rate st, s_payload_len st)]\<rparr>;
          s \<leftarrow> log_message bo s;
          Some (Inr s) }
        else Some (Inr s) })"

fun recv_loop ::
    "byte_order \<Rightarrow> (cint \<Rightarrow> nat \<Rightarrow> cint) \<Rightarrow> (int \<times> bytes) list \<Rightarrow> recv_state \<Rightarrow>
     (int + recv_state) option" where
  "recv_loop bo ub [] s = Some (Inr s)"
| "recv_loop bo ub (e # es) s =
     (case recv_step bo ub e s of
        None \<Rightarrow> None
      | Some (Inl r) \<Rightarrow> Some (Inl r)
      | Some (Inr s') \<Rightarrow> recv_loop bo ub es s')"

subsection \<open>Well-formed reports\<close>

text \<open>
  What the receiver needs of a read that delivers a report: the length fields stay inside the
  buffers and the dimensions inside the matrix. \<open>le16_at buf i\<close> is the 16-bit field at \<open>i\<close>.
\<close>

definition le16_at :: "bytes \<Rightarrow> nat \<Rightarrow> nat" where
  "le16_at buf i = le_nat [buf ! i, buf ! (i + 1)]"

definition wf_report :: "int \<times> bytes \<Rightarrow> bool" where
  "wf_report ret = (case ret of (cnt, buf) \<Rightarrow>
     length buf = BUFSIZE \<and>
     (cnt = 0 \<or>
      2 \<le> cnt \<and> cnt \<le> int BUFSIZE \<and>
      le16_at buf (nat cnt - 2) \<le> BUFSIZE \<and>
      (le16_at buf 23 = 0 \<or>
       25 + le16_at buf 8 + le16_at buf 23 \<le> BUFSIZE \<and> le16_at buf 23 \<le> 1500) \<and>
      unat (buf ! 16) \<le> 114 \<and> unat (buf ! 17) \<le> 3 \<and> unat (buf ! 18) \<le> 3))"

text \<open>The bytes that one read adds to the log, and the log of a run.\<close>

definition report_block :: "int \<times> bytes \<Rightarrow> bytes" where
  "report_block ret = (case ret of (cnt, buf) \<Rightarrow> take (le16_at buf (nat cnt - 2)) buf)"

definition log_entry :: "bytes \<Rightarrow> bytes" where
  "log_entry block = u16_repr LittleEndian (of_nat (length block)) @ block"

text \<open>
  The framing that the off-line reader relies on: a little-endian length and that many bytes,
  repeated to the end of the file.
\<close>

function split_log :: "bytes \<Rightarrow> bytes list option" where
  "split_log xs =
     (if xs = [] then Some []
      else if length xs < 2 \<or> length xs < 2 + le16_at xs 0 then None
      else map_option (\<lambda>bs. take (le16_at xs 0) (drop 2 xs) # bs)
             (split_log (drop (2 + le16_at xs 0) xs)))"
  by pat_completeness auto
termination
  by (relation "measure length") auto

declare split_log.simps [simp del]

subsection \<open>Lemmas\<close>

lemma le16_at_less: "le16_at buf i < 65536"
  using unat_pair_less by (simp add: le16_at_def)

lemma u16_repr_pair: "u16_repr LittleEndian (pair16 hi lo) = [lo, hi]"
proof -
  have lo: "ucast (pair16 hi lo) = lo"
  proof (rule unsigned_word_eqI)
    show "unat (ucast (pair16 hi lo) :: u8) = unat lo"
      unfolding unsigned_ucast_eq by (simp add: unat_pair16 take_bit_eq_mod)
  qed
  have hi: "ucast (drop_bit 8 (pair16 hi lo)) = hi"
  proof (rule unsigned_word_eqI)
    have "unat (drop_bit 8 (pair16 hi lo)) = unat hi"
      unfolding unat_drop_bit_eq by (simp add: unat_pair16 drop_bit_eq_div)
    then show "unat (ucast (drop_bit 8 (pair16 hi lo)) :: u8) = unat hi"
      unfolding unsigned_ucast_eq by (simp add: take_bit_nat_eq_self)
  qed
  from lo hi show ?thesis by (simp add: u16_repr_def)
qed

lemma u16_of_nat_split:
  assumes "n < 65536"
  shows "le_nat (u16_repr LittleEndian (of_nat n)) = n"
proof -
  have n: "unat (of_nat n :: u16) = n"
    using assms by (simp add: unsigned_of_nat take_bit_nat_eq_self)
  have "unat (ucast (of_nat n :: u16) :: u8) = n mod 256"
    unfolding unsigned_ucast_eq by (simp only: n take_bit_eq_mod) simp
  moreover have "unat (ucast (drop_bit 8 (of_nat n :: u16)) :: u8) = n div 256"
  proof -
    have "unat (drop_bit 8 (of_nat n :: u16)) = n div 256"
      unfolding unat_drop_bit_eq by (simp only: n drop_bit_eq_div) simp
    then show ?thesis
      unfolding unsigned_ucast_eq using assms by (simp only: take_bit_eq_mod) simp
  qed
  ultimately show ?thesis by (simp add: u16_repr_def)
qed

lemma split_log_entry:
  assumes "length b < 65536"
  shows "split_log (log_entry b @ rest) = map_option ((#) b) (split_log rest)"
proof -
  obtain x y where xy: "u16_repr LittleEndian (of_nat (length b)) = [x, y]"
    by (simp add: u16_repr_def)
  have "le16_at (log_entry b @ rest) 0 = length b"
    using u16_of_nat_split [OF assms] by (simp add: le16_at_def log_entry_def xy)
  then show ?thesis
    by (subst split_log.simps) (simp add: log_entry_def xy)
qed

lemma split_log_entries:
  "(\<forall>b \<in> set bs. length b < 65536) \<Longrightarrow> split_log (concat (map log_entry bs)) = Some bs"
  by (induction bs) (simp_all add: split_log_entry, simp add: split_log.simps)

definition recv_inv :: "recv_state \<Rightarrow> bool" where
  "recv_inv s \<longleftrightarrow> quit s = 0 \<and> length (data_buf s) = 1500 \<and> (log_flag s \<longleftrightarrow> fp s \<noteq> None)"

definition run_log :: "(int \<times> bytes) list \<Rightarrow> bytes" where
  "run_log es = concat (map (\<lambda>e. log_entry (report_block e)) (filter (\<lambda>e. fst e \<noteq> 0) es))"

lemma wf_report_status:
  assumes "wf_report (cnt, buf)" and "cnt \<noteq> 0"
  shows "\<exists>st'. record_status bo ub buf cnt st = Some st' \<and>
    unat (s_payload_len st') = le16_at buf 23 \<and> unat (s_csi_len st') = le16_at buf 8 \<and>
    s_buf_len st' = pair16 (buf ! nat (cnt - 1)) (buf ! nat (cnt - 2)) \<and>
    s_num_tones st' = buf ! 16 \<and> s_nr st' = buf ! 17 \<and> s_nc st' = buf ! 18"
  using record_status_ok [of buf cnt bo ub st] assms
  by (auto simp: wf_report_def le16_at_def unat_pair16)

lemma wf_report_payload:
  assumes "wf_report (cnt, buf)" and "cnt \<noteq> 0" and "length d = 1500"
    and "unat (s_payload_len st) = le16_at buf 23" and "unat (s_csi_len st) = le16_at buf 8"
    and "s_num_tones st = buf ! 16" and "s_nr st = buf ! 17" and "s_nc st = buf ! 18"
  shows "\<exists>d' m'. record_csi_payload buf st d m = Some (d', m') \<and> length d' = 1500"
proof -
  have "length buf = 4096" using assms(1) by (simp add: wf_report_def)
  from record_csi_payload_char [OF this assms(3)] show ?thesis
    using assms by (auto simp: wf_report_def Let_def)
qed

lemma log_message_ok:
  assumes "length (buf_addr s) = 4096" and "log_flag s \<longleftrightarrow> fp s \<noteq> None"
    and "unat (s_buf_len (g_status s)) \<le> 4096"
  shows "log_message bo s = Some (s\<lparr>fp := map_option (\<lambda>out. out @ u16_repr bo (s_buf_len (g_status s)) @
     take (unat (s_buf_len (g_status s))) (buf_addr s)) (fp s)\<rparr>)"
  using assms by (cases "fp s") (auto simp: log_message_def c_mem Let_def)

lemma recv_step_ok:
  assumes "wf_report e" and "recv_inv s"
  shows "\<exists>s'. recv_step LittleEndian ub e s = Some (Inr s') \<and> recv_inv s' \<and>
    fp s' = map_option (\<lambda>out. out @ (if fst e = 0 then [] else log_entry (report_block e))) (fp s) \<and>
    total_msg_cnt s' = total_msg_cnt s + (if fst e = 0 then 0 else 1)"
proof (cases e)
  case (Pair cnt buf)
  show ?thesis
  proof (cases "cnt = 0")
    case True
    with assms(2) Pair show ?thesis
      by (simp add: recv_step_def read_csi_buf_def recv_inv_def option.map_ident)
  next
    case False
    let ?s = "s\<lparr>buf_addr := buf, total_msg_cnt := total_msg_cnt s + 1\<rparr>"
    from assms(1) Pair have wf: "wf_report (cnt, buf)" by simp
    from wf_report_status [OF wf False] obtain st where
      st: "record_status LittleEndian ub buf cnt (g_status s) = Some st"
        "unat (s_payload_len st) = le16_at buf 23" "unat (s_csi_len st) = le16_at buf 8"
        "s_buf_len st = pair16 (buf ! nat (cnt - 1)) (buf ! nat (cnt - 2))"
        "s_num_tones st = buf ! 16" "s_nr st = buf ! 17" "s_nc st = buf ! 18" by blast
    have "length (data_buf s) = 1500" using assms(2) by (simp add: recv_inv_def)
    from wf_report_payload [OF wf False this st(2,3,5,6,7)] obtain d m where
      dm: "record_csi_payload buf st (data_buf s) (g_matrix s) = Some (d, m)" "length d = 1500" by blast
    have cnt: "2 \<le> cnt" "cnt \<le> 4096" "length buf = 4096"
      "le16_at buf (nat cnt - 2) \<le> 4096"
      using wf False by (auto simp: wf_report_def)
    have idx: "nat (cnt - 2) = nat cnt - 2" "nat (cnt - 1) = nat cnt - 2 + 1"
      using cnt(1) by linarith+
    have len: "unat (s_buf_len st) = le16_at buf (nat cnt - 2)"
      by (simp add: st(4) unat_pair16 le16_at_def idx)
    have entry: "u16_repr LittleEndian (s_buf_len st) @ take (unat (s_buf_len st)) buf =
        log_entry (report_block e)"
    proof -
      have "length (take (le16_at buf (nat cnt - 2)) buf) = le16_at buf (nat cnt - 2)"
        using cnt by simp
      moreover have "of_nat (le16_at buf (nat cnt - 2)) = s_buf_len st"
        by (simp flip: len)
      ultimately show ?thesis
        by (simp add: log_entry_def report_block_def Pair len)
    qed
    have "unat (s_buf_len st) \<le> 4096" using cnt(4) by (simp add: len)
    then show ?thesis
      using assms(2) Pair False cnt(3) st(1) dm entry
      by (simp add: recv_step_def read_csi_buf_def Let_def log_message_ok recv_inv_def)
  qed
qed

lemma recv_loop_ok:
  assumes "list_all wf_report es" and "recv_inv s"
  shows "\<exists>s'. recv_loop LittleEndian ub es s = Some (Inr s') \<and> recv_inv s' \<and>
    fp s' = map_option (\<lambda>out. out @ run_log es) (fp s) \<and>
    total_msg_cnt s' = total_msg_cnt s + of_nat (length (filter (\<lambda>e. fst e \<noteq> 0) es))"
  using assms
proof (induction es arbitrary: s)
  case Nil
  then show ?case by (simp add: run_log_def option.map_ident)
next
  case (Cons e es)
  from Cons.prems recv_step_ok [of e s ub] obtain s1 where
    s1: "recv_step LittleEndian ub e s = Some (Inr s1)" "recv_inv s1"
      "fp s1 = map_option (\<lambda>out. out @ (if fst e = 0 then [] else log_entry (report_block e))) (fp s)"
      "total_msg_cnt s1 = total_msg_cnt s + (if fst e = 0 then 0 else 1)" by auto
  from Cons.IH [OF _ s1(2)] Cons.prems(1) obtain s' where
    "recv_loop LittleEndian ub es s1 = Some (Inr s')" "recv_inv s'"
      "fp s' = map_option (\<lambda>out. out @ run_log es) (fp s1)"
      "total_msg_cnt s' = total_msg_cnt s1 + of_nat (length (filter (\<lambda>e. fst e \<noteq> 0) es))" by auto
  with s1 show ?case
    by (auto simp: run_log_def option.map_comp comp_def add_ac)
qed

lemma recv_start_inv:
  "recv_start argc ok fd err st0 = Some (Inr s) \<Longrightarrow> 0 < argc \<Longrightarrow>
     recv_inv s \<and> fp s = (if argc = 2 then Some [] else None) \<and> total_msg_cnt s = 0"
  by (auto simp: recv_start_def recv_inv_def split: if_splits)

lemma report_block_less: "length (report_block e) < 65536"
  using le16_at_less by (auto simp: report_block_def min_def split: prod.splits)
    (meson le_less_trans not_le)

subsection \<open>Properties\<close>



text \<open>
  A failed \<open>read\<close> (return value \<open>-1\<close>) is not treated as an error: the receiver takes it
  for a report and reads in front of the report buffer (code bug).
\<close>

lemma recv_step_read_error:
  assumes "quit s \<noteq> 1" and "cnt < 0"
  shows "recv_step bo ub (cnt, buf) s = None"
  using assms
  by (cases "rd_range buf 0 23"; cases "rd buf csi_st_len"; cases "rd buf (csi_st_len + 1)")
     (simp_all add: recv_step_def read_csi_buf_def Let_def record_status_def c_mem)

end
