(* ===== verification/MexRead.thy ===== *)
theory MexRead
  imports CsiFun
begin

text \<open>
  The two C gateways that Matlab uses off-line: \<open>matlab/read_csi.c\<close> unpacks the 10-bit samples of
  an Atheros report, \<open>matlab/read_bfee.c\<close> the 8-bit samples of an Intel 5300 report. The arguments
  of a gateway are what Matlab hands over: the numbers of inputs and outputs, whether the first
  input is a byte array, its bytes and the dimensions. \<open>mexErrMsgIdAndTxt\<close> does not return; it is
  the left value of the result. A double that holds an integer is that integer. The output
  arrays are written front to back through \<open>ptrR\<close> and \<open>ptrI\<close>; they are lists of the cells written
  so far, and writing more cells than Matlab allocated is undefined. The dimensions are the
  32-bit words that the gateway finds at the three argument pointers. Plain \<open>char\<close> is signed.
\<close>

datatype mex_error = WrongNrhs | WrongNlhs | NotBytes | WrongSize

subsection \<open>read-csi.c\<close>

definition signbit_convert :: "cint \<Rightarrow> nat \<Rightarrow> cint" where
  "signbit_convert data maxbit =
     (if data AND push_bit (maxbit - 1) 1 \<noteq> 0 then data - push_bit maxbit 1 else data)"

record mex_reader =
  mx_idx :: u32
  mx_current_data :: u32
  mx_bits_left :: cint

definition mex_fetch16 :: "bytes \<Rightarrow> u32 \<Rightarrow> (u32 \<times> u32) option" where
  "mex_fetch16 local_h i = do {
     b0 \<leftarrow> rd local_h (unat i);
     b1 \<leftarrow> rd local_h (unat (i + 1));
     Some (ucast b0 + ucast (push_bit 8 (ucast b1 :: cint)), i + 2) }"

definition mex_refill :: "bytes \<Rightarrow> mex_reader \<Rightarrow> mex_reader option" where
  "mex_refill local_h st =
     (if sint (mx_bits_left st - 10) < 0
      then do {
        (h_data, i) \<leftarrow> mex_fetch16 local_h (mx_idx st);
        Some (st\<lparr>mx_idx := i,
                mx_current_data := mx_current_data st + push_bit (unat (mx_bits_left st)) h_data,
                mx_bits_left := mx_bits_left st + 16\<rparr>) }
      else Some st)"

definition mex_next :: "bytes \<Rightarrow> mex_reader \<Rightarrow> (cint \<times> mex_reader) option" where
  "mex_next local_h st = do {
     st \<leftarrow> mex_refill local_h st;
     let v = signbit_convert (ucast (mx_current_data st AND (push_bit 10 1 - 1))) 10;
     Some (v, st\<lparr>mx_bits_left := mx_bits_left st - 10,
               mx_current_data := drop_bit 10 (mx_current_data st)\<rparr>) }"

text \<open>The output array: allocated cells, the real parts and the imaginary parts written.\<close>

record mex_array =
  cells :: nat
  ptrR :: "int list"
  ptrI :: "int list"

definition put_I :: "'p \<Rightarrow> cint \<Rightarrow> mex_array \<Rightarrow> mex_array option" where
  "put_I p v m = (if length (ptrI m) < cells m then Some (m\<lparr>ptrI := ptrI m @ [sint v]\<rparr>) else None)"

definition put_R :: "'p \<Rightarrow> cint \<Rightarrow> mex_array \<Rightarrow> mex_array option" where
  "put_R p v m = (if length (ptrR m) < cells m then Some (m\<lparr>ptrR := ptrR m @ [sint v]\<rparr>) else None)"

definition mex_body :: "bytes \<Rightarrow> nat \<times> nat \<times> nat \<Rightarrow> mex_reader \<times> mex_array \<Rightarrow>
    (mex_reader \<times> mex_array) option" where
  "mex_body local_h = (\<lambda>p (st, m). do {
     (im, st) \<leftarrow> mex_next local_h st;
     m \<leftarrow> put_I p im m;
     (re, st) \<leftarrow> mex_next local_h st;
     m \<leftarrow> put_R p re m;
     Some (st, m) })"

definition read_csi_mexFunction ::
    "nat \<Rightarrow> nat \<Rightarrow> bool \<Rightarrow> bytes \<Rightarrow> u32 \<Rightarrow> u32 \<Rightarrow> u32 \<Rightarrow> (mex_error + mex_array) option" where
  "read_csi_mexFunction nlhs nrhs is_uint8 local_h nr nc num_tones =
     (if nrhs \<noteq> 4 then Some (Inl WrongNrhs)
      else if nlhs \<noteq> 1 then Some (Inl WrongNlhs)
      else if \<not> is_uint8 then Some (Inl NotBytes)
      else do {
        let csi = \<lparr>cells = unat nr * unat nc * unat num_tones, ptrR = [], ptrI = []\<rparr>;
        (h_data, i) \<leftarrow> mex_fetch16 local_h 0;
        let st = \<lparr>mx_idx = i, mx_current_data = h_data AND (push_bit 16 1 - 1), mx_bits_left = 16\<rparr>;
        (st, csi) \<leftarrow>
          for_each (\<lambda>k.
            for_each (\<lambda>nc_idx.
              for_each (\<lambda>nr_idx. mex_body local_h (nr_idx, nc_idx, k))
                [0..<unat nr]) [0..<unat nc]) [0..<unat num_tones] (st, csi);
        Some (Inr csi) })"

subsection \<open>read-bfee.c\<close>

record bfee =
  timestamp_low :: u32
  bfee_count :: u16
  Nrx :: u32
  Ntx :: u32
  rssi_a :: u32
  rssi_b :: u32
  rssi_c :: u32
  b_noise :: int
  agc :: u32
  perm :: "u32 list"
  b_rate :: u32
  csiR :: "int list"
  csiI :: "int list"

text \<open>One byte at bit offset \<open>8 * q + r\<close>, assembled from two bytes in \<open>int\<close> and cut to \<open>char\<close>.\<close>

definition bfee_byte :: "bytes \<Rightarrow> nat \<Rightarrow> nat \<Rightarrow> int option" where
  "bfee_byte payload q r = do {
     x \<leftarrow> rd payload q;
     y \<leftarrow> rd payload (q + 1);
     let tmp = (ucast (drop_bit r (ucast x :: cint) OR push_bit (8 - r) (ucast y)) :: u8);
     Some (sint tmp) }"

definition bfee_inner :: "bytes \<Rightarrow> u32 \<Rightarrow> 'j \<Rightarrow> u32 \<times> int list \<times> int list \<Rightarrow>
    (u32 \<times> int list \<times> int list) option" where
  "bfee_inner payload remainder j = (\<lambda>(index, R, I). do {
     re \<leftarrow> bfee_byte payload (unat (index div 8)) (unat remainder);
     im \<leftarrow> bfee_byte payload (unat (index div 8 + 1)) (unat remainder);
     Some (index + 16, R @ [re], I @ [im]) })"

definition bfee_outer :: "bytes \<Rightarrow> nat \<Rightarrow> 'i \<Rightarrow> u32 \<times> int list \<times> int list \<Rightarrow>
    (u32 \<times> int list \<times> int list) option" where
  "bfee_outer payload n i = (\<lambda>(index, R, I). do {
     let index = index + 3;
     let remainder = index mod 8;
     for_each (bfee_inner payload remainder) [0..<n] (index, R, I) })"

definition read_bfee :: "bytes \<Rightarrow> (mex_error + bfee) option" where
  "read_bfee inBytes = do {
     b \<leftarrow> rd_range inBytes 0 20;
     let u = (\<lambda>i. (ucast (b ! i) :: u32));
     let nrx = u 8;
     let ntx = u 9;
     let antenna_sel = u 15;
     let len = u 16 + push_bit 8 (u 17);
     let calc_len = (30 * (nrx * ntx * 8 * 2 + 3) + 7) div 8;
     if len \<noteq> calc_len then Some (Inl WrongSize)
     else do {
       (index, R, I) \<leftarrow> for_each (bfee_outer (drop 20 inBytes) (unat (nrx * ntx))) [0..<30] (0, [], []);
       Some (Inr \<lparr>timestamp_low = u 0 + push_bit 8 (u 1) + push_bit 16 (u 2) + push_bit 24 (u 3),
         bfee_count = ucast (u 4 + push_bit 8 (u 5)), Nrx = nrx, Ntx = ntx,
         rssi_a = u 10, rssi_b = u 11, rssi_c = u 12, b_noise = sint (b ! 13), agc = u 14,
         perm = [(antenna_sel AND 3) + 1, (drop_bit 2 antenna_sel AND 3) + 1,
                 (drop_bit 4 antenna_sel AND 3) + 1],
         b_rate = u 18 + push_bit 8 (u 19), csiR = R, csiI = I\<rparr>) } }"

definition read_bfee_mexFunction :: "nat \<Rightarrow> nat \<Rightarrow> bool \<Rightarrow> bytes \<Rightarrow> (mex_error + bfee) option" where
  "read_bfee_mexFunction nlhs nrhs is_uint8 inBytes =
     (if nrhs \<noteq> 1 then Some (Inl WrongNrhs)
      else if nlhs \<noteq> 1 then Some (Inl WrongNlhs)
      else if \<not> is_uint8 then Some (Inl NotBytes)
      else read_bfee inBytes)"

subsection \<open>The sample reader of read-csi.c\<close>

text \<open>
  The gateway keeps the number of buffered bits in an \<open>int\<close>, the receivers in a byte. The
  gateway's reader is simulated by the receivers' reader, so it satisfies the same contract.
\<close>

definition lower :: "mex_reader \<Rightarrow> csi_reader" where
  "lower st = \<lparr>idx = mx_idx st, current_data = mx_current_data st, bits_left = ucast (mx_bits_left st)\<rparr>"

definition mex_at :: "bytes \<Rightarrow> nat \<Rightarrow> mex_reader \<Rightarrow> bool" where
  "mex_at bs s st \<longleftrightarrow> csi_at bs s (lower st) \<and> unat (mx_bits_left st) \<le> 16"

lemma mex_fetch16_eq: "mex_fetch16 = fetch16"
  by (intro ext) (simp add: mex_fetch16_def fetch16_def)

lemma signbit_convert_eq: "signbit_convert = bit_convert"
  by (intro ext) (simp add: signbit_convert_def bit_convert_def)

lemma unat_lower: "unat (x :: cint) \<le> 16 \<Longrightarrow> unat (ucast x :: u8) = unat x"
  unfolding unsigned_ucast_eq by (simp add: take_bit_nat_eq_self)

lemma mex_refill_guard:
  assumes "unat (x :: cint) \<le> 16"
  shows "sint (x - 10) < 0 \<longleftrightarrow> unat x < 10"
proof -
  have "x - 10 = word_of_int (int (unat x) - 10)" by simp
  moreover have "sint (word_of_int (int (unat x) - 10) :: cint) = int (unat x) - 10"
    unfolding signed_of_int using assms by (simp add: signed_take_bit_int_eq_self del: of_nat_unat)
  ultimately have "sint (x - 10) = int (unat x) - 10" by (simp only:)
  then show ?thesis by linarith
qed

lemma ucast_u8_add: "(ucast (x + y :: cint) :: u8) = ucast x + ucast y"
proof (rule unsigned_word_eqI)
  have "(unat x + unat y) mod 4294967296 mod 256 = (unat x + unat y) mod 256"
    by (rule mod_mod_cancel) simp
  then show "unat (ucast (x + y) :: u8) = unat (ucast x + ucast y :: u8)"
    unfolding unsigned_ucast_eq unat_word_ariths take_bit_eq_mod by (simp add: mod_simps)
qed

lemma ucast_u8_diff10: "(ucast (x - 10 :: cint) :: u8) = ucast x - 10"
  using ucast_u8_add [of x "- 10"] by simp

lemma mex_refill_sim:
  assumes "unat (mx_bits_left st) \<le> 16"
  shows "csi_refill bs (lower st) = map_option lower (mex_refill bs st)"
  using assms
  by (auto simp: csi_refill_alt mex_refill_def mex_refill_guard mex_fetch16_eq lower_def unat_lower
      ucast_u8_add split: Option.bind_splits)

lemma mex_next_sim:
  assumes "unat (mx_bits_left st) \<le> 16"
  shows "csi_next bs (lower st) = map_option (\<lambda>(v, st'). (v, lower st')) (mex_next bs st)"
  unfolding csi_next_def mex_next_def mex_refill_sim [OF assms]
  by (cases "mex_refill bs st") (simp_all add: signbit_convert_eq lower_def ucast_u8_diff10 Let_def)

lemma mex_next_bits_left:
  assumes "unat (mx_bits_left st) \<le> 16" and "mex_next bs st = Some (v, st')"
  shows "unat (mx_bits_left st') \<le> 16"
proof -
  let ?x = "mx_bits_left st"
  have "mx_bits_left st' = (if unat ?x < 10 then ?x + 16 else ?x) - 10"
    using assms(2) unfolding mex_next_def mex_refill_def mex_refill_guard [OF assms(1)]
    by (auto simp: bind_eq_Some_conv Let_def split: if_splits)
  moreover have "unat (6 + ?x) = 6 + unat ?x" if "unat ?x < 10"
    using unat_add_lem [of 6 ?x] that by simp
  moreover have "unat (?x - 10) = unat ?x - 10" if "\<not> unat ?x < 10"
    using unat_sub [of 10 ?x] that by (simp add: word_le_nat_alt)
  ultimately show ?thesis
    using assms(1) by (auto simp: add.commute [of ?x] split: if_splits)
qed

interpretation mex_rdr: sample_reader mex_next mex_at
proof
  fix bs s st
  assume at: "mex_at bs s st" and len: "sample_bytes (Suc s) \<le> length bs"
  from csi_next_ok [of bs s "lower st"] at len obtain st2 where
    "csi_next bs (lower st) = Some (sample bs s, st2)" "csi_at bs (Suc s) st2"
    by (auto simp: mex_at_def)
  with at mex_next_sim [of st bs] obtain st' where
    "mex_next bs st = Some (sample bs s, st')" "csi_at bs (Suc s) (lower st')"
    by (cases "mex_next bs st") (auto simp: mex_at_def)
  with at mex_next_bits_left [of st bs] show "\<exists>st'. mex_next bs st = Some (sample bs s, st') \<and> mex_at bs (Suc s) st'"
    by (auto simp: mex_at_def)
next
  fix bs s st
  assume "mex_at bs s st" and "length bs < sample_bytes (Suc s)"
  with csi_next_short [of bs s "lower st"] mex_next_sim [of st bs] show "mex_next bs st = None"
    by (simp add: mex_at_def)
qed

subsection \<open>The arrays read-csi.c returns\<close>

definition mex_spec :: "bytes \<Rightarrow> nat \<Rightarrow> mex_array" where
  "mex_spec bs n = \<lparr>cells = n, ptrR = map (\<lambda>i. sint (sample bs (2 * i + 1))) [0..<n],
     ptrI = map (\<lambda>i. sint (sample bs (2 * i))) [0..<n]\<rparr>"

lemma mex_at_init:
  assumes "csi_at bs 0 \<lparr>idx = i, current_data = h, bits_left = 16\<rparr>"
  shows "mex_at bs 0 \<lparr>mx_idx = i, mx_current_data = h, mx_bits_left = 16\<rparr>"
  using assms by (simp add: mex_at_def lower_def)

lemma read_csi_flat:
  "read_csi_mexFunction 1 4 True bs nr nc tones = do {
     (h, i) \<leftarrow> fetch16 bs 0;
     (st, m) \<leftarrow> for_each (mex_body bs) (csi_order (unat nr) (unat nc) (unat tones))
        (\<lparr>mx_idx = i, mx_current_data = h AND (push_bit 16 1 - 1), mx_bits_left = 16\<rparr>,
         \<lparr>cells = unat nr * unat nc * unat tones, ptrR = [], ptrI = []\<rparr>);
     Some (Inr m) }"
  by (simp add: read_csi_mexFunction_def Let_def mex_fetch16_eq for_each_csi_order [where g = "mex_body bs"])

lemma read_csi_ok:
  assumes "2 \<le> length bs" and "length bs < 2 ^ 32"
    and "sample_bytes (2 * (unat nr * unat nc * unat tones)) \<le> length bs"
  shows "read_csi_mexFunction 1 4 True bs nr nc tones =
    Some (Inr (mex_spec bs (unat nr * unat nc * unat tones)))"
proof -
  let ?xs = "csi_order (unat nr) (unat nc) (unat tones)" and ?n = "unat nr * unat nc * unat tones"
  let ?Q = "\<lambda>i m. m = (mex_spec bs i)\<lparr>cells := ?n\<rparr>"
  have len: "length ?xs = ?n" by (simp add: length_csi_order mult_ac)
  from csi_at_init [OF assms(1,2)] obtain h i where
    init: "fetch16 bs 0 = Some (h, i)"
      "csi_at bs 0 \<lparr>idx = i, current_data = h AND (push_bit 16 1 - 1), bits_left = 16\<rparr>" by blast
  let ?st = "\<lparr>mx_idx = i, mx_current_data = h AND (push_bit 16 1 - 1), mx_bits_left = 16\<rparr>"
  have "\<exists>st' m'. for_each (mex_body bs) ?xs (?st, \<lparr>cells = ?n, ptrR = [], ptrI = []\<rparr>) = Some (st', m') \<and>
           mex_at bs (0 + 2 * length ?xs) st' \<and> ?Q (length ?xs) m'"
    unfolding mex_body_def
  proof (rule mex_rdr.read_loop [OF mex_at_init [OF init(2)]])
    show "sample_bytes (0 + 2 * length ?xs) \<le> length bs"
      using assms(3) by (simp add: len)
    fix i m assume "i < length ?xs" and "?Q i m"
    then show "\<exists>m1 m2. put_I (?xs ! i) (sample bs (0 + 2 * i)) m = Some m1 \<and>
        put_R (?xs ! i) (sample bs (0 + 2 * i + 1)) m1 = Some m2 \<and> ?Q (Suc i) m2"
      by (simp add: put_I_def put_R_def mex_spec_def len)
  qed (simp add: mex_spec_def)
  then show ?thesis
    unfolding read_csi_flat len using init(1) by (auto simp: mex_spec_def)
qed

lemma read_csi_needs:
  assumes "read_csi_mexFunction 1 4 True bs nr nc tones = Some r" and "length bs < 2 ^ 32"
  shows "2 \<le> length bs \<and> (unat nr * unat nc * unat tones = 0 \<or>
    sample_bytes (2 * (unat nr * unat nc * unat tones)) \<le> length bs)"
proof -
  let ?xs = "csi_order (unat nr) (unat nc) (unat tones)" and ?n = "unat nr * unat nc * unat tones"
  have len: "length ?xs = ?n" by (simp add: length_csi_order mult_ac)
  from assms(1) obtain h i z where
    f: "fetch16 bs 0 = Some (h, i)" and
    loop: "for_each (mex_body bs) ?xs
        (\<lparr>mx_idx = i, mx_current_data = h AND (push_bit 16 1 - 1), mx_bits_left = 16\<rparr>,
         \<lparr>cells = ?n, ptrR = [], ptrI = []\<rparr>) = Some z"
    unfolding read_csi_flat by (auto simp: bind_eq_Some_conv)
  have b: "2 \<le> length bs"
    using fetch16_short [of bs 0] assms(2) f by (cases "length bs < 2") auto
  from csi_at_init [OF b assms(2)] f have
    "csi_at bs 0 \<lparr>idx = i, current_data = h AND (push_bit 16 1 - 1), bits_left = 16\<rparr>" by auto
  from mex_rdr.read_loop_needs [OF mex_at_init [OF this] loop [unfolded mex_body_def]]
  have "?xs = [] \<or> sample_bytes (0 + 2 * length ?xs) \<le> length bs" by blast
  with b len show ?thesis by auto
qed

lemma sample_bytes_0 [simp]: "sample_bytes 0 = 0"
  by (simp add: sample_bytes_def)

lemma read_csi_char:
  assumes "length bs < 2 ^ 32"
  shows "read_csi_mexFunction 1 4 True bs nr nc tones =
    (if 2 \<le> length bs \<and> sample_bytes (2 * (unat nr * unat nc * unat tones)) \<le> length bs
     then Some (Inr (mex_spec bs (unat nr * unat nc * unat tones))) else None)"
  using read_csi_ok [OF _ assms, of nr nc tones] read_csi_needs [OF _ assms, of nr nc tones]
  by (cases "read_csi_mexFunction 1 4 True bs nr nc tones") auto



lemma csi_index_less:
  assumes "r < nr" "c < nc" "k < tones"
  shows "csi_index nr nc (r, c, k) < nr * nc * tones"
proof -
  from assms have "(r, c, k) \<in> set (csi_order nr nc tones)" by (simp add: set_csi_order)
  then obtain i where "i < tones * (nc * nr)" "csi_order nr nc tones ! i = (r, c, k)"
    by (auto simp: in_set_conv_nth length_csi_order)
  with csi_order_index [of i tones nc nr] show ?thesis by (simp add: mult_ac)
qed

lemma mex_spec_agrees:
  assumes "r < nr" "c < nc" "k < tones"
  shows "ptrR (mex_spec bs (nr * nc * tones)) ! csi_index nr nc (r, c, k) =
           sint (real (csi_spec bs nr nc tones m (r, c, k)))"
    and "ptrI (mex_spec bs (nr * nc * tones)) ! csi_index nr nc (r, c, k) =
           sint (imag (csi_spec bs nr nc tones m (r, c, k)))"
  using csi_index_less [OF assms] assms by (simp_all add: mex_spec_def csi_spec_def csi_cell_def)

lemma csi_gateway_agrees:
  assumes "length bs < 2 ^ 32" and "fill_csi_matrix bs nr nc tones m = Some m'"
  shows "\<exists>a. read_csi_mexFunction 1 4 True bs (ucast nr) (ucast nc) (ucast tones) = Some (Inr a) \<and>
    (\<forall>r < unat nr. \<forall>c < unat nc. \<forall>k < unat tones.
       ptrR a ! csi_index (unat nr) (unat nc) (r, c, k) = sint (real (m' (r, c, k))) \<and>
       ptrI a ! csi_index (unat nr) (unat nc) (r, c, k) = sint (imag (m' (r, c, k))))"
proof -
  let ?n = "unat nr * unat nc * unat tones"
  have m': "m' = csi_spec bs (unat nr) (unat nc) (unat tones) m" and b: "2 \<le> length bs"
    and n: "sample_bytes (2 * ?n) \<le> length bs"
    using assms(2) unfolding fill_csi_matrix_char [OF assms(1)]
    by (auto simp: mult_ac split: if_splits)
  have u: "unat (ucast nr :: u32) = unat nr" "unat (ucast nc :: u32) = unat nc"
    "unat (ucast tones :: u32) = unat tones"
    by (simp_all add: unat_ucast_up)
  have "read_csi_mexFunction 1 4 True bs (ucast nr) (ucast nc) (ucast tones) = Some (Inr (mex_spec bs ?n))"
    using read_csi_char [OF assms(1), of "ucast nr" "ucast nc" "ucast tones"] b n
    unfolding u by simp
  then show ?thesis
    by (intro exI conjI allI impI) (auto simp: m' intro: mex_spec_agrees)
qed
text \<open>
  C19. Off-line and on-line decoding agree: whenever the receiver's \<open>fill_csi_matrix\<close> decodes a
  report, the gateway \<open>read_csi.c\<close> decodes the same bytes, and the cell of the Matlab array that
  column-major order assigns to \<open>(nr, nc, tone)\<close> holds the receiver's complex number.
\<close>

theorem offline_decoding_agrees:
  assumes "length bs < 2 ^ 32" and "fill_csi_matrix bs nr nc tones m = Some m'"
  shows "\<exists>a. read_csi_mexFunction 1 4 True bs (ucast nr) (ucast nc) (ucast tones) = Some (Inr a) \<and>
    (\<forall>r < unat nr. \<forall>c < unat nc. \<forall>k < unat tones.
       ptrR a ! csi_index (unat nr) (unat nc) (r, c, k) = sint (real (m' (r, c, k))) \<and>
       ptrI a ! csi_index (unat nr) (unat nc) (r, c, k) = sint (imag (m' (r, c, k))))"
  using assms by (rule csi_gateway_agrees)

theorem offline_decoding_agrees_witness:
  "fill_csi_matrix [0xff, 0x07, 0x08, 0x00] 1 1 1 (\<lambda>_. \<lparr>real = 0, imag = 0\<rparr>) =
     Some (csi_spec [0xff, 0x07, 0x08, 0x00] 1 1 1 (\<lambda>_. \<lparr>real = 0, imag = 0\<rparr>)) \<and>
   (\<exists>a. read_csi_mexFunction 1 4 True [0xff, 0x07, 0x08, 0x00] 1 1 1 = Some (Inr a) \<and>
      ptrR a ! 0 = - 511 \<and> ptrI a ! 0 = - 1)"
proof -
  let ?bs = "[0xff, 0x07, 0x08, 0x00] :: bytes" and ?m = "\<lambda>_. \<lparr>real = 0, imag = 0 :: cint\<rparr>"
  have 1: "fill_csi_matrix ?bs 1 1 1 ?m = Some (csi_spec ?bs 1 1 1 ?m)"
    by (simp add: fill_csi_matrix_char sample_bytes_def)
  have 2: "csi_spec ?bs 1 1 1 ?m (0, 0, 0) = \<lparr>real = - 511, imag = - 1\<rparr>"
    by (simp add: csi_spec_def csi_cell_def csi_index_def sample_def field_def sext_def)
  from offline_decoding_agrees [OF _ 1] 1 2 show ?thesis by (auto simp: csi_index_def)
qed

subsection \<open>The samples read-bfee.c unpacks\<close>

lemma le_nat_drop_div: "q \<le> length bs \<Longrightarrow> le_nat bs div 256 ^ q = le_nat (drop q bs)"
proof (induction q arbitrary: bs)
  case (Suc q)
  then obtain b bs' where "bs = b # bs'" by (cases bs) auto
  with Suc show ?case by (simp add: div_mult2_eq)
qed simp

lemma field_two_bytes:
  assumes "q + 1 < length bs" and "r \<le> 8"
  shows "field bs (8 * q + r) 8 = (unat (bs ! q) + 256 * unat (bs ! (q + 1))) div 2 ^ r mod 256"
proof -
  let ?z = "le_nat (drop (q + 2) bs)" and ?p = "unat (bs ! q) + 256 * unat (bs ! (q + 1))"
  have "drop q bs = bs ! q # bs ! (q + 1) # drop (q + 2) bs"
    using assms(1) Cons_nth_drop_Suc [of q bs] Cons_nth_drop_Suc [of "Suc q" bs] by simp
  then have "le_nat (drop q bs) = ?p + 256 * 256 * ?z" by simp
  also have "\<dots> = ?p + (2 ^ r * 2 ^ (8 - r)) * 256 * ?z"
    using assms(2) by (simp flip: power_add)
  also have "\<dots> = 2 ^ r * (256 * (2 ^ (8 - r) * ?z)) + ?p" by simp
  also have "\<dots> div 2 ^ r = 256 * (2 ^ (8 - r) * ?z) + ?p div 2 ^ r"
    by (rule div_mult_self4) simp
  also have "\<dots> mod 256 = ?p div 2 ^ r mod 256" by simp
  moreover have "field bs (8 * q + r) 8 = le_nat (drop q bs) div 2 ^ r mod 256"
    using le_nat_drop_div [of q bs] assms(1)
    by (simp add: field_def power_add power_mult div_mult2_eq)
  ultimately show ?thesis by simp
qed

lemma sint_u8: "sint (x :: u8) = sext 8 (unat x)"
proof -
  have "x = word_of_int (sext 8 (unat x))"
    by (auto simp: sext_def)
  moreover have "sint (word_of_int (sext 8 (unat x)) :: u8) = sext 8 (unat x)"
    using sext_bounds [of "unat x" 8] unat_u8_less [of x]
    by (simp add: signed_of_int signed_take_bit_int_eq_self)
  ultimately show ?thesis by simp
qed

lemma bfee_shifts:
  assumes "r < 8"
  shows "unat (ucast (drop_bit r (ucast (x :: u8) :: cint) OR push_bit (8 - r) (ucast (y :: u8))) :: u8) =
    (unat x + 256 * unat y) div 2 ^ r mod 256"
proof -
  have xl: "unat (drop_bit r (ucast x :: cint)) = unat x div 2 ^ r"
    unfolding unat_drop_bit_eq by (simp add: unat_ucast_up drop_bit_eq_div)
  have "(2::nat) ^ (8 - r) \<le> 2 ^ 8" by (rule power_increasing) simp_all
  then have "unat y * 2 ^ (8 - r) < 256 * 2 ^ 8"
    by (intro mult_less_le_imp_less) simp_all
  then have yl: "unat (push_bit (8 - r) (ucast y :: cint)) = unat y * 2 ^ (8 - r)"
    by (subst unat_push_bit_small) (simp_all add: unat_ucast_up)
  have 256: "(256::nat) = 2 ^ r * 2 ^ (8 - r)" using assms by (simp flip: power_add)
  have "unat x div 2 ^ r < 2 ^ (8 - r)"
    using unat_u8_less [of x] 256 by (simp add: less_mult_imp_div_less mult.commute)
  then have "drop_bit r (ucast x :: cint) AND push_bit (8 - r) (ucast y) = 0"
    using and_push_bit_zero xl by metis
  then have "drop_bit r (ucast x :: cint) OR push_bit (8 - r) (ucast y) =
      drop_bit r (ucast x) + push_bit (8 - r) (ucast y)"
    by (simp add: disjunctive_add_eq_or)
  moreover have "unat (drop_bit r (ucast x :: cint) + push_bit (8 - r) (ucast y)) =
      unat x div 2 ^ r + unat y * 2 ^ (8 - r)"
    using \<open>unat y * 2 ^ (8 - r) < 256 * 2 ^ 8\<close> \<open>unat x div 2 ^ r < 2 ^ (8 - r)\<close>
      power_increasing [of "8 - r" 8 "2::nat"]
    unfolding xl [symmetric] yl [symmetric] by (subst unat_add_lem [THEN iffD1]) simp_all
  moreover have "unat x div 2 ^ r + unat y * 2 ^ (8 - r) = (unat x + 256 * unat y) div 2 ^ r"
    unfolding 256 by (simp add: mult.assoc)
  ultimately show ?thesis
    unfolding unsigned_ucast_eq by (simp add: take_bit_eq_mod)
qed

lemma bfee_byte_ok:
  assumes "q + 1 < length p" and "r < 8"
  shows "bfee_byte p q r = Some (sext 8 (field p (8 * q + r) 8))"
  using assms bfee_shifts [OF assms(2), of "p ! q" "p ! (q + 1)"]
  by (simp add: bfee_byte_def c_mem Let_def sint_u8 field_two_bytes)

definition bfee_bit :: "nat \<Rightarrow> nat \<Rightarrow> nat" where
  "bfee_bit n s = 3 * (s div n + 1) + 16 * s"

definition bfee_R :: "bytes \<Rightarrow> nat \<Rightarrow> nat \<Rightarrow> int" where
  "bfee_R p n s = sext 8 (field p (bfee_bit n s) 8)"

definition bfee_I :: "bytes \<Rightarrow> nat \<Rightarrow> nat \<Rightarrow> int" where
  "bfee_I p n s = sext 8 (field p (bfee_bit n s + 8) 8)"

definition bfee_inv :: "bytes \<Rightarrow> nat \<Rightarrow> nat \<Rightarrow> nat \<Rightarrow> u32 \<times> int list \<times> int list \<Rightarrow> bool" where
  "bfee_inv p n b s = (\<lambda>(index, R, I). unat index = b \<and>
     R = map (bfee_R p n) [0..<s] \<and> I = map (bfee_I p n) [0..<s])"

lemma bfee_inner_ok:
  assumes inv: "bfee_inv p n b (i * n + j) z" and b: "b = 3 * (i + 1) + 16 * (i * n + j)"
    and "j < n" "i < 30" "n \<le> 65025" and len: "12 + 60 * n \<le> length p"
    and r: "unat rm = b mod 8"
  shows "\<exists>z'. bfee_inner p rm x z = Some z' \<and> bfee_inv p n (b + 16) (i * n + Suc j) z'"
proof -
  obtain index R I where z: "z = (index, R, I)" by (cases z)
  have index: "unat index = b" using inv by (simp add: z bfee_inv_def)
  have "Suc i * n \<le> 30 * n"
    using assms(4) by (intro mult_le_mono1) simp
  then have "i * n + j + 1 \<le> 30 * n"
    using assms(3) unfolding mult_Suc by linarith
  then have bb: "b + 6 \<le> 480 * n + 80" using b assms(4) by simp
  then have "b div 8 + 2 < length p" using len by linarith
  moreover have q: "unat (index div 8) = b div 8"
    by (simp add: unat_div index)
  moreover have "b div 8 + 1 < 2 ^ 32" using bb assms(5) by simp
  then have "unat (index div 8 + 1) = b div 8 + 1"
    using q unat_add_lem [of "index div 8" 1] by simp
  moreover have "unat (index + 16) = b + 16"
    using index bb assms(5) unat_add_lem [of index 16] by simp
  moreover have "bfee_bit n (i * n + j) = b"
    using assms(3) b by (simp add: bfee_bit_def)
  moreover have "8 * (b div 8) + b mod 8 = b" by simp
  moreover have "8 * (b div 8 + 1) + b mod 8 = b + 8" by simp
  ultimately show ?thesis
    using inv by (simp add: z bfee_inv_def bfee_inner_def bfee_byte_ok r bfee_R_def bfee_I_def)
qed

lemma bfee_outer_ok:
  assumes inv: "bfee_inv p n (3 * i + 16 * (i * n)) (i * n) z"
    and "i < 30" "n \<le> 65025" "12 + 60 * n \<le> length p"
  shows "\<exists>z'. bfee_outer p n x z = Some z' \<and> bfee_inv p n (3 * Suc i + 16 * (Suc i * n)) (Suc i * n) z'"
proof -
  obtain index R I where z: "z = (index, R, I)" by (cases z)
  let ?b = "\<lambda>j. 3 * (i + 1) + 16 * (i * n + j)"
  have "i * n \<le> 30 * 65025" using assms(2,3) by (intro mult_le_mono) simp_all
  moreover have "unat index = 3 * i + 16 * (i * n)" using inv by (simp add: z bfee_inv_def)
  ultimately have b: "unat (index + 3) = ?b 0"
    using assms(2) unat_add_lem [of index 3] by simp
  have m: "unat ((index + 3) mod 8) = ?b j mod 8" for j
  proof -
    have "?b j = ?b 0 + 8 * (2 * j)" by simp
    then have "?b j mod 8 = ?b 0 mod 8" by (metis mod_mult_self2)
    then show ?thesis by (simp add: unat_mod b del: One_nat_def)
  qed
  let ?P = "\<lambda>j z. bfee_inv p n (?b j) (i * n + j) z"
  have "\<exists>z'. for_each (bfee_inner p ((index + 3) mod 8)) [0..<n] (index + 3, R, I) = Some z' \<and>
      ?P (length [0..<n]) z'"
  proof (rule for_each_invariant [where P = ?P])
    show "?P 0 (index + 3, R, I)" using inv b by (simp add: z bfee_inv_def)
    fix j z' assume "j < length [0..<n]" and "?P j z'"
    then show "\<exists>z''. bfee_inner p ((index + 3) mod 8) ([0..<n] ! j) z' = Some z'' \<and> ?P (Suc j) z''"
      using bfee_inner_ok [of p n "?b j" i j z' "(index + 3) mod 8"] m [of j] assms(2-4)
      by (simp add: algebra_simps)
  qed
  then show ?thesis by (simp add: bfee_outer_def z Let_def algebra_simps)
qed

lemma bfee_loop_ok:
  assumes "n \<le> 65025" "12 + 60 * n \<le> length p"
  shows "\<exists>index. for_each (bfee_outer p n) [0..<30] (0, [], []) =
    Some (index, map (bfee_R p n) [0..<30 * n], map (bfee_I p n) [0..<30 * n])"
proof -
  let ?P = "\<lambda>i z. bfee_inv p n (3 * i + 16 * (i * n)) (i * n) z"
  have "\<exists>z'. for_each (bfee_outer p n) [0..<30] (0, [], []) = Some z' \<and> ?P (length [0..<30]) z'"
  proof (rule for_each_invariant [where P = ?P])
    show "?P 0 (0, [], [])" by (simp add: bfee_inv_def)
    fix i z assume "i < length [0..<30]" and "?P i z"
    then show "\<exists>z'. bfee_outer p n ([0..<30] ! i) z = Some z' \<and> ?P (Suc i) z'"
      using bfee_outer_ok [of p n i z] assms by (simp add: algebra_simps)
  qed
  then show ?thesis by (auto simp: bfee_inv_def)
qed

lemma bfee_loop_empty: "for_each (bfee_outer p 0) [0..<30] (0, [], []) = Some (90, [], [])"
  by (simp add: bfee_outer_def upt_rec)

text \<open>Conversely, a loop that ends has read the last byte of the matrix, if there is one.\<close>

lemma bfee_inner_index:
  "bfee_inner p rm x (index, R, I) = Some z \<Longrightarrow> fst z = index + 16 \<and> unat (index div 8 + 1) + 1 < length p"
  by (auto simp: bfee_inner_def bfee_byte_def rd_def bind_eq_Some_conv split: if_splits)

lemma bfee_inner_loop:
  "for_each (bfee_inner p rm) [0..<Suc n] (index, R, I) = Some z
   \<Longrightarrow> fst z = index + 16 * of_nat (Suc n) \<and> unat ((index + 16 * of_nat n) div 8 + 1) + 1 < length p"
proof (induction n arbitrary: z)
  case 0
  then have "bfee_inner p rm (0 :: nat) (index, R, I) = Some z" by (auto simp: bind_eq_Some_conv)
  then show ?case using bfee_inner_index by fastforce
next
  case (Suc n)
  have "[0..<Suc (Suc n)] = [0..<Suc n] @ [Suc n]" by simp
  with Suc.prems obtain y where y: "for_each (bfee_inner p rm) [0..<Suc n] (index, R, I) = Some y" "bfee_inner p rm (Suc n) y = Some z"
    by (simp only: for_each_snoc bind_eq_Some_conv) blast
  obtain i R' I' where yeq: "y = (i, R', I')" by (cases y)
  have "i = index + 16 * of_nat (Suc n)" using Suc.IH [OF y(1)] by (simp add: yeq)
  with bfee_inner_index [OF y(2) [unfolded yeq]] show ?case by (simp add: algebra_simps)
qed

lemma bfee_outer_loop:
  assumes "for_each (bfee_outer p (Suc n)) [0..<k] (0, [], []) = Some z"
  shows "fst z = of_nat (k * (3 + 16 * Suc n))"
  using assms
proof (induction k arbitrary: z)
  case (Suc k)
  then obtain index R I where y: "for_each (bfee_outer p (Suc n)) [0..<k] (0, [], []) = Some (index, R, I)" "bfee_outer p (Suc n) k (index, R, I) = Some z"
    by (auto simp: for_each_snoc bind_eq_Some_conv)
  have "index = of_nat (k * (3 + 16 * Suc n))" using Suc.IH [OF y(1)] by simp
  with bfee_inner_loop [of p "(index + 3) mod 8" n "index + 3" R I z] y(2) show ?case by (simp add: bfee_outer_def Let_def algebra_simps)
qed simp

lemma bfee_loop_needs:
  assumes "for_each (bfee_outer p n) [0..<30] (0, [], []) = Some z" "0 < n" "n \<le> 65025"
  shows "12 + 60 * n \<le> length p"
proof -
  obtain m where n: "n = Suc m" using assms(2) by (cases n) auto
  have "[0..<30::nat] = [0..<29] @ [29]" by (simp add: upt_rec)
  with assms(1) obtain index R I where y: "for_each (bfee_outer p (Suc m)) [0..<29] (0, [], []) = Some (index, R, I)" "bfee_outer p (Suc m) (29 :: nat) (index, R, I) = Some z"
    unfolding n by (auto simp: for_each_snoc bind_eq_Some_conv)
  have i: "index = of_nat (29 * (3 + 16 * Suc m))" using bfee_outer_loop [OF y(1)] by simp
  have "unat ((index + 3 + 16 * of_nat m) div 8 + 1) + 1 < length p"
    using bfee_inner_loop [of p "(index + 3) mod 8" m "index + 3" R I z] y(2) by (simp add: bfee_outer_def Let_def)
  moreover have "index + 3 + 16 * of_nat m = (of_nat (554 + 480 * m) :: u32)" unfolding i by simp
  moreover have "unat (of_nat (554 + 480 * m) :: u32) = 554 + 480 * m" 
    unfolding unsigned_of_nat using assms(3) n by (simp add: take_bit_nat_eq_self)
  ultimately have "unat ((of_nat (554 + 480 * m) :: u32) div 8 + 1) + 1 < length p" "unat ((of_nat (554 + 480 * m) :: u32) div 8) = 69 + 60 * m"
    by (simp_all add: unat_div)
  moreover from this(2) have "unat ((of_nat (554 + 480 * m) :: u32) div 8 + 1) = 70 + 60 * m"
    using unat_add_lem [of "(of_nat (554 + 480 * m) :: u32) div 8" 1] assms(3) n by simp
  ultimately show ?thesis using n by simp
qed

lemma unat_add_byte:
  assumes "unat (a :: u32) < 2 ^ k" and "k \<le> 24"
  shows "unat (a + push_bit k (ucast (b :: u8))) = unat a + 2 ^ k * unat b"
    and "unat (a + push_bit k (ucast (b :: u8))) < 2 ^ (k + 8)"
proof -
  have "2 ^ k * unat b \<le> 2 ^ k * 255"
    using unat_u8_less [of b] by (intro mult_le_mono2) linarith
  moreover have k: "(2::nat) ^ k \<le> 2 ^ 24" using assms(2) by (intro power_increasing) simp_all
  then have "2 ^ k * 255 < (2::nat) ^ 32" by simp
  ultimately have l: "unat b * 2 ^ k < 2 ^ 32" by (simp only: mult.commute)
  then have "unat (push_bit k (ucast b :: u32)) = unat b * 2 ^ k"
    by (subst unat_push_bit_small) (simp_all add: unat_ucast_up)
  moreover have "unat a + 2 ^ k * unat b < 2 ^ (k + 8)"
  proof -
    have "(2::nat) ^ (k + 8) = 2 ^ k * 256" by (simp add: power_add)
    with assms(1) \<open>2 ^ k * unat b \<le> 2 ^ k * 255\<close> show ?thesis by linarith
  qed
  moreover have "(2::nat) ^ (k + 8) \<le> 2 ^ 32" using assms(2) by (intro power_increasing) simp_all
  ultimately show "unat (a + push_bit k (ucast b)) = unat a + 2 ^ k * unat b"
    using unat_add_lem [of a "push_bit k (ucast b)"] by (simp add: mult.commute)
  then show "unat (a + push_bit k (ucast b)) < 2 ^ (k + 8)"
    using \<open>unat a + 2 ^ k * unat b < 2 ^ (k + 8)\<close> by simp
qed

lemma bfee_len16:
  "unat (ucast (a :: u8) + push_bit 8 (ucast (b :: u8)) :: u32) = unat a + 256 * unat b"
  using unat_add_byte(1) [of "ucast a" 8 b] by (simp add: unat_ucast_up)

lemma bfee_len32:
  "unat (ucast (a :: u8) + push_bit 8 (ucast (b :: u8)) + push_bit 16 (ucast (c :: u8)) +
     push_bit 24 (ucast (d :: u8)) :: u32) = le_nat [a, b, c, d]"
proof -
  let ?ab = "ucast a + push_bit 8 (ucast b) :: u32"
  have ab: "unat ?ab < 2 ^ 16" using unat_add_byte(2) [of "ucast a" 8 b] by (simp add: unat_ucast_up)
  have abc: "unat (?ab + push_bit 16 (ucast c)) < 2 ^ 24"
    using unat_add_byte(2) [OF ab, of c] by simp
  show ?thesis
    unfolding unat_add_byte(1) [OF abc order.refl] unat_add_byte(1) [OF ab, of c, simplified]
      bfee_len16 by simp
qed

lemma bfee_prod: "unat (ucast (a :: u8) * ucast (b :: u8) :: u32) = unat a * unat b"
  and bfee_prod_le: "unat (a :: u8) * unat (b :: u8) \<le> 65025"
proof -
  have "unat a * unat b \<le> 255 * 255"
    using unat_u8_less [of a] unat_u8_less [of b] by (intro mult_le_mono) linarith+
  then show "unat a * unat b \<le> 65025" by simp
  then show "unat (ucast a * ucast b :: u32) = unat a * unat b"
    using unat_mult_lem [of "ucast a :: u32" "ucast b"] by (simp add: unat_ucast_up)
qed

lemma bfee_calc_len:
  assumes "unat (m :: u32) \<le> 65025"
  shows "unat ((30 * (m * 8 * 2 + 3) + 7) div 8) = 12 + 60 * unat m"
proof -
  have "30 * (m * 8 * 2 + 3) + 7 = (of_nat (480 * unat m + 97) :: u32)"
    by (simp add: algebra_simps)
  moreover have "unat (of_nat (480 * unat m + 97) :: u32) = 480 * unat m + 97"
    unfolding unsigned_of_nat using assms by (simp add: take_bit_nat_eq_self)
  ultimately have "unat (30 * (m * 8 * 2 + 3) + 7) = 480 * unat m + 97" by (simp only:)
  then show ?thesis unfolding unat_div by simp
qed

lemma bfee_perm: "unat ((drop_bit k (ucast (x :: u8) :: u32) AND 3) + 1) = unat x div 2 ^ k mod 4 + 1"
proof -
  let ?d = "drop_bit k (ucast x :: u32)"
  have "?d AND 3 = take_bit 2 ?d" by (simp add: take_bit_eq_mask mask_eq_exp_minus_1)
  moreover have "unat (take_bit 2 ?d) = unat x div 2 ^ k mod 4"
    unfolding unsigned_take_bit_eq unat_drop_bit_eq by (simp add: take_bit_eq_mod drop_bit_eq_div unat_ucast_up)
  ultimately have m: "unat (?d AND 3) = unat x div 2 ^ k mod 4" by simp
  then have "unat (?d AND 3) < 4" by simp
  then show ?thesis unfolding m [symmetric] by (subst unat_add_lem [THEN iffD1]) simp_all
qed

lemma bfee_count16: "unat (ucast (ucast (a :: u8) + push_bit 8 (ucast (b :: u8)) :: u32) :: u16) = unat a + 256 * unat b"
  using unat_pair_less [of a b] unfolding unsigned_ucast_eq bfee_len16 by (simp add: take_bit_nat_eq_self)

lemma bfee_len_check:
  "(ucast (a :: u8) + push_bit 8 (ucast (b :: u8)) :: u32) =
     (30 * (ucast (x :: u8) * ucast (y :: u8) * 8 * 2 + 3) + 7) div 8 \<longleftrightarrow>
   unat a + 256 * unat b = 12 + 60 * (unat x * unat y)"
  unfolding word_unat_eq_iff bfee_len16 by (subst bfee_calc_len) (simp_all add: bfee_prod bfee_prod_le)

lemma read_bfee_split:
  assumes "length h = 20"
  shows "rd_range (h @ p) 0 20 = Some h" "drop 20 (h @ p) = p"
  using assms by (simp_all add: c_mem)

definition bfee_n :: "bytes \<Rightarrow> nat" where
  "bfee_n h = unat (h ! 8) * unat (h ! 9)"

definition bfee_ok :: "bytes \<Rightarrow> bytes \<Rightarrow> bfee \<Rightarrow> bool" where
  "bfee_ok h p r \<longleftrightarrow>
     unat (timestamp_low r) = le_nat (take 4 h) \<and> unat (bfee_count r) = le_nat (take 2 (drop 4 h)) \<and>
     unat (Nrx r) = unat (h ! 8) \<and> unat (Ntx r) = unat (h ! 9) \<and>
     unat (rssi_a r) = unat (h ! 10) \<and> unat (rssi_b r) = unat (h ! 11) \<and>
     unat (rssi_c r) = unat (h ! 12) \<and> b_noise r = sext 8 (unat (h ! 13)) \<and>
     unat (agc r) = unat (h ! 14) \<and> unat (b_rate r) = le_nat (drop 18 h) \<and>
     map unat (perm r) = map (\<lambda>k. unat (h ! 15) div 4 ^ k mod 4 + 1) [0, 1, 2] \<and>
     csiR r = map (bfee_R p (bfee_n h)) [0..<30 * bfee_n h] \<and>
     csiI r = map (bfee_I p (bfee_n h)) [0..<30 * bfee_n h]"

lemma read_bfee_wrong_size:
  assumes "length h = 20" and "le_nat (take 2 (drop 16 h)) \<noteq> 12 + 60 * bfee_n h"
  shows "read_bfee (h @ p) = Some (Inl WrongSize)"
proof -
  have "take 2 (drop 16 h) = [h ! 16, h ! 17]"
    using assms(1) by (simp add: list_eq_iff_nth_eq less_Suc_eq numeral_2_eq_2)
  with assms(2) have "unat (h ! 16) + 256 * unat (h ! 17) \<noteq> 12 + 60 * (unat (h ! 8) * unat (h ! 9))"
    by (simp add: bfee_n_def)
  then show ?thesis
    unfolding read_bfee_def read_bfee_split [OF assms(1)] Let_def Option.bind.simps bfee_len_check by simp
qed

lemma read_bfee_ok:
  assumes h: "length h = 20" and l: "le_nat (take 2 (drop 16 h)) = 12 + 60 * bfee_n h"
    and p: "bfee_n h = 0 \<or> 12 + 60 * bfee_n h \<le> length p"
  shows "\<exists>r. read_bfee (h @ p) = Some (Inr r) \<and> bfee_ok h p r"
proof -
  have s: "take 2 (drop 16 h) = [h ! 16, h ! 17]" "take 2 (drop 4 h) = [h ! 4, h ! 5]"
    "take 4 h = [h ! 0, h ! 1, h ! 2, h ! 3]" "drop 18 h = [h ! 18, h ! 19]"
    using h by (simp_all add: list_eq_iff_nth_eq less_Suc_eq numeral_eq_Suc)
  with l have c: "unat (h ! 16) + 256 * unat (h ! 17) = 12 + 60 * (unat (h ! 8) * unat (h ! 9))"
    by (simp add: bfee_n_def)
  from bfee_loop_ok [of "bfee_n h" p] bfee_loop_empty [of p] p obtain i where
    loop: "for_each (bfee_outer p (bfee_n h)) [0..<30] (0, [], []) =
      Some (i, map (bfee_R p (bfee_n h)) [0..<30 * bfee_n h], map (bfee_I p (bfee_n h)) [0..<30 * bfee_n h])"
    using bfee_prod_le by (cases "bfee_n h = 0") (auto simp: bfee_n_def)
  show ?thesis
    unfolding read_bfee_def read_bfee_split [OF h] Let_def Option.bind.simps bfee_len_check bfee_prod
      bfee_n_def [symmetric] loop
    using c bfee_perm [of 0 "h ! 15"]
    by (auto simp: bfee_ok_def bfee_n_def s bfee_len32 bfee_len16 bfee_count16 bfee_perm unat_ucast_up sint_u8)
qed

lemma read_bfee_truncated:
  assumes h: "length h = 20" and l: "le_nat (take 2 (drop 16 h)) = 12 + 60 * bfee_n h"
    and p: "0 < bfee_n h" "length p < 12 + 60 * bfee_n h"
  shows "read_bfee (h @ p) = None"
proof -
  have "take 2 (drop 16 h) = [h ! 16, h ! 17]"
    using h by (simp add: list_eq_iff_nth_eq less_Suc_eq numeral_2_eq_2)
  with l have c: "unat (h ! 16) + 256 * unat (h ! 17) = 12 + 60 * (unat (h ! 8) * unat (h ! 9))"
    by (simp add: bfee_n_def)
  have "for_each (bfee_outer p (bfee_n h)) [0..<30] (0, [], []) = None"
  proof (rule ccontr)
    assume "for_each (bfee_outer p (bfee_n h)) [0..<30] (0, [], []) \<noteq> None"
    then obtain z where "for_each (bfee_outer p (bfee_n h)) [0..<30] (0, [], []) = Some z" by blast
    from bfee_loop_needs [OF this p(1)] bfee_prod_le p(2) show False by (simp add: bfee_n_def)
  qed
  then show ?thesis
    unfolding read_bfee_def read_bfee_split [OF h] Let_def Option.bind.simps bfee_len_check bfee_prod bfee_n_def [symmetric]
    using c by (simp add: bfee_n_def)
qed

text \<open>
  C22. For an array of at least the 20 bytes of the header, \<open>read_bfee\<close> rejects every report whose length field is not the length of its channel matrix,
  \<open>12 + 60 * Nrx * Ntx\<close> bytes, before it reads the payload. When the field is right, it reads a byte outside the array it was
  given exactly when there is a matrix and the array is shorter than the field says: the length of the array itself is never looked at. Otherwise its result
  has the fields of the header, and sample \<open>s\<close> is the 8-bit two's complement number at bit \<open>3 * (s div n + 1) + 16 * s\<close> of the
  payload (real part), the imaginary part 8 bits further.
\<close>

theorem read_bfee_mexFunction_samples:
  assumes "length h = 20"
  shows "(le_nat (take 2 (drop 16 h)) \<noteq> 12 + 60 * bfee_n h \<longrightarrow>
           read_bfee_mexFunction 1 1 True (h @ p) = Some (Inl WrongSize)) \<and>
         (le_nat (take 2 (drop 16 h)) = 12 + 60 * bfee_n h \<and> (bfee_n h = 0 \<or> 12 + 60 * bfee_n h \<le> length p) \<longrightarrow>
           (\<exists>r. read_bfee_mexFunction 1 1 True (h @ p) = Some (Inr r) \<and> bfee_ok h p r)) \<and>
         (le_nat (take 2 (drop 16 h)) = 12 + 60 * bfee_n h \<and> 0 < bfee_n h \<and> length p < 12 + 60 * bfee_n h \<longrightarrow>
           read_bfee_mexFunction 1 1 True (h @ p) = None)"
  using read_bfee_wrong_size [OF assms] read_bfee_ok [OF assms] read_bfee_truncated [OF assms]
  by (simp add: read_bfee_mexFunction_def)

theorem read_bfee_mexFunction_samples_witness:
  "\<exists>r. read_bfee_mexFunction 1 1 True (replicate 8 0 @ [1, 1, 0, 0, 0, 0, 0, 0, 72, 0, 0, 0] @ 8 # replicate 71 0) =
     Some (Inr r) \<and> csiR r ! 0 = 1 \<and> csiR r ! 1 = 0 \<and> csiI r ! 0 = 0"
proof -
  let ?h = "replicate 8 0 @ [1, 1, 0, 0, 0, 0, 0, 0, 72, 0, 0, 0] :: bytes" and ?p = "8 # replicate 71 0 :: bytes"
  have "le_nat (replicate m 0) = 0" for m by (induction m) simp_all
  then have p: "field ?p (bfee_bit 1 0) 8 = 1" "field ?p (bfee_bit 1 1) 8 = 0"
    "field ?p (bfee_bit 1 0 + 8) 8 = 0"
    by (simp_all add: field_def bfee_bit_def)
  have n: "bfee_n ?h = 1" by (simp add: bfee_n_def nth_append)
  have u: "[0..<30] = 0 # 1 # [2..<30]" by (simp add: upt_conv_Cons)
  from read_bfee_mexFunction_samples [of ?h ?p] obtain r where
    "read_bfee_mexFunction 1 1 True (?h @ ?p) = Some (Inr r)" "bfee_ok ?h ?p r"
    unfolding n by auto
  then show ?thesis
    using p unfolding bfee_ok_def n by (intro exI [of _ r]) (simp add: u bfee_R_def bfee_I_def sext_def)
qed

end
