(* ===== verification/CStrings.thy ===== *)
theory CStrings
  imports Prelude
begin

text \<open>
  What the programs use of C's string functions: decimal conversion by \<open>printf\<close> (\<open>%d\<close>, \<open>%u\<close>),
  \<open>atoi\<close>, and \<open>sprintf\<close>/\<open>strcat\<close> into a buffer of known size. A C string is the list of its
  characters before the terminating NUL; storing \<open>s\<close> takes \<open>length s + 1\<close> bytes, and a store
  that does not fit is undefined behaviour (\<open>None\<close>). The locale \<open>codec\<close> is the contract of a
  writer and the reader of what it writes.
\<close>

subsection \<open>Codecs\<close>

locale codec =
  fixes wf :: "'a \<Rightarrow> bool"
    and enc :: "'a \<Rightarrow> 'b"
    and dec :: "'b \<Rightarrow> 'a option"
  assumes dec_enc: "wf x \<Longrightarrow> dec (enc x) = Some x"
begin

lemma enc_inj: "wf x \<Longrightarrow> wf y \<Longrightarrow> enc x = enc y \<Longrightarrow> x = y"
  using dec_enc by (metis option.inject)

lemma inj_on_enc: "inj_on enc {x. wf x}"
  using enc_inj by (auto intro: inj_onI)

lemma dec_range: "wf x \<Longrightarrow> dec (enc x) \<noteq> None"
  by (simp add: dec_enc)

end

subsection \<open>Decimal numbers\<close>

definition digit :: "nat \<Rightarrow> char" where
  "digit d = char_of (48 + d)"

definition digit_value :: "char \<Rightarrow> nat option" where
  "digit_value c = (if 48 \<le> (of_char c :: nat) \<and> (of_char c :: nat) \<le> 57
     then Some (of_char c - 48) else None)"

fun fmt_u :: "nat \<Rightarrow> string" where
  "fmt_u n = (if n < 10 then [digit n] else fmt_u (n div 10) @ [digit (n mod 10)])"

declare fmt_u.simps [simp del]

definition fmt_d :: "int \<Rightarrow> string" where
  "fmt_d i = (if i < 0 then CHR ''-'' # fmt_u (nat (- i)) else fmt_u (nat i))"

text \<open>The longest prefix of digits, as \<open>strtol\<close> reads it.\<close>

fun scan_digits :: "nat \<Rightarrow> string \<Rightarrow> nat" where
  "scan_digits acc [] = acc"
| "scan_digits acc (c # cs) = (case digit_value c of
     None \<Rightarrow> acc | Some d \<Rightarrow> scan_digits (10 * acc + d) cs)"

definition is_space :: "char \<Rightarrow> bool" where
  "is_space c \<longleftrightarrow> c = CHR '' '' \<or> (9 \<le> (of_char c :: nat) \<and> (of_char c :: nat) \<le> 13)"

definition scan_int :: "string \<Rightarrow> int" where
  "scan_int s = (case dropWhile is_space s of
     [] \<Rightarrow> 0
   | c # cs \<Rightarrow> if c = CHR ''-'' then - int (scan_digits 0 cs)
              else if c = CHR ''+'' then int (scan_digits 0 cs)
              else int (scan_digits 0 (c # cs)))"

definition in_int :: "int \<Rightarrow> bool" where
  "in_int i \<longleftrightarrow> - (2 ^ 31) \<le> i \<and> i < 2 ^ 31"

definition atoi :: "string \<Rightarrow> int option" where
  "atoi s = (if in_int (scan_int s) then Some (scan_int s) else None)"

lemma digit_value_digit: "d < 10 \<Longrightarrow> digit_value (digit d) = Some d"
  by (simp add: digit_value_def digit_def of_char_of)

lemma digit_not_space: "d < 10 \<Longrightarrow> \<not> is_space (digit d) \<and> digit d \<noteq> CHR ''-'' \<and> digit d \<noteq> CHR ''+''"
  by (auto simp: is_space_def digit_def of_char_of dest: arg_cong [where f = "of_char :: char \<Rightarrow> nat"])

lemma fmt_u_digits:
  "\<exists>ds. fmt_u n = map digit ds \<and> ds \<noteq> [] \<and> (\<forall>d \<in> set ds. d < 10) \<and> foldl (\<lambda>a d. 10 * a + d) 0 ds = n"
proof (induction n rule: fmt_u.induct)
  case (1 n)
  show ?case
  proof (cases "n < 10")
    case True
    then show ?thesis by (intro exI [of _ "[n]"]) (simp add: fmt_u.simps [of n])
  next
    case False
    with 1 obtain ds where "fmt_u (n div 10) = map digit ds" "ds \<noteq> []" "\<forall>d \<in> set ds. d < 10"
      "foldl (\<lambda>a d. 10 * a + d) 0 ds = n div 10" by blast
    with False show ?thesis
      by (intro exI [of _ "ds @ [n mod 10]"]) (auto simp: fmt_u.simps [of n])
  qed
qed

lemma scan_digits_map:
  "\<forall>d \<in> set ds. d < 10 \<Longrightarrow> scan_digits acc (map digit ds) = foldl (\<lambda>a d. 10 * a + d) acc ds"
  by (induction ds arbitrary: acc) (simp_all add: digit_value_digit)

lemma scan_digits_fmt_u: "scan_digits 0 (fmt_u n) = n"
  using fmt_u_digits [of n] scan_digits_map by (metis (no_types, lifting))

lemma scan_int_fmt_u: "scan_int (fmt_u n) = int n"
proof -
  from fmt_u_digits [of n] obtain d ds where f: "fmt_u n = digit d # map digit ds" "d < 10"
    by (metis list.exhaust list.set_intros(1) list.simps(9))
  then show ?thesis
    using scan_digits_fmt_u [of n] digit_not_space [of d] by (simp add: scan_int_def)
qed

lemma scan_int_fmt_d: "scan_int (fmt_d i) = i"
  by (simp add: fmt_d_def scan_int_fmt_u) (simp add: scan_int_def is_space_def scan_digits_fmt_u)

interpretation dec_codec: codec in_int fmt_d atoi
  by unfold_locales (simp add: atoi_def scan_int_fmt_d)

lemma length_fmt_u: "n < 10 ^ k \<Longrightarrow> 0 < k \<Longrightarrow> length (fmt_u n) \<le> k"
proof (induction n arbitrary: k rule: fmt_u.induct)
  case (1 n)
  show ?case
  proof (cases "n < 10")
    case True
    with 1 show ?thesis by (simp add: fmt_u.simps [of n])
  next
    case False
    with 1(2,3) obtain j where k: "k = Suc j" "0 < j" by (cases k; cases "k = 1") auto
    with 1(2) have "n div 10 < 10 ^ j" by auto
    with 1(1) [OF False, of j] k False show ?thesis by (simp add: fmt_u.simps [of n])
  qed
qed

lemma length_fmt_d:
  assumes "- (10 ^ k) < i" and "i < 10 ^ k" and "0 < k"
  shows "length (fmt_d i) \<le> (if i < 0 then k + 1 else k)"
proof -
  have "nat \<bar>i\<bar> < 10 ^ k" using assms by (simp add: nat_less_iff abs_less_iff)
  with assms show ?thesis using length_fmt_u [of "nat \<bar>i\<bar>" k] by (auto simp: fmt_d_def)
qed

subsection \<open>Writing into a buffer\<close>

definition sprintf :: "nat \<Rightarrow> string \<Rightarrow> string option" where
  "sprintf sz s = (if length s < sz then Some s else None)"

definition snprintf :: "nat \<Rightarrow> string \<Rightarrow> int \<times> string" where
  "snprintf sz s = (int (length s), take (sz - 1) s)"

lemma sprintf_fits [c_mem]: "length s < sz \<Longrightarrow> sprintf sz s = Some s"
  by (simp add: sprintf_def)

lemma sprintf_overflow [c_mem]: "sz \<le> length s \<Longrightarrow> sprintf sz s = None"
  by (simp add: sprintf_def)

lemma snprintf_fits: "length s < sz \<Longrightarrow> snprintf sz s = (int (length s), s)"
  by (simp add: snprintf_def)

end
