(* ===== verification/CsiDb.thy ===== *)
theory CsiDb
  imports CsiMain CStrings
begin

text \<open>
  The receiver that stores reports in a PostgreSQL database (\<open>recvCSIToDatabase\<close>). Its
  \<open>csi_fun.c\<close> is a copy of the file receiver's with another \<open>record_status\<close>; the matrix decoder is
  character for character the same and is used from \<open>CsiFun\<close>. \<open>csi_persistence.c\<close> builds SQL
  statements in C buffers; every write is checked against the size the code allocates. The libpq
  functions are parameters, collected in the record \<open>pq\<close>: they work on an abstract connection
  \<open>'c\<close>, which carries whatever the server remembers. The state is the connection pointer (\<open>None\<close>
  is NULL) and the statements sent so far. \<open>malloc\<close> succeeds. The repeated
  \<open>sprintf(insert_query, "%s...", insert_query, ...)\<close> appends, as the C library in use does.
\<close>

subsection \<open>libpq\<close>

datatype pg_result = PGRES_COMMAND_OK | PGRES_TUPLES_OK "string list list" | PGRES_OTHER

record 'c pq =
  PQconnectdb :: "string \<Rightarrow> 'c option"
  PQstatus_bad :: "'c option \<Rightarrow> bool"
  PQexec :: "'c \<Rightarrow> string \<Rightarrow> pg_result \<times> 'c"

record 'c db_state =
  conn :: "'c option"
  sent :: "string list"

record pg_config =
  PG_USER :: string
  PG_PASS :: string
  PG_DBNAME :: string
  PG_HOST :: string
  PG_PORT :: int

definition pg_config_default :: pg_config where
  "pg_config_default = \<lparr>PG_USER = ''csi'', PG_PASS = ''csi'', PG_DBNAME = ''csi'',
     PG_HOST = ''127.0.0.1'', PG_PORT = 5432\<rparr>"

text \<open>\<open>PQexec\<close> on an open connection; the statement is recorded.\<close>

definition exec :: "'c pq \<Rightarrow> string \<Rightarrow> 'c \<Rightarrow> 'c db_state \<Rightarrow> pg_result \<times> 'c db_state" where
  "exec pq query c s = (case PQexec pq c query of
     (res, c') \<Rightarrow> (res, s\<lparr>conn := Some c', sent := sent s @ [query]\<rparr>))"

definition PQgetvalue00 :: "string list list \<Rightarrow> string option" where
  "PQgetvalue00 rows = (case rows of (v # _) # _ \<Rightarrow> Some v | _ \<Rightarrow> None)"

subsection \<open>Digits\<close>

text \<open>\<open>long\<close> has 64 bits; negating its least value overflows.\<close>

definition LONG_MIN :: int where
  "LONG_MIN = - (2 ^ 63)"

function count_digits :: "int \<Rightarrow> int \<Rightarrow> int" where
  "count_digits number digits =
     (if 0 < number then count_digits (number div 10) (digits + 1) else digits)"
  by pat_completeness auto
termination
  by (relation "measure (nat \<circ> fst)") auto

declare count_digits.simps [simp del]

definition long_num_digits :: "int \<Rightarrow> int option" where
  "long_num_digits number =
     (if number = LONG_MIN then None
      else let (number, digits) = (if number < 0 then (- number, 1) else (number, 0)) in
        Some (if number = 0 then 1 else count_digits number digits))"

definition num_digits :: "int \<Rightarrow> int option" where
  "num_digits number = long_num_digits number"

subsection \<open>Connection\<close>

definition pg_close :: "'c db_state \<Rightarrow> 'c db_state" where
  "pg_close s = (if conn s \<noteq> None then s\<lparr>conn := None\<rparr> else s)"

definition connection_text :: "pg_config \<Rightarrow> string" where
  "connection_text cfg = ''user='' @ PG_USER cfg @ '' password='' @ PG_PASS cfg @
     '' dbname='' @ PG_DBNAME cfg @ '' hostaddr='' @ PG_HOST cfg @ '' port='' @ fmt_d (PG_PORT cfg)"

definition pg_connect :: "'c pq \<Rightarrow> pg_config \<Rightarrow> 'c db_state \<Rightarrow> (int \<times> 'c db_state) option" where
  "pg_connect pq cfg s = do {
     port_len \<leftarrow> num_digits (PG_PORT cfg);
     let str_len = 40 + port_len + int (length (PG_USER cfg)) + int (length (PG_PASS cfg)) +
       int (length (PG_DBNAME cfg)) + int (length (PG_HOST cfg));
     connection_string \<leftarrow> sprintf (nat str_len) (connection_text cfg);
     let s = s\<lparr>conn := PQconnectdb pq connection_string\<rparr>;
     if PQstatus_bad pq (conn s) then Some (0, pg_close s)
     else Some (1, s) }"

subsection \<open>Tables\<close>

definition quoted :: "string \<Rightarrow> string" where
  "quoted s = CHR 0x27 # s @ [CHR 0x27]"

definition sequence_text :: "string \<Rightarrow> string" where
  "sequence_text name = ''CREATE SEQUENCE '' @ name @ '' START WITH 1 INCREMENT BY 1 NO MINVALUE NO MAXVALUE CACHE 1; ''"

definition owner_text :: "string \<Rightarrow> string \<Rightarrow> string" where
  "owner_text name user = ''ALTER TABLE public.'' @ name @ '' OWNER TO '' @ user @ '';''"

definition sequences_query :: "string \<Rightarrow> string" where
  "sequences_query user =
     sequence_text ''csi_status_id_seq'' @ owner_text ''csi_status_id_seq'' user @ '' '' @
     sequence_text ''csi_data_id_seq'' @ owner_text ''csi_data_id_seq'' user"

definition columns :: "string list \<Rightarrow> string" where
  "columns names = concat (map (\<lambda>n. '','' @ n @ '' INTEGER'') names)"

definition table_text :: "string \<Rightarrow> string \<Rightarrow> string" where
  "table_text name cols = ''CREATE TABLE IF NOT EXISTS '' @ name @ ''(id INTEGER PRIMARY KEY DEFAULT nextval('' @
     quoted (name @ ''_id_seq'') @ ''::regclass),timestamp_milli BIGINT'' @ cols @ '');''"

definition tables_query :: string where
  "tables_query =
     table_text ''csi_status'' (columns [''channel''] @ '',channel_bw REAL'' @
       columns [''rate'', ''num_receives'', ''num_transmitters'', ''num_subcarriers'', ''noise'', ''phy_err'',
         ''full_rssi'', ''rssi_0'', ''rssi_1'', ''rssi_2'', ''payload_len'', ''csi_len'', ''buf_len'']) @
     table_text ''csi_data'' (columns [''status_id'', ''antenna'', ''subcarrier'',
       ''rc_1_real'', ''rc_1_imag'', ''rc_1_rssi'', ''rc_2_real'', ''rc_2_imag'', ''rc_2_rssi'',
       ''rc_3_real'', ''rc_3_imag'', ''rc_3_rssi''])"

definition csi_init_table :: "'c pq \<Rightarrow> pg_config \<Rightarrow> 'c db_state \<Rightarrow> (int \<times> 'c db_state) option" where
  "csi_init_table pq cfg s = (case conn s of
     None \<Rightarrow> Some (0, s)
   | Some c \<Rightarrow> do {
       init_tables_query \<leftarrow> sprintf 1200 (sequences_query (PG_USER cfg));
       let (res, s) = exec pq init_tables_query c s;
       init_tables_query \<leftarrow> sprintf 1200 tables_query;
       c \<leftarrow> conn s;
       let (res, s) = exec pq init_tables_query c s;
       if res \<noteq> PGRES_COMMAND_OK then Some (0, pg_close s) else Some (1, s) })"

subsection \<open>Status\<close>

definition status_query :: "csi_struct \<Rightarrow> string" where
  "status_query st = ''INSERT INTO csi_status VALUES(DEFAULT,'' @
     quoted (fmt_u (unat (s_tstamp st))) @ '','' @ quoted (fmt_d (int (unat (s_channel st)))) @ '','' @
     quoted (if s_chanBW st = 0 then ''20.000000'' else ''40.000000'') @
     concat (map (\<lambda>v. '','' @ quoted (fmt_d (int v)))
       [unat (s_rate st), unat (s_nr st), unat (s_nc st), unat (s_num_tones st), unat (s_noise st),
        unat (s_phyerr st), unat (s_rssi st), unat (s_rssi_0 st), unat (s_rssi_1 st), unat (s_rssi_2 st),
        unat (s_payload_len st), unat (s_csi_len st), unat (s_buf_len st)]) @ '')''"

definition create_csi_status_insert_query :: "nat \<Rightarrow> csi_struct \<Rightarrow> int \<times> string" where
  "create_csi_status_insert_query max_len st = snprintf max_len (status_query st)"

definition select_query :: string where
  "select_query = ''SELECT id FROM csi_status ORDER BY id DESC LIMIT 1''"

definition save_csi_status :: "'c pq \<Rightarrow> csi_struct \<Rightarrow> 'c db_state \<Rightarrow> (int \<times> 'c db_state) option" where
  "save_csi_status pq st s = (case conn s of
     None \<Rightarrow> Some (0, s)
   | Some c \<Rightarrow> do {
       let len = 1 + fst (create_csi_status_insert_query 0 st);
       let insert_query = snd (create_csi_status_insert_query (nat len) st);
       let (res, s) = exec pq insert_query c s;
       if res \<noteq> PGRES_COMMAND_OK then Some (0, pg_close s)
       else do {
         c \<leftarrow> conn s;
         let (res, s) = exec pq select_query c s;
         (case res of
            PGRES_TUPLES_OK rows \<Rightarrow> do {
              v \<leftarrow> PQgetvalue00 rows;
              csi_status_id \<leftarrow> atoi v;
              Some (csi_status_id, s) }
          | _ \<Rightarrow> Some (0, pg_close s)) } })"

subsection \<open>Matrix\<close>

definition row_head :: "csi_struct \<Rightarrow> int \<Rightarrow> nat \<Rightarrow> nat \<Rightarrow> string" where
  "row_head st csi_status_id antenna subcarrier =
     '' (DEFAULT,'' @ quoted (fmt_u (unat (s_tstamp st))) @ '','' @ quoted (fmt_d csi_status_id) @ '','' @
     quoted (fmt_d (int (antenna + 1))) @ '','' @ quoted (fmt_d (int (subcarrier + 1)))"

definition cell_text :: "COMPLEX \<Rightarrow> string" where
  "cell_text z = '','' @ quoted (fmt_d (sint (real z))) @ '','' @ quoted (fmt_d (sint (imag z))) @
     '','' @ quoted (fmt_d 0)"

text \<open>
  The source appends with \<open>sprintf(insert_query, "%s...", insert_query, ...)\<close>, whose source and destination overlap. The C standard leaves that undefined; the model
  takes the calls as the appends they are meant to be (what a library does that copies the prefix onto itself), and checks the bounds of the buffer.
\<close>

definition append_cell :: "nat \<Rightarrow> csi_matrix \<Rightarrow> nat \<Rightarrow> nat \<Rightarrow> nat \<Rightarrow> string \<Rightarrow> string option" where
  "append_cell max_len csi_matrix antenna subcarrier nc insert_query =
     (if in_matrix (antenna, nc, subcarrier)
      then sprintf max_len (insert_query @ cell_text (csi_matrix (antenna, nc, subcarrier)))
      else None)"

definition append_row :: "nat \<Rightarrow> csi_struct \<Rightarrow> int \<Rightarrow> csi_matrix \<Rightarrow> nat \<Rightarrow> nat \<Rightarrow> string \<Rightarrow> string option" where
  "append_row max_len st csi_status_id csi_matrix subcarrier antenna insert_query = do {
     insert_query \<leftarrow> sprintf max_len (insert_query @ row_head st csi_status_id antenna subcarrier);
     insert_query \<leftarrow> for_each (append_cell max_len csi_matrix antenna subcarrier)
       [0..<unat (s_nc st)] insert_query;
     if subcarrier + 1 = unat (s_num_tones st) \<and> antenna + 1 = unat (s_nr st)
     then sprintf max_len (insert_query @ '');'')
     else sprintf max_len (insert_query @ ''),'') }"

definition matrix_query :: "csi_struct \<Rightarrow> int \<Rightarrow> csi_matrix \<Rightarrow> string option" where
  "matrix_query st csi_status_id csi_matrix = do {
     let max_len = 27 + (unat (s_num_tones st) * unat (s_nr st)) * 122;
     insert_query \<leftarrow> sprintf max_len ''INSERT INTO csi_data VALUES'';
     for_each (\<lambda>subcarrier. for_each (append_row max_len st csi_status_id csi_matrix subcarrier)
       [0..<unat (s_nr st)]) [0..<unat (s_num_tones st)] insert_query }"

definition save_csi_matrix ::
    "'c pq \<Rightarrow> int \<Rightarrow> csi_struct \<Rightarrow> csi_matrix \<Rightarrow> 'c db_state \<Rightarrow> (int \<times> 'c db_state) option" where
  "save_csi_matrix pq csi_status_id st csi_matrix s = (case conn s of
     None \<Rightarrow> Some (0, s)
   | Some c \<Rightarrow> do {
       insert_query \<leftarrow> matrix_query st csi_status_id csi_matrix;
       let (res, s) = exec pq insert_query c s;
       if res \<noteq> PGRES_COMMAND_OK then Some (0, pg_close s) else Some (1, s) })"

definition save_csi ::
    "'c pq \<Rightarrow> csi_struct \<Rightarrow> csi_matrix \<Rightarrow> 'c db_state \<Rightarrow> (int \<times> 'c db_state) option" where
  "save_csi pq st csi_matrix s = do {
     (csi_status_id, s) \<leftarrow> save_csi_status pq st s;
     if csi_status_id = 0 then Some (0, s)
     else do {
       (ok, s) \<leftarrow> save_csi_matrix pq csi_status_id st csi_matrix s;
       if ok = 0 then Some (0, s) else Some (1, s) } }"

subsection \<open>Header of a report\<close>

text \<open>
  The time stamp is the wall clock, \<open>clock_gettime\<close>'s seconds and nanoseconds (below a second),
  rounded to milliseconds. The little-endian branch does not assign \<open>csi_len\<close>.
\<close>

definition wall_clock_ms :: "int \<times> int \<Rightarrow> int" where
  "wall_clock_ms spec = (case spec of (tv_sec, tv_nsec) \<Rightarrow> tv_sec * 1000 + (tv_nsec + 500000) div 1000000)"

definition db_record_status ::
    "byte_order \<Rightarrow> int \<times> int \<Rightarrow> bytes \<Rightarrow> int \<Rightarrow> csi_struct \<Rightarrow> csi_struct option" where
  "db_record_status bo spec buf cnt csi_status = do {
     let final_ts = wall_clock_ms spec;
     b \<leftarrow> rd_range buf 0 23;
     p0 \<leftarrow> rd buf csi_st_len;
     p1 \<leftarrow> rd buf (csi_st_len + 1);
     l2 \<leftarrow> rdi buf (cnt - 2);
     l1 \<leftarrow> rdi buf (cnt - 1);
     let csi_status =
       (if is_big_endian bo
        then csi_status\<lparr>s_tstamp := word_of_int final_ts,
               s_csi_len := pair16 (b ! 8) (b ! 9), s_channel := pair16 (b ! 10) (b ! 11),
               s_buf_len := pair16 l2 l1, s_payload_len := pair16 p0 p1\<rparr>
        else csi_status\<lparr>s_tstamp := word_of_int final_ts,
               s_channel := pair16 (b ! 11) (b ! 10),
               s_buf_len := pair16 l1 l2, s_payload_len := pair16 p1 p0\<rparr>);
     Some (csi_status\<lparr>s_phyerr := b ! 12, s_noise := b ! 13, s_rate := b ! 14,
             s_chanBW := b ! 15, s_num_tones := b ! 16, s_nr := b ! 17, s_nc := b ! 18,
             s_rssi := b ! 19, s_rssi_0 := b ! 20, s_rssi_1 := b ! 21, s_rssi_2 := b ! 22\<rparr>) }"

definition db_record_csi_payload ::
    "bytes \<Rightarrow> csi_struct \<Rightarrow> bytes \<Rightarrow> csi_matrix \<Rightarrow> (bytes \<times> csi_matrix) option" where
  "db_record_csi_payload buf csi_status data csi_matrix = do {
     let payload_len = unat (s_payload_len csi_status);
     let csi_len = unat (s_csi_len csi_status);
     data \<leftarrow> for_each (\<lambda>i d. do {
         v \<leftarrow> rd buf (csi_st_len + csi_len + i + 1);
         wr d (i - 1) v }) [1..<payload_len + 1] data;
     csi_matrix \<leftarrow> fill_csi_matrix (drop (csi_st_len + 2) buf)
       (s_nr csi_status) (s_nc csi_status) (s_num_tones csi_status) csi_matrix;
     Some (data, csi_matrix) }"

subsection \<open>Main program\<close>

record 'c db_recv =
  db_quit :: int
  db_buf_addr :: bytes
  db_data_buf :: bytes
  db_matrix :: csi_matrix
  db_status :: csi_struct
  db_msg_cnt :: cint
  db :: "'c db_state"

definition db_start ::
    "'c pq \<Rightarrow> pg_config \<Rightarrow> nat \<Rightarrow> bool \<Rightarrow> int \<Rightarrow> int \<Rightarrow> csi_struct \<Rightarrow> (int + 'c db_recv) option" where
  "db_start pq cfg argc fopen_ok fd errno st0 = do {
     (_, s) \<leftarrow> pg_connect pq cfg \<lparr>conn = None, sent = []\<rparr>;
     if argc = 2 \<and> \<not> fopen_ok then None
     else if 2 < argc then Some (Inl 0)
     else if fd < 0 then Some (Inl errno)
     else do {
       (_, s) \<leftarrow> csi_init_table pq cfg s;
       Some (Inr \<lparr>db_quit = 0, db_buf_addr = replicate BUFSIZE 0, db_data_buf = replicate 1500 0,
         db_matrix = (\<lambda>_. \<lparr>real = 0, imag = 0\<rparr>), db_status = st0, db_msg_cnt = 0, db = s\<rparr>) } }"

definition db_step ::
    "byte_order \<Rightarrow> 'c pq \<Rightarrow> (int \<times> int) \<times> int \<times> bytes \<Rightarrow> 'c db_recv \<Rightarrow> (int + 'c db_recv) option" where
  "db_step bo pq event s =
     (if db_quit s = 1 then Some (Inl 0)
      else do {
        let (spec, ret) = event;
        let (cnt, buf) = read_csi_buf ret;
        let s = s\<lparr>db_buf_addr := buf\<rparr>;
        if cnt \<noteq> 0 then do {
          let s = s\<lparr>db_msg_cnt := db_msg_cnt s + 1\<rparr>;
          st \<leftarrow> db_record_status bo spec (db_buf_addr s) cnt (db_status s);
          (d, m) \<leftarrow> db_record_csi_payload (db_buf_addr s) st (db_data_buf s) (db_matrix s);
          (_, s') \<leftarrow> save_csi pq st m (db s);
          Some (Inr (s\<lparr>db_status := st, db_data_buf := d, db_matrix := m, db := s'\<rparr>)) }
        else Some (Inr s) })"

fun db_loop ::
    "byte_order \<Rightarrow> 'c pq \<Rightarrow> ((int \<times> int) \<times> int \<times> bytes) list \<Rightarrow> 'c db_recv \<Rightarrow>
     (int + 'c db_recv) option" where
  "db_loop bo pq [] s = Some (Inr s)"
| "db_loop bo pq (e # es) s =
     (case db_step bo pq e s of
        None \<Rightarrow> None
      | Some (Inl r) \<Rightarrow> Some (Inl r)
      | Some (Inr s') \<Rightarrow> db_loop bo pq es s')"

subsection \<open>Digits and the connection string\<close>

lemma count_digits_fmt_u: "count_digits (int n) d = (if n = 0 then d else d + int (length (fmt_u n)))"
proof (induction n arbitrary: d rule: fmt_u.induct)
  case (1 n)
  show ?case
  proof (cases "n < 10")
    case True
    then show ?thesis
      using count_digits.simps [of "int n" d] count_digits.simps [of 0 "d + 1"] by (simp add: fmt_u.simps)
  next
    case False
    then have "n div 10 \<noteq> 0" by auto
    with False show ?thesis
      using 1 [of "d + 1"] count_digits.simps [of "int n" d]
      by (simp add: fmt_u.simps [of n] flip: zdiv_int [of n 10, simplified])
  qed
qed

lemma long_num_digits_eq:
  assumes "i \<noteq> LONG_MIN"
  shows "long_num_digits i = Some (int (length (fmt_d i)))"
proof -
  have "fmt_u 0 = [digit 0]" by (simp add: fmt_u.simps)
  then show ?thesis
    using assms count_digits_fmt_u [of "nat (- i)" 1] count_digits_fmt_u [of "nat i" 0]
    by (auto simp: long_num_digits_def fmt_d_def)
qed

lemma connection_text_length:
  "length (connection_text cfg) + 1 = 40 + length (fmt_d (PG_PORT cfg)) + length (PG_USER cfg) +
     length (PG_PASS cfg) + length (PG_DBNAME cfg) + length (PG_HOST cfg)"
  by (simp add: connection_text_def)

text \<open>
  The buffer that \<open>pg_connect\<close> sizes by counting digits and string lengths holds the connection
  string and its terminator exactly, whatever user, password, database, host and port are, so
  \<open>pg_connect\<close> never overruns it; it leaves a connection exactly when it returns 1, and that is the
  connection libpq made for this string.
\<close>

lemma pg_connect_fits:
  assumes "in_int (PG_PORT cfg)"
  shows "\<exists>str_len. num_digits (PG_PORT cfg) = Some (int (length (fmt_d (PG_PORT cfg)))) \<and>
    str_len = 40 + length (fmt_d (PG_PORT cfg)) + length (PG_USER cfg) + length (PG_PASS cfg) +
      length (PG_DBNAME cfg) + length (PG_HOST cfg) \<and>
    str_len = length (connection_text cfg) + 1 \<and>
    pg_connect pq cfg s =
      (if PQstatus_bad pq (PQconnectdb pq (connection_text cfg)) then Some (0, s\<lparr>conn := None\<rparr>)
       else Some (1, s\<lparr>conn := PQconnectdb pq (connection_text cfg)\<rparr>))"
proof -
  have "PG_PORT cfg \<noteq> LONG_MIN" using assms by (simp add: in_int_def LONG_MIN_def)
  from long_num_digits_eq [OF this] have d: "num_digits (PG_PORT cfg) = Some (int (length (fmt_d (PG_PORT cfg))))"
    by (simp add: num_digits_def)
  have "nat (40 + int (length (fmt_d (PG_PORT cfg))) + int (length (PG_USER cfg)) + int (length (PG_PASS cfg)) +
      int (length (PG_DBNAME cfg)) + int (length (PG_HOST cfg))) = Suc (length (connection_text cfg))"
    using connection_text_length [of cfg] by linarith
  with d show ?thesis
    using connection_text_length [of cfg]
    by (auto simp: pg_connect_def c_mem Let_def pg_close_def)
qed

subsection \<open>The statement for the matrix\<close>

lemma for_each_sprintf:
  assumes "\<And>x buf. x \<in> set xs \<Longrightarrow> length (buf @ f x) < cap \<Longrightarrow> g x buf = Some (buf @ f x)"
    and "length (buf @ concat (map f xs)) < cap"
  shows "for_each g xs buf = Some (buf @ concat (map f xs))"
  using assms
proof (induction xs arbitrary: buf)
  case (Cons x xs)
  then have "g x buf = Some (buf @ f x)" by (intro Cons.prems(1)) auto
  with Cons show ?case by simp
qed simp

definition row_text :: "csi_struct \<Rightarrow> int \<Rightarrow> csi_matrix \<Rightarrow> nat \<times> nat \<Rightarrow> string" where
  "row_text st csi_status_id m p = (case p of (t, a) \<Rightarrow> row_head st csi_status_id a t @
     concat (map (\<lambda>c. cell_text (m (a, c, t))) [0..<unat (s_nc st)]) @ '')'')"

fun sql_rows :: "string list \<Rightarrow> string" where
  "sql_rows [] = ''''"
| "sql_rows [r] = r @ '';''"
| "sql_rows (r # rs) = r @ '','' @ sql_rows rs"

definition row_order :: "csi_struct \<Rightarrow> (nat \<times> nat) list" where
  "row_order st = List.product [0..<unat (s_num_tones st)] [0..<unat (s_nr st)]"

definition matrix_text :: "csi_struct \<Rightarrow> int \<Rightarrow> csi_matrix \<Rightarrow> string" where
  "matrix_text st csi_status_id m =
     ''INSERT INTO csi_data VALUES'' @ sql_rows (map (row_text st csi_status_id m) (row_order st))"

lemma sql_rows_concat:
  assumes "distinct xs"
  shows "concat (map (\<lambda>x. r x @ (if x = last xs then '';'' else '','')) xs) = sql_rows (map r xs)"
  using assms
proof (induction xs rule: induct_list012)
  case (3 x y zs)
  then have "concat (map (\<lambda>a. r a @ (if a = last (x # y # zs) then '';'' else '','')) (y # zs)) =
      sql_rows (map r (y # zs))" by simp
  moreover have "x \<noteq> last (y # zs)" using 3(3) last_in_set [of "y # zs"] by auto
  ultimately show ?case by simp
qed simp_all

lemma last_row_order:
  assumes "0 < unat (s_num_tones st)" and "0 < unat (s_nr st)"
  shows "last (row_order st) = (unat (s_num_tones st) - 1, unat (s_nr st) - 1)"
proof -
  obtain t n where "unat (s_num_tones st) = Suc t" "unat (s_nr st) = Suc n"
    using assms by (auto simp: gr0_conv_Suc)
  then show ?thesis by (simp add: row_order_def product_concat_map)
qed

definition row_sep :: "csi_struct \<Rightarrow> int \<Rightarrow> csi_matrix \<Rightarrow> nat \<times> nat \<Rightarrow> string" where
  "row_sep st csi_status_id m p = row_text st csi_status_id m p @ (if p = last (row_order st) then '';'' else '','')"

lemma append_row_eq:
  assumes "length (buf @ row_sep st i m (t, a)) < cap" and "a < unat (s_nr st)" and "t < unat (s_num_tones st)"
    and "unat (s_nr st) \<le> 3" "unat (s_nc st) \<le> 3" "unat (s_num_tones st) \<le> 114"
  shows "append_row cap st i m t a buf = Some (buf @ row_sep st i m (t, a))"
proof -
  let ?f = "\<lambda>c. cell_text (m (a, c, t))"
  have l: "t + 1 = unat (s_num_tones st) \<and> a + 1 = unat (s_nr st) \<longleftrightarrow> (t, a) = last (row_order st)"
    using last_row_order [of st] assms(2,3) by auto
  have "for_each (append_cell cap m a t) [0..<unat (s_nc st)] (buf @ row_head st i a t) =
      Some ((buf @ row_head st i a t) @ concat (map ?f [0..<unat (s_nc st)]))"
  proof (rule for_each_sprintf [where cap = cap])
    fix c buf' assume "c \<in> set [0..<unat (s_nc st)]" "length (buf' @ ?f c) < cap"
    then show "append_cell cap m a t c buf' = Some (buf' @ ?f c)"
      using assms by (auto simp: append_cell_def in_matrix_def c_mem)
  next
    show "length ((buf @ row_head st i a t) @ concat (map ?f [0..<unat (s_nc st)])) < cap"
      using assms(1) by (simp add: row_sep_def row_text_def del: length_concat)
  qed
  with assms(1) show ?thesis
    unfolding append_row_def l row_sep_def row_text_def
    by (auto simp: c_mem simp del: length_concat)
qed

text \<open>Every row is at most 112 characters long; \<open>save_csi_matrix\<close> reserves 122.\<close>

definition ten_bit :: "csi_matrix \<Rightarrow> csi_struct \<Rightarrow> bool" where
  "ten_bit m st \<longleftrightarrow> (\<forall>a < unat (s_nr st). \<forall>c < unat (s_nc st). \<forall>t < unat (s_num_tones st).
     - 512 \<le> sint (real (m (a, c, t))) \<and> sint (real (m (a, c, t))) \<le> 511 \<and>
     - 512 \<le> sint (imag (m (a, c, t))) \<and> sint (imag (m (a, c, t))) \<le> 511)"

lemma length_quoted: "length (quoted s) = length s + 2"
  by (simp add: quoted_def)

lemma length_cell_text:
  assumes "- 512 \<le> sint (real z)" "sint (real z) \<le> 511" "- 512 \<le> sint (imag z)" "sint (imag z) \<le> 511"
  shows "length (cell_text z) \<le> 18"
proof -
  have "length (fmt_d (sint (real z))) \<le> 4" "length (fmt_d (sint (imag z))) \<le> 4"
    using assms length_fmt_d [of 3 "sint (real z)"] length_fmt_d [of 3 "sint (imag z)"]
    by (auto split: if_splits)
  moreover have "length (fmt_d 0) \<le> 1" using length_fmt_d [of 1 0] by simp
  ultimately show ?thesis by (simp add: cell_text_def length_quoted)
qed

lemma length_row_head:
  assumes "in_int i" "a < 3" "t < 114"
  shows "length (row_head st i a t) \<le> 56"
proof -
  have "unat (s_tstamp st) < 2 ^ 64" by (rule order.strict_trans2 [OF unsigned_less]) simp
  then have "unat (s_tstamp st) < 10 ^ 20" by simp
  then have "length (fmt_u (unat (s_tstamp st))) \<le> 20" by (rule length_fmt_u) simp
  moreover have "length (fmt_d i) \<le> 11"
    using assms(1) length_fmt_d [of 10 i] by (auto simp: in_int_def split: if_splits)
  moreover have "length (fmt_d (int (a + 1))) \<le> 1" using assms(2) length_fmt_d [of 1 "int (a + 1)"] by simp
  moreover have "length (fmt_d (int (t + 1))) \<le> 3" using assms(3) length_fmt_d [of 3 "int (t + 1)"] by simp
  ultimately show ?thesis by (simp add: row_head_def length_quoted)
qed

lemma length_concat_le:
  assumes "\<And>x. x \<in> set xs \<Longrightarrow> length (f x) \<le> k"
  shows "length (concat (map f xs)) \<le> k * length xs"
  using assms
proof (induction xs)
  case (Cons x xs)
  then have "length (f x) \<le> k" "length (concat (map f xs)) \<le> k * length xs" by simp_all
  then show ?case by (simp del: length_concat)
qed simp

lemma length_row_sep:
  assumes "in_int i" "ten_bit m st" "a < unat (s_nr st)" "t < unat (s_num_tones st)"
    and "unat (s_nr st) \<le> 3" "unat (s_nc st) \<le> 3" "unat (s_num_tones st) \<le> 114"
  shows "length (row_sep st i m (t, a)) \<le> 112"
proof -
  let ?f = "\<lambda>c. cell_text (m (a, c, t))"
  have "length (concat (map ?f [0..<unat (s_nc st)])) \<le> 18 * length [0..<unat (s_nc st)]"
    by (rule length_concat_le) (use assms in \<open>simp add: length_cell_text ten_bit_def\<close>)
  moreover have "length (row_head st i a t) \<le> 56"
    by (rule length_row_head) (use assms in simp_all)
  ultimately show ?thesis
    using assms(6) by (simp add: row_sep_def row_text_def del: length_concat)
qed

lemma matrix_query_eq:
  assumes "in_int i" "ten_bit m st" "0 < unat (s_nr st)" "0 < unat (s_num_tones st)"
    and "unat (s_nr st) \<le> 3" "unat (s_nc st) \<le> 3" "unat (s_num_tones st) \<le> 114"
  shows "matrix_query st i m = Some (matrix_text st i m)"
proof -
  let ?n = "unat (s_num_tones st) * unat (s_nr st)" and ?xs = "row_order st"
  let ?cap = "27 + ?n * 122" and ?f = "row_sep st i m" and ?b = "''INSERT INTO csi_data VALUES''"
  have n: "length ?xs = ?n" "0 < ?n" using assms(3,4) by (simp_all add: row_order_def length_product)
  have "length (concat (map ?f ?xs)) \<le> 112 * length ?xs"
    by (rule length_concat_le) (use length_row_sep [OF assms(1,2) _ _ assms(5-7)] in \<open>auto simp: row_order_def\<close>)
  then have "length (concat (map ?f ?xs)) < ?n * 122" using n by linarith
  then have cap: "length (?b @ concat (map ?f ?xs)) < ?cap" by (simp del: length_concat)
  have "for_each (\<lambda>(t, a). append_row ?cap st i m t a) ?xs ?b = Some (?b @ concat (map ?f ?xs))"
  proof (rule for_each_sprintf [OF _ cap])
    fix x buf assume "x \<in> set ?xs" and "length (buf @ ?f x) < ?cap"
    then show "(\<lambda>(t, a). append_row ?cap st i m t a) x buf = Some (buf @ ?f x)"
      using append_row_eq [OF _ _ _ assms(5-7)] by (auto simp: row_order_def)
  qed
  moreover have "concat (map ?f ?xs) = sql_rows (map (row_text st i m) ?xs)"
    unfolding row_sep_def by (rule sql_rows_concat) (simp add: row_order_def distinct_product)
  moreover have "for_each (\<lambda>t. for_each (append_row ?cap st i m t) [0..<unat (s_nr st)]) [0..<unat (s_num_tones st)] ?b =
      for_each (\<lambda>(t, a). append_row ?cap st i m t a) ?xs ?b"
    unfolding row_order_def for_each_product [symmetric] by simp
  ultimately show ?thesis
    using n(2) unfolding matrix_query_def matrix_text_def Let_def by (simp add: c_mem)
qed

text \<open>
  C25. The statement that \<open>save_csi_matrix\<close> builds for a report with 1 to 114 subcarriers, 1 to 3 receive antennas, at most 3 transmit antennas and samples of ten bits fits
  the buffer the function allocates, and it is one \<open>INSERT\<close> with one row for every subcarrier and receive antenna, in this order, the rows separated by commas and closed
  by a semicolon. This is for \<open>sprintf\<close> onto its own argument taken as appending; an empty matrix does overrun the buffer (\<open>matrix_query_empty_overflow\<close>).
\<close>

theorem matrix_query_text:
  assumes "in_int i" "ten_bit m st" "0 < unat (s_nr st)" "0 < unat (s_num_tones st)"
    and "unat (s_nr st) \<le> 3" "unat (s_nc st) \<le> 3" "unat (s_num_tones st) \<le> 114"
  shows "matrix_query st i m = Some (''INSERT INTO csi_data VALUES'' @
    sql_rows (map (row_text st i m)
      (List.product [0..<unat (s_num_tones st)] [0..<unat (s_nr st)])))"
  using matrix_query_eq [OF assms] by (simp add: matrix_text_def row_order_def)

definition st_example :: csi_struct where
  "st_example = \<lparr>s_tstamp = 5, s_channel = 0, s_chanBW = 0, s_rate = 0, s_nr = 1, s_nc = 1, s_num_tones = 1,
     s_noise = 0, s_phyerr = 0, s_rssi = 0, s_rssi_0 = 0, s_rssi_1 = 0, s_rssi_2 = 0,
     s_payload_len = 0, s_csi_len = 0, s_buf_len = 0\<rparr>"

lemma st_example_ten_bit: "ten_bit (\<lambda>_. \<lparr>real = 3, imag = - 4\<rparr>) st_example"
  by (simp add: ten_bit_def)

theorem matrix_query_text_witness:
  "ten_bit (\<lambda>_. \<lparr>real = 3, imag = - 4\<rparr>) st_example \<and>
   matrix_query st_example 7 (\<lambda>_. \<lparr>real = 3, imag = - 4\<rparr>) =
     Some (''INSERT INTO csi_data VALUES (DEFAULT,'' @ quoted ''5'' @ '','' @ quoted ''7'' @ '','' @ quoted ''1'' @
       '','' @ quoted ''1'' @ '','' @ quoted ''3'' @ '','' @ quoted ''-4'' @ '','' @ quoted ''0'' @ '');'')"
  using matrix_query_text [OF _ st_example_ten_bit, of 7] st_example_ten_bit
  by (simp add: st_example_def in_int_def row_text_def row_head_def cell_text_def fmt_d_def
      fmt_u.simps digit_def char_of_def bit_0)

subsection \<open>Saving a report\<close>

lemma save_csi_disconnected: "conn s = None \<Longrightarrow> save_csi pq st m s = Some (0, s)"
  by (simp add: save_csi_def save_csi_status_def)

lemma status_query_complete:
  "snd (create_csi_status_insert_query (nat (1 + fst (create_csi_status_insert_query 0 st))) st) = status_query st"
  by (simp add: create_csi_status_insert_query_def snprintf_def nat_add_distrib)

definition saves :: "'c pq \<Rightarrow> csi_struct \<Rightarrow> csi_matrix \<Rightarrow> 'c \<Rightarrow> int \<Rightarrow> 'c \<Rightarrow> bool" where
  "saves pq st m c i c' \<longleftrightarrow> (\<exists>c1 c2 rows v vs. PQexec pq c (status_query st) = (PGRES_COMMAND_OK, c1) \<and>
     PQexec pq c1 select_query = (PGRES_TUPLES_OK ((v # vs) # rows), c2) \<and> atoi v = Some i \<and> i \<noteq> 0 \<and>
     PQexec pq c2 (matrix_text st i m) = (PGRES_COMMAND_OK, c'))"

lemma atoi_in_int: "atoi v = Some i \<Longrightarrow> in_int i"
  by (auto simp: atoi_def split: if_splits)

lemma save_csi_ok:
  assumes "conn s = Some c" and "saves pq st m c i c'" and "ten_bit m st"
    and "0 < unat (s_nr st)" "0 < unat (s_num_tones st)"
    and "unat (s_nr st) \<le> 3" "unat (s_nc st) \<le> 3" "unat (s_num_tones st) \<le> 114"
  shows "save_csi pq st m s = Some (1, s\<lparr>conn := Some c',
    sent := sent s @ [status_query st, select_query, matrix_text st i m]\<rparr>)"
proof -
  from assms(2) obtain c1 c2 rows v vs where
    e: "PQexec pq c (status_query st) = (PGRES_COMMAND_OK, c1)"
      "PQexec pq c1 select_query = (PGRES_TUPLES_OK ((v # vs) # rows), c2)" "atoi v = Some i" "i \<noteq> 0"
      "PQexec pq c2 (matrix_text st i m) = (PGRES_COMMAND_OK, c')"
    by (auto simp: saves_def)
  have "matrix_query st i m = Some (matrix_text st i m)"
    using matrix_query_eq [OF atoi_in_int [OF e(3)] assms(3-8)] .
  with e assms(1) show ?thesis
    by (simp add: save_csi_def save_csi_status_def save_csi_matrix_def status_query_complete exec_def
        PQgetvalue00_def Let_def)
qed

text \<open>
  Statements that the server executes one after the other, each with the result that the code wants of it (rows for the second component \<open>True\<close>), and the id that
  the server returns for a status it has just stored.
\<close>

definition answer_ok :: "bool \<Rightarrow> pg_result \<Rightarrow> bool" where
  "answer_ok rows res = (if rows then case res of PGRES_TUPLES_OK _ \<Rightarrow> True | _ \<Rightarrow> False else res = PGRES_COMMAND_OK)"

fun executed :: "'c pq \<Rightarrow> 'c \<Rightarrow> (string \<times> bool) list \<Rightarrow> 'c \<Rightarrow> bool" where
  "executed pq c [] c' = (c' = c)"
| "executed pq c ((q, rows) # qs) c' = (answer_ok rows (fst (PQexec pq c q)) \<and> executed pq (snd (PQexec pq c q)) qs c')"

definition returned_id :: "'c pq \<Rightarrow> csi_struct \<Rightarrow> 'c \<Rightarrow> int option" where
  "returned_id pq st c = (case PQexec pq (snd (PQexec pq c (status_query st))) select_query of
     (PGRES_TUPLES_OK rows, _) \<Rightarrow> Option.bind (PQgetvalue00 rows) atoi | _ \<Rightarrow> None)"

text \<open>The ways in which the two halves of a save can end.\<close>

lemma save_csi_status_cases:
  assumes "save_csi_status pq st s = Some (i, s1)" and "conn s = Some c"
    and "PQexec pq c (status_query st) = (a1, c1)" and "PQexec pq c1 select_query = (a2, c2)"
  shows "if a1 \<noteq> PGRES_COMMAND_OK then i = 0 \<and> s1 = s\<lparr>conn := None, sent := sent s @ [status_query st]\<rparr>
    else if \<not> answer_ok True a2 then i = 0 \<and> s1 = s\<lparr>conn := None, sent := sent s @ [status_query st, select_query]\<rparr>
    else s1 = s\<lparr>conn := Some c2, sent := sent s @ [status_query st, select_query]\<rparr> \<and> returned_id pq st c = Some i"
  using assms unfolding save_csi_status_def assms(2) option.case Let_def status_query_complete
  by (cases a2) (auto simp: exec_def pg_close_def bind_eq_Some_conv answer_ok_def returned_id_def split: if_splits)

lemma save_csi_matrix_cases:
  assumes "save_csi_matrix pq i st m s = Some (r, s1)" and "conn s = Some c"
  shows "\<exists>q. matrix_query st i m = Some q \<and> sent s1 = sent s @ [q] \<and>
    (if fst (PQexec pq c q) = PGRES_COMMAND_OK then r = 1 \<and> conn s1 = Some (snd (PQexec pq c q)) else r = 0 \<and> conn s1 = None)"
proof -
  from assms obtain q where q: "matrix_query st i m = Some q" by (auto simp: save_csi_matrix_def bind_eq_Some_conv)
  obtain a c' where e: "PQexec pq c q = (a, c')" by fastforce
  show ?thesis
    by (rule exI [of _ q]) (use assms q e in \<open>auto simp: save_csi_matrix_def Let_def exec_def pg_close_def split: if_splits\<close>)
qed

text \<open>
  How a save ends: after the statements \<open>qs\<close>, all of them executed, the last statement is \<open>q\<close>; the result and the connection depend on whether it is executed too.
\<close>

definition save_ends ::
    "'c pq \<Rightarrow> csi_struct \<Rightarrow> csi_matrix \<Rightarrow> 'c \<Rightarrow> 'c db_state \<Rightarrow> int \<Rightarrow> 'c db_state \<Rightarrow> (string \<times> bool) list \<Rightarrow> string \<Rightarrow> bool \<Rightarrow> 'c \<Rightarrow> bool" where
  "save_ends pq st m c s r s' qs q rows c' \<longleftrightarrow>
     sent s' = sent s @ map fst (qs @ [(q, rows)]) \<and> executed pq c qs c' \<and>
     (qs @ [(q, rows)] = [(status_query st, False)] \<or> qs @ [(q, rows)] = [(status_query st, False), (select_query, True)] \<or>
      (\<exists>i. returned_id pq st c = Some i \<and> i \<noteq> 0 \<and> matrix_query st i m = Some q \<and>
         qs @ [(q, rows)] = [(status_query st, False), (select_query, True), (q, False)])) \<and>
     (if answer_ok rows (fst (PQexec pq c' q))
      then conn s' = Some (snd (PQexec pq c' q)) \<and>
        (r = 1 \<and> length qs = 2 \<or> r = 0 \<and> length qs = 1 \<and> returned_id pq st c = Some 0)
      else conn s' = None \<and> r = 0)"

definition all_executed :: "'c pq \<Rightarrow> csi_struct \<Rightarrow> csi_matrix \<Rightarrow> 'c \<Rightarrow> bool" where
  "all_executed pq st m c \<longleftrightarrow> (\<exists>i q c'. returned_id pq st c = Some i \<and> i \<noteq> 0 \<and> matrix_query st i m = Some q \<and>
     executed pq c [(status_query st, False), (select_query, True), (q, False)] c')"

lemma save_ends_result:
  assumes "save_ends pq st m c s r s' qs q rows c'"
  shows "r = 1 \<longleftrightarrow> all_executed pq st m c"
proof -
  consider "qs = []" "q = status_query st" "\<not> rows" | "qs = [(status_query st, False)]" "q = select_query" "rows"
    | i where "qs = [(status_query st, False), (select_query, True)]" "\<not> rows" "returned_id pq st c = Some i" "i \<noteq> 0" "matrix_query st i m = Some q"
    using assms unfolding save_ends_def by (auto simp: append_eq_Cons_conv)
  then show ?thesis
    by cases (use assms in \<open>auto simp: save_ends_def all_executed_def split: if_splits\<close>)
qed

text \<open>
  C26. Whatever the server answers, \<open>save_csi\<close> on an open connection sends the statements of a report in order (status, look-up of its id, matrix under that id), and every
  statement it sends but the last was executed with the result it needs. Either the last one was too: then the connection stays open and the result is 1 when all three
  were executed, and 0 when the id that the server returned was 0. Or the last one failed: then the connection is closed and the result is 0. On a closed connection nothing is sent
  and the result is 0. So 1 is returned exactly when all three statements were executed.
\<close>

theorem save_csi_protocol:
  assumes "save_csi pq st m s = Some (r, s')"
  shows "case conn s of None \<Rightarrow> r = 0 \<and> s' = s | Some c \<Rightarrow> (\<exists>qs q rows c'. save_ends pq st m c s r s' qs q rows c') \<and> (r = 1 \<longleftrightarrow> all_executed pq st m c)"
proof (cases "conn s")
  case None
  with assms show ?thesis by (simp add: save_csi_disconnected)
next
  case (Some c)
  from assms obtain i s1 where st: "save_csi_status pq st s = Some (i, s1)" and
    rest: "(if i = 0 then Some (0, s1) else Option.bind (save_csi_matrix pq i st m s1)
       (\<lambda>(ok, s). if ok = 0 then Some (0, s) else Some (1, s))) = Some (r, s')"
    by (auto simp: save_csi_def bind_eq_Some_conv)
  obtain a1 c1 where e1: "PQexec pq c (status_query st) = (a1, c1)" by fastforce
  obtain a2 c2 where e2: "PQexec pq c1 select_query = (a2, c2)" by fastforce
  note sc = save_csi_status_cases [OF st Some e1 e2]
  consider "a1 \<noteq> PGRES_COMMAND_OK" | "a1 = PGRES_COMMAND_OK" "\<not> answer_ok True a2 \<or> i = 0"
    | "a1 = PGRES_COMMAND_OK" "answer_ok True a2" "i \<noteq> 0" by blast
  then show ?thesis
  proof cases
    case 1
    with sc rest e1 have "save_ends pq st m c s r s' [] (status_query st) False c" by (auto simp: save_ends_def answer_ok_def)
    with Some save_ends_result [OF this] show ?thesis by auto
  next
    case 2
    with sc rest e1 e2 have "save_ends pq st m c s r s' [(status_query st, False)] select_query True c1"
      by (auto simp: save_ends_def answer_ok_def split: if_splits)
    with Some save_ends_result [OF this] show ?thesis by auto
  next
    case 3
    with sc have s1: "conn s1 = Some c2" "sent s1 = sent s @ [status_query st, select_query]" "returned_id pq st c = Some i" by simp_all
    from rest 3(3) obtain ok s2 where m: "save_csi_matrix pq i st m s1 = Some (ok, s2)"
      "(if ok = 0 then Some (0, s2) else Some (1, s2)) = Some (r, s')"
      by (auto simp: bind_eq_Some_conv)
    from save_csi_matrix_cases [OF m(1) s1(1)] obtain q where q: "matrix_query st i m = Some q" "sent s2 = sent s1 @ [q]"
      "if fst (PQexec pq c2 q) = PGRES_COMMAND_OK then ok = 1 \<and> conn s2 = Some (snd (PQexec pq c2 q)) else ok = 0 \<and> conn s2 = None" by blast
    have "r = ok" "s' = s2" using m(2) q(3) by (auto split: if_splits)
    with q s1 3 e1 e2 have "save_ends pq st m c s r s' [(status_query st, False), (select_query, True)] q False c2"
      by (auto simp: save_ends_def answer_ok_def split: if_splits)
    with Some save_ends_result [OF this] show ?thesis by auto
  qed
qed

definition pq_example :: "nat pq" where
  "pq_example = \<lparr>PQconnectdb = (\<lambda>_. Some 0), PQstatus_bad = (\<lambda>c. c = None),
     PQexec = (\<lambda>c q. if q = select_query then (PGRES_TUPLES_OK [[fmt_d (int c)]], c)
       else (PGRES_COMMAND_OK, c + 1))\<rparr>"

lemma select_query_neq: "status_query st \<noteq> select_query" "matrix_text st i m \<noteq> select_query"
  by (simp_all add: status_query_def select_query_def matrix_text_def)

lemma saves_example: "int (c + 1) < 2 ^ 31 \<Longrightarrow> saves pq_example st m c (int (c + 1)) (c + 2)"
  using dec_codec.dec_enc [of "int (c + 1)"]
  by (simp add: saves_def pq_example_def select_query_neq in_int_def)

theorem save_csi_protocol_witness:
  "\<exists>s'. save_csi pq_example st_example (\<lambda>_. \<lparr>real = 3, imag = - 4\<rparr>) \<lparr>conn = Some 0, sent = []\<rparr> = Some (1, s') \<and>
     length (sent s') = 3 \<and> all_executed pq_example st_example (\<lambda>_. \<lparr>real = 3, imag = - 4\<rparr>) 0"
proof -
  have 1: "save_csi pq_example st_example (\<lambda>_. \<lparr>real = 3, imag = - 4\<rparr>) \<lparr>conn = Some 0, sent = []\<rparr> =
    Some (1, \<lparr>conn = Some 2, sent = [status_query st_example, select_query,
      matrix_text st_example 1 (\<lambda>_. \<lparr>real = 3, imag = - 4\<rparr>)]\<rparr>)"
    using save_csi_ok [OF _ saves_example [of 0] st_example_ten_bit, of "\<lparr>conn = Some 0, sent = []\<rparr>"]
    by (simp add: st_example_def)
  show ?thesis using save_csi_protocol [OF 1] 1 by auto
qed

subsection \<open>The receive loop\<close>

lemma db_record_status_ok:
  assumes "25 \<le> length buf" and "2 \<le> cnt" and "cnt \<le> int (length buf)"
  shows "db_record_status bo spec buf cnt st = Some (st\<lparr>
    s_tstamp := word_of_int (wall_clock_ms spec), s_channel := pair16 (buf ! 11) (buf ! 10),
    s_buf_len := pair16 (buf ! nat (cnt - 1)) (buf ! nat (cnt - 2)),
    s_payload_len := pair16 (buf ! 24) (buf ! 23),
    s_phyerr := buf ! 12, s_noise := buf ! 13, s_rate := buf ! 14, s_chanBW := buf ! 15,
    s_num_tones := buf ! 16, s_nr := buf ! 17, s_nc := buf ! 18, s_rssi := buf ! 19,
    s_rssi_0 := buf ! 20, s_rssi_1 := buf ! 21, s_rssi_2 := buf ! 22\<rparr>)"
proof -
  have "nat (cnt - 1) < length buf" "nat (cnt - 2) < length buf"
    using assms(2,3) by auto
  then show ?thesis
    using assms by (simp add: db_record_status_def c_mem not_is_big_endian Let_def min_def)
qed

lemma db_record_csi_payload_eq: "db_record_csi_payload = record_csi_payload"
  by (intro ext) (simp add: db_record_csi_payload_def record_csi_payload_def Let_def)

text \<open>What a report says, given the value that \<open>csi_len\<close> happens to have.\<close>

type_synonym db_event = "(int \<times> int) \<times> int \<times> bytes"

definition report_status :: "u16 \<Rightarrow> db_event \<Rightarrow> csi_struct" where
  "report_status cl e = (case e of (spec, cnt, buf) \<Rightarrow>
     \<lparr>s_tstamp = word_of_int (wall_clock_ms spec), s_channel = pair16 (buf ! 11) (buf ! 10), s_chanBW = buf ! 15,
      s_rate = buf ! 14, s_nr = buf ! 17, s_nc = buf ! 18, s_num_tones = buf ! 16, s_noise = buf ! 13,
      s_phyerr = buf ! 12, s_rssi = buf ! 19, s_rssi_0 = buf ! 20, s_rssi_1 = buf ! 21, s_rssi_2 = buf ! 22,
      s_payload_len = pair16 (buf ! 24) (buf ! 23), s_csi_len = cl,
      s_buf_len = pair16 (buf ! nat (cnt - 1)) (buf ! nat (cnt - 2))\<rparr>)"

definition report_matrix :: "db_event \<Rightarrow> csi_matrix \<Rightarrow> csi_matrix" where
  "report_matrix e m = (case e of (spec, cnt, buf) \<Rightarrow>
     csi_spec (drop 25 buf) (unat (buf ! 17)) (unat (buf ! 18)) (unat (buf ! 16)) m)"

definition wf_db_report :: "u16 \<Rightarrow> db_event \<Rightarrow> bool" where
  "wf_db_report cl e = (case e of (spec, cnt, buf) \<Rightarrow>
     length buf = BUFSIZE \<and>
     (cnt = 0 \<or>
      2 \<le> cnt \<and> cnt \<le> int BUFSIZE \<and>
      (le16_at buf 23 = 0 \<or> 25 + unat cl + le16_at buf 23 \<le> BUFSIZE \<and> le16_at buf 23 \<le> 1500) \<and>
      0 < unat (buf ! 16) \<and> unat (buf ! 16) \<le> 114 \<and> 0 < unat (buf ! 17) \<and> unat (buf ! 17) \<le> 3 \<and>
      unat (buf ! 18) \<le> 3))"

definition db_inv :: "u16 \<Rightarrow> 'c db_recv \<Rightarrow> bool" where
  "db_inv cl s \<longleftrightarrow> db_quit s \<noteq> 1 \<and> length (db_data_buf s) = 1500 \<and> s_csi_len (db_status s) = cl"

lemma report_matrix_ten_bit: "ten_bit (report_matrix e m) (report_status cl e)"
  by (auto simp: ten_bit_def report_matrix_def report_status_def csi_spec_def csi_cell_def
      sample_range split: prod.splits)

lemma matrix_text_cong: "matrix_text (report_status cl e) i (report_matrix e m) =
    matrix_text (report_status cl e) i (report_matrix e m')"
  by (auto simp: matrix_text_def row_order_def row_text_def report_status_def report_matrix_def csi_spec_def
      split: prod.splits intro!: arg_cong [where f = sql_rows] arg_cong [where f = concat])

lemma db_step_front:
  assumes "db_inv cl s" and "wf_db_report cl e" and "fst (snd e) \<noteq> 0"
  shows "\<exists>d. length d = 1500 \<and> db_step bo pq e s = do {
    (_, s') \<leftarrow> save_csi pq (report_status cl e) (report_matrix e (db_matrix s)) (db s);
    Some (Inr (s\<lparr>db_buf_addr := snd (snd e), db_msg_cnt := db_msg_cnt s + 1, db_status := report_status cl e,
      db_data_buf := d, db_matrix := report_matrix e (db_matrix s), db := s'\<rparr>)) }"
proof -
  obtain spec cnt buf where e: "e = (spec, cnt, buf)" by (cases e)
  have st: "db_record_status bo spec buf cnt (db_status s) = Some (report_status cl e)"
    using assms db_record_status_ok [of buf cnt bo spec "db_status s"]
    by (simp add: e wf_db_report_def db_inv_def report_status_def)
  have "unat (pair16 (buf ! 24) (buf ! 23)) = le16_at buf 23"
    by (simp add: unat_pair16 le16_at_def)
  then have "\<exists>d. length d = 1500 \<and>
    record_csi_payload buf (report_status cl e) (db_data_buf s) (db_matrix s) = Some (d, report_matrix e (db_matrix s))"
    using assms record_csi_payload_char [of buf "db_data_buf s" "report_status cl e" "db_matrix s"]
    by (auto simp: e wf_db_report_def db_inv_def report_status_def report_matrix_def Let_def)
  with st assms show ?thesis
    by (auto simp: db_step_def e db_inv_def read_csi_buf_def db_record_csi_payload_eq Let_def)
qed

abbreviation is_report :: "db_event \<Rightarrow> bool" where
  "is_report e \<equiv> fst (snd e) \<noteq> 0"

definition report_statements :: "u16 \<Rightarrow> db_event \<Rightarrow> int \<Rightarrow> string list" where
  "report_statements cl e i = [status_query (report_status cl e), select_query,
     matrix_text (report_status cl e) i (report_matrix e (\<lambda>_. \<lparr>real = 0, imag = 0\<rparr>))]"

lemma db_step_idle:
  assumes "db_inv cl s" and "\<not> is_report e"
  shows "db_step bo pq e s = Some (Inr (s\<lparr>db_buf_addr := snd (snd e)\<rparr>))"
  using assms by (cases e) (simp add: db_step_def db_inv_def read_csi_buf_def)

lemma db_step_saved:
  assumes "db_inv cl s" "wf_db_report cl e" "is_report e" "conn (db s) = Some c"
    and "saves pq (report_status cl e) (report_matrix e (db_matrix s)) c i c'"
  shows "\<exists>s'. db_step bo pq e s = Some (Inr s') \<and> db_inv cl s' \<and> db_msg_cnt s' = db_msg_cnt s + 1 \<and>
    conn (db s') = Some c' \<and> sent (db s') = sent (db s) @ report_statements cl e i"
proof -
  obtain spec cnt buf where e: "e = (spec, cnt, buf)" by (cases e)
  have "save_csi pq (report_status cl e) (report_matrix e (db_matrix s)) (db s) =
      Some (1, (db s)\<lparr>conn := Some c', sent := sent (db s) @ report_statements cl e i\<rparr>)"
    unfolding report_statements_def matrix_text_cong [of cl e i "\<lambda>_. \<lparr>real = 0, imag = 0\<rparr>" "db_matrix s"]
    by (rule save_csi_ok [OF assms(4,5) report_matrix_ten_bit])
       (use assms(2,3) in \<open>simp_all add: e wf_db_report_def report_status_def\<close>)
  with db_step_front [OF assms(1-3), of bo pq] assms(1) show ?thesis
    by (auto simp: db_inv_def report_status_def e)
qed

lemma db_step_unsaved:
  assumes "db_inv cl s" "wf_db_report cl e" "is_report e" "conn (db s) = None"
  shows "\<exists>s'. db_step bo pq e s = Some (Inr s') \<and> db_inv cl s' \<and> db_msg_cnt s' = db_msg_cnt s + 1 \<and> db s' = db s"
  using db_step_front [OF assms(1-3), of bo pq] assms(1,4)
  by (cases e) (auto simp: db_inv_def report_status_def save_csi_disconnected)

text \<open>
  The ids under which the server stores the reports of a sequence: each is the one it returns right after it has stored the status of the report; the connection
  then goes through the insertion of the matrix under this id.
\<close>

definition connection_after :: "'c pq \<Rightarrow> 'c \<Rightarrow> string list \<Rightarrow> 'c" where
  "connection_after pq = foldl (\<lambda>c q. snd (PQexec pq c q))"

fun stored_ids :: "'c pq \<Rightarrow> u16 \<Rightarrow> db_event list \<Rightarrow> 'c \<Rightarrow> int list" where
  "stored_ids pq cl [] c = []"
| "stored_ids pq cl (e # es) c =
    (let i = the (returned_id pq (report_status cl e) c) in i # stored_ids pq cl es (connection_after pq c (report_statements cl e i)))"

lemma length_stored_ids [simp]: "length (stored_ids pq cl es c) = length es"
  by (induction es arbitrary: c) (simp_all add: Let_def)

lemma saves_id:
  assumes "saves pq (report_status cl e) (report_matrix e m) c i c'"
  shows "returned_id pq (report_status cl e) c = Some i" "connection_after pq c (report_statements cl e i) = c'"
  using assms matrix_text_cong [of cl e i m "\<lambda>_. \<lparr>real = 0, imag = 0\<rparr>"]
  by (auto simp: saves_def returned_id_def PQgetvalue00_def connection_after_def report_statements_def)

lemma db_loop_saves_all:
  assumes "db_inv cl s" "\<forall>e \<in> set es. wf_db_report cl e" "conn (db s) = Some c"
    and "\<forall>c st m. \<exists>i c'. saves pq st m c i c'"
  shows "\<exists>s'. db_loop bo pq es s = Some (Inr s') \<and>
    sent (db s') = sent (db s) @ concat (map2 (report_statements cl) (filter is_report es) (stored_ids pq cl (filter is_report es) c)) \<and>
    db_msg_cnt s' = db_msg_cnt s + of_nat (length (filter is_report es)) \<and> conn (db s') \<noteq> None"
  using assms(1-3)
proof (induction es arbitrary: s c)
  case (Cons e es)
  show ?case
  proof (cases "is_report e")
    case False
    let ?s = "s\<lparr>db_buf_addr := snd (snd e)\<rparr>"
    have "db_inv cl ?s" using Cons.prems(1) by (simp add: db_inv_def)
    from Cons.IH [OF this] Cons.prems False db_step_idle [OF Cons.prems(1) False, of bo pq] show ?thesis by simp
  next
    case True
    from assms(4) obtain i c' where i: "saves pq (report_status cl e) (report_matrix e (db_matrix s)) c i c'" by blast
    from db_step_saved [OF Cons.prems(1) _ True Cons.prems(3) i, of bo] Cons.prems(2) obtain s1 where
      s1: "db_step bo pq e s = Some (Inr s1)" "db_inv cl s1" "db_msg_cnt s1 = db_msg_cnt s + 1"
        "conn (db s1) = Some c'" "sent (db s1) = sent (db s) @ report_statements cl e i" by auto
    from Cons.IH [OF s1(2) _ s1(4)] Cons.prems(2) obtain s' where
      s': "db_loop bo pq es s1 = Some (Inr s')"
      "sent (db s') = sent (db s1) @ concat (map2 (report_statements cl) (filter is_report es) (stored_ids pq cl (filter is_report es) c'))"
      "db_msg_cnt s' = db_msg_cnt s1 + of_nat (length (filter is_report es))" "conn (db s') \<noteq> None" by auto
    show ?thesis
      by (rule exI [of _ s']) (use True s1 s' saves_id [OF i] in \<open>simp add: Let_def\<close>)
  qed
qed simp

lemma db_loop_disconnected_char:
  assumes "db_inv cl s" "\<forall>e \<in> set es. wf_db_report cl e" "conn (db s) = None"
  shows "\<exists>s'. db_loop bo pq es s = Some (Inr s') \<and> db s' = db s \<and>
    db_msg_cnt s' = db_msg_cnt s + of_nat (length (filter is_report es))"
  using assms
proof (induction es arbitrary: s)
  case (Cons e es)
  show ?case
  proof (cases "is_report e")
    case False
    let ?s = "s\<lparr>db_buf_addr := snd (snd e)\<rparr>"
    have "db_inv cl ?s" using Cons.prems(1) by (simp add: db_inv_def)
    from Cons.IH [OF this] Cons.prems False db_step_idle [OF Cons.prems(1) False, of bo pq] show ?thesis by simp
  next
    case True
    from db_step_unsaved [OF Cons.prems(1) _ True Cons.prems(3), of bo pq] Cons.prems(2) obtain s1 where
      s1: "db_step bo pq e s = Some (Inr s1)" "db_inv cl s1" "db_msg_cnt s1 = db_msg_cnt s + 1" "db s1 = db s" by auto
    from Cons.IH [OF s1(2)] Cons.prems s1 True show ?thesis by auto
  qed
qed simp

text \<open>
  C21. With a server that executes every statement, the database receiver goes through every sequence of well-formed reads, stays inside its buffers, and sends for each report, in
  the order of arrival, its status, the look-up of the id, and its matrix under the id that the server returned for this very report. (The overlapping \<open>sprintf\<close> calls
  that build the last statement are taken as appending.)
\<close>

theorem db_loop_stores_reports:
  assumes "db_inv cl s" "\<forall>e \<in> set es. wf_db_report cl e" "conn (db s) = Some c"
    and "\<forall>c st m. \<exists>i c'. saves pq st m c i c'"
  shows "\<exists>s'. db_loop bo pq es s = Some (Inr s') \<and>
    sent (db s') = sent (db s) @ concat (map2 (report_statements cl) (filter is_report es) (stored_ids pq cl (filter is_report es) c)) \<and>
    db_msg_cnt s' = db_msg_cnt s + of_nat (length (filter is_report es)) \<and> conn (db s') \<noteq> None"
  by (rule db_loop_saves_all [OF assms])

definition pq_one :: "unit pq" where
  "pq_one = \<lparr>PQconnectdb = (\<lambda>_. Some ()), PQstatus_bad = (\<lambda>c. c = None),
     PQexec = (\<lambda>c q. if q = select_query then (PGRES_TUPLES_OK [[fmt_d 1]], c) else (PGRES_COMMAND_OK, c))\<rparr>"

definition db_example :: "unit option \<Rightarrow> unit db_recv" where
  "db_example c = \<lparr>db_quit = 0, db_buf_addr = replicate 4096 0, db_data_buf = replicate 1500 0,
     db_matrix = (\<lambda>_. \<lparr>real = 0, imag = 0\<rparr>), db_status = st_example, db_msg_cnt = 0,
     db = \<lparr>conn = c, sent = []\<rparr>\<rparr>"

definition event_example :: db_event where
  "event_example = ((0, 0), 100, replicate 16 0 @ [1, 1, 1] @ replicate 4077 0)"

lemma examples_ok:
  "db_inv 0 (db_example c)" "wf_db_report 0 event_example" "is_report event_example"
  "\<forall>c st m. \<exists>i c'. saves pq_one st m c i c'"
proof -
  show "db_inv 0 (db_example c)" by (simp add: db_inv_def db_example_def st_example_def)
  show "wf_db_report 0 event_example"
    by (simp add: wf_db_report_def event_example_def le16_at_def nth_append)
  show "is_report event_example" by (simp add: event_example_def)
  have "atoi (fmt_d 1) = Some 1" using dec_codec.dec_enc [of 1] by (simp add: in_int_def)
  then show "\<forall>c st m. \<exists>i c'. saves pq_one st m c i c'"
    by (auto simp: saves_def pq_one_def select_query_neq intro!: exI [of _ 1])
qed

theorem db_loop_stores_reports_witness:
  "\<exists>s'. db_loop LittleEndian pq_one [event_example, event_example] (db_example (Some ())) = Some (Inr s') \<and>
     sent (db s') = report_statements 0 event_example 1 @ report_statements 0 event_example 1"
proof -
  have c: "conn (db (db_example (Some ()))) = Some ()" "sent (db (db_example (Some ()))) = []"
    by (simp_all add: db_example_def)
  have "atoi (fmt_d 1) = Some 1" using dec_codec.dec_enc [of 1] by (simp add: in_int_def)
  then have "returned_id pq_one (report_status 0 event_example) () = Some 1"
    by (simp add: returned_id_def pq_one_def PQgetvalue00_def)
  with db_loop_stores_reports [OF examples_ok(1) _ c(1) examples_ok(4), of "[event_example, event_example]" LittleEndian] show ?thesis
    using examples_ok(2,3) c(2) by (auto simp: Let_def)
qed

text \<open>
  Once the connection is lost (or was never made), the receiver goes on reading and counting
  reports for ever, sends nothing any more and never reconnects.
\<close>

lemma db_loop_disconnected:
  assumes "db_inv cl s" "\<forall>e \<in> set es. wf_db_report cl e" "conn (db s) = None"
  shows "\<exists>s'. db_loop bo pq es s = Some (Inr s') \<and> db s' = db s \<and>
    db_msg_cnt s' = db_msg_cnt s + of_nat (length (filter is_report es))"
  by (rule db_loop_disconnected_char [OF assms])

text \<open>
  C40. The header decoder of the database receiver never assigns \<open>csi_len\<close>: after any report the
  field has the value it had before, so the payload is copied from an offset that no report
  determines, whereas the file receiver takes the offset from the report.
\<close>

theorem db_record_status_stale_csi_len:
  assumes "25 \<le> length buf" and "2 \<le> cnt" and "cnt \<le> int (length buf)"
  shows "\<exists>st'. db_record_status bo spec buf cnt st = Some st' \<and> s_csi_len st' = s_csi_len st \<and>
    (\<exists>st''. record_status bo ub buf cnt st = Some st'' \<and> s_csi_len st'' = pair16 (buf ! 9) (buf ! 8))"
  using db_record_status_ok [OF assms] record_status_ok [OF assms] by simp

theorem db_record_status_stale_csi_len_witness:
  "\<exists>st' st''. db_record_status LittleEndian (0, 0) (replicate 100 1) 100 st_example = Some st' \<and> s_csi_len st' = 0 \<and>
     record_status LittleEndian (\<lambda>x _. x) (replicate 100 1) 100 st_example = Some st'' \<and> s_csi_len st'' = 257"
proof -
  have "pair16 (1 :: u8) 1 = 257" by (simp add: pair16_def)
  with db_record_status_stale_csi_len [of "replicate 100 1" 100 LittleEndian "(0, 0)" st_example "\<lambda>x _. x"]
  show ?thesis by (simp add: st_example_def)
qed

text \<open>
  A report without tones or receive antennas makes \<open>save_csi_matrix\<close> write one byte past the 27
  bytes it allocates.
\<close>

lemma matrix_query_empty_overflow:
  assumes "unat (s_num_tones st) * unat (s_nr st) = 0"
  shows "matrix_query st i m = None"
  using assms by (auto simp: matrix_query_def c_mem Let_def)

text \<open>The statements that create the tables fit their buffer for every user name of up to 450 characters.\<close>

lemma csi_init_table_defined:
  assumes "length (PG_USER cfg) \<le> 450"
  shows "csi_init_table pq cfg s \<noteq> None"
proof -
  have "length (sequences_query (PG_USER cfg)) < 1200" "length tables_query < 1200"
    using assms by (simp_all add: sequences_query_def sequence_text_def owner_text_def tables_query_def
        table_text_def columns_def quoted_def)
  then show ?thesis
    by (auto simp: csi_init_table_def c_mem exec_def Let_def split: option.splits prod.splits)
qed

end
