(* ===== verification/SendData.thy ===== *)
theory SendData
  imports CStrings
begin

text \<open>
  The traffic generator \<open>sendData/sendData.c\<close>: it parses the command line, builds one Ethernet
  frame and sends it repeatedly. The socket calls are inputs and outputs: \<open>ifr_ifindex\<close> and
  \<open>ifr_hwaddr\<close> are what the two \<open>ioctl\<close>s leave behind (their failures are only printed), and the
  result is the list of the sends, each with the pause before it, the frame and the address. An
  element of \<open>DstAddr\<close> that was never assigned is \<open>None\<close>; using it is undefined behaviour, as is
  a \<open>%x\<close> number that does not fit an \<open>unsigned int\<close>.
\<close>

subsection \<open>sscanf of a MAC address\<close>

definition hex_value :: "char \<Rightarrow> nat option" where
  "hex_value c = (let n = of_char c :: nat in
     if 48 \<le> n \<and> n \<le> 57 then Some (n - 48)
     else if 97 \<le> n \<and> n \<le> 102 then Some (n - 87)
     else if 65 \<le> n \<and> n \<le> 70 then Some (n - 55) else None)"

fun scan_hex :: "nat \<Rightarrow> string \<Rightarrow> nat \<times> string" where
  "scan_hex acc [] = (acc, [])"
| "scan_hex acc (c # cs) = (case hex_value c of
     None \<Rightarrow> (acc, c # cs) | Some d \<Rightarrow> scan_hex (16 * acc + d) cs)"

definition skip_0x :: "string \<Rightarrow> string" where
  "skip_0x s = (case s of
     a # x # cs \<Rightarrow> if a = CHR ''0'' \<and> (x = CHR ''x'' \<or> x = CHR ''X'') then cs else s
   | _ \<Rightarrow> s)"

datatype scanned = NoMatch | Overflow | Match u32 string

definition scan_x :: "string \<Rightarrow> scanned" where
  "scan_x s =
     (let s = dropWhile is_space s;
          neg = (s \<noteq> [] \<and> hd s = CHR ''-'');
          s = (if s \<noteq> [] \<and> (hd s = CHR ''-'' \<or> hd s = CHR ''+'') then tl s else s);
          s = skip_0x s
      in if s = [] \<or> hex_value (hd s) = None then NoMatch
         else let (v, rest) = scan_hex 0 s
              in if 2 ^ 32 \<le> v then Overflow
                 else Match (if neg then - of_nat v else of_nat v) rest)"

text \<open>\<open>sscanf(s, "%x:%x:...", &DstAddr[i], ...)\<close>: conversion stops at the first mismatch.\<close>

fun scan_mac :: "nat \<Rightarrow> string \<Rightarrow> u32 option list option" where
  "scan_mac 0 s = Some []"
| "scan_mac (Suc n) s = (case scan_x s of
     NoMatch \<Rightarrow> Some (replicate (Suc n) None)
   | Overflow \<Rightarrow> None
   | Match v rest \<Rightarrow> map_option ((#) (Some v))
       (if rest \<noteq> [] \<and> hd rest = CHR '':'' then scan_mac n (tl rest) else Some (replicate n None)))"

subsection \<open>Command line\<close>

record send_args =
  ifName :: string
  DstAddr :: "u32 option list"
  Cnt :: int
  seconds :: int

definition IFNAMSIZ :: nat where
  "IFNAMSIZ = 16"

definition default_mac :: "u32 option list" where
  "default_mac = map Some [0x00, 0x03, 0x7F, 0xB0, 0x20, 0x20]"

text \<open>\<open>Inl 0\<close> is \<open>exit(0)\<close> after the usage message.\<close>

definition parse_args :: "string list \<Rightarrow> (int + send_args) option" where
  "parse_args argv =
     (if length argv = 1 then Some (Inl 0)
      else do {
        name \<leftarrow> sprintf IFNAMSIZ (if 1 < length argv then argv ! 1 else ''wlan0'');
        dst \<leftarrow> (if 2 < length argv then scan_mac 6 (argv ! 2) else Some default_mac);
        cnt \<leftarrow> (if 3 < length argv then atoi (argv ! 3) else Some 1);
        secs \<leftarrow> (if 4 < length argv then atoi (argv ! 4) else Some 1);
        Some (Inr \<lparr>ifName = name, DstAddr = dst, Cnt = cnt, seconds = secs\<rparr>) })"

subsection \<open>The frame\<close>

record sockaddr_ll =
  sll_ifindex :: int
  sll_family :: nat
  sll_protocol :: nat
  sll_hatype :: nat
  sll_pkttype :: nat
  sll_halen :: nat
  sll_addr :: bytes

text \<open>The use of all six elements of \<open>DstAddr\<close>, cut to bytes.\<close>

fun dst_bytes :: "u32 option list \<Rightarrow> bytes option" where
  "dst_bytes [] = Some []"
| "dst_bytes (None # _) = None"
| "dst_bytes (Some v # vs) = map_option ((#) (ucast v)) (dst_bytes vs)"

definition build_frame :: "bytes \<Rightarrow> bytes \<Rightarrow> (nat \<times> bytes) option" where
  "build_frame src dst = do {
     let sendbuf = replicate 2048 (0 :: u8);
     sendbuf \<leftarrow> wr_range sendbuf 6 src;
     sendbuf \<leftarrow> wr_range sendbuf 0 dst;
     sendbuf \<leftarrow> wr_range sendbuf 12 [0x08, 0x00];
     (tx_len, sendbuf) \<leftarrow> for_each (\<lambda>i (tx_len, sendbuf). do {
         sendbuf \<leftarrow> wr sendbuf tx_len 0xaa;
         Some (tx_len + 1, sendbuf) }) [1..<1001] (14, sendbuf);
     Some (tx_len, sendbuf) }"

definition build_address :: "int \<Rightarrow> bytes \<Rightarrow> sockaddr_ll" where
  "build_address ifindex dst = \<lparr>sll_ifindex = ifindex, sll_family = 17, sll_protocol = 0x0800,
     sll_hatype = 1, sll_pkttype = 3, sll_halen = 6, sll_addr = dst\<rparr>"

subsection \<open>Sending\<close>

record send =
  pause :: int
  frame :: bytes
  target :: sockaddr_ll

function send_second :: "send \<Rightarrow> int \<Rightarrow> send list \<Rightarrow> int \<times> send list" where
  "send_second x cnt log = (if 0 < cnt then send_second x (cnt - 1) (log @ [x]) else (cnt, log))"
  by pat_completeness auto
termination
  by (relation "measure (\<lambda>(_, cnt, _). nat cnt)") auto

function send_loop :: "send \<Rightarrow> int \<Rightarrow> int \<Rightarrow> send list \<Rightarrow> send list" where
  "send_loop x secs cnt log =
     (if 0 < secs then let (cnt, log) = send_second x cnt log in send_loop x (secs - 1) cnt log
      else log)"
  by pat_completeness auto
termination
  by (relation "measure (\<lambda>(_, secs, _, _). nat secs)") auto

declare send_second.simps [simp del] send_loop.simps [simp del]

text \<open>C's division truncates towards zero.\<close>

definition c_div :: "int \<Rightarrow> int \<Rightarrow> int option" where
  "c_div a b = (if b = 0 then None else Some (sgn a * sgn b * (\<bar>a\<bar> div \<bar>b\<bar>)))"

definition send_main :: "string list \<Rightarrow> int \<Rightarrow> bytes \<Rightarrow> (int \<times> send list) option" where
  "send_main argv ifr_ifindex ifr_hwaddr = do {
     r \<leftarrow> parse_args argv;
     (case r of
        Inl c \<Rightarrow> Some (c, [])
      | Inr a \<Rightarrow> do {
          src \<leftarrow> rd_range ifr_hwaddr 0 6;
          dst \<leftarrow> dst_bytes (DstAddr a);
          (tx_len, sendbuf) \<leftarrow> build_frame src dst;
          let socket_address = build_address ifr_ifindex dst;
          wait_time \<leftarrow> c_div 1000000 (Cnt a);
          sendbuf \<leftarrow> rd_range sendbuf 0 tx_len;
          Some (0, send_loop \<lparr>pause = wait_time, frame = sendbuf, target = socket_address\<rparr>
                  (seconds a) (Cnt a) []) }) }"

subsection \<open>Lemmas\<close>

lemma send_second_eq: "send_second x cnt log = (min cnt 0, log @ replicate (nat cnt) x)"
proof (induction x cnt log rule: send_second.induct)
  case (1 x cnt log)
  show ?case
  proof (cases "0 < cnt")
    case True
    then have "nat cnt = Suc (nat (cnt - 1))" by simp
    with True 1 show ?thesis by (simp add: send_second.simps [of x cnt log] min_def)
  qed (simp add: send_second.simps [of x cnt log] min_def)
qed

lemma send_loop_done: "cnt \<le> 0 \<Longrightarrow> send_loop x secs cnt log = log"
  by (induction x secs cnt log rule: send_loop.induct)
     (simp add: send_loop.simps send_second_eq min_def)

lemma send_loop_eq: "send_loop x secs cnt log = (if 0 < secs then log @ replicate (nat cnt) x else log)"
  by (simp add: send_loop.simps [of x secs cnt log] send_second_eq send_loop_done)

lemma fill_payload:
  assumes "14 + n \<le> length buf"
  shows "for_each (\<lambda>i (tx_len, sendbuf). do {
         sendbuf \<leftarrow> wr sendbuf tx_len (v :: u8);
         Some (tx_len + 1, sendbuf) }) [1..<Suc n] (14, buf) =
    Some (14 + n, take 14 buf @ replicate n v @ drop (14 + n) buf)"
  using assms
proof (induction n)
  case (Suc n)
  let ?b = "take 14 buf @ replicate n v @ drop (14 + n) buf"
  have "length ?b = length buf" using Suc.prems by simp
  moreover have "?b[14 + n := v] = take 14 buf @ replicate (Suc n) v @ drop (14 + Suc n) buf"
    using Suc.prems
    by (simp add: list_update_append replicate_append_same flip: Cons_nth_drop_Suc)
  ultimately show ?case
    using Suc by (simp add: loop_simps c_mem)
qed simp

lemma build_frame_eq:
  assumes "length src = 6" and "length dst = 6"
  shows "\<exists>buf. build_frame src dst = Some (1014, buf) \<and> 1014 \<le> length buf \<and>
    take 1014 buf = dst @ src @ [0x08, 0x00] @ replicate 1000 0xaa"
proof -
  let ?b = "dst @ src @ [0x08, 0x00] @ replicate 2034 (0 :: u8)"
  have "wr_range (replicate 2048 0) 6 src = Some (replicate 6 0 @ src @ replicate 2036 0)"
    using assms by (simp add: c_mem)
  moreover have "wr_range (replicate 6 0 @ src @ replicate 2036 0) 0 dst = Some (dst @ src @ replicate 2036 0)"
    using assms by (simp add: c_mem)
  moreover have "wr_range (dst @ src @ replicate 2036 0) 12 [0x08, 0x00] = Some ?b"
    using assms by (simp add: c_mem)
  moreover have "for_each (\<lambda>i (tx_len, sendbuf). do {
         sendbuf \<leftarrow> wr sendbuf tx_len 0xaa;
         Some (tx_len + 1, sendbuf) }) [1..<1001] (14, ?b) =
      Some (1014, take 14 ?b @ replicate 1000 0xaa @ drop 1014 ?b)"
    using fill_payload [of 1000 ?b "0xaa"] assms by simp
  ultimately show ?thesis
    using assms by (simp add: build_frame_def)
qed

subsection \<open>MAC addresses\<close>

definition hexdig :: "nat \<Rightarrow> char" where
  "hexdig d = (if d < 10 then char_of (48 + d) else char_of (87 + d))"

definition fmt_octet :: "u8 \<Rightarrow> string" where
  "fmt_octet b = [hexdig (unat b div 16), hexdig (unat b mod 16)]"

fun fmt_mac :: "bytes \<Rightarrow> string" where
  "fmt_mac [] = []"
| "fmt_mac [b] = fmt_octet b"
| "fmt_mac (b # bs) = fmt_octet b @ CHR '':'' # fmt_mac bs"

lemma hex_value_hexdig: "d < 16 \<Longrightarrow> hex_value (hexdig d) = Some d"
  by (auto simp: hex_value_def hexdig_def of_char_of Let_def)

lemma hexdig_neq:
  assumes "d < 16"
  shows "\<not> is_space (hexdig d)" "hexdig d \<noteq> CHR ''-''" "hexdig d \<noteq> CHR ''+''"
    "hexdig d \<noteq> CHR ''x''" "hexdig d \<noteq> CHR ''X''"
  using hex_value_hexdig [OF assms] by (auto simp: is_space_def hex_value_def Let_def split: if_splits)

lemma scan_x_octet:
  assumes "rest = [] \<or> hex_value (hd rest) = None"
  shows "scan_x (fmt_octet b @ rest) = Match (ucast b) rest"
proof -
  have d: "unat b div 16 < 16" "unat b mod 16 < 16"
    using unat_u8_less [of b] by (simp_all add: less_mult_imp_div_less)
  have "scan_hex acc rest = (acc, rest)" for acc using assms by (cases rest) auto
  then have "scan_hex 0 (fmt_octet b @ rest) = (unat b, rest)"
    using d by (simp add: fmt_octet_def hex_value_hexdig)
  moreover have "(of_nat (unat b) :: u32) = ucast b"
  proof (rule unsigned_word_eqI)
    have "unat b < 2 ^ 32" by (rule order.strict_trans [OF unat_u8_less]) simp
    then show "unat (of_nat (unat b) :: u32) = unat (ucast b :: u32)"
      unfolding unsigned_of_nat by (simp add: unat_ucast_up take_bit_nat_eq_self)
  qed
  moreover have "unat b < 2 ^ 32" by (rule order.strict_trans [OF unat_u8_less]) simp
  ultimately show ?thesis
    using d by (simp add: scan_x_def fmt_octet_def hexdig_neq skip_0x_def hex_value_hexdig Let_def)
qed

lemma scan_mac_fmt: "bs \<noteq> [] \<Longrightarrow> scan_mac (length bs) (fmt_mac bs) = Some (map (Some \<circ> ucast) bs)"
proof (induction bs rule: fmt_mac.induct)
  case (2 b)
  then show ?case using scan_x_octet [of "[]" b] by simp
next
  case (3 b c bs)
  have "hex_value CHR '':'' = None" by (simp add: hex_value_def Let_def)
  with scan_x_octet [of "CHR '':'' # fmt_mac (c # bs)" b] 3 show ?case by simp
qed simp

lemma dst_bytes_map: "dst_bytes (map (Some \<circ> ucast) bs) = Some bs"
proof -
  have "(ucast (ucast b :: u32) :: u8) = b" for b :: u8
  proof (rule unsigned_word_eqI)
    have "unat (ucast (ucast b :: u32) :: u8) = take_bit 8 (unat (ucast b :: u32))"
      by (subst unsigned_ucast_eq) simp
    also have "\<dots> = take_bit 8 (unat b)" by (simp add: unat_ucast_up)
    also have "\<dots> = unat b" by (simp add: take_bit_nat_eq_self)
    finally show "unat (ucast (ucast b :: u32) :: u8) = unat b" .
  qed
  then show ?thesis by (induction bs) simp_all
qed

interpretation mac_codec: codec "\<lambda>bs. length bs = 6" fmt_mac
  "\<lambda>s. Option.bind (scan_mac 6 s) dst_bytes"
proof
  fix bs :: bytes assume "length bs = 6"
  moreover from this have "bs \<noteq> []" by auto
  ultimately show "Option.bind (scan_mac 6 (fmt_mac bs)) dst_bytes = Some bs"
    using scan_mac_fmt [of bs] by (simp add: dst_bytes_map)
qed

definition data_frame :: "bytes \<Rightarrow> bytes \<Rightarrow> bytes" where
  "data_frame dst src = dst @ src @ [0x08, 0x00] @ replicate 1000 0xaa"

lemma send_main_cases:
  assumes "length nm < 16" "length dst = 6" "in_int n" "in_int secs" "6 \<le> length hw"
  shows "send_main [prog, nm, fmt_mac dst, fmt_d n, fmt_d secs] ifindex hw =
    (if n = 0 then None
     else Some (0, if 0 < secs then replicate (nat n) \<lparr>pause = sgn n * (1000000 div \<bar>n\<bar>),
       frame = data_frame dst (take 6 hw), target = build_address ifindex dst\<rparr> else []))"
proof -
  from build_frame_eq [of "take 6 hw" dst] assms(2,5) obtain buf where
    f: "build_frame (take 6 hw) dst = Some (1014, buf)" "1014 \<le> length buf"
      "take 1014 buf = data_frame dst (take 6 hw)" by (auto simp: data_frame_def)
  have m: "scan_mac 6 (fmt_mac dst) = Some (map (Some \<circ> ucast) dst)"
    using scan_mac_fmt [of dst] assms(2) by fastforce
  have p: "parse_args [prog, nm, fmt_mac dst, fmt_d n, fmt_d secs] =
    Some (Inr \<lparr>ifName = nm, DstAddr = map (Some \<circ> ucast) dst, Cnt = n, seconds = secs\<rparr>)"
    using assms m by (simp add: parse_args_def IFNAMSIZ_def c_mem dec_codec.dec_enc)
  show ?thesis
    using f assms(5) by (simp add: send_main_def p c_mem dst_bytes_map c_div_def send_loop_eq Let_def)
qed

text \<open>
  C30. Called with an interface, a destination, a positive number of packets and a number of seconds,
  \<open>sendData\<close> sends exactly that number of frames if the number of seconds is positive, none
  otherwise, however many seconds are asked for; every frame is destination, the interface's
  address, the type of IP and a thousand bytes \<open>0xaa\<close>, and the pause is a second divided by the
  number of packets.
\<close>

theorem send_main_frames:
  assumes "length nm < 16" "length dst = 6" "in_int n" "0 < n" "in_int secs" "6 \<le> length hw"
  shows "send_main [prog, nm, fmt_mac dst, fmt_d n, fmt_d secs] ifindex hw =
    Some (0, replicate (if 0 < secs then nat n else 0) \<lparr>pause = 1000000 div n,
       frame = data_frame dst (take 6 hw), target = build_address ifindex dst\<rparr>)"
  using send_main_cases [of nm dst n secs hw prog ifindex] assms by simp

theorem send_main_frames_witness:
  "send_main [''send'', ''wlan0'', fmt_mac [1, 2, 3, 4, 5, 6], fmt_d 2, fmt_d 10] 3 (replicate 6 9) =
     Some (0, replicate 2 \<lparr>pause = 500000, frame = data_frame [1, 2, 3, 4, 5, 6] (replicate 6 9),
       target = build_address 3 [1, 2, 3, 4, 5, 6]\<rparr>) \<and>
   fmt_mac [1, 0x2b] = ''01:2b''"
  using send_main_frames [of "''wlan0''" "[1, 2, 3, 4, 5, 6]" 2 10 "replicate 6 9" "''send''" 3]
  by (simp add: in_int_def fmt_octet_def hexdig_def char_of_def bit_0)

text \<open>
  A packet count of zero divides by zero, and the example of the usage message, whose
  destination has five octets, uses an element of \<open>DstAddr\<close> that was never assigned.
\<close>

lemma send_main_undefined:
  assumes "length nm < 16" "length dst = 6" "in_int secs" "6 \<le> length hw"
  shows "send_main [prog, nm, fmt_mac dst, fmt_d 0, fmt_d secs] ifindex hw = None \<and>
    send_main [prog, ''wlan0'', ''00:7F:5D:3E:4A'', ''100'', ''10''] ifindex hw = None"
proof -
  have six: "(6 :: nat) = Suc (Suc (Suc (Suc (Suc (Suc 0)))))" by simp
  have "scan_mac 6 ''00:7F:5D:3E:4A'' = Some (map Some [0, 0x7F, 0x5D, 0x3E, 0x4A] @ [None])"
    unfolding six by (simp add: scan_x_def is_space_def skip_0x_def hex_value_def)
  moreover have "atoi ''100'' \<noteq> None" "atoi ''10'' \<noteq> None"
    by (simp_all add: atoi_def scan_int_def is_space_def digit_value_def in_int_def)
  ultimately have "send_main [prog, ''wlan0'', ''00:7F:5D:3E:4A'', ''100'', ''10''] ifindex hw = None"
    using assms(4) by (auto simp: send_main_def parse_args_def IFNAMSIZ_def c_mem)
  then show ?thesis
    using send_main_cases [of nm dst 0 secs hw prog ifindex] assms by (simp add: in_int_def)
qed

end
