(* ===== verification/EapolSm.thy ===== *)
theory EapolSm
  imports CStrings
begin

text \<open>
  The IEEE 802.1X authenticator of hostapd (\<open>src/eapol_auth/eapol_auth_sm.c\<close>): six state machines
  over one structure, run together until none of them changes its state. \<open>SM_STATE(M, S)\<close> is the
  definition \<open>sm_M_S_Enter\<close>, \<open>SM_STEP(M)\<close> is \<open>sm_M_Step\<close>. The statistics counters of the structure are
  one table indexed by their names. The callbacks of the authenticator are outputs, in the order in
  which they are made; the only ones whose results are used, \<open>sta_entry_alive\<close> and the step of the
  EAP server (\<open>eap_server_sm_step\<close>), are parameters, the former a function of the outputs so far, the
  latter of the EAP server's own state. Registering a timeout is an output. Log messages are left out,
  and so are the members of the structure that this file only stores or never touches (identities, RADIUS data,
  WEP keys, accounting identifiers, the counters of received frames).
\<close>

subsection \<open>Data\<close>

text \<open>\<open>os_zalloc\<close> leaves values in two of the enumerations that none of their constants has.\<close>

datatype PortTypes = PortTypes_0 | ForceUnauthorized | Auto | ForceAuthorized

datatype PortState = PortState_0 | Authorized | Unauthorized

datatype ControlledDirection = Both | In

datatype auth_pae = AUTH_PAE_INITIALIZE | AUTH_PAE_DISCONNECTED | AUTH_PAE_CONNECTING
  | AUTH_PAE_AUTHENTICATING | AUTH_PAE_AUTHENTICATED | AUTH_PAE_ABORTING | AUTH_PAE_HELD
  | AUTH_PAE_FORCE_AUTH | AUTH_PAE_FORCE_UNAUTH | AUTH_PAE_RESTART

datatype be_auth = BE_AUTH_REQUEST | BE_AUTH_RESPONSE | BE_AUTH_SUCCESS | BE_AUTH_FAIL
  | BE_AUTH_TIMEOUT | BE_AUTH_IDLE | BE_AUTH_INITIALIZE | BE_AUTH_IGNORE

datatype reauth_timer = REAUTH_TIMER_INITIALIZE | REAUTH_TIMER_REAUTHENTICATE

datatype auth_key_tx = AUTH_KEY_TX_NO_KEY_TRANSMIT | AUTH_KEY_TX_KEY_TRANSMIT

datatype key_rx = KEY_RX_NO_KEY_RECEIVE | KEY_RX_KEY_RECEIVE

datatype ctrl_dir = CTRL_DIR_FORCE_BOTH | CTRL_DIR_IN_OR_BOTH

datatype counter = authEntersConnecting | authEapLogoffsWhileConnecting | authEntersAuthenticating
  | authAuthSuccessesWhileAuthenticating | authAuthTimeoutsWhileAuthenticating
  | authAuthFailWhileAuthenticating | authAuthEapStartsWhileAuthenticating
  | authAuthEapLogoffWhileAuthenticating | authAuthReauthsWhileAuthenticated
  | authAuthEapStartsWhileAuthenticated | authAuthEapLogoffWhileAuthenticated
  | backendResponses | backendAccessChallenges | backendOtherRequestsToSupplicant
  | backendAuthSuccesses | backendAuthFails
  | dot1xAuthEapolFramesTx | dot1xAuthEapolReqIdFramesTx | dot1xAuthEapolReqFramesTx

datatype eapol_event = EAPOL_AUTH_SM_CHANGE | EAPOL_AUTH_REAUTHENTICATE

text \<open>
  The callbacks of the authenticator, as outputs. \<open>AbortAuth\<close> stands for \<open>ieee802_1x_abort_auth\<close>, which after an EAP timeout also clears \<open>portEnabled\<close>. The call is
  recorded only; the write is one of those that the rest of the access point makes to the structure, after the pass in which the callback is called.
\<close>

datatype eapol_out = SetPortAuthorized bool | Finished bool bool int | EapolSend bytes | AbortAuth
  | TxKey | EapolEvent eapol_event | AaaSend bytes | StepTimeout | TickTimeout | CancelTick

record eap_eapol_interface =
  eapResp :: bool
  portEnabled :: bool
  retransWhile :: int
  eapRestart :: bool
  eapReq :: bool
  eapNoReq :: bool
  eapSuccess :: bool
  eapFail :: bool
  eapTimeout :: bool
  eapReqData :: "bytes option"
  eapKeyAvailable :: bool
  aaaEapResp :: bool
  aaaEapRespData :: "bytes option"

record 'e eapol_sm =
  aWhile :: int
  quietWhile :: int
  reAuthWhen :: int
  authAbort :: bool
  authFail :: bool
  authPortStatus :: PortState
  authStart :: bool
  authTimeout :: bool
  authSuccess :: bool
  eapolEap :: bool
  initialize :: bool
  keyDone :: bool
  keyRun :: bool
  keyTxEnabled :: bool
  portControl :: PortTypes
  portValid :: bool
  reAuthenticate :: bool
  auth_pae_state :: auth_pae
  eapolLogoff :: bool
  eapolStart :: bool
  portMode :: PortTypes
  reAuthCount :: u32
  quietPeriod :: u32
  reAuthMax :: u32
  be_auth_state :: be_auth
  serverTimeout :: u32
  reauth_timer_state :: reauth_timer
  reAuthPeriod :: u32
  reAuthEnabled :: bool
  auth_key_tx_state :: auth_key_tx
  key_rx_state :: key_rx
  rxKey :: bool
  ctrl_dir_state :: ctrl_dir
  adminControlledDirections :: ControlledDirection
  operControlledDirections :: ControlledDirection
  operEdge :: bool
  flags :: u32
  eap_if :: eap_eapol_interface
  last_eap_id :: u8
  eap :: "'e option"
  initializing :: bool
  changed :: bool
  remediation :: int
  counters :: "counter \<Rightarrow> u32"
  outs :: "eapol_out list"

record 'e eapol_env =
  sta_entry_alive :: "eapol_out list \<Rightarrow> bool"
  eap_server_sm_step :: "'e \<Rightarrow> eap_eapol_interface \<Rightarrow> bool \<times> 'e \<times> eap_eapol_interface"

abbreviation EAPOL_SM_PREAUTH :: "u32 \<Rightarrow> bool" where
  "EAPOL_SM_PREAUTH fl \<equiv> bit fl 0"

abbreviation EAPOL_SM_WAIT_START :: "u32 \<Rightarrow> bool" where
  "EAPOL_SM_WAIT_START fl \<equiv> bit fl 1"

abbreviation EAPOL_SM_USES_WPA :: "u32 \<Rightarrow> bool" where
  "EAPOL_SM_USES_WPA fl \<equiv> bit fl 2"

definition bump :: "counter \<Rightarrow> 'e eapol_sm \<Rightarrow> 'e eapol_sm" where
  "bump c sm = sm\<lparr>counters := (counters sm)(c := counters sm c + 1)\<rparr>"

definition bump_if :: "bool \<Rightarrow> counter \<Rightarrow> 'e eapol_sm \<Rightarrow> 'e eapol_sm" where
  "bump_if b c sm = (if b then bump c sm else sm)"

definition emit :: "eapol_out \<Rightarrow> 'e eapol_sm \<Rightarrow> 'e eapol_sm" where
  "emit x sm = sm\<lparr>outs := outs sm @ [x]\<rparr>"

definition upd_eap_if ::
    "(eap_eapol_interface \<Rightarrow> eap_eapol_interface) \<Rightarrow> 'e eapol_sm \<Rightarrow> 'e eapol_sm" where
  "upd_eap_if f sm = sm\<lparr>eap_if := f (eap_if sm)\<rparr>"

subsection \<open>Procedures\<close>

definition eap_get_id :: "bytes \<Rightarrow> u8" where
  "eap_get_id msg = (if length msg < 4 then 0 else msg ! 1)"

definition eap_get_type :: "bytes \<Rightarrow> u8" where
  "eap_get_type msg = (if length msg < 4 + 1 then 0 else msg ! 4)"

definition eapol_auth_tx_canned_eap :: "bool \<Rightarrow> 'e eapol_sm \<Rightarrow> 'e eapol_sm" where
  "eapol_auth_tx_canned_eap success sm =
     (let sm = sm\<lparr>last_eap_id := last_eap_id sm + 1\<rparr>;
          eap = [if success then 3 else 4, last_eap_id sm, 0, 4]
      in bump dot1xAuthEapolFramesTx (emit (EapolSend eap) sm))"

definition eapol_auth_tx_req :: "'e eapol_sm \<Rightarrow> 'e eapol_sm" where
  "eapol_auth_tx_req sm = (case eapReqData (eap_if sm) of
     None \<Rightarrow> sm
   | Some req \<Rightarrow>
       if length req < 4 then sm
       else if EAPOL_SM_WAIT_START (flags sm) then sm
       else let sm = sm\<lparr>last_eap_id := eap_get_id req\<rparr>;
                sm = bump dot1xAuthEapolFramesTx (emit (EapolSend req) sm)
            in if eap_get_type req = 1 then bump dot1xAuthEapolReqIdFramesTx sm
               else bump dot1xAuthEapolReqFramesTx sm)"

definition finished_cb :: "bool \<Rightarrow> 'e eapol_sm \<Rightarrow> 'e eapol_sm" where
  "finished_cb success sm = emit (Finished success (EAPOL_SM_PREAUTH (flags sm)) (remediation sm)) sm"

text \<open>\<open>SM_ENTRY_MA\<close>: note a change of state (a global transition only if it is one) and make it.\<close>

definition pae_entry :: "bool \<Rightarrow> auth_pae \<Rightarrow> 'e eapol_sm \<Rightarrow> 'e eapol_sm" where
  "pae_entry glob st sm =
     (if \<not> glob \<or> auth_pae_state sm \<noteq> st then sm\<lparr>changed := True\<rparr> else sm)\<lparr>auth_pae_state := st\<rparr>"

definition be_entry :: "bool \<Rightarrow> be_auth \<Rightarrow> 'e eapol_sm \<Rightarrow> 'e eapol_sm" where
  "be_entry glob st sm =
     (if \<not> glob \<or> be_auth_state sm \<noteq> st then sm\<lparr>changed := True\<rparr> else sm)\<lparr>be_auth_state := st\<rparr>"

definition reauth_entry :: "bool \<Rightarrow> reauth_timer \<Rightarrow> 'e eapol_sm \<Rightarrow> 'e eapol_sm" where
  "reauth_entry glob st sm =
     (if \<not> glob \<or> reauth_timer_state sm \<noteq> st then sm\<lparr>changed := True\<rparr> else sm)\<lparr>reauth_timer_state := st\<rparr>"

definition key_tx_entry :: "bool \<Rightarrow> auth_key_tx \<Rightarrow> 'e eapol_sm \<Rightarrow> 'e eapol_sm" where
  "key_tx_entry glob st sm =
     (if \<not> glob \<or> auth_key_tx_state sm \<noteq> st then sm\<lparr>changed := True\<rparr> else sm)\<lparr>auth_key_tx_state := st\<rparr>"

definition key_rx_entry :: "bool \<Rightarrow> key_rx \<Rightarrow> 'e eapol_sm \<Rightarrow> 'e eapol_sm" where
  "key_rx_entry glob st sm =
     (if \<not> glob \<or> key_rx_state sm \<noteq> st then sm\<lparr>changed := True\<rparr> else sm)\<lparr>key_rx_state := st\<rparr>"

definition ctrl_dir_entry :: "bool \<Rightarrow> ctrl_dir \<Rightarrow> 'e eapol_sm \<Rightarrow> 'e eapol_sm" where
  "ctrl_dir_entry glob st sm =
     (if \<not> glob \<or> ctrl_dir_state sm \<noteq> st then sm\<lparr>changed := True\<rparr> else sm)\<lparr>ctrl_dir_state := st\<rparr>"

subsection \<open>Authenticator PAE state machine\<close>

definition sm_AUTH_PAE_INITIALIZE_Enter :: "bool \<Rightarrow> 'e eapol_sm \<Rightarrow> 'e eapol_sm" where
  "sm_AUTH_PAE_INITIALIZE_Enter glob sm =
     (pae_entry glob AUTH_PAE_INITIALIZE sm)\<lparr>portMode := Auto, keyRun := False\<rparr>"

definition sm_AUTH_PAE_DISCONNECTED_Enter :: "bool \<Rightarrow> 'e eapol_sm \<Rightarrow> 'e eapol_sm" where
  "sm_AUTH_PAE_DISCONNECTED_Enter glob sm =
     (let from_initialize = (auth_pae_state sm = AUTH_PAE_INITIALIZE);
          sm = (if eapolLogoff sm
                then if auth_pae_state sm = AUTH_PAE_CONNECTING then bump authEapLogoffsWhileConnecting sm
                     else bump_if (auth_pae_state sm = AUTH_PAE_AUTHENTICATED) authAuthEapLogoffWhileAuthenticated sm
                else sm);
          sm = pae_entry glob AUTH_PAE_DISCONNECTED sm;
          sm = emit (SetPortAuthorized False) (sm\<lparr>authPortStatus := Unauthorized\<rparr>);
          sm = sm\<lparr>reAuthCount := 0, eapolLogoff := False\<rparr>
      in if \<not> from_initialize then finished_cb False sm else sm)"

definition sm_AUTH_PAE_RESTART_Enter :: "bool \<Rightarrow> 'e eapol_sm \<Rightarrow> 'e eapol_sm" where
  "sm_AUTH_PAE_RESTART_Enter glob sm =
     (let sm = (if auth_pae_state sm = AUTH_PAE_AUTHENTICATED
                then bump_if (eapolLogoff sm) authAuthEapLogoffWhileAuthenticated
                       (bump_if (eapolStart sm) authAuthEapStartsWhileAuthenticated
                          (bump_if (reAuthenticate sm) authAuthReauthsWhileAuthenticated sm))
                else sm)
      in upd_eap_if (\<lambda>i. i\<lparr>eapRestart := True\<rparr>) (pae_entry glob AUTH_PAE_RESTART sm))"

definition sm_AUTH_PAE_CONNECTING_Enter :: "bool \<Rightarrow> 'e eapol_sm \<Rightarrow> 'e eapol_sm" where
  "sm_AUTH_PAE_CONNECTING_Enter glob sm =
     (let sm = bump_if (auth_pae_state sm \<noteq> AUTH_PAE_CONNECTING) authEntersConnecting sm;
          sm = pae_entry glob AUTH_PAE_CONNECTING sm
      in sm\<lparr>reAuthenticate := False, reAuthCount := reAuthCount sm + 1\<rparr>)"

definition sm_AUTH_PAE_HELD_Enter :: "bool \<Rightarrow> 'e eapol_sm \<Rightarrow> 'e eapol_sm" where
  "sm_AUTH_PAE_HELD_Enter glob sm =
     (let sm = bump_if (auth_pae_state sm = AUTH_PAE_AUTHENTICATING \<and> authFail sm)
                 authAuthFailWhileAuthenticating sm;
          sm = pae_entry glob AUTH_PAE_HELD sm;
          sm = emit (SetPortAuthorized False) (sm\<lparr>authPortStatus := Unauthorized\<rparr>);
          sm = sm\<lparr>quietWhile := sint (quietPeriod sm), eapolLogoff := False\<rparr>
      in finished_cb False sm)"

definition sm_AUTH_PAE_AUTHENTICATED_Enter :: "bool \<Rightarrow> 'e eapol_sm \<Rightarrow> 'e eapol_sm" where
  "sm_AUTH_PAE_AUTHENTICATED_Enter glob sm =
     (let sm = bump_if (auth_pae_state sm = AUTH_PAE_AUTHENTICATING \<and> authSuccess sm)
                 authAuthSuccessesWhileAuthenticating sm;
          sm = pae_entry glob AUTH_PAE_AUTHENTICATED sm;
          sm = emit (SetPortAuthorized True) (sm\<lparr>authPortStatus := Authorized\<rparr>);
          sm = sm\<lparr>reAuthCount := 0\<rparr>
      in finished_cb True sm)"

definition sm_AUTH_PAE_AUTHENTICATING_Enter :: "bool \<Rightarrow> 'e eapol_sm \<Rightarrow> 'e eapol_sm" where
  "sm_AUTH_PAE_AUTHENTICATING_Enter glob sm =
     (pae_entry glob AUTH_PAE_AUTHENTICATING sm)\<lparr>eapolStart := False, authSuccess := False,
        authFail := False, authTimeout := False, authStart := True, keyRun := False, keyDone := False\<rparr>"

definition sm_AUTH_PAE_ABORTING_Enter :: "bool \<Rightarrow> 'e eapol_sm \<Rightarrow> 'e eapol_sm" where
  "sm_AUTH_PAE_ABORTING_Enter glob sm =
     (let sm = (if auth_pae_state sm = AUTH_PAE_AUTHENTICATING
                then bump_if (eapolLogoff sm) authAuthEapLogoffWhileAuthenticating
                       (bump_if (eapolStart sm) authAuthEapStartsWhileAuthenticating
                          (bump_if (authTimeout sm) authAuthTimeoutsWhileAuthenticating sm))
                else sm)
      in (pae_entry glob AUTH_PAE_ABORTING sm)\<lparr>authAbort := True, keyRun := False, keyDone := False\<rparr>)"

definition sm_AUTH_PAE_FORCE_AUTH_Enter :: "bool \<Rightarrow> 'e eapol_sm \<Rightarrow> 'e eapol_sm" where
  "sm_AUTH_PAE_FORCE_AUTH_Enter glob sm =
     (let sm = pae_entry glob AUTH_PAE_FORCE_AUTH sm;
          sm = emit (SetPortAuthorized True) (sm\<lparr>authPortStatus := Authorized\<rparr>)
      in eapol_auth_tx_canned_eap True (sm\<lparr>portMode := ForceAuthorized, eapolStart := False\<rparr>))"

definition sm_AUTH_PAE_FORCE_UNAUTH_Enter :: "bool \<Rightarrow> 'e eapol_sm \<Rightarrow> 'e eapol_sm" where
  "sm_AUTH_PAE_FORCE_UNAUTH_Enter glob sm =
     (let sm = pae_entry glob AUTH_PAE_FORCE_UNAUTH sm;
          sm = emit (SetPortAuthorized False) (sm\<lparr>authPortStatus := Unauthorized\<rparr>)
      in eapol_auth_tx_canned_eap False (sm\<lparr>portMode := ForceUnauthorized, eapolStart := False\<rparr>))"

definition sm_AUTH_PAE_Step :: "'e eapol_sm \<Rightarrow> 'e eapol_sm" where
  "sm_AUTH_PAE_Step sm =
     (if (portControl sm = Auto \<and> portMode sm \<noteq> portControl sm) \<or> initialize sm \<or> \<not> portEnabled (eap_if sm)
      then sm_AUTH_PAE_INITIALIZE_Enter True sm
      else if portControl sm = ForceAuthorized \<and> portMode sm \<noteq> portControl sm \<and>
              \<not> (initialize sm \<or> \<not> portEnabled (eap_if sm))
      then sm_AUTH_PAE_FORCE_AUTH_Enter True sm
      else if portControl sm = ForceUnauthorized \<and> portMode sm \<noteq> portControl sm \<and>
              \<not> (initialize sm \<or> \<not> portEnabled (eap_if sm))
      then sm_AUTH_PAE_FORCE_UNAUTH_Enter True sm
      else (case auth_pae_state sm of
        AUTH_PAE_INITIALIZE \<Rightarrow> sm_AUTH_PAE_DISCONNECTED_Enter False sm
      | AUTH_PAE_DISCONNECTED \<Rightarrow> sm_AUTH_PAE_RESTART_Enter False sm
      | AUTH_PAE_RESTART \<Rightarrow>
          if \<not> eapRestart (eap_if sm) then sm_AUTH_PAE_CONNECTING_Enter False sm else sm
      | AUTH_PAE_HELD \<Rightarrow>
          if quietWhile sm = 0 then sm_AUTH_PAE_RESTART_Enter False sm else sm
      | AUTH_PAE_CONNECTING \<Rightarrow>
          if eapolLogoff sm \<or> reAuthMax sm < reAuthCount sm then sm_AUTH_PAE_DISCONNECTED_Enter False sm
          else if (eapReq (eap_if sm) \<and> reAuthCount sm \<le> reAuthMax sm) \<or>
                  eapSuccess (eap_if sm) \<or> eapFail (eap_if sm)
          then sm_AUTH_PAE_AUTHENTICATING_Enter False sm else sm
      | AUTH_PAE_AUTHENTICATED \<Rightarrow>
          if eapolStart sm \<or> reAuthenticate sm then sm_AUTH_PAE_RESTART_Enter False sm
          else if eapolLogoff sm \<or> \<not> portValid sm then sm_AUTH_PAE_DISCONNECTED_Enter False sm else sm
      | AUTH_PAE_AUTHENTICATING \<Rightarrow>
          if authSuccess sm \<and> portValid sm then sm_AUTH_PAE_AUTHENTICATED_Enter False sm
          else if authFail sm \<or> (keyDone sm \<and> \<not> portValid sm) then sm_AUTH_PAE_HELD_Enter False sm
          else if eapolStart sm \<or> eapolLogoff sm \<or> authTimeout sm then sm_AUTH_PAE_ABORTING_Enter False sm
          else sm
      | AUTH_PAE_ABORTING \<Rightarrow>
          if eapolLogoff sm \<and> \<not> authAbort sm then sm_AUTH_PAE_DISCONNECTED_Enter False sm
          else if \<not> eapolLogoff sm \<and> \<not> authAbort sm then sm_AUTH_PAE_RESTART_Enter False sm else sm
      | AUTH_PAE_FORCE_AUTH \<Rightarrow>
          if eapolStart sm then sm_AUTH_PAE_FORCE_AUTH_Enter False sm else sm
      | AUTH_PAE_FORCE_UNAUTH \<Rightarrow>
          if eapolStart sm then sm_AUTH_PAE_FORCE_UNAUTH_Enter False sm else sm))"

subsection \<open>Backend authentication state machine\<close>

definition sm_BE_AUTH_INITIALIZE_Enter :: "bool \<Rightarrow> 'e eapol_sm \<Rightarrow> 'e eapol_sm" where
  "sm_BE_AUTH_INITIALIZE_Enter glob sm =
     (upd_eap_if (\<lambda>i. i\<lparr>eapNoReq := False\<rparr>)
        (emit AbortAuth (be_entry glob BE_AUTH_INITIALIZE sm)))\<lparr>authAbort := False\<rparr>"

definition sm_BE_AUTH_REQUEST_Enter :: "bool \<Rightarrow> 'e eapol_sm \<Rightarrow> 'e eapol_sm" where
  "sm_BE_AUTH_REQUEST_Enter glob sm =
     (bump backendOtherRequestsToSupplicant
        (upd_eap_if (\<lambda>i. i\<lparr>eapReq := False\<rparr>)
           (eapol_auth_tx_req (be_entry glob BE_AUTH_REQUEST sm))))\<lparr>eapolEap := False\<rparr>"

definition sm_BE_AUTH_RESPONSE_Enter :: "bool \<Rightarrow> 'e eapol_sm \<Rightarrow> 'e eapol_sm" where
  "sm_BE_AUTH_RESPONSE_Enter glob sm =
     (let sm = (be_entry glob BE_AUTH_RESPONSE sm)\<lparr>authTimeout := False, eapolEap := False\<rparr>;
          sm = upd_eap_if (\<lambda>i. i\<lparr>eapNoReq := False\<rparr>) sm;
          sm = sm\<lparr>aWhile := sint (serverTimeout sm)\<rparr>;
          sm = upd_eap_if (\<lambda>i. i\<lparr>eapResp := True\<rparr>) sm
      in bump backendResponses sm)"

definition sm_BE_AUTH_SUCCESS_Enter :: "bool \<Rightarrow> 'e eapol_sm \<Rightarrow> 'e eapol_sm" where
  "sm_BE_AUTH_SUCCESS_Enter glob sm =
     (eapol_auth_tx_req (be_entry glob BE_AUTH_SUCCESS sm))\<lparr>authSuccess := True, keyRun := True\<rparr>"

definition sm_BE_AUTH_FAIL_Enter :: "bool \<Rightarrow> 'e eapol_sm \<Rightarrow> 'e eapol_sm" where
  "sm_BE_AUTH_FAIL_Enter glob sm =
     (eapol_auth_tx_req (be_entry glob BE_AUTH_FAIL sm))\<lparr>authFail := True\<rparr>"

definition sm_BE_AUTH_TIMEOUT_Enter :: "bool \<Rightarrow> 'e eapol_sm \<Rightarrow> 'e eapol_sm" where
  "sm_BE_AUTH_TIMEOUT_Enter glob sm = (be_entry glob BE_AUTH_TIMEOUT sm)\<lparr>authTimeout := True\<rparr>"

definition sm_BE_AUTH_IDLE_Enter :: "bool \<Rightarrow> 'e eapol_sm \<Rightarrow> 'e eapol_sm" where
  "sm_BE_AUTH_IDLE_Enter glob sm = (be_entry glob BE_AUTH_IDLE sm)\<lparr>authStart := False\<rparr>"

definition sm_BE_AUTH_IGNORE_Enter :: "bool \<Rightarrow> 'e eapol_sm \<Rightarrow> 'e eapol_sm" where
  "sm_BE_AUTH_IGNORE_Enter glob sm = upd_eap_if (\<lambda>i. i\<lparr>eapNoReq := False\<rparr>) (be_entry glob BE_AUTH_IGNORE sm)"

text \<open>The two \<open>if\<close>s of the state \<open>RESPONSE\<close> are both executed.\<close>

definition be_response_step :: "'e eapol_sm \<Rightarrow> 'e eapol_sm" where
  "be_response_step sm =
     (let sm = (if eapNoReq (eap_if sm) then sm_BE_AUTH_IGNORE_Enter False sm else sm)
      in if eapReq (eap_if sm) then sm_BE_AUTH_REQUEST_Enter False (bump backendAccessChallenges sm)
         else if aWhile sm = 0 then sm_BE_AUTH_TIMEOUT_Enter False sm
         else if eapFail (eap_if sm) then sm_BE_AUTH_FAIL_Enter False (bump backendAuthFails sm)
         else if eapSuccess (eap_if sm) then sm_BE_AUTH_SUCCESS_Enter False (bump backendAuthSuccesses sm)
         else sm)"

definition sm_BE_AUTH_Step :: "'e eapol_sm \<Rightarrow> 'e eapol_sm" where
  "sm_BE_AUTH_Step sm =
     (if portControl sm \<noteq> Auto \<or> initialize sm \<or> authAbort sm then sm_BE_AUTH_INITIALIZE_Enter True sm
      else (case be_auth_state sm of
        BE_AUTH_INITIALIZE \<Rightarrow> sm_BE_AUTH_IDLE_Enter False sm
      | BE_AUTH_REQUEST \<Rightarrow>
          if eapolEap sm then sm_BE_AUTH_RESPONSE_Enter False sm
          else if eapReq (eap_if sm) then sm_BE_AUTH_REQUEST_Enter False sm
          else if eapTimeout (eap_if sm) then sm_BE_AUTH_TIMEOUT_Enter False sm else sm
      | BE_AUTH_RESPONSE \<Rightarrow> be_response_step sm
      | BE_AUTH_SUCCESS \<Rightarrow> sm_BE_AUTH_IDLE_Enter False sm
      | BE_AUTH_FAIL \<Rightarrow> sm_BE_AUTH_IDLE_Enter False sm
      | BE_AUTH_TIMEOUT \<Rightarrow> sm_BE_AUTH_IDLE_Enter False sm
      | BE_AUTH_IDLE \<Rightarrow>
          if eapFail (eap_if sm) \<and> authStart sm then sm_BE_AUTH_FAIL_Enter False sm
          else if eapReq (eap_if sm) \<and> authStart sm then sm_BE_AUTH_REQUEST_Enter False sm
          else if eapSuccess (eap_if sm) \<and> authStart sm then sm_BE_AUTH_SUCCESS_Enter False sm else sm
      | BE_AUTH_IGNORE \<Rightarrow>
          if eapolEap sm then sm_BE_AUTH_RESPONSE_Enter False sm
          else if eapReq (eap_if sm) then sm_BE_AUTH_REQUEST_Enter False sm
          else if eapTimeout (eap_if sm) then sm_BE_AUTH_TIMEOUT_Enter False sm else sm))"

subsection \<open>The four small state machines\<close>

definition sm_REAUTH_TIMER_INITIALIZE_Enter :: "bool \<Rightarrow> 'e eapol_sm \<Rightarrow> 'e eapol_sm" where
  "sm_REAUTH_TIMER_INITIALIZE_Enter glob sm =
     (reauth_entry glob REAUTH_TIMER_INITIALIZE sm)\<lparr>reAuthWhen := sint (reAuthPeriod sm)\<rparr>"

definition sm_REAUTH_TIMER_REAUTHENTICATE_Enter :: "bool \<Rightarrow> 'e eapol_sm \<Rightarrow> 'e eapol_sm" where
  "sm_REAUTH_TIMER_REAUTHENTICATE_Enter glob sm =
     emit (EapolEvent EAPOL_AUTH_REAUTHENTICATE)
       ((reauth_entry glob REAUTH_TIMER_REAUTHENTICATE sm)\<lparr>reAuthenticate := True\<rparr>)"

definition sm_REAUTH_TIMER_Step :: "'e eapol_sm \<Rightarrow> 'e eapol_sm" where
  "sm_REAUTH_TIMER_Step sm =
     (if portControl sm \<noteq> Auto \<or> initialize sm \<or> authPortStatus sm = Unauthorized \<or> \<not> reAuthEnabled sm
      then sm_REAUTH_TIMER_INITIALIZE_Enter True sm
      else (case reauth_timer_state sm of
        REAUTH_TIMER_INITIALIZE \<Rightarrow>
          if reAuthWhen sm = 0 then sm_REAUTH_TIMER_REAUTHENTICATE_Enter False sm else sm
      | REAUTH_TIMER_REAUTHENTICATE \<Rightarrow> sm_REAUTH_TIMER_INITIALIZE_Enter False sm))"

definition sm_AUTH_KEY_TX_NO_KEY_TRANSMIT_Enter :: "bool \<Rightarrow> 'e eapol_sm \<Rightarrow> 'e eapol_sm" where
  "sm_AUTH_KEY_TX_NO_KEY_TRANSMIT_Enter glob sm = key_tx_entry glob AUTH_KEY_TX_NO_KEY_TRANSMIT sm"

definition sm_AUTH_KEY_TX_KEY_TRANSMIT_Enter :: "bool \<Rightarrow> 'e eapol_sm \<Rightarrow> 'e eapol_sm" where
  "sm_AUTH_KEY_TX_KEY_TRANSMIT_Enter glob sm =
     (upd_eap_if (\<lambda>i. i\<lparr>eapKeyAvailable := False\<rparr>)
        (emit TxKey (key_tx_entry glob AUTH_KEY_TX_KEY_TRANSMIT sm)))\<lparr>keyDone := True\<rparr>"

definition sm_AUTH_KEY_TX_Step :: "'e eapol_sm \<Rightarrow> 'e eapol_sm" where
  "sm_AUTH_KEY_TX_Step sm =
     (if initialize sm \<or> portControl sm \<noteq> Auto then sm_AUTH_KEY_TX_NO_KEY_TRANSMIT_Enter True sm
      else (case auth_key_tx_state sm of
        AUTH_KEY_TX_NO_KEY_TRANSMIT \<Rightarrow>
          if keyTxEnabled sm \<and> eapKeyAvailable (eap_if sm) \<and> keyRun sm \<and> \<not> EAPOL_SM_USES_WPA (flags sm)
          then sm_AUTH_KEY_TX_KEY_TRANSMIT_Enter False sm else sm
      | AUTH_KEY_TX_KEY_TRANSMIT \<Rightarrow>
          if \<not> keyTxEnabled sm \<or> \<not> keyRun sm then sm_AUTH_KEY_TX_NO_KEY_TRANSMIT_Enter False sm
          else if eapKeyAvailable (eap_if sm) then sm_AUTH_KEY_TX_KEY_TRANSMIT_Enter False sm else sm))"

definition sm_KEY_RX_NO_KEY_RECEIVE_Enter :: "bool \<Rightarrow> 'e eapol_sm \<Rightarrow> 'e eapol_sm" where
  "sm_KEY_RX_NO_KEY_RECEIVE_Enter glob sm = key_rx_entry glob KEY_RX_NO_KEY_RECEIVE sm"

definition sm_KEY_RX_KEY_RECEIVE_Enter :: "bool \<Rightarrow> 'e eapol_sm \<Rightarrow> 'e eapol_sm" where
  "sm_KEY_RX_KEY_RECEIVE_Enter glob sm = (key_rx_entry glob KEY_RX_KEY_RECEIVE sm)\<lparr>rxKey := False\<rparr>"

definition sm_KEY_RX_Step :: "'e eapol_sm \<Rightarrow> 'e eapol_sm" where
  "sm_KEY_RX_Step sm =
     (if initialize sm \<or> \<not> portEnabled (eap_if sm) then sm_KEY_RX_NO_KEY_RECEIVE_Enter True sm
      else (case key_rx_state sm of
        KEY_RX_NO_KEY_RECEIVE \<Rightarrow> if rxKey sm then sm_KEY_RX_KEY_RECEIVE_Enter False sm else sm
      | KEY_RX_KEY_RECEIVE \<Rightarrow> if rxKey sm then sm_KEY_RX_KEY_RECEIVE_Enter False sm else sm))"

definition sm_CTRL_DIR_FORCE_BOTH_Enter :: "bool \<Rightarrow> 'e eapol_sm \<Rightarrow> 'e eapol_sm" where
  "sm_CTRL_DIR_FORCE_BOTH_Enter glob sm =
     (ctrl_dir_entry glob CTRL_DIR_FORCE_BOTH sm)\<lparr>operControlledDirections := Both\<rparr>"

definition sm_CTRL_DIR_IN_OR_BOTH_Enter :: "bool \<Rightarrow> 'e eapol_sm \<Rightarrow> 'e eapol_sm" where
  "sm_CTRL_DIR_IN_OR_BOTH_Enter glob sm =
     (ctrl_dir_entry glob CTRL_DIR_IN_OR_BOTH sm)\<lparr>operControlledDirections := adminControlledDirections sm\<rparr>"

definition sm_CTRL_DIR_Step :: "'e eapol_sm \<Rightarrow> 'e eapol_sm" where
  "sm_CTRL_DIR_Step sm =
     (if initialize sm then sm_CTRL_DIR_IN_OR_BOTH_Enter True sm
      else (case ctrl_dir_state sm of
        CTRL_DIR_FORCE_BOTH \<Rightarrow>
          if portEnabled (eap_if sm) \<and> operEdge sm then sm_CTRL_DIR_IN_OR_BOTH_Enter False sm else sm
      | CTRL_DIR_IN_OR_BOTH \<Rightarrow>
          let sm = (if operControlledDirections sm \<noteq> adminControlledDirections sm
                    then sm_CTRL_DIR_IN_OR_BOTH_Enter False sm else sm)
          in if \<not> portEnabled (eap_if sm) \<or> \<not> operEdge sm then sm_CTRL_DIR_FORCE_BOTH_Enter False sm else sm))"

subsection \<open>Running the machines\<close>

definition eapol_auth_step :: "'e eapol_sm \<Rightarrow> 'e eapol_sm" where
  "eapol_auth_step sm = emit StepTimeout sm"

abbreviation alive :: "'e eapol_env \<Rightarrow> 'e eapol_sm \<Rightarrow> bool" where
  "alive env sm \<equiv> sta_entry_alive env (outs sm)"

definition if_alive ::
    "'e eapol_env \<Rightarrow> ('e eapol_sm \<Rightarrow> 'e eapol_sm) \<Rightarrow> 'e eapol_sm \<Rightarrow> 'e eapol_sm" where
  "if_alive env step sm = (if initializing sm \<or> alive env sm then step sm else sm)"

definition machines_step :: "'e eapol_env \<Rightarrow> 'e eapol_sm \<Rightarrow> 'e eapol_sm" where
  "machines_step env sm =
     if_alive env sm_CTRL_DIR_Step (if_alive env sm_KEY_RX_Step (if_alive env sm_AUTH_KEY_TX_Step
       (if_alive env sm_REAUTH_TIMER_Step (if_alive env sm_BE_AUTH_Step (sm_AUTH_PAE_Step sm)))))"

definition states :: "'e eapol_sm \<Rightarrow> auth_pae \<times> be_auth \<times> reauth_timer \<times> auth_key_tx \<times> key_rx \<times> ctrl_dir" where
  "states sm = (auth_pae_state sm, be_auth_state sm, reauth_timer_state sm, auth_key_tx_state sm,
     key_rx_state sm, ctrl_dir_state sm)"

definition sm_change_event :: "'e eapol_env \<Rightarrow> 'e eapol_sm \<Rightarrow> 'e eapol_sm" where
  "sm_change_event env sm = (if alive env sm then emit (EapolEvent EAPOL_AUTH_SM_CHANGE) sm else sm)"

definition aaa_response :: "'e eapol_env \<Rightarrow> 'e eapol_sm \<Rightarrow> 'e eapol_sm" where
  "aaa_response env sm =
     (if aaaEapResp (eap_if sm)
      then let sm = upd_eap_if (\<lambda>i. i\<lparr>aaaEapResp := False\<rparr>) sm
           in case aaaEapRespData (eap_if sm) of
                None \<Rightarrow> sm
              | Some d \<Rightarrow> sm_change_event env (emit (AaaSend d) sm)
      else sm_change_event env sm)"

text \<open>
  \<open>max_steps\<close> is the variable of the source, which counts the passes down from 100; when it comes to zero the machines are re-run from the event loop. The
  recursion is on this counter, as the jump of the source is guarded by it; the first equation is never used from \<open>eapol_sm_step_run\<close>.
\<close>

fun step_run_loop :: "'e eapol_env \<Rightarrow> nat \<Rightarrow> 'e eapol_sm \<Rightarrow> 'e eapol_sm" where
  "step_run_loop env 0 sm = sm"
| "step_run_loop env (Suc max_steps) sm =
     (let sm' = machines_step env sm
      in if states sm' \<noteq> states sm
         then if 0 < max_steps then step_run_loop env max_steps sm' else eapol_auth_step sm'
         else if alive env sm'
         then (case eap sm' of
             None \<Rightarrow> sm_change_event env sm'
           | Some e \<Rightarrow>
               let (more, e', i) = eap_server_sm_step env e (eap_if sm');
                   sm' = sm'\<lparr>eap := Some e', eap_if := i\<rparr>
               in if more
                  then if 0 < max_steps then step_run_loop env max_steps sm' else eapol_auth_step sm'
                  else aaa_response env sm')
         else sm_change_event env sm')"

definition eapol_sm_step_run :: "'e eapol_env \<Rightarrow> 'e eapol_sm \<Rightarrow> 'e eapol_sm" where
  "eapol_sm_step_run env sm = step_run_loop env 100 sm"

definition tick :: "int \<Rightarrow> int" where
  "tick t = (if 0 < t then t - 1 else t)"

definition eapol_port_timers_tick :: "'e eapol_env \<Rightarrow> 'e eapol_sm \<Rightarrow> 'e eapol_sm" where
  "eapol_port_timers_tick env sm =
     (let sm = sm\<lparr>aWhile := tick (aWhile sm), quietWhile := tick (quietWhile sm),
                 reAuthWhen := tick (reAuthWhen sm)\<rparr>;
          sm = upd_eap_if (\<lambda>i. i\<lparr>retransWhile := tick (retransWhile i)\<rparr>) sm
      in emit TickTimeout (eapol_sm_step_run env sm))"

definition eapol_auth_initialize :: "'e eapol_env \<Rightarrow> 'e eapol_sm \<Rightarrow> 'e eapol_sm" where
  "eapol_auth_initialize env sm =
     (let sm = sm\<lparr>initializing := True, initialize := True\<rparr>;
          sm = eapol_sm_step_run env sm;
          sm = sm\<lparr>initialize := False\<rparr>;
          sm = eapol_sm_step_run env sm;
          sm = sm\<lparr>initializing := False\<rparr>
      in emit TickTimeout (emit CancelTick sm))"

subsection \<open>Allocation and configuration\<close>

record eapol_auth_config =
  eap_reauth_period :: int
  wpa :: int
  individual_wep_key_len :: int

record eapol_authenticator =
  conf :: eapol_auth_config
  default_wep_key :: "bytes option"
  acct_multi_session_id_hi :: u32
  acct_multi_session_id_lo :: u32

definition zero_eap_if :: eap_eapol_interface where
  "zero_eap_if = \<lparr>eapResp = False, portEnabled = False, retransWhile = 0, eapRestart = False, eapReq = False,
     eapNoReq = False, eapSuccess = False, eapFail = False, eapTimeout = False, eapReqData = None,
     eapKeyAvailable = False, aaaEapResp = False, aaaEapRespData = None\<rparr>"

text \<open>\<open>os_zalloc\<close>; the first constant of every enumeration of states is 0.\<close>

definition zero_sm :: "'e eapol_sm" where
  "zero_sm = \<lparr>aWhile = 0, quietWhile = 0, reAuthWhen = 0, authAbort = False, authFail = False,
     authPortStatus = PortState_0, authStart = False, authTimeout = False, authSuccess = False, eapolEap = False,
     initialize = False, keyDone = False, keyRun = False, keyTxEnabled = False, portControl = PortTypes_0,
     portValid = False, reAuthenticate = False, auth_pae_state = AUTH_PAE_INITIALIZE, eapolLogoff = False,
     eapolStart = False, portMode = PortTypes_0, reAuthCount = 0, quietPeriod = 0, reAuthMax = 0,
     be_auth_state = BE_AUTH_REQUEST, serverTimeout = 0, reauth_timer_state = REAUTH_TIMER_INITIALIZE,
     reAuthPeriod = 0, reAuthEnabled = False, auth_key_tx_state = AUTH_KEY_TX_NO_KEY_TRANSMIT,
     key_rx_state = KEY_RX_NO_KEY_RECEIVE, rxKey = False, ctrl_dir_state = CTRL_DIR_FORCE_BOTH,
     adminControlledDirections = Both, operControlledDirections = Both, operEdge = False, flags = 0,
     eap_if = zero_eap_if, last_eap_id = 0, eap = None, initializing = False, changed = False, remediation = 0,
     counters = (\<lambda>_. 0), outs = []\<rparr>"

definition alloc_sm :: "u32 \<Rightarrow> eapol_authenticator \<Rightarrow> 'e eapol_sm" where
  "alloc_sm fl eapol = zero_sm\<lparr>flags := fl, auth_pae_state := AUTH_PAE_INITIALIZE, quietPeriod := 60,
     reAuthMax := 2, be_auth_state := BE_AUTH_INITIALIZE, serverTimeout := 30,
     reauth_timer_state := REAUTH_TIMER_INITIALIZE,
     reAuthPeriod := word_of_int (eap_reauth_period (conf eapol)),
     reAuthEnabled := (0 < eap_reauth_period (conf eapol)),
     auth_key_tx_state := AUTH_KEY_TX_NO_KEY_TRANSMIT, key_rx_state := KEY_RX_NO_KEY_RECEIVE,
     ctrl_dir_state := CTRL_DIR_IN_OR_BOTH, portControl := Auto,
     keyTxEnabled := (wpa (conf eapol) = 0 \<and>
       (default_wep_key eapol \<noteq> None \<or> 0 < individual_wep_key_len (conf eapol))),
     portValid := (wpa (conf eapol) = 0)\<rparr>"

text \<open>
  \<open>eap_server_sm_init\<close> delivers the EAP server's state and its interface, or nothing; the identity
  strings that are only stored are left out.
\<close>

definition eapol_auth_alloc ::
    "'e eapol_env \<Rightarrow> ('e \<times> eap_eapol_interface) option \<Rightarrow> u32 \<Rightarrow> eapol_authenticator \<Rightarrow>
     eapol_authenticator \<times> 'e eapol_sm option" where
  "eapol_auth_alloc env eap_init fl eapol = (case eap_init of
     None \<Rightarrow> (eapol, None)
   | Some (e, i) \<Rightarrow>
       let sm = eapol_auth_initialize env ((alloc_sm fl eapol)\<lparr>eap := Some e, eap_if := i\<rparr>);
           lo = acct_multi_session_id_lo eapol + 1;
           hi = (if lo = 0 then acct_multi_session_id_hi eapol + 1 else acct_multi_session_id_hi eapol)
       in (eapol\<lparr>acct_multi_session_id_lo := lo, acct_multi_session_id_hi := hi\<rparr>, Some sm))"

definition eapol_auth_reauthenticate :: "'e eapol_sm \<Rightarrow> 'e eapol_sm" where
  "eapol_auth_reauthenticate sm = eapol_auth_step (sm\<lparr>reAuthenticate := True\<rparr>)"

definition lower_char :: "char \<Rightarrow> char" where
  "lower_char c = (let n = of_char c :: nat in if 65 \<le> n \<and> n \<le> 90 then char_of (n + 32) else c)"

definition strcaseeq :: "string \<Rightarrow> string \<Rightarrow> bool" where
  "strcaseeq a b \<longleftrightarrow> map lower_char a = map lower_char b"

definition set_flag :: "string \<Rightarrow> (bool \<Rightarrow> 'e eapol_sm) \<Rightarrow> 'e eapol_sm \<Rightarrow> int \<times> 'e eapol_sm" where
  "set_flag val upd sm =
     (if val = ''TRUE'' then (0, eapol_auth_step (upd True))
      else if val = ''FALSE'' then (0, eapol_auth_step (upd False))
      else (- 1, sm))"

definition eapol_auth_set_conf :: "'e eapol_sm \<Rightarrow> string \<Rightarrow> string \<Rightarrow> (int \<times> 'e eapol_sm) option" where
  "eapol_auth_set_conf sm param val =
     (if strcaseeq param ''AdminControlledDirections''
      then Some (if val = ''Both'' then (0, eapol_auth_step (sm\<lparr>adminControlledDirections := Both\<rparr>))
                 else if val = ''In'' then (0, eapol_auth_step (sm\<lparr>adminControlledDirections := In\<rparr>))
                 else (- 1, sm))
      else if strcaseeq param ''AdminControlledPortControl''
      then Some (if val = ''ForceAuthorized'' then (0, eapol_auth_step (sm\<lparr>portControl := ForceAuthorized\<rparr>))
                 else if val = ''ForceUnauthorized'' then (0, eapol_auth_step (sm\<lparr>portControl := ForceUnauthorized\<rparr>))
                 else if val = ''Auto'' then (0, eapol_auth_step (sm\<lparr>portControl := Auto\<rparr>))
                 else (- 1, sm))
      else if strcaseeq param ''quietPeriod''
      then map_option (\<lambda>v. (0, sm\<lparr>quietPeriod := word_of_int v\<rparr>)) (atoi val)
      else if strcaseeq param ''serverTimeout''
      then map_option (\<lambda>v. (0, sm\<lparr>serverTimeout := word_of_int v\<rparr>)) (atoi val)
      else if strcaseeq param ''reAuthPeriod''
      then map_option (\<lambda>v. (0, sm\<lparr>reAuthPeriod := word_of_int v\<rparr>)) (atoi val)
      else if strcaseeq param ''reAuthEnabled''
      then Some (set_flag val (\<lambda>b. sm\<lparr>reAuthEnabled := b\<rparr>) sm)
      else if strcaseeq param ''KeyTransmissionEnabled''
      then Some (set_flag val (\<lambda>b. sm\<lparr>keyTxEnabled := b\<rparr>) sm)
      else Some (- 1, sm))"

end
