(* ===== verification/EapolInv.thy ===== *)
theory EapolInv
  imports EapolSm
begin

text \<open>
  Invariants of the IEEE 802.1X authenticator. Everything that decides about the port is changed by
  the authenticator PAE only (\<open>front\<close>); a locale turns a property that the PAE keeps into one that
  whole runs of the machines keep, and is interpreted on the port invariant, the retry bound, the
  quiet period and the forced and disabled port.
\<close>

subsection \<open>The part of the state that decides about the port\<close>

fun last_port :: "eapol_out list \<Rightarrow> bool option" where
  "last_port [] = None"
| "last_port (x # xs) = (case last_port xs of
     Some b \<Rightarrow> Some b
   | None \<Rightarrow> (case x of SetPortAuthorized b \<Rightarrow> Some b | _ \<Rightarrow> None))"

lemma last_port_append [simp]:
  "last_port (xs @ ys) = (case last_port ys of Some b \<Rightarrow> Some b | None \<Rightarrow> last_port xs)"
  by (induction xs) (auto split: option.splits)

fun is_set_port :: "eapol_out \<Rightarrow> bool" where
  "is_set_port (SetPortAuthorized _) = True"
| "is_set_port _ = False"

definition core :: "'e eapol_sm \<Rightarrow> auth_pae \<times> PortState \<times> u32 \<times> u32 \<times> bool option" where
  "core sm = (auth_pae_state sm, authPortStatus sm, reAuthCount sm, reAuthMax sm, last_port (outs sm))"

lemmas eapol_helpers = bump_def bump_if_def emit_def upd_eap_if_def finished_cb_def pae_entry_def be_entry_def
  reauth_entry_def key_tx_entry_def key_rx_entry_def ctrl_dir_entry_def

text \<open>What only the authenticator PAE changes.\<close>

definition front :: "'e eapol_sm \<Rightarrow>
    (auth_pae \<times> PortState \<times> u32 \<times> u32 \<times> bool option) \<times> int \<times> PortTypes \<times> PortTypes \<times> bool \<times> bool" where
  "front sm = (core sm, quietWhile sm, portControl sm, portMode sm, initialize sm, portEnabled (eap_if sm))"

lemma front_bump [simp]: "front (bump c sm) = front sm"
  by (simp add: front_def core_def bump_def)

lemma front_emit [simp]: "\<not> is_set_port x \<Longrightarrow> front (emit x sm) = front sm"
  by (cases x) (simp_all add: front_def core_def emit_def)

lemma front_upd_eap_if [simp]:
  "(\<And>i. portEnabled (f i) = portEnabled i) \<Longrightarrow> front (upd_eap_if f sm) = front sm"
  by (simp add: front_def core_def upd_eap_if_def)

lemma front_fields [simp]:
  "front (sm\<lparr>authAbort := b\<rparr>) = front sm" "front (sm\<lparr>eapolEap := b\<rparr>) = front sm"
  "front (sm\<lparr>authTimeout := b\<rparr>) = front sm" "front (sm\<lparr>aWhile := t\<rparr>) = front sm"
  "front (sm\<lparr>authSuccess := b\<rparr>) = front sm" "front (sm\<lparr>keyRun := b\<rparr>) = front sm"
  "front (sm\<lparr>authFail := b\<rparr>) = front sm" "front (sm\<lparr>authStart := b\<rparr>) = front sm"
  "front (sm\<lparr>last_eap_id := x\<rparr>) = front sm" "front (sm\<lparr>reAuthenticate := b\<rparr>) = front sm"
  "front (sm\<lparr>reAuthWhen := t\<rparr>) = front sm" "front (sm\<lparr>keyDone := b\<rparr>) = front sm"
  "front (sm\<lparr>rxKey := b\<rparr>) = front sm" "front (sm\<lparr>operControlledDirections := d\<rparr>) = front sm"
  by (simp_all add: front_def core_def)

lemma front_entry [simp]:
  "front (be_entry g st1 sm) = front sm" "front (reauth_entry g st2 sm) = front sm"
  "front (key_tx_entry g st3 sm) = front sm" "front (key_rx_entry g st4 sm) = front sm"
  "front (ctrl_dir_entry g st5 sm) = front sm"
  by (simp_all add: front_def core_def eapol_helpers)

lemma front_tx_req [simp]: "front (eapol_auth_tx_req sm) = front sm"
  by (simp add: eapol_auth_tx_req_def Let_def split: option.split)

lemma front_BE_AUTH_Step: "front (sm_BE_AUTH_Step sm) = front sm"
  by (simp add: sm_BE_AUTH_Step_def be_response_step_def Let_def sm_BE_AUTH_INITIALIZE_Enter_def
      sm_BE_AUTH_REQUEST_Enter_def sm_BE_AUTH_RESPONSE_Enter_def sm_BE_AUTH_SUCCESS_Enter_def
      sm_BE_AUTH_FAIL_Enter_def sm_BE_AUTH_TIMEOUT_Enter_def sm_BE_AUTH_IDLE_Enter_def
      sm_BE_AUTH_IGNORE_Enter_def split: be_auth.split)

lemma front_REAUTH_TIMER_Step: "front (sm_REAUTH_TIMER_Step sm) = front sm"
  by (simp add: sm_REAUTH_TIMER_Step_def sm_REAUTH_TIMER_INITIALIZE_Enter_def
      sm_REAUTH_TIMER_REAUTHENTICATE_Enter_def split: reauth_timer.split)

lemma front_AUTH_KEY_TX_Step: "front (sm_AUTH_KEY_TX_Step sm) = front sm"
  by (simp add: sm_AUTH_KEY_TX_Step_def sm_AUTH_KEY_TX_NO_KEY_TRANSMIT_Enter_def
      sm_AUTH_KEY_TX_KEY_TRANSMIT_Enter_def split: auth_key_tx.split)

lemma front_KEY_RX_Step: "front (sm_KEY_RX_Step sm) = front sm"
  by (simp add: sm_KEY_RX_Step_def sm_KEY_RX_NO_KEY_RECEIVE_Enter_def sm_KEY_RX_KEY_RECEIVE_Enter_def
      split: key_rx.split)

lemma front_CTRL_DIR_Step: "front (sm_CTRL_DIR_Step sm) = front sm"
  by (simp add: sm_CTRL_DIR_Step_def sm_CTRL_DIR_FORCE_BOTH_Enter_def sm_CTRL_DIR_IN_OR_BOTH_Enter_def
      Let_def split: ctrl_dir.split)

lemma front_machines: "front (machines_step env sm) = front (sm_AUTH_PAE_Step sm)"
  by (simp add: machines_step_def if_alive_def front_BE_AUTH_Step front_REAUTH_TIMER_Step
      front_AUTH_KEY_TX_Step front_KEY_RX_Step front_CTRL_DIR_Step)

lemma front_core: "front sm = front sm' \<Longrightarrow> core sm = core sm'"
  by (simp add: front_def)

lemma front_sm_change_event [simp]: "front (sm_change_event env sm) = front sm"
  by (simp add: sm_change_event_def)

lemma front_aaa_response [simp]: "front (aaa_response env sm) = front sm"
  by (simp add: aaa_response_def Let_def split: option.split)

text \<open>What the states of the authenticator PAE do to the core.\<close>

lemma core_pae_entry: "core (pae_entry g st sm) = (st, authPortStatus sm, reAuthCount sm, reAuthMax sm, last_port (outs sm))"
  by (simp add: core_def pae_entry_def)

lemma core_AUTH_PAE_Enter:
  "core (sm_AUTH_PAE_INITIALIZE_Enter g sm) =
     (AUTH_PAE_INITIALIZE, authPortStatus sm, reAuthCount sm, reAuthMax sm, last_port (outs sm))"
  "core (sm_AUTH_PAE_DISCONNECTED_Enter g sm) = (AUTH_PAE_DISCONNECTED, Unauthorized, 0, reAuthMax sm, Some False)"
  "core (sm_AUTH_PAE_RESTART_Enter g sm) =
     (AUTH_PAE_RESTART, authPortStatus sm, reAuthCount sm, reAuthMax sm, last_port (outs sm))"
  "core (sm_AUTH_PAE_CONNECTING_Enter g sm) =
     (AUTH_PAE_CONNECTING, authPortStatus sm, reAuthCount sm + 1, reAuthMax sm, last_port (outs sm))"
  "core (sm_AUTH_PAE_HELD_Enter g sm) = (AUTH_PAE_HELD, Unauthorized, reAuthCount sm, reAuthMax sm, Some False)"
  "core (sm_AUTH_PAE_AUTHENTICATED_Enter g sm) = (AUTH_PAE_AUTHENTICATED, Authorized, 0, reAuthMax sm, Some True)"
  "core (sm_AUTH_PAE_AUTHENTICATING_Enter g sm) =
     (AUTH_PAE_AUTHENTICATING, authPortStatus sm, reAuthCount sm, reAuthMax sm, last_port (outs sm))"
  "core (sm_AUTH_PAE_ABORTING_Enter g sm) =
     (AUTH_PAE_ABORTING, authPortStatus sm, reAuthCount sm, reAuthMax sm, last_port (outs sm))"
  "core (sm_AUTH_PAE_FORCE_AUTH_Enter g sm) = (AUTH_PAE_FORCE_AUTH, Authorized, reAuthCount sm, reAuthMax sm, Some True)"
  "core (sm_AUTH_PAE_FORCE_UNAUTH_Enter g sm) =
     (AUTH_PAE_FORCE_UNAUTH, Unauthorized, reAuthCount sm, reAuthMax sm, Some False)"
  by (simp_all add: sm_AUTH_PAE_INITIALIZE_Enter_def sm_AUTH_PAE_DISCONNECTED_Enter_def sm_AUTH_PAE_RESTART_Enter_def
      sm_AUTH_PAE_CONNECTING_Enter_def sm_AUTH_PAE_HELD_Enter_def sm_AUTH_PAE_AUTHENTICATED_Enter_def
      sm_AUTH_PAE_AUTHENTICATING_Enter_def sm_AUTH_PAE_ABORTING_Enter_def sm_AUTH_PAE_FORCE_AUTH_Enter_def
      sm_AUTH_PAE_FORCE_UNAUTH_Enter_def eapol_auth_tx_canned_eap_def eapol_helpers core_def Let_def)

lemma core_eqs:
  "auth_pae_state sm = fst (core sm)" "authPortStatus sm = fst (snd (core sm))"
  "reAuthCount sm = fst (snd (snd (core sm)))" "reAuthMax sm = fst (snd (snd (snd (core sm))))"
  "last_port (outs sm) = snd (snd (snd (snd (core sm))))"
  by (simp_all add: core_def)

subsection \<open>Invariants of a run\<close>

text \<open>
  A property that the authenticator PAE keeps, that depends only on what the PAE changes and that
  the EAP server respects, is kept by a whole run of the machines. \<open>eap_ok\<close> is what is needed of
  the EAP server.
\<close>

locale eapol_keeps =
  fixes P :: "'e eapol_sm \<Rightarrow> bool"
    and eap_ok :: "'e eapol_env \<Rightarrow> bool"
  assumes pae: "P sm \<Longrightarrow> P (sm_AUTH_PAE_Step sm)"
    and same_front: "P sm \<Longrightarrow> front sm' = front sm \<Longrightarrow> P sm'"
    and eap_step: "eap_ok env \<Longrightarrow> P sm \<Longrightarrow> eap_server_sm_step env e (eap_if sm) = (mr, e', i') \<Longrightarrow>
      P (sm\<lparr>eap := Some e', eap_if := i'\<rparr>)"
begin

lemma machines: "P sm \<Longrightarrow> P (machines_step env sm)"
  using pae same_front front_machines by blast

lemma loop_Suc: "eap_ok env \<Longrightarrow> P (machines_step env sm) \<Longrightarrow> P (step_run_loop env (Suc n) sm)"
proof (induction n arbitrary: sm)
  case (0 sm)
  have out: "P s \<Longrightarrow> P (eapol_auth_step s)" "P s \<Longrightarrow> P (sm_change_event env s)" "P s \<Longrightarrow> P (aaa_response env s)" for s
    by (auto intro: same_front simp: eapol_auth_step_def)
  show ?case
    using 0 out eap_step [OF 0] by (auto simp: Let_def split: option.split prod.split)
next
  case (Suc n)
  let ?s = "machines_step env sm"
  have again: "P s \<Longrightarrow> P (step_run_loop env (Suc n) s)" for s
    using Suc.IH [OF Suc.prems(1)] machines by blast
  have out: "P s \<Longrightarrow> P (sm_change_event env s)" "P s \<Longrightarrow> P (aaa_response env s)" for s
    by (auto intro: same_front)
  show ?case
    using Suc.prems again out eap_step [OF Suc.prems]
    by (auto simp: step_run_loop.simps(2) [of env "Suc n"] Let_def simp del: step_run_loop.simps
        split: option.split prod.split)
qed

lemma loop: "eap_ok env \<Longrightarrow> P sm \<Longrightarrow> P (step_run_loop env n sm)"
  using loop_Suc machines by (cases n) auto

lemma run: "eap_ok env \<Longrightarrow> P sm \<Longrightarrow> P (eapol_sm_step_run env sm)"
  by (simp add: eapol_sm_step_run_def loop)

lemma run_after_step: "eap_ok env \<Longrightarrow> P (sm_AUTH_PAE_Step sm) \<Longrightarrow> P (eapol_sm_step_run env sm)"
  using loop_Suc [of env sm 99] same_front [OF _ front_machines] by (simp add: eapol_sm_step_run_def)

end

text \<open>Properties of the core alone hold whatever the EAP server does, and in all operations.\<close>

locale eapol_invariant =
  fixes I :: "auth_pae \<times> PortState \<times> u32 \<times> u32 \<times> bool option \<Rightarrow> bool"
    and tag :: "'e itself"
  assumes pae_core: "I (core (sm :: 'e eapol_sm)) \<Longrightarrow> I (core (sm_AUTH_PAE_Step sm))"

sublocale eapol_invariant \<subseteq> keeps: eapol_keeps "\<lambda>sm :: 'e eapol_sm. I (core sm)" "\<lambda>_. True"
proof
  show "I (core sm) \<Longrightarrow> I (core (sm_AUTH_PAE_Step sm))" for sm :: "'e eapol_sm" by (rule pae_core)
  show "I (core sm) \<Longrightarrow> front sm' = front sm \<Longrightarrow> I (core sm')" for sm sm' :: "'e eapol_sm"
    using front_core by metis
  show "I (core sm) \<Longrightarrow> I (core (sm\<lparr>eap := Some e', eap_if := i'\<rparr>))" for sm :: "'e eapol_sm" and e' i'
    by (simp add: core_def)
qed

context eapol_invariant
begin

lemma timers_tick: "I (core (sm :: 'e eapol_sm)) \<Longrightarrow> I (core (eapol_port_timers_tick env sm))"
proof -
  assume I: "I (core sm)"
  let ?s = "upd_eap_if (\<lambda>i. i\<lparr>retransWhile := tick (retransWhile i)\<rparr>) (sm\<lparr>aWhile := tick (aWhile sm),
    quietWhile := tick (quietWhile sm), reAuthWhen := tick (reAuthWhen sm)\<rparr>)"
  have "I (core ?s)" using I by (simp add: core_def upd_eap_if_def)
  then have "I (core (eapol_sm_step_run env ?s))" by (rule keeps.run [OF TrueI])
  then show ?thesis by (simp add: eapol_port_timers_tick_def Let_def core_def emit_def)
qed

lemma init: "I (core (sm :: 'e eapol_sm)) \<Longrightarrow> I (core (eapol_auth_initialize env sm))"
proof -
  have c: "core (s\<lparr>initializing := b, initialize := c\<rparr>) = core s" "core (s\<lparr>initialize := c\<rparr>) = core s"
    "core (s\<lparr>initializing := b\<rparr>) = core s" "core (emit TickTimeout s) = core s" "core (emit CancelTick s) = core s"
    for s :: "'e eapol_sm" and b c by (simp_all add: core_def emit_def)
  show "I (core sm) \<Longrightarrow> ?thesis"
    unfolding eapol_auth_initialize_def Let_def c by (intro keeps.run [OF TrueI]) (simp add: c keeps.run [OF TrueI])
qed

lemma set_conf:
  assumes "I (core (sm :: 'e eapol_sm))" and "eapol_auth_set_conf sm param val = Some (r, sm')"
  shows "I (core sm')"
proof -
  have "core sm' = core sm"
    using assms(2) by (auto simp: eapol_auth_set_conf_def set_flag_def eapol_auth_step_def emit_def core_def split: if_splits)
  with assms(1) show ?thesis by simp
qed

end

subsection \<open>The port\<close>

definition told :: "bool option \<Rightarrow> PortState" where
  "told l = (case l of None \<Rightarrow> PortState_0 | Some b \<Rightarrow> if b then Authorized else Unauthorized)"

definition port_ok :: "auth_pae \<times> PortState \<times> u32 \<times> u32 \<times> bool option \<Rightarrow> bool" where
  "port_ok c = (case c of (pae, status, _, _, l) \<Rightarrow>
     status = told l \<and>
     (pae \<in> {AUTH_PAE_AUTHENTICATED, AUTH_PAE_FORCE_AUTH} \<longrightarrow> status = Authorized) \<and>
     (pae \<in> {AUTH_PAE_DISCONNECTED, AUTH_PAE_HELD, AUTH_PAE_FORCE_UNAUTH} \<longrightarrow> status = Unauthorized))"

text \<open>
  The connection attempts: \<open>k\<close> is the number of times a cached key was used, which can leave one attempt too many on the counter.
\<close>

definition retry_ok :: "nat \<Rightarrow> auth_pae \<times> PortState \<times> u32 \<times> u32 \<times> bool option \<Rightarrow> bool" where
  "retry_ok k c = (k < 2 ^ 31 \<longrightarrow> (case c of (pae, _, n, mx, _) \<Rightarrow> mx = 2 \<and>
     unat n \<le> 2 + k + (if pae \<in> {AUTH_PAE_CONNECTING, AUTH_PAE_INITIALIZE, AUTH_PAE_FORCE_AUTH, AUTH_PAE_FORCE_UNAUTH} then 1 else 0)))"

lemma port_ok_core: "port_ok (core sm) \<longleftrightarrow>
    authPortStatus sm = told (last_port (outs sm)) \<and>
    (auth_pae_state sm \<in> {AUTH_PAE_AUTHENTICATED, AUTH_PAE_FORCE_AUTH} \<longrightarrow> authPortStatus sm = Authorized) \<and>
    (auth_pae_state sm \<in> {AUTH_PAE_DISCONNECTED, AUTH_PAE_HELD, AUTH_PAE_FORCE_UNAUTH} \<longrightarrow>
       authPortStatus sm = Unauthorized)"
  by (simp add: port_ok_def core_def)

text \<open>
  A step of the authenticator PAE chooses the state to enter and enters it: \<open>pae_next\<close> is the
  transition table of the standard, \<open>pae_enter\<close> the actions of the states.
\<close>

definition pae_enter :: "auth_pae \<Rightarrow> bool \<Rightarrow> 'e eapol_sm \<Rightarrow> 'e eapol_sm" where
  "pae_enter st = (case st of
     AUTH_PAE_INITIALIZE \<Rightarrow> sm_AUTH_PAE_INITIALIZE_Enter
   | AUTH_PAE_DISCONNECTED \<Rightarrow> sm_AUTH_PAE_DISCONNECTED_Enter
   | AUTH_PAE_RESTART \<Rightarrow> sm_AUTH_PAE_RESTART_Enter
   | AUTH_PAE_CONNECTING \<Rightarrow> sm_AUTH_PAE_CONNECTING_Enter
   | AUTH_PAE_HELD \<Rightarrow> sm_AUTH_PAE_HELD_Enter
   | AUTH_PAE_AUTHENTICATED \<Rightarrow> sm_AUTH_PAE_AUTHENTICATED_Enter
   | AUTH_PAE_AUTHENTICATING \<Rightarrow> sm_AUTH_PAE_AUTHENTICATING_Enter
   | AUTH_PAE_ABORTING \<Rightarrow> sm_AUTH_PAE_ABORTING_Enter
   | AUTH_PAE_FORCE_AUTH \<Rightarrow> sm_AUTH_PAE_FORCE_AUTH_Enter
   | AUTH_PAE_FORCE_UNAUTH \<Rightarrow> sm_AUTH_PAE_FORCE_UNAUTH_Enter)"

definition pae_local :: "'e eapol_sm \<Rightarrow> auth_pae option" where
  "pae_local sm = (case auth_pae_state sm of
     AUTH_PAE_INITIALIZE \<Rightarrow> Some AUTH_PAE_DISCONNECTED
   | AUTH_PAE_DISCONNECTED \<Rightarrow> Some AUTH_PAE_RESTART
   | AUTH_PAE_RESTART \<Rightarrow> if \<not> eapRestart (eap_if sm) then Some AUTH_PAE_CONNECTING else None
   | AUTH_PAE_HELD \<Rightarrow> if quietWhile sm = 0 then Some AUTH_PAE_RESTART else None
   | AUTH_PAE_CONNECTING \<Rightarrow>
       if eapolLogoff sm \<or> reAuthMax sm < reAuthCount sm then Some AUTH_PAE_DISCONNECTED
       else if eapReq (eap_if sm) \<or> eapSuccess (eap_if sm) \<or> eapFail (eap_if sm)
       then Some AUTH_PAE_AUTHENTICATING else None
   | AUTH_PAE_AUTHENTICATED \<Rightarrow>
       if eapolStart sm \<or> reAuthenticate sm then Some AUTH_PAE_RESTART
       else if eapolLogoff sm \<or> \<not> portValid sm then Some AUTH_PAE_DISCONNECTED else None
   | AUTH_PAE_AUTHENTICATING \<Rightarrow>
       if authSuccess sm \<and> portValid sm then Some AUTH_PAE_AUTHENTICATED
       else if authFail sm \<or> (keyDone sm \<and> \<not> portValid sm) then Some AUTH_PAE_HELD
       else if eapolStart sm \<or> eapolLogoff sm \<or> authTimeout sm then Some AUTH_PAE_ABORTING else None
   | AUTH_PAE_ABORTING \<Rightarrow>
       if authAbort sm then None
       else if eapolLogoff sm then Some AUTH_PAE_DISCONNECTED else Some AUTH_PAE_RESTART
   | AUTH_PAE_FORCE_AUTH \<Rightarrow> if eapolStart sm then Some AUTH_PAE_FORCE_AUTH else None
   | AUTH_PAE_FORCE_UNAUTH \<Rightarrow> if eapolStart sm then Some AUTH_PAE_FORCE_UNAUTH else None)"

definition pae_global :: "'e eapol_sm \<Rightarrow> auth_pae option" where
  "pae_global sm =
     (if portControl sm = Auto \<and> portMode sm \<noteq> Auto \<or> initialize sm \<or> \<not> portEnabled (eap_if sm)
      then Some AUTH_PAE_INITIALIZE
      else if portMode sm = portControl sm then None
      else if portControl sm = ForceAuthorized then Some AUTH_PAE_FORCE_AUTH
      else if portControl sm = ForceUnauthorized then Some AUTH_PAE_FORCE_UNAUTH else None)"

lemma sm_AUTH_PAE_Step_eq:
  "sm_AUTH_PAE_Step sm = (case pae_global sm of Some st \<Rightarrow> pae_enter st True sm
     | None \<Rightarrow> (case pae_local sm of Some st \<Rightarrow> pae_enter st False sm | None \<Rightarrow> sm))"
proof (cases "pae_global sm")
  case None
  then have g: "\<not> ((portControl sm = Auto \<and> portMode sm \<noteq> portControl sm) \<or> initialize sm \<or> \<not> portEnabled (eap_if sm))"
    "\<not> (portControl sm = ForceAuthorized \<and> portMode sm \<noteq> portControl sm \<and>
       \<not> (initialize sm \<or> \<not> portEnabled (eap_if sm)))"
    "\<not> (portControl sm = ForceUnauthorized \<and> portMode sm \<noteq> portControl sm \<and>
       \<not> (initialize sm \<or> \<not> portEnabled (eap_if sm)))"
    by (auto simp: pae_global_def split: if_splits)
  have "sm_AUTH_PAE_Step sm = (case pae_local sm of Some st \<Rightarrow> pae_enter st False sm | None \<Rightarrow> sm)"
    unfolding sm_AUTH_PAE_Step_def if_not_P [OF g(1)] if_not_P [OF g(2)] if_not_P [OF g(3)] pae_local_def
    by (cases "auth_pae_state sm") (auto simp: pae_enter_def)
  with None show ?thesis by simp
next
  case (Some st)
  let ?c1 = "(portControl sm = Auto \<and> portMode sm \<noteq> portControl sm) \<or> initialize sm \<or> \<not> portEnabled (eap_if sm)"
  let ?c2 = "portControl sm = ForceAuthorized \<and> portMode sm \<noteq> portControl sm \<and>
       \<not> (initialize sm \<or> \<not> portEnabled (eap_if sm))"
  let ?c3 = "portControl sm = ForceUnauthorized \<and> portMode sm \<noteq> portControl sm \<and>
       \<not> (initialize sm \<or> \<not> portEnabled (eap_if sm))"
  consider ?c1 "st = AUTH_PAE_INITIALIZE" | "\<not> ?c1" ?c2 "st = AUTH_PAE_FORCE_AUTH"
    | "\<not> ?c1" "\<not> ?c2" ?c3 "st = AUTH_PAE_FORCE_UNAUTH"
    using Some by (fastforce simp: pae_global_def split: if_splits)
  then have "sm_AUTH_PAE_Step sm = pae_enter st True sm"
  proof cases
    case 1
    then show ?thesis unfolding sm_AUTH_PAE_Step_def if_P [OF 1(1)] by (simp add: pae_enter_def)
  next
    case 2
    then show ?thesis
      unfolding sm_AUTH_PAE_Step_def if_not_P [OF 2(1)] if_P [OF 2(2)] by (simp add: pae_enter_def)
  next
    case 3
    then show ?thesis
      unfolding sm_AUTH_PAE_Step_def if_not_P [OF 3(1)] if_not_P [OF 3(2)] if_P [OF 3(3)]
      by (simp add: pae_enter_def)
  qed
  with Some show ?thesis by simp
qed

lemma core_pae_enter:
  "core (pae_enter st g sm) = (st,
     if st \<in> {AUTH_PAE_AUTHENTICATED, AUTH_PAE_FORCE_AUTH} then Authorized
     else if st \<in> {AUTH_PAE_DISCONNECTED, AUTH_PAE_HELD, AUTH_PAE_FORCE_UNAUTH} then Unauthorized
     else authPortStatus sm,
     if st \<in> {AUTH_PAE_DISCONNECTED, AUTH_PAE_AUTHENTICATED} then 0
     else if st = AUTH_PAE_CONNECTING then reAuthCount sm + 1 else reAuthCount sm,
     reAuthMax sm,
     if st \<in> {AUTH_PAE_AUTHENTICATED, AUTH_PAE_FORCE_AUTH} then Some True
     else if st \<in> {AUTH_PAE_DISCONNECTED, AUTH_PAE_HELD, AUTH_PAE_FORCE_UNAUTH} then Some False
     else last_port (outs sm))"
  by (cases st) (simp_all add: pae_enter_def core_AUTH_PAE_Enter)

lemma pae_local_from:
  "pae_local sm = Some AUTH_PAE_AUTHENTICATED \<Longrightarrow>
     auth_pae_state sm = AUTH_PAE_AUTHENTICATING \<and> authSuccess sm \<and> portValid sm"
  "pae_local sm = Some AUTH_PAE_FORCE_AUTH \<Longrightarrow> auth_pae_state sm = AUTH_PAE_FORCE_AUTH"
  "pae_local sm = Some AUTH_PAE_FORCE_UNAUTH \<Longrightarrow> auth_pae_state sm = AUTH_PAE_FORCE_UNAUTH"
  "pae_local sm = Some AUTH_PAE_CONNECTING \<Longrightarrow> auth_pae_state sm = AUTH_PAE_RESTART"
  "pae_local sm = Some AUTH_PAE_AUTHENTICATING \<Longrightarrow>
     auth_pae_state sm = AUTH_PAE_CONNECTING \<and> \<not> reAuthMax sm < reAuthCount sm"
  "pae_local sm = Some AUTH_PAE_HELD \<Longrightarrow> auth_pae_state sm = AUTH_PAE_AUTHENTICATING"
  "pae_local sm = Some AUTH_PAE_ABORTING \<Longrightarrow> auth_pae_state sm = AUTH_PAE_AUTHENTICATING"
  "pae_local sm = Some AUTH_PAE_RESTART \<Longrightarrow> auth_pae_state sm \<in> {AUTH_PAE_DISCONNECTED, AUTH_PAE_HELD,
     AUTH_PAE_AUTHENTICATED, AUTH_PAE_ABORTING}"
  by (cases "auth_pae_state sm"; simp add: pae_local_def split: if_splits)+

interpretation port: eapol_invariant port_ok "TYPE('e)"
proof
  fix sm :: "'e eapol_sm"
  assume P: "port_ok (core sm)"
  then have t: "authPortStatus sm = told (last_port (outs sm))" by (simp add: port_ok_core)
  have "port_ok (core (pae_enter st g sm))" for st g
    unfolding core_pae_enter port_ok_def by (cases st) (simp_all add: t, simp_all add: told_def)
  with P show "port_ok (core (sm_AUTH_PAE_Step sm))"
    by (simp add: sm_AUTH_PAE_Step_eq split: option.split)
qed

lemma unat_Suc_u32: "unat (n :: u32) < 2 ^ 32 - 1 \<Longrightarrow> unat (n + 1) = Suc (unat n)"
  using unat_add_lem [of n 1] by simp

lemma retry_ok_core: "retry_ok k (core sm) \<longleftrightarrow> (k < 2 ^ 31 \<longrightarrow> reAuthMax sm = 2 \<and> unat (reAuthCount sm) \<le> 2 + k
    + (if auth_pae_state sm \<in> {AUTH_PAE_CONNECTING, AUTH_PAE_INITIALIZE, AUTH_PAE_FORCE_AUTH, AUTH_PAE_FORCE_UNAUTH} then 1 else 0))"
  by (simp add: retry_ok_def core_def)

lemma retry_ok_enter:
  assumes "retry_ok k (core sm)" and "st = AUTH_PAE_CONNECTING \<Longrightarrow> auth_pae_state sm = AUTH_PAE_RESTART"
    and "k < 2 ^ 31 \<Longrightarrow> st \<in> {AUTH_PAE_RESTART, AUTH_PAE_HELD, AUTH_PAE_ABORTING, AUTH_PAE_AUTHENTICATING} \<Longrightarrow> unat (reAuthCount sm) \<le> 2 + k"
  shows "retry_ok k (core (pae_enter st g sm))"
proof (cases "k < 2 ^ 31")
  case True
  have m: "reAuthMax sm = 2" and n: "unat (reAuthCount sm) \<le> 3 + k"
    and r: "auth_pae_state sm = AUTH_PAE_RESTART \<Longrightarrow> unat (reAuthCount sm) \<le> 2 + k"
    using assms(1) True by (auto simp: retry_ok_core split: if_splits)
  have "unat (reAuthCount sm + 1) = Suc (unat (reAuthCount sm))" using n True by (intro unat_Suc_u32) simp
  then show ?thesis
    using m n r True assms(2) assms(3)[OF True] by (cases st) (simp_all add: core_pae_enter retry_ok_def)
qed (simp add: retry_ok_def)

interpretation retry: eapol_invariant "retry_ok k" "TYPE('e)"
proof
  fix sm :: "'e eapol_sm"
  assume R: "retry_ok k (core sm)"
  have "retry_ok k (core (pae_enter st True sm))" if "pae_global sm = Some st" for st
    by (rule retry_ok_enter [OF R]) (use that in \<open>auto simp: pae_global_def split: if_splits\<close>)
  moreover have "retry_ok k (core (pae_enter st False sm))" if st: "pae_local sm = Some st" for st
  proof (rule retry_ok_enter [OF R])
    show "st = AUTH_PAE_CONNECTING \<Longrightarrow> auth_pae_state sm = AUTH_PAE_RESTART" using pae_local_from(4) st by blast
    assume k: "k < 2 ^ 31" and "st \<in> {AUTH_PAE_RESTART, AUTH_PAE_HELD, AUTH_PAE_ABORTING, AUTH_PAE_AUTHENTICATING}"
    then show "unat (reAuthCount sm) \<le> 2 + k"
      using pae_local_from(5-8) [of sm] st R by (auto simp: retry_ok_core word_less_nat_alt)
  qed
  ultimately show "retry_ok k (core (sm_AUTH_PAE_Step sm))"
    using R by (simp add: sm_AUTH_PAE_Step_eq split: option.split)
qed

subsection \<open>Reachable states\<close>

text \<open>
  The states an authenticator can get into: it is allocated, its machines run on the event loop's
  timeouts, it is configured from outside, and the rest of the access point writes to its
  structure. Those writes (\<open>ap/ieee802_1x.c\<close>, \<open>ap/wpa_auth_glue.c\<close>) leave the PAE state, the port
  and the retry counter alone, except that a cached key puts the PAE into the state
  \<open>AUTHENTICATING\<close> with success noted. The EAP server is told of the cached key too
  (\<open>eap_sm_notify_cached\<close>); its state is a parameter.
\<close>

definition pmksa_shortcut :: "'e eapol_sm \<Rightarrow> 'e eapol_sm" where
  "pmksa_shortcut sm = upd_eap_if (\<lambda>i. i\<lparr>eapKeyAvailable := True\<rparr>) (sm\<lparr>keyRun := True, auth_pae_state := AUTH_PAE_AUTHENTICATING,
     be_auth_state := BE_AUTH_SUCCESS, authSuccess := True, authFail := False\<rparr>)"

inductive eapol_reach :: "'e eapol_env \<Rightarrow> 'e eapol_sm \<Rightarrow> bool" for env where
  reach_alloc: "eapol_auth_alloc env ei fl a = (a', Some sm) \<Longrightarrow> eapol_reach env sm"
| reach_tick: "eapol_reach env sm \<Longrightarrow> eapol_reach env (eapol_port_timers_tick env sm)"
| reach_run: "eapol_reach env sm \<Longrightarrow> eapol_reach env (eapol_sm_step_run env sm)"
| reach_reauth: "eapol_reach env sm \<Longrightarrow> eapol_reach env (eapol_auth_reauthenticate sm)"
| reach_conf: "eapol_reach env sm \<Longrightarrow> eapol_auth_set_conf sm param val = Some (r, sm') \<Longrightarrow> eapol_reach env sm'"
| reach_ap: "eapol_reach env sm \<Longrightarrow> core sm' = core sm \<Longrightarrow> eapol_reach env sm'"
| reach_pmksa: "eapol_reach env sm \<Longrightarrow> eapol_reach env (pmksa_shortcut sm)"

text \<open>The same, with the number of times a cached key was used.\<close>

inductive reach_cached :: "'e eapol_env \<Rightarrow> nat \<Rightarrow> 'e eapol_sm \<Rightarrow> bool" for env where
  cached_alloc: "eapol_auth_alloc env ei fl a = (a', Some sm) \<Longrightarrow> reach_cached env 0 sm"
| cached_tick: "reach_cached env k sm \<Longrightarrow> reach_cached env k (eapol_port_timers_tick env sm)"
| cached_run: "reach_cached env k sm \<Longrightarrow> reach_cached env k (eapol_sm_step_run env sm)"
| cached_reauth: "reach_cached env k sm \<Longrightarrow> reach_cached env k (eapol_auth_reauthenticate sm)"
| cached_conf: "reach_cached env k sm \<Longrightarrow> eapol_auth_set_conf sm param val = Some (r, sm') \<Longrightarrow> reach_cached env k sm'"
| cached_ap: "reach_cached env k sm \<Longrightarrow> core sm' = core sm \<Longrightarrow> reach_cached env k sm'"
| cached_pmksa: "reach_cached env k sm \<Longrightarrow> reach_cached env (Suc k) (pmksa_shortcut sm)"

lemma reach_has_count: "eapol_reach env sm \<longleftrightarrow> (\<exists>k. reach_cached env k sm)"
proof
  show "eapol_reach env sm \<Longrightarrow> \<exists>k. reach_cached env k sm"
    by (induction rule: eapol_reach.induct) (blast intro: reach_cached.intros)+
  have "eapol_reach env sm" if "reach_cached env k sm" for k
    using that by (induction rule: reach_cached.induct) (blast intro: eapol_reach.intros)+
  then show "\<exists>k. reach_cached env k sm \<Longrightarrow> eapol_reach env sm" by blast
qed

lemma core_alloc_sm:
  "core ((alloc_sm fl a)\<lparr>eap := e, eap_if := i\<rparr>) = (AUTH_PAE_INITIALIZE, PortState_0, 0, 2, None)"
  by (simp add: core_def alloc_sm_def zero_sm_def)

lemma alloc_cases:
  assumes "eapol_auth_alloc env ei fl a = (a', Some sm)"
  obtains e i where "ei = Some (e, i)" "sm = eapol_auth_initialize env ((alloc_sm fl a)\<lparr>eap := Some e, eap_if := i\<rparr>)"
  using assms by (auto simp: eapol_auth_alloc_def Let_def split: option.splits prod.splits)

lemma alloc_port_ok:
  fixes env :: "'e eapol_env"
  assumes "eapol_auth_alloc env ei fl a = (a', Some sm)"
  shows "port_ok (core sm)"
  using assms
proof (rule alloc_cases)
  fix e :: 'e and i
  have "port_ok (core ((alloc_sm fl a)\<lparr>eap := Some e, eap_if := i\<rparr>))"
    unfolding core_alloc_sm by (simp add: port_ok_def told_def)
  moreover assume "sm = eapol_auth_initialize env ((alloc_sm fl a)\<lparr>eap := Some e, eap_if := i\<rparr>)"
  ultimately show ?thesis using port.init by blast
qed

lemma core_reauthenticate: "core (eapol_auth_reauthenticate sm) = core sm"
  by (simp add: eapol_auth_reauthenticate_def eapol_auth_step_def emit_def core_def)

lemma reach_port_ok: "eapol_reach env sm \<Longrightarrow> port_ok (core sm)"
proof (induction rule: eapol_reach.induct)
  case (reach_alloc ei fl a a' sm)
  then show ?case by (rule alloc_port_ok)
next
  case (reach_tick sm)
  then show ?case by (simp add: port.timers_tick)
next
  case (reach_run sm)
  then show ?case by (simp add: port.keeps.run)
next
  case (reach_reauth sm)
  then show ?case by (simp add: core_reauthenticate)
next
  case (reach_conf sm param val r sm')
  then show ?case by (blast intro: port.set_conf)
next
  case (reach_pmksa sm)
  then show ?case by (simp add: pmksa_shortcut_def port_ok_core upd_eap_if_def)
qed simp

subsection \<open>What opens the port\<close>

lemma authPort_machines: "authPortStatus (machines_step env sm) = authPortStatus (sm_AUTH_PAE_Step sm)"
  using front_machines [of env sm] by (simp add: front_def core_def)

lemma authPortStatus_pae_enter:
  "authPortStatus (pae_enter st g sm) = (if st \<in> {AUTH_PAE_AUTHENTICATED, AUTH_PAE_FORCE_AUTH} then Authorized
     else if st \<in> {AUTH_PAE_DISCONNECTED, AUTH_PAE_HELD, AUTH_PAE_FORCE_UNAUTH} then Unauthorized
     else authPortStatus sm)"
  using core_pae_enter [of st g sm] by (simp add: core_def)

lemma port_opened:
  assumes "port_ok (core sm)" "authPortStatus sm \<noteq> Authorized" "authPortStatus (machines_step env sm) = Authorized"
  shows "portEnabled (eap_if sm) \<and> \<not> initialize sm \<and> (portControl sm = ForceAuthorized \<or>
    auth_pae_state sm = AUTH_PAE_AUTHENTICATING \<and> authSuccess sm \<and> portValid sm)"
proof (cases "pae_global sm")
  case (Some st)
  with assms have "st = AUTH_PAE_FORCE_AUTH"
    by (auto simp: authPort_machines sm_AUTH_PAE_Step_eq authPortStatus_pae_enter pae_global_def split: if_splits)
  with Some show ?thesis by (auto simp: pae_global_def split: if_splits)
next
  case None
  with assms obtain st where st: "pae_local sm = Some st" "st = AUTH_PAE_AUTHENTICATED \<or> st = AUTH_PAE_FORCE_AUTH"
    by (auto simp: authPort_machines sm_AUTH_PAE_Step_eq authPortStatus_pae_enter split: option.splits if_splits)
  have "st \<noteq> AUTH_PAE_FORCE_AUTH" using pae_local_from(2) st assms(1,2) by (auto simp: port_ok_core)
  with st have "auth_pae_state sm = AUTH_PAE_AUTHENTICATING" "authSuccess sm" "portValid sm"
    using pae_local_from(1) by auto
  with None show ?thesis by (auto simp: pae_global_def split: if_splits)
qed

text \<open>The origin of \<open>authSuccess\<close>: only the backend machine sets it, when the EAP server reports success.\<close>

definition success_view :: "'e eapol_sm \<Rightarrow> bool \<times> bool \<times> PortTypes \<times> bool" where
  "success_view sm = (authSuccess sm, eapSuccess (eap_if sm), portControl sm, initialize sm)"

lemma success_view_pae: "success_view (pae_enter st g sm) = (authSuccess sm \<and> st \<noteq> AUTH_PAE_AUTHENTICATING,
    eapSuccess (eap_if sm), portControl sm, initialize sm)"
  by (cases st) (simp_all add: pae_enter_def sm_AUTH_PAE_INITIALIZE_Enter_def sm_AUTH_PAE_DISCONNECTED_Enter_def
      sm_AUTH_PAE_RESTART_Enter_def sm_AUTH_PAE_CONNECTING_Enter_def sm_AUTH_PAE_HELD_Enter_def
      sm_AUTH_PAE_AUTHENTICATED_Enter_def sm_AUTH_PAE_AUTHENTICATING_Enter_def sm_AUTH_PAE_ABORTING_Enter_def
      sm_AUTH_PAE_FORCE_AUTH_Enter_def sm_AUTH_PAE_FORCE_UNAUTH_Enter_def eapol_auth_tx_canned_eap_def
      eapol_helpers success_view_def Let_def)

lemma authSuccess_helpers [simp]:
  "authSuccess (bump c sm) = authSuccess sm" "authSuccess (emit x sm) = authSuccess sm"
  "authSuccess (upd_eap_if f sm) = authSuccess sm" "authSuccess (be_entry g st1 sm) = authSuccess sm"
  "authSuccess (reauth_entry g st2 sm) = authSuccess sm" "authSuccess (key_tx_entry g st3 sm) = authSuccess sm"
  "authSuccess (key_rx_entry g st4 sm) = authSuccess sm" "authSuccess (ctrl_dir_entry g st5 sm) = authSuccess sm"
  by (simp_all add: eapol_helpers)

lemma authSuccess_tx_req [simp]: "authSuccess (eapol_auth_tx_req sm) = authSuccess sm"
  by (simp add: eapol_auth_tx_req_def Let_def split: option.split)

lemma eapSuccess_ignore: "eapSuccess (eap_if (sm_BE_AUTH_IGNORE_Enter g sm)) = eapSuccess (eap_if sm)"
  "authSuccess (sm_BE_AUTH_IGNORE_Enter g sm) = authSuccess sm"
  by (simp_all add: sm_BE_AUTH_IGNORE_Enter_def be_entry_def upd_eap_if_def)

lemma authSuccess_response:
  assumes "authSuccess (be_response_step sm)" "\<not> authSuccess sm"
  shows "eapSuccess (eap_if sm)"
  using assms
  by (simp add: be_response_step_def Let_def sm_BE_AUTH_REQUEST_Enter_def sm_BE_AUTH_FAIL_Enter_def
      sm_BE_AUTH_TIMEOUT_Enter_def eapSuccess_ignore split: if_splits)

lemma authSuccess_BE:
  assumes "authSuccess (sm_BE_AUTH_Step sm)" "\<not> authSuccess sm"
  shows "eapSuccess (eap_if sm) \<and> portControl sm = Auto \<and> \<not> initialize sm"
proof (cases "portControl sm \<noteq> Auto \<or> initialize sm \<or> authAbort sm")
  case True
  with assms show ?thesis by (simp add: sm_BE_AUTH_Step_def sm_BE_AUTH_INITIALIZE_Enter_def)
next
  case False
  have "eapSuccess (eap_if sm)"
    using assms False authSuccess_response [of sm]
    by (cases "be_auth_state sm")
       (simp_all add: sm_BE_AUTH_Step_def sm_BE_AUTH_REQUEST_Enter_def sm_BE_AUTH_RESPONSE_Enter_def
         sm_BE_AUTH_FAIL_Enter_def sm_BE_AUTH_TIMEOUT_Enter_def sm_BE_AUTH_IDLE_Enter_def Let_def split: if_splits)
  with False show ?thesis by simp
qed

lemma authSuccess_others:
  "authSuccess (sm_REAUTH_TIMER_Step sm) = authSuccess sm" "authSuccess (sm_AUTH_KEY_TX_Step sm) = authSuccess sm"
  "authSuccess (sm_KEY_RX_Step sm) = authSuccess sm" "authSuccess (sm_CTRL_DIR_Step sm) = authSuccess sm"
  by (simp_all add: sm_REAUTH_TIMER_Step_def sm_REAUTH_TIMER_INITIALIZE_Enter_def
      sm_REAUTH_TIMER_REAUTHENTICATE_Enter_def sm_AUTH_KEY_TX_Step_def sm_AUTH_KEY_TX_NO_KEY_TRANSMIT_Enter_def
      sm_AUTH_KEY_TX_KEY_TRANSMIT_Enter_def sm_KEY_RX_Step_def sm_KEY_RX_NO_KEY_RECEIVE_Enter_def
      sm_KEY_RX_KEY_RECEIVE_Enter_def sm_CTRL_DIR_Step_def sm_CTRL_DIR_FORCE_BOTH_Enter_def
      sm_CTRL_DIR_IN_OR_BOTH_Enter_def Let_def
      split: reauth_timer.split auth_key_tx.split key_rx.split ctrl_dir.split)

lemma authSuccess_machines:
  assumes "authSuccess (machines_step env sm)" "\<not> authSuccess sm"
  shows "eapSuccess (eap_if sm) \<and> portControl sm = Auto \<and> \<not> initialize sm"
proof -
  let ?p = "sm_AUTH_PAE_Step sm"
  have "success_view ?p = (False, eapSuccess (eap_if sm), portControl sm, initialize sm)"
    using assms(2) by (simp add: sm_AUTH_PAE_Step_eq success_view_pae split: option.split) (simp add: success_view_def)
  then have p: "\<not> authSuccess ?p" "eapSuccess (eap_if ?p) = eapSuccess (eap_if sm)"
    "portControl ?p = portControl sm" "initialize ?p = initialize sm"
    by (simp_all add: success_view_def)
  from assms(1) have "authSuccess (if_alive env sm_BE_AUTH_Step ?p)"
    by (simp add: machines_step_def if_alive_def [of env sm_CTRL_DIR_Step] if_alive_def [of env sm_KEY_RX_Step]
        if_alive_def [of env sm_AUTH_KEY_TX_Step] if_alive_def [of env sm_REAUTH_TIMER_Step]
        authSuccess_others split: if_splits)
  with p have "authSuccess (sm_BE_AUTH_Step ?p)" by (simp add: if_alive_def split: if_splits)
  from authSuccess_BE [OF this p(1)] p show ?thesis by simp
qed

subsection \<open>Held and forced ports\<close>

definition keeps_port :: "'e eapol_env \<Rightarrow> bool" where
  "keeps_port env \<longleftrightarrow> (\<forall>e i. portEnabled (snd (snd (eap_server_sm_step env e i))) = portEnabled i)"

definition held :: "int \<Rightarrow> 'e eapol_sm \<Rightarrow> bool" where
  "held q sm \<longleftrightarrow> auth_pae_state sm = AUTH_PAE_HELD \<and> authPortStatus sm = Unauthorized \<and> quietWhile sm = q \<and> 0 < q \<and>
     portControl sm = Auto \<and> portMode sm = Auto \<and> \<not> initialize sm \<and> portEnabled (eap_if sm)"

definition shut :: "'e eapol_sm \<Rightarrow> bool" where
  "shut sm \<longleftrightarrow> auth_pae_state sm = AUTH_PAE_FORCE_UNAUTH \<and> authPortStatus sm = Unauthorized \<and>
     portControl sm = ForceUnauthorized \<and> portMode sm = ForceUnauthorized \<and> \<not> initialize sm \<and> portEnabled (eap_if sm)"

lemma keeps_port_step: "keeps_port env \<Longrightarrow> eap_server_sm_step env e i = (mr, e', i') \<Longrightarrow> portEnabled i' = portEnabled i"
  unfolding keeps_port_def by (metis snd_conv)

lemma held_front: "held q sm \<Longrightarrow> front sm' = front sm \<Longrightarrow> held q sm'"
  by (simp add: held_def front_def core_def)

lemma shut_front: "shut sm \<Longrightarrow> front sm' = front sm \<Longrightarrow> shut sm'"
  by (simp add: shut_def front_def core_def)

lemma shut_enter:
  assumes "portControl sm = ForceUnauthorized" "\<not> initialize sm" "portEnabled (eap_if sm)"
  shows "shut (sm_AUTH_PAE_FORCE_UNAUTH_Enter g sm)"
  using assms by (simp add: shut_def sm_AUTH_PAE_FORCE_UNAUTH_Enter_def eapol_auth_tx_canned_eap_def eapol_helpers Let_def)

interpretation held: eapol_keeps "held q" keeps_port
proof
  fix sm :: "'e eapol_sm"
  assume h: "held q sm"
  then have "pae_global sm = None" "pae_local sm = None"
    by (simp_all add: held_def pae_global_def pae_local_def)
  with h show "held q (sm_AUTH_PAE_Step sm)" by (simp add: sm_AUTH_PAE_Step_eq)
next
  show "held q sm \<Longrightarrow> front sm' = front sm \<Longrightarrow> held q sm'" for sm sm' :: "'e eapol_sm" by (rule held_front)
  show "keeps_port env \<Longrightarrow> held q sm \<Longrightarrow> eap_server_sm_step env e (eap_if sm) = (mr, e', i') \<Longrightarrow>
      held q (sm\<lparr>eap := Some e', eap_if := i'\<rparr>)" for env and sm :: "'e eapol_sm" and e mr e' i'
    using keeps_port_step [of env e "eap_if sm"] by (simp add: held_def)
qed

interpretation shut: eapol_keeps shut keeps_port
proof
  fix sm :: "'e eapol_sm"
  assume h: "shut sm"
  then have "pae_global sm = None" "pae_local sm = (if eapolStart sm then Some AUTH_PAE_FORCE_UNAUTH else None)"
    by (simp_all add: shut_def pae_global_def pae_local_def)
  with h show "shut (sm_AUTH_PAE_Step sm)"
    using shut_enter [of sm False] by (simp add: sm_AUTH_PAE_Step_eq pae_enter_def) (simp add: shut_def)
next
  show "shut sm \<Longrightarrow> front sm' = front sm \<Longrightarrow> shut sm'" for sm sm' :: "'e eapol_sm" by (rule shut_front)
  show "keeps_port env \<Longrightarrow> shut sm \<Longrightarrow> eap_server_sm_step env e (eap_if sm) = (mr, e', i') \<Longrightarrow>
      shut (sm\<lparr>eap := Some e', eap_if := i'\<rparr>)" for env and sm :: "'e eapol_sm" and e mr e' i'
    using keeps_port_step [of env e "eap_if sm"] by (simp add: shut_def)
qed

text \<open>What a supplicant, the clock and a request for reauthentication can do to a port.\<close>

datatype sup_event = Tick | Frame bool bool bool | Reauth

fun sup_step :: "'e eapol_env \<Rightarrow> sup_event \<Rightarrow> 'e eapol_sm \<Rightarrow> 'e eapol_sm" where
  "sup_step env Tick sm = eapol_port_timers_tick env sm"
| "sup_step env (Frame start logoff resp) sm =
     eapol_sm_step_run env (sm\<lparr>eapolStart := start, eapolLogoff := logoff, eapolEap := resp\<rparr>)"
| "sup_step env Reauth sm = eapol_sm_step_run env (eapol_auth_reauthenticate sm)"

fun sup_run :: "'e eapol_env \<Rightarrow> sup_event list \<Rightarrow> 'e eapol_sm \<Rightarrow> 'e eapol_sm" where
  "sup_run env [] sm = sm"
| "sup_run env (x # xs) sm = sup_run env xs (sup_step env x sm)"

lemma held_tick:
  assumes "keeps_port env" "held q sm" "1 < q"
  shows "held (q - 1) (eapol_port_timers_tick env sm)"
proof -
  let ?s = "upd_eap_if (\<lambda>i. i\<lparr>retransWhile := tick (retransWhile i)\<rparr>) (sm\<lparr>aWhile := tick (aWhile sm),
    quietWhile := tick (quietWhile sm), reAuthWhen := tick (reAuthWhen sm)\<rparr>)"
  have "held (q - 1) ?s" using assms(2,3) by (simp add: held_def upd_eap_if_def tick_def)
  then have "held (q - 1) (eapol_sm_step_run env ?s)" by (rule held.run [OF assms(1)])
  then show ?thesis by (simp add: eapol_port_timers_tick_def Let_def held_def emit_def)
qed

lemma held_frame:
  assumes "keeps_port env" "held q sm"
  shows "held q (eapol_sm_step_run env (sm\<lparr>eapolStart := a, eapolLogoff := b, eapolEap := c\<rparr>))"
  by (rule held.run [OF assms(1)]) (use assms(2) in \<open>simp add: held_def\<close>)

lemma held_reauth:
  assumes "keeps_port env" "held q sm"
  shows "held q (eapol_sm_step_run env (eapol_auth_reauthenticate sm))"
  by (rule held.run [OF assms(1)]) (use assms(2) in \<open>simp add: held_def eapol_auth_reauthenticate_def eapol_auth_step_def emit_def\<close>)

lemma held_run_char:
  assumes "keeps_port env" "held q sm" "int (count_list xs Tick) < q"
  shows "held (q - int (count_list xs Tick)) (sup_run env xs sm)"
  using assms(2,3)
proof (induction xs arbitrary: sm q)
  case (Cons x xs)
  show ?case
  proof (cases x)
    case Tick
    with Cons held_tick [OF assms(1), of q sm] Cons.IH [of "q - 1" "eapol_port_timers_tick env sm"] show ?thesis
      by (simp add: algebra_simps)
  next
    case (Frame a b c)
    with Cons held_frame [OF assms(1), where a = a and b = b and c = c] show ?thesis by simp
  next
    case Reauth
    with Cons held_reauth [OF assms(1)] show ?thesis by simp
  qed
qed simp

lemma shut_run:
  assumes "keeps_port env" "portControl sm = ForceUnauthorized" "portMode sm \<noteq> ForceUnauthorized \<or> shut sm"
    "\<not> initialize sm" "portEnabled (eap_if sm)"
  shows "shut (eapol_sm_step_run env sm)"
proof (cases "shut sm")
  case True
  then show ?thesis by (rule shut.run [OF assms(1)])
next
  case False
  with assms have "pae_global sm = Some AUTH_PAE_FORCE_UNAUTH" by (simp add: pae_global_def)
  then have "shut (sm_AUTH_PAE_Step sm)"
    using shut_enter [OF assms(2,4,5)] by (simp add: sm_AUTH_PAE_Step_eq pae_enter_def)
  then show ?thesis by (rule shut.run_after_step [OF assms(1)])
qed

lemma shut_sup_step:
  assumes "keeps_port env" "shut sm"
  shows "shut (sup_step env x sm)"
proof (cases x)
  case Tick
  let ?s = "upd_eap_if (\<lambda>i. i\<lparr>retransWhile := tick (retransWhile i)\<rparr>) (sm\<lparr>aWhile := tick (aWhile sm),
    quietWhile := tick (quietWhile sm), reAuthWhen := tick (reAuthWhen sm)\<rparr>)"
  have "shut ?s" using assms(2) by (simp add: shut_def upd_eap_if_def)
  then have "shut (eapol_sm_step_run env ?s)" by (rule shut.run [OF assms(1)])
  with Tick show ?thesis by (simp add: eapol_port_timers_tick_def Let_def shut_def emit_def)
next
  case (Frame a b c)
  have "shut (sm\<lparr>eapolStart := a, eapolLogoff := b, eapolEap := c\<rparr>)" using assms(2) by (simp add: shut_def)
  with Frame shut.run [OF assms(1)] show ?thesis by simp
next
  case Reauth
  have "shut (eapol_auth_reauthenticate sm)" using assms(2) by (simp add: shut_def eapol_auth_reauthenticate_def eapol_auth_step_def emit_def)
  with Reauth shut.run [OF assms(1)] show ?thesis by simp
qed

lemma shut_sup_run: "keeps_port env \<Longrightarrow> shut sm \<Longrightarrow> shut (sup_run env xs sm)"
  by (induction xs arbitrary: sm) (simp_all add: shut_sup_step)

text \<open>A disabled port stays in \<open>INITIALIZE\<close>.\<close>

interpretation disabled: eapol_keeps
  "\<lambda>sm. \<not> portEnabled (eap_if sm) \<and> core sm = (AUTH_PAE_INITIALIZE, p, n, mx, l)" keeps_port
proof
  fix sm :: "'e eapol_sm"
  assume d: "\<not> portEnabled (eap_if sm) \<and> core sm = (AUTH_PAE_INITIALIZE, p, n, mx, l)"
  then have "sm_AUTH_PAE_Step sm = sm_AUTH_PAE_INITIALIZE_Enter True sm" by (simp add: sm_AUTH_PAE_Step_def)
  moreover have "\<not> portEnabled (eap_if (sm_AUTH_PAE_INITIALIZE_Enter True sm))"
    using d by (simp add: sm_AUTH_PAE_INITIALIZE_Enter_def pae_entry_def)
  ultimately show "\<not> portEnabled (eap_if (sm_AUTH_PAE_Step sm)) \<and> core (sm_AUTH_PAE_Step sm) = (AUTH_PAE_INITIALIZE, p, n, mx, l)"
    using d by (simp add: core_AUTH_PAE_Enter) (simp add: core_def)
next
  show "\<not> portEnabled (eap_if sm) \<and> core sm = (AUTH_PAE_INITIALIZE, p, n, mx, l) \<Longrightarrow> front sm' = front sm \<Longrightarrow>
      \<not> portEnabled (eap_if sm') \<and> core sm' = (AUTH_PAE_INITIALIZE, p, n, mx, l)" for sm sm' :: "'e eapol_sm"
    by (simp add: front_def)
  show "keeps_port env \<Longrightarrow> \<not> portEnabled (eap_if sm) \<and> core sm = (AUTH_PAE_INITIALIZE, p, n, mx, l) \<Longrightarrow>
      eap_server_sm_step env e (eap_if sm) = (mr, e', i') \<Longrightarrow>
      \<not> portEnabled (eap_if (sm\<lparr>eap := Some e', eap_if := i'\<rparr>)) \<and>
      core (sm\<lparr>eap := Some e', eap_if := i'\<rparr>) = (AUTH_PAE_INITIALIZE, p, n, mx, l)"
    for env and sm :: "'e eapol_sm" and e mr e' i'
    using keeps_port_step [of env e "eap_if sm"] by (simp add: core_def)
qed

lemma initialize_disabled:
  assumes "keeps_port env" "\<not> portEnabled (eap_if sm)" "core sm = (AUTH_PAE_INITIALIZE, p, n, mx, l)"
  shows "core (eapol_auth_initialize env sm) = (AUTH_PAE_INITIALIZE, p, n, mx, l)"
proof -
  let ?P = "\<lambda>sm. \<not> portEnabled (eap_if sm) \<and> core sm = (AUTH_PAE_INITIALIZE, p, n, mx, l)"
  let ?s1 = "eapol_sm_step_run env (sm\<lparr>initializing := True, initialize := True\<rparr>)"
  have "?P (sm\<lparr>initializing := True, initialize := True\<rparr>)" using assms(2,3) by (simp add: core_def)
  then have "?P ?s1" by (rule disabled.run [OF assms(1)])
  then have "?P (?s1\<lparr>initialize := False\<rparr>)" by (simp add: core_def)
  then have "?P (eapol_sm_step_run env (?s1\<lparr>initialize := False\<rparr>))" by (rule disabled.run [OF assms(1)])
  then show ?thesis by (simp add: eapol_auth_initialize_def Let_def core_def emit_def)
qed

text \<open>Reachable states keep the bound of the connection attempts.\<close>

lemma reach_retry_ok: "reach_cached env k sm \<Longrightarrow> retry_ok k (core sm)"
proof (induction rule: reach_cached.induct)
  case (cached_alloc ei fl a a' sm)
  then show ?case
  proof (rule alloc_cases)
    fix e :: 'a and i
    have "retry_ok 0 (core ((alloc_sm fl a)\<lparr>eap := Some e, eap_if := i\<rparr>))" unfolding core_alloc_sm by (simp add: retry_ok_def)
    moreover assume "sm = eapol_auth_initialize env ((alloc_sm fl a)\<lparr>eap := Some e, eap_if := i\<rparr>)"
    ultimately show ?thesis using retry.init by blast
  qed
next
  case (cached_pmksa k sm)
  then show ?case by (cases "auth_pae_state sm") (auto simp: retry_ok_core pmksa_shortcut_def upd_eap_if_def)
next
  case (cached_conf k sm param val r sm')
  then show ?case by (blast intro: retry.set_conf)
qed (simp_all add: retry.timers_tick retry.keeps.run core_reauthenticate)

subsection \<open>Properties\<close>

text \<open>
  C3. In every reachable state of the authenticator the last word to the driver agrees with
  \<open>authPortStatus\<close>; the port is authorised in the states \<open>AUTHENTICATED\<close> and \<open>FORCE_AUTH\<close> and
  unauthorised in \<open>DISCONNECTED\<close>, \<open>HELD\<close> and \<open>FORCE_UNAUTH\<close>.
\<close>

theorem eapol_port_invariant:
  assumes "eapol_reach env sm"
  shows "authPortStatus sm = told (last_port (outs sm)) \<and>
    (auth_pae_state sm \<in> {AUTH_PAE_AUTHENTICATED, AUTH_PAE_FORCE_AUTH} \<longrightarrow> authPortStatus sm = Authorized) \<and>
    (auth_pae_state sm \<in> {AUTH_PAE_DISCONNECTED, AUTH_PAE_HELD, AUTH_PAE_FORCE_UNAUTH} \<longrightarrow>
       authPortStatus sm = Unauthorized)"
  using reach_port_ok [OF assms] unfolding port_ok_core .

definition env_example :: "unit eapol_env" where
  "env_example = \<lparr>sta_entry_alive = (\<lambda>_. True), eap_server_sm_step = (\<lambda>e i. (False, e, i))\<rparr>"

definition sm_example :: "unit eapol_sm" where
  "sm_example = zero_sm\<lparr>portControl := Auto, portMode := Auto, portValid := True, reAuthMax := 2,
     auth_pae_state := AUTH_PAE_AUTHENTICATING, be_auth_state := BE_AUTH_SUCCESS, authSuccess := True,
     eap_if := zero_eap_if\<lparr>portEnabled := True\<rparr>\<rparr>"

lemma keeps_port_example: "keeps_port env_example"
  by (simp add: keeps_port_def env_example_def)

lemma reach_cached_example: "reach_cached env_example 1 sm_example"
proof -
  let ?a = "\<lparr>conf = \<lparr>eap_reauth_period = 0, wpa = 0, individual_wep_key_len = 0\<rparr>, default_wep_key = None,
    acct_multi_session_id_hi = 0, acct_multi_session_id_lo = 0\<rparr>"
  let ?s0 = "(alloc_sm 0 ?a)\<lparr>eap := Some (), eap_if := zero_eap_if\<rparr>"
  let ?s1 = "eapol_auth_initialize env_example ?s0"
  have "reach_cached env_example 0 ?s1"
    by (rule cached_alloc [of _ "Some ((), zero_eap_if)" 0 ?a]) (simp add: eapol_auth_alloc_def Let_def)
  moreover have "core ?s1 = (AUTH_PAE_INITIALIZE, PortState_0, 0, 2, None)"
    by (rule initialize_disabled [OF keeps_port_example]) (simp_all add: zero_eap_if_def core_alloc_sm)
  then have "core (sm_example\<lparr>auth_pae_state := AUTH_PAE_INITIALIZE\<rparr>) = core ?s1"
    by (simp add: core_def sm_example_def zero_sm_def)
  ultimately have "reach_cached env_example (Suc 0) (pmksa_shortcut (sm_example\<lparr>auth_pae_state := AUTH_PAE_INITIALIZE\<rparr>))"
    by (intro cached_pmksa) (rule cached_ap)
  moreover have "core sm_example = core (pmksa_shortcut (sm_example\<lparr>auth_pae_state := AUTH_PAE_INITIALIZE\<rparr>))"
    by (simp add: core_def pmksa_shortcut_def sm_example_def upd_eap_if_def)
  ultimately show ?thesis unfolding One_nat_def by (rule cached_ap)
qed

lemma reach_example: "eapol_reach env_example sm_example"
  using reach_cached_example unfolding reach_has_count by blast

lemma opens_example:
  "authPortStatus (machines_step env_example sm_example) = Authorized" "authPortStatus sm_example = PortState_0"
proof -
  have "pae_global sm_example = None" "pae_local sm_example = Some AUTH_PAE_AUTHENTICATED"
    by (simp_all add: sm_example_def zero_sm_def pae_global_def pae_local_def)
  then show "authPortStatus (machines_step env_example sm_example) = Authorized"
    by (simp add: authPort_machines sm_AUTH_PAE_Step_eq authPortStatus_pae_enter)
  show "authPortStatus sm_example = PortState_0" by (simp add: sm_example_def zero_sm_def)
qed

theorem eapol_port_invariant_witness:
  "eapol_reach env_example sm_example \<and> authPortStatus sm_example = told (last_port (outs sm_example))"
  using eapol_port_invariant [OF reach_example] reach_example by simp

text \<open>
  C5. In a reachable state one pass over the machines opens the port only if the port is enabled and
  either the administrator forces it open or the PAE is authenticating, the backend has noted
  success and the port is valid; and a pass notes success only if the EAP server reports it while
  the port is under automatic control.
\<close>

theorem eapol_port_opens_on_success:
  assumes "eapol_reach env sm"
  shows "(authPortStatus sm \<noteq> Authorized \<and> authPortStatus (machines_step env sm) = Authorized \<longrightarrow>
      portEnabled (eap_if sm) \<and> \<not> initialize sm \<and>
      (portControl sm = ForceAuthorized \<or>
       auth_pae_state sm = AUTH_PAE_AUTHENTICATING \<and> authSuccess sm \<and> portValid sm)) \<and>
    (\<not> authSuccess sm \<and> authSuccess (machines_step env sm) \<longrightarrow>
      eapSuccess (eap_if sm) \<and> portControl sm = Auto \<and> \<not> initialize sm)"
  using port_opened [OF reach_port_ok [OF assms]] authSuccess_machines [of env sm] by blast

theorem eapol_port_opens_on_success_witness:
  "eapol_reach env_example sm_example \<and> authPortStatus (machines_step env_example sm_example) = Authorized \<and>
   authSuccess sm_example"
proof -
  have "portControl sm_example = Auto" by (simp add: sm_example_def)
  with eapol_port_opens_on_success [OF reach_example] opens_example show ?thesis
    using reach_example by auto
qed

text \<open>
  C10. After a failed authentication the port stays closed for the quiet period: as long as fewer
  ticks than \<open>quietWhile\<close> have passed, no sequence of frames from the supplicant, ticks and requests for
  reauthentication takes the PAE out of \<open>HELD\<close>, under automatic port control and with an EAP server that does not disable the port.
\<close>

theorem eapol_quiet_period:
  assumes "keeps_port env" "held q sm" "int (count_list xs Tick) < q"
  shows "held (q - int (count_list xs Tick)) (sup_run env xs sm)"
  by (rule held_run_char [OF assms])

theorem eapol_quiet_period_witness:
  "held 58 (sup_run env_example [Tick, Frame True True True, Tick]
     (sm_example\<lparr>auth_pae_state := AUTH_PAE_HELD, authPortStatus := Unauthorized, quietWhile := 60\<rparr>))"
proof -
  have "held 60 (sm_example\<lparr>auth_pae_state := AUTH_PAE_HELD, authPortStatus := Unauthorized, quietWhile := 60\<rparr>)"
    by (simp add: held_def sm_example_def zero_sm_def)
  from eapol_quiet_period [OF keeps_port_example this, of "[Tick, Frame True True True, Tick]"] show ?thesis by simp
qed

text \<open>
  C11. Setting the port control to \<open>ForceUnauthorized\<close> on an enabled port, which is not under that control already (or is already shut), closes the port at the
  next run of the machines, whatever state they were in. It then stays closed whatever frames the supplicant sends, however many ticks pass and whenever reauthentication is
  requested. The EAP server is assumed not to disable the port. (A cached key is not among these events.)
\<close>

theorem eapol_force_unauthorized:
  assumes "keeps_port env" "\<not> initialize sm" "portEnabled (eap_if sm)" "portMode sm \<noteq> ForceUnauthorized \<or> shut sm"
  shows "\<exists>sm'. eapol_auth_set_conf sm ''AdminControlledPortControl'' ''ForceUnauthorized'' = Some (0, sm') \<and>
    (\<forall>xs. shut (sup_run env xs (eapol_sm_step_run env sm')))"
proof -
  let ?s = "eapol_auth_step (sm\<lparr>portControl := ForceUnauthorized\<rparr>)"
  have s: "portControl ?s = ForceUnauthorized" "portMode ?s \<noteq> ForceUnauthorized \<or> shut ?s" "\<not> initialize ?s"
    "portEnabled (eap_if ?s)"
    using assms(2-4) by (auto simp: eapol_auth_step_def emit_def shut_def)
  have "shut (sup_run env xs (eapol_sm_step_run env ?s))" for xs
    by (rule shut_sup_run [OF assms(1)]) (rule shut_run [OF assms(1) s])
  moreover have "eapol_auth_set_conf sm ''AdminControlledPortControl'' ''ForceUnauthorized'' = Some (0, ?s)"
    by (simp add: eapol_auth_set_conf_def strcaseeq_def)
  ultimately show ?thesis by blast
qed

theorem eapol_force_unauthorized_witness:
  "\<exists>sm'. eapol_auth_set_conf sm_example ''AdminControlledPortControl'' ''ForceUnauthorized'' = Some (0, sm') \<and>
     shut (sup_run env_example [Frame True False True, Tick, Reauth] (eapol_sm_step_run env_example sm'))"
proof -
  have "\<not> initialize sm_example" "portEnabled (eap_if sm_example)" "portMode sm_example \<noteq> ForceUnauthorized"
    by (simp_all add: sm_example_def zero_sm_def)
  from eapol_force_unauthorized [OF keeps_port_example this(1,2) disjI1 [OF this(3)]] show ?thesis by blast
qed

text \<open>
  C16. The number of connection attempts stays small and never wraps: in every reachable state \<open>reAuthMax\<close> is 2 and the counter is at most
  \<open>reAuthMax + 1\<close>, plus one for every time a cached key has put the PAE into \<open>AUTHENTICATING\<close> past the check of the counter (fewer than \<open>2 ^ 31\<close> times).
\<close>

theorem eapol_retries_bounded:
  assumes "reach_cached env k sm" "k < 2 ^ 31"
  shows "reAuthMax sm = 2 \<and> unat (reAuthCount sm) \<le> unat (reAuthMax sm) + 1 + k"
  using reach_retry_ok [OF assms(1)] assms(2) by (auto simp: retry_ok_core split: if_splits)

theorem eapol_retries_bounded_witness:
  "reach_cached env_example 1 sm_example \<and> reAuthMax sm_example = 2 \<and> unat (reAuthCount sm_example) \<le> unat (reAuthMax sm_example) + 1 + 1"
  by (rule conjI [OF reach_cached_example]) (rule eapol_retries_bounded [OF reach_cached_example], simp)

text \<open>
  C17. A port that the administrator has forced shut is opened by a cached key: when the key makes the association skip the authentication, the next pass over
  the machines authorises the port, if it is valid, although the port control still says \<open>ForceUnauthorized\<close>, and the driver is told so.
\<close>

theorem cached_key_opens_forced_port:
  assumes "shut sm" "portValid sm"
  shows "authPortStatus (machines_step env (pmksa_shortcut sm)) = Authorized \<and> portControl (pmksa_shortcut sm) = ForceUnauthorized
    \<and> last_port (outs (machines_step env (pmksa_shortcut sm))) = Some True"
proof -
  let ?s = "pmksa_shortcut sm"
  have "pae_global ?s = None" "pae_local ?s = Some AUTH_PAE_AUTHENTICATED" "portControl ?s = ForceUnauthorized"
    using assms by (simp_all add: shut_def pmksa_shortcut_def upd_eap_if_def pae_global_def pae_local_def)
  moreover from this have "core (machines_step env ?s) = core (pae_enter AUTH_PAE_AUTHENTICATED False ?s)"
    using front_core [OF front_machines, of env ?s] by (simp add: sm_AUTH_PAE_Step_eq)
  ultimately show ?thesis by (simp add: core_pae_enter) (simp add: core_def)
qed

theorem cached_key_opens_forced_port_witness:
  "authPortStatus (machines_step env_example (pmksa_shortcut (sm_example\<lparr>auth_pae_state := AUTH_PAE_FORCE_UNAUTH, authPortStatus := Unauthorized,
     portControl := ForceUnauthorized, portMode := ForceUnauthorized\<rparr>))) = Authorized"
  by (rule conjunct1 [OF cached_key_opens_forced_port]) (simp_all add: shut_def sm_example_def zero_sm_def)

end
