(* ===== verification/Bitfield.thy ===== *)
theory Bitfield
  imports Prelude
begin

text \<open>
  hostapd's bit fields (\<open>src/utils/bitfield.c\<close>): a byte array with a number of valid bits, refined to
  a set of numbers below that bound. \<open>os_zalloc\<close> succeeds or not as its argument says; every access to
  the array is checked. \<open>size_t\<close> values are natural numbers: none of the operations computes with
  anything larger than the size of an allocated object, and the index that \<open>bitfield_get_first_zero\<close>
  returns is assumed to fit \<open>int\<close>.
\<close>

record bitfield =
  bits :: bytes
  max_bits :: nat

definition bitfield_alloc :: "bool \<Rightarrow> nat \<Rightarrow> bitfield option" where
  "bitfield_alloc zalloc_ok mx =
     (if zalloc_ok then Some \<lparr>bits = replicate ((mx + 7) div 8) 0, max_bits = mx\<rparr> else None)"

abbreviation BIT :: "nat \<Rightarrow> u8" where
  "BIT n \<equiv> push_bit n 1"

definition bitfield_set :: "bitfield \<Rightarrow> nat \<Rightarrow> bitfield option" where
  "bitfield_set bf b =
     (if max_bits bf \<le> b then Some bf
      else do {
        v \<leftarrow> rd (bits bf) (b div 8);
        bs \<leftarrow> wr (bits bf) (b div 8) (v OR BIT (b mod 8));
        Some (bf\<lparr>bits := bs\<rparr>) })"

definition bitfield_clear :: "bitfield \<Rightarrow> nat \<Rightarrow> bitfield option" where
  "bitfield_clear bf b =
     (if max_bits bf \<le> b then Some bf
      else do {
        v \<leftarrow> rd (bits bf) (b div 8);
        bs \<leftarrow> wr (bits bf) (b div 8) (v AND NOT (BIT (b mod 8)));
        Some (bf\<lparr>bits := bs\<rparr>) })"

definition bitfield_is_set :: "bitfield \<Rightarrow> nat \<Rightarrow> bool option" where
  "bitfield_is_set bf b =
     (if max_bits bf \<le> b then Some False
      else do {
        v \<leftarrow> rd (bits bf) (b div 8);
        Some (v AND BIT (b mod 8) \<noteq> 0) })"

fun first_zero_loop :: "nat \<Rightarrow> nat \<Rightarrow> u8 \<Rightarrow> int" where
  "first_zero_loop 0 i val = - 1"
| "first_zero_loop (Suc n) i val =
     (if val AND 1 = 0 then int i else first_zero_loop n (i + 1) (drop_bit 1 val))"

definition first_zero :: "u8 \<Rightarrow> int" where
  "first_zero val = first_zero_loop 8 0 val"

text \<open>The loop over the bytes; the index where it stops.\<close>

function skip_full :: "bytes \<Rightarrow> nat \<Rightarrow> nat \<Rightarrow> nat option" where
  "skip_full bs n i =
     (if i < n then (case rd bs i of
         None \<Rightarrow> None
       | Some v \<Rightarrow> if v \<noteq> 0xff then Some i else skip_full bs n (i + 1))
      else Some i)"
  by pat_completeness auto
termination
  by (relation "measure (\<lambda>(_, n, i). n - i)") auto

declare skip_full.simps [simp del]

definition bitfield_get_first_zero :: "bitfield \<Rightarrow> int option" where
  "bitfield_get_first_zero bf = do {
     let n = (max_bits bf + 7) div 8;
     i \<leftarrow> skip_full (bits bf) n 0;
     if i = n then Some (- 1)
     else do {
       v \<leftarrow> rd (bits bf) i;
       let i = int (i * 8) + first_zero v;
       if int (max_bits bf) \<le> i then Some (- 1) else Some i } }"

subsection \<open>Refinement to sets\<close>

definition bf_inv :: "bitfield \<Rightarrow> bool" where
  "bf_inv bf \<longleftrightarrow> length (bits bf) = (max_bits bf + 7) div 8 \<and>
     (\<forall>b < 8 * length (bits bf). bit (bits bf ! (b div 8)) (b mod 8) \<longrightarrow> b < max_bits bf)"

definition bf_set :: "bitfield \<Rightarrow> nat set" where
  "bf_set bf = {b. b < max_bits bf \<and> bit (bits bf ! (b div 8)) (b mod 8)}"

lemma bf_index: "b < mx \<Longrightarrow> b div 8 < (mx + 7) div (8 :: nat)"
  by linarith

lemma and_BIT: "n < 8 \<Longrightarrow> (v :: u8) AND BIT n \<noteq> 0 \<longleftrightarrow> bit v n"
  by (simp add: bit_iff_and_push_bit_not_eq_0)

lemma bit_update:
  assumes "b < 8" "c < 8"
  shows "bit ((v :: u8) OR BIT b) c \<longleftrightarrow> c = b \<or> bit v c" "bit (v AND NOT (BIT b)) c \<longleftrightarrow> c \<noteq> b \<and> bit v c"
  using assms by (auto simp: bit_or_iff bit_and_iff bit_not_iff bit_exp_iff)

lemma bf_nth_update:
  assumes "j < length bs"
  shows "bit (bs[j := v] ! (c div 8)) (c mod 8) \<longleftrightarrow>
    (if c div 8 = j then bit v (c mod 8) else bit (bs ! (c div 8)) (c mod 8))"
  using assms by (simp add: nth_list_update)

lemma same_bit: "c div 8 = b div 8 \<Longrightarrow> c mod 8 = b mod 8 \<longleftrightarrow> c = (b :: nat)"
  by (metis div_mult_mod_eq)

lemma bitfield_set_refines:
  assumes "bf_inv bf"
  shows "\<exists>bf'. bitfield_set bf b = Some bf' \<and> bf_inv bf' \<and> max_bits bf' = max_bits bf \<and>
    bf_set bf' = (if b < max_bits bf then insert b (bf_set bf) else bf_set bf)"
proof (cases "b < max_bits bf")
  case True
  let ?j = "b div 8"
  define v where "v = bits bf ! ?j OR BIT (b mod 8)"
  let ?bs = "(bits bf)[?j := v]"
  have j: "?j < length (bits bf)" using assms bf_index [OF True] by (simp add: bf_inv_def)
  have bt: "bit (?bs ! (c div 8)) (c mod 8) \<longleftrightarrow> c = b \<or> bit (bits bf ! (c div 8)) (c mod 8)" for c
    using bit_update(1) [of "b mod 8" "c mod 8"] same_bit [of c b] by (auto simp: bf_nth_update [OF j] v_def)
  have "bitfield_set bf b = Some (bf\<lparr>bits := ?bs\<rparr>)"
    using True j by (simp add: bitfield_set_def c_mem v_def)
  moreover have "bf_inv (bf\<lparr>bits := ?bs\<rparr>)" using assms True by (simp add: bf_inv_def bt)
  moreover have "bf_set (bf\<lparr>bits := ?bs\<rparr>) = insert b (bf_set bf)" using True by (auto simp: bf_set_def bt)
  ultimately show ?thesis using True by simp
qed (use assms in \<open>simp add: bitfield_set_def\<close>)

lemma bitfield_clear_refines:
  assumes "bf_inv bf"
  shows "\<exists>bf'. bitfield_clear bf b = Some bf' \<and> bf_inv bf' \<and> max_bits bf' = max_bits bf \<and>
    bf_set bf' = bf_set bf - {b}"
proof (cases "b < max_bits bf")
  case True
  let ?j = "b div 8"
  define v where "v = bits bf ! ?j AND NOT (BIT (b mod 8))"
  let ?bs = "(bits bf)[?j := v]"
  have j: "?j < length (bits bf)" using assms bf_index [OF True] by (simp add: bf_inv_def)
  have bt: "bit (?bs ! (c div 8)) (c mod 8) \<longleftrightarrow> c \<noteq> b \<and> bit (bits bf ! (c div 8)) (c mod 8)" for c
    using bit_update(2) [of "b mod 8" "c mod 8"] same_bit [of c b] by (auto simp: bf_nth_update [OF j] v_def)
  have "bitfield_clear bf b = Some (bf\<lparr>bits := ?bs\<rparr>)"
    using True j by (simp add: bitfield_clear_def c_mem v_def)
  moreover have "bf_inv (bf\<lparr>bits := ?bs\<rparr>)" using assms True by (simp add: bf_inv_def bt)
  moreover have "bf_set (bf\<lparr>bits := ?bs\<rparr>) = bf_set bf - {b}" using True by (auto simp: bf_set_def bt)
  ultimately show ?thesis by simp
next
  case False
  then have "b \<notin> bf_set bf" by (simp add: bf_set_def)
  with False assms show ?thesis by (simp add: bitfield_clear_def)
qed

lemma bitfield_is_set_refines:
  assumes "bf_inv bf"
  shows "bitfield_is_set bf b = Some (b \<in> bf_set bf)"
proof (cases "b < max_bits bf")
  case True
  then have "b div 8 < length (bits bf)" using assms bf_index [OF True] by (simp add: bf_inv_def)
  with True show ?thesis
    using and_BIT [of "b mod 8" "bits bf ! (b div 8)"] by (simp add: bitfield_is_set_def bf_set_def c_mem)
qed (simp add: bitfield_is_set_def bf_set_def)

lemma bitfield_alloc_refines:
  "\<exists>bf. bitfield_alloc True mx = Some bf \<and> bf_inv bf \<and> max_bits bf = mx \<and> bf_set bf = {}"
proof -
  have "(replicate ((mx + 7) div 8) (0 :: u8)) ! (b div 8) = 0" if "b < 8 * ((mx + 7) div 8)" for b
    using that by (simp add: div_less_iff_less_mult mult.commute)
  moreover have "b < 8 * ((mx + 7) div 8)" if "b < mx" for b using bf_index [OF that] by linarith
  ultimately show ?thesis by (auto simp: bitfield_alloc_def bf_inv_def bf_set_def)
qed

subsection \<open>The first zero\<close>

lemma first_zero_loop_least:
  assumes "\<exists>k < n. \<not> bit val k"
  shows "\<exists>k < n. first_zero_loop n i val = int (i + k) \<and> \<not> bit val k \<and> (\<forall>j < k. bit val j)"
  using assms
proof (induction n arbitrary: i val)
  case (Suc n)
  show ?case
  proof (cases "bit val 0")
    case False
    then have "val AND 1 = 0" by (simp add: and_one_eq bit_0 even_iff_mod_2_eq_zero)
    with False show ?thesis by (intro exI [of _ 0]) simp
  next
    case True
    then have a: "val AND 1 \<noteq> 0" by (simp add: and_one_eq bit_0 even_iff_mod_2_eq_zero)
    from Suc.prems True obtain k where "k < n" "\<not> bit val (Suc k)"
      by (metis less_Suc_eq_0_disj)
    then have "\<exists>k < n. \<not> bit (drop_bit 1 val) k" by (auto simp: bit_drop_bit_eq)
    from Suc.IH [OF this, of "i + 1"] obtain k where
      k: "k < n" "first_zero_loop n (i + 1) (drop_bit 1 val) = int (i + 1 + k)" "\<not> bit val (Suc k)"
        "\<forall>j < k. bit val (Suc j)" by (auto simp: bit_drop_bit_eq)
    have "\<forall>j < Suc k. bit val j" using k(4) True by (metis less_Suc_eq_0_disj)
    with a k show ?thesis by (intro exI [of _ "Suc k"]) simp
  qed
qed simp

lemma not_full: "(v :: u8) \<noteq> 0xff \<Longrightarrow> \<exists>k < 8. \<not> bit v k"
proof (rule ccontr)
  assume "v \<noteq> 0xff" and "\<not> (\<exists>k < 8. \<not> bit v k)"
  then have "v = mask 8" by (auto simp: bit_eq_iff bit_mask_iff)
  with \<open>v \<noteq> 0xff\<close> show False by (simp add: mask_eq_exp_minus_1)
qed

lemma full_bits: "k < 8 \<Longrightarrow> bit (0xff :: u8) k"
proof -
  have "(0xff :: u8) = mask 8" by (simp add: mask_eq_exp_minus_1)
  then show "k < 8 \<Longrightarrow> ?thesis" by (simp only: bit_mask_iff) simp
qed

lemma skip_full_result:
  assumes "n \<le> length bs" "i \<le> n"
  shows "\<exists>j. skip_full bs n i = Some j \<and> i \<le> j \<and> j \<le> n \<and> (\<forall>k. i \<le> k \<and> k < j \<longrightarrow> bs ! k = 0xff) \<and>
    (j < n \<longrightarrow> bs ! j \<noteq> 0xff)"
  using assms
proof (induction bs n i rule: skip_full.induct)
  case (1 bs n i)
  show ?case
  proof (cases "i < n \<and> bs ! i = 0xff")
    case True
    with 1 obtain j where "skip_full bs n (i + 1) = Some j" "i + 1 \<le> j" "j \<le> n"
      "\<forall>k. i + 1 \<le> k \<and> k < j \<longrightarrow> bs ! k = 0xff" "j < n \<longrightarrow> bs ! j \<noteq> 0xff"
      by (auto simp: c_mem)
    with True 1 show ?thesis
      by (intro exI [of _ j]) (auto simp: skip_full.simps [of bs n i] c_mem dest: le_neq_implies_less)
  next
    case False
    with 1 show ?thesis
      by (intro exI [of _ i]) (auto simp: skip_full.simps [of bs n i] c_mem)
  qed
qed

lemma bitfield_get_first_zero_char:
  assumes "bf_inv bf"
  shows "bitfield_get_first_zero bf = Some (- 1) \<and> bf_set bf = {..<max_bits bf} \<or>
    (\<exists>b < max_bits bf. bitfield_get_first_zero bf = Some (int b) \<and> b \<notin> bf_set bf \<and> {..<b} \<subseteq> bf_set bf)"
proof -
  let ?n = "(max_bits bf + 7) div 8"
  have n: "length (bits bf) = ?n" using assms by (simp add: bf_inv_def)
  from skip_full_result [of ?n "bits bf" 0] n obtain j where
    j: "skip_full (bits bf) ?n 0 = Some j" "j \<le> ?n" "\<forall>k < j. bits bf ! k = 0xff" "j < ?n \<longrightarrow> bits bf ! j \<noteq> 0xff" by auto
  have full: "b \<in> bf_set bf" if "b < 8 * j" "b < max_bits bf" for b
    using that j(3) full_bits [of "b mod 8"] by (simp add: bf_set_def div_less_iff_less_mult mult.commute)
  show ?thesis
  proof (cases "j = ?n")
    case True
    have "b < 8 * ?n" if "b < max_bits bf" for b using that by linarith
    with full True have "bf_set bf = {..<max_bits bf}" by (auto simp: bf_set_def)
    with True j(1) show ?thesis by (simp add: bitfield_get_first_zero_def)
  next
    case False
    with j have "j < ?n" "bits bf ! j \<noteq> 0xff" by simp_all
    from first_zero_loop_least [OF not_full [OF this(2)], of 0] obtain k where
      k: "k < 8" "first_zero (bits bf ! j) = int k" "\<not> bit (bits bf ! j) k" "\<forall>i < k. bit (bits bf ! j) i"
      by (auto simp: first_zero_def)
    let ?b = "8 * j + k"
    have dm: "(8 * j + i) div 8 = j" "(8 * j + i) mod 8 = i" if "i \<le> k" for i using that k(1) by simp_all
    have below: "c \<in> bf_set bf" if "c < ?b" "c < max_bits bf" for c
    proof (cases "c < 8 * j")
      case False
      define i where "i = c - 8 * j"
      with False that have "c = 8 * j + i" "i < k" by simp_all
      with that k dm [of i] show ?thesis by (simp add: bf_set_def)
    qed (use full that in simp)
    have res: "bitfield_get_first_zero bf = Some (if max_bits bf \<le> ?b then - 1 else int ?b)"
      using False j(1) k(2) \<open>j < ?n\<close> n by (auto simp: bitfield_get_first_zero_def c_mem Let_def)
    show ?thesis
    proof (cases "max_bits bf \<le> ?b")
      case True
      with below have "bf_set bf = {..<max_bits bf}" by (auto simp: bf_set_def)
      with res True show ?thesis by simp
    next
      case False
      have "?b \<notin> bf_set bf" using k dm [of k] by (simp add: bf_set_def)
      moreover have "{..<?b} \<subseteq> bf_set bf" using below False by auto
      ultimately show ?thesis using res False by (intro disjI2 exI [of _ ?b]) simp
    qed
  qed
qed

text \<open>
  A bit field behaves as a set of numbers below its bound: allocation gives the empty set,
  \<open>bitfield_set\<close> inserts, \<open>bitfield_clear\<close> removes and \<open>bitfield_is_set\<close> tests, numbers out of bounds
  being ignored; none of the operations leaves the array, and all of them keep the invariant.
\<close>

lemma bitfield_refines_set:
  assumes "bf_inv bf"
  shows "(\<exists>bf0. bitfield_alloc True mx = Some bf0 \<and> bf_inv bf0 \<and> max_bits bf0 = mx \<and> bf_set bf0 = {}) \<and>
    (\<exists>bf1. bitfield_set bf b = Some bf1 \<and> bf_inv bf1 \<and> max_bits bf1 = max_bits bf \<and>
       bf_set bf1 = (if b < max_bits bf then insert b (bf_set bf) else bf_set bf)) \<and>
    (\<exists>bf2. bitfield_clear bf b = Some bf2 \<and> bf_inv bf2 \<and> max_bits bf2 = max_bits bf \<and> bf_set bf2 = bf_set bf - {b}) \<and>
    bitfield_is_set bf b = Some (b \<in> bf_set bf)"
  using bitfield_alloc_refines bitfield_set_refines [OF assms] bitfield_clear_refines [OF assms]
    bitfield_is_set_refines [OF assms] by blast

text \<open>
  \<open>bitfield_get_first_zero\<close> returns the least number below the bound that is not in the set, and -1
  exactly when there is none.
\<close>

lemma bitfield_get_first_zero_least:
  assumes "bf_inv bf"
  shows "bitfield_get_first_zero bf =
    Some (if bf_set bf = {..<max_bits bf} then - 1 else int (LEAST b. b \<notin> bf_set bf))"
proof -
  consider "bitfield_get_first_zero bf = Some (- 1)" "bf_set bf = {..<max_bits bf}"
    | b where "b < max_bits bf" "bitfield_get_first_zero bf = Some (int b)" "b \<notin> bf_set bf" "{..<b} \<subseteq> bf_set bf"
    using bitfield_get_first_zero_char [OF assms] by blast
  then show ?thesis
  proof cases
    case 2
    then have "(LEAST b. b \<notin> bf_set bf) = b" by (intro Least_equality) (auto simp: not_less [symmetric])
    with 2 show ?thesis by auto
  qed simp
qed

end
