(* ===== verification/Base64.thy ===== *)
theory Base64
  imports CStrings
begin

text \<open>
  hostapd's Base64 codec (\<open>src/utils/base64.c\<close>). The encoder breaks lines after 72 characters and ends
  every non-empty text with a line feed; the decoder skips what is not in the alphabet. A result is
  \<open>Buf\<close> with the contents of the returned buffer, \<open>Null\<close> for the null pointer, or \<open>Undefined\<close> when
  more is written than was allocated. \<open>os_malloc\<close> succeeds; \<open>size_t\<close> has 64 bits.
\<close>

datatype b64_result = Undefined | Null | Buf bytes

definition base64_table :: bytes where
  "base64_table = map (\<lambda>c. of_nat (of_char c))
     ''ABCDEFGHIJKLMNOPQRSTUVWXYZabcdefghijklmnopqrstuvwxyz0123456789+/''"

abbreviation table :: "u8 \<Rightarrow> u8" where
  "table i \<equiv> base64_table ! unat i"

subsection \<open>Encoder\<close>

definition quad :: "u8 \<Rightarrow> u8 \<Rightarrow> u8 \<Rightarrow> bytes" where
  "quad a b c =
     [table (drop_bit 2 a AND 0x3f),
      table ((push_bit 4 (a AND 0x03) OR drop_bit 4 b) AND 0x3f),
      table ((push_bit 2 (b AND 0x0f) OR drop_bit 6 c) AND 0x3f),
      table (c AND 0x3f)]"

text \<open>The loop over blocks of three bytes: the text, the length of the last line, the bytes left.\<close>

fun enc_blocks :: "nat \<Rightarrow> bytes \<Rightarrow> bytes \<times> nat \<times> bytes" where
  "enc_blocks line_len (a # b # c # xs) =
     (let (nl, line_len) = (if 72 \<le> line_len + 4 then ([10], 0) else ([], line_len + 4));
          (out, line_len, rest) = enc_blocks line_len xs
      in (quad a b c @ nl @ out, line_len, rest))"
| "enc_blocks line_len xs = ([], line_len, xs)"

definition enc_tail :: "bytes \<Rightarrow> bytes" where
  "enc_tail xs = (case xs of
     [] \<Rightarrow> []
   | [a] \<Rightarrow> [table (drop_bit 2 a AND 0x3f), table (push_bit 4 (a AND 0x03) AND 0x3f), 61, 61]
   | a # b # _ \<Rightarrow> [table (drop_bit 2 a AND 0x3f),
       table ((push_bit 4 (a AND 0x03) OR drop_bit 4 b) AND 0x3f),
       table (push_bit 2 (b AND 0x0f) AND 0x3f), 61])"

definition enc_text :: "bytes \<Rightarrow> bytes" where
  "enc_text src =
     (let (out, line_len, rest) = enc_blocks 0 src;
          line_len = (if rest \<noteq> [] then line_len + 4 else line_len)
      in out @ enc_tail rest @ (if line_len \<noteq> 0 then [10] else []))"

definition enc_size :: "nat \<Rightarrow> nat" where
  "enc_size len =
     (let olen = (len * 4 mod 2 ^ 64 div 3 + 4) mod 2 ^ 64;
          olen = (olen + olen div 72) mod 2 ^ 64
      in (olen + 1) mod 2 ^ 64)"

definition base64_encode :: "bytes \<Rightarrow> b64_result" where
  "base64_encode src =
     (let olen = enc_size (length src); out = enc_text src
      in if olen < length src then Null
         else if length out + 1 \<le> olen then Buf out else Undefined)"

subsection \<open>Decoder\<close>

definition dtable :: bytes where
  "dtable = (foldl (\<lambda>d i. d[unat (base64_table ! i) := of_nat i]) (replicate 256 0x80) [0..<64])[61 := 0]"

abbreviation dt :: "u8 \<Rightarrow> u8" where
  "dt c \<equiv> dtable ! unat c"

definition dec_block :: "bytes \<Rightarrow> bytes" where
  "dec_block block =
     [push_bit 2 (block ! 0) OR drop_bit 4 (block ! 1),
      push_bit 4 (block ! 1) OR drop_bit 2 (block ! 2),
      push_bit 6 (block ! 2) OR block ! 3]"

fun dec_loop :: "nat \<Rightarrow> bytes \<Rightarrow> nat \<Rightarrow> bytes \<Rightarrow> bytes \<Rightarrow> b64_result" where
  "dec_loop olen block pad out [] = Buf out"
| "dec_loop olen block pad out (c # cs) =
     (let tmp = dt c
      in if tmp = 0x80 then dec_loop olen block pad out cs
         else let pad = (if c = 61 then pad + 1 else pad); block = block @ [tmp]
              in if length block = 4
                 then let out = out @ dec_block block
                      in if olen < length out then Undefined
                         else if pad = 0 then dec_loop olen [] pad out cs
                         else if pad = 1 then Buf (take (length out - 1) out)
                         else if pad = 2 then Buf (take (length out - 2) out)
                         else Null
                 else dec_loop olen block pad out cs)"

definition base64_decode :: "bytes \<Rightarrow> b64_result" where
  "base64_decode src =
     (let count = length (filter (\<lambda>c. dt c \<noteq> 0x80) src)
      in if count = 0 \<or> count mod 4 \<noteq> 0 then Null
         else dec_loop (count div 4 * 3) [] 0 [] src)"

subsection \<open>The tables\<close>

lemma length_base64_table: "length base64_table = 64"
  by (simp add: base64_table_def)

lemma distinct_base64_table: "distinct base64_table"
  by (simp add: base64_table_def)

lemma base64_table_separators: "61 \<notin> set base64_table" "10 \<notin> set base64_table"
  by (simp_all add: base64_table_def)

lemma foldl_update:
  assumes "n \<le> length ks" "distinct ks" "j < length d" "\<And>k. k \<in> set ks \<Longrightarrow> unat k < length d"
  shows "length (foldl (\<lambda>d i. d[unat (ks ! i) := of_nat i]) d [0..<n]) = length d \<and>
    foldl (\<lambda>d i. d[unat (ks ! i) := (of_nat i :: u8)]) d [0..<n] ! j =
      (if \<exists>i < n. unat (ks ! i :: u8) = j then of_nat (THE i. i < n \<and> unat (ks ! i) = j) else d ! j)"
  using assms
proof (induction n)
  case (Suc n)
  let ?d = "foldl (\<lambda>d i. d[unat (ks ! i) := of_nat i]) d [0..<n]"
  have l: "length ?d = length d" and IH: "?d ! j = (if \<exists>i < n. unat (ks ! i) = j
      then of_nat (THE i. i < n \<and> unat (ks ! i) = j) else d ! j)"
    using Suc by simp_all
  have inj: "i = i'" if "i \<le> n" "i' \<le> n" "unat (ks ! i) = unat (ks ! i')" for i i'
    using that(1,2) Suc.prems(1,2) unsigned_word_eqI [OF that(3)] by (simp add: nth_eq_iff_index_eq)
  show ?case
  proof (cases "unat (ks ! n) = j")
    case True
    have "(THE i. i < Suc n \<and> unat (ks ! i) = j) = n"
      using inj True by (intro the_equality) auto
    with True l Suc.prems(3) show ?thesis by auto
  next
    case False
    then have "(\<lambda>i. i < Suc n \<and> unat (ks ! i) = j) = (\<lambda>i. i < n \<and> unat (ks ! i) = j)"
      by (auto simp: fun_eq_iff less_Suc_eq)
    with False IH l show ?thesis by (auto simp: less_Suc_eq)
  qed
qed simp

lemma dtable_table: "i < 64 \<Longrightarrow> dtable ! unat (base64_table ! i) = of_nat i"
proof -
  assume i: "i < 64"
  let ?d = "foldl (\<lambda>d i. d[unat (base64_table ! i) := (of_nat i :: u8)]) (replicate 256 0x80) [0..<64]"
  have "base64_table ! i \<noteq> 61" using base64_table_separators(1) i length_base64_table by (metis nth_mem)
  then have ne: "unat (base64_table ! i) \<noteq> 61" using word_unat_eq_iff by fastforce
  have "(THE k. k < 64 \<and> unat (base64_table ! k) = unat (base64_table ! i)) = i"
  proof (rule the_equality)
    fix k assume "k < 64 \<and> unat (base64_table ! k) = unat (base64_table ! i)"
    then have "k < 64" "base64_table ! k = base64_table ! i" using unsigned_word_eqI by blast+
    then show "k = i"
      using distinct_base64_table length_base64_table i by (simp add: nth_eq_iff_index_eq)
  qed (use i in simp)
  moreover have "length ?d = 256 \<and> ?d ! unat (base64_table ! i) = of_nat (THE k. k < 64 \<and> unat (base64_table ! k) = unat (base64_table ! i))"
    using foldl_update [of 64 base64_table "unat (base64_table ! i)" "replicate 256 0x80"]
      length_base64_table distinct_base64_table i by auto
  ultimately show ?thesis using ne by (simp add: dtable_def)
qed

lemma dtable_separators: "dtable ! 61 = 0" "dtable ! 10 = 0x80"
proof -
  let ?d = "foldl (\<lambda>d i. d[unat (base64_table ! i) := (of_nat i :: u8)]) (replicate 256 0x80) [0..<64]"
  have "\<not> (\<exists>i < 64. unat (base64_table ! i) = 10)"
  proof
    assume "\<exists>i < 64. unat (base64_table ! i) = 10"
    then obtain i where "i < 64" "base64_table ! i = 10" using word_unat_eq_iff by fastforce
    then show False using base64_table_separators(2) length_base64_table by (metis nth_mem)
  qed
  then have "length ?d = 256 \<and> ?d ! 10 = 0x80"
    using foldl_update [of 64 base64_table 10 "replicate 256 0x80"] length_base64_table distinct_base64_table by auto
  then show "dtable ! 61 = 0" "dtable ! 10 = 0x80" by (simp_all add: dtable_def)
qed

subsection \<open>One block\<close>

lemma masks: "(x :: u8) AND 0x3f = take_bit 6 x" "x AND 0x03 = take_bit 2 x" "x AND 0x0f = take_bit 4 x"
  by (simp_all add: take_bit_eq_mask mask_eq_exp_minus_1)

lemma six_bits: "unat (take_bit 6 (x :: u8)) < 64"
proof -
  have "unat (take_bit 6 x) = take_bit 6 (unat x)" by (rule unsigned_take_bit_eq)
  then show ?thesis by (simp add: take_bit_eq_mod)
qed

lemma dt_table: "dt (table (take_bit 6 x)) = take_bit 6 x"
proof -
  have "(of_nat (unat (take_bit 6 x)) :: u8) = take_bit 6 x" by (simp add: word_of_nat_eq_iff)
  with dtable_table [OF six_bits, of x] show ?thesis by (simp only:)
qed

lemma dt_table_valid: "dt (table (take_bit 6 x)) \<noteq> 0x80" "table (take_bit 6 x) \<noteq> 61"
proof -
  have less: "unat (dt (table (take_bit 6 x))) < 64" unfolding dt_table by (rule six_bits)
  show "dt (table (take_bit 6 x)) \<noteq> 0x80"
  proof
    assume "dt (table (take_bit 6 x)) = 0x80"
    with less have "unat (0x80 :: u8) < 64" by (simp only:)
    then show False by simp
  qed
  show "table (take_bit 6 x) \<noteq> 61"
    using base64_table_separators(1) length_base64_table six_bits [of x] by (metis nth_mem)
qed

lemma block_bits:
  fixes a b c :: u8
  shows "push_bit 2 (take_bit 6 (drop_bit 2 a)) OR drop_bit 4 (take_bit 6 (push_bit 4 (take_bit 2 a) OR drop_bit 4 b)) = a"
    and "push_bit 4 (take_bit 6 (push_bit 4 (take_bit 2 a) OR drop_bit 4 b)) OR
       drop_bit 2 (take_bit 6 (push_bit 2 (take_bit 4 b) OR drop_bit 6 c)) = b"
    and "push_bit 6 (take_bit 6 (push_bit 2 (take_bit 4 b) OR drop_bit 6 c)) OR take_bit 6 c = c"
    and "push_bit 2 (take_bit 6 (drop_bit 2 a)) OR drop_bit 4 (take_bit 6 (push_bit 4 (take_bit 2 a))) = a"
    and "push_bit 4 (take_bit 6 (push_bit 4 (take_bit 2 a) OR drop_bit 4 b)) OR
       drop_bit 2 (take_bit 6 (push_bit 2 (take_bit 4 b))) = b"
  by (rule bit_word_eqI, drule bit_cases8, elim disjE; simp add: bit_simps high_bits)+

subsection \<open>Round trip\<close>

lemma dec_loop_valid:
  "dt c \<noteq> 0x80 \<Longrightarrow> c \<noteq> 61 \<Longrightarrow> length block < 3 \<Longrightarrow>
     dec_loop olen block pad out (c # cs) = dec_loop olen (block @ [dt c]) pad out cs"
  by simp

lemma dec_loop_pad:
  "length block < 3 \<Longrightarrow> dec_loop olen block pad out (61 # cs) = dec_loop olen (block @ [0]) (pad + 1) out cs"
  by (simp add: dtable_separators)

lemma dec_loop_newline: "dec_loop olen block pad out (10 # cs) = dec_loop olen block pad out cs"
  by (simp add: dtable_separators)

lemma length_dec_block: "length (dec_block bl) = 3"
  by (simp add: dec_block_def)

lemma dec_block4: "dec_block [p, q, r, s] =
    [push_bit 2 p OR drop_bit 4 q, push_bit 4 q OR drop_bit 2 r, push_bit 6 r OR s]"
  by (simp add: dec_block_def)

lemma dec_loop_last:
  assumes "dt c \<noteq> 0x80" "c \<noteq> 61" "length out + 3 \<le> olen"
  shows "dec_loop olen [x, y, z] 0 out (c # cs) = dec_loop olen [] 0 (out @ dec_block [x, y, z, dt c]) cs"
  using assms by (simp add: length_dec_block)

lemma dec_loop_last_pad:
  assumes "length out + 3 \<le> olen"
  shows "dec_loop olen [x, y, z] p out (61 # cs) =
    (if p = 0 then Buf (out @ take 2 (dec_block [x, y, z, 0]))
     else if p = 1 then Buf (out @ take 1 (dec_block [x, y, z, 0])) else Null)"
  using assms by (simp add: length_dec_block dtable_separators)

lemma dec_loop_quad:
  assumes "length out + 3 \<le> olen"
  shows "dec_loop olen [] 0 out (quad a b c @ cs) = dec_loop olen [] 0 (out @ [a, b, c]) cs"
  unfolding quad_def masks append_Cons append_Nil
  by (subst dec_loop_valid [OF dt_table_valid], simp, subst dec_loop_valid [OF dt_table_valid], simp,
      subst dec_loop_valid [OF dt_table_valid], simp)
     (simp only: append_Cons append_Nil dec_loop_last [OF dt_table_valid assms] dt_table dec_block4 block_bits)

lemma dec_loop_tail:
  assumes "length out + 3 \<le> olen" "rest \<noteq> []" "length rest < 3"
  shows "dec_loop olen [] 0 out (enc_tail rest @ cs) = Buf (out @ rest)"
proof -
  from assms(2,3) consider a where "rest = [a]" | a b where "rest = [a, b]"
    by (cases rest; cases "tl rest") (auto simp: neq_Nil_conv)
  then show ?thesis
  proof cases
    case (1 a)
    have "dec_loop olen [] 0 out (enc_tail rest @ cs) =
        dec_loop olen [take_bit 6 (drop_bit 2 a), take_bit 6 (push_bit 4 (take_bit 2 a)), 0] 1 out (61 # cs)"
      unfolding 1 enc_tail_def list.case masks append_Cons append_Nil
      by (subst dec_loop_valid [OF dt_table_valid], simp, subst dec_loop_valid [OF dt_table_valid], simp,
          subst dec_loop_pad, simp) (simp only: append_Cons append_Nil dt_table add_0)
    then show ?thesis
      by (simp only: dec_loop_last_pad [OF assms(1)] dec_block4 block_bits 1) simp
  next
    case (2 a b)
    have "dec_loop olen [] 0 out (enc_tail rest @ cs) =
        dec_loop olen [take_bit 6 (drop_bit 2 a), take_bit 6 (push_bit 4 (take_bit 2 a) OR drop_bit 4 b),
          take_bit 6 (push_bit 2 (take_bit 4 b))] 0 out (61 # cs)"
      unfolding 2 enc_tail_def list.case masks append_Cons append_Nil
      by (subst dec_loop_valid [OF dt_table_valid], simp, subst dec_loop_valid [OF dt_table_valid], simp,
          subst dec_loop_valid [OF dt_table_valid], simp) (simp only: append_Cons append_Nil dt_table)
    then show ?thesis
      by (simp only: dec_loop_last_pad [OF assms(1)] dec_block4 block_bits 2) simp
  qed
qed

lemma enc_blocks_Cons3:
  "enc_blocks l (a # b # c # xs) =
     (let r = enc_blocks (if 68 \<le> l then 0 else l + 4) xs
      in (quad a b c @ (if 68 \<le> l then [10] else []) @ fst r, snd r))"
  by (simp add: Let_def split: prod.split)

lemma enc_blocks_short: "length xs < 3 \<Longrightarrow> enc_blocks l xs = ([], l, xs)"
  by (cases "(l, xs)" rule: enc_blocks.cases) simp_all

lemma three_induct [case_names three short]:
  assumes "\<And>l a b c xs. P (if 68 \<le> l then 0 else l + 4) xs \<Longrightarrow> P l (a # b # c # xs)"
    and "\<And>l xs. length xs < 3 \<Longrightarrow> P (l :: nat) xs"
  shows "P l xs"
proof (induction xs arbitrary: l rule: length_induct)
  case (1 xs)
  show ?case
  proof (cases "length xs < 3")
    case False
    then obtain a b c ys where "xs = a # b # c # ys"
      by (cases xs; cases "tl xs"; cases "tl (tl xs)") auto
    with 1 show ?thesis by (simp add: assms(1))
  qed (rule assms(2))
qed

lemma div3: "Suc (Suc (Suc n)) div 3 = Suc (n div 3)" "(3 + n) div 3 = Suc (n div 3)" "n < 3 \<Longrightarrow> n div 3 = 0"
  for n :: nat
  by simp_all

lemma drop_take3: "drop (3 + n) (a # b # c # xs) = drop n xs" "take (3 + n) (a # b # c # xs) = a # b # c # take n xs"
  by (simp_all add: numeral_3_eq_3)

lemma enc_blocks_rest: "snd (snd (enc_blocks l xs)) = drop (3 * (length xs div 3)) xs"
  by (induction l xs rule: three_induct) (simp_all add: enc_blocks_Cons3 enc_blocks_short Let_def div3 drop_take3 del: enc_blocks.simps)

lemma dec_enc_blocks:
  assumes "length out + 3 * (length xs div 3) \<le> olen"
  shows "dec_loop olen [] 0 out (fst (enc_blocks l xs) @ cs) =
    dec_loop olen [] 0 (out @ take (3 * (length xs div 3)) xs) cs"
  using assms
proof (induction l xs arbitrary: out rule: three_induct)
  case (three l a b c xs)
  have len: "length out + 3 \<le> olen" "length (out @ [a, b, c]) + 3 * (length xs div 3) \<le> olen"
    using three(2) by (simp_all add: div3)
  let ?l = "if 68 \<le> l then 0 else l + 4"
  have "dec_loop olen [] 0 out (fst (enc_blocks l (a # b # c # xs)) @ cs) =
      dec_loop olen [] 0 (out @ [a, b, c]) (fst (enc_blocks ?l xs) @ cs)"
    by (simp add: enc_blocks_Cons3 Let_def dec_loop_quad [OF len(1)] dec_loop_newline del: dec_loop.simps enc_blocks.simps)
  with three(1) [OF len(2)] show ?case by (simp add: div3 drop_take3 del: dec_loop.simps enc_blocks.simps)
qed (simp add: enc_blocks_short div3)

text \<open>The number of characters of the alphabet in an encoded text, and its length.\<close>

abbreviation valid :: "u8 \<Rightarrow> bool" where
  "valid c \<equiv> dt c \<noteq> 0x80"

lemma count_quad: "filter valid (quad a b c) = quad a b c" "length (quad a b c) = 4"
  unfolding quad_def masks by (simp_all only: filter.simps dt_table_valid(1) if_True list.size) simp

lemma count_tail:
  assumes "rest \<noteq> []" "length rest < 3"
  shows "length (filter valid (enc_tail rest)) = 4 \<and> length (enc_tail rest) = 4"
proof -
  have pad: "valid 61" using dtable_separators(1) by simp
  from assms consider a where "rest = [a]" | a b where "rest = [a, b]"
    by (cases rest; cases "tl rest") (auto simp: neq_Nil_conv)
  then have "filter valid (enc_tail rest) = enc_tail rest \<and> length (enc_tail rest) = 4"
    by cases (simp_all only: enc_tail_def list.case masks filter.simps dt_table_valid(1) pad if_True list.size, simp_all)
  then show ?thesis by simp
qed

lemma count_enc_blocks: "length (filter valid (fst (enc_blocks l xs))) = 4 * (length xs div 3)"
proof (induction l xs rule: three_induct)
  case (three l a b c xs)
  have "\<not> valid 10" using dtable_separators(2) by simp
  with three show ?case
    by (simp add: enc_blocks_Cons3 Let_def count_quad div3 del: enc_blocks.simps)
qed (simp add: enc_blocks_short div3)

lemma length_enc_blocks:
  assumes "l < 72" "4 dvd l"
  shows "72 * length (fst (enc_blocks l xs)) + fst (snd (enc_blocks l xs)) = 73 * (4 * (length xs div 3)) + l \<and>
    fst (snd (enc_blocks l xs)) < 72"
  using assms
proof (induction l xs rule: three_induct)
  case (three l a b c xs)
  have "\<not> 68 \<le> l \<Longrightarrow> l + 4 < 72" "l < 72 \<Longrightarrow> 4 dvd l \<Longrightarrow> 68 \<le> l \<Longrightarrow> l = 68" by presburger+
  with three show ?case
    by (auto simp: enc_blocks_Cons3 Let_def count_quad div3 simp del: enc_blocks.simps)
qed (simp add: enc_blocks_short div3)

lemma enc_text_parts:
  obtains out l rest where "enc_blocks 0 xs = (out, l, rest)" "rest = drop (3 * (length xs div 3)) xs"
    "72 * length out + l = 73 * (4 * (length xs div 3))" "l < 72"
    "enc_text xs = out @ enc_tail rest @ (if rest \<noteq> [] \<or> l \<noteq> 0 then [10] else [])"
proof -
  obtain out l rest where eq: "enc_blocks 0 xs = (out, l, rest)" by (cases "enc_blocks 0 xs")
  have "enc_text xs = out @ enc_tail rest @ (if rest \<noteq> [] \<or> l \<noteq> 0 then [10] else [])"
    unfolding enc_text_def eq by simp
  with eq length_enc_blocks [of 0 xs] enc_blocks_rest [of 0 xs] show ?thesis
    by (intro that) auto
qed

lemma enc_size_bound:
  assumes "n < 2 ^ 60"
  shows "enc_size n = 4 * n div 3 + 4 + (4 * n div 3 + 4) div 72 + 1"
  using assms by (simp add: enc_size_def Let_def mult.commute)

lemma enc_text_fits:
  assumes "length xs < 2 ^ 60"
  shows "length (enc_text xs) + 1 \<le> enc_size (length xs)"
proof -
  obtain out l rest where r: "rest = drop (3 * (length xs div 3)) xs"
    and len: "72 * length out + l = 73 * (4 * (length xs div 3))" "l < 72"
    and et: "enc_text xs = out @ enc_tail rest @ (if rest \<noteq> [] \<or> l \<noteq> 0 then [10] else [])"
    by (rule enc_text_parts)
  have r3: "length rest = length xs mod 3" unfolding r by (simp add: minus_mult_div_eq_mod)
  show ?thesis
  proof (cases "rest = []")
    case True
    then have "length (enc_text xs) \<le> length out + 1" by (simp add: et enc_tail_def)
    with len show ?thesis unfolding enc_size_bound [OF assms] by linarith
  next
    case False
    have m: "0 < length xs mod 3" "length rest < 3" using False r3 by (metis length_greater_0_conv, simp)
    with count_tail [OF False] have "length (enc_text xs) = length out + 5" using False by (simp add: et)
    moreover have "4 * (length xs div 3) + 1 \<le> 4 * length xs div 3" using m(1) by presburger
    moreover have "length out \<le> 4 * (length xs div 3) + (4 * (length xs div 3) + 5) div 72" using len by linarith
    moreover have "(4 * (length xs div 3) + 5) div 72 \<le> (4 * length xs div 3 + 4) div 72"
      using calculation(2) by (intro div_le_mono) linarith
    ultimately show ?thesis unfolding enc_size_bound [OF assms] by linarith
  qed
qed

lemma base64_encode_text:
  assumes "length xs < 2 ^ 60"
  shows "base64_encode xs = Buf (enc_text xs)"
proof -
  have "length xs \<le> enc_size (length xs)" unfolding enc_size_bound [OF assms] by linarith
  with enc_text_fits [OF assms] show ?thesis by (simp add: base64_encode_def Let_def)
qed

lemma base64_decode_text:
  assumes "xs \<noteq> []"
  shows "base64_decode (enc_text xs) = Buf xs"
proof -
  obtain out l rest where eq: "enc_blocks 0 xs = (out, l, rest)" and r: "rest = drop (3 * (length xs div 3)) xs"
    and et: "enc_text xs = out @ enc_tail rest @ (if rest \<noteq> [] \<or> l \<noteq> 0 then [10] else [])"
    by (rule enc_text_parts)
  let ?nl = "if rest \<noteq> [] \<or> l \<noteq> 0 then [10] else [] :: bytes"
  have r3: "length rest = length xs mod 3" unfolding r by (simp add: minus_mult_div_eq_mod)
  have nl: "filter valid ?nl = []" using dtable_separators(2) by simp
  have blocks: "length (filter valid out) = 4 * (length xs div 3)"
    using count_enc_blocks [of 0 xs] by (simp add: eq)
  have loop: "dec_loop n [] 0 [] (out @ cs) = dec_loop n [] 0 (take (3 * (length xs div 3)) xs) cs"
    if "3 * (length xs div 3) \<le> n" for n cs
    using dec_enc_blocks [of "[]" xs n 0 cs] that by (simp add: eq)
  show ?thesis
  proof (cases "rest = []")
    case True
    then have t: "take (3 * (length xs div 3)) xs = xs" using r by simp
    with assms have "0 < length xs div 3" by (cases "length xs div 3") auto
    then have "base64_decode (enc_text xs) = dec_loop (length xs div 3 * 3) [] 0 [] (out @ ?nl)"
      using nl blocks unfolding base64_decode_def Let_def et True by (simp add: enc_tail_def del: dec_loop.simps)
    then show ?thesis by (simp add: loop t dtable_separators(2))
  next
    case False
    with r3 have m: "length rest < 3" by simp
    then have "base64_decode (enc_text xs) = dec_loop ((length xs div 3 + 1) * 3) [] 0 [] (out @ enc_tail rest @ ?nl)"
      using nl blocks count_tail [OF False m] unfolding base64_decode_def Let_def et
      by (simp add: filter_append del: dec_loop.simps filter.simps)
    also have "\<dots> = Buf (take (3 * (length xs div 3)) xs @ rest)"
      by (subst loop, simp, rule dec_loop_tail [OF _ False m]) simp
    finally show ?thesis by (simp add: r)
  qed
qed

text \<open>The decoder stays inside its buffer for every input.\<close>

lemma dec_loop_safe:
  assumes "length block < 4" "length out + 3 * ((length block + length (filter valid cs)) div 4) \<le> olen"
  shows "dec_loop olen block pad out cs \<noteq> Undefined"
  using assms
proof (induction cs arbitrary: block pad out)
  case (Cons c cs)
  show ?case
  proof (cases "valid c")
    case True
    let ?b = "block @ [dt c]"
    show ?thesis
    proof (cases "length ?b = 4")
      case last: True
      have len: "length out + 3 + 3 * (length (filter valid cs) div 4) \<le> olen"
        using Cons.prems(2) True last div_add_self1 [of 4 "length (filter valid cs)"] by simp
      then have "dec_loop olen [] p (out @ dec_block ?b) cs \<noteq> Undefined" for p
        by (intro Cons.IH) (simp_all add: length_dec_block)
      with True last len show ?thesis by (simp add: Let_def length_dec_block)
    next
      case False
      then have "dec_loop olen ?b p out cs \<noteq> Undefined" for p
        using Cons.prems True by (intro Cons.IH) auto
      with True False show ?thesis by (simp add: Let_def)
    qed
  qed (use Cons in simp)
qed simp

lemma base64_decode_safe: "base64_decode src \<noteq> Undefined"
  using dec_loop_safe [of "[]" "[]" src "length (filter valid src) div 4 * 3" 0]
  by (simp add: base64_decode_def Let_def)

definition buf_of :: "b64_result \<Rightarrow> bytes option" where
  "buf_of r = (case r of Buf b \<Rightarrow> Some b | _ \<Rightarrow> None)"

interpretation b64_codec: codec "\<lambda>xs. xs \<noteq> [] \<and> length xs < 2 ^ 60" base64_encode
  "\<lambda>r. Option.bind (buf_of r) (\<lambda>t. buf_of (base64_decode t))"
  by unfold_locales (simp add: base64_encode_text base64_decode_text buf_of_def)

text \<open>
  C39. Base64 round trip: for a buffer of fewer than \<open>2 ^ 60\<close> bytes \<open>base64_encode\<close> stays within the
  buffer it allocates and returns a text; if the buffer is not empty \<open>base64_decode\<close> turns the text
  back into it; of the empty buffer the text is empty, which the decoder rejects.
\<close>

theorem base64_round_trip:
  assumes "length xs < 2 ^ 60"
  shows "\<exists>text. base64_encode xs = Buf text \<and> base64_decode text = (if xs = [] then Null else Buf xs)"
proof -
  have "base64_decode (enc_text []) = Null" by (simp add: enc_text_def enc_tail_def base64_decode_def)
  with base64_encode_text [OF assms] base64_decode_text show ?thesis by auto
qed

theorem base64_round_trip_witness:
  "\<exists>text. base64_encode [1, 2, 3, 255] = Buf text \<and> base64_decode text = Buf [1, 2, 3, 255]"
  using base64_round_trip [of "[1, 2, 3, 255]"] by simp

end
