(* ===== verification/WpaBuf.thy ===== *)
theory WpaBuf
  imports Prelude
begin

text \<open>
  hostapd's dynamic data buffers (\<open>src/utils/wpabuf.c\<close>, \<open>wpabuf.h\<close>) and the byte order helpers they use
  (\<open>src/utils/common.h\<close>). \<open>size_t\<close> arithmetic is on natural numbers with the wrap-around of 64 bits
  written out. The list \<open>wb_buf\<close> is the memory that the field \<open>buf\<close> points to. \<open>malloc_ok n\<close> tells whether
  the allocator grants a request of \<open>n\<close> bytes. A call returns, aborts the process
  (\<open>wpabuf_overflow\<close>), or accesses memory outside an object (\<open>UB\<close>). The build has no \<open>WPA_TRACE\<close>.
\<close>

definition sz_add :: "nat \<Rightarrow> nat \<Rightarrow> nat" where
  "sz_add a b = (a + b) mod 2 ^ 64"

subsection \<open>Byte order\<close>

definition WPA_PUT_BE16 :: "u16 \<Rightarrow> bytes" where
  "WPA_PUT_BE16 v = [ucast (drop_bit 8 v), ucast (v AND 0xff)]"

definition WPA_GET_BE16 :: "bytes \<Rightarrow> u16" where
  "WPA_GET_BE16 a = ucast ((push_bit 8 (ucast (a ! 0)) OR ucast (a ! 1)) :: u32)"

definition WPA_PUT_LE16 :: "u16 \<Rightarrow> bytes" where
  "WPA_PUT_LE16 v = [ucast (v AND 0xff), ucast (drop_bit 8 v)]"

definition WPA_GET_LE16 :: "bytes \<Rightarrow> u16" where
  "WPA_GET_LE16 a = ucast ((push_bit 8 (ucast (a ! 1)) OR ucast (a ! 0)) :: u32)"

definition WPA_PUT_BE24 :: "u32 \<Rightarrow> bytes" where
  "WPA_PUT_BE24 v = [ucast (drop_bit 16 v AND 0xff), ucast (drop_bit 8 v AND 0xff), ucast (v AND 0xff)]"

definition WPA_GET_BE24 :: "bytes \<Rightarrow> u32" where
  "WPA_GET_BE24 a = push_bit 16 (ucast (a ! 0)) OR push_bit 8 (ucast (a ! 1)) OR ucast (a ! 2)"

definition WPA_PUT_BE32 :: "u32 \<Rightarrow> bytes" where
  "WPA_PUT_BE32 v = [ucast (drop_bit 24 v AND 0xff), ucast (drop_bit 16 v AND 0xff),
     ucast (drop_bit 8 v AND 0xff), ucast (v AND 0xff)]"

definition WPA_GET_BE32 :: "bytes \<Rightarrow> u32" where
  "WPA_GET_BE32 a = push_bit 24 (ucast (a ! 0)) OR push_bit 16 (ucast (a ! 1)) OR
     push_bit 8 (ucast (a ! 2)) OR ucast (a ! 3)"

definition WPA_PUT_LE32 :: "u32 \<Rightarrow> bytes" where
  "WPA_PUT_LE32 v = [ucast (v AND 0xff), ucast (drop_bit 8 v AND 0xff),
     ucast (drop_bit 16 v AND 0xff), ucast (drop_bit 24 v AND 0xff)]"

definition WPA_GET_LE32 :: "bytes \<Rightarrow> u32" where
  "WPA_GET_LE32 a = push_bit 24 (ucast (a ! 3)) OR push_bit 16 (ucast (a ! 2)) OR
     push_bit 8 (ucast (a ! 1)) OR ucast (a ! 0)"

subsection \<open>The buffer\<close>

record wpabuf =
  wb_size :: nat
  wb_used :: nat
  wb_buf :: bytes
  wb_ext :: bool

definition wpabuf_len :: "wpabuf \<Rightarrow> nat" where
  "wpabuf_len b = wb_used b"

definition wpabuf_tailroom :: "wpabuf \<Rightarrow> nat" where
  "wpabuf_tailroom b = (wb_size b + 2 ^ 64 - wb_used b) mod 2 ^ 64"

text \<open>The size of the header, \<open>sizeof(struct wpabuf)\<close>.\<close>

definition wpabuf_sizeof :: nat where
  "wpabuf_sizeof = 32"

definition wpabuf_alloc :: "(nat \<Rightarrow> bool) \<Rightarrow> nat \<Rightarrow> wpabuf option outcome" where
  "wpabuf_alloc malloc_ok len =
     (let n = sz_add wpabuf_sizeof len
      in if \<not> malloc_ok n then Ret None
         else if n < wpabuf_sizeof then UB
         else Ret (Some \<lparr>wb_size = len, wb_used = 0, wb_buf = replicate (n - wpabuf_sizeof) 0, wb_ext = False\<rparr>))"

definition wpabuf_alloc_ext_data :: "(nat \<Rightarrow> bool) \<Rightarrow> bytes \<Rightarrow> nat \<Rightarrow> wpabuf option" where
  "wpabuf_alloc_ext_data malloc_ok data len =
     (if \<not> malloc_ok wpabuf_sizeof then None
      else Some \<lparr>wb_size = len, wb_used = len, wb_buf = data, wb_ext = True\<rparr>)"

text \<open>
  The pointer that \<open>wpabuf_put\<close> returns is an offset into \<open>wb_buf\<close>.
\<close>

definition wpabuf_put :: "wpabuf \<Rightarrow> nat \<Rightarrow> (nat \<times> wpabuf) outcome" where
  "wpabuf_put b len =
     (let tmp = wpabuf_len b; b = b\<lparr>wb_used := sz_add (wb_used b) len\<rparr>
      in if wb_size b < wb_used b then Abort else Ret (tmp, b))"

text \<open>A store of bytes through a pointer into the buffer.\<close>

definition store :: "wpabuf \<Rightarrow> nat \<Rightarrow> bytes \<Rightarrow> wpabuf outcome" where
  "store b pos xs = bind_outcome (access (wr_range (wb_buf b) pos xs)) (\<lambda>m. Ret (b\<lparr>wb_buf := m\<rparr>))"

definition wpabuf_put_u8 :: "wpabuf \<Rightarrow> u8 \<Rightarrow> wpabuf outcome" where
  "wpabuf_put_u8 b v = bind_outcome (wpabuf_put b 1) (\<lambda>(pos, b). store b pos [v])"

definition wpabuf_put_le16 :: "wpabuf \<Rightarrow> u16 \<Rightarrow> wpabuf outcome" where
  "wpabuf_put_le16 b v = bind_outcome (wpabuf_put b 2) (\<lambda>(pos, b). store b pos (WPA_PUT_LE16 v))"

definition wpabuf_put_le32 :: "wpabuf \<Rightarrow> u32 \<Rightarrow> wpabuf outcome" where
  "wpabuf_put_le32 b v = bind_outcome (wpabuf_put b 4) (\<lambda>(pos, b). store b pos (WPA_PUT_LE32 v))"

definition wpabuf_put_be16 :: "wpabuf \<Rightarrow> u16 \<Rightarrow> wpabuf outcome" where
  "wpabuf_put_be16 b v = bind_outcome (wpabuf_put b 2) (\<lambda>(pos, b). store b pos (WPA_PUT_BE16 v))"

definition wpabuf_put_be24 :: "wpabuf \<Rightarrow> u32 \<Rightarrow> wpabuf outcome" where
  "wpabuf_put_be24 b v = bind_outcome (wpabuf_put b 3) (\<lambda>(pos, b). store b pos (WPA_PUT_BE24 v))"

definition wpabuf_put_be32 :: "wpabuf \<Rightarrow> u32 \<Rightarrow> wpabuf outcome" where
  "wpabuf_put_be32 b v = bind_outcome (wpabuf_put b 4) (\<lambda>(pos, b). store b pos (WPA_PUT_BE32 v))"

text \<open>The source is a null pointer or an object of which \<open>len\<close> bytes are read.\<close>

definition wpabuf_put_data :: "wpabuf \<Rightarrow> bytes option \<Rightarrow> nat \<Rightarrow> wpabuf outcome" where
  "wpabuf_put_data b data len =
     (case data of
        None \<Rightarrow> Ret b
      | Some d \<Rightarrow> bind_outcome (wpabuf_put b len) (\<lambda>(pos, b).
          bind_outcome (access (rd_range d 0 len)) (store b pos)))"

definition wpabuf_put_buf :: "wpabuf \<Rightarrow> wpabuf \<Rightarrow> wpabuf outcome" where
  "wpabuf_put_buf dst src = wpabuf_put_data dst (Some (wb_buf src)) (wpabuf_len src)"

definition wpabuf_put_str :: "wpabuf \<Rightarrow> bytes \<Rightarrow> wpabuf outcome" where
  "wpabuf_put_str dst str = (let s = takeWhile (\<lambda>c. c \<noteq> 0) str in wpabuf_put_data dst (Some str) (length s))"

definition wpabuf_set :: "wpabuf \<Rightarrow> bytes \<Rightarrow> nat \<Rightarrow> wpabuf" where
  "wpabuf_set b data len = b\<lparr>wb_buf := data, wb_ext := True, wb_used := len, wb_size := len\<rparr>"

definition wpabuf_alloc_copy :: "(nat \<Rightarrow> bool) \<Rightarrow> bytes option \<Rightarrow> nat \<Rightarrow> wpabuf option outcome" where
  "wpabuf_alloc_copy malloc_ok data len =
     bind_outcome (wpabuf_alloc malloc_ok len) (\<lambda>r. case r of
         None \<Rightarrow> Ret None
       | Some b \<Rightarrow> bind_outcome (wpabuf_put_data b data len) (\<lambda>b. Ret (Some b)))"

definition wpabuf_dup :: "(nat \<Rightarrow> bool) \<Rightarrow> wpabuf \<Rightarrow> wpabuf option outcome" where
  "wpabuf_dup malloc_ok src =
     bind_outcome (wpabuf_alloc malloc_ok (wpabuf_len src)) (\<lambda>r. case r of
         None \<Rightarrow> Ret None
       | Some b \<Rightarrow> bind_outcome (wpabuf_put_data b (Some (wb_buf src)) (wpabuf_len src)) (\<lambda>b. Ret (Some b)))"

text \<open>
  \<open>wpabuf_resize\<close> returns the status and what the caller's pointer designates afterwards. The bytes that
  \<open>os_realloc\<close> keeps are those of the old object; the ones it adds are set to zero by the call that
  follows, so the new object is determined when the old one holds the used bytes.
\<close>

definition wpabuf_resize :: "(nat \<Rightarrow> bool) \<Rightarrow> wpabuf option \<Rightarrow> nat \<Rightarrow> (int \<times> wpabuf option) outcome" where
  "wpabuf_resize malloc_ok p add_len =
     (case p of
        None \<Rightarrow> bind_outcome (wpabuf_alloc malloc_ok add_len) (\<lambda>b. Ret (if b = None then - 1 else 0, b))
      | Some b \<Rightarrow>
          let nsize = sz_add (wb_used b) add_len;
              request = (if wb_ext b then nsize else sz_add (sz_add wpabuf_sizeof (wb_used b)) add_len)
          in if nsize \<le> wb_size b then Ret (0, Some b)
             else if \<not> malloc_ok request then Ret (- 1, Some b)
             else if \<not> wb_ext b \<and> request < wpabuf_sizeof then UB
             else let room = (if wb_ext b then request else request - wpabuf_sizeof)
                  in bind_outcome (access (rd_range (wb_buf b) 0 (wb_used b))) (\<lambda>kept.
                     if room < wb_used b + add_len then UB
                     else Ret (0, Some (b\<lparr>wb_buf := kept @ replicate add_len 0, wb_size := nsize\<rparr>))))"

text \<open>
  What \<open>wpabuf_free\<close> hands to \<open>os_free\<close>: the data if it is external, and the header, with the
  contents of the memory at that time.
\<close>

definition wpabuf_free :: "wpabuf option \<Rightarrow> bytes list" where
  "wpabuf_free p = (case p of
     None \<Rightarrow> []
   | Some b \<Rightarrow> if wb_ext b then [wb_buf b, []] else [wb_buf b])"

definition wpabuf_clear_free :: "wpabuf option \<Rightarrow> bytes list outcome" where
  "wpabuf_clear_free p = (case p of
     None \<Rightarrow> Ret []
   | Some b \<Rightarrow> bind_outcome (store b 0 (replicate (wpabuf_len b) 0)) (\<lambda>b. Ret (wpabuf_free (Some b))))"

text \<open>\<open>wpabuf_concat\<close> and \<open>wpabuf_zeropad\<close> also return what they free.\<close>

definition wpabuf_concat ::
  "(nat \<Rightarrow> bool) \<Rightarrow> wpabuf option \<Rightarrow> wpabuf option \<Rightarrow> (wpabuf option \<times> bytes list) outcome" where
  "wpabuf_concat malloc_ok a b =
     (case b of
        None \<Rightarrow> Ret (a, [])
      | Some b' \<Rightarrow>
          let len = 0;
              len = (case a of None \<Rightarrow> len | Some a' \<Rightarrow> sz_add len (wpabuf_len a'));
              len = sz_add len (wpabuf_len b')
          in bind_outcome (wpabuf_alloc malloc_ok len) (\<lambda>n.
             bind_outcome (case n of
                 None \<Rightarrow> Ret None
               | Some n \<Rightarrow>
                   bind_outcome (case a of None \<Rightarrow> Ret n | Some a' \<Rightarrow> wpabuf_put_buf n a') (\<lambda>n.
                   bind_outcome (wpabuf_put_buf n b') (\<lambda>n. Ret (Some n)))) (\<lambda>n.
             Ret (n, wpabuf_free a @ wpabuf_free b))))"

definition wpabuf_zeropad ::
  "(nat \<Rightarrow> bool) \<Rightarrow> wpabuf option \<Rightarrow> nat \<Rightarrow> (wpabuf option \<times> bytes list) outcome" where
  "wpabuf_zeropad malloc_ok p len =
     (case p of
        None \<Rightarrow> Ret (None, [])
      | Some b \<Rightarrow>
          let blen = wpabuf_len b
          in if len \<le> blen then Ret (p, [])
             else bind_outcome (wpabuf_alloc malloc_ok len) (\<lambda>r.
                  bind_outcome (case r of
                      None \<Rightarrow> Ret None
                    | Some r \<Rightarrow>
                        bind_outcome (wpabuf_put r (len - blen)) (\<lambda>(pos, r).
                        bind_outcome (store r pos (replicate (len - blen) 0)) (\<lambda>r.
                        bind_outcome (wpabuf_put_buf r b) (\<lambda>r. Ret (Some r))))) (\<lambda>r.
                  Ret (r, wpabuf_free p))))"

text \<open>
  \<open>wpabuf_printf\<close>: \<open>s\<close> is the formatted text, shorter than \<open>2 ^ 31\<close> characters. \<open>vsnprintf\<close> writes at
  most \<open>room - 1\<close> of its characters and a terminator, and nothing at all into an empty space.
\<close>

definition wpabuf_printf :: "wpabuf \<Rightarrow> bytes \<Rightarrow> wpabuf outcome" where
  "wpabuf_printf b s =
     (let room = wpabuf_tailroom b; res = length s
      in bind_outcome (if room = 0 then Ret b else store b (wpabuf_len b) (take (room - 1) s @ [0])) (\<lambda>b.
         if room \<le> res then Abort else Ret (b\<lparr>wb_used := sz_add (wb_used b) res\<rparr>)))"

subsection \<open>The contract of an append buffer\<close>

text \<open>
  The interface the writers of frames rely on: data that fits is appended, anything longer ends the
  program; \<open>inv\<close> is the invariant of the implementation.
\<close>

locale append_buffer =
  fixes inv :: "'b \<Rightarrow> bool"
    and content :: "'b \<Rightarrow> bytes"
    and room :: "'b \<Rightarrow> nat"
    and put :: "'b \<Rightarrow> bytes \<Rightarrow> 'b outcome"
  assumes put_fits: "inv b \<Longrightarrow> length xs \<le> room b \<Longrightarrow>
      \<exists>b'. put b xs = Ret b' \<and> inv b' \<and> content b' = content b @ xs \<and> room b' = room b - length xs"
    and put_overflow: "inv b \<Longrightarrow> length xs < 2 ^ 63 \<Longrightarrow> room b < length xs \<Longrightarrow> put b xs = Abort"
begin

primrec puts :: "'b \<Rightarrow> bytes list \<Rightarrow> 'b outcome" where
  "puts b [] = Ret b"
| "puts b (xs # xss) = bind_outcome (put b xs) (\<lambda>b. puts b xss)"

lemma puts_fits:
  "inv b \<Longrightarrow> length (concat xss) \<le> room b \<Longrightarrow>
     \<exists>b'. puts b xss = Ret b' \<and> inv b' \<and> content b' = content b @ concat xss \<and> room b' = room b - length (concat xss)"
proof (induction xss arbitrary: b)
  case (Cons xs xss)
  then obtain b1 where b1: "put b xs = Ret b1" "inv b1" "content b1 = content b @ xs" "room b1 = room b - length xs"
    using put_fits [of b xs] by auto
  with Cons.prems(2) have "length (concat xss) \<le> room b1" by simp
  from Cons.IH [OF b1(2) this] b1 show ?case by auto
qed simp

lemma puts_overflow:
  "inv b \<Longrightarrow> \<forall>xs \<in> set xss. length xs < 2 ^ 63 \<Longrightarrow> room b < length (concat xss) \<Longrightarrow> puts b xss = Abort"
proof (induction xss arbitrary: b)
  case (Cons xs xss)
  show ?case
  proof (cases "length xs \<le> room b")
    case True
    then obtain b1 where b1: "put b xs = Ret b1" "inv b1" "room b1 = room b - length xs"
      using put_fits [OF Cons.prems(1)] by blast
    with Cons.prems True have "puts b1 xss = Abort" by (intro Cons.IH) auto
    with b1 show ?thesis by simp
  next
    case False
    with Cons.prems put_overflow [of b xs] show ?thesis by simp
  qed
qed simp

lemma puts_cases:
  assumes "inv b" "\<forall>xs \<in> set xss. length xs < 2 ^ 63"
  obtains (fits) b' where "length (concat xss) \<le> room b" "puts b xss = Ret b'" "inv b'"
      "content b' = content b @ concat xss" "room b' = room b - length (concat xss)"
    | (overflow) "room b < length (concat xss)" "puts b xss = Abort"
proof (cases "length (concat xss) \<le> room b")
  case True
  with puts_fits [OF assms(1)] fits show ?thesis by blast
qed (use puts_overflow [OF assms] overflow in simp)

end

subsection \<open>The invariant of a buffer\<close>

definition wpabuf_wf :: "wpabuf \<Rightarrow> bool" where
  "wpabuf_wf b \<longleftrightarrow> wb_used b \<le> wb_size b \<and> wb_size b = length (wb_buf b) \<and> wb_size b < 2 ^ 63"

definition wpabuf_content :: "wpabuf \<Rightarrow> bytes" where
  "wpabuf_content b = take (wb_used b) (wb_buf b)"

lemmas wpabuf_defs = wpabuf_wf_def wpabuf_content_def wpabuf_len_def wpabuf_tailroom_def sz_add_def

lemma length_content: "wpabuf_wf b \<Longrightarrow> length (wpabuf_content b) = wpabuf_len b"
  by (simp add: wpabuf_defs)

lemma tailroom_wf: "wpabuf_wf b \<Longrightarrow> wpabuf_tailroom b = wb_size b - wb_used b"
proof -
  assume "wpabuf_wf b"
  then have le: "wb_used b \<le> wb_size b" and less: "wb_size b - wb_used b < 2 ^ 64" by (auto simp: wpabuf_wf_def)
  from le have "wb_size b + 2 ^ 64 - wb_used b = (wb_size b - wb_used b) + 2 ^ 64" by linarith
  with less show ?thesis unfolding wpabuf_tailroom_def by (simp only: mod_add_self2 mod_less)
qed

lemma wpabuf_put_wf:
  assumes "wpabuf_wf b" "n < 2 ^ 63"
  shows "wpabuf_put b n = (if n \<le> wpabuf_tailroom b then Ret (wb_used b, b\<lparr>wb_used := wb_used b + n\<rparr>) else Abort)"
proof -
  have "sz_add (wb_used b) n = wb_used b + n"
    using assms by (simp add: wpabuf_defs)
  with assms(1) show ?thesis
    by (auto simp: wpabuf_put_def Let_def tailroom_wf wpabuf_len_def wpabuf_wf_def)
qed

lemma store_put:
  assumes "wpabuf_wf b" "length xs \<le> wpabuf_tailroom b"
  shows "\<exists>b'. store (b\<lparr>wb_used := wb_used b + length xs\<rparr>) (wb_used b) xs = Ret b' \<and> wpabuf_wf b' \<and>
     wpabuf_content b' = wpabuf_content b @ xs \<and> wpabuf_tailroom b' = wpabuf_tailroom b - length xs"
proof -
  have le: "wb_used b + length xs \<le> length (wb_buf b)"
    using assms by (auto simp: tailroom_wf wpabuf_wf_def)
  define b' where "b' = b\<lparr>wb_used := wb_used b + length xs,
    wb_buf := take (wb_used b) (wb_buf b) @ xs @ drop (wb_used b + length xs) (wb_buf b)\<rparr>"
  have wf: "wpabuf_wf b'" using assms(1) le by (simp add: b'_def wpabuf_wf_def)
  have "store (b\<lparr>wb_used := wb_used b + length xs\<rparr>) (wb_used b) xs = Ret b'"
    using le by (simp add: store_def wr_range_Some b'_def)
  moreover have "wpabuf_content b' = wpabuf_content b @ xs"
    using le by (simp add: b'_def wpabuf_content_def)
  moreover have "wpabuf_tailroom b' = wpabuf_tailroom b - length xs"
    unfolding tailroom_wf [OF wf] tailroom_wf [OF assms(1)] by (simp add: b'_def)
  ultimately show ?thesis using wf by blast
qed

text \<open>The common shape of the put operations: reserve, then store.\<close>

definition put_bytes :: "wpabuf \<Rightarrow> bytes \<Rightarrow> wpabuf outcome" where
  "put_bytes b xs = bind_outcome (wpabuf_put b (length xs)) (\<lambda>(pos, b). store b pos xs)"

interpretation wb: append_buffer wpabuf_wf wpabuf_content wpabuf_tailroom put_bytes
proof unfold_locales
  fix b :: wpabuf and xs :: bytes
  assume wf: "wpabuf_wf b" and le: "length xs \<le> wpabuf_tailroom b"
  from wf le have "length xs < 2 ^ 63" by (auto simp: tailroom_wf wpabuf_wf_def)
  with wf le show "\<exists>b'. put_bytes b xs = Ret b' \<and> wpabuf_wf b' \<and> wpabuf_content b' = wpabuf_content b @ xs \<and>
      wpabuf_tailroom b' = wpabuf_tailroom b - length xs"
    using store_put [OF wf le] by (simp add: put_bytes_def wpabuf_put_wf)
next
  fix b :: wpabuf and xs :: bytes
  assume "wpabuf_wf b" "length xs < 2 ^ 63" "wpabuf_tailroom b < length xs"
  then show "put_bytes b xs = Abort" by (simp add: put_bytes_def wpabuf_put_wf)
qed

subsection \<open>Sequences of put operations\<close>

datatype put_op = Put_u8 u8 | Put_le16 u16 | Put_le32 u32 | Put_be16 u16 | Put_be24 u32 | Put_be32 u32
  | Put_data "bytes option" nat | Put_buf wpabuf | Put_str bytes

fun run_put :: "wpabuf \<Rightarrow> put_op \<Rightarrow> wpabuf outcome" where
  "run_put b (Put_u8 v) = wpabuf_put_u8 b v"
| "run_put b (Put_le16 v) = wpabuf_put_le16 b v"
| "run_put b (Put_le32 v) = wpabuf_put_le32 b v"
| "run_put b (Put_be16 v) = wpabuf_put_be16 b v"
| "run_put b (Put_be24 v) = wpabuf_put_be24 b v"
| "run_put b (Put_be32 v) = wpabuf_put_be32 b v"
| "run_put b (Put_data d n) = wpabuf_put_data b d n"
| "run_put b (Put_buf s) = wpabuf_put_buf b s"
| "run_put b (Put_str s) = wpabuf_put_str b s"

fun op_ok :: "put_op \<Rightarrow> bool" where
  "op_ok (Put_data (Some d) n) \<longleftrightarrow> n \<le> length d \<and> length d < 2 ^ 63"
| "op_ok (Put_buf s) \<longleftrightarrow> wpabuf_wf s"
| "op_ok (Put_str s) \<longleftrightarrow> 0 \<in> set s \<and> length s < 2 ^ 63"
| "op_ok _ \<longleftrightarrow> True"

text \<open>The bytes an operation is meant to append: numbers in their byte order, most significant first or last.\<close>

definition be_bytes :: "nat \<Rightarrow> nat \<Rightarrow> bytes" where
  "be_bytes n v = map (\<lambda>i. of_nat (v div 256 ^ i)) (rev [0..<n])"

fun op_bytes :: "put_op \<Rightarrow> bytes" where
  "op_bytes (Put_u8 v) = [v]"
| "op_bytes (Put_le16 v) = rev (be_bytes 2 (unat v))"
| "op_bytes (Put_le32 v) = rev (be_bytes 4 (unat v))"
| "op_bytes (Put_be16 v) = be_bytes 2 (unat v)"
| "op_bytes (Put_be24 v) = be_bytes 3 (unat v)"
| "op_bytes (Put_be32 v) = be_bytes 4 (unat v)"
| "op_bytes (Put_data None n) = []"
| "op_bytes (Put_data (Some d) n) = take n d"
| "op_bytes (Put_buf s) = wpabuf_content s"
| "op_bytes (Put_str s) = takeWhile (\<lambda>c. c \<noteq> 0) s"

primrec run_puts :: "wpabuf \<Rightarrow> put_op list \<Rightarrow> wpabuf outcome" where
  "run_puts b [] = Ret b"
| "run_puts b (p # ps) = bind_outcome (run_put b p) (\<lambda>b. run_puts b ps)"

lemma of_nat_div_word:
  fixes v :: "'a::len word"
  shows "(of_nat (unat v div 2 ^ k) :: u8) = ucast (drop_bit k v)"
proof -
  have "drop_bit k (take_bit LENGTH('a) (unat v)) = unat (drop_bit k v)"
    by (rule unsigned_drop_bit_eq [symmetric])
  then have "unat v div 2 ^ k = unat (drop_bit k v)"
    by (simp only: take_bit_nat_eq_self [OF unsigned_less] drop_bit_eq_div)
  then show ?thesis by (simp only: of_nat_unat)
qed

lemma ucast_mask8: "(ucast (v AND 0xff) :: u8) = ucast (v :: 'a::len word)"
proof -
  have "v AND 0xff = take_bit 8 v" by (simp add: take_bit_eq_mask mask_eq_exp_minus_1)
  moreover have "(ucast (take_bit 8 v) :: u8) = ucast v" by (rule bit_word_eqI) (simp add: bit_unsigned_iff bit_take_bit_iff)
  ultimately show ?thesis by simp
qed

lemma length_be_bytes [simp]: "length (be_bytes n v) = n"
  by (simp add: be_bytes_def)

lemma be_bytes_numerals:
  "be_bytes 2 v = [of_nat (v div 2 ^ 8), of_nat (v div 2 ^ 0)]"
  "be_bytes 3 v = [of_nat (v div 2 ^ 16), of_nat (v div 2 ^ 8), of_nat (v div 2 ^ 0)]"
  "be_bytes 4 v = [of_nat (v div 2 ^ 24), of_nat (v div 2 ^ 16), of_nat (v div 2 ^ 8), of_nat (v div 2 ^ 0)]"
  by (simp_all add: be_bytes_def upt_rec)

lemmas put_byte_order = WPA_PUT_BE16_def WPA_PUT_LE16_def WPA_PUT_BE24_def WPA_PUT_BE32_def WPA_PUT_LE32_def

lemma put_byte_order_bytes:
  "WPA_PUT_BE16 v = be_bytes 2 (unat v)" "WPA_PUT_LE16 v = rev (be_bytes 2 (unat v))"
  "WPA_PUT_BE24 w = be_bytes 3 (unat w)" "WPA_PUT_BE32 w = be_bytes 4 (unat w)"
  "WPA_PUT_LE32 w = rev (be_bytes 4 (unat w))"
  by (simp_all only: put_byte_order be_bytes_numerals of_nat_div_word ucast_mask8 rev.simps append.simps drop_bit_0 id_apply)

lemma put_bytes_Nil: "wpabuf_wf b \<Longrightarrow> put_bytes b [] = Ret b"
  by (cases b) (simp add: put_bytes_def wpabuf_put_wf store_def wr_range_def wpabuf_wf_def)

lemma run_put_bytes:
  assumes "op_ok p" "wpabuf_wf b"
  shows "run_put b p = put_bytes b (op_bytes p) \<and> length (op_bytes p) < 2 ^ 63"
proof (cases p)
  case (Put_data d n)
  show ?thesis
  proof (cases d)
    case None
    with Put_data assms(2) show ?thesis by (simp add: wpabuf_put_data_def put_bytes_Nil)
  next
    case (Some x)
    with Put_data assms(1) show ?thesis
      by (simp add: wpabuf_put_data_def put_bytes_def rd_range_Some min_absorb2)
  qed
next
  case (Put_buf s)
  with assms(1) show ?thesis
    by (simp add: wpabuf_put_buf_def wpabuf_put_data_def put_bytes_def rd_range_Some wpabuf_defs)
next
  case (Put_str s)
  have "length (takeWhile (\<lambda>c. c \<noteq> 0) s) \<le> length s" by (rule length_takeWhile_le)
  with Put_str assms(1) show ?thesis
    by (simp add: wpabuf_put_str_def wpabuf_put_data_def put_bytes_def rd_range_Some Let_def takeWhile_eq_take [symmetric])
qed (simp_all add: wpabuf_put_u8_def wpabuf_put_le16_def wpabuf_put_le32_def wpabuf_put_be16_def
       wpabuf_put_be24_def wpabuf_put_be32_def put_byte_order_bytes put_bytes_def)


lemma run_puts_bytes:
  assumes "\<forall>p \<in> set ps. op_ok p" "wpabuf_wf b"
  shows "run_puts b ps = wb.puts b (map op_bytes ps)"
  using assms
proof (induction ps arbitrary: b)
  case (Cons p ps)
  note p = run_put_bytes [of p b]
  show ?case
  proof (cases "length (op_bytes p) \<le> wpabuf_tailroom b")
    case True
    from wb.put_fits [OF Cons.prems(2) True] obtain b' where "put_bytes b (op_bytes p) = Ret b'" "wpabuf_wf b'" by blast
    with Cons p show ?thesis by simp
  next
    case False
    with Cons.prems p have "put_bytes b (op_bytes p) = Abort" by (intro wb.put_overflow) simp_all
    with Cons.prems p show ?thesis by simp
  qed
qed simp

lemma run_puts_char:
  assumes "wpabuf_wf b" "\<forall>p \<in> set ps. op_ok p"
  defines "out \<equiv> concat (map op_bytes ps)"
  shows "if length out \<le> wpabuf_tailroom b
    then \<exists>b'. run_puts b ps = Ret b' \<and> wpabuf_wf b' \<and> wpabuf_content b' = wpabuf_content b @ out \<and>
      wpabuf_tailroom b' = wpabuf_tailroom b - length out
    else run_puts b ps = Abort"
proof -
  have len: "\<forall>xs \<in> set (map op_bytes ps). length xs < 2 ^ 63" using assms(1,2) run_put_bytes by auto
  have eq: "run_puts b ps = wb.puts b (map op_bytes ps)" using assms(1,2) by (rule_tac run_puts_bytes) auto
  from assms(1) len show ?thesis
    unfolding eq out_def by (cases rule: wb.puts_cases) auto
qed

subsection \<open>Allocation\<close>

lemma wpabuf_alloc_char:
  assumes "len < 2 ^ 63 - 32"
  shows "if malloc_ok (32 + len)
    then \<exists>b. wpabuf_alloc malloc_ok len = Ret (Some b) \<and> wpabuf_wf b \<and> wpabuf_content b = [] \<and>
      wpabuf_tailroom b = len \<and> wb_size b = len
    else wpabuf_alloc malloc_ok len = Ret None"
proof -
  let ?b = "\<lparr>wb_size = len, wb_used = 0, wb_buf = replicate len 0, wb_ext = False\<rparr>"
  have "sz_add wpabuf_sizeof len = 32 + len" "\<not> 32 + len < wpabuf_sizeof" "32 + len - wpabuf_sizeof = len"
    using assms by (simp_all add: sz_add_def wpabuf_sizeof_def)
  then have "wpabuf_alloc malloc_ok len = (if malloc_ok (32 + len) then Ret (Some ?b) else Ret None)"
    by (simp add: wpabuf_alloc_def Let_def)
  moreover have "wpabuf_wf ?b" using assms by (simp add: wpabuf_wf_def)
  moreover from tailroom_wf [OF this] have "wpabuf_tailroom ?b = len" by simp
  moreover have "wpabuf_content ?b = []" by (simp add: wpabuf_content_def)
  ultimately show ?thesis by auto
qed

lemma put_buf_bytes:
  "wpabuf_wf s \<Longrightarrow> wpabuf_put_buf b s = put_bytes b (wpabuf_content s)"
  by (simp add: wpabuf_put_buf_def wpabuf_put_data_def put_bytes_def rd_range_Some wpabuf_defs)

lemma wpabuf_resize_char:
  assumes "wpabuf_wf b" "wpabuf_len b + add_len < 2 ^ 63 - 32"
  shows "case wpabuf_resize malloc_ok (Some b) add_len of
      Ret (r, Some b') \<Rightarrow> wpabuf_wf b' \<and> wpabuf_content b' = wpabuf_content b \<and>
        (r = 0 \<and> add_len \<le> wpabuf_tailroom b' \<or> r = - 1 \<and> b' = b \<and> wpabuf_tailroom b < add_len)
    | _ \<Rightarrow> False"
proof -
  have s: "sz_add (wb_used b) add_len = wb_used b + add_len"
    "sz_add (sz_add wpabuf_sizeof (wb_used b)) add_len = 32 + wb_used b + add_len"
    using assms(2) by (simp_all add: sz_add_def wpabuf_sizeof_def wpabuf_len_def)
  let ?b = "b\<lparr>wb_buf := take (wb_used b) (wb_buf b) @ replicate add_len 0, wb_size := wb_used b + add_len\<rparr>"
  let ?request = "if wb_ext b then wb_used b + add_len else 32 + wb_used b + add_len"
  have u: "wb_used b \<le> length (wb_buf b)" "wb_used b \<le> wb_size b" using assms(1) by (auto simp: wpabuf_wf_def)
  have eq: "wpabuf_resize malloc_ok (Some b) add_len =
      (if wb_used b + add_len \<le> wb_size b then Ret (0, Some b)
       else if \<not> malloc_ok ?request then Ret (- 1, Some b) else Ret (0, Some ?b))"
    unfolding wpabuf_resize_def option.case Let_def s
    using u by (simp add: rd_range_Some wpabuf_sizeof_def)
  have wf: "wpabuf_wf ?b" using assms(2) u by (simp add: wpabuf_wf_def wpabuf_len_def)
  have c: "wpabuf_content ?b = wpabuf_content b" using u by (simp add: wpabuf_content_def)
  show ?thesis
    unfolding eq using assms(1) u wf c tailroom_wf [OF wf] tailroom_wf [OF assms(1)] by auto
qed

subsection \<open>Derived operations\<close>

lemma put_fits_content:
  assumes "wpabuf_wf b" "length xs \<le> wpabuf_tailroom b"
  obtains b' where "put_bytes b xs = Ret b'" "wpabuf_wf b'" "wpabuf_content b' = wpabuf_content b @ xs"
    "wpabuf_tailroom b' = wpabuf_tailroom b - length xs"
  using wb.put_fits [OF assms] by blast

lemma wpabuf_concat_char:
  assumes "case a of None \<Rightarrow> True | Some a' \<Rightarrow> wpabuf_wf a'" "wpabuf_wf b"
    and "(case a of None \<Rightarrow> 0 | Some a' \<Rightarrow> wpabuf_len a') + wpabuf_len b < 2 ^ 63 - 32"
    and "malloc_ok (32 + ((case a of None \<Rightarrow> 0 | Some a' \<Rightarrow> wpabuf_len a') + wpabuf_len b))"
  shows "\<exists>n. wpabuf_concat malloc_ok a (Some b) = Ret (Some n, wpabuf_free a @ wpabuf_free (Some b)) \<and>
    wpabuf_wf n \<and> wpabuf_content n = (case a of None \<Rightarrow> [] | Some a' \<Rightarrow> wpabuf_content a') @ wpabuf_content b"
proof -
  let ?la = "case a of None \<Rightarrow> 0 | Some a' \<Rightarrow> wpabuf_len a'"
  let ?ca = "case a of None \<Rightarrow> [] | Some a' \<Rightarrow> wpabuf_content a'"
  have la: "length ?ca = ?la" using assms(1) by (auto simp: length_content split: option.split)
  from wpabuf_alloc_char [OF assms(3), of malloc_ok] assms(4) obtain n
    where n: "wpabuf_alloc malloc_ok (?la + wpabuf_len b) = Ret (Some n)" "wpabuf_wf n" "wpabuf_content n = []"
      "wpabuf_tailroom n = ?la + wpabuf_len b" by auto
  have len: "(case a of None \<Rightarrow> 0 | Some a' \<Rightarrow> sz_add 0 (wpabuf_len a')) = ?la" "sz_add ?la (wpabuf_len b) = ?la + wpabuf_len b"
    using assms(3) by (auto simp: sz_add_def split: option.split)
  from n(2,4) la obtain n1 where n1: "put_bytes n ?ca = Ret n1" "wpabuf_wf n1" "wpabuf_content n1 = ?ca"
      "wpabuf_tailroom n1 = wpabuf_len b"
    using put_fits_content [of n ?ca] n(3) by (metis add_diff_cancel_left' append_Nil le_add1)
  obtain n2 where n2: "put_bytes n1 (wpabuf_content b) = Ret n2" "wpabuf_wf n2" "wpabuf_content n2 = ?ca @ wpabuf_content b"
    using put_fits_content [OF n1(2), of "wpabuf_content b"] n1(3,4) length_content [OF assms(2)] by (metis order_refl)
  have "(case a of None \<Rightarrow> Ret n | Some a' \<Rightarrow> wpabuf_put_buf n a') = Ret n1"
  proof (cases a)
    case None
    with n1(1) n(2) show ?thesis by (simp add: put_bytes_Nil)
  qed (use n1(1) assms(1) in \<open>simp add: put_buf_bytes\<close>)
  then show ?thesis
    unfolding wpabuf_concat_def option.case Let_def len n(1) using n2 assms(2) by (simp add: put_buf_bytes)
qed


lemma wpabuf_zeropad_char:
  assumes "wpabuf_wf b" "len < 2 ^ 63 - 32" "malloc_ok (32 + len)" "wpabuf_len b < len"
  shows "\<exists>r. wpabuf_zeropad malloc_ok (Some b) len = Ret (Some r, wpabuf_free (Some b)) \<and> wpabuf_wf r \<and>
    wpabuf_content r = replicate (len - wpabuf_len b) 0 @ wpabuf_content b"
proof -
  let ?z = "replicate (len - wpabuf_len b) 0 :: bytes"
  from wpabuf_alloc_char [OF assms(2), of malloc_ok] assms(3) obtain r
    where r: "wpabuf_alloc malloc_ok len = Ret (Some r)" "wpabuf_wf r" "wpabuf_content r = []" "wpabuf_tailroom r = len" by auto
  obtain r1 where r1: "put_bytes r ?z = Ret r1" "wpabuf_wf r1" "wpabuf_content r1 = ?z" "wpabuf_tailroom r1 = wpabuf_len b"
    using put_fits_content [OF r(2), of ?z] r(3,4) assms(4) by (auto simp: diff_le_self)
  obtain r2 where r2: "put_bytes r1 (wpabuf_content b) = Ret r2" "wpabuf_wf r2" "wpabuf_content r2 = ?z @ wpabuf_content b"
    using put_fits_content [OF r1(2), of "wpabuf_content b"] r1(3,4) length_content [OF assms(1)] by (metis order_refl)
  obtain pos r' where "wpabuf_put r (len - wpabuf_len b) = Ret (pos, r')" "store r' pos ?z = Ret r1"
    using r1(1) by (cases "wpabuf_put r (len - wpabuf_len b)") (auto simp: put_bytes_def)
  with r(1) r2 assms(1,4) show ?thesis
    unfolding wpabuf_zeropad_def option.case Let_def by (simp add: put_buf_bytes)
qed

lemma wpabuf_alloc_copy_char:
  assumes "len \<le> length d" "len < 2 ^ 63 - 32" "malloc_ok (32 + len)"
  shows "\<exists>b. wpabuf_alloc_copy malloc_ok (Some d) len = Ret (Some b) \<and> wpabuf_wf b \<and> wpabuf_content b = take len d"
proof -
  from wpabuf_alloc_char [OF assms(2), of malloc_ok] assms(3) obtain n
    where n: "wpabuf_alloc malloc_ok len = Ret (Some n)" "wpabuf_wf n" "wpabuf_content n = []" "wpabuf_tailroom n = len" by auto
  from assms(1) have "wpabuf_put_data n (Some d) len = put_bytes n (take len d)"
    by (simp add: wpabuf_put_data_def put_bytes_def rd_range_Some min_absorb2)
  moreover obtain b where "put_bytes n (take len d) = Ret b" "wpabuf_wf b" "wpabuf_content b = take len d"
    using put_fits_content [OF n(2), of "take len d"] n(3,4) by auto
  ultimately show ?thesis by (simp add: wpabuf_alloc_copy_def n(1))
qed

lemma wpabuf_dup_copy: "wpabuf_dup malloc_ok src = wpabuf_alloc_copy malloc_ok (Some (wb_buf src)) (wpabuf_len src)"
  by (simp add: wpabuf_dup_def wpabuf_alloc_copy_def)

lemma wpabuf_printf_char:
  assumes "wpabuf_wf b"
  shows "if length s < wpabuf_tailroom b
    then \<exists>b'. wpabuf_printf b s = Ret b' \<and> wpabuf_wf b' \<and> wpabuf_content b' = wpabuf_content b @ s
    else wpabuf_printf b s = Abort"
proof -
  let ?u = "wb_used b" and ?room = "wpabuf_tailroom b"
  let ?t = "take (?room - 1) s @ [0]"
  have room: "?room = length (wb_buf b) - ?u" "?u \<le> length (wb_buf b)"
    using assms tailroom_wf [OF assms] by (auto simp: wpabuf_wf_def)
  show ?thesis
  proof (cases "?room = 0")
    case False
    have le: "?u + length ?t \<le> length (wb_buf b)" using False room by simp
    then have st: "store b (wpabuf_len b) ?t = Ret (b\<lparr>wb_buf := take ?u (wb_buf b) @ ?t @ drop (?u + length ?t) (wb_buf b)\<rparr>)"
      by (simp only: store_def wpabuf_len_def wr_range_Some access.simps bind_outcome.simps)
    show ?thesis
    proof (cases "length s < ?room")
      case True
      let ?b = "b\<lparr>wb_buf := take ?u (wb_buf b) @ (s @ [0]) @ drop (?u + length (s @ [0])) (wb_buf b), wb_used := ?u + length s\<rparr>"
      have t: "?t = s @ [0]" using True by simp
      have "sz_add ?u (length s) = ?u + length s" using True assms room by (auto simp: sz_add_def wpabuf_wf_def)
      with st True False have "wpabuf_printf b s = Ret ?b"
        unfolding wpabuf_printf_def Let_def t by simp
      moreover have "wpabuf_wf ?b" using assms le t room True by (auto simp: wpabuf_wf_def)
      moreover have "wpabuf_content ?b = wpabuf_content b @ s" using room by (simp add: wpabuf_content_def)
      ultimately show ?thesis using True by auto
    qed (use st False in \<open>simp add: wpabuf_printf_def Let_def\<close>)
  qed (simp add: wpabuf_printf_def Let_def)
qed

lemma wpabuf_clear_free_char:
  assumes "wpabuf_wf b"
  shows "\<exists>rest. wpabuf_clear_free (Some b) = Ret (wpabuf_free (Some (b\<lparr>wb_buf := replicate (wpabuf_len b) 0 @ rest\<rparr>))) \<and>
    rest = drop (wpabuf_len b) (wb_buf b)"
  using assms by (simp add: wpabuf_clear_free_def store_def wr_range_Some wpabuf_defs)

subsection \<open>Byte order round trips\<close>

lemma octets_eqI:
  fixes x y :: "'a::len word"
  assumes "\<And>n. n < 8 \<Longrightarrow> n < LENGTH('a) \<Longrightarrow> bit x n = bit y n"
    and "\<And>n. 8 \<le> n \<Longrightarrow> n < 16 \<Longrightarrow> n < LENGTH('a) \<Longrightarrow> bit x n = bit y n"
    and "\<And>n. 16 \<le> n \<Longrightarrow> n < 24 \<Longrightarrow> n < LENGTH('a) \<Longrightarrow> bit x n = bit y n"
    and "\<And>n. 24 \<le> n \<Longrightarrow> n < LENGTH('a) \<Longrightarrow> bit x n = bit y n"
  shows "x = y"
  by (rule bit_word_eqI) (use assms in \<open>meson not_less\<close>)

lemmas byte_order_defs = put_byte_order WPA_GET_BE16_def WPA_GET_LE16_def WPA_GET_BE24_def
  WPA_GET_BE32_def WPA_GET_LE32_def

lemma get_put_byte_order:
  "WPA_GET_BE16 (WPA_PUT_BE16 v) = v" "WPA_GET_LE16 (WPA_PUT_LE16 v) = v"
  "WPA_GET_BE24 (WPA_PUT_BE24 w) = take_bit 24 w"
  "WPA_GET_BE32 (WPA_PUT_BE32 w) = w" "WPA_GET_LE32 (WPA_PUT_LE32 w) = w"
  unfolding byte_order_defs ucast_mask8
  by (rule octets_eqI; auto simp: bit_simps bit_unsigned_iff)+

text \<open>
  C37. The buffer operations of \<open>wpabuf.h\<close> keep the invariant of a buffer and append exactly the bytes they
  are given: a sequence of put calls on a well-formed buffer succeeds and appends the concatenation of
  the byte strings (numbers in the byte order of their names) if it fits into the tail room, and aborts the
  process otherwise. No sequence writes outside the buffer.
\<close>

theorem wpabuf_put_sequence:
  assumes "wpabuf_wf b" "\<forall>p \<in> set ps. op_ok p"
  shows "if length (concat (map op_bytes ps)) \<le> wpabuf_tailroom b
    then \<exists>b'. run_puts b ps = Ret b' \<and> wpabuf_wf b' \<and>
      wpabuf_content b' = wpabuf_content b @ concat (map op_bytes ps) \<and>
      wpabuf_tailroom b' = wpabuf_tailroom b - length (concat (map op_bytes ps))
    else run_puts b ps = Abort"
  by (rule run_puts_char [OF assms])

text \<open>A buffer of eight bytes: seven bytes fit, nine do not.\<close>

abbreviation buf8 :: wpabuf where
  "buf8 \<equiv> \<lparr>wb_size = 8, wb_used = 0, wb_buf = replicate 8 0, wb_ext = False\<rparr>"

abbreviation buf2 :: wpabuf where
  "buf2 \<equiv> \<lparr>wb_size = 4, wb_used = 2, wb_buf = [5, 6, 0, 0], wb_ext = False\<rparr>"

theorem wpabuf_put_sequence_witness:
  "(\<exists>b. run_puts buf8 [Put_u8 1, Put_be16 0x0203, Put_le32 0x07060504] = Ret b \<and>
      wpabuf_content b = [1, 2, 3, 4, 5, 6, 7]) \<and>
   run_puts buf8 [Put_le32 0, Put_str [1, 0], Put_be32 0] = Abort"
proof -
  have "wpabuf_wf buf8" "wpabuf_tailroom buf8 = 8" "wpabuf_content buf8 = []"
    by (simp_all add: wpabuf_wf_def wpabuf_tailroom_def wpabuf_content_def)
  then show ?thesis
    using wpabuf_put_sequence [of buf8 "[Put_u8 1, Put_be16 0x0203, Put_le32 0x07060504]"]
      wpabuf_put_sequence [of buf8 "[Put_le32 0, Put_str [1, 0], Put_be32 0]"]
    by (auto simp: be_bytes_numerals)
qed

text \<open>
  \<open>wpabuf_resize\<close> of a well-formed buffer never loses data: it succeeds with the same contents and room
  for \<open>add_len\<close> more bytes, or, when the space has to grow and the allocator refuses, it reports \<open>-1\<close>
  and leaves the buffer as it was.
\<close>

lemma wpabuf_resize_keeps_content:
  assumes "wpabuf_wf b" "wpabuf_len b + add_len < 2 ^ 63 - 32"
  shows "case wpabuf_resize malloc_ok (Some b) add_len of
      Ret (r, Some b') \<Rightarrow> wpabuf_wf b' \<and> wpabuf_content b' = wpabuf_content b \<and>
        (r = 0 \<and> add_len \<le> wpabuf_tailroom b' \<or> r = - 1 \<and> b' = b \<and> wpabuf_tailroom b < add_len)
    | _ \<Rightarrow> False"
  by (rule wpabuf_resize_char [OF assms])

text \<open>
  The operations that build a new buffer, when the allocator grants the request: \<open>wpabuf_concat\<close> returns the
  contents of the first buffer followed by those of the second and frees both; \<open>wpabuf_zeropad\<close>
  puts zeros before contents that are too short and frees the source; \<open>wpabuf_dup\<close> copies the contents.
\<close>

lemma wpabuf_derived_contents:
  assumes "wpabuf_wf a" "wpabuf_wf b" "wpabuf_len a + wpabuf_len b < 2 ^ 63 - 32"
    and "len < 2 ^ 63 - 32" "wpabuf_len b < len"
  shows "\<exists>n r d. wpabuf_concat (\<lambda>_. True) (Some a) (Some b) = Ret (Some n, wpabuf_free (Some a) @ wpabuf_free (Some b)) \<and>
      wpabuf_wf n \<and> wpabuf_content n = wpabuf_content a @ wpabuf_content b \<and>
    wpabuf_zeropad (\<lambda>_. True) (Some b) len = Ret (Some r, wpabuf_free (Some b)) \<and>
      wpabuf_wf r \<and> wpabuf_content r = replicate (len - wpabuf_len b) 0 @ wpabuf_content b \<and>
    wpabuf_dup (\<lambda>_. True) b = Ret (Some d) \<and> wpabuf_wf d \<and> wpabuf_content d = wpabuf_content b"
proof -
  have b: "wpabuf_len b \<le> length (wb_buf b)" "wpabuf_len b < 2 ^ 63 - 32"
    using assms(2,3) by (auto simp: wpabuf_wf_def wpabuf_len_def)
  show ?thesis
    using wpabuf_concat_char [of "Some a" b "\<lambda>_. True"] wpabuf_zeropad_char [of b len "\<lambda>_. True"]
      wpabuf_alloc_copy_char [OF b, of "\<lambda>_. True"] assms
    by (auto simp: wpabuf_dup_copy wpabuf_content_def wpabuf_len_def)
qed

text \<open>
  Reading a number back in the byte order in which it was written yields the number; of a number written
  with 24 bits the low 24 bits.
\<close>

lemma wpa_get_put_round_trip:
  "WPA_GET_BE16 (WPA_PUT_BE16 v) = v \<and> WPA_GET_LE16 (WPA_PUT_LE16 v) = v \<and>
   WPA_GET_BE24 (WPA_PUT_BE24 w) = take_bit 24 w \<and>
   WPA_GET_BE32 (WPA_PUT_BE32 w) = w \<and> WPA_GET_LE32 (WPA_PUT_LE32 w) = w"
  by (intro conjI get_put_byte_order)

end
