(* ===== verification/HexText.thy ===== *)
theory HexText
  imports CStrings
begin

text \<open>
  The text conversions of \<open>src/utils/common.c\<close>: hexadecimal numbers, MAC addresses, byte counters, escaped
  strings and the quoted strings of configuration files. A C string is the list of its bytes before the
  terminating NUL; a pointer into it is the rest of the list, and reading at its end gives 0. An output
  buffer is a list of bytes, and a store outside it is the value \<open>None\<close>.
\<close>

subsection \<open>Strings and formatted output\<close>

definition char0 :: "bytes \<Rightarrow> u8" where
  "char0 s = (case s of [] \<Rightarrow> 0 | c # _ \<Rightarrow> c)"

definition os_snprintf :: "bytes \<Rightarrow> nat \<Rightarrow> nat \<Rightarrow> bytes \<Rightarrow> (int \<times> bytes) option" where
  "os_snprintf buf pos room s =
     (if room = 0 then Some (int (length s), buf)
      else do { buf \<leftarrow> wr_range buf pos (take (room - 1) s @ [0]); Some (int (length s), buf) })"

definition os_snprintf_error :: "nat \<Rightarrow> int \<Rightarrow> bool" where
  "os_snprintf_error sz res \<longleftrightarrow> res < 0 \<or> int sz \<le> res"

definition hex_digit :: "bool \<Rightarrow> nat \<Rightarrow> u8" where
  "hex_digit uppercase n = of_nat (if n < 10 then 48 + n else if uppercase then 55 + n else 87 + n)"

text \<open>The conversion \<open>%02x\<close> of a byte (\<open>%02X\<close> in upper case).\<close>

definition fmt_02x :: "bool \<Rightarrow> u8 \<Rightarrow> bytes" where
  "fmt_02x uppercase b = [hex_digit uppercase (unat b div 16), hex_digit uppercase (unat b mod 16)]"

subsection \<open>Hexadecimal numbers\<close>

definition hex2num :: "u8 \<Rightarrow> int" where
  "hex2num c =
     (if 48 \<le> c \<and> c \<le> 57 then uint c - 48
      else if 97 \<le> c \<and> c \<le> 102 then uint c - 97 + 10
      else if 65 \<le> c \<and> c \<le> 70 then uint c - 65 + 10
      else - 1)"

definition hex2byte :: "bytes \<Rightarrow> int" where
  "hex2byte hex =
     (let a = hex2num (char0 hex)
      in if a < 0 then - 1
         else let b = hex2num (char0 (tl hex))
              in if b < 0 then - 1 else push_bit 4 a OR b)"

text \<open>The loop of \<open>hexstr2bin\<close>: status and the output buffer.\<close>

primrec hexstr2bin_loop :: "nat \<Rightarrow> nat \<Rightarrow> bytes \<Rightarrow> bytes \<Rightarrow> (int \<times> bytes) option" where
  "hexstr2bin_loop 0 i ipos buf = Some (0, buf)"
| "hexstr2bin_loop (Suc n) i ipos buf =
     (let a = hex2byte ipos
      in if a < 0 then Some (- 1, buf)
         else do { buf \<leftarrow> wr buf i (word_of_int a); hexstr2bin_loop n (i + 1) (drop 2 ipos) buf })"

definition hexstr2bin :: "bytes \<Rightarrow> bytes \<Rightarrow> nat \<Rightarrow> (int \<times> bytes) option" where
  "hexstr2bin hex buf len = hexstr2bin_loop len 0 hex buf"

primrec snprintf_hex_loop :: "bool \<Rightarrow> nat \<Rightarrow> bytes \<Rightarrow> bytes \<Rightarrow> nat \<Rightarrow> (int \<times> bytes) option" where
  "snprintf_hex_loop uppercase buf_size [] buf pos =
     do { buf \<leftarrow> wr buf (buf_size - 1) 0; Some (int pos, buf) }"
| "snprintf_hex_loop uppercase buf_size (d # ds) buf pos = do {
     (ret, buf) \<leftarrow> os_snprintf buf pos (buf_size - pos) (fmt_02x uppercase d);
     if os_snprintf_error (buf_size - pos) ret
     then do { buf \<leftarrow> wr buf (buf_size - 1) 0; Some (int pos, buf) }
     else snprintf_hex_loop uppercase buf_size ds buf (pos + nat ret) }"

definition wpa_snprintf_hex_case :: "bool \<Rightarrow> bytes \<Rightarrow> nat \<Rightarrow> bytes \<Rightarrow> (int \<times> bytes) option" where
  "wpa_snprintf_hex_case uppercase buf buf_size data =
     (if buf_size = 0 then Some (0, buf) else snprintf_hex_loop uppercase buf_size data buf 0)"

definition wpa_snprintf_hex :: "bytes \<Rightarrow> nat \<Rightarrow> bytes \<Rightarrow> (int \<times> bytes) option" where
  "wpa_snprintf_hex buf buf_size data = wpa_snprintf_hex_case False buf buf_size data"

definition wpa_snprintf_hex_uppercase :: "bytes \<Rightarrow> nat \<Rightarrow> bytes \<Rightarrow> (int \<times> bytes) option" where
  "wpa_snprintf_hex_uppercase buf buf_size data = wpa_snprintf_hex_case True buf buf_size data"

text \<open>The variant with a separator ends with a store at \<open>pos[-1]\<close>.\<close>

primrec hex_sep_loop :: "u8 \<Rightarrow> nat \<Rightarrow> bytes \<Rightarrow> bytes \<Rightarrow> nat \<Rightarrow> (int \<times> bytes) option" where
  "hex_sep_loop sep buf_size [] buf pos =
     (if pos = 0 then None else do { buf \<leftarrow> wr buf (pos - 1) 0; Some (int pos, buf) })"
| "hex_sep_loop sep buf_size (d # ds) buf pos = do {
     (ret, buf) \<leftarrow> os_snprintf buf pos (buf_size - pos) (fmt_02x False d @ [sep]);
     if os_snprintf_error (buf_size - pos) ret
     then do { buf \<leftarrow> wr buf (buf_size - 1) 0; Some (int pos, buf) }
     else hex_sep_loop sep buf_size ds buf (pos + nat ret) }"

definition wpa_snprintf_hex_sep :: "bytes \<Rightarrow> nat \<Rightarrow> bytes \<Rightarrow> u8 \<Rightarrow> (int \<times> bytes) option" where
  "wpa_snprintf_hex_sep buf buf_size data sep =
     (if buf_size = 0 then Some (0, buf) else hex_sep_loop sep buf_size data buf 0)"

subsection \<open>MAC addresses\<close>

text \<open>
  The parsers store into the caller's array of \<open>ETH_ALEN\<close> bytes also when they fail later. \<open>hwaddr_parse\<close>
  returns the array and the rest of the text, or no rest (the null pointer).
\<close>

primrec hwaddr_parse_loop :: "nat \<Rightarrow> nat \<Rightarrow> bytes \<Rightarrow> bytes \<Rightarrow> (bytes option \<times> bytes) option" where
  "hwaddr_parse_loop 0 i s addr = Some (Some s, addr)"
| "hwaddr_parse_loop (Suc n) i s addr =
     (let a = hex2byte s
      in if a < 0 then Some (None, addr)
         else do {
           addr \<leftarrow> wr addr i (word_of_int a);
           let s = drop 2 s;
           if i < 5
           then if char0 s \<noteq> 58 then Some (None, addr) else hwaddr_parse_loop n (i + 1) (tl s) addr
           else hwaddr_parse_loop n (i + 1) s addr })"

definition hwaddr_parse :: "bytes \<Rightarrow> bytes \<Rightarrow> (bytes option \<times> bytes) option" where
  "hwaddr_parse s addr = hwaddr_parse_loop 6 0 s addr"

definition hwaddr_aton :: "bytes \<Rightarrow> bytes \<Rightarrow> (int \<times> bytes) option" where
  "hwaddr_aton s addr = do { (r, addr) \<leftarrow> hwaddr_parse s addr; Some (if r \<noteq> None then 0 else - 1, addr) }"

definition is_space8 :: "u8 \<Rightarrow> bool" where
  "is_space8 c \<longleftrightarrow> c = 32 \<or> 9 \<le> c \<and> c \<le> 13"

definition hwaddr_masked_aton :: "bytes \<Rightarrow> bytes \<Rightarrow> bytes \<Rightarrow> bool \<Rightarrow> (int \<times> bytes \<times> bytes) option" where
  "hwaddr_masked_aton s addr msk maskable = do {
     (r, addr) \<leftarrow> hwaddr_parse s addr;
     case r of
       None \<Rightarrow> Some (- 1, addr, msk)
     | Some r \<Rightarrow>
         if char0 r = 0 \<or> is_space8 (char0 r)
         then do { msk \<leftarrow> wr_range msk 0 (replicate 6 0xff); Some (0, addr, msk) }
         else if maskable \<and> char0 r = 47
         then do { (r, msk) \<leftarrow> hwaddr_parse (tl r) msk; Some (if r = None then - 1 else 0, addr, msk) }
         else Some (- 1, addr, msk) }"

primrec hwaddr_compact_loop :: "nat \<Rightarrow> nat \<Rightarrow> bytes \<Rightarrow> bytes \<Rightarrow> (int \<times> bytes) option" where
  "hwaddr_compact_loop 0 i s addr = Some (0, addr)"
| "hwaddr_compact_loop (Suc n) i s addr =
     (let a = hex2num (char0 s)
      in if a < 0 then Some (- 1, addr)
         else let b = hex2num (char0 (tl s))
              in if b < 0 then Some (- 1, addr)
                 else do { addr \<leftarrow> wr addr i (word_of_int (push_bit 4 a OR b)); hwaddr_compact_loop n (i + 1) (drop 2 s) addr })"

definition hwaddr_compact_aton :: "bytes \<Rightarrow> bytes \<Rightarrow> (int \<times> bytes) option" where
  "hwaddr_compact_aton s addr = hwaddr_compact_loop 6 0 s addr"

text \<open>\<open>hwaddr_aton2\<close> skips separators before every byte and returns the number of characters used.\<close>

primrec hwaddr_aton2_loop :: "nat \<Rightarrow> nat \<Rightarrow> bytes \<Rightarrow> bytes \<Rightarrow> (bytes option \<times> bytes) option" where
  "hwaddr_aton2_loop 0 i s addr = Some (Some s, addr)"
| "hwaddr_aton2_loop (Suc n) i s addr =
     (let s = dropWhile (\<lambda>c. c = 58 \<or> c = 46 \<or> c = 45) s; a = hex2num (char0 s)
      in if a < 0 then Some (None, addr)
         else let b = hex2num (char0 (tl s))
              in if b < 0 then Some (None, addr)
                 else do { addr \<leftarrow> wr addr i (word_of_int (push_bit 4 a OR b)); hwaddr_aton2_loop n (i + 1) (drop 2 s) addr })"

definition hwaddr_aton2 :: "bytes \<Rightarrow> bytes \<Rightarrow> (int \<times> bytes) option" where
  "hwaddr_aton2 s addr = do {
     (r, addr) \<leftarrow> hwaddr_aton2_loop 6 0 s addr;
     Some (case r of None \<Rightarrow> - 1 | Some r \<Rightarrow> int (length s - length r), addr) }"

text \<open>The format \<open>MACSTR\<close> with its arguments \<open>MAC2STR\<close>.\<close>

definition fmt_mac :: "bytes \<Rightarrow> bytes" where
  "fmt_mac a = fmt_02x False (a ! 0) @ 58 # fmt_02x False (a ! 1) @ 58 # fmt_02x False (a ! 2) @ 58 #
     fmt_02x False (a ! 3) @ 58 # fmt_02x False (a ! 4) @ 58 # fmt_02x False (a ! 5)"

definition hwaddr_mask_txt :: "bytes \<Rightarrow> nat \<Rightarrow> bytes \<Rightarrow> bytes \<Rightarrow> (int \<times> bytes) option" where
  "hwaddr_mask_txt buf len addr msk = do {
     let print_mask = list_ex (\<lambda>i. msk ! i \<noteq> 0xff) [0..<6];
     (res, buf) \<leftarrow> os_snprintf buf 0 len (if print_mask then fmt_mac addr @ 47 # fmt_mac msk else fmt_mac addr);
     Some (if os_snprintf_error len res then - 1 else res, buf) }"

definition random_mac_addr :: "bytes option \<Rightarrow> bytes \<Rightarrow> (int \<times> bytes) option" where
  "random_mac_addr rnd addr = (case rnd of
     None \<Rightarrow> Some (- 1, addr)
   | Some r \<Rightarrow> do {
       addr \<leftarrow> wr_range addr 0 (take 6 r);
       v \<leftarrow> rd addr 0;
       addr \<leftarrow> wr addr 0 (v AND 0xfe);
       v \<leftarrow> rd addr 0;
       addr \<leftarrow> wr addr 0 (v OR 0x02);
       Some (0, addr) })"

definition random_mac_addr_keep_oui :: "bytes option \<Rightarrow> bytes \<Rightarrow> (int \<times> bytes) option" where
  "random_mac_addr_keep_oui rnd addr = (case rnd of
     None \<Rightarrow> Some (- 1, addr)
   | Some r \<Rightarrow> do {
       addr \<leftarrow> wr_range addr 3 (take 3 r);
       v \<leftarrow> rd addr 0;
       addr \<leftarrow> wr addr 0 (v AND 0xfe);
       v \<leftarrow> rd addr 0;
       addr \<leftarrow> wr addr 0 (v OR 0x02);
       Some (0, addr) })"

subsection \<open>Counters and time stamps\<close>

text \<open>The loop of \<open>inc_byte_array\<close> runs from the last byte down; \<open>pos\<close> is the index plus one.\<close>

primrec inc_loop :: "nat \<Rightarrow> bytes \<Rightarrow> bytes option" where
  "inc_loop 0 counter = Some counter"
| "inc_loop (Suc pos) counter = do {
     v \<leftarrow> rd counter pos;
     counter \<leftarrow> wr counter pos (v + 1);
     if v + 1 \<noteq> 0 then Some counter else inc_loop pos counter }"

definition inc_byte_array :: "bytes \<Rightarrow> nat \<Rightarrow> bytes option" where
  "inc_byte_array counter len = inc_loop len counter"

definition be32 :: "u32 \<Rightarrow> bytes" where
  "be32 v = [ucast (drop_bit 24 v), ucast (drop_bit 16 v), ucast (drop_bit 8 v), ucast v]"

definition ntp_usec :: "u32 \<Rightarrow> u32" where
  "ntp_usec usec = 4295 * usec - drop_bit 5 usec - drop_bit 9 usec"

definition wpa_get_ntp_timestamp :: "int \<Rightarrow> int \<Rightarrow> bytes \<Rightarrow> bytes option" where
  "wpa_get_ntp_timestamp now_sec now_usec buf = do {
     let sec = (word_of_int (now_sec + 2208988800) :: u32);
     let usec = ntp_usec (word_of_int now_usec);
     buf \<leftarrow> wr_range buf 0 (be32 sec);
     wr_range buf 4 (be32 usec) }"

text \<open>\<open>wpa_scnprintf\<close>: \<open>s\<close> is the formatted text.\<close>

definition wpa_scnprintf :: "bytes \<Rightarrow> nat \<Rightarrow> bytes \<Rightarrow> (int \<times> bytes) option" where
  "wpa_scnprintf buf sz s =
     (if sz = 0 then Some (0, buf)
      else do {
        (ret, buf) \<leftarrow> os_snprintf buf 0 sz s;
        Some (if ret < 0 then 0 else if int sz \<le> ret then int sz - 1 else ret, buf) })"

subsection \<open>Escaped strings\<close>

text \<open>The escape of a byte that has one of its own.\<close>

definition short_escape :: "u8 \<Rightarrow> u8 option" where
  "short_escape d =
     (if d = 34 then Some 34 else if d = 92 then Some 92 else if d = 27 then Some 101
      else if d = 10 then Some 110 else if d = 13 then Some 114 else if d = 9 then Some 116 else None)"

primrec printf_encode_loop :: "nat \<Rightarrow> bytes \<Rightarrow> bytes \<Rightarrow> nat \<Rightarrow> bytes option" where
  "printf_encode_loop maxlen [] buf pos = wr buf pos 0"
| "printf_encode_loop maxlen (d # ds) buf pos =
     (if maxlen \<le> pos + 4 then wr buf pos 0
      else case short_escape d of
        Some e \<Rightarrow> do {
          buf \<leftarrow> wr buf pos 92;
          buf \<leftarrow> wr buf (pos + 1) e;
          printf_encode_loop maxlen ds buf (pos + 2) }
      | None \<Rightarrow>
          if 32 \<le> d \<and> d \<le> 127
          then do { buf \<leftarrow> wr buf pos d; printf_encode_loop maxlen ds buf (pos + 1) }
          else do {
            (ret, buf) \<leftarrow> os_snprintf buf pos (maxlen - pos) (92 # 120 # fmt_02x False d);
            printf_encode_loop maxlen ds buf (pos + nat ret) })"

definition printf_encode :: "bytes \<Rightarrow> nat \<Rightarrow> bytes \<Rightarrow> bytes option" where
  "printf_encode buf maxlen data = printf_encode_loop maxlen data buf 0"

text \<open>
  The body of the loop of \<open>printf_decode\<close> at a character that is not the terminator: the byte it
  stores, if any, and the rest of the text.
\<close>

definition is_octal :: "u8 \<Rightarrow> bool" where
  "is_octal c \<longleftrightarrow> 48 \<le> c \<and> c \<le> 55"

definition octal_escape :: "u8 \<Rightarrow> bytes \<Rightarrow> u8 option \<times> bytes" where
  "octal_escape c s =
     (let val = uint c - 48;
          (val, s) = (if is_octal (char0 s) then (val * 8 + (uint (char0 s) - 48), tl s) else (val, s));
          (val, s) = (if is_octal (char0 s) then (val * 8 + (uint (char0 s) - 48), tl s) else (val, s))
      in (Some (word_of_int val), s))"

definition hex_escape :: "bytes \<Rightarrow> u8 option \<times> bytes" where
  "hex_escape s =
     (let val = hex2byte s
      in if val < 0
         then let val = hex2num (char0 s)
              in if val < 0 then (None, s) else (Some (word_of_int val), tl s)
         else (Some (word_of_int val), drop 2 s))"

definition decode_step :: "u8 \<Rightarrow> bytes \<Rightarrow> u8 option \<times> bytes" where
  "decode_step c s =
     (if c = 92
      then let e = char0 s
           in if e = 92 then (Some 92, tl s)
              else if e = 34 then (Some 34, tl s)
              else if e = 110 then (Some 10, tl s)
              else if e = 114 then (Some 13, tl s)
              else if e = 116 then (Some 9, tl s)
              else if e = 101 then (Some 27, tl s)
              else if e = 120 then hex_escape (tl s)
              else if is_octal e then octal_escape e (tl s)
              else (None, s)
      else (Some c, s))"

lemma hex2num_0: "hex2num 0 = - 1"
  by (simp add: hex2num_def)

lemma length_octal_escape: "length (snd (octal_escape c s)) \<le> length s"
  by (auto simp: octal_escape_def Let_def split: if_splits)

lemma length_hex_escape: "length (snd (hex_escape s)) \<le> length s"
  by (auto simp: hex_escape_def Let_def)

lemma length_decode_step: "length (snd (decode_step c s)) \<le> length s"
  using length_octal_escape [of "char0 s" "tl s"] length_hex_escape [of "tl s"]
  by (auto simp: decode_step_def Let_def)

function printf_decode_loop :: "nat \<Rightarrow> bytes \<Rightarrow> bytes \<Rightarrow> nat \<Rightarrow> (nat \<times> bytes) option" where
  "printf_decode_loop maxlen [] buf len = Some (len, buf)"
| "printf_decode_loop maxlen (c # s) buf len =
     (if maxlen \<le> len + 1 then Some (len, buf)
      else case fst (decode_step c s) of
        None \<Rightarrow> printf_decode_loop maxlen (snd (decode_step c s)) buf len
      | Some v \<Rightarrow> do { buf \<leftarrow> wr buf len v; printf_decode_loop maxlen (snd (decode_step c s)) buf (len + 1) })"
  by pat_completeness auto
termination
  by (relation "measure (\<lambda>(_, s, _, _). length s)") (simp_all add: length_decode_step le_imp_less_Suc)

definition printf_decode :: "bytes \<Rightarrow> nat \<Rightarrow> bytes \<Rightarrow> (nat \<times> bytes) option" where
  "printf_decode buf maxlen str = do {
     (len, buf) \<leftarrow> printf_decode_loop maxlen str buf 0;
     if len < maxlen then do { buf \<leftarrow> wr buf len 0; Some (len, buf) } else Some (len, buf) }"

text \<open>\<open>wpa_ssid_txt\<close> writes into a static array of \<open>SSID_MAX_LEN * 4 + 1\<close> bytes.\<close>

definition wpa_ssid_txt :: "bytes \<Rightarrow> bytes option \<Rightarrow> bytes option" where
  "wpa_ssid_txt ssid_txt ssid = (case ssid of
     None \<Rightarrow> wr ssid_txt 0 0
   | Some d \<Rightarrow> printf_encode ssid_txt (32 * 4 + 1) d)"

subsection \<open>Strings of configuration files\<close>

text \<open>\<open>os_strrchr\<close>: the position of the last occurrence.\<close>

definition strrchr :: "bytes \<Rightarrow> u8 \<Rightarrow> nat option" where
  "strrchr s c = (if c \<in> set s then Some (length s - 1 - length (takeWhile (\<lambda>x. x \<noteq> c) (rev s))) else None)"

text \<open>
  \<open>dup_binstr\<close> copies \<open>len\<close> bytes of an object or of a string (with its terminator) and adds a terminator;
  a null result is the inner \<open>None\<close>. \<open>malloc_ok n\<close> tells whether \<open>os_malloc\<close> grants \<open>n\<close> bytes.
\<close>

definition dup_binstr :: "(nat \<Rightarrow> bool) \<Rightarrow> bytes option \<Rightarrow> nat \<Rightarrow> bytes option option" where
  "dup_binstr malloc_ok src len = (case src of
     None \<Rightarrow> Some None
   | Some s \<Rightarrow> if \<not> malloc_ok (len + 1) then Some None
              else do { d \<leftarrow> rd_range s 0 len; Some (Some (d @ [0])) })"

text \<open>
  The result of \<open>wpa_config_parse_string\<close> is null, or the new string with the length stored through \<open>len\<close>.
  \<open>fresh n\<close> is the indeterminate contents of a new object of \<open>n\<close> bytes.
\<close>

definition wpa_config_parse_string ::
  "(nat \<Rightarrow> bool) \<Rightarrow> (nat \<Rightarrow> bytes) \<Rightarrow> bytes \<Rightarrow> (bytes \<times> nat) option option" where
  "wpa_config_parse_string malloc_ok fresh value =
     (if char0 value = 34 then
        let value = tl value
        in (case strrchr value 34 of
              None \<Rightarrow> Some None
            | Some pos \<Rightarrow>
                if char0 (drop (pos + 1) value) \<noteq> 0 then Some None
                else do {
                  str \<leftarrow> dup_binstr malloc_ok (Some (value @ [0])) pos;
                  case str of None \<Rightarrow> Some None | Some str \<Rightarrow> Some (Some (str, pos)) })
      else if char0 value = 80 \<and> char0 (tl value) = 34 then
        let value = drop 2 value
        in (case strrchr value 34 of
              None \<Rightarrow> Some None
            | Some pos \<Rightarrow>
                if char0 (drop (pos + 1) value) \<noteq> 0 then Some None
                else do {
                  tstr \<leftarrow> dup_binstr malloc_ok (Some (value @ [0])) pos;
                  case tstr of
                    None \<Rightarrow> Some None
                  | Some tstr \<Rightarrow>
                      if \<not> malloc_ok (pos + 1) then Some None
                      else do {
                        (len, str) \<leftarrow> printf_decode (fresh (pos + 1)) (pos + 1) (takeWhile (\<lambda>c. c \<noteq> 0) tstr);
                        Some (Some (str, len)) } })
      else
        let hlen = length value
        in if hlen mod 2 = 1 then Some None
           else let tlen = hlen div 2
                in if \<not> malloc_ok (tlen + 1) then Some None
                   else do {
                     (r, str) \<leftarrow> hexstr2bin value (fresh (tlen + 1)) tlen;
                     if r \<noteq> 0 then Some None
                     else do { str \<leftarrow> wr str tlen 0; Some (Some (str, tlen)) } })"

definition is_hex :: "bytes \<Rightarrow> bool" where
  "is_hex data \<longleftrightarrow> list_ex (\<lambda>d. d < 32 \<or> 127 \<le> d) data"

subsection \<open>Writing text into a buffer\<close>

text \<open>The C string that starts at the beginning of a buffer.\<close>

definition cstr :: "bytes \<Rightarrow> bytes" where
  "cstr buf = takeWhile (\<lambda>c. c \<noteq> 0) buf"

text \<open>A buffer that starts with the text \<open>s\<close>.\<close>

definition starts :: "bytes \<Rightarrow> bytes \<Rightarrow> bool" where
  "starts buf s \<longleftrightarrow> length s \<le> length buf \<and> take (length s) buf = s"

lemma starts_Nil [simp]: "starts buf []"
  by (simp add: starts_def)

lemma starts_appendD: "starts buf (s @ t) \<Longrightarrow> starts buf s"
  by (auto simp: starts_def take_add dest: arg_cong [where f = "take (length s)"])

lemma starts_wr_range:
  assumes "starts buf s" "length s + length t \<le> length buf"
  shows "\<exists>buf'. wr_range buf (length s) t = Some buf' \<and> length buf' = length buf \<and> starts buf' (s @ t)"
  using assms by (simp add: wr_range_Some starts_def)

lemma starts_wr:
  assumes "starts buf s" "length s < length buf"
  shows "\<exists>buf'. wr buf (length s) c = Some buf' \<and> length buf' = length buf \<and> starts buf' (s @ [c])"
  using assms by (simp add: wr_Some starts_def take_Suc_conv_app_nth)

lemma starts_wr_later:
  assumes "starts buf s" "length s \<le> i" "i < length buf"
  shows "\<exists>buf'. wr buf i c = Some buf' \<and> length buf' = length buf \<and> starts buf' s"
  using assms by (simp add: wr_Some starts_def)

lemma starts_snprintf:
  assumes "starts buf s" "length s + length t < n" "n \<le> length buf"
  shows "\<exists>buf'. os_snprintf buf (length s) (n - length s) t = Some (int (length t), buf') \<and>
    length buf' = length buf \<and> starts buf' (s @ t @ [0]) \<and> \<not> os_snprintf_error (n - length s) (int (length t))"
proof -
  have "take (n - length s - 1) t = t" using assms(2) by simp
  moreover obtain buf' where "wr_range buf (length s) (t @ [0]) = Some buf'" "length buf' = length buf"
      "starts buf' (s @ t @ [0])"
    using starts_wr_range [OF assms(1), of "t @ [0]"] assms(2,3) by auto
  ultimately show ?thesis using assms(2) by (simp add: os_snprintf_def os_snprintf_error_def)
qed

lemma cstr_starts: "starts buf (s @ [0]) \<Longrightarrow> 0 \<notin> set s \<Longrightarrow> cstr buf = s"
proof -
  assume s: "starts buf (s @ [0])" "0 \<notin> set s"
  then have "buf = s @ 0 # drop (Suc (length s)) buf"
    unfolding starts_def by (metis append.assoc append_Cons append_Nil append_take_drop_id length_append_singleton)
  moreover have "takeWhile (\<lambda>c. c \<noteq> 0) (s @ 0 # drop (Suc (length s)) buf) = s"
    using s(2) by (subst takeWhile_append2) auto
  ultimately show ?thesis unfolding cstr_def by metis
qed

subsection \<open>Hexadecimal digits\<close>

lemma hex2num_digit:
  assumes "n < 16"
  shows "hex2num (hex_digit u n) = int n"
proof -
  have u: "unat (hex_digit u n) = (if n < 10 then 48 + n else if u then 55 + n else 87 + n)"
    using assms by (auto simp: hex_digit_def unat_of_nat)
  show ?thesis
    using assms unfolding hex2num_def word_le_nat_alt uint_nat u by auto
qed

lemma hex_digit_nonzero: "n < 16 \<Longrightarrow> hex_digit u n \<noteq> 0"
  using hex2num_digit [of n u] hex2num_0 by auto

lemma nibbles: "push_bit 4 (int (n div 16)) OR int (n mod 16) = int n"
proof -
  have "push_bit 4 (int (n div 16)) + int (n mod 16) = push_bit 4 (int (n div 16)) OR int (n mod 16)"
  proof (rule disjunctive_add)
    fix k
    have "int (n mod 16) = take_bit 4 (int n)" by (simp add: take_bit_eq_mod zmod_int)
    then show "\<not> bit (push_bit 4 (int (n div 16))) k \<or> \<not> bit (int (n mod 16)) k"
      by (simp add: bit_simps)
  qed
  moreover have "push_bit 4 (int (n div 16)) + int (n mod 16) = int n"
    by (simp add: push_bit_eq_mult zdiv_int zmod_int)
  ultimately show ?thesis by simp
qed

lemma byte_nibbles: "unat (b :: u8) div 16 < 16" "unat b mod 16 < 16"
  by (rule less_mult_imp_div_less) (simp_all add: unat_u8_less)

lemma hex2byte_fmt: "hex2byte (fmt_02x u b @ s) = uint b"
  by (simp add: hex2byte_def fmt_02x_def char0_def Let_def hex2num_digit byte_nibbles nibbles)

lemma length_fmt_02x [simp]: "length (fmt_02x u b) = 2"
  by (simp add: fmt_02x_def)

lemma fmt_02x_nonzero: "0 \<notin> set (fmt_02x u b)"
  using hex_digit_nonzero [OF byte_nibbles(1)] hex_digit_nonzero [OF byte_nibbles(2)] by (force simp: fmt_02x_def)

abbreviation hex_text :: "bool \<Rightarrow> bytes \<Rightarrow> bytes" where
  "hex_text u data \<equiv> concat (map (fmt_02x u) data)"

lemma length_hex_text: "length (hex_text u data) = 2 * length data"
  by (induction data) simp_all

lemma hex_text_nonzero: "0 \<notin> set (hex_text u data)"
  using fmt_02x_nonzero by auto

text \<open>Printing: the buffer holds the text and, if something was printed, a terminator.\<close>

lemma snprintf_hex_loop_text:
  assumes "starts buf (s @ [0]) \<or> s = []" "length s + 2 * length data < n" "n \<le> length buf"
  shows "\<exists>buf'. snprintf_hex_loop u n data buf (length s) = Some (int (length s + 2 * length data), buf') \<and>
    length buf' = length buf \<and> (starts buf' (s @ hex_text u data @ [0]) \<or> s @ hex_text u data = [])"
  using assms
proof (induction data arbitrary: buf s)
  case Nil
  show ?case
  proof (cases "length s + 1 = n")
    case True
    then have "starts buf s" using Nil(1) starts_appendD by auto
    with True Nil(3) starts_wr [of buf s 0] show ?thesis by auto
  next
    case False
    with Nil starts_wr_later [of buf "s @ [0]" "n - 1" 0] show ?thesis
      by (cases "s = []") (auto simp: wr_Some)
  qed
next
  case (Cons d data)
  have "starts buf s" using Cons.prems(1) starts_appendD by auto
  from starts_snprintf [OF this, of "fmt_02x u d" n] Cons.prems obtain buf1
    where b1: "os_snprintf buf (length s) (n - length s) (fmt_02x u d) = Some (2, buf1)" "length buf1 = length buf"
      "starts buf1 ((s @ fmt_02x u d) @ [0])" "\<not> os_snprintf_error (n - length s) 2" by auto
  with Cons.IH [of buf1 "s @ fmt_02x u d"] Cons.prems show ?case by (auto simp: fmt_02x_def)
qed

lemma hexstr2bin_loop_text:
  assumes "starts buf s" "length s + length data \<le> length buf"
  shows "\<exists>buf'. hexstr2bin_loop (length data) (length s) (hex_text u data @ t) buf = Some (0, buf') \<and>
    length buf' = length buf \<and> starts buf' (s @ data)"
  using assms
proof (induction data arbitrary: buf s)
  case (Cons d data)
  from starts_wr [OF Cons.prems(1), of d] Cons.prems(2) obtain buf1
    where b1: "wr buf (length s) d = Some buf1" "length buf1 = length buf" "starts buf1 (s @ [d])" by auto
  with Cons.IH [of buf1 "s @ [d]"] Cons.prems(2) show ?case
    by (simp add: hex2byte_fmt Let_def)
qed auto


lemma starts_take: "starts buf s \<Longrightarrow> take (length s) buf = s"
  by (simp add: starts_def)

lemma wpa_snprintf_hex_case_char:
  assumes "data \<noteq> []" "2 * length data < n" "n \<le> length buf"
  shows "\<exists>buf'. wpa_snprintf_hex_case u buf n data = Some (2 * int (length data), buf') \<and> cstr buf' = hex_text u data"
proof -
  obtain buf' where "snprintf_hex_loop u n data buf 0 = Some (int (2 * length data), buf')"
      "starts buf' (hex_text u data @ [0]) \<or> hex_text u data = []"
    using snprintf_hex_loop_text [of buf "[]" data n u] assms(2,3) by auto
  moreover have "hex_text u data \<noteq> []"
    using assms(1) length_hex_text [of u data] by (metis length_0_conv mult_is_0 zero_neq_numeral)
  ultimately show ?thesis
    using assms(2) cstr_starts [OF _ hex_text_nonzero] by (auto simp: wpa_snprintf_hex_case_def)
qed

lemma hexstr2bin_text:
  assumes "length data \<le> length out"
  shows "\<exists>out'. hexstr2bin (hex_text u data) out (length data) = Some (0, out') \<and> take (length data) out' = data \<and>
    length out' = length out"
  using hexstr2bin_loop_text [of out "[]" data u "[]"] assms starts_take by (auto simp: hexstr2bin_def)

text \<open>
  Hexadecimal round trip: \<open>wpa_snprintf_hex\<close> (and its upper case variant) into a buffer of at least
  \<open>2 * len + 1\<close> bytes returns \<open>2 * len\<close> and leaves the digits as a terminated string, from which
  \<open>hexstr2bin\<close> restores the bytes.
\<close>

lemma hex_round_trip:
  assumes "data \<noteq> []" "2 * length data < n" "n \<le> length buf" "length data \<le> length out"
  shows "\<exists>lower upper out1 out2.
    wpa_snprintf_hex buf n data = Some (2 * int (length data), lower) \<and>
    wpa_snprintf_hex_uppercase buf n data = Some (2 * int (length data), upper) \<and>
    hexstr2bin (cstr lower) out (length data) = Some (0, out1) \<and> take (length data) out1 = data \<and>
    hexstr2bin (cstr upper) out (length data) = Some (0, out2) \<and> take (length data) out2 = data"
  using wpa_snprintf_hex_case_char [OF assms(1-3), of False] wpa_snprintf_hex_case_char [OF assms(1-3), of True]
    hexstr2bin_text [OF assms(4), of False] hexstr2bin_text [OF assms(4), of True]
  unfolding wpa_snprintf_hex_def wpa_snprintf_hex_uppercase_def by metis

text \<open>
  With no data \<open>wpa_snprintf_hex_sep\<close> stores its terminator in front of the buffer.
\<close>

lemma wpa_snprintf_hex_sep_empty: "0 < n \<Longrightarrow> wpa_snprintf_hex_sep buf n [] sep = None"
  by (simp add: wpa_snprintf_hex_sep_def)

subsection \<open>MAC addresses\<close>

lemma six_bytes:
  assumes "length a = 6"
  obtains a0 a1 a2 a3 a4 a5 where "a = [a0, a1, a2, a3, a4, a5]"
  using assms by (auto simp: numeral_eq_Suc length_Suc_conv)

lemma drop2_fmt: "drop 2 (fmt_02x u b @ s) = s"
  by (simp add: fmt_02x_def)

lemma hwaddr_parse_step:
  "0 < n \<Longrightarrow> i < 5 \<Longrightarrow> i < length addr \<Longrightarrow>
     hwaddr_parse_loop n i (fmt_02x u b @ 58 # s) addr = hwaddr_parse_loop (n - 1) (i + 1) s (addr[i := b])"
  "0 < n \<Longrightarrow> 5 \<le> i \<Longrightarrow> i < length addr \<Longrightarrow>
     hwaddr_parse_loop n i (fmt_02x u b @ s) addr = hwaddr_parse_loop (n - 1) (i + 1) s (addr[i := b])"
  by (cases n; simp add: hex2byte_fmt drop2_fmt wr_Some char0_def Let_def)+

lemma hwaddr_parse_fmt:
  assumes "length a = 6" "length addr = 6"
  shows "hwaddr_parse (fmt_mac a @ t) addr = Some (Some t, a)"
proof -
  obtain a0 a1 a2 a3 a4 a5 where a: "a = [a0, a1, a2, a3, a4, a5]" by (rule six_bytes [OF assms(1)])
  obtain b0 b1 b2 b3 b4 b5 where b: "addr = [b0, b1, b2, b3, b4, b5]" by (rule six_bytes [OF assms(2)])
  show ?thesis
    unfolding hwaddr_parse_def fmt_mac_def a b
    by (simp add: hwaddr_parse_step(1) del: hwaddr_parse_loop.simps) (simp add: hwaddr_parse_step(2) del: hwaddr_parse_loop.simps(2))
qed

lemma fmt_mac_nonzero: "0 \<notin> set (fmt_mac a)"
  using fmt_02x_nonzero by (simp add: fmt_mac_def)

lemma length_fmt_mac: "length (fmt_mac a) = 17"
  by (simp add: fmt_mac_def)


lemma mask_ones:
  assumes "length m = 6" "\<not> list_ex (\<lambda>i. m ! i \<noteq> 0xff) [0..<6]"
  shows "m = replicate 6 (0xff :: u8)"
  using assms by (intro nth_equalityI) (auto simp: list_ex_iff)

lemma hwaddr_mask_txt_char:
  assumes "length a = 6" "length m = 6" "36 \<le> n" "n \<le> length buf"
  shows "\<exists>buf' r. hwaddr_mask_txt buf n a m = Some (int r, buf') \<and> r = length (cstr buf') \<and>
    cstr buf' = (if m = replicate 6 0xff then fmt_mac a else fmt_mac a @ 47 # fmt_mac m)"
proof -
  let ?p = "list_ex (\<lambda>i. m ! i \<noteq> 0xff) [0..<6]"
  let ?t = "if ?p then fmt_mac a @ 47 # fmt_mac m else fmt_mac a"
  have p: "?p \<longleftrightarrow> m \<noteq> replicate 6 0xff" using mask_ones [OF assms(2)] by (auto simp: list_ex_iff)
  have "length ?t < n" using assms(3) by (simp add: length_fmt_mac)
  from starts_snprintf [of buf "[]" ?t n] this assms(4) obtain buf'
    where "os_snprintf buf 0 n ?t = Some (int (length ?t), buf')" "starts buf' (?t @ [0])"
      "\<not> os_snprintf_error n (int (length ?t))" by auto
  moreover from this(2) have "cstr buf' = ?t" by (rule cstr_starts) (simp add: fmt_mac_nonzero)
  ultimately show ?thesis using p by (auto simp: hwaddr_mask_txt_def Let_def)
qed

lemma hwaddr_masked_aton_char:
  assumes "length a = 6" "length m = 6" "length addr = 6" "length msk = 6"
  shows "hwaddr_masked_aton (if m = replicate 6 0xff then fmt_mac a else fmt_mac a @ 47 # fmt_mac m) addr msk True =
    Some (0, a, m)"
  using hwaddr_parse_fmt [OF assms(1,3), of "[]"] hwaddr_parse_fmt [OF assms(1,3), of "47 # fmt_mac m"]
    hwaddr_parse_fmt [OF assms(2,4), of "[]"] assms(4)
  by (auto simp: hwaddr_masked_aton_def char0_def is_space8_def wr_range_def)

text \<open>
  MAC address round trip: \<open>hwaddr_mask_txt\<close> into a buffer of 36 bytes prints an address, with its mask
  unless all bits of the mask are set; \<open>hwaddr_masked_aton\<close> reads address and mask back.
\<close>

lemma hwaddr_mask_round_trip:
  assumes "length a = 6" "length m = 6" "36 \<le> n" "n \<le> length buf" "length addr = 6" "length msk = 6"
  shows "\<exists>r buf'. hwaddr_mask_txt buf n a m = Some (int r, buf') \<and> r = length (cstr buf') \<and>
    hwaddr_masked_aton (cstr buf') addr msk True = Some (0, a, m)"
  using hwaddr_mask_txt_char [OF assms(1-4)] hwaddr_masked_aton_char [OF assms(1,2,5,6)] by auto

subsection \<open>Counters\<close>

fun be_value :: "bytes \<Rightarrow> nat" where
  "be_value [] = 0"
| "be_value (b # bs) = unat b * 256 ^ length bs + be_value bs"

lemma be_value_append: "be_value (xs @ ys) = be_value xs * 256 ^ length ys + be_value ys"
  by (induction xs) (simp_all add: algebra_simps power_add)

lemma be_value_less: "be_value bs < 256 ^ length bs"
proof (induction bs)
  case (Cons b bs)
  have "unat b * 256 ^ length bs + be_value bs < (unat b + 1) * 256 ^ length bs" using Cons by simp
  also have "\<dots> \<le> 256 * 256 ^ length bs" using unat_u8_less [of b] by (intro mult_le_mono1) linarith
  finally show ?case by simp
qed simp

lemma unat_inc8: "unat ((b :: u8) + 1) = (if b + 1 = 0 then 0 else unat b + 1)"
  using unatSuc [of b] by (simp add: add.commute)

lemma inc_loop_char:
  "pos \<le> length c \<Longrightarrow> \<exists>c'. inc_loop pos c = Some c' \<and> length c' = length c \<and> drop pos c' = drop pos c \<and>
     be_value (take pos c') = (be_value (take pos c) + 1) mod 256 ^ pos"
proof (induction pos arbitrary: c)
  case (Suc pos)
  let ?v = "c ! pos"
  let ?c = "c[pos := ?v + 1]"
  have t: "take (Suc pos) x = take pos x @ [x ! pos]" if "length x = length c" for x
    using that Suc.prems by (simp add: take_Suc_conv_app_nth)
  show ?case
  proof (cases "?v + 1 = 0")
    case False
    have "be_value (take (Suc pos) ?c) = be_value (take (Suc pos) c) + 1"
      using Suc.prems unat_inc8 [of ?v] False by (simp add: t be_value_append)
    moreover have "be_value (take (Suc pos) c) + 1 < 256 ^ Suc pos"
      using be_value_less [of "take (Suc pos) ?c"] Suc.prems calculation by simp
    ultimately show ?thesis using Suc.prems False by (simp add: rd_Some wr_Some)
  next
    case True
    then have "?v = - 1" by (simp add: eq_neg_iff_add_eq_0)
    then have v: "unat ?v = 255" by (simp add: unsigned_minus_1_eq_mask mask_eq_exp_minus_1)
    from Suc.IH [of ?c] Suc.prems obtain c' where c': "inc_loop pos ?c = Some c'" "length c' = length c" "drop pos c' = drop pos ?c"
      "be_value (take pos c') = (be_value (take pos c) + 1) mod 256 ^ pos" by auto
    have "c' ! pos = 0" "drop (Suc pos) c' = drop (Suc pos) c"
      using c'(2,3) True Suc.prems by (metis add_0 hd_drop_conv_nth length_list_update nth_list_update_eq Suc_le_eq) 
       (metis c'(3) drop_Suc drop_update_cancel tl_drop lessI)
    moreover have "(256 + x * 256) mod (256 * 256 ^ pos) = 256 * (Suc x mod 256 ^ pos)" for x :: nat
      using mult_mod_right [of 256 "Suc x" "256 ^ pos"] by (simp add: algebra_simps)
    ultimately show ?thesis using c' True v Suc.prems
      by (simp add: rd_Some wr_Some t be_value_append algebra_simps)
  qed
qed simp


text \<open>
  \<open>inc_byte_array\<close> adds one to the big-endian number in the first \<open>len\<close> bytes, modulo \<open>256 ^ len\<close>,
  and leaves the bytes after them alone.
\<close>

lemma inc_byte_array_value:
  assumes "len \<le> length counter"
  shows "\<exists>c. inc_byte_array counter len = Some c \<and> length c = length counter \<and> drop len c = drop len counter \<and>
    be_value (take len c) = (be_value (take len counter) + 1) mod 256 ^ len"
  unfolding inc_byte_array_def by (rule inc_loop_char [OF assms])

subsection \<open>Escaped strings\<close>

definition escape :: "u8 \<Rightarrow> bytes" where
  "escape d = (case short_escape d of
     Some e \<Rightarrow> [92, e]
   | None \<Rightarrow> if 32 \<le> d \<and> d \<le> 127 then [d] else 92 # 120 # fmt_02x False d)"

abbreviation escape_text :: "bytes \<Rightarrow> bytes" where
  "escape_text data \<equiv> concat (map escape data)"

lemma escape_nonzero: "0 \<notin> set (escape d)"
  using fmt_02x_nonzero [of False d] by (auto simp: escape_def short_escape_def)

lemma length_escape: "length (escape d) \<le> 4"
  by (auto simp: escape_def short_escape_def)

lemma escape_text_nonzero: "0 \<notin> set (escape_text data)"
  using escape_nonzero by auto

lemma printf_encode_step:
  assumes "starts buf s" "length s + 4 < n" "n \<le> length buf"
  shows "\<exists>buf'. printf_encode_loop n (d # ds) buf (length s) = printf_encode_loop n ds buf' (length (s @ escape d)) \<and>
    length buf' = length buf \<and> starts buf' (s @ escape d)"
proof -
  have len: "length s < length buf" "\<not> n \<le> length s + 4" using assms(2,3) by simp_all
  consider (short) e where "short_escape d = Some e" | (plain) "short_escape d = None" "32 \<le> d \<and> d \<le> 127"
    | (hex) "short_escape d = None" "\<not> (32 \<le> d \<and> d \<le> 127)" by (cases "short_escape d") auto
  then show ?thesis
  proof cases
    case short
    from starts_wr [OF assms(1) len(1), of 92] obtain b1 where b1: "wr buf (length s) 92 = Some b1"
      "length b1 = length buf" "starts b1 (s @ [92])" by blast
    with starts_wr [OF b1(3), of e] assms(2,3) obtain b2 where "wr b1 (length s + 1) e = Some b2"
      "length b2 = length buf" "starts b2 ((s @ [92]) @ [e])" by auto
    with b1 short len(2) show ?thesis by (intro exI [of _ b2]) (simp add: escape_def)
  next
    case plain
    with starts_wr [OF assms(1) len(1), of d] len(2) show ?thesis by (auto simp: escape_def)
  next
    case hex
    let ?t = "92 # 120 # fmt_02x False d"
    from starts_snprintf [OF assms(1), of ?t n] assms(2,3) obtain b1
      where b1: "os_snprintf buf (length s) (n - length s) ?t = Some (int (length ?t), b1)"
        "length b1 = length buf" "starts b1 ((s @ ?t) @ [0])" by auto
    with hex(1) len(2) starts_appendD [OF b1(3)] show ?thesis
      by (intro exI [of _ b1]) (simp add: escape_def if_not_P [OF hex(2)])
  qed
qed

lemma printf_encode_loop_text:
  assumes "starts buf s" "length s + 4 * length data < n" "n \<le> length buf"
  shows "\<exists>buf'. printf_encode_loop n data buf (length s) = Some buf' \<and> starts buf' (s @ escape_text data @ [0])"
  using assms
proof (induction data arbitrary: buf s)
  case Nil
  with starts_wr [OF Nil(1), of 0] show ?case by auto
next
  case (Cons d data)
  from printf_encode_step [OF Cons.prems(1), of n d data] Cons.prems obtain b1
    where b1: "printf_encode_loop n (d # data) buf (length s) = printf_encode_loop n data b1 (length (s @ escape d))"
      "length b1 = length buf" "starts b1 (s @ escape d)" by auto
  moreover have "length (s @ escape d) + 4 * length data < n" using Cons.prems(2) length_escape [of d] by simp
  ultimately show ?case using Cons.IH [of b1 "s @ escape d"] Cons.prems(3) by simp
qed

lemma printf_encode_char:
  assumes "4 * length data < n" "n \<le> length buf"
  shows "\<exists>buf'. printf_encode buf n data = Some buf' \<and> cstr buf' = escape_text data"
  using printf_encode_loop_text [of buf "[]" data n] assms cstr_starts [OF _ escape_text_nonzero]
  by (auto simp: printf_encode_def)

lemma hex_escape_fmt: "hex_escape (fmt_02x u d @ s) = (Some d, s)"
  by (simp add: hex_escape_def hex2byte_fmt drop2_fmt Let_def)

lemma decode_escape:
  obtains c t where "escape d = c # t" "decode_step c (t @ s) = (Some d, s)"
proof -
  have "escape d \<noteq> [] \<and> decode_step (hd (escape d)) (tl (escape d) @ s) = (Some d, s)"
    by (auto simp: escape_def short_escape_def decode_step_def char0_def hex_escape_fmt Let_def)
  with that show ?thesis by (cases "escape d") auto
qed

lemma printf_decode_loop_text:
  assumes "starts buf out" "length out + length data < n" "n \<le> length buf"
  shows "\<exists>buf'. printf_decode_loop n (escape_text data) buf (length out) = Some (length out + length data, buf') \<and>
    length buf' = length buf \<and> starts buf' (out @ data)"
  using assms
proof (induction data arbitrary: buf out)
  case (Cons d data)
  obtain c t where e: "escape d = c # t" "decode_step c (t @ escape_text data) = (Some d, escape_text data)"
    by (rule decode_escape)
  from starts_wr [OF Cons.prems(1), of d] Cons.prems obtain b1
    where "wr buf (length out) d = Some b1" "length b1 = length buf" "starts b1 (out @ [d])" by auto
  with Cons.IH [of b1 "out @ [d]"] Cons.prems e show ?case by auto
qed simp

lemma printf_decode_char:
  assumes "length data < n" "n \<le> length buf"
  shows "\<exists>buf'. printf_decode buf n (escape_text data) = Some (length data, buf') \<and> length buf' = length buf \<and>
    starts buf' (data @ [0])"
proof -
  obtain b1 where b1: "printf_decode_loop n (escape_text data) buf 0 = Some (length data, b1)" "length b1 = length buf"
      "starts b1 data" using printf_decode_loop_text [of buf "[]" data n] assms by auto
  with starts_wr [OF b1(3), of 0] assms show ?thesis by (auto simp: printf_decode_def)
qed

text \<open>
  C38. Escaped text round trip: \<open>printf_encode\<close> into a buffer of at least \<open>4 * len + 1\<close> bytes leaves a terminated
  string of which \<open>printf_decode\<close> restores the data, zero bytes, quotes and control characters included. In
  particular \<open>wpa_ssid_txt\<close> shows every SSID of up to 32 bytes without loss.
\<close>

theorem printf_round_trip:
  assumes "4 * length data < n" "n \<le> length buf" "length data < k" "k \<le> length out"
  shows "\<exists>buf' out'. printf_encode buf n data = Some buf' \<and>
      printf_decode out k (cstr buf') = Some (length data, out') \<and> take (length data) out' = data \<and>
      (length data \<le> 32 \<longrightarrow> 129 \<le> length buf \<longrightarrow> (\<exists>t. wpa_ssid_txt buf (Some data) = Some t \<and> cstr t = cstr buf'))"
proof -
  obtain buf' where b: "printf_encode buf n data = Some buf'" "cstr buf' = escape_text data"
    using printf_encode_char [OF assms(1,2)] by blast
  obtain out' where "printf_decode out k (escape_text data) = Some (length data, out')" "take (length data) out' = data"
    using printf_decode_char [OF assms(3,4)] starts_take starts_appendD by blast
  with b printf_encode_char [of data 129 buf] show ?thesis by (auto simp: wpa_ssid_txt_def)
qed

theorem printf_round_trip_witness:
  "\<exists>buf' out'. printf_encode (replicate 17 1) 17 [0, 34, 65, 200] = Some buf' \<and>
      printf_decode (replicate 9 1) 9 (cstr buf') = Some (length [0, 34, 65, 200 :: u8], out') \<and>
      take (length [0, 34, 65, 200 :: u8]) out' = [0, 34, 65, 200]"
  using printf_round_trip [of "[0, 34, 65, 200]" 17 "replicate 17 1" 9 "replicate 9 1"] by auto


subsection \<open>Strings of configuration files\<close>

lemma strrchr_last: "strrchr (s @ [c]) c = Some (length s)"
  by (simp add: strrchr_def)

lemma even_hex_text: "length (hex_text u data) mod 2 = 0" "length (hex_text u data) div 2 = length data"
  by (simp_all add: length_hex_text)

lemma hex_text_first: "char0 (hex_text u data) \<noteq> 34" "char0 (hex_text u data) \<noteq> 80"
proof -
  have "hex2num 34 = - 1" "hex2num 80 = - 1" by (simp_all add: hex2num_def)
  then have "hex_digit u n \<noteq> 34" "hex_digit u n \<noteq> 80" if "n < 16" for n
    using hex2num_digit [OF that, of u] by auto
  then show "char0 (hex_text u data) \<noteq> 34" "char0 (hex_text u data) \<noteq> 80"
    using byte_nibbles by (cases data; simp add: char0_def fmt_02x_def)+
qed

lemma parse_quoted: "wpa_config_parse_string (\<lambda>_. True) fresh (34 # s @ [34]) = Some (Some (s @ [0], length s))"
  by (simp add: wpa_config_parse_string_def char0_def strrchr_last dup_binstr_def rd_range_def)

lemma parse_printf:
  assumes "\<And>n. length (fresh n) = n"
  shows "\<exists>str. wpa_config_parse_string (\<lambda>_. True) fresh (80 # 34 # escape_text data @ [34]) = Some (Some (str, length data)) \<and>
    take (length data) str = data"
proof -
  let ?t = "escape_text data"
  have "length data \<le> length ?t"
  proof (induction data)
    case (Cons d data)
    moreover have "1 \<le> length (escape d)" by (auto simp: escape_def Suc_le_eq split: option.split)
    ultimately show ?case by simp
  qed simp
  then obtain str where "printf_decode (fresh (length ?t + 1)) (length ?t + 1) ?t = Some (length data, str)"
      "starts str (data @ [0])"
    using printf_decode_char [of data "length ?t + 1" "fresh (length ?t + 1)"] assms by auto
  moreover have "takeWhile (\<lambda>c. c \<noteq> 0) (?t @ [0]) = ?t"
    using escape_text_nonzero [of data] by (subst takeWhile_append2) auto
  ultimately show ?thesis
    using starts_take starts_appendD
    by (force simp: wpa_config_parse_string_def char0_def strrchr_last dup_binstr_def rd_range_def)
qed

lemma parse_hex:
  assumes "\<And>n. length (fresh n) = n"
  shows "\<exists>str. wpa_config_parse_string (\<lambda>_. True) fresh (hex_text u data) = Some (Some (str, length data)) \<and>
    take (length data) str = data"
proof -
  obtain str where "hexstr2bin (hex_text u data) (fresh (length data + 1)) (length data) = Some (0, str)"
      "take (length data) str = data" "length str = length data + 1"
    using hexstr2bin_text [of data "fresh (length data + 1)" u] assms by auto
  then show ?thesis
    using hex_text_first [of u data] even_hex_text [of u data]
    by (simp add: wpa_config_parse_string_def Let_def wr_Some)
qed

text \<open>
  The three syntaxes of \<open>wpa_config_parse_string\<close>: a quoted string is taken literally (quotes inside it
  included), the string after \<open>P\<close> is decoded from its escapes, and hexadecimal digits are converted to bytes; the
  stored length is that of the value.
\<close>

lemma wpa_config_parse_string_syntaxes:
  assumes "\<And>n. length (fresh n) = n"
  shows "wpa_config_parse_string (\<lambda>_. True) fresh (34 # s @ [34]) = Some (Some (s @ [0], length s)) \<and>
    (\<exists>str. wpa_config_parse_string (\<lambda>_. True) fresh (80 # 34 # escape_text data @ [34]) =
       Some (Some (str, length data)) \<and> take (length data) str = data) \<and>
    (\<exists>str. wpa_config_parse_string (\<lambda>_. True) fresh (hex_text u data) = Some (Some (str, length data)) \<and>
       take (length data) str = data)"
  by (intro conjI parse_quoted parse_printf parse_hex assms)

subsection \<open>Other helpers\<close>

text \<open>
  The fraction of a NTP time stamp: the product may wrap around, the result of the whole computation does not.
\<close>

lemma ntp_usec_exact:
  assumes "unat us < 1000000"
  shows "unat (ntp_usec us) = 4295 * unat us - unat us div 32 - unat us div 512"
proof -
  define u where "u = unat us"
  have eq: "us = word_of_nat u" unfolding u_def by simp
  have d: "drop_bit 5 us = word_of_nat (u div 32)" "drop_bit 9 us = word_of_nat (u div 512)"
    unfolding u_def by (simp_all add: drop_bit_eq_div word_arith_nat_div)
  have le: "u div 32 \<le> 4295 * u" "u div 512 \<le> 4295 * u - u div 32" by linarith+
  have "ntp_usec us = word_of_nat (4295 * u - u div 32 - u div 512)"
    unfolding ntp_usec_def d using le by (simp add: of_nat_diff eq)
  moreover have "unat (word_of_nat (4295 * u - u div 32 - u div 512) :: u32) = 4295 * u - u div 32 - u div 512"
    unfolding unat_of_nat using assms unfolding u_def [symmetric] by simp
  ultimately show ?thesis unfolding u_def by (simp only:)
qed

text \<open>A random address is a locally administered unicast address; the second variant keeps the rest of the OUI.\<close>

lemma local_unicast: "\<not> bit ((v :: u8) AND 0xfe OR 2) 0" "bit (v AND 0xfe OR 2) 1"
  by (simp_all add: bit_simps bit_numeral_rec)

lemma random_mac_addr_char:
  assumes "length addr = 6" "length r = 6"
  shows "\<exists>a. random_mac_addr (Some r) addr = Some (0, a) \<and> tl a = tl r \<and> \<not> bit (a ! 0) 0 \<and> bit (a ! 0) 1"
  using assms local_unicast [of "r ! 0"]
  by (cases r) (auto simp: random_mac_addr_def wr_range_def rd_def wr_def)

lemma random_mac_addr_keep_oui_char:
  assumes "length addr = 6" "length r = 3"
  shows "\<exists>a. random_mac_addr_keep_oui (Some r) addr = Some (0, a) \<and> take 2 (tl a) = take 2 (tl addr) \<and> drop 3 a = r \<and>
    \<not> bit (a ! 0) 0 \<and> bit (a ! 0) 1"
  using assms local_unicast [of "addr ! 0"]
  by (auto simp: random_mac_addr_keep_oui_def wr_range_def rd_def wr_def numeral_eq_Suc length_Suc_conv)

text \<open>The compact form without separators.\<close>

lemma hex2num_nibbles: "hex2num (char0 (fmt_02x u b @ s)) = int (unat b div 16)"
  "hex2num (char0 (tl (fmt_02x u b @ s))) = int (unat b mod 16)"
  by (simp_all add: fmt_02x_def char0_def hex2num_digit byte_nibbles)

lemma hwaddr_compact_loop_text:
  assumes "starts addr s" "length s + length data \<le> length addr"
  shows "\<exists>a. hwaddr_compact_loop (length data) (length s) (hex_text u data @ t) addr = Some (0, a) \<and>
    length a = length addr \<and> starts a (s @ data)"
  using assms
proof (induction data arbitrary: addr s)
  case (Cons d data)
  from starts_wr [OF Cons.prems(1), of d] Cons.prems(2) obtain a1
    where "wr addr (length s) d = Some a1" "length a1 = length addr" "starts a1 (s @ [d])" by auto
  with Cons.IH [of a1 "s @ [d]"] Cons.prems(2) show ?case
    by (simp add: hex2num_nibbles nibbles drop2_fmt Let_def flip: uint_nat)
qed auto

lemma hwaddr_compact_aton_text:
  assumes "length a = 6" "length addr = 6"
  shows "hwaddr_compact_aton (hex_text u a @ t) addr = Some (0, a)"
  using hwaddr_compact_loop_text [of addr "[]" a u t] assms
  by (auto simp: hwaddr_compact_aton_def starts_def)

end
