(* ===== verification/CommonLists.thy ===== *)
theory CommonLists
  imports HexText
begin

text \<open>
  The list helpers of \<open>src/utils/common.c\<close>: zero-terminated \<open>int\<close> arrays, lists of frequency ranges, merged
  byte arrays, tokens and escaped UTF-8 names. An array is the list of its elements with the terminator; a
  read or store outside it is \<open>None\<close>. \<open>realloc_ok\<close> tells whether the allocator grants the request, \<open>fresh n\<close> is the
  indeterminate contents of an object of \<open>n\<close> elements.
\<close>

subsection \<open>Arrays of integers\<close>

primrec int_array_scan :: "int list \<Rightarrow> nat option" where
  "int_array_scan [] = None"
| "int_array_scan (v # vs) = (if v = 0 then Some 0 else do { n \<leftarrow> int_array_scan vs; Some (n + 1) })"

definition int_array_len :: "int list option \<Rightarrow> nat option" where
  "int_array_len a = (case a of None \<Rightarrow> Some 0 | Some a \<Rightarrow> int_array_scan a)"

definition os_realloc :: "(nat \<Rightarrow> 'a list) \<Rightarrow> 'a list option \<Rightarrow> nat \<Rightarrow> 'a list" where
  "os_realloc fresh old n = (case old of None \<Rightarrow> fresh n | Some xs \<Rightarrow> take n (xs @ drop (length xs) (fresh n)))"

text \<open>The result is what \<open>*res\<close> points to afterwards.\<close>

definition int_array_concat ::
  "bool \<Rightarrow> (nat \<Rightarrow> int list) \<Rightarrow> int list option \<Rightarrow> int list option \<Rightarrow> int list option option" where
  "int_array_concat realloc_ok fresh res a = do {
     reslen \<leftarrow> int_array_len res;
     alen \<leftarrow> int_array_len a;
     if \<not> realloc_ok then Some None
     else do {
       n \<leftarrow> for_each (\<lambda>i n. do {
              v \<leftarrow> (case a of None \<Rightarrow> None | Some a \<Rightarrow> rd a i);
              wr n (reslen + i) v }) [0..<alen + 1] (os_realloc fresh res (reslen + alen + 1));
       Some (Some n) } }"

definition freq_cmp :: "int \<Rightarrow> int \<Rightarrow> int option" where
  "freq_cmp a b =
     (if a = 0 then Some 1 else if b = 0 then Some (- 1)
      else if in_int (a - b) then Some (a - b) else None)"

text \<open>The loop that drops repeated neighbours in place; the result is the array and the index \<open>i\<close>.\<close>

function unique_loop :: "int list \<Rightarrow> nat \<Rightarrow> nat \<Rightarrow> (int list \<times> nat) option" where
  "unique_loop a i j =
     (case rd a i of
        None \<Rightarrow> None
      | Some x \<Rightarrow>
          if x = 0 then Some (a, i)
          else case rd a j of
            None \<Rightarrow> None
          | Some y \<Rightarrow>
              if y = 0 then Some (a, i)
              else if x = y then unique_loop a i (j + 1)
              else case wr a (i + 1) y of None \<Rightarrow> None | Some a' \<Rightarrow> unique_loop a' (i + 1) (j + 1))"
  by pat_completeness auto
termination
  by (relation "measure (\<lambda>(a, i, j). length a - j)") (auto simp: rd_eq_Some_iff wr_def split: if_splits)

declare unique_loop.simps [simp del]

text \<open>
  \<open>qsort\<close> with \<open>freq_cmp\<close> sorts the elements before the terminator; none of them is 0, so the order is that of
  the integers as long as no difference overflows, which is asked for every pair.
\<close>

definition int_array_sort_unique :: "int list option \<Rightarrow> int list option option" where
  "int_array_sort_unique a = (case a of
     None \<Rightarrow> Some None
   | Some a \<Rightarrow> do {
       alen \<leftarrow> int_array_scan a;
       let xs = take alen a;
       if list_ex (\<lambda>x. list_ex (\<lambda>y. freq_cmp x y = None) xs) xs then None
       else do {
         (a, i) \<leftarrow> unique_loop (sort xs @ drop alen a) 0 1;
         x \<leftarrow> rd a i;
         a \<leftarrow> wr a (if x \<noteq> 0 then i + 1 else i) 0;
         Some (Some a) } })"

primrec unique_scan :: "int \<Rightarrow> int list \<Rightarrow> nat option option" where
  "unique_scan a [] = None"
| "unique_scan a (v # vs) =
     (if v = 0 then Some (Some 0)
      else if v = a then Some None
      else do { r \<leftarrow> unique_scan a vs; Some (map_option Suc r) })"

definition int_array_add_unique ::
  "bool \<Rightarrow> (nat \<Rightarrow> int list) \<Rightarrow> int list option \<Rightarrow> int \<Rightarrow> int list option option" where
  "int_array_add_unique realloc_ok fresh res a = do {
     r \<leftarrow> (case res of None \<Rightarrow> Some (Some 0) | Some xs \<Rightarrow> unique_scan a xs);
     case r of
       None \<Rightarrow> Some res
     | Some reslen \<Rightarrow>
         if \<not> realloc_ok then Some None
         else do {
           n \<leftarrow> wr (os_realloc fresh res (reslen + 2)) reslen a;
           n \<leftarrow> wr n (reslen + 1) 0;
           Some (Some n) } }"

subsection \<open>Merged byte arrays\<close>

definition merge_byte_arrays ::
  "bytes \<Rightarrow> nat \<Rightarrow> bytes option \<Rightarrow> nat \<Rightarrow> bytes option \<Rightarrow> nat \<Rightarrow> (nat \<times> bytes) option" where
  "merge_byte_arrays res res_len src1 src1_len src2 src2_len = do {
     res \<leftarrow> wr_range res 0 (replicate res_len 0);
     (stop, len, res) \<leftarrow> (case src1 of
         None \<Rightarrow> Some (False, 0, res)
       | Some s \<Rightarrow>
           if res_len \<le> src1_len
           then do { d \<leftarrow> rd_range s 0 res_len; res \<leftarrow> wr_range res 0 d; Some (True, res_len, res) }
           else do { d \<leftarrow> rd_range s 0 src1_len; res \<leftarrow> wr_range res 0 d; Some (False, src1_len, res) });
     if stop then Some (len, res)
     else case src2 of
         None \<Rightarrow> Some (len, res)
       | Some s \<Rightarrow>
           if res_len \<le> len + src2_len
           then do { d \<leftarrow> rd_range s 0 (res_len - len); res \<leftarrow> wr_range res len d; Some (res_len, res) }
           else do { d \<leftarrow> rd_range s 0 src2_len; res \<leftarrow> wr_range res len d; Some (len + src2_len, res) } }"

subsection \<open>Frequency ranges\<close>

record wpa_freq_range =
  rmin :: nat
  rmax :: nat

text \<open>\<open>os_strchr\<close>: the position of the first occurrence.\<close>

definition strchr :: "'a list \<Rightarrow> 'a \<Rightarrow> nat option" where
  "strchr s c = (if c \<in> set s then Some (length (takeWhile (\<lambda>x. x \<noteq> c) s)) else None)"

definition to_unsigned :: "int \<Rightarrow> nat" where
  "to_unsigned i = nat (i mod 2 ^ 32)"

definition parse_range :: "string \<Rightarrow> wpa_freq_range option" where
  "parse_range pos = do {
     mn \<leftarrow> atoi pos;
     let pos2 = strchr pos CHR ''-'';
     let pos3 = strchr pos CHR '','';
     mx \<leftarrow> (case pos2 of
         None \<Rightarrow> Some mn
       | Some p2 \<Rightarrow>
           if (case pos3 of None \<Rightarrow> True | Some p3 \<Rightarrow> p2 < p3) then atoi (drop (p2 + 1) pos) else Some mn);
     Some \<lparr>rmin = to_unsigned mn, rmax = to_unsigned mx\<rparr> }"

text \<open>The result is \<open>None\<close> for the return value \<open>-1\<close>; \<open>realloc_ok n\<close> tells whether there is memory for \<open>n\<close> ranges.\<close>

function freq_range_loop ::
  "(nat \<Rightarrow> bool) \<Rightarrow> string \<Rightarrow> wpa_freq_range list \<Rightarrow> wpa_freq_range list option option" where
  "freq_range_loop realloc_ok pos freq =
     (if pos = [] then Some (Some freq)
      else if \<not> realloc_ok (length freq + 1) then Some None
      else case parse_range pos of
        None \<Rightarrow> None
      | Some r \<Rightarrow> (case strchr pos CHR '','' of
          None \<Rightarrow> Some (Some (freq @ [r]))
        | Some p3 \<Rightarrow> freq_range_loop realloc_ok (drop (p3 + 1) pos) (freq @ [r])))"
  by pat_completeness auto
termination
  by (relation "measure (\<lambda>(_, pos, _). length pos)") auto

declare freq_range_loop.simps [simp del]

text \<open>Status and the list afterwards.\<close>

definition freq_range_list_parse ::
  "(nat \<Rightarrow> bool) \<Rightarrow> wpa_freq_range list \<Rightarrow> string option \<Rightarrow> (int \<times> wpa_freq_range list) option" where
  "freq_range_list_parse realloc_ok res value = (case value of
     None \<Rightarrow> Some (0, [])
   | Some s \<Rightarrow> do {
       r \<leftarrow> freq_range_loop realloc_ok s [];
       Some (case r of None \<Rightarrow> (- 1, res) | Some freq \<Rightarrow> (0, freq)) })"

definition freq_range_list_includes :: "wpa_freq_range list option \<Rightarrow> nat \<Rightarrow> bool" where
  "freq_range_list_includes xs freq = (case xs of
     None \<Rightarrow> False
   | Some rs \<Rightarrow> list_ex (\<lambda>r. rmin r \<le> freq \<and> freq \<le> rmax r) rs)"

text \<open>
  \<open>freq_range_list_str\<close> appends to a buffer of \<open>num * 30\<close> bytes; \<open>out\<close> is the text so far. The piece is written if
  it fits with its terminator, otherwise the function returns null.
\<close>

definition range_text :: "bool \<Rightarrow> wpa_freq_range \<Rightarrow> string" where
  "range_text first r = (if first then [] else '','') @
     (if rmin r = rmax r then fmt_u (rmin r) else fmt_u (rmin r) @ CHR ''-'' # fmt_u (rmax r))"

primrec range_str_loop :: "nat \<Rightarrow> wpa_freq_range list \<Rightarrow> string \<Rightarrow> bool \<Rightarrow> string option" where
  "range_str_loop maxlen [] out first = Some out"
| "range_str_loop maxlen (r # rs) out first =
     (let s = range_text first r; (res, t) = snprintf (maxlen - length out) s
      in if os_snprintf_error (maxlen - length out) res then None
         else range_str_loop maxlen rs (out @ t) False)"

definition freq_range_list_str :: "(nat \<Rightarrow> bool) \<Rightarrow> wpa_freq_range list \<Rightarrow> string option" where
  "freq_range_list_str malloc_ok rs =
     (if rs = [] then None
      else let maxlen = length rs * 30 mod 2 ^ 32
           in if \<not> malloc_ok maxlen then None else range_str_loop maxlen rs [] True)"

subsection \<open>Tokens\<close>

text \<open>Pointers into the string are positions; the result is the token and the new value of \<open>*last\<close>.\<close>

definition cstr_token :: "bytes \<Rightarrow> bytes \<Rightarrow> nat option \<Rightarrow> nat option \<times> nat option" where
  "cstr_token str delim lst =
     (let token = (case lst of None \<Rightarrow> 0 | Some l \<Rightarrow> l);
          token = token + length (takeWhile (\<lambda>c. c \<in> set delim) (drop token str))
      in if length str \<le> token then (None, lst)
         else let e = token + 1; e = e + length (takeWhile (\<lambda>c. c \<notin> set delim) (drop e str))
              in (Some token, Some e))"

text \<open>\<open>str_token\<close> also terminates the token in the caller's array, which holds the string and its terminator.\<close>

definition str_token :: "bytes \<Rightarrow> bytes \<Rightarrow> nat option \<Rightarrow> (nat option \<times> nat option \<times> bytes) option" where
  "str_token arr delim ctx =
     (let from = (case ctx of None \<Rightarrow> 0 | Some l \<Rightarrow> l);
          str = take from arr @ takeWhile (\<lambda>c. c \<noteq> 0) (drop from arr)
      in case cstr_token str delim ctx of
           (Some token, Some e) \<Rightarrow> do {
             c \<leftarrow> rd arr e;
             if c \<noteq> 0 then do { arr \<leftarrow> wr arr e 0; Some (Some token, Some (e + 1), arr) }
             else Some (Some token, Some e, arr) }
         | (r, ctx) \<Rightarrow> Some (r, ctx, arr))"

subsection \<open>Escaped names\<close>

text \<open>
  The loops read the input to its end (\<open>in_size\<close> counts it) and store through \<open>outp\<close>; the result is the
  returned size and the output.
\<close>

primrec utf8_escape_loop :: "bytes \<Rightarrow> nat \<Rightarrow> bytes \<Rightarrow> nat \<Rightarrow> nat \<Rightarrow> (nat \<times> bytes) option" where
  "utf8_escape_loop [] out_size out o_pos res_size =
     (if res_size < out_size then do { out \<leftarrow> wr out o_pos 0; Some (res_size, out) } else Some (res_size, out))"
| "utf8_escape_loop (c # cs) out_size out o_pos res_size =
     (if out_size \<le> res_size then Some (0, out)
      else if c = 92 \<or> c = 39
      then if out_size \<le> res_size + 1 then Some (0, out)
           else do {
             out \<leftarrow> wr out o_pos 92;
             out \<leftarrow> wr out (o_pos + 1) c;
             utf8_escape_loop cs out_size out (o_pos + 2) (res_size + 2) }
      else do { out \<leftarrow> wr out o_pos c; utf8_escape_loop cs out_size out (o_pos + 1) (res_size + 1) })"

definition utf8_input :: "bytes \<Rightarrow> nat \<Rightarrow> bytes option" where
  "utf8_input inp in_size = (if in_size = 0 then Some (takeWhile (\<lambda>c. c \<noteq> 0) inp) else rd_range inp 0 in_size)"

definition utf8_escape :: "bytes option \<Rightarrow> nat \<Rightarrow> bytes option \<Rightarrow> nat \<Rightarrow> (nat \<times> bytes option) option" where
  "utf8_escape inp in_size outp out_size = (case (inp, outp) of
     (Some inp, Some out) \<Rightarrow> do {
       s \<leftarrow> utf8_input inp in_size;
       (n, out) \<leftarrow> utf8_escape_loop s out_size out 0 0;
       Some (n, Some out) }
   | _ \<Rightarrow> Some (0, outp))"

fun utf8_unescape_loop :: "bytes \<Rightarrow> nat \<Rightarrow> bytes \<Rightarrow> nat \<Rightarrow> (nat \<times> bytes) option" where
  "utf8_unescape_loop [] out_size out res_size =
     (if res_size < out_size then do { out \<leftarrow> wr out res_size 0; Some (res_size, out) } else Some (res_size, out))"
| "utf8_unescape_loop (c # cs) out_size out res_size =
     (if out_size \<le> res_size then Some (0, out)
      else if c = 39 then do { out \<leftarrow> wr out res_size 0; Some (res_size, out) }
      else if c = 92
      then (case cs of
          [] \<Rightarrow> Some (0, out)
        | d # ds \<Rightarrow> do { out \<leftarrow> wr out res_size d; utf8_unescape_loop ds out_size out (res_size + 1) })
      else do { out \<leftarrow> wr out res_size c; utf8_unescape_loop cs out_size out (res_size + 1) })"

definition utf8_unescape :: "bytes option \<Rightarrow> nat \<Rightarrow> bytes option \<Rightarrow> nat \<Rightarrow> (nat \<times> bytes option) option" where
  "utf8_unescape inp in_size outp out_size = (case (inp, outp) of
     (Some inp, Some out) \<Rightarrow> do {
       s \<leftarrow> utf8_input inp in_size;
       let s = (if char0 s = 39 then tl s else s);
       (n, out) \<leftarrow> utf8_unescape_loop s out_size out 0;
       Some (n, Some out) }
   | _ \<Rightarrow> Some (0, outp))"

definition is_ctrl_char :: "u8 \<Rightarrow> bool" where
  "is_ctrl_char c \<longleftrightarrow> 0 < c \<and> c < 32"

subsection \<open>Arrays of integers\<close>

lemma int_array_scan_terminated: "0 \<notin> set xs \<Longrightarrow> int_array_scan (xs @ 0 # rest) = Some (length xs)"
  by (induction xs) auto

lemma rd_middle: "rd (xs @ y # ys) (length xs) = Some y"
  by (simp add: rd_def)

lemma wr_middle: "wr (xs @ y # ys) (length xs) v = Some (xs @ v # ys)"
  by (simp add: wr_def)

lemma unique_loop_char:
  assumes "x \<noteq> 0" "0 \<notin> set rem"
  shows "\<exists>junk. unique_loop (u @ x # mid @ rem @ 0 # rest) (length u) (length u + 1 + length mid) =
      Some (u @ remdups_adj (x # rem) @ junk @ 0 # rest, length u + length (remdups_adj (x # rem)) - 1) \<and>
    length (remdups_adj (x # rem)) + length junk = 1 + length mid + length rem"
  using assms
proof (induction rem arbitrary: u x mid)
  case Nil
  have "rd (u @ x # mid @ 0 # rest) (length u) = Some x" by (rule rd_middle)
  moreover have "rd (u @ x # mid @ 0 # rest) (length u + 1 + length mid) = Some 0"
    using rd_middle [of "u @ x # mid" 0 rest] by simp
  ultimately show ?case using Nil(1) by (simp add: unique_loop.simps)
next
  case (Cons y rem)
  let ?a = "u @ x # mid @ (y # rem) @ 0 # rest"
  have x: "rd ?a (length u) = Some x" by (rule rd_middle)
  have y: "rd ?a (length u + 1 + length mid) = Some y" using rd_middle [of "u @ x # mid" y "rem @ 0 # rest"] by simp
  show ?case
  proof (cases "x = y")
    case True
    have "unique_loop ?a (length u) (length u + 1 + length mid) =
        unique_loop (u @ x # (mid @ [y]) @ rem @ 0 # rest) (length u) (length u + 1 + length (mid @ [y]))"
      using x y Cons.prems True by (subst unique_loop.simps) simp
    with Cons.IH [of x u "mid @ [y]"] Cons.prems True show ?thesis by simp
  next
    case False
    define ms where "ms = (case mid of [] \<Rightarrow> [] | m # ms \<Rightarrow> ms @ [y])"
    have w: "wr ?a (length u + 1) y = Some ((u @ [x]) @ y # ms @ rem @ 0 # rest)"
      using wr_middle [of "u @ [x]" y "rem @ 0 # rest" y] wr_middle [of "u @ [x]" "hd mid" "tl mid @ y # rem @ 0 # rest" y]
      by (cases mid) (simp_all add: ms_def)
    have l: "length ms = length mid" by (cases mid) (simp_all add: ms_def)
    have "unique_loop ?a (length u) (length u + 1 + length mid) =
        unique_loop ((u @ [x]) @ y # ms @ rem @ 0 # rest) (length (u @ [x])) (length (u @ [x]) + 1 + length ms)"
      using x y w l Cons.prems False by (subst unique_loop.simps) simp
    with Cons.IH [of y "u @ [x]" ms] Cons.prems l False show ?thesis by auto
  qed
qed

lemma distinct_remdups_adj: "sorted xs \<Longrightarrow> distinct (remdups_adj (xs :: int list))"
proof (induction xs rule: remdups_adj.induct)
  case (3 x y xs)
  then show ?case by (cases "x = y") (auto dest: order.antisym)
qed simp_all

lemma sort_unique_char:
  assumes "0 \<notin> set xs" "\<forall>x \<in> set xs. \<forall>y \<in> set xs. in_int (x - y)"
  shows "\<exists>rest'. int_array_sort_unique (Some (xs @ 0 # rest)) = Some (Some (sorted_list_of_set (set xs) @ 0 # rest')) \<and>
    length (sorted_list_of_set (set xs)) + length rest' = length xs + length rest"
proof -
  have cmp: "\<not> list_ex (\<lambda>x. list_ex (\<lambda>y. freq_cmp x y = None) xs) xs"
    using assms by (auto simp: list_ex_iff freq_cmp_def)
  have u: "remdups_adj (sort xs) = sorted_list_of_set (set xs)"
    by (intro sorted_distinct_set_unique) (simp_all add: sorted_remdups_adj distinct_remdups_adj)
  show ?thesis
  proof (cases "sort xs")
    case Nil
    then have "xs = []" by (metis length_0_conv length_sort)
    then show ?thesis by (simp add: int_array_sort_unique_def unique_loop.simps rd_def wr_def)
  next
    case (Cons x ys)
    let ?u = "sorted_list_of_set (set xs)"
    have s: "set (x # ys) = set xs" using Cons by (metis set_sort)
    with assms(1) obtain junk where j: "unique_loop (x # ys @ 0 # rest) 0 1 = Some (?u @ junk @ 0 # rest, length ?u - 1)"
        "length ?u + length junk = 1 + length ys"
      using unique_loop_char [of x ys "[]" "[]" rest] Cons u by auto
    have ne: "?u \<noteq> []" "last ?u \<noteq> 0" using s assms(1) last_in_set [of ?u] by fastforce+
    then obtain vs v where v: "?u = vs @ [v]" "v \<noteq> 0" by (metis append_butlast_last_id)
    obtain w ws where w: "junk @ 0 # rest = w # ws" by (cases junk) auto
    have "length (junk @ 0 # rest) = 1 + length ws" using w by simp
    moreover have "int_array_sort_unique (Some (xs @ 0 # rest)) = Some (Some (?u @ 0 # ws))"
      using cmp int_array_scan_terminated [OF assms(1), of rest] Cons j(1) v w
        rd_middle [of vs v "w # ws"] wr_middle [of "vs @ [v]" w ws 0]
      by (simp add: int_array_sort_unique_def Let_def)
    ultimately show ?thesis using j(2) arg_cong [OF Cons, of length] by (intro exI [of _ ws]) simp
  qed
qed


text \<open>
  \<open>int_array_sort_unique\<close> turns a zero-terminated array, none of whose differences overflows \<open>int\<close>, into
  the ascending list of its distinct elements with a terminator behind, inside the same array.
\<close>

lemma int_array_sort_unique_set:
  assumes "0 \<notin> set xs" "\<forall>x \<in> set xs. \<forall>y \<in> set xs. in_int (x - y)"
  shows "\<exists>rest'. int_array_sort_unique (Some (xs @ 0 # rest)) = Some (Some (sorted_list_of_set (set xs) @ 0 # rest')) \<and>
    length (sorted_list_of_set (set xs)) + length rest' = length xs + length rest"
  by (rule sort_unique_char [OF assms])

text \<open>Adding an element that is already there changes nothing; otherwise it becomes the last one.\<close>

lemma unique_scan_char:
  "0 \<notin> set xs \<Longrightarrow> unique_scan a (xs @ 0 # rest) = Some (if a \<in> set xs then None else Some (length xs))"
  by (induction xs) auto

lemma int_array_add_unique_char:
  assumes "0 \<notin> set xs" "\<And>n. length (fresh n) = n"
  shows "int_array_add_unique True fresh (Some (xs @ 0 # rest)) a =
    Some (Some (if a \<in> set xs then xs @ 0 # rest else xs @ [a, 0]))"
proof -
  let ?n = "os_realloc fresh (Some (xs @ 0 # rest)) (length xs + 2)"
  have "length ?n = length xs + 2" "take (length xs) ?n = xs"
    using assms(2) by (simp_all add: os_realloc_def)
  moreover from this(1) have "length (drop (length xs) ?n) = Suc (Suc 0)" by (simp only: length_drop)
  then obtain p q where "drop (length xs) ?n = [p, q]" by (auto simp only: length_Suc_conv length_0_conv)
  ultimately have n: "?n = xs @ [p, q]" by (metis append_take_drop_id)
  have "wr ?n (length xs) a = Some (xs @ [a, q])" "wr (xs @ [a, q]) (length xs + 1) 0 = Some (xs @ [a, 0])"
    unfolding n using wr_middle [of xs p "[q]" a] wr_middle [of "xs @ [a]" q "[]" 0] by simp_all
  with unique_scan_char [OF assms(1), of a rest] show ?thesis by (simp add: int_array_add_unique_def)
qed

text \<open>The copying loop of \<open>int_array_concat\<close>; a null second array is dereferenced.\<close>

lemma copy_loop:
  assumes "k \<le> length a" "length xs + k \<le> length n" "take (length xs) n = xs"
  shows "\<exists>n'. for_each (\<lambda>i n. do { v \<leftarrow> rd a i; wr n (length xs + i) v }) [0..<k] n = Some n' \<and>
    length n' = length n \<and> take (length xs + k) n' = xs @ take k a"
proof -
  let ?P = "\<lambda>i n'. length n' = length n \<and> take (length xs + i) n' = xs @ take i a"
  have "\<exists>n'. for_each (\<lambda>i n. do { v \<leftarrow> rd a i; wr n (length xs + i) v }) [0..<k] n = Some n' \<and> ?P (length [0..<k]) n'"
  proof (rule for_each_invariant)
    show "?P 0 n" using assms(3) by simp
  next
    fix i n' assume "i < length [0..<k]" "?P i n'"
    then show "\<exists>n''. do { v \<leftarrow> rd a ([0..<k] ! i); wr n' (length xs + [0..<k] ! i) v } = Some n'' \<and> ?P (Suc i) n''"
      using assms(1,2) by (simp add: rd_Some wr_Some take_Suc_conv_app_nth)
  qed
  then show ?thesis by simp
qed

lemma int_array_concat_char:
  assumes "0 \<notin> set xs" "0 \<notin> set ys" "\<And>n. length (fresh n) = n"
  shows "int_array_concat True fresh (Some (xs @ 0 # r)) (Some (ys @ 0 # q)) = Some (Some (xs @ ys @ [0]))"
proof -
  let ?n = "os_realloc fresh (Some (xs @ 0 # r)) (length xs + length ys + 1)"
  have "length ?n = length xs + length ys + 1" "take (length xs) ?n = xs"
    using assms(3) by (simp_all add: os_realloc_def)
  then obtain n' where "for_each (\<lambda>i n. do { v \<leftarrow> rd (ys @ 0 # q) i; wr n (length xs + i) v }) [0..<length ys + 1] ?n = Some n'"
      "n' = xs @ ys @ [0]"
    using copy_loop [of "length ys + 1" "ys @ 0 # q" xs ?n] by auto
  then show ?thesis
    using int_array_scan_terminated [OF assms(1), of r] int_array_scan_terminated [OF assms(2), of q]
    by (simp add: int_array_concat_def int_array_len_def del: upt_Suc)
qed

lemma int_array_concat_null: "0 \<notin> set xs \<Longrightarrow> int_array_concat True fresh (Some (xs @ 0 # rest)) None = None"
  by (simp add: int_array_concat_def int_array_len_def int_array_scan_terminated)

subsection \<open>Merged byte arrays\<close>

lemma merge_byte_arrays_char:
  assumes "res_len \<le> length res" "length s1 = n1" "length s2 = n2"
  shows "merge_byte_arrays res res_len (Some s1) n1 (Some s2) n2 =
    Some (min res_len (n1 + n2), take res_len (s1 @ s2) @ replicate (res_len - (n1 + n2)) 0 @ drop res_len res)"
  using assms by (auto simp: merge_byte_arrays_def wr_range_def rd_range_def min_def)

subsection \<open>Tokens\<close>

lemma takeWhile_stop: "length (takeWhile P xs) < length xs \<Longrightarrow> \<not> P (xs ! length (takeWhile P xs))"
  by (rule nth_length_takeWhile)

lemma takeWhile_all: "i < length (takeWhile P xs) \<Longrightarrow> P (xs ! i)"
  using takeWhile_nth [of i P xs] by (metis nth_mem set_takeWhileD)

text \<open>A token is a maximal run of characters that are not delimiters.\<close>

lemma cstr_token_char:
  assumes "l \<le> length str"
  shows "case cstr_token str delim (Some l) of
      (Some t, Some e) \<Rightarrow> l \<le> t \<and> t < e \<and> e \<le> length str \<and> (\<forall>i. l \<le> i \<and> i < t \<longrightarrow> str ! i \<in> set delim) \<and>
        (\<forall>i. t \<le> i \<and> i < e \<longrightarrow> str ! i \<notin> set delim) \<and> (e < length str \<longrightarrow> str ! e \<in> set delim)
    | (t, e) \<Rightarrow> t = None \<and> e = Some l \<and> (\<forall>i. l \<le> i \<and> i < length str \<longrightarrow> str ! i \<in> set delim)"
proof -
  let ?D = "\<lambda>c. c \<in> set delim"
  let ?a = "takeWhile ?D (drop l str)"
  let ?t = "l + length ?a"
  let ?b = "takeWhile (\<lambda>c. \<not> ?D c) (drop (?t + 1) str)"
  let ?e = "?t + 1 + length ?b"
  have skip: "str ! i \<in> set delim" if "l \<le> i" "i < ?t" for i
    using takeWhile_all [of "i - l" ?D "drop l str"] that assms by simp
  have le: "?t \<le> length str" using length_takeWhile_le [of ?D "drop l str"] assms by simp
  show ?thesis
  proof (cases "length str \<le> ?t")
    case True
    with skip show ?thesis by (simp add: cstr_token_def Let_def)
  next
    case False
    have t: "str ! ?t \<notin> set delim"
      using takeWhile_stop [of ?D "drop l str"] False by (simp add: add.commute)
    have run: "str ! i \<notin> set delim" if "?t < i" "i < ?e" for i
      using takeWhile_all [of "i - (?t + 1)" "\<lambda>c. \<not> ?D c" "drop (?t + 1) str"] that False by simp
    have e: "?e \<le> length str" using length_takeWhile_le [of "\<lambda>c. \<not> ?D c" "drop (?t + 1) str"] False by simp
    have stop: "str ! ?e \<in> set delim" if "?e < length str"
      using takeWhile_stop [of "\<lambda>c. \<not> ?D c" "drop (?t + 1) str"] that by simp
    have eq: "cstr_token str delim (Some l) = (Some ?t, Some ?e)" using False by (simp add: cstr_token_def Let_def)
    show ?thesis unfolding eq using skip t run e stop by (auto simp: le_less)
  qed
qed


subsection \<open>Escaped names\<close>

definition utf8_esc :: "u8 \<Rightarrow> bytes" where
  "utf8_esc c = (if c = 92 \<or> c = 39 then [92, c] else [c])"

abbreviation utf8_text :: "bytes \<Rightarrow> bytes" where
  "utf8_text s \<equiv> concat (map utf8_esc s)"

lemma utf8_escape_loop_text:
  assumes "starts out t" "length t + length (utf8_text s) \<le> out_size" "out_size \<le> length out"
  shows "\<exists>out'. utf8_escape_loop s out_size out (length t) (length t) = Some (length (t @ utf8_text s), out') \<and>
    length out' = length out \<and> starts out' (t @ utf8_text s)"
  using assms
proof (induction s arbitrary: out t)
  case Nil
  show ?case
  proof (cases "length t < out_size")
    case True
    with starts_wr [OF Nil(1), of 0] Nil(3) starts_appendD show ?thesis by fastforce
  qed (use Nil in simp)
next
  case (Cons c s)
  show ?case
  proof (cases "c = 92 \<or> c = 39")
    case True
    then have e: "utf8_esc c = [92, c]" by (simp add: utf8_esc_def)
    from starts_wr [OF Cons.prems(1), of 92] Cons.prems e obtain o1
      where o1: "wr out (length t) 92 = Some o1" "length o1 = length out" "starts o1 (t @ [92])" by auto
    from starts_wr [OF o1(3), of c] o1(2) Cons.prems e obtain o2
      where o2: "wr o1 (length t + 1) c = Some o2" "length o2 = length out" "starts o2 (t @ [92, c])" by auto
    with Cons.IH [of o2 "t @ [92, c]"] Cons.prems e True o1(1) show ?thesis by auto
  next
    case False
    then have e: "utf8_esc c = [c]" by (simp add: utf8_esc_def)
    from starts_wr [OF Cons.prems(1), of c] Cons.prems e obtain o1
      where o1: "wr out (length t) c = Some o1" "length o1 = length out" "starts o1 (t @ [c])" by auto
    with Cons.IH [of o1 "t @ [c]"] Cons.prems e False show ?thesis by auto
  qed
qed

lemma utf8_unescape_loop_text:
  assumes "starts out t" "length t + length s \<le> out_size" "out_size \<le> length out"
  shows "\<exists>out'. utf8_unescape_loop (utf8_text s) out_size out (length t) = Some (length (t @ s), out') \<and>
    length out' = length out \<and> starts out' (t @ s)"
  using assms
proof (induction s arbitrary: out t)
  case Nil
  show ?case
  proof (cases "length t < out_size")
    case True
    with starts_wr [OF Nil(1), of 0] Nil(3) starts_appendD show ?thesis by fastforce
  qed (use Nil in simp)
next
  case (Cons c s)
  from starts_wr [OF Cons.prems(1), of c] Cons.prems obtain o1
    where o1: "wr out (length t) c = Some o1" "length o1 = length out" "starts o1 (t @ [c])" by auto
  with Cons.IH [of o1 "t @ [c]"] Cons.prems show ?case by (auto simp: utf8_esc_def)
qed

lemma utf8_round_trip:
  assumes "s \<noteq> []" "length (utf8_text s) \<le> n" "n \<le> length out" "length s \<le> m" "m \<le> length out2"
  shows "\<exists>out' out2'. utf8_escape (Some s) (length s) (Some out) n = Some (length (utf8_text s), Some out') \<and>
    utf8_unescape (Some out') (length (utf8_text s)) (Some out2) m = Some (length s, Some out2') \<and> take (length s) out2' = s"
proof -
  obtain out' where o1: "utf8_escape_loop s n out 0 0 = Some (length (utf8_text s), out')" "starts out' (utf8_text s)"
    using utf8_escape_loop_text [of out "[]" s n] assms(2,3) by auto
  obtain out2' where o2: "utf8_unescape_loop (utf8_text s) m out2 0 = Some (length s, out2')" "starts out2' s"
    using utf8_unescape_loop_text [of out2 "[]" s m] assms(4,5) by auto
  have ne: "utf8_text s \<noteq> []" "char0 (utf8_text s) \<noteq> 39" using assms(1) by (cases s; simp add: utf8_esc_def char0_def)+
  have "utf8_input s (length s) = Some s" "utf8_input out' (length (utf8_text s)) = Some (utf8_text s)"
    using assms(1) ne(1) o1(2) by (auto simp: utf8_input_def rd_range_def starts_def)
  with o1 o2 ne(2) starts_take [OF o2(2)] show ?thesis
    by (simp add: utf8_escape_def utf8_unescape_def Let_def)
qed

subsection \<open>Frequency ranges\<close>

lemma digit_value_none: "digit_value CHR ''-'' = None" "digit_value CHR '','' = None"
  by (simp_all add: digit_value_def)

lemma scan_digits_append:
  "\<forall>d \<in> set ds. d < 10 \<Longrightarrow> c = [] \<or> digit_value (hd c) = None \<Longrightarrow>
     scan_digits acc (map digit ds @ c) = foldl (\<lambda>a d. 10 * a + d) acc ds"
  by (induction ds arbitrary: acc) (cases c; auto simp: digit_value_digit)+

lemma fmt_u_chars: "c \<in> set (fmt_u n) \<Longrightarrow> c \<noteq> CHR ''-'' \<and> c \<noteq> CHR '',''"
proof -
  assume c: "c \<in> set (fmt_u n)"
  from fmt_u_digits [of n] obtain ds where "fmt_u n = map digit ds" "\<forall>d \<in> set ds. d < 10" by blast
  with c obtain d where d: "c = digit d" "d < 10" by auto
  then have "digit_value c \<noteq> None" by (simp add: digit_value_digit)
  then show ?thesis using digit_value_none by auto
qed

lemma atoi_fmt_u:
  assumes "n < 2 ^ 31" "rest = [] \<or> digit_value (hd rest) = None"
  shows "atoi (fmt_u n @ rest) = Some (int n)"
proof -
  from fmt_u_digits [of n] obtain ds where ds: "fmt_u n = map digit ds" "ds \<noteq> []" "\<forall>d \<in> set ds. d < 10"
    "foldl (\<lambda>a d. 10 * a + d) 0 ds = n" by blast
  then obtain e es where e: "ds = e # es" "e < 10" by (cases ds) auto
  have "scan_int (fmt_u n @ rest) = int (scan_digits 0 (fmt_u n @ rest))"
    using digit_not_space [OF e(2)] by (simp add: scan_int_def ds(1) e(1))
  with assms scan_digits_append [OF ds(3) assms(2), of 0] ds(1,4) show ?thesis
    by (simp add: atoi_def in_int_def)
qed


lemma strchr_append: "c \<notin> set xs \<Longrightarrow> strchr (xs @ ys) c = map_option (\<lambda>p. length xs + p) (strchr ys c)"
  by (auto simp: strchr_def takeWhile_append)

lemma strchr_Cons: "strchr (c # ys) d = (if c = d then Some 0 else map_option Suc (strchr ys d))"
  by (simp add: strchr_def)

lemma strchr_Nil: "strchr [] d = None"
  by (simp add: strchr_def)

definition range_body :: "wpa_freq_range \<Rightarrow> string" where
  "range_body r = (if rmin r = rmax r then fmt_u (rmin r) else fmt_u (rmin r) @ CHR ''-'' # fmt_u (rmax r))"

definition range_ok :: "wpa_freq_range \<Rightarrow> bool" where
  "range_ok r \<longleftrightarrow> rmin r < 2 ^ 31 \<and> rmax r < 2 ^ 31"

lemma fmt_u_no_sep: "CHR ''-'' \<notin> set (fmt_u n)" "CHR '','' \<notin> set (fmt_u n)"
  using fmt_u_chars by blast+

lemma range_body_no_comma: "CHR '','' \<notin> set (range_body r)"
  using fmt_u_no_sep by (simp add: range_body_def)

lemma fmt_u_not_Nil: "fmt_u n \<noteq> []"
  by (subst fmt_u.simps) simp

lemma to_unsigned_int: "n < 2 ^ 32 \<Longrightarrow> to_unsigned (int n) = n"
  by (simp add: to_unsigned_def)

lemma parse_range_body:
  assumes "range_ok r" "rest = [] \<or> (\<exists>t. rest = CHR '','' # t)"
  shows "parse_range (range_body r @ rest) = Some r"
proof -
  have less: "rmin r < 2 ^ 31" "rmax r < 2 ^ 31" using assms(1) by (simp_all add: range_ok_def)
  then have u: "to_unsigned (int (rmin r)) = rmin r" "to_unsigned (int (rmax r)) = rmax r"
    by (simp_all add: to_unsigned_int)
  have rest: "rest = [] \<or> digit_value (hd rest) = None" using assms(2) digit_value_none by auto
  show ?thesis
  proof (cases "rmin r = rmax r")
    case True
    have "atoi (fmt_u (rmin r) @ rest) = Some (int (rmin r))" by (rule atoi_fmt_u [OF less(1) rest])
    with True u assms(2) show ?thesis
      by (auto simp: parse_range_def range_body_def Let_def strchr_append strchr_Cons strchr_Nil fmt_u_no_sep
          split: option.split)
  next
    case False
    have "atoi (fmt_u (rmin r) @ CHR ''-'' # fmt_u (rmax r) @ rest) = Some (int (rmin r))"
      by (rule atoi_fmt_u [OF less(1)]) (simp add: digit_value_none)
    moreover have "atoi (fmt_u (rmax r) @ rest) = Some (int (rmax r))" by (rule atoi_fmt_u [OF less(2) rest])
    ultimately show ?thesis using False u assms(2)
      by (auto simp: parse_range_def range_body_def Let_def strchr_append strchr_Cons strchr_Nil fmt_u_no_sep)
  qed
qed

lemma freq_range_loop_text:
  assumes "range_ok r" "\<forall>r \<in> set rs. range_ok r"
  shows "freq_range_loop (\<lambda>_. True) (range_body r @ concat (map (\<lambda>r. CHR '','' # range_body r) rs)) acc =
    Some (Some (acc @ r # rs))"
  using assms
proof (induction rs arbitrary: r acc)
  case Nil
  have "parse_range (range_body r) = Some r" using parse_range_body [OF Nil(1), of "[]"] by simp
  moreover have "range_body r \<noteq> []" "strchr (range_body r) CHR '','' = None"
    using fmt_u_not_Nil range_body_no_comma [of r] by (auto simp: range_body_def strchr_def)
  ultimately show ?case by (simp add: freq_range_loop.simps)
next
  case (Cons q rs)
  let ?t = "range_body q @ concat (map (\<lambda>r. CHR '','' # range_body r) rs)"
  have "parse_range (range_body r @ CHR '','' # ?t) = Some r" by (rule parse_range_body [OF Cons.prems(1)]) simp
  moreover have "strchr (range_body r @ CHR '','' # ?t) CHR '','' = Some (length (range_body r))"
    using range_body_no_comma [of r] by (simp add: strchr_append strchr_Cons)
  moreover have "freq_range_loop (\<lambda>_. True) ?t (acc @ [r]) = Some (Some ((acc @ [r]) @ q # rs))"
    using Cons.prems by (intro Cons.IH) simp_all
  ultimately show ?case by (subst freq_range_loop.simps) simp
qed

lemma length_range_text: "range_ok r \<Longrightarrow> length (range_text first r) \<le> 22"
  using length_fmt_u [of "rmin r" 10] length_fmt_u [of "rmax r" 10] by (auto simp: range_text_def range_ok_def)

lemma range_str_loop_text:
  assumes "\<forall>r \<in> set rs. range_ok r" "length out + 30 * length rs \<le> maxlen"
  shows "range_str_loop maxlen rs out False = Some (out @ concat (map (range_text False) rs))"
  using assms
proof (induction rs arbitrary: out)
  case (Cons r rs)
  have "length (range_text False r) < maxlen - length out"
    using Cons.prems length_range_text [of r False] by auto
  with Cons length_range_text [of r False] show ?case by (simp add: snprintf_fits os_snprintf_error_def)
qed simp

lemma freq_range_str_char:
  assumes "range_ok r" "\<forall>r \<in> set rs. range_ok r" "30 * (length rs + 1) < 2 ^ 32"
  shows "freq_range_list_str (\<lambda>_. True) (r # rs) = Some (range_body r @ concat (map (\<lambda>r. CHR '','' # range_body r) rs))"
proof -
  have m: "length (r # rs) * 30 mod 2 ^ 32 = 30 * (length rs + 1)" using assms(3) by simp
  have t: "range_text True r = range_body r" "range_text False = (\<lambda>r. CHR '','' # range_body r)"
    by (simp_all add: range_text_def range_body_def fun_eq_iff)
  have "length (range_body r) < 30" using length_range_text [OF assms(1), of True] by (simp add: t)
  then show ?thesis
    unfolding freq_range_list_str_def m Let_def
    using range_str_loop_text [OF assms(2), of "range_body r" "30 * (length rs + 1)"]
    by (simp add: t snprintf_fits os_snprintf_error_def)
qed

text \<open>
  Frequency lists: \<open>freq_range_list_str\<close> never runs out of its 30 bytes per range, and \<open>freq_range_list_parse\<close> reads
  the ranges back; \<open>freq_range_list_includes\<close> of the result is membership in one of the ranges.
\<close>

lemma freq_range_round_trip:
  assumes "rs \<noteq> []" "\<forall>r \<in> set rs. range_ok r" "30 * length rs < 2 ^ 32"
  shows "\<exists>s rs'. freq_range_list_str (\<lambda>_. True) rs = Some s \<and> freq_range_list_parse (\<lambda>_. True) old (Some s) = Some (0, rs') \<and>
    rs' = rs \<and> (\<forall>f. freq_range_list_includes (Some rs') f \<longleftrightarrow> f \<in> (\<Union>r \<in> set rs. {rmin r..rmax r}))"
  using assms freq_range_str_char [of "hd rs" "tl rs"] freq_range_loop_text [of "hd rs" "tl rs" "[]"]
  by (cases rs) (auto simp: freq_range_list_parse_def freq_range_list_includes_def list_ex_iff)

end
