(* ===== verification/IeParse.thy ===== *)
theory IeParse
  imports WpaBuf CStrings
begin

text \<open>
  The information elements of IEEE 802.11 management frames (\<open>src/common/ieee802_11_common.c\<close>): the parser that
  fills \<open>struct ieee802_11_elems\<close>, the counting and collecting loops over elements, the multi-band elements and the
  BSSID of a header. A pointer into the frame is its offset; every read is checked against the frame.
\<close>

subsection \<open>Parsed elements\<close>

text \<open>The pointer fields of the structure, in its order.\<close>

datatype ie_field = El_ssid | El_supp_rates | El_ds_params | El_challenge | El_erp_info | El_ext_supp_rates
  | El_wpa_ie | El_rsn_ie | El_wmm | El_wmm_tspec | El_wps_ie | El_supp_channels | El_mdie | El_ftie
  | El_timeout_int | El_ht_capabilities | El_ht_operation | El_mesh_config | El_mesh_id | El_peer_mgmt
  | El_vht_capabilities | El_vht_operation | El_vht_opmode_notif | El_vendor_ht_cap | El_vendor_vht
  | El_p2p | El_wfd | El_link_id | El_interworking | El_qos_map_set | El_hs20 | El_ext_capab
  | El_bss_max_idle_period | El_ssid_list | El_osen | El_ampe | El_mic | El_pref_freq_list

text \<open>
  \<open>el_ptr\<close> holds the pointer fields, \<open>el_len\<close> the length fields (0 for the fields that have none); \<open>mb_ies\<close> are the
  first \<open>nof_ies\<close> entries of the array of multi-band elements.
\<close>

record ieee802_11_elems =
  el_ptr :: "ie_field \<Rightarrow> nat option"
  el_len :: "ie_field \<Rightarrow> nat"
  mb_ies :: "(nat \<times> nat) list"

definition zero_elems :: ieee802_11_elems where
  "zero_elems = \<lparr>el_ptr = (\<lambda>_. None), el_len = (\<lambda>_. 0), mb_ies = []\<rparr>"

definition set_ptr :: "ie_field \<Rightarrow> nat \<Rightarrow> ieee802_11_elems \<Rightarrow> ieee802_11_elems" where
  "set_ptr f pos e = e\<lparr>el_ptr := (el_ptr e)(f := Some pos)\<rparr>"

definition set_elem :: "ie_field \<Rightarrow> nat \<Rightarrow> nat \<Rightarrow> ieee802_11_elems \<Rightarrow> ieee802_11_elems" where
  "set_elem f pos elen e = e\<lparr>el_ptr := (el_ptr e)(f := Some pos), el_len := (el_len e)(f := elen)\<rparr>"

datatype ParseRes = ParseOK | ParseUnknown | ParseFailed

subsection \<open>One element\<close>

text \<open>
  The field of a vendor specific element with the given OUI, type and length: no field for an element that the parser
  does not know (return value \<open>-1\<close>). The byte behind the type is read only if the element has it.
\<close>

definition vendor_field :: "bytes \<Rightarrow> nat \<Rightarrow> nat \<Rightarrow> ie_field option option" where
  "vendor_field buf pos elen =
     (if elen < 4 then Some None
      else do {
        b \<leftarrow> rd_range buf pos 3;
        t \<leftarrow> rd buf (pos + 3);
        let oui = WPA_GET_BE24 b;
        if oui = 0x0050f2 then
          if t = 1 then Some (Some El_wpa_ie)
          else if t = 2 then
            if elen < 5 then Some None
            else do {
              st \<leftarrow> rd buf (pos + 4);
              Some (if st = 0 \<or> st = 1 then Some El_wmm else if st = 2 then Some El_wmm_tspec else None) }
          else if t = 4 then Some (Some El_wps_ie)
          else Some None
        else if oui = 0x506f9a then
          Some (if t = 9 then Some El_p2p else if t = 10 then Some El_wfd else if t = 16 then Some El_hs20
                else if t = 18 then Some El_osen else None)
        else if oui = 0x00904c then
          if t = 0x33 then Some (Some El_vendor_ht_cap)
          else if t = 4 then
            if 4 < elen then do {
              st \<leftarrow> rd buf (pos + 4);
              Some (if st = 8 \<or> st = 0 then Some El_vendor_vht else None) }
            else Some None
          else Some None
        else if oui = 0x001374 then Some (if t = 0 then Some El_pref_freq_list else None)
        else Some None })"

definition parse_vendor_specific ::
  "bytes \<Rightarrow> nat \<Rightarrow> nat \<Rightarrow> ieee802_11_elems \<Rightarrow> (int \<times> ieee802_11_elems) option" where
  "parse_vendor_specific buf pos elen elems = do {
     r \<leftarrow> vendor_field buf pos elen;
     Some (case r of None \<Rightarrow> (- 1, elems) | Some f \<Rightarrow> (0, set_elem f pos elen elems)) }"

text \<open>What the switch of the parser does with an element of the given identifier and length.\<close>

datatype ie_action = Ignore | Unknown | Vendor | Multi_band | Ptr ie_field | Elem ie_field

definition elem_action :: "nat \<Rightarrow> nat \<Rightarrow> ie_action" where
  "elem_action eid elen =
     (if eid = 0 then if 32 < elen then Ignore else Elem El_ssid
      else if eid = 1 then Elem El_supp_rates
      else if eid = 3 then if elen < 1 then Ignore else Ptr El_ds_params
      else if eid = 4 \<or> eid = 5 then Ignore
      else if eid = 16 then Elem El_challenge
      else if eid = 42 then if elen < 1 then Ignore else Ptr El_erp_info
      else if eid = 50 then Elem El_ext_supp_rates
      else if eid = 221 then Vendor
      else if eid = 48 then Elem El_rsn_ie
      else if eid = 33 then Ignore
      else if eid = 36 then Elem El_supp_channels
      else if eid = 54 then if elen < 3 then Ignore else Elem El_mdie
      else if eid = 55 then if elen < 82 then Ignore else Elem El_ftie
      else if eid = 56 then if elen \<noteq> 5 then Ignore else Ptr El_timeout_int
      else if eid = 45 then if elen < 26 then Ignore else Ptr El_ht_capabilities
      else if eid = 61 then if elen < 22 then Ignore else Ptr El_ht_operation
      else if eid = 113 then Elem El_mesh_config
      else if eid = 114 then Elem El_mesh_id
      else if eid = 117 then Elem El_peer_mgmt
      else if eid = 191 then if elen < 12 then Ignore else Ptr El_vht_capabilities
      else if eid = 192 then if elen < 5 then Ignore else Ptr El_vht_operation
      else if eid = 199 then if elen \<noteq> 1 then Ignore else Ptr El_vht_opmode_notif
      else if eid = 101 then if elen < 18 then Ignore else Ptr El_link_id
      else if eid = 107 then Elem El_interworking
      else if eid = 110 then if elen < 16 then Ignore else Elem El_qos_map_set
      else if eid = 127 then Elem El_ext_capab
      else if eid = 90 then if elen < 3 then Ignore else Ptr El_bss_max_idle_period
      else if eid = 84 then Elem El_ssid_list
      else if eid = 139 then Elem El_ampe
      else if eid = 140 then Elem El_mic
      else if eid = 158 then Multi_band
      else Unknown)"

definition parse_elem ::
  "bytes \<Rightarrow> nat \<Rightarrow> nat \<Rightarrow> nat \<Rightarrow> nat \<times> ieee802_11_elems \<Rightarrow> (nat \<times> ieee802_11_elems) option" where
  "parse_elem buf eid elen pos s = (case s of (unknown, elems) \<Rightarrow>
     (case elem_action eid elen of
        Ignore \<Rightarrow> Some (unknown, elems)
      | Unknown \<Rightarrow> Some (unknown + 1, elems)
      | Vendor \<Rightarrow> do {
          (r, elems) \<leftarrow> parse_vendor_specific buf pos elen elems;
          Some (if r \<noteq> 0 then unknown + 1 else unknown, elems) }
      | Multi_band \<Rightarrow>
          Some (unknown, if 5 \<le> length (mb_ies elems) then elems else elems\<lparr>mb_ies := mb_ies elems @ [(pos, elen)]\<rparr>)
      | Ptr f \<Rightarrow> Some (unknown, set_ptr f pos elems)
      | Elem f \<Rightarrow> Some (unknown, set_elem f pos elen elems)))"

subsection \<open>The parser\<close>

text \<open>An element of identifier 140 (MIC) makes the rest of the frame unreadable: \<open>left\<close> becomes its length.\<close>

function parse_elems_loop ::
  "bytes \<Rightarrow> nat \<Rightarrow> nat \<Rightarrow> nat \<times> ieee802_11_elems \<Rightarrow> (ParseRes \<times> ieee802_11_elems) option" where
  "parse_elems_loop buf pos left s =
     (if 2 \<le> left
      then case (rd buf pos, rd buf (pos + 1)) of
          (Some eid, Some elen) \<Rightarrow>
            if left - 2 < unat elen then Some (ParseFailed, snd s)
            else (case parse_elem buf (unat eid) (unat elen) (pos + 2) s of
                None \<Rightarrow> None
              | Some s \<Rightarrow> parse_elems_loop buf (pos + 2 + unat elen)
                  ((if eid = 140 then unat elen else left - 2) - unat elen) s)
        | _ \<Rightarrow> None
      else Some (if left \<noteq> 0 then ParseFailed else if fst s \<noteq> 0 then ParseUnknown else ParseOK, snd s))"
  by pat_completeness auto
termination
  by (relation "measure (\<lambda>(_, _, left, _). left)") auto

declare parse_elems_loop.simps [simp del]

definition ieee802_11_parse_elems :: "bytes \<Rightarrow> nat \<Rightarrow> (ParseRes \<times> ieee802_11_elems) option" where
  "ieee802_11_parse_elems start len = parse_elems_loop start 0 len (0, zero_elems)"

subsection \<open>Loops over elements\<close>

function ie_count_loop :: "bytes \<Rightarrow> nat \<Rightarrow> nat \<Rightarrow> nat \<Rightarrow> nat option" where
  "ie_count_loop ies e pos count =
     (if pos + 2 \<le> e
      then case rd ies (pos + 1) of
          None \<Rightarrow> None
        | Some l \<Rightarrow> if e < pos + 2 + unat l then Some count
                   else ie_count_loop ies e (pos + 2 + unat l) (count + 1)
      else Some count)"
  by pat_completeness auto
termination
  by (relation "measure (\<lambda>(_, e, pos, _). e - pos)") auto

declare ie_count_loop.simps [simp del]

definition ieee802_11_ie_count :: "bytes option \<Rightarrow> nat \<Rightarrow> nat option" where
  "ieee802_11_ie_count ies ies_len = (case ies of None \<Rightarrow> Some 0 | Some b \<Rightarrow> ie_count_loop b ies_len 0 0)"

text \<open>The test for a vendor element of the wanted type; its four bytes are read only if the element has them.\<close>

definition is_vendor_ie :: "bytes \<Rightarrow> nat \<Rightarrow> u32 \<Rightarrow> bool option" where
  "is_vendor_ie ies pos oui_type = do {
     eid \<leftarrow> rd ies pos;
     l \<leftarrow> rd ies (pos + 1);
     if eid = 221 \<and> 4 \<le> unat l
     then do { b \<leftarrow> rd_range ies (pos + 2) 4; Some (WPA_GET_BE32 b = oui_type) }
     else Some False }"

datatype find_res = Malformed | Not_found | Found nat

function find_vendor_loop :: "bytes \<Rightarrow> nat \<Rightarrow> u32 \<Rightarrow> nat \<Rightarrow> find_res option" where
  "find_vendor_loop ies e oui_type pos =
     (if pos + 1 < e
      then case (rd ies (pos + 1), is_vendor_ie ies pos oui_type) of
          (Some l, m) \<Rightarrow>
            if e < pos + 2 + unat l then Some Malformed
            else (case m of
                None \<Rightarrow> None
              | Some True \<Rightarrow> Some (Found pos)
              | Some False \<Rightarrow> find_vendor_loop ies e oui_type (pos + 2 + unat l))
        | _ \<Rightarrow> None
      else Some Not_found)"
  by pat_completeness auto
termination
  by (relation "measure (\<lambda>(_, e, _, pos). e - pos)") auto

declare find_vendor_loop.simps [simp del]

function collect_vendor_loop :: "bytes \<Rightarrow> nat \<Rightarrow> u32 \<Rightarrow> nat \<Rightarrow> wpabuf \<Rightarrow> wpabuf outcome" where
  "collect_vendor_loop ies e oui_type pos b =
     (if pos + 1 < e
      then bind_outcome (access (rd ies (pos + 1))) (\<lambda>l.
        if e < pos + 2 + unat l then Ret b
        else bind_outcome (access (is_vendor_ie ies pos oui_type)) (\<lambda>m.
             bind_outcome (if m then wpabuf_put_data b (Some (drop (pos + 6) ies)) (unat l - 4) else Ret b)
               (collect_vendor_loop ies e oui_type (pos + 2 + unat l))))
      else Ret b)"
  by pat_completeness auto
termination
  by (relation "measure (\<lambda>(_, e, _, pos, _). e - pos)") auto

declare collect_vendor_loop.simps [simp del]

definition ieee802_11_vendor_ie_concat :: "(nat \<Rightarrow> bool) \<Rightarrow> bytes \<Rightarrow> nat \<Rightarrow> u32 \<Rightarrow> wpabuf option outcome" where
  "ieee802_11_vendor_ie_concat malloc_ok ies ies_len oui_type =
     bind_outcome (access (find_vendor_loop ies ies_len oui_type 0)) (\<lambda>r. case r of
         Found pos \<Rightarrow>
           bind_outcome (wpabuf_alloc malloc_ok ies_len) (\<lambda>n. case n of
               None \<Rightarrow> Ret None
             | Some b \<Rightarrow> bind_outcome (collect_vendor_loop ies ies_len oui_type pos b) (\<lambda>b. Ret (Some b)))
       | _ \<Rightarrow> Ret None)"

subsection \<open>Multi-band elements\<close>

function mb_ies_loop :: "bytes \<Rightarrow> nat \<Rightarrow> nat \<Rightarrow> (nat \<times> nat) list \<Rightarrow> (int \<times> (nat \<times> nat) list) option" where
  "mb_ies_loop ies pos ies_len info =
     (if 2 \<le> ies_len \<and> length info < 5
      then case (rd ies pos, rd ies (pos + 1)) of
          (Some eid, Some l) \<Rightarrow>
            let len = 2 + unat l
            in if ies_len < len then Some (- 1, info)
               else mb_ies_loop ies (pos + len) (ies_len - len) (if eid = 158 then info @ [(pos + 2, unat l)] else info)
        | _ \<Rightarrow> None
      else Some (0, info))"
  by pat_completeness auto
termination
  by (relation "measure (\<lambda>(_, _, ies_len, _). ies_len)") auto

declare mb_ies_loop.simps [simp del]

definition mb_ies_info_by_ies :: "bytes option \<Rightarrow> nat \<Rightarrow> (int \<times> (nat \<times> nat) list) option" where
  "mb_ies_info_by_ies ies_buf ies_len = (case ies_buf of None \<Rightarrow> Some (0, []) | Some ies \<Rightarrow> mb_ies_loop ies 0 ies_len [])"

primrec put_mb_ies :: "bytes \<Rightarrow> (nat \<times> nat) list \<Rightarrow> wpabuf \<Rightarrow> wpabuf outcome" where
  "put_mb_ies frame [] b = Ret b"
| "put_mb_ies frame (x # xs) b =
     bind_outcome (wpabuf_put_u8 b 158) (\<lambda>b.
     bind_outcome (wpabuf_put_u8 b (of_nat (snd x))) (\<lambda>b.
     bind_outcome (wpabuf_put_data b (Some (drop (fst x) frame)) (snd x)) (put_mb_ies frame xs)))"

definition mb_ies_by_info :: "(nat \<Rightarrow> bool) \<Rightarrow> bytes \<Rightarrow> (nat \<times> nat) list \<Rightarrow> wpabuf option outcome" where
  "mb_ies_by_info malloc_ok frame info =
     (if info = [] then Ret None
      else bind_outcome (wpabuf_alloc malloc_ok (sum_list (map (\<lambda>x. 2 + snd x) info))) (\<lambda>n. case n of
             None \<Rightarrow> Ret None
           | Some b \<Rightarrow> bind_outcome (put_mb_ies frame info b) (\<lambda>b. Ret (Some b))))"

subsection \<open>Rates and headers\<close>

definition is_11b :: "u8 \<Rightarrow> bool" where
  "is_11b rate \<longleftrightarrow> rate = 0x02 \<or> rate = 0x04 \<or> rate = 0x0b \<or> rate = 0x16"

definition count_rates :: "bytes \<Rightarrow> ie_field \<Rightarrow> ieee802_11_elems \<Rightarrow> nat \<times> nat \<Rightarrow> (nat \<times> nat) option" where
  "count_rates frame f elems s = (case el_ptr elems f of
     None \<Rightarrow> Some s
   | Some p \<Rightarrow> for_each (\<lambda>i (num_11b, num_others). do {
         r \<leftarrow> rd frame (p + i);
         Some (if is_11b r then (num_11b + 1, num_others) else (num_11b, num_others + 1)) }) [0..<el_len elems f] s)"

definition supp_rates_11b_only :: "bytes \<Rightarrow> ieee802_11_elems \<Rightarrow> bool option" where
  "supp_rates_11b_only frame elems =
     (if el_ptr elems El_supp_rates = None \<and> el_ptr elems El_ext_supp_rates = None then Some False
      else do {
        s \<leftarrow> count_rates frame El_supp_rates elems (0, 0);
        (num_11b, num_others) \<leftarrow> count_rates frame El_ext_supp_rates elems s;
        Some (0 < num_11b \<and> num_others = 0) })"

text \<open>The BSSID of a frame, as the offset of \<open>addr1\<close> (4), \<open>addr2\<close> (10) or \<open>addr3\<close> (16) in the header.\<close>

definition get_hdr_bssid :: "bytes \<Rightarrow> nat \<Rightarrow> nat option option" where
  "get_hdr_bssid hdr len =
     (if len < 16 then Some None
      else do {
        b \<leftarrow> rd_range hdr 0 2;
        let fc = WPA_GET_LE16 b;
        let type = drop_bit 2 (fc AND 0x000c);
        let stype = drop_bit 4 (fc AND 0x00f0);
        Some (if type = 2 then
            if len < 24 then None
            else let ds = fc AND 0x0300
                 in if ds = 0x0300 \<or> ds = 0x0100 then Some 4 else if ds = 0x0200 then Some 10 else None
          else if type = 1 then if stype \<noteq> 10 then None else Some 4
          else if type = 0 then Some 16
          else None) })"

subsection \<open>WMM parameters\<close>

record hostapd_wmm_ac_params =
  cwmin :: int
  cwmax :: int
  aifs :: int
  txop_limit :: int
  admission_control_mandatory :: int

text \<open>
  \<open>hostapd_config_wmm_ac\<close> sets one parameter of one of the four access categories; the name is longer than its
  prefix of seven characters. A value that \<open>atoi\<close> cannot represent is undefined.
\<close>

definition wmm_ac_num :: "string \<Rightarrow> nat option" where
  "wmm_ac_num pos =
     (if take 3 pos = ''be_'' then Some 0 else if take 3 pos = ''bk_'' then Some 1
      else if take 3 pos = ''vi_'' then Some 2 else if take 3 pos = ''vo_'' then Some 3 else None)"

definition wmm_ac_set :: "string \<Rightarrow> int \<Rightarrow> hostapd_wmm_ac_params \<Rightarrow> hostapd_wmm_ac_params option" where
  "wmm_ac_set field v ac =
     (if field = ''aifs'' then if v < 1 \<or> 255 < v then None else Some (ac\<lparr>aifs := v\<rparr>)
      else if field = ''cwmin'' then if v < 0 \<or> 15 < v then None else Some (ac\<lparr>cwmin := v\<rparr>)
      else if field = ''cwmax'' then if v < 0 \<or> 15 < v then None else Some (ac\<lparr>cwmax := v\<rparr>)
      else if field = ''txop_limit'' then if v < 0 \<or> 0xffff < v then None else Some (ac\<lparr>txop_limit := v\<rparr>)
      else if field = ''acm'' then if v < 0 \<or> 1 < v then None else Some (ac\<lparr>admission_control_mandatory := v\<rparr>)
      else None)"

definition wmm_fields :: "string list" where
  "wmm_fields = [''aifs'', ''cwmin'', ''cwmax'', ''txop_limit'', ''acm'']"

definition hostapd_config_wmm_ac ::
  "hostapd_wmm_ac_params list \<Rightarrow> string \<Rightarrow> string \<Rightarrow> (int \<times> hostapd_wmm_ac_params list) option" where
  "hostapd_config_wmm_ac params name val =
     (let pos = drop 7 name
      in if length name < 7 then None
         else case wmm_ac_num pos of
             None \<Rightarrow> Some (- 1, params)
           | Some num \<Rightarrow>
               let field = drop 3 pos
               in if field \<notin> set wmm_fields then Some (- 1, params)
                  else do {
                    v \<leftarrow> atoi val;
                    ac \<leftarrow> rd params num;
                    case wmm_ac_set field v ac of
                      None \<Rightarrow> Some (- 1, params)
                    | Some ac \<Rightarrow> do { params \<leftarrow> wr params num ac; Some (0, params) } })"

subsection \<open>Well-formed results\<close>

text \<open>
  The number of bytes that the users of a field may read at its pointer without looking at a length: the minimum that the
  parser has checked.
\<close>

fun min_len :: "ie_field \<Rightarrow> nat" where
  "min_len El_ds_params = 1" | "min_len El_erp_info = 1" | "min_len El_mdie = 3" | "min_len El_ftie = 82"
| "min_len El_timeout_int = 5" | "min_len El_ht_capabilities = 26" | "min_len El_ht_operation = 22"
| "min_len El_vht_capabilities = 12" | "min_len El_vht_operation = 5" | "min_len El_vht_opmode_notif = 1"
| "min_len El_link_id = 18" | "min_len El_qos_map_set = 16" | "min_len El_bss_max_idle_period = 3"
| "min_len El_wpa_ie = 4" | "min_len El_wmm = 5" | "min_len El_wmm_tspec = 5" | "min_len El_wps_ie = 4"
| "min_len El_p2p = 4" | "min_len El_wfd = 4" | "min_len El_hs20 = 4" | "min_len El_osen = 4"
| "min_len El_vendor_ht_cap = 4" | "min_len El_vendor_vht = 5" | "min_len El_pref_freq_list = 4"
| "min_len _ = 0"

text \<open>The fields without a length of their own.\<close>

definition ptr_only :: "ie_field \<Rightarrow> bool" where
  "ptr_only f \<longleftrightarrow> f \<in> {El_ds_params, El_erp_info, El_timeout_int, El_ht_capabilities, El_ht_operation,
     El_vht_capabilities, El_vht_operation, El_vht_opmode_notif, El_link_id, El_bss_max_idle_period}"

definition elems_ok :: "nat \<Rightarrow> ieee802_11_elems \<Rightarrow> bool" where
  "elems_ok n e \<longleftrightarrow>
     (\<forall>f p. el_ptr e f = Some p \<longrightarrow> p + el_len e f \<le> n \<and> p + min_len f \<le> n) \<and>
     (\<forall>f. el_ptr e f = None \<or> ptr_only f \<longrightarrow> el_len e f = 0) \<and>
     el_len e El_ssid \<le> 32 \<and> (\<forall>x \<in> set (mb_ies e). fst x + snd x \<le> n) \<and> length (mb_ies e) \<le> 5"

lemma elem_action_Ptr: "elem_action eid elen = Ptr f \<Longrightarrow> ptr_only f \<and> min_len f \<le> elen"
  by (auto simp: elem_action_def ptr_only_def split: if_splits)

lemma elem_action_Elem:
  "elem_action eid elen = Elem f \<Longrightarrow> \<not> ptr_only f \<and> min_len f \<le> elen \<and> (f = El_ssid \<longrightarrow> elen \<le> 32)"
  by (auto simp: elem_action_def ptr_only_def split: if_splits)

lemma vendor_field_Some:
  assumes "pos + elen \<le> length buf"
  shows "\<exists>r. vendor_field buf pos elen = Some r \<and>
    (\<forall>f. r = Some f \<longrightarrow> \<not> ptr_only f \<and> min_len f \<le> elen \<and> f \<noteq> El_ssid)"
proof (cases "elen < 4")
  case False
  then have "rd_range buf pos 3 = Some (take 3 (drop pos buf))" "rd buf (pos + 3) = Some (buf ! (pos + 3))"
    "4 < elen \<Longrightarrow> rd buf (pos + 4) = Some (buf ! (pos + 4))"
    using assms by (simp_all add: rd_range_Some rd_Some)
  with False show ?thesis
    by (auto simp: vendor_field_def Let_def ptr_only_def)
qed (simp add: vendor_field_def)

lemma elems_ok_zero: "elems_ok n zero_elems"
  by (simp add: elems_ok_def zero_elems_def)

lemma elems_ok_set_ptr: "elems_ok n e \<Longrightarrow> ptr_only f \<Longrightarrow> p + min_len f \<le> n \<Longrightarrow> elems_ok n (set_ptr f p e)"
  by (auto simp: elems_ok_def set_ptr_def)

lemma elems_ok_set_elem:
  "elems_ok n e \<Longrightarrow> \<not> ptr_only f \<Longrightarrow> p + l \<le> n \<Longrightarrow> min_len f \<le> l \<Longrightarrow> (f = El_ssid \<longrightarrow> l \<le> 32) \<Longrightarrow>
     elems_ok n (set_elem f p l e)"
  by (auto simp: elems_ok_def set_elem_def)

lemma parse_elem_ok:
  assumes "elems_ok (length buf) e" "pos + elen \<le> length buf"
  shows "\<exists>u e'. parse_elem buf eid elen pos (unknown, e) = Some (u, e') \<and> elems_ok (length buf) e'"
proof (cases "elem_action eid elen")
  case Vendor
  from vendor_field_Some [OF assms(2)] obtain r where r: "vendor_field buf pos elen = Some r"
    "\<forall>f. r = Some f \<longrightarrow> \<not> ptr_only f \<and> min_len f \<le> elen \<and> f \<noteq> El_ssid" by blast
  with Vendor assms show ?thesis
    by (cases r) (auto simp: parse_elem_def parse_vendor_specific_def elems_ok_set_elem)
next
  case Multi_band
  with assms show ?thesis by (auto simp: parse_elem_def elems_ok_def)
next
  case (Ptr f)
  with elem_action_Ptr [OF Ptr] assms show ?thesis by (simp add: parse_elem_def elems_ok_set_ptr)
next
  case (Elem f)
  with elem_action_Elem [OF Elem] assms show ?thesis by (simp add: parse_elem_def elems_ok_set_elem)
qed (use assms in \<open>simp_all add: parse_elem_def\<close>)

lemma parse_elems_loop_ok:
  "pos + left \<le> length buf \<Longrightarrow> elems_ok (length buf) (snd s) \<Longrightarrow>
     \<exists>r e. parse_elems_loop buf pos left s = Some (r, e) \<and> elems_ok (length buf) e"
proof (induction buf pos left s rule: parse_elems_loop.induct)
  case (1 buf pos left s)
  show ?case
  proof (cases "2 \<le> left")
    case True
    let ?id = "buf ! pos" and ?l = "unat (buf ! (pos + 1))"
    have rds: "rd buf pos = Some ?id" "rd buf (pos + 1) = Some (buf ! (pos + 1))"
      using True "1.prems"(1) by (simp_all add: rd_Some)
    show ?thesis
    proof (cases "left - 2 < ?l")
      case False
      have "pos + 2 + ?l \<le> length buf" using False True "1.prems"(1) by linarith
      then obtain u e where p: "parse_elem buf (unat ?id) ?l (pos + 2) s = Some (u, e)" "elems_ok (length buf) e"
        using parse_elem_ok [of buf "snd s" "pos + 2" ?l "unat ?id" "fst s"] "1.prems"(2) by auto
      let ?left = "(if ?id = 140 then ?l else left - 2) - ?l"
      have "\<exists>r e'. parse_elems_loop buf (pos + 2 + ?l) ?left (u, e) = Some (r, e') \<and> elems_ok (length buf) e'"
        by (rule "1.IH" [OF True refl rds False p(1)]) (use "1.prems" False True p(2) in auto)
      with True rds False p(1) show ?thesis by (subst parse_elems_loop.simps) (simp split del: if_split cong: if_cong)
    qed (use "1.prems" True rds in \<open>simp add: parse_elems_loop.simps\<close>)
  qed (use "1.prems" in \<open>simp add: parse_elems_loop.simps\<close>)
qed


text \<open>
  C36. The parser of information elements reads no byte outside the frame, whatever the frame holds, and what it returns is
  well formed: every pointer with its length field, and with the minimum its users rely on, lies inside the frame;
  fields that were not found have length 0, the SSID has at most 32 bytes, and at most five multi-band elements are kept.
\<close>

theorem ieee802_11_parse_elems_safe:
  assumes "len \<le> length start"
  shows "\<exists>r e. ieee802_11_parse_elems start len = Some (r, e) \<and> elems_ok (length start) e"
  unfolding ieee802_11_parse_elems_def
  by (rule parse_elems_loop_ok) (use assms elems_ok_zero in auto)

theorem ieee802_11_parse_elems_safe_witness:
  "\<exists>r e. ieee802_11_parse_elems [0, 2, 97, 98, 55, 1, 0, 9] 8 = Some (r, e) \<and> elems_ok (length [0, 2, 97, 98, 55, 1, 0, 9 :: u8]) e"
  by (rule ieee802_11_parse_elems_safe) simp

subsection \<open>Parsing a sequence of elements\<close>

type_synonym ie = "u8 \<times> bytes"

definition ser_ie :: "ie \<Rightarrow> bytes" where
  "ser_ie x = fst x # of_nat (length (snd x)) # snd x"

abbreviation ser :: "ie list \<Rightarrow> bytes" where
  "ser ies \<equiv> concat (map ser_ie ies)"

definition ie_ok :: "ie \<Rightarrow> bool" where
  "ie_ok x \<longleftrightarrow> length (snd x) < 256"

text \<open>The field that an element is stored in.\<close>

definition field_of :: "ie \<Rightarrow> ie_field option" where
  "field_of x = (case elem_action (unat (fst x)) (length (snd x)) of
     Ptr f \<Rightarrow> Some f | Elem f \<Rightarrow> Some f
   | Vendor \<Rightarrow> the (vendor_field (snd x) 0 (length (snd x)))
   | _ \<Rightarrow> None)"

definition unknown_ie :: "ie \<Rightarrow> bool" where
  "unknown_ie x \<longleftrightarrow> (case elem_action (unat (fst x)) (length (snd x)) of
     Unknown \<Rightarrow> True | Vendor \<Rightarrow> field_of x = None | _ \<Rightarrow> False)"

lemma length_ser_ie [simp]: "length (ser_ie x) = 2 + length (snd x)"
  by (simp add: ser_ie_def)

lemma unat_ie_len: "ie_ok x \<Longrightarrow> unat (of_nat (length (snd x)) :: u8) = length (snd x)"
  by (simp add: ie_ok_def unat_of_nat)

lemma rd_ser_ie:
  "rd (pre @ ser_ie x @ post) (length pre) = Some (fst x)"
  "rd (pre @ ser_ie x @ post) (length pre + 1) = Some (of_nat (length (snd x)))"
  by (simp_all add: rd_def ser_ie_def nth_append)

text \<open>A vendor element is classified by its own bytes.\<close>

lemma rd_inside: "i < length d \<Longrightarrow> rd (pre @ d @ post) (length pre + i) = rd d i"
  by (simp add: rd_def nth_append)

lemma rd_range_inside: "i + n \<le> length d \<Longrightarrow> rd_range (pre @ d @ post) (length pre + i) n = rd_range d i n"
  by (simp add: rd_range_def)

lemma vendor_field_inside:
  "vendor_field (pre @ d @ post) (length pre) (length d) = vendor_field d 0 (length d)"
proof (cases "length d < 4")
  case False
  then have "rd_range (pre @ d @ post) (length pre) 3 = rd_range d 0 3"
    "rd (pre @ d @ post) (length pre + 3) = rd d 3"
    "4 < length d \<Longrightarrow> rd (pre @ d @ post) (length pre + 4) = rd d 4"
    using rd_range_inside [of 0 3 d pre post] rd_inside [of 3 d pre post] rd_inside [of 4 d pre post] by simp_all
  with False show ?thesis
    by (simp add: vendor_field_def Let_def cong: if_cong)
qed (simp add: vendor_field_def)

text \<open>The state after the elements \<open>xs\<close> of the frame \<open>buf\<close>: the last element of a field is the one that is kept.\<close>

definition holds_field :: "bytes \<Rightarrow> ie list \<Rightarrow> ieee802_11_elems \<Rightarrow> ie_field \<Rightarrow> bool" where
  "holds_field buf xs e f \<longleftrightarrow> (let ys = filter (\<lambda>x. field_of x = Some f) xs
     in if ys = [] then el_ptr e f = None
        else (\<exists>p. el_ptr e f = Some p \<and> take (length (snd (last ys))) (drop p buf) = snd (last ys) \<and>
       (ptr_only f \<or> el_len e f = length (snd (last ys)))))"

lemma holds_field_other:
  "holds_field buf xs e f \<Longrightarrow> field_of x \<noteq> Some f \<Longrightarrow> el_ptr e' f = el_ptr e f \<Longrightarrow> el_len e' f = el_len e f \<Longrightarrow>
     holds_field buf (xs @ [x]) e' f"
  by (simp add: holds_field_def Let_def split: if_splits)

lemma holds_field_last:
  "field_of x = Some f \<Longrightarrow> el_ptr e' f = Some p \<Longrightarrow> take (length (snd x)) (drop p buf) = snd x \<Longrightarrow>
     ptr_only f \<or> el_len e' f = length (snd x) \<Longrightarrow> holds_field buf (xs @ [x]) e' f"
  by (simp add: holds_field_def)

lemma parse_elem_field:
  assumes "ie_ok x" and buf: "buf = pre @ ser_ie x @ post" and "\<And>f. holds_field buf xs e f"
  shows "\<exists>e'. parse_elem buf (unat (fst x)) (length (snd x)) (length pre + 2) (u, e) =
      Some (u + of_bool (unknown_ie x), e') \<and> (\<forall>f. holds_field buf (xs @ [x]) e' f)"
proof -
  let ?p = "length pre + 2" and ?l = "length (snd x)" and ?a = "elem_action (unat (fst x)) (length (snd x))"
  have data: "take ?l (drop ?p buf) = snd x" unfolding buf by (simp add: ser_ie_def)
  have set: "holds_field buf (xs @ [x]) (set_elem f ?p ?l e) g" if "field_of x = Some f" for f g
    using that data assms(3) [of g]
    by (cases "f = g") (auto simp: set_elem_def intro: holds_field_last holds_field_other)
  have keep: "holds_field buf (xs @ [x]) e' g" if "field_of x = None" "el_ptr e' = el_ptr e" "el_len e' = el_len e" for e' g
    using that assms(3) [of g] by (intro holds_field_other [of buf xs e]) simp_all
  show ?thesis
  proof (cases ?a)
    case Vendor
    have "vendor_field buf ?p ?l = vendor_field (snd x) 0 ?l"
      using vendor_field_inside [of "pre @ [fst x, of_nat ?l]" "snd x" post] by (simp add: buf ser_ie_def)
    moreover obtain r where "vendor_field (snd x) 0 ?l = Some r" using vendor_field_Some [of 0 ?l "snd x"] by auto
    ultimately show ?thesis using Vendor set keep
      by (cases r) (auto simp: parse_elem_def parse_vendor_specific_def field_of_def unknown_ie_def)
  next
    case (Ptr f)
    then have f: "field_of x = Some f" by (simp add: field_of_def)
    have "holds_field buf (xs @ [x]) (set_ptr f ?p e) g" for g
      using f data assms(3) [of g] elem_action_Ptr [OF Ptr]
      by (cases "f = g") (auto simp: set_ptr_def intro: holds_field_last holds_field_other)
    with Ptr show ?thesis by (auto simp: parse_elem_def unknown_ie_def)
  next
    case (Elem f)
    with set show ?thesis by (auto simp: parse_elem_def unknown_ie_def field_of_def)
  qed (use keep in \<open>auto simp: parse_elem_def unknown_ie_def field_of_def\<close>)
qed

lemma parse_elems_loop_ser:
  assumes "\<forall>x \<in> set todo. ie_ok x \<and> fst x \<noteq> 140" "buf = ser done @ ser todo" "\<And>f. holds_field buf done e f"
  shows "\<exists>e'. parse_elems_loop buf (length (ser done)) (length (ser todo)) (u, e) =
      Some (if u = 0 \<and> \<not> list_ex unknown_ie todo then ParseOK else ParseUnknown, e') \<and>
    (\<forall>f. holds_field buf (done @ todo) e' f)"
  using assms
proof (induction todo arbitrary: "done" u e)
  case Nil
  then show ?case by (auto simp: parse_elems_loop.simps)
next
  case (Cons x todo)
  have b: "buf = ser done @ ser_ie x @ ser todo" and x: "ie_ok x" "fst x \<noteq> 140" using Cons.prems by simp_all
  note rds = rd_ser_ie [of "ser done" x "ser todo", folded b]
  from parse_elem_field [OF x(1) b Cons.prems(3), of u] obtain e1
    where e1: "parse_elem buf (unat (fst x)) (length (snd x)) (length (ser done) + 2) (u, e) = Some (u + of_bool (unknown_ie x), e1)"
      "\<And>f. holds_field buf (done @ [x]) e1 f" by blast
  have "parse_elems_loop buf (length (ser done)) (length (ser (x # todo))) (u, e) =
      parse_elems_loop buf (length (ser (done @ [x]))) (length (ser todo)) (u + of_bool (unknown_ie x), e1)"
    using rds e1(1) x unat_ie_len [OF x(1)] by (subst parse_elems_loop.simps) simp
  with Cons.IH [of "done @ [x]" e1 "u + of_bool (unknown_ie x)"] Cons.prems e1(2) show ?case by auto
qed


lemma ie_count_loop_ser:
  "\<forall>x \<in> set todo. ie_ok x \<Longrightarrow> buf = pre @ ser todo \<Longrightarrow>
     ie_count_loop buf (length buf) (length pre) n = Some (n + length todo)"
proof (induction todo arbitrary: pre n)
  case Nil
  then show ?case by (simp add: ie_count_loop.simps)
next
  case (Cons x todo)
  have b: "buf = pre @ ser_ie x @ ser todo" using Cons.prems(2) by simp
  have len: "length buf = length pre + 2 + length (snd x) + length (ser todo)" by (simp add: b)
  have "ie_count_loop buf (length buf) (length pre) n =
      ie_count_loop buf (length buf) (length (pre @ ser_ie x)) (n + 1)"
    using rd_ser_ie(2) [of pre x "ser todo", folded b] unat_ie_len [of x] Cons.prems(1) len
    by (subst ie_count_loop.simps) simp
  with Cons.IH [of "pre @ ser_ie x" "n + 1"] Cons.prems show ?case by simp
qed

text \<open>
  What the parser makes of a frame that is a sequence of elements (none of them a MIC element): it succeeds, reports
  \<open>ParseUnknown\<close> exactly if some element is unknown, and for every field it keeps the data of the last element that
  belongs to the field, or nothing if there is none; \<open>ieee802_11_ie_count\<close> counts the elements.
\<close>

lemma ieee802_11_parse_elems_last:
  assumes "\<forall>x \<in> set ies. ie_ok x \<and> fst x \<noteq> 140"
  shows "\<exists>e. ieee802_11_parse_elems (ser ies) (length (ser ies)) =
      Some (if list_ex unknown_ie ies then ParseUnknown else ParseOK, e) \<and>
    (\<forall>f. let ys = filter (\<lambda>x. field_of x = Some f) ies
      in if ys = [] then el_ptr e f = None
         else \<exists>p. el_ptr e f = Some p \<and> take (length (snd (last ys))) (drop p (ser ies)) = snd (last ys) \<and>
           (ptr_only f \<or> el_len e f = length (snd (last ys)))) \<and>
    ieee802_11_ie_count (Some (ser ies)) (length (ser ies)) = Some (length ies)"
proof -
  have "holds_field (ser ies) [] zero_elems f" for f by (simp add: holds_field_def zero_elems_def)
  from parse_elems_loop_ser [of ies "ser ies" "[]" zero_elems 0] this assms obtain e
    where "ieee802_11_parse_elems (ser ies) (length (ser ies)) =
        Some (if list_ex unknown_ie ies then ParseUnknown else ParseOK, e)" "\<forall>f. holds_field (ser ies) ies e f"
    by (auto simp: ieee802_11_parse_elems_def)
  moreover have "ieee802_11_ie_count (Some (ser ies)) (length (ser ies)) = Some (length ies)"
    using ie_count_loop_ser [of ies "ser ies" "[]" 0] assms by (simp add: ieee802_11_ie_count_def)
  ultimately show ?thesis unfolding holds_field_def by blast
qed

abbreviation ies_example :: "ie list" where
  "ies_example \<equiv> [(0, [97, 98]), (221, [0, 0x50, 0xf2, 1, 7]), (0, [99]), (250, [])]"

subsection \<open>Collecting vendor elements\<close>

definition vendor_match :: "u32 \<Rightarrow> ie \<Rightarrow> bool" where
  "vendor_match oui_type x \<longleftrightarrow> fst x = 221 \<and> 4 \<le> length (snd x) \<and> WPA_GET_BE32 (take 4 (snd x)) = oui_type"

lemma is_vendor_ie_ser:
  assumes "ie_ok x" "buf = pre @ ser_ie x @ post"
  shows "is_vendor_ie buf (length pre) oui_type = Some (vendor_match oui_type x)"
proof -
  have "4 \<le> length (snd x) \<Longrightarrow> rd_range buf (length pre + 2) 4 = Some (take 4 (snd x))"
    using rd_range_inside [of 0 4 "snd x" "pre @ [fst x, of_nat (length (snd x))]" post] assms(2)
    by (simp add: ser_ie_def rd_range_def)
  then show ?thesis
    using rd_ser_ie [of pre x post, folded assms(2)] unat_ie_len [OF assms(1)]
    by (auto simp: is_vendor_ie_def vendor_match_def)
qed

lemma find_vendor_loop_ser:
  assumes "\<forall>x \<in> set todo. ie_ok x" "buf = pre @ ser todo"
  shows "find_vendor_loop buf (length buf) oui_type (length pre) =
    Some (if list_ex (vendor_match oui_type) todo
          then Found (length pre + length (ser (takeWhile (\<lambda>x. \<not> vendor_match oui_type x) todo))) else Not_found)"
  using assms
proof (induction todo arbitrary: pre)
  case Nil
  then show ?case by (simp add: find_vendor_loop.simps)
next
  case (Cons x todo)
  have b: "buf = pre @ ser_ie x @ ser todo" and x: "ie_ok x" using Cons.prems by simp_all
  have len: "length buf = length pre + 2 + length (snd x) + length (ser todo)" by (simp add: b)
  have "find_vendor_loop buf (length buf) oui_type (length pre) =
      (if vendor_match oui_type x then Some (Found (length pre))
       else find_vendor_loop buf (length buf) oui_type (length (pre @ ser_ie x)))"
    using rd_ser_ie(2) [of pre x "ser todo", folded b] unat_ie_len [OF x] is_vendor_ie_ser [OF x b, of oui_type] len
    by (subst find_vendor_loop.simps) simp
  with Cons.IH [of "pre @ ser_ie x"] Cons.prems show ?case by (simp add: add.assoc)
qed

lemma collect_vendor_loop_ser:
  assumes "\<forall>x \<in> set todo. ie_ok x" "buf = pre @ ser todo" "wpabuf_wf b" "length (ser todo) \<le> wpabuf_tailroom b"
  shows "\<exists>b'. collect_vendor_loop buf (length buf) oui_type (length pre) b = Ret b' \<and> wpabuf_wf b' \<and>
    wpabuf_content b' = wpabuf_content b @ concat (map (\<lambda>x. drop 4 (snd x)) (filter (vendor_match oui_type) todo))"
  using assms
proof (induction todo arbitrary: pre b)
  case Nil
  then show ?case by (simp add: collect_vendor_loop.simps)
next
  case (Cons x todo)
  have bf: "buf = pre @ ser_ie x @ ser todo" and x: "ie_ok x" using Cons.prems by simp_all
  have len: "length buf = length pre + 2 + length (snd x) + length (ser todo)" by (simp add: bf)
  let ?d = "if vendor_match oui_type x then drop 4 (snd x) else []"
  have room: "length ?d + length (ser todo) \<le> wpabuf_tailroom b" using Cons.prems(4) by auto
  have put: "(if vendor_match oui_type x then wpabuf_put_data b (Some (drop (length pre + 6) buf)) (length (snd x) - 4) else Ret b) =
      put_bytes b ?d"
  proof (cases "vendor_match oui_type x")
    case True
    then have "rd_range (drop (length pre + 6) buf) 0 (length (snd x) - 4) = Some (drop 4 (snd x))"
      unfolding bf by (simp add: rd_range_def ser_ie_def vendor_match_def)
    with True show ?thesis by (simp add: wpabuf_put_data_def put_bytes_def)
  qed (simp add: put_bytes_Nil [OF Cons.prems(3)])
  from put_fits_content [OF Cons.prems(3), of ?d] room obtain b1
    where b1: "put_bytes b ?d = Ret b1" "wpabuf_wf b1" "wpabuf_content b1 = wpabuf_content b @ ?d"
      "wpabuf_tailroom b1 = wpabuf_tailroom b - length ?d" by (metis add_leD1)
  have "collect_vendor_loop buf (length buf) oui_type (length pre) b =
      collect_vendor_loop buf (length buf) oui_type (length (pre @ ser_ie x)) b1"
    using rd_ser_ie(2) [of pre x "ser todo", folded bf] unat_ie_len [OF x] is_vendor_ie_ser [OF x bf, of oui_type] len
      trans [OF put b1(1)] by (subst collect_vendor_loop.simps) (simp split del: if_split cong: if_cong)
  with Cons.IH [of "pre @ ser_ie x" b1] Cons.prems b1 room show ?case by (auto split: if_splits)
qed


lemma filter_dropWhile: "filter P (dropWhile (\<lambda>x. \<not> P x) xs) = filter P xs"
  by (induction xs) auto

text \<open>
  \<open>ieee802_11_vendor_ie_concat\<close> on a sequence of elements: if some vendor element has the wanted type, the new
  buffer holds the payloads of all of them in order, and the buffer of \<open>ies_len\<close> bytes is always large enough (no put aborts);
  otherwise the result is null.
\<close>

lemma ieee802_11_vendor_ie_concat_payloads:
  assumes "\<forall>x \<in> set ies. ie_ok x" "length (ser ies) < 2 ^ 63 - 32" "malloc_ok (32 + length (ser ies))"
  shows "if list_ex (vendor_match oui_type) ies
    then \<exists>b. ieee802_11_vendor_ie_concat malloc_ok (ser ies) (length (ser ies)) oui_type = Ret (Some b) \<and> wpabuf_wf b \<and>
      wpabuf_content b = concat (map (\<lambda>x. drop 4 (snd x)) (filter (vendor_match oui_type) ies))
    else ieee802_11_vendor_ie_concat malloc_ok (ser ies) (length (ser ies)) oui_type = Ret None"
proof -
  let ?m = "vendor_match oui_type"
  let ?pre = "takeWhile (\<lambda>x. \<not> ?m x) ies" and ?todo = "dropWhile (\<lambda>x. \<not> ?m x) ies"
  have find: "find_vendor_loop (ser ies) (length (ser ies)) oui_type 0 =
      Some (if list_ex ?m ies then Found (length (ser ?pre)) else Not_found)"
    using find_vendor_loop_ser [OF assms(1), of "ser ies" "[]" oui_type] by simp
  from wpabuf_alloc_char [OF assms(2), of malloc_ok] assms(3) obtain b
    where b: "wpabuf_alloc malloc_ok (length (ser ies)) = Ret (Some b)" "wpabuf_wf b" "wpabuf_content b = []"
      "wpabuf_tailroom b = length (ser ies)" by auto
  have split: "ser ies = ser ?pre @ ser ?todo" by (metis concat_append map_append takeWhile_dropWhile_id)
  have "\<forall>x \<in> set ?todo. ie_ok x" using assms(1) set_dropWhileD by metis
  from collect_vendor_loop_ser [OF this split b(2), of oui_type] b(3,4) obtain b'
    where "collect_vendor_loop (ser ies) (length (ser ies)) oui_type (length (ser ?pre)) b = Ret b'" "wpabuf_wf b'"
      "wpabuf_content b' = concat (map (\<lambda>x. drop 4 (snd x)) (filter ?m ies))"
    using arg_cong [OF split, of length] by (auto simp: filter_dropWhile)
  with find b(1) show ?thesis by (simp add: ieee802_11_vendor_ie_concat_def)
qed

subsection \<open>Multi-band elements\<close>

definition mb_entry :: "bytes \<Rightarrow> nat \<times> nat \<Rightarrow> ie \<Rightarrow> bool" where
  "mb_entry buf x y \<longleftrightarrow> snd x = length (snd y) \<and> take (snd x) (drop (fst x) buf) = snd y \<and> ie_ok y \<and>
     fst x + snd x \<le> length buf \<and> fst y = 158"

lemma mb_ies_loop_ser:
  assumes "\<forall>x \<in> set todo. ie_ok x" "buf = pre @ ser todo" "list_all2 (mb_entry buf) info ys" "length ys \<le> 5"
  shows "\<exists>info'. mb_ies_loop buf (length pre) (length (ser todo)) info = Some (0, info') \<and>
    list_all2 (mb_entry buf) info' (take 5 (ys @ filter (\<lambda>x. fst x = 158) todo))"
  using assms
proof (induction todo arbitrary: pre info ys)
  case Nil
  then show ?case by (simp add: mb_ies_loop.simps)
next
  case (Cons x todo)
  have b: "buf = pre @ ser_ie x @ ser todo" and x: "ie_ok x" using Cons.prems by simp_all
  have li: "length info = length ys" using Cons.prems(3) by (rule list_all2_lengthD)
  show ?case
  proof (cases "length ys < 5")
    case True
    let ?info = "if fst x = 158 then info @ [(length pre + 2, length (snd x))] else info"
    let ?ys = "if fst x = 158 then ys @ [x] else ys"
    have e: "ys @ filter (\<lambda>x. fst x = 158) (x # todo) = ?ys @ filter (\<lambda>x. fst x = 158) todo" by simp
    have loop: "mb_ies_loop buf (length pre) (length (ser (x # todo))) info =
        mb_ies_loop buf (length (pre @ ser_ie x)) (length (ser todo)) ?info"
      using rd_ser_ie [of pre x "ser todo", folded b] unat_ie_len [OF x] True li
      by (subst mb_ies_loop.simps) (simp add: Let_def)
    have "fst x = 158 \<Longrightarrow> mb_entry buf (length pre + 2, length (snd x)) x"
      using x by (simp add: mb_entry_def b ser_ie_def)
    then have "list_all2 (mb_entry buf) ?info ?ys" using Cons.prems(3) by (simp add: list_all2_appendI)
    then show ?thesis unfolding e loop
      by (rule Cons.IH [rotated 2]) (use Cons.prems True in auto)
  next
    case False
    with Cons.prems li show ?thesis by (simp add: mb_ies_loop.simps)
  qed
qed

lemma bind_outcome_assoc: "bind_outcome (bind_outcome m f) g = bind_outcome m (\<lambda>x. bind_outcome (f x) g)"
  by (cases m) simp_all

lemma put_mb_ies_content:
  assumes "list_all2 (mb_entry buf) info ys" "wpabuf_wf b" "length (ser ys) \<le> wpabuf_tailroom b" "length buf < 2 ^ 63"
  shows "\<exists>b'. put_mb_ies buf info b = Ret b' \<and> wpabuf_wf b' \<and> wpabuf_content b' = wpabuf_content b @ ser ys"
  using assms
proof (induction info ys arbitrary: b rule: list_all2_induct)
  case (Cons x info y ys)
  let ?ops = "[Put_u8 158, Put_u8 (of_nat (snd x)), Put_data (Some (drop (fst x) buf)) (snd x)]"
  have x: "snd x = length (snd y)" "take (snd x) (drop (fst x) buf) = snd y" "fst y = 158" "fst x + snd x \<le> length buf"
    using Cons.hyps(1) by (auto simp: mb_entry_def)
  have bytes: "concat (map op_bytes ?ops) = ser_ie y" using x by (simp add: ser_ie_def)
  have "\<forall>p \<in> set ?ops. op_ok p" using x(4) Cons.prems(3) by auto
  from run_puts_char [OF Cons.prems(1) this, unfolded bytes] Cons.prems(2) obtain b1
    where b1: "run_puts b ?ops = Ret b1" "wpabuf_wf b1" "wpabuf_content b1 = wpabuf_content b @ ser_ie y"
      "wpabuf_tailroom b1 = wpabuf_tailroom b - length (ser_ie y)" by (auto split: if_splits)
  have "put_mb_ies buf (x # info) b = bind_outcome (run_puts b ?ops) (put_mb_ies buf info)"
    by (simp add: bind_outcome_assoc)
  with b1(1) have "put_mb_ies buf (x # info) b = put_mb_ies buf info b1" by simp
  with Cons.IH [OF b1(2)] b1(3,4) Cons.prems(2,3) show ?case by auto
qed simp

lemma length_ser_filter: "length (ser (filter P xs)) \<le> length (ser xs)"
  by (induction xs) auto

lemma length_ser_take: "length (ser (take n xs)) \<le> length (ser xs)"
  by (metis append_take_drop_id concat_append length_append le_add1 map_append)

text \<open>Saving and rebuilding the multi-band elements of a frame: the first five of them, unchanged.\<close>

lemma mb_ies_rebuilt:
  assumes "\<forall>x \<in> set ies. ie_ok x" "length (ser ies) < 2 ^ 63 - 32"
    and "filter (\<lambda>x. fst x = 158) ies \<noteq> []"
  defines "ys \<equiv> take 5 (filter (\<lambda>x. fst x = 158) ies)"
  shows "\<exists>info b. mb_ies_info_by_ies (Some (ser ies)) (length (ser ies)) = Some (0, info) \<and>
    mb_ies_by_info (\<lambda>_. True) (ser ies) info = Ret (Some b) \<and> wpabuf_content b = ser ys"
proof -
  from mb_ies_loop_ser [OF assms(1), of "ser ies" "[]" "[]" "[]"] obtain info
    where info: "mb_ies_loop (ser ies) 0 (length (ser ies)) [] = Some (0, info)" "list_all2 (mb_entry (ser ies)) info ys"
    by (auto simp: ys_def)
  have ne: "info \<noteq> []" using info(2) assms(3) by (auto simp: ys_def)
  have size: "sum_list (map (\<lambda>x. 2 + snd x) info) = length (ser ys)"
    using info(2) by (induction rule: list_all2_induct) (auto simp: mb_entry_def)
  have le: "length (ser ys) \<le> length (ser ies)"
    unfolding ys_def using length_ser_filter [of "\<lambda>x. fst x = 158" ies] length_ser_take [of 5 "filter (\<lambda>x. fst x = 158) ies"]
    by linarith
  then have "length (ser ys) < 2 ^ 63 - 32" using assms(2) by linarith
  from wpabuf_alloc_char [OF this, of "\<lambda>_. True"] obtain b
    where b: "wpabuf_alloc (\<lambda>_. True) (length (ser ys)) = Ret (Some b)" "wpabuf_wf b" "wpabuf_content b = []"
      "wpabuf_tailroom b = length (ser ys)" by auto
  from put_mb_ies_content [OF info(2) b(2)] b(3,4) assms(2) obtain b' where "put_mb_ies (ser ies) info b = Ret b'" "wpabuf_content b' = ser ys"
    by auto
  with info(1) ne b(1) size show ?thesis
    by (auto simp: mb_ies_info_by_ies_def mb_ies_by_info_def)
qed

subsection \<open>WMM parameters\<close>

text \<open>The configured parameters stay in the ranges of their fields in a beacon.\<close>

definition wmm_ac_ok :: "hostapd_wmm_ac_params \<Rightarrow> bool" where
  "wmm_ac_ok ac \<longleftrightarrow> 1 \<le> aifs ac \<and> aifs ac \<le> 255 \<and> 0 \<le> cwmin ac \<and> cwmin ac \<le> 15 \<and> 0 \<le> cwmax ac \<and> cwmax ac \<le> 15 \<and>
     0 \<le> txop_limit ac \<and> txop_limit ac \<le> 0xffff \<and> admission_control_mandatory ac \<in> {0, 1}"

lemma wmm_ac_set_ok: "wmm_ac_ok ac \<Longrightarrow> wmm_ac_set field v ac = Some ac' \<Longrightarrow> wmm_ac_ok ac'"
  by (auto simp: wmm_ac_set_def wmm_ac_ok_def split: if_splits)

lemma hostapd_config_wmm_ac_ok:
  assumes "length params = 4" "\<forall>ac \<in> set params. wmm_ac_ok ac" "7 \<le> length name" "atoi val \<noteq> None"
  shows "\<exists>r params'. hostapd_config_wmm_ac params name val = Some (r, params') \<and> length params' = 4 \<and>
    (\<forall>ac \<in> set params'. wmm_ac_ok ac) \<and> (r = - 1 \<longrightarrow> params' = params)"
proof (cases "wmm_ac_num (drop 7 name)")
  case (Some num)
  then have num: "num < 4" by (auto simp: wmm_ac_num_def split: if_splits)
  obtain v where v: "atoi val = Some v" using assms(4) by auto
  have ac: "rd params num = Some (params ! num)" "wmm_ac_ok (params ! num)" using num assms(1,2) by (simp_all add: rd_Some)
  show ?thesis
  proof (cases "drop 3 (drop 7 name) \<in> set wmm_fields")
    case True
    show ?thesis
    proof (cases "wmm_ac_set (drop 3 (drop 7 name)) v (params ! num)")
      case (Some ac')
      have "\<forall>ac \<in> set (params[num := ac']). wmm_ac_ok ac"
        using assms(2) wmm_ac_set_ok [OF ac(2) Some] set_update_subset_insert [of params num ac'] by auto
      with True Some \<open>wmm_ac_num _ = Some num\<close> v ac(1) num assms(1,3) show ?thesis
        by (simp add: hostapd_config_wmm_ac_def Let_def wr_Some)
    qed (use True Some v ac(1) assms in \<open>simp add: hostapd_config_wmm_ac_def Let_def\<close>)
  qed (use Some assms in \<open>simp add: hostapd_config_wmm_ac_def Let_def\<close>)
qed (use assms in \<open>simp add: hostapd_config_wmm_ac_def Let_def\<close>)

end
