(* ===== verification/Channels.thy ===== *)
theory Channels
  imports Prelude
begin

text \<open>
  Frequencies, channels and operating classes (\<open>src/common/ieee802_11_common.c\<close>). Frequencies are in MHz; the results of
  type \<open>u8\<close> are natural numbers with the truncation written out. The output parameters are written only when the
  conversion succeeds, so they are part of the successful result.
\<close>

datatype hostapd_hw_mode = HOSTAPD_MODE_IEEE80211B | HOSTAPD_MODE_IEEE80211G | HOSTAPD_MODE_IEEE80211A
  | HOSTAPD_MODE_IEEE80211AD | HOSTAPD_MODE_IEEE80211ANY | NUM_HOSTAPD_MODES

text \<open>The mode with the operating class and the channel; \<open>None\<close> stands for \<open>NUM_HOSTAPD_MODES\<close>.\<close>

definition ieee80211_freq_to_channel_ext :: "nat \<Rightarrow> int \<Rightarrow> bool \<Rightarrow> (hostapd_hw_mode \<times> nat \<times> nat) option" where
  "ieee80211_freq_to_channel_ext freq sec_channel vht =
     (if 1 < sec_channel \<or> sec_channel < - 1 then None
      else if 2412 \<le> freq \<and> freq \<le> 2472 then
        if (freq - 2407) mod 5 \<noteq> 0 then None
        else if vht then None
        else Some (HOSTAPD_MODE_IEEE80211G, if sec_channel = 1 then 83 else if sec_channel = - 1 then 84 else 81,
               (freq - 2407) div 5 mod 256)
      else if freq = 2484 then
        if sec_channel \<noteq> 0 \<or> vht then None else Some (HOSTAPD_MODE_IEEE80211B, 82, 14)
      else if 4900 \<le> freq \<and> freq < 5000 then
        if (freq - 4000) mod 5 \<noteq> 0 then None
        else Some (HOSTAPD_MODE_IEEE80211A, 0, (freq - 4000) div 5 mod 256)
      else if 5180 \<le> freq \<and> freq \<le> 5240 then
        if (freq - 5000) mod 5 \<noteq> 0 then None
        else Some (HOSTAPD_MODE_IEEE80211A,
               if sec_channel = 1 then 116 else if sec_channel = - 1 then 117 else if vht then 128 else 115,
               (freq - 5000) div 5 mod 256)
      else if 5745 \<le> freq \<and> freq \<le> 5805 then
        if (freq - 5000) mod 5 \<noteq> 0 then None
        else Some (HOSTAPD_MODE_IEEE80211A,
               if sec_channel = 1 then 126 else if sec_channel = - 1 then 127 else if vht then 128 else 124,
               (freq - 5000) div 5 mod 256)
      else if 5745 \<le> freq \<and> freq \<le> 5845 then
        if (freq - 5000) mod 5 \<noteq> 0 then None
        else Some (HOSTAPD_MODE_IEEE80211A, 125, (freq - 5000) div 5 mod 256)
      else if 5000 \<le> freq \<and> freq < 5900 then
        if (freq - 5000) mod 5 \<noteq> 0 then None
        else Some (HOSTAPD_MODE_IEEE80211A, 0, (freq - 5000) div 5 mod 256)
      else if 56160 + 2160 * 1 \<le> freq \<and> freq \<le> 56160 + 2160 * 4 then
        if sec_channel \<noteq> 0 \<or> vht then None
        else Some (HOSTAPD_MODE_IEEE80211AD, 180, (freq - 56160) div 2160 mod 256)
      else None)"

text \<open>The argument of type \<open>int\<close> is converted to \<open>unsigned int\<close>; a negative frequency becomes larger than all bands.\<close>

definition ieee80211_freq_to_chan :: "int \<Rightarrow> (hostapd_hw_mode \<times> nat) option" where
  "ieee80211_freq_to_chan freq =
     map_option (\<lambda>(mode, op_class, channel). (mode, channel))
       (ieee80211_freq_to_channel_ext (nat (freq mod 2 ^ 32)) 0 False)"

subsection \<open>Countries\<close>

definition us_op_class_cc :: "string list" where
  "us_op_class_cc = [''US'', ''CA'']"

definition eu_op_class_cc :: "string list" where
  "eu_op_class_cc = [''AL'', ''AM'', ''AT'', ''AZ'', ''BA'', ''BE'', ''BG'', ''BY'', ''CH'', ''CY'', ''CZ'', ''DE'',
     ''DK'', ''EE'', ''EL'', ''ES'', ''FI'', ''FR'', ''GE'', ''HR'', ''HU'', ''IE'', ''IS'', ''IT'',
     ''LI'', ''LT'', ''LU'', ''LV'', ''MD'', ''ME'', ''MK'', ''MT'', ''NL'', ''NO'', ''PL'', ''PT'',
     ''RO'', ''RS'', ''RU'', ''SE'', ''SI'', ''SK'', ''TR'', ''UA'', ''UK'']"

definition jp_op_class_cc :: "string list" where
  "jp_op_class_cc = [''JP'']"

definition cn_op_class_cc :: "string list" where
  "cn_op_class_cc = [''CN'']"

text \<open>Only the first two characters of the country string are compared; it is two characters or longer.\<close>

definition country_match :: "string list \<Rightarrow> string option \<Rightarrow> bool" where
  "country_match cc country = (case country of None \<Rightarrow> False | Some c \<Rightarrow> list_ex (\<lambda>x. x = take 2 c) cc)"

subsection \<open>Operating classes\<close>

abbreviation band :: "nat \<Rightarrow> nat \<Rightarrow> nat \<Rightarrow> nat \<Rightarrow> nat \<Rightarrow> int" where
  "band base step lo hi chan \<equiv> (if chan < lo \<or> hi < chan then - 1 else int (base + step * chan))"

definition ieee80211_chan_to_freq_us :: "nat \<Rightarrow> nat \<Rightarrow> int" where
  "ieee80211_chan_to_freq_us op_class chan =
     (if op_class \<in> {12, 32, 33} then band 2407 5 1 11 chan
      else if op_class \<in> {1, 2, 22, 23, 27, 28} then band 5000 5 36 64 chan
      else if op_class \<in> {4, 24} then band 5000 5 100 144 chan
      else if op_class \<in> {3, 25, 26, 30, 31} then band 5000 5 149 161 chan
      else if op_class = 5 then band 5000 5 149 165 chan
      else if op_class = 34 then band 56160 2160 1 3 chan
      else - 1)"

definition ieee80211_chan_to_freq_eu :: "nat \<Rightarrow> nat \<Rightarrow> int" where
  "ieee80211_chan_to_freq_eu op_class chan =
     (if op_class \<in> {4, 11, 12} then band 2407 5 1 13 chan
      else if op_class \<in> {1, 2, 5, 6, 8, 9} then band 5000 5 36 64 chan
      else if op_class \<in> {3, 7, 10, 16} then band 5000 5 100 140 chan
      else if op_class = 17 then band 5000 5 149 169 chan
      else if op_class = 18 then band 56160 2160 1 4 chan
      else - 1)"

definition ieee80211_chan_to_freq_jp :: "nat \<Rightarrow> nat \<Rightarrow> int" where
  "ieee80211_chan_to_freq_jp op_class chan =
     (if op_class \<in> {30, 56, 57} then band 2407 5 1 13 chan
      else if op_class = 31 then if chan \<noteq> 14 then - 1 else int (2414 + 5 * chan)
      else if op_class \<in> {1, 32, 33, 36, 37, 38, 41, 42, 43} then band 5000 5 34 64 chan
      else if op_class \<in> {34, 35, 39, 40, 44, 45, 58} then band 5000 5 100 140 chan
      else if op_class = 59 then band 56160 2160 1 3 chan
      else - 1)"

definition ieee80211_chan_to_freq_cn :: "nat \<Rightarrow> nat \<Rightarrow> int" where
  "ieee80211_chan_to_freq_cn op_class chan =
     (if op_class \<in> {7, 8, 9} then band 2407 5 1 13 chan
      else if op_class \<in> {1, 2, 4, 5} then band 5000 5 36 64 chan
      else if op_class \<in> {3, 6} then band 5000 5 149 165 chan
      else - 1)"

definition ieee80211_chan_to_freq_global :: "nat \<Rightarrow> nat \<Rightarrow> int" where
  "ieee80211_chan_to_freq_global op_class chan =
     (if op_class = 81 then band 2407 5 1 13 chan
      else if op_class = 82 then if chan \<noteq> 14 then - 1 else int (2414 + 5 * chan)
      else if op_class \<in> {83, 84} then band 2407 5 1 13 chan
      else if op_class \<in> {115, 116, 117, 118, 119, 120} then band 5000 5 36 64 chan
      else if op_class \<in> {121, 122, 123} then band 5000 5 100 140 chan
      else if op_class \<in> {124, 126, 127} then band 5000 5 149 161 chan
      else if op_class = 125 then band 5000 5 149 169 chan
      else if op_class \<in> {128, 130} then band 5000 5 36 161 chan
      else if op_class = 129 then band 5000 5 50 114 chan
      else if op_class = 180 then band 56160 2160 1 4 chan
      else - 1)"

definition ieee80211_chan_to_freq :: "string option \<Rightarrow> nat \<Rightarrow> nat \<Rightarrow> int" where
  "ieee80211_chan_to_freq country op_class chan =
     (let us = ieee80211_chan_to_freq_us op_class chan; eu = ieee80211_chan_to_freq_eu op_class chan;
          jp = ieee80211_chan_to_freq_jp op_class chan; cn = ieee80211_chan_to_freq_cn op_class chan
      in if country_match us_op_class_cc country \<and> 0 < us then us
         else if country_match eu_op_class_cc country \<and> 0 < eu then eu
         else if country_match jp_op_class_cc country \<and> 0 < jp then jp
         else if country_match cn_op_class_cc country \<and> 0 < cn then cn
         else ieee80211_chan_to_freq_global op_class chan)"

definition ieee80211_is_dfs :: "int \<Rightarrow> bool" where
  "ieee80211_is_dfs freq \<longleftrightarrow> (5260 \<le> freq \<and> freq \<le> 5320) \<or> (5500 \<le> freq \<and> freq \<le> 5700)"

subsection \<open>Round trip\<close>

lemma channel_steps:
  fixes f :: nat
  assumes "b \<le> f" "(f - b) mod s = 0"
  shows "b + s * ((f - b) div s) = f"
  using assms by (metis add_0 le_add_diff_inverse mult_div_mod_eq add.commute)

lemma global_class_not_national:
  "80 < op_class \<Longrightarrow> ieee80211_chan_to_freq country op_class chan = ieee80211_chan_to_freq_global op_class chan"
  by (simp add: ieee80211_chan_to_freq_def ieee80211_chan_to_freq_us_def ieee80211_chan_to_freq_eu_def
      ieee80211_chan_to_freq_jp_def ieee80211_chan_to_freq_cn_def)

lemma channel_div:
  fixes f :: nat
  assumes "b + s * lo \<le> f" "f \<le> b + s * hi" "0 < s" "hi < 256"
  shows "lo \<le> (f - b) div s" "(f - b) div s \<le> hi" "(f - b) div s mod 256 = (f - b) div s"
proof -
  show "lo \<le> (f - b) div s" using assms by (simp add: less_eq_div_iff_mult_less_eq mult.commute)
  show le: "(f - b) div s \<le> hi" using assms div_le_mono [of "f - b" "s * hi" s] by simp
  show "(f - b) div s mod 256 = (f - b) div s" using le assms(4) by simp
qed

text \<open>The bands that the conversion knows with an operating class.\<close>

definition in_band :: "nat \<Rightarrow> nat \<Rightarrow> nat \<Rightarrow> nat \<Rightarrow> nat \<Rightarrow> nat \<Rightarrow> bool" where
  "in_band base step lo hi freq channel \<longleftrightarrow>
     base + step * lo \<le> freq \<and> freq \<le> base + step * hi \<and> channel = (freq - base) div step mod 256"

lemma in_band_freq:
  assumes "in_band base step lo hi freq channel" "(freq - base) mod step = 0" "0 < step" "hi < 256"
  shows "lo \<le> channel \<and> channel \<le> hi \<and> base + step * channel = freq"
  using assms channel_div [of base step lo freq hi] channel_steps [of base freq step] by (auto simp: in_band_def)

lemma freq_to_channel_bands:
  assumes "ieee80211_freq_to_channel_ext freq sec_channel vht = Some (mode, op_class, channel)" "op_class \<noteq> 0"
  shows "op_class \<in> {81, 83, 84} \<and> in_band 2407 5 1 13 freq channel \<and> (freq - 2407) mod 5 = 0 \<or>
    op_class = 82 \<and> freq = 2484 \<and> channel = 14 \<or>
    op_class \<in> {115, 116, 117, 128} \<and> in_band 5000 5 36 48 freq channel \<and> (freq - 5000) mod 5 = 0 \<or>
    op_class \<in> {124, 126, 127, 128} \<and> in_band 5000 5 149 161 freq channel \<and> (freq - 5000) mod 5 = 0 \<or>
    op_class = 125 \<and> in_band 5000 5 149 169 freq channel \<and> (freq - 5000) mod 5 = 0 \<or>
    op_class = 180 \<and> in_band 56160 2160 1 4 freq channel \<and> mode = HOSTAPD_MODE_IEEE80211AD"
  using assms unfolding ieee80211_freq_to_channel_ext_def in_band_def
  by (simp split: if_split_asm)

text \<open>
  Frequency to channel and back: whatever frequency \<open>ieee80211_freq_to_channel_ext\<close> turns into an operating class
  other than 0 and a channel, \<open>ieee80211_chan_to_freq\<close> returns the frequency for them in every country; in the
  60 GHz band, where the conversion does not check the channel spacing, this needs a frequency on the raster of 2160 MHz.
\<close>

lemma freq_to_channel_round_trip:
  assumes "ieee80211_freq_to_channel_ext freq sec_channel vht = Some (mode, op_class, channel)" "op_class \<noteq> 0"
    and "mode = HOSTAPD_MODE_IEEE80211AD \<Longrightarrow> (freq - 56160) mod 2160 = 0"
  shows "ieee80211_chan_to_freq country op_class channel = int freq"
proof -
  have "80 < op_class \<and> ieee80211_chan_to_freq_global op_class channel = int freq"
    using freq_to_channel_bands [OF assms(1,2)]
  proof (elim disjE conjE)
    assume "op_class \<in> {81, 83, 84}" "in_band 2407 5 1 13 freq channel" "(freq - 2407) mod 5 = 0"
    with in_band_freq [OF this(2,3)] show ?thesis by (auto simp: ieee80211_chan_to_freq_global_def)
  next
    assume "op_class \<in> {115, 116, 117, 128}" "in_band 5000 5 36 48 freq channel" "(freq - 5000) mod 5 = 0"
    with in_band_freq [OF this(2,3)] show ?thesis by (auto simp: ieee80211_chan_to_freq_global_def)
  next
    assume "op_class \<in> {124, 126, 127, 128}" "in_band 5000 5 149 161 freq channel" "(freq - 5000) mod 5 = 0"
    with in_band_freq [OF this(2,3)] show ?thesis by (auto simp: ieee80211_chan_to_freq_global_def)
  next
    assume "op_class = 125" "in_band 5000 5 149 169 freq channel" "(freq - 5000) mod 5 = 0"
    with in_band_freq [OF this(2,3)] show ?thesis by (auto simp: ieee80211_chan_to_freq_global_def)
  next
    assume "op_class = 180" "in_band 56160 2160 1 4 freq channel" "mode = HOSTAPD_MODE_IEEE80211AD"
    with in_band_freq [OF this(2) assms(3) [OF this(3)]] show ?thesis by (auto simp: ieee80211_chan_to_freq_global_def)
  qed (simp add: ieee80211_chan_to_freq_global_def)
  then show ?thesis by (simp add: global_class_not_national)
qed

text \<open>Off the raster of the 60 GHz band the channel below is reported.\<close>

lemma freq_to_channel_60ghz_unchecked:
  "ieee80211_freq_to_channel_ext 58321 0 False = Some (HOSTAPD_MODE_IEEE80211AD, 180, 1)"
  by (simp add: ieee80211_freq_to_channel_ext_def)

text \<open>A channel on which radar detection is needed is never one of the classes that are assigned here.\<close>

lemma no_dfs_class:
  assumes "ieee80211_freq_to_channel_ext freq sec_channel vht = Some (mode, op_class, channel)" "op_class \<noteq> 0"
  shows "\<not> ieee80211_is_dfs (int freq)"
  using assms by (auto simp: ieee80211_freq_to_channel_ext_def ieee80211_is_dfs_def split: if_splits)

end
