(* ===== verification/RsnIe.thy ===== *)
theory RsnIe
  imports WpaBuf "HOL-Library.Monad_Syntax"
begin

text \<open>
  The RSN and WPA information elements: the parsers (\<open>src/common/wpa_common.c\<close>) and the writers of the access point
  (\<open>src/ap/wpa_auth_ie.c\<close>), in the configuration of this build: \<open>CONFIG_IEEE80211W\<close> and \<open>CONFIG_PEERKEY\<close>, no fast transition,
  SAE or test options. Sets of ciphers and of key management methods are words with one bit for each. Parsers read with
  checked accesses: \<open>None\<close> is a read outside the element. An early return is \<open>Inl\<close>.
\<close>

subsection \<open>Constants\<close>

abbreviation WPA_CIPHER_NONE :: u32 where "WPA_CIPHER_NONE \<equiv> 0x1"
abbreviation WPA_CIPHER_TKIP :: u32 where "WPA_CIPHER_TKIP \<equiv> 0x8"
abbreviation WPA_CIPHER_CCMP :: u32 where "WPA_CIPHER_CCMP \<equiv> 0x10"
abbreviation WPA_CIPHER_AES_128_CMAC :: u32 where "WPA_CIPHER_AES_128_CMAC \<equiv> 0x20"
abbreviation WPA_CIPHER_GCMP :: u32 where "WPA_CIPHER_GCMP \<equiv> 0x40"
abbreviation WPA_CIPHER_GCMP_256 :: u32 where "WPA_CIPHER_GCMP_256 \<equiv> 0x100"
abbreviation WPA_CIPHER_CCMP_256 :: u32 where "WPA_CIPHER_CCMP_256 \<equiv> 0x200"
abbreviation WPA_CIPHER_BIP_GMAC_128 :: u32 where "WPA_CIPHER_BIP_GMAC_128 \<equiv> 0x800"
abbreviation WPA_CIPHER_BIP_GMAC_256 :: u32 where "WPA_CIPHER_BIP_GMAC_256 \<equiv> 0x1000"
abbreviation WPA_CIPHER_BIP_CMAC_256 :: u32 where "WPA_CIPHER_BIP_CMAC_256 \<equiv> 0x2000"
abbreviation WPA_CIPHER_GTK_NOT_USED :: u32 where "WPA_CIPHER_GTK_NOT_USED \<equiv> 0x4000"

abbreviation WPA_KEY_MGMT_IEEE8021X :: u32 where "WPA_KEY_MGMT_IEEE8021X \<equiv> 0x1"
abbreviation WPA_KEY_MGMT_PSK :: u32 where "WPA_KEY_MGMT_PSK \<equiv> 0x2"
abbreviation WPA_KEY_MGMT_WPA_NONE :: u32 where "WPA_KEY_MGMT_WPA_NONE \<equiv> 0x10"
abbreviation WPA_KEY_MGMT_IEEE8021X_SHA256 :: u32 where "WPA_KEY_MGMT_IEEE8021X_SHA256 \<equiv> 0x80"
abbreviation WPA_KEY_MGMT_PSK_SHA256 :: u32 where "WPA_KEY_MGMT_PSK_SHA256 \<equiv> 0x100"
abbreviation WPA_KEY_MGMT_OSEN :: u32 where "WPA_KEY_MGMT_OSEN \<equiv> 0x8000"
abbreviation WPA_KEY_MGMT_IEEE8021X_SUITE_B :: u32 where "WPA_KEY_MGMT_IEEE8021X_SUITE_B \<equiv> 0x10000"
abbreviation WPA_KEY_MGMT_IEEE8021X_SUITE_B_192 :: u32 where "WPA_KEY_MGMT_IEEE8021X_SUITE_B_192 \<equiv> 0x20000"

abbreviation WPA_PROTO_WPA :: u32 where "WPA_PROTO_WPA \<equiv> 0x1"
abbreviation WPA_PROTO_RSN :: u32 where "WPA_PROTO_RSN \<equiv> 0x2"
abbreviation WPA_PROTO_OSEN :: u32 where "WPA_PROTO_OSEN \<equiv> 0x8"

abbreviation WLAN_EID_RSN :: u8 where "WLAN_EID_RSN \<equiv> 48"
abbreviation WLAN_EID_VENDOR_SPECIFIC :: u8 where "WLAN_EID_VENDOR_SPECIFIC \<equiv> 221"

abbreviation OSEN_IE_VENDOR_TYPE :: u32 where "OSEN_IE_VENDOR_TYPE \<equiv> 0x506f9a12"
abbreviation WPA_OUI_TYPE :: u32 where "WPA_OUI_TYPE \<equiv> 0x0050f201"

subsection \<open>Suites\<close>

definition rsn_selector_to_bitfield :: "u32 \<Rightarrow> u32" where
  "rsn_selector_to_bitfield s =
    (if s = 0x000fac00 then WPA_CIPHER_NONE
     else if s = 0x000fac02 then WPA_CIPHER_TKIP
     else if s = 0x000fac04 then WPA_CIPHER_CCMP
     else if s = 0x000fac06 then WPA_CIPHER_AES_128_CMAC
     else if s = 0x000fac08 then WPA_CIPHER_GCMP
     else if s = 0x000fac0a then WPA_CIPHER_CCMP_256
     else if s = 0x000fac09 then WPA_CIPHER_GCMP_256
     else if s = 0x000fac0b then WPA_CIPHER_BIP_GMAC_128
     else if s = 0x000fac0c then WPA_CIPHER_BIP_GMAC_256
     else if s = 0x000fac0d then WPA_CIPHER_BIP_CMAC_256
     else if s = 0x000fac07 then WPA_CIPHER_GTK_NOT_USED
     else 0)"

definition rsn_key_mgmt_to_bitfield :: "u32 \<Rightarrow> u32" where
  "rsn_key_mgmt_to_bitfield s =
    (if s = 0x000fac01 then WPA_KEY_MGMT_IEEE8021X
     else if s = 0x000fac02 then WPA_KEY_MGMT_PSK
     else if s = 0x000fac05 then WPA_KEY_MGMT_IEEE8021X_SHA256
     else if s = 0x000fac06 then WPA_KEY_MGMT_PSK_SHA256
     else if s = 0x000fac0b then WPA_KEY_MGMT_IEEE8021X_SUITE_B
     else if s = 0x000fac0c then WPA_KEY_MGMT_IEEE8021X_SUITE_B_192
     else if s = 0x506f9a01 then WPA_KEY_MGMT_OSEN
     else 0)"

definition wpa_selector_to_bitfield :: "u32 \<Rightarrow> u32" where
  "wpa_selector_to_bitfield s =
    (if s = 0x0050f200 then WPA_CIPHER_NONE
     else if s = 0x0050f202 then WPA_CIPHER_TKIP
     else if s = 0x0050f204 then WPA_CIPHER_CCMP
     else 0)"

definition wpa_key_mgmt_to_bitfield :: "u32 \<Rightarrow> u32" where
  "wpa_key_mgmt_to_bitfield s =
    (if s = 0x0050f201 then WPA_KEY_MGMT_IEEE8021X
     else if s = 0x0050f202 then WPA_KEY_MGMT_PSK
     else if s = 0x0050f200 then WPA_KEY_MGMT_WPA_NONE
     else 0)"

definition wpa_cipher_valid_pairwise :: "u32 \<Rightarrow> bool" where
  "wpa_cipher_valid_pairwise c = (c = WPA_CIPHER_CCMP_256 \<or> c = WPA_CIPHER_GCMP_256 \<or> c = WPA_CIPHER_CCMP
     \<or> c = WPA_CIPHER_GCMP \<or> c = WPA_CIPHER_TKIP)"

definition wpa_cipher_valid_group :: "u32 \<Rightarrow> bool" where
  "wpa_cipher_valid_group c = (wpa_cipher_valid_pairwise c \<or> c = WPA_CIPHER_GTK_NOT_USED)"

definition wpa_cipher_valid_mgmt_group :: "u32 \<Rightarrow> bool" where
  "wpa_cipher_valid_mgmt_group c = (c = WPA_CIPHER_AES_128_CMAC \<or> c = WPA_CIPHER_BIP_GMAC_128
     \<or> c = WPA_CIPHER_BIP_GMAC_256 \<or> c = WPA_CIPHER_BIP_CMAC_256)"

definition wpa_cipher_to_suite :: "u32 \<Rightarrow> u32 \<Rightarrow> u32" where
  "wpa_cipher_to_suite proto c =
    (if c AND WPA_CIPHER_CCMP_256 \<noteq> 0 then 0x000fac0a
     else if c AND WPA_CIPHER_GCMP_256 \<noteq> 0 then 0x000fac09
     else if c AND WPA_CIPHER_CCMP \<noteq> 0 then (if proto = WPA_PROTO_RSN then 0x000fac04 else 0x0050f204)
     else if c AND WPA_CIPHER_GCMP \<noteq> 0 then 0x000fac08
     else if c AND WPA_CIPHER_TKIP \<noteq> 0 then (if proto = WPA_PROTO_RSN then 0x000fac02 else 0x0050f202)
     else if c AND WPA_CIPHER_NONE \<noteq> 0 then (if proto = WPA_PROTO_RSN then 0x000fac00 else 0x0050f200)
     else if c AND WPA_CIPHER_GTK_NOT_USED \<noteq> 0 then 0x000fac07
     else if c AND WPA_CIPHER_AES_128_CMAC \<noteq> 0 then 0x000fac06
     else if c AND WPA_CIPHER_BIP_GMAC_128 \<noteq> 0 then 0x000fac0b
     else if c AND WPA_CIPHER_BIP_GMAC_256 \<noteq> 0 then 0x000fac0c
     else if c AND WPA_CIPHER_BIP_CMAC_256 \<noteq> 0 then 0x000fac0d
     else 0)"

text \<open>
  A chain of \<open>if (set & BIT) { put (suite) }\<close> is its table of bits and suites; \<open>put_suites\<close> gives the suites
  that are written, in order.
\<close>

definition put_suites :: "(u32 \<times> u32) list \<Rightarrow> u32 \<Rightarrow> u32 list" where
  "put_suites table c = map snd (filter (\<lambda>(b, s). c AND b \<noteq> 0) table)"

definition rsn_cipher_put_suites :: "u32 \<Rightarrow> u32 list" where
  "rsn_cipher_put_suites = put_suites
    [(WPA_CIPHER_CCMP_256, 0x000fac0a), (WPA_CIPHER_GCMP_256, 0x000fac09), (WPA_CIPHER_CCMP, 0x000fac04),
     (WPA_CIPHER_GCMP, 0x000fac08), (WPA_CIPHER_TKIP, 0x000fac02), (WPA_CIPHER_NONE, 0x000fac00)]"

definition wpa_cipher_put_suites :: "u32 \<Rightarrow> u32 list" where
  "wpa_cipher_put_suites = put_suites
    [(WPA_CIPHER_CCMP, 0x0050f204), (WPA_CIPHER_TKIP, 0x0050f202), (WPA_CIPHER_NONE, 0x0050f200)]"

definition rsn_key_mgmt_put :: "u32 \<Rightarrow> u32 list" where
  "rsn_key_mgmt_put = put_suites
    [(WPA_KEY_MGMT_IEEE8021X, 0x000fac01), (WPA_KEY_MGMT_PSK, 0x000fac02), (WPA_KEY_MGMT_IEEE8021X_SHA256, 0x000fac05),
     (WPA_KEY_MGMT_PSK_SHA256, 0x000fac06), (WPA_KEY_MGMT_IEEE8021X_SUITE_B, 0x000fac0b),
     (WPA_KEY_MGMT_IEEE8021X_SUITE_B_192, 0x000fac0c)]"

definition wpa_key_mgmt_put :: "u32 \<Rightarrow> u32 list" where
  "wpa_key_mgmt_put = put_suites [(WPA_KEY_MGMT_IEEE8021X, 0x0050f201), (WPA_KEY_MGMT_PSK, 0x0050f202)]"

subsection \<open>The parsers\<close>

record wpa_ie_data =
  wd_proto :: u32
  wd_pairwise_cipher :: u32
  wd_group_cipher :: u32
  wd_key_mgmt :: u32
  wd_capabilities :: u16
  wd_num_pmkid :: nat
  wd_pmkid :: "nat option"
  wd_mgmt_group_cipher :: u32

definition get_le16 :: "bytes \<Rightarrow> nat \<Rightarrow> u16 option" where
  "get_le16 buf pos = map_option WPA_GET_LE16 (rd_range buf pos 2)"

definition get_sel :: "bytes \<Rightarrow> nat \<Rightarrow> u32 option" where
  "get_sel buf pos = map_option WPA_GET_BE32 (rd_range buf pos 4)"

primrec or_suites :: "(u32 \<Rightarrow> u32) \<Rightarrow> bytes \<Rightarrow> nat \<Rightarrow> nat \<Rightarrow> u32 \<Rightarrow> u32 option" where
  "or_suites f buf pos 0 acc = Some acc"
| "or_suites f buf pos (Suc n) acc = do { s \<leftarrow> get_sel buf pos; or_suites f buf (pos + 4) n (acc OR f s) }"

text \<open>The parser's variables \<open>pos\<close>, \<open>left\<close> and \<open>data\<close>; a step returns early (\<open>Inl\<close>) or goes on.\<close>

type_synonym cursor = "nat \<times> nat \<times> wpa_ie_data"

type_synonym step_result = "((int \<times> wpa_ie_data) + cursor) option"

definition andthen :: "step_result \<Rightarrow> (cursor \<Rightarrow> step_result) \<Rightarrow> step_result" where
  "andthen m f = do { r \<leftarrow> m; case r of Inl x \<Rightarrow> Some (Inl x) | Inr c \<Rightarrow> f c }"

definition parse_rsn_group :: "bytes \<Rightarrow> cursor \<Rightarrow> step_result" where
  "parse_rsn_group buf = (\<lambda>(pos, left, d).
    if left \<ge> 4 then do {
      s \<leftarrow> get_sel buf pos;
      let d = d\<lparr>wd_group_cipher := rsn_selector_to_bitfield s\<rparr>;
      if \<not> wpa_cipher_valid_group (wd_group_cipher d) then Some (Inl (-1, d))
      else Some (Inr (pos + 4, left - 4, d))
    } else if left > 0 then Some (Inl (-3, d))
    else Some (Inr (pos, left, d)))"

text \<open>A counted list of suites: the errors of a bad count and of a single byte left, and where the result goes.\<close>

definition parse_suites ::
    "(u32 \<Rightarrow> u32) \<Rightarrow> int \<Rightarrow> int \<Rightarrow> (u32 \<Rightarrow> wpa_ie_data \<Rightarrow> wpa_ie_data) \<Rightarrow> bytes \<Rightarrow> cursor \<Rightarrow> step_result" where
  "parse_suites f botch short upd buf = (\<lambda>(pos, left, d).
    if left \<ge> 2 then do {
      let d = upd 0 d;
      n \<leftarrow> get_le16 buf pos;
      let pos = pos + 2;
      let left = left - 2;
      let count = unat n;
      if count = 0 \<or> count > left div 4 then Some (Inl (botch, d))
      else do {
        c \<leftarrow> or_suites f buf pos count 0;
        Some (Inr (pos + 4 * count, left - 4 * count, upd c d))
      }
    } else if left = 1 then Some (Inl (short, d))
    else Some (Inr (pos, left, d)))"

definition reject_cmac :: "cursor \<Rightarrow> step_result" where
  "reject_cmac = (\<lambda>(pos, left, d).
    if wd_pairwise_cipher d AND WPA_CIPHER_AES_128_CMAC \<noteq> 0 then Some (Inl (-1, d)) else Some (Inr (pos, left, d)))"

definition parse_capabilities :: "bytes \<Rightarrow> cursor \<Rightarrow> step_result" where
  "parse_capabilities buf = (\<lambda>(pos, left, d).
    if left \<ge> 2 then do {
      c \<leftarrow> get_le16 buf pos;
      Some (Inr (pos + 2, left - 2, d\<lparr>wd_capabilities := c\<rparr>))
    } else Some (Inr (pos, left, d)))"

definition parse_pmkids :: "bytes \<Rightarrow> cursor \<Rightarrow> step_result" where
  "parse_pmkids buf = (\<lambda>(pos, left, d).
    if left \<ge> 2 then do {
      n \<leftarrow> get_le16 buf pos;
      let pos = pos + 2;
      let left = left - 2;
      if unat n > left div 16 then Some (Inl (-9, d\<lparr>wd_num_pmkid := 0\<rparr>))
      else Some (Inr (pos + unat n * 16, left - unat n * 16, d\<lparr>wd_num_pmkid := unat n, wd_pmkid := Some pos\<rparr>))
    } else Some (Inr (pos, left, d)))"

definition parse_mgmt_group :: "bytes \<Rightarrow> cursor \<Rightarrow> step_result" where
  "parse_mgmt_group buf = (\<lambda>(pos, left, d).
    if left \<ge> 4 then do {
      s \<leftarrow> get_sel buf pos;
      let d = d\<lparr>wd_mgmt_group_cipher := rsn_selector_to_bitfield s\<rparr>;
      if \<not> wpa_cipher_valid_mgmt_group (wd_mgmt_group_cipher d) then Some (Inl (-10, d))
      else Some (Inr (pos + 4, left - 4, d))
    } else Some (Inr (pos, left, d)))"

definition rsn_defaults :: wpa_ie_data where
  "rsn_defaults = \<lparr>wd_proto = WPA_PROTO_RSN, wd_pairwise_cipher = WPA_CIPHER_CCMP, wd_group_cipher = WPA_CIPHER_CCMP,
     wd_key_mgmt = WPA_KEY_MGMT_IEEE8021X, wd_capabilities = 0, wd_num_pmkid = 0, wd_pmkid = None,
     wd_mgmt_group_cipher = WPA_CIPHER_AES_128_CMAC\<rparr>"

definition is_osen :: "bytes \<Rightarrow> nat \<Rightarrow> bool option" where
  "is_osen ie len =
    (if len \<ge> 6 then do {
       l \<leftarrow> rd ie 1;
       if l \<ge> 4 \<and> unat l = len - 2 then do { t \<leftarrow> get_sel ie 2; Some (t = OSEN_IE_VENDOR_TYPE) } else Some False
     } else Some False)"

definition rsn_header :: "bytes \<Rightarrow> nat \<Rightarrow> step_result" where
  "rsn_header ie len =
    do { osen \<leftarrow> is_osen ie len;
         if osen then Some (Inr (6, len - 6, rsn_defaults\<lparr>wd_proto := WPA_PROTO_OSEN\<rparr>))
         else do {
           id \<leftarrow> rd ie 0;
           l \<leftarrow> rd ie 1;
           v \<leftarrow> get_le16 ie 2;
           if id \<noteq> WLAN_EID_RSN \<or> unat l \<noteq> len - 2 \<or> v \<noteq> 1 then Some (Inl (-2, rsn_defaults))
           else Some (Inr (4, len - 4, rsn_defaults)) } }"

primrec finish :: "(int \<times> wpa_ie_data) + cursor \<Rightarrow> int \<times> wpa_ie_data" where
  "finish (Inl r) = r"
| "finish (Inr c) = (0, snd (snd c))"

definition wpa_parse_wpa_ie_rsn :: "bytes \<Rightarrow> nat \<Rightarrow> (int \<times> wpa_ie_data) option" where
  "wpa_parse_wpa_ie_rsn ie len =
    (if len = 0 then Some (-1, rsn_defaults)
     else if len < 4 then Some (-1, rsn_defaults)
     else map_option finish
       (andthen (andthen (andthen (andthen (andthen (andthen (andthen (rsn_header ie len)
         (parse_rsn_group ie))
         (parse_suites rsn_selector_to_bitfield (-4) (-5) (\<lambda>c d. d\<lparr>wd_pairwise_cipher := c\<rparr>) ie))
         reject_cmac)
         (parse_suites rsn_key_mgmt_to_bitfield (-6) (-7) (\<lambda>c d. d\<lparr>wd_key_mgmt := c\<rparr>) ie))
         (parse_capabilities ie))
         (parse_pmkids ie))
         (parse_mgmt_group ie)))"

definition wpa_defaults :: wpa_ie_data where
  "wpa_defaults = \<lparr>wd_proto = WPA_PROTO_WPA, wd_pairwise_cipher = WPA_CIPHER_TKIP, wd_group_cipher = WPA_CIPHER_TKIP,
     wd_key_mgmt = WPA_KEY_MGMT_IEEE8021X, wd_capabilities = 0, wd_num_pmkid = 0, wd_pmkid = None,
     wd_mgmt_group_cipher = 0\<rparr>"

definition wpa_header :: "bytes \<Rightarrow> nat \<Rightarrow> step_result" where
  "wpa_header ie len =
    do { id \<leftarrow> rd ie 0;
         l \<leftarrow> rd ie 1;
         t \<leftarrow> get_sel ie 2;
         v \<leftarrow> get_le16 ie 6;
         if id \<noteq> WLAN_EID_VENDOR_SPECIFIC \<or> unat l \<noteq> len - 2 \<or> t \<noteq> WPA_OUI_TYPE \<or> v \<noteq> 1 then Some (Inl (-2, wpa_defaults))
         else Some (Inr (8, len - 8, wpa_defaults)) }"

definition parse_wpa_group :: "bytes \<Rightarrow> cursor \<Rightarrow> step_result" where
  "parse_wpa_group buf = (\<lambda>(pos, left, d).
    if left \<ge> 4 then do {
      s \<leftarrow> get_sel buf pos;
      Some (Inr (pos + 4, left - 4, d\<lparr>wd_group_cipher := wpa_selector_to_bitfield s\<rparr>))
    } else if left > 0 then Some (Inl (-3, d))
    else Some (Inr (pos, left, d)))"

definition wpa_parse_wpa_ie_wpa :: "bytes \<Rightarrow> nat \<Rightarrow> (int \<times> wpa_ie_data) option" where
  "wpa_parse_wpa_ie_wpa ie len =
    (if len < 8 then Some (-1, wpa_defaults)
     else map_option finish
       (andthen (andthen (andthen (andthen (wpa_header ie len)
         (parse_wpa_group ie))
         (parse_suites wpa_selector_to_bitfield (-4) (-5) (\<lambda>c d. d\<lparr>wd_pairwise_cipher := c\<rparr>) ie))
         (parse_suites wpa_key_mgmt_to_bitfield (-6) (-7) (\<lambda>c d. d\<lparr>wd_key_mgmt := c\<rparr>) ie))
         (parse_capabilities ie)))"

subsection \<open>The writers\<close>

datatype mfp_options = NO_MGMT_FRAME_PROTECTION | MGMT_FRAME_PROTECTION_OPTIONAL | MGMT_FRAME_PROTECTION_REQUIRED

record wpa_auth_config =
  ac_wpa :: u32
  ac_wpa_key_mgmt :: u32
  ac_wpa_pairwise :: u32
  ac_wpa_group :: u32
  ac_wpa_group_rekey :: u32
  ac_wpa_strict_rekey :: bool
  ac_wpa_gmk_rekey :: u32
  ac_wpa_ptk_rekey :: u32
  ac_rsn_pairwise :: u32
  ac_rsn_preauth :: bool
  ac_eapol_version :: u8
  ac_peerkey :: bool
  ac_wmm_enabled :: bool
  ac_okc :: bool
  ac_tx_status :: bool
  ac_ieee80211w :: mfp_options
  ac_group_mgmt_cipher :: u32
  ac_disable_gtk :: bool

text \<open>
  A writer fills the buffer from its start: \<open>out\<close> is what it has written, \<open>room\<close> the room in the buffer. Writing beyond it is
  \<open>UB\<close>, \<open>Ret None\<close> is the result \<open>-1\<close>. The counts and the length, which the code fills in later, are written with their final
  value.
\<close>

definition emit :: "nat \<Rightarrow> bytes \<Rightarrow> bytes \<Rightarrow> bytes outcome" where
  "emit room out bs = (if length out + length bs \<le> room then Ret (out @ bs) else UB)"

definition put_list :: "u32 list \<Rightarrow> bytes" where
  "put_list ss = WPA_PUT_LE16 (of_nat (length ss)) @ concat (map WPA_PUT_BE32 ss)"

definition set_len :: "bytes \<Rightarrow> bytes" where
  "set_len out = out[1 := of_nat (length out - 2)]"

definition rsn_capab :: "wpa_auth_config \<Rightarrow> u16" where
  "rsn_capab conf =
    (if ac_rsn_preauth conf then 0x1 else 0) OR (if ac_peerkey conf then 0x200 else 0)
    OR (if ac_wmm_enabled conf then 0xc else 0)
    OR (case ac_ieee80211w conf of NO_MGMT_FRAME_PROTECTION \<Rightarrow> 0 | MGMT_FRAME_PROTECTION_OPTIONAL \<Rightarrow> 0x80
        | MGMT_FRAME_PROTECTION_REQUIRED \<Rightarrow> 0xc0)"

definition mgmt_group_suite :: "u32 \<Rightarrow> u32 option" where
  "mgmt_group_suite c =
    (if c = WPA_CIPHER_AES_128_CMAC then Some 0x000fac06
     else if c = WPA_CIPHER_BIP_GMAC_128 then Some 0x000fac0b
     else if c = WPA_CIPHER_BIP_GMAC_256 then Some 0x000fac0c
     else if c = WPA_CIPHER_BIP_CMAC_256 then Some 0x000fac0d
     else None)"

definition write_mgmt_group :: "wpa_auth_config \<Rightarrow> nat \<Rightarrow> bool \<Rightarrow> bytes \<Rightarrow> bytes option outcome" where
  "write_mgmt_group conf room has_pmkid out =
    (if ac_ieee80211w conf \<noteq> NO_MGMT_FRAME_PROTECTION \<and> ac_group_mgmt_cipher conf \<noteq> WPA_CIPHER_AES_128_CMAC
     then if length out + 2 + 4 > room then Ret None
          else bind_outcome (if has_pmkid then Ret out else emit room out (WPA_PUT_LE16 0)) (\<lambda>out.
            case mgmt_group_suite (ac_group_mgmt_cipher conf) of
              None \<Rightarrow> Ret None
            | Some s \<Rightarrow> bind_outcome (emit room out (WPA_PUT_BE32 s)) (\<lambda>out. Ret (Some out)))
     else Ret (Some out))"

definition write_pmkid :: "nat \<Rightarrow> bytes option \<Rightarrow> bytes \<Rightarrow> bytes option outcome" where
  "write_pmkid room pmkid out =
    (case pmkid of
       None \<Rightarrow> Ret (Some out)
     | Some p \<Rightarrow> if length out + 2 + 16 > room then Ret None
                 else bind_outcome (emit room out (WPA_PUT_LE16 1 @ p)) (\<lambda>out. Ret (Some out)))"

definition wpa_write_rsn_ie :: "wpa_auth_config \<Rightarrow> nat \<Rightarrow> bytes option \<Rightarrow> bytes option outcome" where
  "wpa_write_rsn_ie conf room pmkid =
    bind_outcome (emit room [] ([WLAN_EID_RSN, 0] @ WPA_PUT_LE16 1)) (\<lambda>out.
    let suite = wpa_cipher_to_suite WPA_PROTO_RSN (ac_wpa_group conf)
    in if suite = 0 then Ret None
    else bind_outcome (emit room out (WPA_PUT_BE32 suite)) (\<lambda>out.
    let pairwise = rsn_cipher_put_suites (ac_rsn_pairwise conf)
    in if pairwise = [] then Ret None
    else bind_outcome (emit room out (put_list pairwise)) (\<lambda>out.
    let key_mgmt = rsn_key_mgmt_put (ac_wpa_key_mgmt conf)
    in if key_mgmt = [] then Ret None
    else bind_outcome (emit room out (put_list key_mgmt)) (\<lambda>out.
    bind_outcome (emit room out (WPA_PUT_LE16 (rsn_capab conf))) (\<lambda>out.
    bind_outcome (write_pmkid room pmkid out) (\<lambda>r. case r of
        None \<Rightarrow> Ret None
      | Some out \<Rightarrow> bind_outcome (write_mgmt_group conf room (pmkid \<noteq> None) out) (\<lambda>r.
          Ret (map_option set_len r))))))))"

definition wpa_write_wpa_ie :: "wpa_auth_config \<Rightarrow> nat \<Rightarrow> bytes option outcome" where
  "wpa_write_wpa_ie conf room =
    bind_outcome (emit room [] ([WLAN_EID_VENDOR_SPECIFIC, 0] @ WPA_PUT_BE32 WPA_OUI_TYPE @ WPA_PUT_LE16 1)) (\<lambda>out.
    let suite = wpa_cipher_to_suite WPA_PROTO_WPA (ac_wpa_group conf)
    in if suite = 0 then Ret None
    else bind_outcome (emit room out (WPA_PUT_BE32 suite)) (\<lambda>out.
    let pairwise = wpa_cipher_put_suites (ac_wpa_pairwise conf)
    in if pairwise = [] then Ret None
    else bind_outcome (emit room out (put_list pairwise)) (\<lambda>out.
    let key_mgmt = wpa_key_mgmt_put (ac_wpa_key_mgmt conf)
    in if key_mgmt = [] then Ret None
    else bind_outcome (emit room out (put_list key_mgmt)) (\<lambda>out.
    Ret (Some (set_len out))))))"

definition wpa_write_osen :: "wpa_auth_config \<Rightarrow> nat \<Rightarrow> bytes outcome" where
  "wpa_write_osen conf room =
    (let capab = (if ac_wmm_enabled conf then 0xc else 0)
         OR (case ac_ieee80211w conf of NO_MGMT_FRAME_PROTECTION \<Rightarrow> 0 | MGMT_FRAME_PROTECTION_OPTIONAL \<Rightarrow> 0x80
             | MGMT_FRAME_PROTECTION_REQUIRED \<Rightarrow> 0xc0)
     in bind_outcome (emit room [] ([WLAN_EID_VENDOR_SPECIFIC, 0] @ WPA_PUT_BE24 0x506f9a @ [18] @ WPA_PUT_BE32 0x000fac07
          @ put_list [0x000fac04] @ put_list [0x506f9a01] @ WPA_PUT_LE16 capab)) (\<lambda>out. Ret (set_len out)))"

text \<open>\<open>wpa_auth_gen_wpa_ie\<close> puts the elements one after the other into a local buffer of 128 bytes.\<close>

definition gen_buf :: nat where
  "gen_buf = 128"

definition append_ie :: "(nat \<Rightarrow> bytes option outcome) \<Rightarrow> bytes \<Rightarrow> bytes option outcome" where
  "append_ie w out = bind_outcome (w (gen_buf - length out)) (\<lambda>r. Ret (map_option (\<lambda>ie. out @ ie) r))"

definition wpa_auth_gen_wpa_ie :: "bool \<Rightarrow> wpa_auth_config \<Rightarrow> bytes option outcome" where
  "wpa_auth_gen_wpa_ie malloc_ok conf =
    bind_outcome (if ac_wpa conf = WPA_PROTO_OSEN then wpa_write_osen conf gen_buf else Ret []) (\<lambda>out.
    bind_outcome (if ac_wpa conf AND WPA_PROTO_RSN \<noteq> 0 then append_ie (\<lambda>room. wpa_write_rsn_ie conf room None) out
                  else Ret (Some out)) (\<lambda>r. case r of
        None \<Rightarrow> Ret None
      | Some out \<Rightarrow>
          bind_outcome (if ac_wpa conf AND WPA_PROTO_WPA \<noteq> 0 then append_ie (wpa_write_wpa_ie conf) out
                        else Ret (Some out)) (\<lambda>r. case r of
              None \<Rightarrow> Ret None
            | Some out \<Rightarrow> if malloc_ok then Ret (Some out) else Ret None)))"

subsection \<open>The parsers are memory safe\<close>

definition ids_ok :: "nat \<Rightarrow> wpa_ie_data \<Rightarrow> bool" where
  "ids_ok n d = (case wd_pmkid d of None \<Rightarrow> wd_num_pmkid d = 0 | Some p \<Rightarrow> p + 16 * wd_num_pmkid d \<le> n)"

lemma ids_ok_update [simp]:
  "ids_ok n (d\<lparr>wd_group_cipher := c\<rparr>) = ids_ok n d" "ids_ok n (d\<lparr>wd_pairwise_cipher := c\<rparr>) = ids_ok n d"
  "ids_ok n (d\<lparr>wd_key_mgmt := c\<rparr>) = ids_ok n d" "ids_ok n (d\<lparr>wd_mgmt_group_cipher := c\<rparr>) = ids_ok n d"
  "ids_ok n (d\<lparr>wd_capabilities := w\<rparr>) = ids_ok n d" "ids_ok n (d\<lparr>wd_proto := c\<rparr>) = ids_ok n d"
  by (simp_all add: ids_ok_def split: option.split)

lemma ids_ok_reset [simp]: "ids_ok n d \<Longrightarrow> ids_ok n (d\<lparr>wd_num_pmkid := 0\<rparr>)"
  by (auto simp: ids_ok_def split: option.splits)

definition ciphers_ok :: "wpa_ie_data \<Rightarrow> bool" where
  "ciphers_ok d = (wpa_cipher_valid_group (wd_group_cipher d) \<and> wpa_cipher_valid_mgmt_group (wd_mgmt_group_cipher d)
     \<and> wd_pairwise_cipher d AND WPA_CIPHER_AES_128_CMAC = 0)"

text \<open>A step is good when it stays inside the element and either fails with a negative code or goes on with the property \<open>P\<close>.\<close>

definition good_step :: "(wpa_ie_data \<Rightarrow> bool) \<Rightarrow> nat \<Rightarrow> step_result \<Rightarrow> bool" where
  "good_step P n r = (case r of None \<Rightarrow> False
    | Some (Inl (ret, d)) \<Rightarrow> ret < 0 \<and> ids_ok n d
    | Some (Inr (pos, left, d)) \<Rightarrow> pos + left = n \<and> ids_ok n d \<and> P d)"

lemma good_andthen:
  assumes "good_step P n m" and "\<And>pos left d. pos + left = n \<Longrightarrow> ids_ok n d \<Longrightarrow> P d \<Longrightarrow> good_step Q n (f (pos, left, d))"
  shows "good_step Q n (andthen m f)"
proof (cases m)
  case (Some r)
  show ?thesis
  proof (cases r)
    case (Inr c)
    obtain pos left d where c: "c = (pos, left, d)" by (cases c)
    then have "good_step Q n (f (pos, left, d))" using assms(1) Some Inr by (intro assms(2)) (simp_all add: good_step_def)
    then show ?thesis using Some Inr c by (simp add: andthen_def)
  qed (use assms(1) Some in \<open>auto simp: good_step_def andthen_def\<close>)
qed (use assms(1) in \<open>simp add: good_step_def\<close>)

lemma get_le16_inside: "pos + 2 \<le> length buf \<Longrightarrow> \<exists>v. get_le16 buf pos = Some v"
  by (simp add: get_le16_def c_mem)

lemma get_sel_inside: "pos + 4 \<le> length buf \<Longrightarrow> \<exists>v. get_sel buf pos = Some v"
  by (simp add: get_sel_def c_mem)

lemma or_suites_inside: "pos + 4 * n \<le> length buf \<Longrightarrow> \<exists>c. or_suites f buf pos n acc = Some c"
proof (induction n arbitrary: pos acc)
  case (Suc n)
  obtain s where "get_sel buf pos = Some s" using get_sel_inside[of pos buf] Suc.prems by auto
  then show ?case using Suc.IH[of "pos + 4" "acc OR f s"] Suc.prems by simp
qed simp

lemma good_suites:
  assumes "pos + left = length buf" and "ids_ok (length buf) d" and "P d"
    and "\<And>c d. ids_ok n (upd c d) = ids_ok n d" and "\<And>c c' d. P d \<Longrightarrow> P' (upd c (upd c' d))" and "P d \<Longrightarrow> P' d"
    and "botch < 0" and "short < 0" and "n = length buf"
  shows "good_step P' n (parse_suites f botch short upd buf (pos, left, d))"
proof (cases "left \<ge> 2")
  case True
  obtain v where v: "get_le16 buf pos = Some v" using get_le16_inside[of pos buf] True assms(1) by auto
  show ?thesis
  proof (cases "unat v = 0 \<or> unat v > (left - 2) div 4")
    case False
    then have "4 * unat v \<le> left - 2" by auto
    then have le: "pos + 2 + 4 * unat v \<le> length buf" using assms(1) True by linarith
    obtain c where "or_suites f buf (Suc (Suc pos)) (unat v) 0 = Some c" using or_suites_inside[OF le, of f 0] by auto
    then show ?thesis using True v False le assms \<open>4 * unat v \<le> left - 2\<close>
      by (auto simp: parse_suites_def good_step_def Let_def)
  qed (use True v assms in \<open>simp add: parse_suites_def good_step_def Let_def\<close>)
qed (use assms in \<open>auto simp: parse_suites_def good_step_def\<close>)

lemma good_group:
  assumes "pos + left = length buf" and "ids_ok (length buf) d" and "ciphers_ok d"
  shows "good_step ciphers_ok (length buf) (parse_rsn_group buf (pos, left, d))"
proof (cases "left \<ge> 4")
  case True
  obtain s where "get_sel buf pos = Some s" using get_sel_inside[of pos buf] True assms(1) by auto
  then show ?thesis using assms True by (auto simp: parse_rsn_group_def good_step_def Let_def ciphers_ok_def)
qed (use assms in \<open>auto simp: parse_rsn_group_def good_step_def\<close>)

lemma good_wpa_group:
  assumes "pos + left = length buf" and "ids_ok (length buf) d"
  shows "good_step (\<lambda>_. True) (length buf) (parse_wpa_group buf (pos, left, d))"
proof (cases "left \<ge> 4")
  case True
  obtain s where "get_sel buf pos = Some s" using get_sel_inside[of pos buf] True assms(1) by auto
  then show ?thesis using assms True by (auto simp: parse_wpa_group_def good_step_def Let_def)
qed (use assms in \<open>auto simp: parse_wpa_group_def good_step_def\<close>)

lemma good_capabilities:
  assumes "pos + left = length buf" and "ids_ok (length buf) d" and "P d" and "\<And>c. P (d\<lparr>wd_capabilities := c\<rparr>) = P d"
  shows "good_step P (length buf) (parse_capabilities buf (pos, left, d))"
proof (cases "left \<ge> 2")
  case True
  obtain v where "get_le16 buf pos = Some v" using get_le16_inside[of pos buf] True assms(1) by auto
  then show ?thesis using assms True by (auto simp: parse_capabilities_def good_step_def)
qed (use assms in \<open>auto simp: parse_capabilities_def good_step_def\<close>)

lemma good_pmkids:
  assumes "pos + left = length buf" and "ids_ok (length buf) d" and "ciphers_ok d"
  shows "good_step ciphers_ok (length buf) (parse_pmkids buf (pos, left, d))"
proof (cases "left \<ge> 2")
  case True
  obtain v where v: "get_le16 buf pos = Some v" using get_le16_inside[of pos buf] True assms(1) by auto
  show ?thesis
  proof (cases "unat v > (left - 2) div 16")
    case False
    then have "16 * unat v \<le> left - 2" by auto
    then show ?thesis using assms True v False by (auto simp: parse_pmkids_def good_step_def Let_def ids_ok_def ciphers_ok_def)
  qed (use assms True v in \<open>auto simp: parse_pmkids_def good_step_def Let_def\<close>)
qed (use assms in \<open>auto simp: parse_pmkids_def good_step_def\<close>)

lemma good_mgmt_group:
  assumes "pos + left = length buf" and "ids_ok (length buf) d" and "ciphers_ok d"
  shows "good_step ciphers_ok (length buf) (parse_mgmt_group buf (pos, left, d))"
proof (cases "left \<ge> 4")
  case True
  obtain s where "get_sel buf pos = Some s" using get_sel_inside[of pos buf] True assms(1) by auto
  then show ?thesis using assms True by (auto simp: parse_mgmt_group_def good_step_def Let_def ciphers_ok_def)
qed (use assms in \<open>auto simp: parse_mgmt_group_def good_step_def\<close>)

lemma defaults_ok: "ids_ok n rsn_defaults" "ids_ok n wpa_defaults" "ids_ok n (rsn_defaults\<lparr>wd_proto := p\<rparr>)"
    "ciphers_ok rsn_defaults" "ciphers_ok (rsn_defaults\<lparr>wd_proto := p\<rparr>)"
  by (simp_all add: ids_ok_def rsn_defaults_def wpa_defaults_def ciphers_ok_def wpa_cipher_valid_group_def
      wpa_cipher_valid_pairwise_def wpa_cipher_valid_mgmt_group_def)

lemma good_rsn_header:
  assumes "4 \<le> length ie"
  shows "good_step ciphers_ok (length ie) (rsn_header ie (length ie))"
proof -
  obtain b where b: "is_osen ie (length ie) = Some b" "b \<longrightarrow> 6 \<le> length ie"
  proof (cases "6 \<le> length ie")
    case True
    then have "rd ie 1 = Some (ie ! 1)" by (simp add: c_mem)
    moreover obtain s where "get_sel ie 2 = Some s" using get_sel_inside[of 2 ie] True by auto
    ultimately show thesis using that True by (cases "ie ! 1 \<ge> 4 \<and> unat (ie ! 1) = length ie - 2") (auto simp: is_osen_def)
  qed (use that in \<open>simp add: is_osen_def\<close>)
  have "rd ie 0 = Some (ie ! 0)" "rd ie 1 = Some (ie ! 1)" using assms by (auto simp: rd_def)
  moreover obtain v where "get_le16 ie 2 = Some v" using get_le16_inside[of 2 ie] assms by auto
  ultimately show ?thesis using b assms by (auto simp: rsn_header_def good_step_def defaults_ok)
qed

lemma good_wpa_header:
  assumes "8 \<le> length ie"
  shows "good_step (\<lambda>_. True) (length ie) (wpa_header ie (length ie))"
proof -
  have "rd ie 0 = Some (ie ! 0)" "rd ie 1 = Some (ie ! 1)" using assms by (auto simp: rd_def)
  moreover obtain v where "get_le16 ie 6 = Some v" using get_le16_inside[of 6 ie] assms by auto
  moreover obtain s where "get_sel ie 2 = Some s" using get_sel_inside[of 2 ie] assms by auto
  ultimately show ?thesis using assms by (auto simp: wpa_header_def good_step_def defaults_ok)
qed

lemma good_cmac:
  assumes "pos + left = n" and "ids_ok n d" and "wpa_cipher_valid_group (wd_group_cipher d)" and "wpa_cipher_valid_mgmt_group (wd_mgmt_group_cipher d)"
  shows "good_step ciphers_ok n (reject_cmac (pos, left, d))"
  using assms by (auto simp: reject_cmac_def good_step_def ciphers_ok_def)

lemma good_finish:
  assumes "good_step P n m"
  shows "\<exists>ret d. map_option finish m = Some (ret, d) \<and> ids_ok n d \<and> ret \<le> 0 \<and> (ret = 0 \<longrightarrow> P d)"
  using assms by (auto simp: good_step_def split: option.splits sum.splits prod.splits)

lemma wpa_parse_rsn_good:
  "\<exists>ret d. wpa_parse_wpa_ie_rsn ie (length ie) = Some (ret, d) \<and> ids_ok (length ie) d \<and> ret \<le> 0 \<and> (ret = 0 \<longrightarrow> ciphers_ok d)"
proof (cases "length ie < 4")
  case True
  then show ?thesis by (auto simp: wpa_parse_wpa_ie_rsn_def defaults_ok)
next
  case False
  let ?valid = "\<lambda>d. wpa_cipher_valid_group (wd_group_cipher d) \<and> wpa_cipher_valid_mgmt_group (wd_mgmt_group_cipher d)"
  have s1: "good_step ciphers_ok (length ie) (andthen (rsn_header ie (length ie)) (parse_rsn_group ie))" (is "good_step _ _ ?m1")
    using False by (intro good_andthen[OF good_rsn_header] good_group) simp_all
  have s2: "good_step ?valid (length ie) (andthen ?m1 (parse_suites rsn_selector_to_bitfield (-4) (-5) (\<lambda>c d. d\<lparr>wd_pairwise_cipher := c\<rparr>) ie))" (is "good_step _ _ ?m2")
    by (intro good_andthen[OF s1] good_suites[where P = ciphers_ok]) (simp_all add: ciphers_ok_def)
  have s3: "good_step ciphers_ok (length ie) (andthen ?m2 reject_cmac)" (is "good_step _ _ ?m3")
    by (intro good_andthen[OF s2] good_cmac) simp_all
  have s4: "good_step ciphers_ok (length ie) (andthen ?m3 (parse_suites rsn_key_mgmt_to_bitfield (-6) (-7) (\<lambda>c d. d\<lparr>wd_key_mgmt := c\<rparr>) ie))" (is "good_step _ _ ?m4")
    by (intro good_andthen[OF s3] good_suites[where P = ciphers_ok]) (simp_all add: ciphers_ok_def)
  have s5: "good_step ciphers_ok (length ie) (andthen ?m4 (parse_capabilities ie))" (is "good_step _ _ ?m5")
    by (intro good_andthen[OF s4] good_capabilities) (simp_all add: ciphers_ok_def)
  have s6: "good_step ciphers_ok (length ie) (andthen ?m5 (parse_pmkids ie))" (is "good_step _ _ ?m6")
    by (intro good_andthen[OF s5] good_pmkids) simp_all
  have s7: "good_step ciphers_ok (length ie) (andthen ?m6 (parse_mgmt_group ie))"
    by (intro good_andthen[OF s6] good_mgmt_group) simp_all
  from good_finish[OF s7] False show ?thesis by (auto simp: wpa_parse_wpa_ie_rsn_def simp del: map_option_eq_Some)
qed

lemma wpa_parse_wpa_good:
  "\<exists>ret d. wpa_parse_wpa_ie_wpa ie (length ie) = Some (ret, d) \<and> ids_ok (length ie) d \<and> ret \<le> 0"
proof (cases "length ie < 8")
  case True
  then show ?thesis by (auto simp: wpa_parse_wpa_ie_wpa_def defaults_ok)
next
  case False
  let ?T = "\<lambda>_ :: wpa_ie_data. True"
  have s1: "good_step ?T (length ie) (andthen (wpa_header ie (length ie)) (parse_wpa_group ie))" (is "good_step _ _ ?m1")
    using False by (intro good_andthen[OF good_wpa_header] good_wpa_group) simp_all
  have s2: "good_step ?T (length ie) (andthen ?m1 (parse_suites wpa_selector_to_bitfield (-4) (-5) (\<lambda>c d. d\<lparr>wd_pairwise_cipher := c\<rparr>) ie))" (is "good_step _ _ ?m2")
    by (intro good_andthen[OF s1] good_suites[where P = ?T]) simp_all
  have s3: "good_step ?T (length ie) (andthen ?m2 (parse_suites wpa_key_mgmt_to_bitfield (-6) (-7) (\<lambda>c d. d\<lparr>wd_key_mgmt := c\<rparr>) ie))" (is "good_step _ _ ?m3")
    by (intro good_andthen[OF s2] good_suites[where P = ?T]) simp_all
  have s4: "good_step ?T (length ie) (andthen ?m3 (parse_capabilities ie))"
    by (intro good_andthen[OF s3] good_capabilities) simp_all
  from good_finish[OF s4] False show ?thesis by (auto simp: wpa_parse_wpa_ie_wpa_def simp del: map_option_eq_Some)
qed

lemma wpa_parser_unknown_group:
  "map_option (\<lambda>(ret, d). (ret, wd_group_cipher d)) (wpa_parse_wpa_ie_wpa [221, 10, 0, 0x50, 0xf2, 1, 1, 0, 0, 0x50, 0xf2, 99] 12) = Some (0, 0)"
  by code_simp

text \<open>
  C31. Both parsers are total and memory safe: for every byte string that a station sends they return without a read
  outside of it; a list of PMKIDs they report lies inside the element. When the RSN parser reports success, the group ciphers are
  valid ones and the integrity cipher is not offered for pairwise use. The parser of the WPA element does not check its group cipher: it reports success for an
  element with an unknown suite, with no cipher at all in its result.
\<close>

theorem wpa_parse_ies_safe:
  "(\<exists>ret d. wpa_parse_wpa_ie_rsn ie (length ie) = Some (ret, d) \<and> ret \<le> 0 \<and> ids_ok (length ie) d \<and> (ret \<noteq> 0 \<or> ciphers_ok d))
   \<and> (\<exists>ret d. wpa_parse_wpa_ie_wpa ie (length ie) = Some (ret, d) \<and> ret \<le> 0 \<and> ids_ok (length ie) d)
   \<and> (\<exists>elem d. wpa_parse_wpa_ie_wpa elem (length elem) = Some (0, d) \<and> wd_group_cipher d = 0)"
proof -
  obtain d where "wpa_parse_wpa_ie_wpa [221, 10, 0, 0x50, 0xf2, 1, 1, 0, 0, 0x50, 0xf2, 99] 12 = Some (0, d)" "wd_group_cipher d = 0"
    using wpa_parser_unknown_group by (auto simp del: map_option_eq_Some simp: map_option_case split: option.splits)
  then have "\<exists>elem d. wpa_parse_wpa_ie_wpa elem (length elem) = Some (0, d) \<and> wd_group_cipher d = 0"
    by (intro exI[of _ "[221, 10, 0, 0x50, 0xf2, 1, 1, 0, 0, 0x50, 0xf2, 99]"] exI[of _ d]) (simp add: numeral_eq_Suc)
  with wpa_parse_rsn_good[of ie] wpa_parse_wpa_good[of ie] show ?thesis by blast
qed

theorem wpa_parse_ies_safe_witness:
  "\<exists>d. wpa_parse_wpa_ie_rsn [48, 6, 1, 0, 0, 0x0f, 0xac, 4] 8 = Some (0, d) \<and> ciphers_ok d"
proof -
  have "map_option fst (wpa_parse_wpa_ie_rsn [48, 6, 1, 0, 0, 0x0f, 0xac, 4] 8) = Some 0" by code_simp
  then show ?thesis using wpa_parse_ies_safe[of "[48, 6, 1, 0, 0, 0x0f, 0xac, 4]"]
    by (auto simp: numeral_eq_Suc)
qed

subsection \<open>Writing and parsing\<close>

text \<open>Tables whose suites the parser maps back to their bits.\<close>

definition is_bit :: "u32 \<Rightarrow> bool" where
  "is_bit b = (\<exists>k. b = push_bit k 1)"

lemma or_put_suites:
  assumes "\<forall>(b, s) \<in> set table. f s = b \<and> is_bit b"
  shows "foldl (\<lambda>a s. a OR f s) acc (put_suites table c) = acc OR (c AND foldr (\<lambda>x a. fst x OR a) table 0)"
  using assms
proof (induction table arbitrary: acc)
  case (Cons x table)
  obtain b s where x: "x = (b, s)" by (cases x)
  then obtain k where k: "f s = b" "b = push_bit k 1" using Cons.prems by (auto simp: is_bit_def)
  have one: "c AND b = (if bit c k then b else 0)"
    unfolding k(2) by (rule bit_word_eqI) (auto simp: bit_simps)
  have dist: "acc OR (c AND (b OR r)) = (acc OR (c AND b)) OR (c AND r)" for r
    by (rule bit_word_eqI) (auto simp: bit_simps)
  have IH: "foldl (\<lambda>a s. a OR f s) acc' (put_suites table c) = acc' OR (c AND foldr (\<lambda>x a. fst x OR a) table 0)" for acc'
    using Cons by simp
  show ?case
  proof (cases "c AND b = 0")
    case True
    then show ?thesis using IH[of acc] by (simp add: x put_suites_def dist)
  next
    case False
    then have "c AND b = b" using one by (auto split: if_splits)
    then show ?thesis using IH[of "acc OR b"] False by (simp add: x k(1) put_suites_def dist)
  qed
qed (simp add: put_suites_def)

lemma put_suites_length: "length (put_suites table c) \<le> length table"
  by (simp add: put_suites_def)

lemma is_bit_values [simp]: "is_bit 0x1" "is_bit 0x2" "is_bit 0x8" "is_bit 0x10" "is_bit 0x40" "is_bit 0x80" "is_bit 0x100" "is_bit 0x200" "is_bit 0x10000" "is_bit 0x20000"
proof -
  have "is_bit (push_bit k 1)" for k by (auto simp: is_bit_def)
  from this[of 0] this[of 1] this[of 3] this[of 4] this[of 6] this[of 7] this[of 8] this[of 9] this[of 16] this[of 17]
  show "is_bit 0x1" "is_bit 0x2" "is_bit 0x8" "is_bit 0x10" "is_bit 0x40" "is_bit 0x80" "is_bit 0x100" "is_bit 0x200" "is_bit 0x10000" "is_bit 0x20000"
    by (simp_all add: push_bit_eq_mult)
qed

definition RSN_PAIRWISE_MASK :: u32 where "RSN_PAIRWISE_MASK = 0x359"

definition WPA_PAIRWISE_MASK :: u32 where "WPA_PAIRWISE_MASK = 0x19"

definition RSN_KEY_MGMT_MASK :: u32 where "RSN_KEY_MGMT_MASK = 0x30183"

definition WPA_KEY_MGMT_MASK :: u32 where "WPA_KEY_MGMT_MASK = 0x3"

lemma or_suites_tables:
  "foldl (\<lambda>a s. a OR rsn_selector_to_bitfield s) 0 (rsn_cipher_put_suites c) = c AND RSN_PAIRWISE_MASK"
  "foldl (\<lambda>a s. a OR wpa_selector_to_bitfield s) 0 (wpa_cipher_put_suites c) = c AND WPA_PAIRWISE_MASK"
  "foldl (\<lambda>a s. a OR rsn_key_mgmt_to_bitfield s) 0 (rsn_key_mgmt_put c) = c AND RSN_KEY_MGMT_MASK"
  "foldl (\<lambda>a s. a OR wpa_key_mgmt_to_bitfield s) 0 (wpa_key_mgmt_put c) = c AND WPA_KEY_MGMT_MASK"
proof -
  show "foldl (\<lambda>a s. a OR rsn_selector_to_bitfield s) 0 (rsn_cipher_put_suites c) = c AND RSN_PAIRWISE_MASK"
    unfolding rsn_cipher_put_suites_def
    by (subst or_put_suites) (simp_all add: rsn_selector_to_bitfield_def RSN_PAIRWISE_MASK_def)
  show "foldl (\<lambda>a s. a OR wpa_selector_to_bitfield s) 0 (wpa_cipher_put_suites c) = c AND WPA_PAIRWISE_MASK"
    unfolding wpa_cipher_put_suites_def
    by (subst or_put_suites) (simp_all add: wpa_selector_to_bitfield_def WPA_PAIRWISE_MASK_def)
  show "foldl (\<lambda>a s. a OR rsn_key_mgmt_to_bitfield s) 0 (rsn_key_mgmt_put c) = c AND RSN_KEY_MGMT_MASK"
    unfolding rsn_key_mgmt_put_def
    by (subst or_put_suites) (simp_all add: rsn_key_mgmt_to_bitfield_def RSN_KEY_MGMT_MASK_def)
  show "foldl (\<lambda>a s. a OR wpa_key_mgmt_to_bitfield s) 0 (wpa_key_mgmt_put c) = c AND WPA_KEY_MGMT_MASK"
    unfolding wpa_key_mgmt_put_def
    by (subst or_put_suites) (simp_all add: wpa_key_mgmt_to_bitfield_def WPA_KEY_MGMT_MASK_def)
qed

text \<open>Reading what was written at a position.\<close>

lemma put_lengths [simp]: "length (WPA_PUT_BE32 v) = 4" "length (WPA_PUT_LE16 w) = 2"
  by (simp_all add: WPA_PUT_BE32_def WPA_PUT_LE16_def)

lemma rd_range_at: "rd_range (pre @ xs @ post) (length pre) (length xs) = Some xs"
  by (simp add: rd_range_def)

lemma get_sel_put: "get_sel (pre @ WPA_PUT_BE32 s @ post) (length pre) = Some s"
  using rd_range_at[of pre "WPA_PUT_BE32 s" post] by (simp add: get_sel_def get_put_byte_order)

lemma get_le16_put: "get_le16 (pre @ WPA_PUT_LE16 v @ post) (length pre) = Some v"
  using rd_range_at[of pre "WPA_PUT_LE16 v" post] by (simp add: get_le16_def get_put_byte_order)

lemma or_suites_put:
  "or_suites f (pre @ concat (map WPA_PUT_BE32 ss) @ post) (length pre) (length ss) acc = Some (foldl (\<lambda>a s. a OR f s) acc ss)"
proof (induction ss arbitrary: pre acc)
  case (Cons s ss)
  have "get_sel (pre @ WPA_PUT_BE32 s @ concat (map WPA_PUT_BE32 ss) @ post) (length pre) = Some s" by (rule get_sel_put)
  moreover have "or_suites f ((pre @ WPA_PUT_BE32 s) @ concat (map WPA_PUT_BE32 ss) @ post) (length (pre @ WPA_PUT_BE32 s)) (length ss) (acc OR f s)
      = Some (foldl (\<lambda>a s. a OR f s) (acc OR f s) ss)" by (rule Cons.IH)
  ultimately show ?case by simp
qed simp

lemma put_list_length [simp]: "length (put_list ss) = 2 + 4 * length ss"
proof -
  have "length (concat (map WPA_PUT_BE32 ss)) = 4 * length ss" by (induction ss) simp_all
  then show ?thesis by (simp add: put_list_def)
qed

lemma parse_suites_put:
  assumes "ss \<noteq> []" and "length ss < 65536" and "left = length (put_list ss) + more_bytes"
    and "\<And>c c' d. upd c (upd c' d) = upd c d"
  shows "parse_suites f botch short upd (pre @ put_list ss @ post) (length pre, left, d)
    = Some (Inr (length pre + length (put_list ss), more_bytes, upd (foldl (\<lambda>a s. a OR f s) 0 ss) d))"
proof -
  have n: "unat (of_nat (length ss) :: u16) = length ss"
    using assms(2) by (simp add: unat_of_nat)
  have g: "get_le16 (pre @ put_list ss @ post) (length pre) = Some (of_nat (length ss))"
    using get_le16_put[of pre "of_nat (length ss)" "concat (map WPA_PUT_BE32 ss) @ post"] by (simp add: put_list_def)
  have o: "or_suites f (pre @ put_list ss @ post) (Suc (Suc (length pre))) (length ss) 0 = Some (foldl (\<lambda>a s. a OR f s) 0 ss)"
    using or_suites_put[of f "pre @ WPA_PUT_LE16 (of_nat (length ss))" ss post 0] by (simp add: put_list_def)
  show ?thesis using assms(1,3) n g o by (simp add: parse_suites_def Let_def assms(4))
qed

text \<open>One step on the bytes \<open>X\<close> that the writer puts at this place.\<close>

lemma step_suites:
  assumes "buf = pre @ put_list ss @ post" and "pos = length pre" and "left = length (put_list ss) + length post"
    and "ss \<noteq> []" and "length ss \<le> 6" and "\<And>c c' d. upd c (upd c' d) = upd c d"
  shows "parse_suites f botch short upd buf (pos, left, d)
    = Some (Inr (length (pre @ put_list ss), length post, upd (foldl (\<lambda>a s. a OR f s) 0 ss) d))"
  using parse_suites_put[of ss left "length post" upd f botch short pre post d] assms by simp

lemma step_rsn_group:
  assumes "buf = pre @ WPA_PUT_BE32 s @ post" and "pos = length pre" and "left = 4 + length post"
    and "wpa_cipher_valid_group (rsn_selector_to_bitfield s)"
  shows "parse_rsn_group buf (pos, left, d)
    = Some (Inr (length (pre @ WPA_PUT_BE32 s), length post, d\<lparr>wd_group_cipher := rsn_selector_to_bitfield s\<rparr>))"
  using assms get_sel_put[of pre s post] by (simp add: parse_rsn_group_def Let_def)

lemma step_wpa_group:
  assumes "buf = pre @ WPA_PUT_BE32 s @ post" and "pos = length pre" and "left = 4 + length post"
  shows "parse_wpa_group buf (pos, left, d)
    = Some (Inr (length (pre @ WPA_PUT_BE32 s), length post, d\<lparr>wd_group_cipher := wpa_selector_to_bitfield s\<rparr>))"
  using assms get_sel_put[of pre s post] by (simp add: parse_wpa_group_def Let_def)

lemma step_capabilities:
  assumes "buf = pre @ WPA_PUT_LE16 v @ post" and "pos = length pre" and "left = 2 + length post"
  shows "parse_capabilities buf (pos, left, d) = Some (Inr (length (pre @ WPA_PUT_LE16 v), length post, d\<lparr>wd_capabilities := v\<rparr>))"
  using assms get_le16_put[of pre v post] by (simp add: parse_capabilities_def)

definition pmkid_part :: "bytes option \<Rightarrow> bytes" where
  "pmkid_part pmkid = (case pmkid of None \<Rightarrow> [] | Some p \<Rightarrow> WPA_PUT_LE16 1 @ p)"

definition pmkid_len_ok :: "bytes option \<Rightarrow> bool" where
  "pmkid_len_ok pmkid = (case pmkid of None \<Rightarrow> True | Some p \<Rightarrow> length p = 16)"

definition writes_mgmt :: "wpa_auth_config \<Rightarrow> bool" where
  "writes_mgmt conf = (ac_ieee80211w conf \<noteq> NO_MGMT_FRAME_PROTECTION \<and> ac_group_mgmt_cipher conf \<noteq> WPA_CIPHER_AES_128_CMAC)"

definition mgmt_part :: "wpa_auth_config \<Rightarrow> bool \<Rightarrow> bytes" where
  "mgmt_part conf has_pmkid =
    (if writes_mgmt conf
     then (if has_pmkid then [] else WPA_PUT_LE16 0) @ WPA_PUT_BE32 (the (mgmt_group_suite (ac_group_mgmt_cipher conf)))
     else [])"

definition rsn_body :: "wpa_auth_config \<Rightarrow> bytes option \<Rightarrow> bytes" where
  "rsn_body conf pmkid = WPA_PUT_LE16 1 @ WPA_PUT_BE32 (wpa_cipher_to_suite WPA_PROTO_RSN (ac_wpa_group conf))
     @ put_list (rsn_cipher_put_suites (ac_rsn_pairwise conf)) @ put_list (rsn_key_mgmt_put (ac_wpa_key_mgmt conf))
     @ WPA_PUT_LE16 (rsn_capab conf) @ pmkid_part pmkid @ mgmt_part conf (pmkid \<noteq> None)"

definition rsn_writable :: "wpa_auth_config \<Rightarrow> bool" where
  "rsn_writable conf = (wpa_cipher_to_suite WPA_PROTO_RSN (ac_wpa_group conf) \<noteq> 0
     \<and> rsn_cipher_put_suites (ac_rsn_pairwise conf) \<noteq> [] \<and> rsn_key_mgmt_put (ac_wpa_key_mgmt conf) \<noteq> []
     \<and> (writes_mgmt conf \<longrightarrow> mgmt_group_suite (ac_group_mgmt_cipher conf) \<noteq> None))"

lemma suites_lengths:
  "length (rsn_cipher_put_suites c) \<le> 6" "length (rsn_key_mgmt_put c) \<le> 6"
  "length (wpa_cipher_put_suites c) \<le> 3" "length (wpa_key_mgmt_put c) \<le> 2"
  by (simp_all add: rsn_cipher_put_suites_def rsn_key_mgmt_put_def wpa_cipher_put_suites_def wpa_key_mgmt_put_def)
    (rule order_trans[OF put_suites_length], simp)+

lemma emit_fits: "length out + length bs \<le> room \<Longrightarrow> emit room out bs = Ret (out @ bs)"
  by (simp add: emit_def)

lemma parts_length:
  "pmkid_len_ok pmkid \<Longrightarrow> length (pmkid_part pmkid) \<le> 18" "length (mgmt_part conf b) \<le> 6"
  by (auto simp: pmkid_part_def mgmt_part_def pmkid_len_ok_def split: option.splits)

lemma rsn_body_length:
  assumes "pmkid_len_ok pmkid"
  shows "length (rsn_body conf pmkid) \<le> 84" and "pmkid = None \<Longrightarrow> length (rsn_body conf pmkid) \<le> 66"
  using suites_lengths(1)[of "ac_rsn_pairwise conf"] suites_lengths(2)[of "ac_wpa_key_mgmt conf"] parts_length(1)[OF assms]
    parts_length(2)[of conf "pmkid \<noteq> None"]
  by (simp_all add: rsn_body_def) (auto simp: pmkid_part_def)

lemma write_pmkid_fits:
  assumes "pmkid_len_ok pmkid" and "length out + 18 \<le> room"
  shows "write_pmkid room pmkid out = Ret (Some (out @ pmkid_part pmkid))"
  using assms by (auto simp: write_pmkid_def pmkid_part_def pmkid_len_ok_def emit_def split: option.splits)

lemma write_mgmt_fits:
  assumes "length out + 6 \<le> room"
  shows "write_mgmt_group conf room b out =
    (if writes_mgmt conf \<and> mgmt_group_suite (ac_group_mgmt_cipher conf) = None then Ret None else Ret (Some (out @ mgmt_part conf b)))"
  using assms by (auto simp: write_mgmt_group_def writes_mgmt_def mgmt_part_def emit_def split: option.splits)

lemma set_len_body: "set_len ([e, 0] @ body) = [e, of_nat (length body)] @ body"
  by (simp add: set_len_def)

lemma wpa_write_rsn_char:
  assumes "pmkid_len_ok pmkid" and "86 \<le> room"
  shows "wpa_write_rsn_ie conf room pmkid =
    (if rsn_writable conf then Ret (Some ([WLAN_EID_RSN, of_nat (length (rsn_body conf pmkid))] @ rsn_body conf pmkid)) else Ret None)"
proof -
  let ?s = "WPA_PUT_BE32 (wpa_cipher_to_suite WPA_PROTO_RSN (ac_wpa_group conf))" and ?pw = "rsn_cipher_put_suites (ac_rsn_pairwise conf)"
  let ?km = "rsn_key_mgmt_put (ac_wpa_key_mgmt conf)"
  define o1 o2 o3 o4 o5 where "o1 = [WLAN_EID_RSN, 0] @ WPA_PUT_LE16 1" and "o2 = o1 @ ?s" and "o3 = o2 @ put_list ?pw"
    and "o4 = o3 @ put_list ?km" and "o5 = o4 @ WPA_PUT_LE16 (rsn_capab conf)"
  note L = suites_lengths(1)[of "ac_rsn_pairwise conf"] suites_lengths(2)[of "ac_wpa_key_mgmt conf"]
  have l: "length o1 = 4" "length o2 = 8" "length o3 \<le> 34" "length o4 \<le> 60" "length o5 \<le> 62" "length (o5 @ pmkid_part pmkid) \<le> 80"
    using L parts_length(1)[OF assms(1)] by (simp_all add: o1_def o2_def o3_def o4_def o5_def)
  have e: "emit room [] ([WLAN_EID_RSN, 0] @ WPA_PUT_LE16 1) = Ret o1" "emit room o1 ?s = Ret o2"
    "emit room o2 (put_list ?pw) = Ret o3" "emit room o3 (put_list ?km) = Ret o4" "emit room o4 (WPA_PUT_LE16 (rsn_capab conf)) = Ret o5"
    using l assms(2) L by (simp_all add: emit_fits o1_def o2_def o3_def o4_def o5_def)
  have p: "write_pmkid room pmkid o5 = Ret (Some (o5 @ pmkid_part pmkid))"
    using l assms by (intro write_pmkid_fits) auto
  have m: "write_mgmt_group conf room (pmkid \<noteq> None) (o5 @ pmkid_part pmkid) =
      (if writes_mgmt conf \<and> mgmt_group_suite (ac_group_mgmt_cipher conf) = None then Ret None
       else Ret (Some (o5 @ pmkid_part pmkid @ mgmt_part conf (pmkid \<noteq> None))))"
    using l assms(2) by (subst write_mgmt_fits) auto
  have b: "o5 @ pmkid_part pmkid @ mgmt_part conf (pmkid \<noteq> None) = [WLAN_EID_RSN, 0] @ rsn_body conf pmkid"
    by (simp add: rsn_body_def o1_def o2_def o3_def o4_def o5_def)
  show ?thesis
    unfolding wpa_write_rsn_ie_def e p m b Let_def bind_outcome.simps
    by (auto simp: e m b rsn_writable_def set_len_body p simp del: append.simps not_None_eq)
qed

text \<open>The same for the WPA element.\<close>

definition wpa_body :: "wpa_auth_config \<Rightarrow> bytes" where
  "wpa_body conf = WPA_PUT_BE32 WPA_OUI_TYPE @ WPA_PUT_LE16 1 @ WPA_PUT_BE32 (wpa_cipher_to_suite WPA_PROTO_WPA (ac_wpa_group conf))
     @ put_list (wpa_cipher_put_suites (ac_wpa_pairwise conf)) @ put_list (wpa_key_mgmt_put (ac_wpa_key_mgmt conf))"

definition wpa_writable :: "wpa_auth_config \<Rightarrow> bool" where
  "wpa_writable conf = (wpa_cipher_to_suite WPA_PROTO_WPA (ac_wpa_group conf) \<noteq> 0
     \<and> wpa_cipher_put_suites (ac_wpa_pairwise conf) \<noteq> [] \<and> wpa_key_mgmt_put (ac_wpa_key_mgmt conf) \<noteq> [])"

lemma wpa_body_length: "length (wpa_body conf) \<le> 34"
  using suites_lengths(3)[of "ac_wpa_pairwise conf"] suites_lengths(4)[of "ac_wpa_key_mgmt conf"] by (simp add: wpa_body_def)

lemma wpa_write_wpa_char:
  assumes "36 \<le> room"
  shows "wpa_write_wpa_ie conf room =
    (if wpa_writable conf then Ret (Some ([WLAN_EID_VENDOR_SPECIFIC, of_nat (length (wpa_body conf))] @ wpa_body conf)) else Ret None)"
proof -
  let ?s = "WPA_PUT_BE32 (wpa_cipher_to_suite WPA_PROTO_WPA (ac_wpa_group conf))" and ?pw = "wpa_cipher_put_suites (ac_wpa_pairwise conf)"
  let ?km = "wpa_key_mgmt_put (ac_wpa_key_mgmt conf)"
  define o1 o2 o3 o4 where "o1 = [WLAN_EID_VENDOR_SPECIFIC, 0] @ WPA_PUT_BE32 WPA_OUI_TYPE @ WPA_PUT_LE16 1" and "o2 = o1 @ ?s"
    and "o3 = o2 @ put_list ?pw" and "o4 = o3 @ put_list ?km"
  note L = suites_lengths(3)[of "ac_wpa_pairwise conf"] suites_lengths(4)[of "ac_wpa_key_mgmt conf"]
  have l: "length o1 = 8" "length o2 = 12" "length o3 \<le> 26" "length o4 \<le> 36"
    using L by (simp_all add: o1_def o2_def o3_def o4_def)
  have e: "emit room [] ([WLAN_EID_VENDOR_SPECIFIC, 0] @ WPA_PUT_BE32 WPA_OUI_TYPE @ WPA_PUT_LE16 1) = Ret o1" "emit room o1 ?s = Ret o2"
    "emit room o2 (put_list ?pw) = Ret o3" "emit room o3 (put_list ?km) = Ret o4"
    using l assms L by (simp_all add: emit_fits o1_def o2_def o3_def o4_def)
  have b: "o4 = [WLAN_EID_VENDOR_SPECIFIC, 0] @ wpa_body conf"
    by (simp add: wpa_body_def o1_def o2_def o3_def o4_def)
  show ?thesis
    unfolding wpa_write_wpa_ie_def e Let_def bind_outcome.simps
    by (auto simp: e wpa_writable_def simp del: append.simps) (simp_all only: b set_len_body)
qed

text \<open>The buffer of 128 bytes is large enough for all elements together, for every configuration.\<close>

lemma wpa_auth_gen_wpa_ie_fits:
  "\<exists>r. wpa_auth_gen_wpa_ie malloc_ok conf = Ret r \<and> (\<forall>ie. r = Some ie \<longrightarrow> length ie \<le> gen_buf)"
proof -
  have osen: "\<exists>out. wpa_write_osen conf gen_buf = Ret out"
    by (auto simp: wpa_write_osen_def Let_def emit_def gen_buf_def put_list_def WPA_PUT_BE24_def)
  have bits: "WPA_PROTO_OSEN AND WPA_PROTO_RSN = 0" "WPA_PROTO_OSEN AND WPA_PROTO_WPA = 0" by simp_all
  have olen: "wpa_write_osen conf gen_buf = Ret out \<Longrightarrow> length out \<le> gen_buf" for out
    by (auto simp: wpa_write_osen_def Let_def emit_def set_len_def gen_buf_def split: if_splits)
  have none: "pmkid_len_ok None" by (simp add: pmkid_len_ok_def)
  have rsn: "wpa_write_rsn_ie conf gen_buf None =
      (if rsn_writable conf then Ret (Some ([WLAN_EID_RSN, of_nat (length (rsn_body conf None))] @ rsn_body conf None)) else Ret None)"
    by (rule wpa_write_rsn_char[OF none]) (simp add: gen_buf_def)
  have len: "length (rsn_body conf None) \<le> 66" using rsn_body_length(2)[OF none] by simp
  have wpa: "wpa_write_wpa_ie conf (gen_buf - n) =
      (if wpa_writable conf then Ret (Some ([WLAN_EID_VENDOR_SPECIFIC, of_nat (length (wpa_body conf))] @ wpa_body conf)) else Ret None)"
    if "n \<le> 68" for n
    by (rule wpa_write_wpa_char) (use that in \<open>simp add: gen_buf_def\<close>)
  show ?thesis
  proof (cases "ac_wpa conf = WPA_PROTO_OSEN")
    case True
    then show ?thesis using osen olen bits by (auto simp: wpa_auth_gen_wpa_ie_def)
  next
    case False
    then show ?thesis using len wpa_body_length[of conf] rsn wpa[of 0] wpa[of "2 + length (rsn_body conf None)"]
      by (auto simp: wpa_auth_gen_wpa_ie_def append_ie_def gen_buf_def split: if_splits)
  qed
qed

lemma step_pmkids:
  assumes "buf = pre @ WPA_PUT_LE16 n @ ids @ post" and "pos = length pre" and "left = 2 + length ids + length post"
    and "length ids = unat n * 16"
  shows "parse_pmkids buf (pos, left, d) = Some (Inr (length (pre @ WPA_PUT_LE16 n @ ids), length post,
    d\<lparr>wd_num_pmkid := unat n, wd_pmkid := Some (length pre + 2)\<rparr>))"
proof -
  have "get_le16 buf (length pre) = Some n" using get_le16_put[of pre n "ids @ post"] assms(1) by simp
  moreover have "\<not> (unat n * 16 + length post) div 16 < unat n" by simp
  ultimately show ?thesis using assms(2-4) by (simp add: parse_pmkids_def Let_def)
qed

lemma step_mgmt_group:
  assumes "buf = pre @ WPA_PUT_BE32 s" and "pos = length pre" and "left = 4"
    and "wpa_cipher_valid_mgmt_group (rsn_selector_to_bitfield s)"
  shows "parse_mgmt_group buf (pos, left, d) = Some (Inr (pos + 4, 0, d\<lparr>wd_mgmt_group_cipher := rsn_selector_to_bitfield s\<rparr>))"
  using assms get_sel_put[of pre s "[]"] by (simp add: parse_mgmt_group_def Let_def)

lemma mgmt_suite_back:
  assumes "wpa_cipher_valid_mgmt_group c"
  shows "\<exists>s. mgmt_group_suite c = Some s \<and> rsn_selector_to_bitfield s = c"
proof -
  have "map_option rsn_selector_to_bitfield (mgmt_group_suite c) = Some c"
    using assms unfolding wpa_cipher_valid_mgmt_group_def by (elim disjE; hypsubst) code_simp+
  then show ?thesis by auto
qed

lemma group_suite_back:
  assumes "wpa_cipher_valid_group c"
  shows "rsn_selector_to_bitfield (wpa_cipher_to_suite WPA_PROTO_RSN c) = c \<and> wpa_cipher_to_suite WPA_PROTO_RSN c \<noteq> 0"
  using assms unfolding wpa_cipher_valid_group_def wpa_cipher_valid_pairwise_def by (elim disjE; hypsubst) code_simp+

lemma next_step: "andthen (Some (Inr c)) f = f c"
  by (simp add: andthen_def)

lemma step_cmac:
  assumes "wd_pairwise_cipher d = c AND RSN_PAIRWISE_MASK"
  shows "reject_cmac (pos, left, d) = Some (Inr (pos, left, d))"
proof -
  have "(c AND RSN_PAIRWISE_MASK) AND WPA_CIPHER_AES_128_CMAC = 0" by (simp add: RSN_PAIRWISE_MASK_def and.assoc)
  then show ?thesis using assms by (simp add: reject_cmac_def)
qed

text \<open>The two optional parts at the end.\<close>

definition mgmt_cipher_sent :: "wpa_auth_config \<Rightarrow> u32" where
  "mgmt_cipher_sent conf =
    (if ac_ieee80211w conf = NO_MGMT_FRAME_PROTECTION then WPA_CIPHER_AES_128_CMAC else ac_group_mgmt_cipher conf)"

definition pmkid_recovered :: "bytes \<Rightarrow> bytes option \<Rightarrow> wpa_ie_data \<Rightarrow> bool" where
  "pmkid_recovered ie pmkid d =
    (case pmkid of
       None \<Rightarrow> wd_num_pmkid d = 0
     | Some p \<Rightarrow> wd_num_pmkid d = 1 \<and> (case wd_pmkid d of None \<Rightarrow> False | Some off \<Rightarrow> rd_range ie off 16 = Some p))"

lemma step_tail:
  assumes buf: "buf = pre @ pmkid_part pmkid @ mgmt_part conf (pmkid \<noteq> None)" and len: "pmkid_len_ok pmkid"
    and valid: "writes_mgmt conf \<longrightarrow> wpa_cipher_valid_mgmt_group (ac_group_mgmt_cipher conf)"
    and d: "wd_num_pmkid d = 0" "wd_mgmt_group_cipher d = WPA_CIPHER_AES_128_CMAC"
  obtains d' where "andthen (parse_pmkids buf (length pre, length (pmkid_part pmkid @ mgmt_part conf (pmkid \<noteq> None)), d)) (parse_mgmt_group buf)
      = Some (Inr (length buf, 0, d'))"
    and "pmkid_recovered buf pmkid d'" and "wd_mgmt_group_cipher d' = mgmt_cipher_sent conf"
    and "wd_group_cipher d' = wd_group_cipher d" "wd_pairwise_cipher d' = wd_pairwise_cipher d" "wd_key_mgmt d' = wd_key_mgmt d"
      "wd_capabilities d' = wd_capabilities d" "wd_proto d' = wd_proto d"
proof -
  define ids where "ids = (case pmkid of None \<Rightarrow> [] | Some p \<Rightarrow> p)"
  define n :: u16 where "n = (case pmkid of None \<Rightarrow> 0 | Some p \<Rightarrow> 1)"
  have ids: "length ids = unat n * 16" using len by (auto simp: ids_def n_def pmkid_len_ok_def split: option.splits)
  define e where "e = d\<lparr>wd_num_pmkid := unat n, wd_pmkid := Some (length pre + 2)\<rparr>"
  have rec: "pmkid_recovered (pre @ WPA_PUT_LE16 n @ ids @ post) pmkid (e\<lparr>wd_mgmt_group_cipher := c\<rparr>)" for post c
    using rd_range_at[of "pre @ WPA_PUT_LE16 n" ids post] len
    by (auto simp: pmkid_recovered_def e_def n_def ids_def pmkid_len_ok_def split: option.splits)
  show thesis
  proof (cases "writes_mgmt conf")
    case True
    then obtain s where s: "mgmt_group_suite (ac_group_mgmt_cipher conf) = Some s" "rsn_selector_to_bitfield s = ac_group_mgmt_cipher conf"
      using valid mgmt_suite_back by blast
    have b: "buf = pre @ WPA_PUT_LE16 n @ ids @ WPA_PUT_BE32 s" "length (pmkid_part pmkid @ mgmt_part conf (pmkid \<noteq> None)) = 2 + length ids + 4"
      using True s by (auto simp: buf pmkid_part_def mgmt_part_def ids_def n_def split: option.splits)
    have p: "parse_pmkids buf (length pre, 2 + length ids + 4, d) = Some (Inr (length (pre @ WPA_PUT_LE16 n @ ids), 4, e))"
      unfolding e_def using step_pmkids[OF b(1) refl _ ids] by simp
    have m: "parse_mgmt_group buf (length (pre @ WPA_PUT_LE16 n @ ids), 4, e)
        = Some (Inr (length (pre @ WPA_PUT_LE16 n @ ids) + 4, 0, e\<lparr>wd_mgmt_group_cipher := ac_group_mgmt_cipher conf\<rparr>))"
      using step_mgmt_group[of buf "pre @ WPA_PUT_LE16 n @ ids" s _ 4 e] b(1) s(2) True valid by simp
    have r: "pmkid_recovered buf pmkid (e\<lparr>wd_mgmt_group_cipher := ac_group_mgmt_cipher conf\<rparr>)"
      using rec[of "WPA_PUT_BE32 s"] by (simp add: b(1))
    have a: "andthen (parse_pmkids buf (length pre, length (pmkid_part pmkid @ mgmt_part conf (pmkid \<noteq> None)), d)) (parse_mgmt_group buf)
        = Some (Inr (length buf, 0, e\<lparr>wd_mgmt_group_cipher := ac_group_mgmt_cipher conf\<rparr>))"
      unfolding b(2) p andthen_def by (simp add: m[simplified]) (simp add: b(1))
    show thesis
      by (rule that[OF a r]) (use True in \<open>simp_all add: mgmt_cipher_sent_def writes_mgmt_def e_def\<close>)
  next
    case False
    then have mg: "mgmt_part conf (pmkid \<noteq> None) = []" "mgmt_cipher_sent conf = WPA_CIPHER_AES_128_CMAC"
      by (auto simp: mgmt_part_def mgmt_cipher_sent_def writes_mgmt_def)
    show thesis
    proof (cases pmkid)
      case None
      then show thesis using mg d
        by (intro that[of d]) (simp_all add: buf pmkid_part_def andthen_def parse_pmkids_def parse_mgmt_group_def pmkid_recovered_def)
    next
      case (Some p)
      then have b: "buf = pre @ WPA_PUT_LE16 n @ ids @ []" "pmkid_part pmkid @ mgmt_part conf (pmkid \<noteq> None) = WPA_PUT_LE16 n @ ids"
        using mg by (simp_all add: buf pmkid_part_def ids_def n_def)
      have p: "parse_pmkids buf (length pre, 2 + length ids, d) = Some (Inr (length buf, 0, e))"
        unfolding e_def using step_pmkids[OF b(1) refl _ ids] by (simp add: b(1))
      have eq: "e\<lparr>wd_mgmt_group_cipher := WPA_CIPHER_AES_128_CMAC\<rparr> = e" using d by (simp add: e_def)
      have r: "pmkid_recovered buf pmkid e" using rec[of "[]" WPA_CIPHER_AES_128_CMAC] unfolding eq b(1) .
      have l: "length (WPA_PUT_LE16 n @ ids) = 2 + length ids" by simp
      have a: "andthen (parse_pmkids buf (length pre, length (pmkid_part pmkid @ mgmt_part conf (pmkid \<noteq> None)), d)) (parse_mgmt_group buf)
          = Some (Inr (length buf, 0, e))"
        unfolding b(2) l p andthen_def by (simp add: parse_mgmt_group_def)
      show thesis by (rule that[OF a r]) (simp_all add: e_def mg(2) d)
    qed
  qed
qed

lemma rsn_header_ok:
  assumes "ie = [WLAN_EID_RSN, of_nat (length body)] @ body" and "body = WPA_PUT_LE16 1 @ rest" and "length body \<le> 84"
  shows "rsn_header ie (length ie) = Some (Inr (4, length ie - 4, rsn_defaults))"
proof -
  have one: "WPA_PUT_LE16 1 = [1, 0]" by code_simp
  have l: "unat (of_nat (length body) :: u8) = length body" using assms(3) by (simp add: unat_of_nat)
  have ie: "ie = [48, of_nat (length body), 1, 0] @ rest" using assms(1,2) by (simp add: one)
  have t: "get_sel ie 2 = Some v \<Longrightarrow> v \<noteq> OSEN_IE_VENDOR_TYPE" for v
  proof
    assume "get_sel ie 2 = Some v" "v = OSEN_IE_VENDOR_TYPE"
    then have "bit (WPA_GET_BE32 (1 # 0 # take 2 rest)) 30"
      by (auto simp: get_sel_def rd_range_def ie numeral_eq_Suc split: if_splits)
    moreover have "\<not> bit x 30" for x :: u8 using bit_imp_le_length[of x 30] by auto
    moreover have "\<not> bit x 22" for x :: u8 using bit_imp_le_length[of x 22] by auto
    ultimately show False by (simp add: WPA_GET_BE32_def bit_simps)
  qed
  have "get_sel ie 2 \<noteq> None" if "length ie \<ge> 6" using that by (simp add: get_sel_def rd_range_def)
  then have o: "is_osen ie (length ie) = Some False"
    using t by (cases "get_sel ie 2") (auto simp: is_osen_def rd_def ie)
  have g: "get_le16 ie 2 = Some 1" using get_le16_put[of "[48, of_nat (length body)]" 1 rest] assms(1,2) by (simp add: numeral_2_eq_2)
  have "length body = 2 + length rest" by (simp add: assms(2))
  then show ?thesis using o g l by (simp add: rsn_header_def rd_def ie)
qed

text \<open>
  What the parser makes of an element that the access point wrote.
\<close>

definition rsn_config_ok :: "wpa_auth_config \<Rightarrow> bool" where
  "rsn_config_ok conf = (wpa_cipher_valid_group (ac_wpa_group conf)
     \<and> ac_rsn_pairwise conf AND RSN_PAIRWISE_MASK \<noteq> 0 \<and> ac_wpa_key_mgmt conf AND RSN_KEY_MGMT_MASK \<noteq> 0
     \<and> (ac_ieee80211w conf = NO_MGMT_FRAME_PROTECTION \<or> wpa_cipher_valid_mgmt_group (ac_group_mgmt_cipher conf)))"

lemma rsn_config_writable:
  assumes "rsn_config_ok conf"
  shows "rsn_writable conf" and "writes_mgmt conf \<longrightarrow> wpa_cipher_valid_mgmt_group (ac_group_mgmt_cipher conf)"
proof -
  show v: "writes_mgmt conf \<longrightarrow> wpa_cipher_valid_mgmt_group (ac_group_mgmt_cipher conf)"
    using assms by (auto simp: rsn_config_ok_def writes_mgmt_def)
  have "rsn_cipher_put_suites (ac_rsn_pairwise conf) \<noteq> []" "rsn_key_mgmt_put (ac_wpa_key_mgmt conf) \<noteq> []"
    using assms or_suites_tables(1)[of "ac_rsn_pairwise conf"] or_suites_tables(3)[of "ac_wpa_key_mgmt conf"]
    by (auto simp: rsn_config_ok_def)
  then show "rsn_writable conf"
    using assms v group_suite_back mgmt_suite_back by (fastforce simp: rsn_writable_def rsn_config_ok_def)
qed

lemma rsn_parse_body:
  assumes ok: "rsn_config_ok conf" and len: "pmkid_len_ok pmkid"
    and ie: "ie = [WLAN_EID_RSN, of_nat (length (rsn_body conf pmkid))] @ rsn_body conf pmkid"
  obtains d where "wpa_parse_wpa_ie_rsn ie (length ie) = Some (0, d)"
    and "wd_proto d = WPA_PROTO_RSN" and "wd_group_cipher d = ac_wpa_group conf"
    and "wd_pairwise_cipher d = ac_rsn_pairwise conf AND RSN_PAIRWISE_MASK"
    and "wd_key_mgmt d = ac_wpa_key_mgmt conf AND RSN_KEY_MGMT_MASK"
    and "wd_capabilities d = rsn_capab conf" and "wd_mgmt_group_cipher d = mgmt_cipher_sent conf" and "pmkid_recovered ie pmkid d"
proof -
  let ?g = "wpa_cipher_to_suite WPA_PROTO_RSN (ac_wpa_group conf)" and ?pw = "rsn_cipher_put_suites (ac_rsn_pairwise conf)"
  let ?km = "rsn_key_mgmt_put (ac_wpa_key_mgmt conf)" and ?tail = "pmkid_part pmkid @ mgmt_part conf (pmkid \<noteq> None)"
  define p1 where "p1 = [WLAN_EID_RSN, of_nat (length (rsn_body conf pmkid))] @ WPA_PUT_LE16 1"
  define p2 where "p2 = p1 @ WPA_PUT_BE32 ?g"
  define p3 where "p3 = p2 @ put_list ?pw"
  define p4 where "p4 = p3 @ put_list ?km"
  define p5 where "p5 = p4 @ WPA_PUT_LE16 (rsn_capab conf)"
  note P = p1_def p2_def p3_def p4_def p5_def
  note W = rsn_config_writable[OF ok]
  have ne: "?pw \<noteq> []" "?km \<noteq> []" using W(1) by (simp_all add: rsn_writable_def)
  have g: "rsn_selector_to_bitfield ?g = ac_wpa_group conf" "wpa_cipher_valid_group (ac_wpa_group conf)"
    using ok group_suite_back by (simp_all add: rsn_config_ok_def)
  have i5: "ie = p5 @ ?tail" by (simp add: P ie rsn_body_def)
  have i4: "ie = p4 @ WPA_PUT_LE16 (rsn_capab conf) @ ?tail" using i5 by (simp add: p5_def)
  have i3: "ie = p3 @ put_list ?km @ WPA_PUT_LE16 (rsn_capab conf) @ ?tail" using i4 by (simp add: p4_def)
  have i2: "ie = p2 @ put_list ?pw @ put_list ?km @ WPA_PUT_LE16 (rsn_capab conf) @ ?tail" using i3 by (simp add: p3_def)
  have i1: "ie = p1 @ WPA_PUT_BE32 ?g @ put_list ?pw @ put_list ?km @ WPA_PUT_LE16 (rsn_capab conf) @ ?tail" using i2 by (simp add: p2_def)
  define d1 where "d1 = rsn_defaults\<lparr>wd_group_cipher := ac_wpa_group conf\<rparr>"
  define d2 where "d2 = d1\<lparr>wd_pairwise_cipher := ac_rsn_pairwise conf AND RSN_PAIRWISE_MASK\<rparr>"
  define d3 where "d3 = d2\<lparr>wd_key_mgmt := ac_wpa_key_mgmt conf AND RSN_KEY_MGMT_MASK\<rparr>"
  define d4 where "d4 = d3\<lparr>wd_capabilities := rsn_capab conf\<rparr>"
  have s0: "rsn_header ie (length ie) = Some (Inr (length p1, length ie - 4, rsn_defaults))"
    using rsn_header_ok[OF ie _ rsn_body_length(1)[OF len]] by (simp add: p1_def rsn_body_def)
  have s1: "parse_rsn_group ie (length p1, length ie - 4, rsn_defaults) = Some (Inr (length p2, length ie - length p2, d1))"
    using step_rsn_group[OF i1 refl, of "length ie - 4" rsn_defaults] g by (simp add: i1 p1_def p2_def d1_def)
  have s2: "parse_suites rsn_selector_to_bitfield (-4) (-5) (\<lambda>c d. d\<lparr>wd_pairwise_cipher := c\<rparr>) ie (length p2, length ie - length p2, d1)
      = Some (Inr (length p3, length ie - length p3, d2))"
    by (subst step_suites[OF i2 refl _ ne(1) suites_lengths(1)]) (simp_all add: i2 p3_def or_suites_tables d2_def)
  have s3: "reject_cmac (length p3, length ie - length p3, d2) = Some (Inr (length p3, length ie - length p3, d2))"
    by (rule step_cmac) (simp add: d2_def)
  have s4: "parse_suites rsn_key_mgmt_to_bitfield (-6) (-7) (\<lambda>c d. d\<lparr>wd_key_mgmt := c\<rparr>) ie (length p3, length ie - length p3, d2)
      = Some (Inr (length p4, length ie - length p4, d3))"
    by (subst step_suites[OF i3 refl _ ne(2) suites_lengths(2)]) (simp_all add: i3 p4_def or_suites_tables d3_def)
  have s5: "parse_capabilities ie (length p4, length ie - length p4, d3) = Some (Inr (length p5, length ?tail, d4))"
    by (subst step_capabilities[OF i4 refl]) (simp_all add: i4 p5_def d4_def)
  have d: "wd_num_pmkid d4 = 0" "wd_mgmt_group_cipher d4 = WPA_CIPHER_AES_128_CMAC"
    by (simp_all add: d1_def d2_def d3_def d4_def rsn_defaults_def)
  have l: "\<not> length ie < 4" by (simp add: i1 p1_def)
  from step_tail[OF i5 len W(2) d] obtain d' where t:
    "andthen (parse_pmkids ie (length p5, length ?tail, d4)) (parse_mgmt_group ie) = Some (Inr (length ie, 0, d'))"
    "pmkid_recovered ie pmkid d'" "wd_mgmt_group_cipher d' = mgmt_cipher_sent conf" "wd_group_cipher d' = wd_group_cipher d4"
    "wd_pairwise_cipher d' = wd_pairwise_cipher d4" "wd_key_mgmt d' = wd_key_mgmt d4" "wd_capabilities d' = wd_capabilities d4"
    "wd_proto d' = wd_proto d4" .
  have "wpa_parse_wpa_ie_rsn ie (length ie) = Some (0, d')"
    using l unfolding wpa_parse_wpa_ie_rsn_def s0 next_step s1 s2 s3 s4 s5 t(1) by auto
  then show thesis
    by (rule that) (use t in \<open>simp_all add: d1_def d2_def d3_def d4_def rsn_defaults_def\<close>)
qed

text \<open>
  C29. The RSN element that the access point writes into its beacons is read back by the parser as the configuration: the
  writer succeeds within 86 bytes and returns an element of at most that size; the parser accepts it and reports the protocol, the
  group cipher, the supported pairwise ciphers and key management methods, the capabilities, the management group cipher (the
  default one when there is no management frame protection) and the PMKID, at the offset where its sixteen bytes are.
\<close>

theorem rsn_ie_round_trip:
  assumes "rsn_config_ok conf" and "pmkid_len_ok pmkid" and "86 \<le> room"
  shows "\<exists>ie d. wpa_write_rsn_ie conf room pmkid = Ret (Some ie) \<and> length ie \<le> 86
    \<and> wpa_parse_wpa_ie_rsn ie (length ie) = Some (0, d)
    \<and> wd_proto d = WPA_PROTO_RSN \<and> wd_group_cipher d = ac_wpa_group conf
    \<and> wd_pairwise_cipher d = ac_rsn_pairwise conf AND RSN_PAIRWISE_MASK
    \<and> wd_key_mgmt d = ac_wpa_key_mgmt conf AND RSN_KEY_MGMT_MASK
    \<and> wd_capabilities d = rsn_capab conf \<and> wd_mgmt_group_cipher d = mgmt_cipher_sent conf \<and> pmkid_recovered ie pmkid d"
proof -
  let ?ie = "[WLAN_EID_RSN, of_nat (length (rsn_body conf pmkid))] @ rsn_body conf pmkid"
  obtain d where d: "wpa_parse_wpa_ie_rsn ?ie (length ?ie) = Some (0, d)"
    "wd_proto d = WPA_PROTO_RSN" "wd_group_cipher d = ac_wpa_group conf"
    "wd_pairwise_cipher d = ac_rsn_pairwise conf AND RSN_PAIRWISE_MASK" "wd_key_mgmt d = ac_wpa_key_mgmt conf AND RSN_KEY_MGMT_MASK"
    "wd_capabilities d = rsn_capab conf" "wd_mgmt_group_cipher d = mgmt_cipher_sent conf" "pmkid_recovered ?ie pmkid d"
    using rsn_parse_body[OF assms(1,2) refl] .
  moreover have "wpa_write_rsn_ie conf room pmkid = Ret (Some ?ie)"
    using wpa_write_rsn_char[OF assms(2,3)] rsn_config_writable(1)[OF assms(1)] by simp
  moreover have "length ?ie \<le> 86" using rsn_body_length(1)[OF assms(2), of conf] by simp
  ultimately show ?thesis by blast
qed

definition example_conf :: wpa_auth_config where
  "example_conf = \<lparr>ac_wpa = 2, ac_wpa_key_mgmt = 0x182, ac_wpa_pairwise = 8, ac_wpa_group = 0x10, ac_wpa_group_rekey = 600, ac_wpa_strict_rekey = False, ac_wpa_gmk_rekey = 86400, ac_wpa_ptk_rekey = 0, ac_rsn_pairwise = 0x110,
     ac_rsn_preauth = False, ac_eapol_version = 2, ac_peerkey = False, ac_wmm_enabled = True, ac_okc = True, ac_tx_status = True, ac_ieee80211w = MGMT_FRAME_PROTECTION_REQUIRED,
     ac_group_mgmt_cipher = 0x1000, ac_disable_gtk = False\<rparr>"

theorem rsn_ie_round_trip_witness:
  "rsn_config_ok example_conf \<and> (\<exists>ie d. wpa_write_rsn_ie example_conf 128 (Some (replicate 16 7)) = Ret (Some ie)
    \<and> wpa_parse_wpa_ie_rsn ie (length ie) = Some (0, d) \<and> wd_pairwise_cipher d = 0x110 \<and> wd_mgmt_group_cipher d = 0x1000
    \<and> pmkid_recovered ie (Some (replicate 16 7)) d)"
proof -
  have ok: "rsn_config_ok example_conf" by code_simp
  have len: "pmkid_len_ok (Some (replicate 16 7))" by (simp add: pmkid_len_ok_def)
  have vals: "ac_rsn_pairwise example_conf AND RSN_PAIRWISE_MASK = 0x110" "mgmt_cipher_sent example_conf = 0x1000" by code_simp+
  show ?thesis using ok rsn_ie_round_trip[OF ok len, of 128] by (auto simp: vals)
qed

end
