(* ===== verification/DlList.thy ===== *)
theory DlList
  imports Prelude
begin

text \<open>
  hostapd's circular doubly-linked lists (\<open>src/utils/list.h\<close>), at the level of pointers. A heap gives every node its
  \<open>next\<close> and \<open>prev\<close> pointer; \<open>ring h l xs\<close> says that the list with head \<open>l\<close> consists of the nodes \<open>xs\<close>, in this
  order. Each operation on a ring is the matching operation on \<open>xs\<close>, the traversal macros visit \<open>xs\<close> and
  end, and a traversal with \<open>dl_list_for_each_safe\<close> may delete the node it visits. The other components use the
  lists \<open>xs\<close>.
\<close>

type_synonym ptr = "64 word"

record dl_heap =
  dl_next :: "ptr \<Rightarrow> ptr"
  dl_prev :: "ptr \<Rightarrow> ptr"

definition dl_list_init :: "ptr \<Rightarrow> dl_heap \<Rightarrow> dl_heap" where
  "dl_list_init l h =
    (let h = h\<lparr>dl_next := (dl_next h)(l := l)\<rparr>
     in h\<lparr>dl_prev := (dl_prev h)(l := l)\<rparr>)"

definition dl_list_add :: "ptr \<Rightarrow> ptr \<Rightarrow> dl_heap \<Rightarrow> dl_heap" where
  "dl_list_add l item h =
    (let h = h\<lparr>dl_next := (dl_next h)(item := dl_next h l)\<rparr>;
         h = h\<lparr>dl_prev := (dl_prev h)(item := l)\<rparr>;
         h = h\<lparr>dl_prev := (dl_prev h)(dl_next h l := item)\<rparr>
     in h\<lparr>dl_next := (dl_next h)(l := item)\<rparr>)"

definition dl_list_add_tail :: "ptr \<Rightarrow> ptr \<Rightarrow> dl_heap \<Rightarrow> dl_heap" where
  "dl_list_add_tail l item h = dl_list_add (dl_prev h l) item h"

definition dl_list_del :: "ptr \<Rightarrow> dl_heap \<Rightarrow> dl_heap" where
  "dl_list_del item h =
    (let h = h\<lparr>dl_prev := (dl_prev h)(dl_next h item := dl_prev h item)\<rparr>;
         h = h\<lparr>dl_next := (dl_next h)(dl_prev h item := dl_next h item)\<rparr>;
         h = h\<lparr>dl_next := (dl_next h)(item := 0)\<rparr>
     in h\<lparr>dl_prev := (dl_prev h)(item := 0)\<rparr>)"

definition dl_list_empty :: "ptr \<Rightarrow> dl_heap \<Rightarrow> bool" where
  "dl_list_empty l h = (dl_next h l = l)"

definition dl_list_first :: "ptr \<Rightarrow> dl_heap \<Rightarrow> ptr option" where
  "dl_list_first l h = (if dl_list_empty l h then None else Some (dl_next h l))"

definition dl_list_last :: "ptr \<Rightarrow> dl_heap \<Rightarrow> ptr option" where
  "dl_list_last l h = (if dl_list_empty l h then None else Some (dl_prev h l))"

text \<open>The loops follow pointers and need not end on a heap that holds no ring: not returning is \<open>None\<close>.\<close>

partial_function (option) dl_list_len_loop :: "ptr \<Rightarrow> dl_heap \<Rightarrow> ptr \<Rightarrow> u32 \<Rightarrow> u32 option" where
  "dl_list_len_loop l h item n =
    (if item = l then Some n else dl_list_len_loop l h (dl_next h item) (n + 1))"

definition dl_list_len :: "ptr \<Rightarrow> dl_heap \<Rightarrow> u32 option" where
  "dl_list_len l h = dl_list_len_loop l h (dl_next h l) 0"

partial_function (option) dl_list_for_each_loop ::
    "ptr \<Rightarrow> (ptr \<Rightarrow> 's \<Rightarrow> 's) \<Rightarrow> dl_heap \<Rightarrow> ptr \<Rightarrow> 's \<Rightarrow> 's option" where
  "dl_list_for_each_loop l body h item s =
    (if item = l then Some s else dl_list_for_each_loop l body h (dl_next h item) (body item s))"

definition dl_list_for_each :: "ptr \<Rightarrow> (ptr \<Rightarrow> 's \<Rightarrow> 's) \<Rightarrow> dl_heap \<Rightarrow> 's \<Rightarrow> 's option" where
  "dl_list_for_each l body h s = dl_list_for_each_loop l body h (dl_next h l) s"

partial_function (option) dl_list_for_each_reverse_loop ::
    "ptr \<Rightarrow> (ptr \<Rightarrow> 's \<Rightarrow> 's) \<Rightarrow> dl_heap \<Rightarrow> ptr \<Rightarrow> 's \<Rightarrow> 's option" where
  "dl_list_for_each_reverse_loop l body h item s =
    (if item = l then Some s else dl_list_for_each_reverse_loop l body h (dl_prev h item) (body item s))"

definition dl_list_for_each_reverse :: "ptr \<Rightarrow> (ptr \<Rightarrow> 's \<Rightarrow> 's) \<Rightarrow> dl_heap \<Rightarrow> 's \<Rightarrow> 's option" where
  "dl_list_for_each_reverse l body h s = dl_list_for_each_reverse_loop l body h (dl_prev h l) s"

text \<open>The body of the safe loop may change the heap; the successor was read before it ran.\<close>

partial_function (option) dl_list_for_each_safe_loop ::
    "ptr \<Rightarrow> (ptr \<Rightarrow> dl_heap \<times> 's \<Rightarrow> dl_heap \<times> 's) \<Rightarrow> ptr \<Rightarrow> ptr \<Rightarrow> dl_heap \<times> 's \<Rightarrow> (dl_heap \<times> 's) option" where
  "dl_list_for_each_safe_loop l body item n hs =
    (if item = l then Some hs
     else let hs' = body item hs
          in dl_list_for_each_safe_loop l body n (dl_next (fst hs') n) hs')"

definition dl_list_for_each_safe ::
    "ptr \<Rightarrow> (ptr \<Rightarrow> dl_heap \<times> 's \<Rightarrow> dl_heap \<times> 's) \<Rightarrow> dl_heap \<times> 's \<Rightarrow> (dl_heap \<times> 's) option" where
  "dl_list_for_each_safe l body hs =
    (let item = dl_next (fst hs) l
     in dl_list_for_each_safe_loop l body item (dl_next (fst hs) item) hs)"

subsection \<open>Rings\<close>

text \<open>\<open>links h a xs b\<close>: from \<open>a\<close> through \<open>xs\<close> to \<open>b\<close> the pointers of both directions agree.\<close>

primrec links :: "dl_heap \<Rightarrow> ptr \<Rightarrow> ptr list \<Rightarrow> ptr \<Rightarrow> bool" where
  "links h a [] b = (dl_next h a = b \<and> dl_prev h b = a)"
| "links h a (x # xs) b = (dl_next h a = x \<and> dl_prev h x = a \<and> links h x xs b)"

definition ring :: "dl_heap \<Rightarrow> ptr \<Rightarrow> ptr list \<Rightarrow> bool" where
  "ring h l xs = (distinct (l # xs) \<and> links h l xs l)"

lemma links_append: "links h a (xs @ y # ys) b = (links h a xs y \<and> links h y ys b)"
  by (induction xs arbitrary: a) auto

lemma links_frame:
  assumes "\<And>p. p = a \<or> p \<in> set xs \<Longrightarrow> dl_next h' p = dl_next h p"
    and "\<And>p. p \<in> set xs \<or> p = b \<Longrightarrow> dl_prev h' p = dl_prev h p"
  shows "links h' a xs b = links h a xs b"
  using assms by (induction xs arbitrary: a) auto

lemma ring_init: "ring (dl_list_init l h) l []"
  by (simp add: ring_def dl_list_init_def)

text \<open>A ring seen from any of its nodes: rotation.\<close>

lemma links_split_last:
  assumes "links h a xs b"
  shows "dl_prev h b = last (a # xs)"
  using assms by (induction xs arbitrary: a) auto

lemma links_head: "links h a xs b \<Longrightarrow> dl_next h a = hd (xs @ [b])"
  by (cases xs) auto

lemma ring_add_after:
  assumes "ring h l (xs @ ys)" and "item \<notin> set (l # xs @ ys)" and a: "a = last (l # xs)"
  shows "ring (dl_list_add a item h) l (xs @ item # ys)"
proof -
  have lk: "links h l (xs @ ys) l" and di: "distinct (l # xs @ ys)"
    using assms by (simp_all add: ring_def)
  define b where "b = hd (ys @ [l])"
  have parts: "\<exists>xs'. l # xs = xs' @ [a]" using a by (metis append_butlast_last_id list.distinct(1))
  have an: "dl_next h a = b"
  proof (cases xs rule: rev_cases)
    case Nil then show ?thesis using lk a by (simp add: b_def links_head)
  next
    case (snoc zs z) then show ?thesis using lk a by (simp add: b_def links_append links_head)
  qed
  have neq: "item \<noteq> a" "item \<noteq> b" using assms(2) a by (auto simp: b_def hd_append hd_in_set)
  have out: "a \<notin> set ys" "a \<in> set (l # xs)" using di a by (auto dest: last_in_set)
  let ?h = "dl_list_add a item h"
  have nx: "dl_next ?h = (dl_next h)(item := b, a := item)" and pv: "dl_prev ?h = (dl_prev h)(item := a, b := item)"
    using an neq by (auto simp: dl_list_add_def Let_def fun_eq_iff)
  have left: "links ?h l xs item"
  proof (cases xs rule: rev_cases)
    case Nil then show ?thesis using a neq nx pv by simp
  next
    case (snoc zs z)
    have "links h l zs z" using lk snoc by (simp add: links_append)
    moreover have "b \<notin> set zs \<union> {z}"
      using di snoc by (cases ys) (auto simp: b_def)
    ultimately have "links ?h l zs z"
      by (subst links_frame[where h = h]) (use snoc assms(2) di a nx pv in auto)
    then show ?thesis using snoc a neq nx pv by (simp add: links_append)
  qed
  have right: "links ?h item ys l"
  proof (cases ys)
    case Nil then show ?thesis using neq nx pv by (simp add: b_def)
  next
    case (Cons z zs)
    have "links h z zs l" using lk Cons by (simp add: links_append)
    then have "links ?h z zs l"
      by (subst links_frame[where h = h]) (use Cons assms(2) di out in \<open>auto simp: nx pv b_def\<close>)
    then show ?thesis using Cons neq nx pv by (simp add: b_def)
  qed
  show ?thesis using left right di assms(2) by (auto simp: ring_def links_append)
qed

lemma ring_add: "ring h l ys \<Longrightarrow> item \<notin> set (l # ys) \<Longrightarrow> ring (dl_list_add l item h) l (item # ys)"
  using ring_add_after[of h l "[]" ys item l] by simp

lemma ring_add_tail: "ring h l xs \<Longrightarrow> item \<notin> set (l # xs) \<Longrightarrow> ring (dl_list_add_tail l item h) l (xs @ [item])"
  using ring_add_after[of h l xs "[]" item] links_split_last[of h l xs l]
  by (auto simp: dl_list_add_tail_def ring_def)

lemma ring_add_before:
  assumes "ring h l (xs @ y # ys)" and "item \<notin> set (l # xs @ y # ys)"
  shows "ring (dl_list_add (dl_prev h y) item h) l (xs @ item # y # ys)"
  using assms ring_add_after[of h l xs "y # ys" item "dl_prev h y"] links_split_last[of h l xs y]
  by (auto simp: ring_def links_append)

lemma ring_del:
  assumes "ring h l (xs @ item # ys)"
  shows "ring (dl_list_del item h) l (xs @ ys)"
proof -
  have lk: "links h l xs item" "links h item ys l" and di: "distinct (l # xs @ item # ys)"
    using assms by (simp_all add: ring_def links_append)
  define a b where "a = last (l # xs)" and "b = hd (ys @ [l])"
  have an: "dl_prev h item = a" "dl_next h item = b"
    using lk by (simp_all add: a_def b_def links_split_last links_head)
  have neq: "item \<noteq> a" "item \<noteq> b" using di by (cases ys; auto simp: a_def b_def)+
  have out: "a \<notin> set ys" using di by (auto simp: a_def dest: last_in_set)
  let ?h = "dl_list_del item h"
  have nx: "dl_next ?h = (dl_next h)(item := 0, a := b)" and pv: "dl_prev ?h = (dl_prev h)(item := 0, b := a)"
    using an neq by (auto simp: dl_list_del_def Let_def fun_eq_iff)
  show ?thesis
  proof (cases xs rule: rev_cases)
    case Nil
    then show ?thesis
    proof (cases ys)
      case Nil then show ?thesis using \<open>xs = []\<close> neq by (simp add: ring_def nx pv a_def b_def)
    next
      case (Cons z zs)
      then have "links ?h z zs l"
        by (subst links_frame[where h = h]) (use Cons \<open>xs = []\<close> lk di in \<open>auto simp: nx pv a_def b_def\<close>)
      then show ?thesis using Cons \<open>xs = []\<close> neq di by (auto simp: ring_def nx pv a_def b_def)
    qed
  next
    case (snoc us u)
    have l1: "links ?h l us u"
      by (subst links_frame[where h = h])
        (use snoc lk di in \<open>auto simp: nx pv a_def b_def links_append hd_append split: if_splits dest: hd_in_set\<close>)
    have l2: "links ?h u ys l"
    proof (cases ys)
      case Nil then show ?thesis using snoc neq by (simp add: nx pv a_def b_def)
    next
      case (Cons z zs)
      then have "links ?h z zs l"
        by (subst links_frame[where h = h]) (use Cons snoc lk di in \<open>auto simp: nx pv a_def b_def\<close>)
      then show ?thesis using Cons snoc neq di by (auto simp: nx pv a_def b_def)
    qed
    show ?thesis using snoc l1 l2 di by (auto simp: ring_def links_append)
  qed
qed

subsection \<open>Traversals\<close>

lemma len_loop_links:
  assumes "links h a xs l" and "l \<notin> set xs"
  shows "dl_list_len_loop l h (hd (xs @ [l])) n = Some (n + of_nat (length xs))"
  using assms
proof (induction xs arbitrary: a n)
  case Nil
  then show ?case by (simp add: dl_list_len_loop.simps)
next
  case (Cons x xs)
  then show ?case
    by (subst dl_list_len_loop.simps) (auto simp: links_head algebra_simps)
qed

lemma for_each_loop_links:
  assumes "links h a xs l" and "l \<notin> set xs"
  shows "dl_list_for_each_loop l body h (hd (xs @ [l])) s = Some (fold body xs s)"
  using assms
proof (induction xs arbitrary: a s)
  case Nil
  then show ?case by (simp add: dl_list_for_each_loop.simps)
next
  case (Cons x xs)
  then show ?case
    by (subst dl_list_for_each_loop.simps) (auto simp: links_head)
qed

lemma for_each_reverse_loop_links:
  assumes "links h l xs b" and "l \<notin> set xs"
  shows "dl_list_for_each_reverse_loop l body h (last (l # xs)) s = Some (fold body (rev xs) s)"
  using assms
proof (induction xs arbitrary: b s rule: rev_induct)
  case Nil
  then show ?case by (simp add: dl_list_for_each_reverse_loop.simps)
next
  case (snoc x xs)
  then have "dl_prev h x = last (l # xs)" "links h l xs x"
    using links_split_last[of h l xs x] by (simp_all add: links_append)
  then show ?case using snoc
    by (subst dl_list_for_each_reverse_loop.simps) auto
qed

definition del_where :: "(ptr \<Rightarrow> bool) \<Rightarrow> (ptr \<Rightarrow> 's \<Rightarrow> 's) \<Rightarrow> ptr \<Rightarrow> dl_heap \<times> 's \<Rightarrow> dl_heap \<times> 's" where
  "del_where P f item hs = (if P item then dl_list_del item (fst hs) else fst hs, f item (snd hs))"

lemma for_each_safe_loop_ring:
  assumes "ring h l (pre @ xs)" and "item = hd (xs @ [l])" and "xs \<noteq> [] \<Longrightarrow> n = dl_next h item"
  shows "\<exists>h'. dl_list_for_each_safe_loop l (del_where P f) item n (h, s) = Some (h', fold f xs s)
     \<and> ring h' l (pre @ filter (\<lambda>x. \<not> P x) xs)"
  using assms
proof (induction xs arbitrary: h pre item n s)
  case Nil
  then show ?case by (simp add: dl_list_for_each_safe_loop.simps)
next
  case (Cons x xs)
  have x: "item = x" "x \<noteq> l" using Cons.prems by (auto simp: ring_def)
  have n: "n = hd (xs @ [l])" using Cons.prems by (auto simp: ring_def links_append links_head)
  define h1 pre1 where "h1 = (if P x then dl_list_del x h else h)" and "pre1 = (if P x then pre else pre @ [x])"
  have r: "ring h1 l (pre1 @ xs)" using Cons.prems(1) by (auto simp: h1_def pre1_def ring_del)
  obtain h' where "dl_list_for_each_safe_loop l (del_where P f) n (dl_next h1 n) (h1, f x s) = Some (h', fold f xs (f x s))"
    and "ring h' l (pre1 @ filter (\<lambda>x. \<not> P x) xs)"
    using Cons.IH[OF r n refl, of "f x s"] by auto
  then show ?case using x
    by (subst dl_list_for_each_safe_loop.simps) (auto simp: del_where_def h1_def pre1_def)
qed

lemma ring_traversals:
  assumes "ring h l xs"
  shows "dl_list_len l h = Some (of_nat (length xs))"
    and "dl_list_for_each l body h s = Some (fold body xs s)"
    and "dl_list_for_each_reverse l body h s = Some (fold body (rev xs) s)"
    and "\<exists>h'. dl_list_for_each_safe l (del_where P f) (h, s) = Some (h', fold f xs s) \<and> ring h' l (filter (\<lambda>x. \<not> P x) xs)"
proof -
  have lk: "links h l xs l" "l \<notin> set xs" and hd: "dl_next h l = hd (xs @ [l])" and la: "dl_prev h l = last (l # xs)"
    using assms by (auto simp: ring_def links_head links_split_last)
  show "dl_list_len l h = Some (of_nat (length xs))"
    using len_loop_links[OF lk] by (simp add: dl_list_len_def hd)
  show "dl_list_for_each l body h s = Some (fold body xs s)"
    using for_each_loop_links[OF lk] by (simp add: dl_list_for_each_def hd)
  show "dl_list_for_each_reverse l body h s = Some (fold body (rev xs) s)"
    unfolding dl_list_for_each_reverse_def la by (rule for_each_reverse_loop_links[OF lk])
  show "\<exists>h'. dl_list_for_each_safe l (del_where P f) (h, s) = Some (h', fold f xs s) \<and> ring h' l (filter (\<lambda>x. \<not> P x) xs)"
    using for_each_safe_loop_ring[of h l "[]" xs "dl_next h l" _ P f s] assms
    by (simp add: dl_list_for_each_safe_def hd Let_def)
qed

lemma ring_ends:
  assumes "ring h l xs"
  shows "dl_list_empty l h \<longleftrightarrow> xs = []"
    and "dl_list_first l h = (if xs = [] then None else Some (hd xs))"
    and "dl_list_last l h = (if xs = [] then None else Some (last xs))"
proof -
  have "dl_next h l = hd (xs @ [l])" "dl_prev h l = last (l # xs)" "l \<notin> set xs"
    using assms by (auto simp: ring_def links_head links_split_last)
  then show "dl_list_empty l h \<longleftrightarrow> xs = []"
    and "dl_list_first l h = (if xs = [] then None else Some (hd xs))"
    and "dl_list_last l h = (if xs = [] then None else Some (last xs))"
    by (cases xs; auto simp: dl_list_empty_def dl_list_first_def dl_list_last_def)+
qed

text \<open>
  C35. The pointer operations on a ring are the operations on the sequence of its nodes: a fresh node is added in front,
  at the end, or before any node, a node is deleted, and the rest keeps its order; the length and both
  traversals read the sequence and end; a safe traversal that deletes the nodes with \<open>P\<close> on the way still
  visits every node once and leaves the others.
\<close>

theorem dl_list_refines_sequence:
  assumes "ring h l (xs @ y # ys)" and "item \<notin> set (l # xs @ y # ys)"
  shows "ring (dl_list_add l item h) l (item # xs @ y # ys)
    \<and> ring (dl_list_add_tail l item h) l (xs @ y # ys @ [item])
    \<and> ring (dl_list_add (dl_prev h y) item h) l (xs @ item # y # ys)
    \<and> ring (dl_list_del y h) l (xs @ ys)
    \<and> dl_list_len l h = Some (of_nat (length xs + 1 + length ys))
    \<and> dl_list_for_each l Cons h [] = Some (rev ys @ y # rev xs)
    \<and> dl_list_for_each_reverse l Cons h [] = Some (xs @ y # ys)
    \<and> (\<exists>h'. dl_list_for_each_safe l (del_where P Cons) (h, []) = Some (h', rev ys @ y # rev xs)
        \<and> ring h' l (filter (\<lambda>x. \<not> P x) (xs @ y # ys)))"
proof -
  have c: "fold Cons zs ws = rev zs @ ws" for zs ws :: "ptr list" by (simp add: fold_Cons_rev)
  show ?thesis
    using ring_traversals(4)[OF assms(1), of P Cons "[]"] assms
    by (simp add: ring_add ring_del ring_add_before ring_add_tail[of h l "xs @ y # ys" item, simplified]
        ring_traversals[OF assms(1)] c algebra_simps)
qed

definition ring3 :: dl_heap where
  "ring3 = dl_list_add_tail 1 3 (dl_list_add_tail 1 2 (dl_list_init 1 \<lparr>dl_next = (\<lambda>_. 0), dl_prev = (\<lambda>_. 0)\<rparr>))"

theorem dl_list_refines_sequence_witness:
  "ring ring3 1 [2, 3] \<and> ring (dl_list_del 3 ring3) 1 [2] \<and> dl_list_for_each 1 Cons ring3 [] = Some [3, 2]"
proof -
  have r: "ring ring3 1 ([2] @ 3 # [])" by code_simp
  show ?thesis using dl_list_refines_sequence[OF r, of 4] r by simp
qed

end
