(* ===== verification/StableQueue.thy ===== *)
theory StableQueue
  imports Prelude
begin

text \<open>
  The interface of a list that is kept in order by insertion: the event loop keeps its timeouts so, and the PMKSA cache
  its entries. A provider gives the strict order \<open>lt\<close> on entries and an insertion \<open>ins\<close> that puts a new entry in front of
  the first entry it is less than. The lemmas say what a client relies on: the order is kept, nothing else
  is added or lost, entries that are equal in the order stay in the order of their arrival, and an
  entry that is not due leaves the due entries in front as they were.
\<close>

locale stable_queue =
  fixes lt :: "'a \<Rightarrow> 'a \<Rightarrow> bool"
    and ins :: "'a \<Rightarrow> 'a list \<Rightarrow> 'a list"
  assumes lt_asym: "lt x y \<Longrightarrow> \<not> lt y x"
    and lt_negtrans: "\<not> lt x y \<Longrightarrow> \<not> lt y z \<Longrightarrow> \<not> lt x z"
    and ins_Nil: "ins x [] = [x]"
    and ins_Cons: "ins x (y # ys) = (if lt x y then x # y # ys else y # ins x ys)"
begin

abbreviation ordered :: "'a list \<Rightarrow> bool" where
  "ordered xs \<equiv> sorted_wrt (\<lambda>x y. \<not> lt y x) xs"

lemma ins_set [simp]: "set (ins x xs) = insert x (set xs)"
  by (induction xs) (auto simp: ins_Nil ins_Cons)

lemma ins_length [simp]: "length (ins x xs) = Suc (length xs)"
  by (induction xs) (auto simp: ins_Nil ins_Cons)

lemma ins_ordered: "ordered xs \<Longrightarrow> ordered (ins x xs)"
proof (induction xs)
  case (Cons y ys)
  then show ?case
    using lt_negtrans[of _ y x] lt_asym[of x y] by (auto simp: ins_Cons)
qed (simp add: ins_Nil)

lemma ins_split: "ins x xs = takeWhile (\<lambda>y. \<not> lt x y) xs @ x # dropWhile (\<lambda>y. \<not> lt x y) xs"
  by (induction xs) (auto simp: ins_Nil ins_Cons)

text \<open>In an ordered list the insertion is stable: everything not greater stays in front, everything greater behind.\<close>

lemma ins_stable:
  assumes "ordered xs"
  shows "ins x xs = filter (\<lambda>y. \<not> lt x y) xs @ x # filter (lt x) xs"
  using assms
proof (induction xs)
  case (Cons y ys)
  show ?case
  proof (cases "lt x y")
    case True
    then have "\<forall>z \<in> set ys. lt x z" using Cons.prems lt_negtrans by auto
    then show ?thesis using True by (simp add: ins_Cons)
  qed (use Cons in \<open>simp add: ins_Cons\<close>)
qed (simp add: ins_Nil)

lemma filter_ins_other: "\<not> P x \<Longrightarrow> filter P (ins x xs) = filter P xs"
  by (induction xs) (auto simp: ins_Nil ins_Cons)

lemma filter_ins: "ordered xs \<Longrightarrow> P x \<Longrightarrow> filter P (ins x xs) = ins x (filter P xs)"
  by (simp add: ins_stable sorted_wrt_filter conj_commute)

text \<open>\<open>due\<close> is a property that whatever is before a due entry has too.\<close>

lemma due_prefix:
  assumes "ordered xs" and "\<And>x y. due y \<Longrightarrow> \<not> lt y x \<Longrightarrow> due x"
  shows "takeWhile due xs = filter due xs"
  using assms(1)
proof (induction xs)
  case (Cons y ys)
  show ?case
  proof (cases "due y")
    case False
    then have "\<forall>z \<in> set ys. \<not> due z" using Cons.prems assms(2) by auto
    then show ?thesis using False by (simp add: filter_empty_conv)
  qed (use Cons in simp)
qed simp

lemma ins_keeps_due:
  assumes "ordered xs" and "\<And>x y. due y \<Longrightarrow> \<not> lt y x \<Longrightarrow> due x" and "\<not> due x"
  shows "takeWhile due (ins x xs) = takeWhile due xs"
  using assms by (simp add: due_prefix ins_ordered filter_ins_other)

end

end
