(* ===== verification/Eloop.thy ===== *)
theory Eloop
  imports DlList StableQueue
begin

text \<open>
  hostapd's event loop (\<open>src/utils/eloop.c\<close>) in the configuration of this build (\<open>CONFIG_ELOOP_SELECT\<close>, no
  \<open>WPA_TRACE\<close>), with the time helpers of \<open>os.h\<close>. Everything is in one record, \<open>eloop_data\<close>; the ring of timeouts
  is the list of its nodes (theory \<open>DlList\<close>). Handlers are code of other modules: \<open>handlers\<close> says what a call of
  each does to the event loop and to the rest of the program (type \<open>'s\<close>). The clock, \<open>select\<close> and the arrival of
  signals are inputs. \<open>long\<close> has 64 bits.
\<close>

subsection \<open>Time\<close>

definition wrap_long :: "int \<Rightarrow> int" where
  "wrap_long x = (x + 2 ^ 63) mod 2 ^ 64 - 2 ^ 63"

record os_reltime =
  rt_sec :: int
  rt_usec :: int

definition os_reltime_before :: "os_reltime \<Rightarrow> os_reltime \<Rightarrow> bool" where
  "os_reltime_before a b = (rt_sec a < rt_sec b \<or> (rt_sec a = rt_sec b \<and> rt_usec a < rt_usec b))"

definition os_reltime_sub :: "os_reltime \<Rightarrow> os_reltime \<Rightarrow> os_reltime" where
  "os_reltime_sub a b =
    (let s = wrap_long (rt_sec a - rt_sec b);
         u = wrap_long (rt_usec a - rt_usec b)
     in if u < 0 then \<lparr>rt_sec = wrap_long (s - 1), rt_usec = u + 1000000\<rparr>
        else \<lparr>rt_sec = s, rt_usec = u\<rparr>)"

definition os_reltime_expired :: "os_reltime \<Rightarrow> os_reltime \<Rightarrow> int \<Rightarrow> bool" where
  "os_reltime_expired now ts timeout_secs =
    (let age = os_reltime_sub now ts
     in rt_sec age > timeout_secs \<or> (rt_sec age = timeout_secs \<and> rt_usec age > 0))"

subsection \<open>State\<close>

type_synonym fn = nat

record eloop_sock =
  sk_sock :: int
  sk_eloop_data :: ptr
  sk_user_data :: ptr
  sk_handler :: fn

record eloop_timeout =
  to_time :: os_reltime
  to_eloop_data :: ptr
  to_user_data :: ptr
  to_handler :: fn

record eloop_signal =
  sg_sig :: int
  sg_user_data :: ptr
  sg_handler :: fn
  sg_signaled :: int

text \<open>The field \<open>count\<close> of a table is the length of its list.\<close>

record eloop_sock_table =
  st_table :: "eloop_sock list"
  st_changed :: bool

datatype eloop_event_type = EVENT_TYPE_READ | EVENT_TYPE_WRITE | EVENT_TYPE_EXCEPTION

record eloop_data =
  max_sock :: int
  ecount :: int
  readers :: eloop_sock_table
  writers :: eloop_sock_table
  exceptions :: eloop_sock_table
  timeouts :: "eloop_timeout list"
  signals :: "eloop_signal list"
  signaled :: int
  pending_terminate :: bool
  terminate :: bool

definition eloop_init :: eloop_data where
  "eloop_init = \<lparr>max_sock = 0, ecount = 0, readers = \<lparr>st_table = [], st_changed = False\<rparr>,
     writers = \<lparr>st_table = [], st_changed = False\<rparr>, exceptions = \<lparr>st_table = [], st_changed = False\<rparr>,
     timeouts = [], signals = [], signaled = 0, pending_terminate = False, terminate = False\<rparr>"

subsection \<open>Sockets\<close>

primrec eloop_get_sock_table :: "eloop_event_type \<Rightarrow> eloop_data \<Rightarrow> eloop_sock_table" where
  "eloop_get_sock_table EVENT_TYPE_READ e = readers e"
| "eloop_get_sock_table EVENT_TYPE_WRITE e = writers e"
| "eloop_get_sock_table EVENT_TYPE_EXCEPTION e = exceptions e"

primrec put_sock_table :: "eloop_event_type \<Rightarrow> eloop_sock_table \<Rightarrow> eloop_data \<Rightarrow> eloop_data" where
  "put_sock_table EVENT_TYPE_READ t e = e\<lparr>readers := t\<rparr>"
| "put_sock_table EVENT_TYPE_WRITE t e = e\<lparr>writers := t\<rparr>"
| "put_sock_table EVENT_TYPE_EXCEPTION t e = e\<lparr>exceptions := t\<rparr>"

definition new_max_sock :: "int \<Rightarrow> eloop_data \<Rightarrow> int" where
  "new_max_sock sock e = (if sock > max_sock e then sock else max_sock e)"

definition eloop_sock_table_add_sock ::
    "bool \<Rightarrow> eloop_event_type \<Rightarrow> int \<Rightarrow> fn \<Rightarrow> ptr \<Rightarrow> ptr \<Rightarrow> eloop_data \<Rightarrow> int \<times> eloop_data" where
  "eloop_sock_table_add_sock realloc_ok ty sock h d u e =
    (let t = eloop_get_sock_table ty e
     in if \<not> realloc_ok then (-1, e)
        else (0, (put_sock_table ty
               \<lparr>st_table = st_table t @ [\<lparr>sk_sock = sock, sk_eloop_data = d, sk_user_data = u, sk_handler = h\<rparr>],
                st_changed = True\<rparr> e)\<lparr>max_sock := new_max_sock sock e, ecount := ecount e + 1\<rparr>))"

primrec del_sock :: "int \<Rightarrow> eloop_sock list \<Rightarrow> eloop_sock list" where
  "del_sock sock [] = []"
| "del_sock sock (x # xs) = (if sk_sock x = sock then xs else x # del_sock sock xs)"

definition eloop_sock_table_remove_sock :: "eloop_event_type \<Rightarrow> int \<Rightarrow> eloop_data \<Rightarrow> eloop_data" where
  "eloop_sock_table_remove_sock ty sock e =
    (let t = eloop_get_sock_table ty e
     in if \<not> list_ex (\<lambda>x. sk_sock x = sock) (st_table t) then e
        else (put_sock_table ty \<lparr>st_table = del_sock sock (st_table t), st_changed = True\<rparr> e)\<lparr>ecount := ecount e - 1\<rparr>)"

text \<open>\<open>assert (sock >= 0)\<close> ends the process.\<close>

definition eloop_register_sock ::
    "bool \<Rightarrow> int \<Rightarrow> eloop_event_type \<Rightarrow> fn \<Rightarrow> ptr \<Rightarrow> ptr \<Rightarrow> eloop_data \<Rightarrow> (int \<times> eloop_data) outcome" where
  "eloop_register_sock realloc_ok sock ty h d u e =
    (if sock < 0 then Abort else Ret (eloop_sock_table_add_sock realloc_ok ty sock h d u e))"

definition eloop_unregister_sock :: "int \<Rightarrow> eloop_event_type \<Rightarrow> eloop_data \<Rightarrow> eloop_data" where
  "eloop_unregister_sock sock ty e = eloop_sock_table_remove_sock ty sock e"

definition eloop_register_read_sock ::
    "bool \<Rightarrow> int \<Rightarrow> fn \<Rightarrow> ptr \<Rightarrow> ptr \<Rightarrow> eloop_data \<Rightarrow> (int \<times> eloop_data) outcome" where
  "eloop_register_read_sock realloc_ok sock h d u e = eloop_register_sock realloc_ok sock EVENT_TYPE_READ h d u e"

definition eloop_unregister_read_sock :: "int \<Rightarrow> eloop_data \<Rightarrow> eloop_data" where
  "eloop_unregister_read_sock sock e = eloop_unregister_sock sock EVENT_TYPE_READ e"

text \<open>
  An \<open>fd_set\<close> has \<open>FD_SETSIZE\<close> bits (1024 in glibc); \<open>FD_SET\<close> and \<open>FD_ISSET\<close> outside of them access memory
  beyond the object.
\<close>

definition FD_SETSIZE :: int where
  "FD_SETSIZE = 1024"

primrec set_fds_loop :: "eloop_sock list \<Rightarrow> int list \<Rightarrow> int list outcome" where
  "set_fds_loop [] fds = Ret fds"
| "set_fds_loop (x # xs) fds =
    (if sk_sock x < 0 then Abort
     else if sk_sock x \<ge> FD_SETSIZE then UB
     else set_fds_loop xs (sk_sock x # fds))"

definition eloop_sock_table_set_fds :: "eloop_sock_table \<Rightarrow> int list outcome" where
  "eloop_sock_table_set_fds t = set_fds_loop (st_table t) []"

subsection \<open>Timeouts\<close>

definition ELOOP_ALL_CTX :: ptr where
  "ELOOP_ALL_CTX = -1"

function norm_usec :: "os_reltime \<Rightarrow> os_reltime" where
  "norm_usec t =
    (if rt_usec t \<ge> 1000000
     then norm_usec \<lparr>rt_sec = wrap_long (rt_sec t + 1), rt_usec = rt_usec t - 1000000\<rparr>
     else t)"
  by auto
termination
  by (relation "measure (\<lambda>t. nat (rt_usec t))") auto

declare norm_usec.simps [simp del]

primrec insert_timeout :: "eloop_timeout \<Rightarrow> eloop_timeout list \<Rightarrow> eloop_timeout list" where
  "insert_timeout t [] = [t]"
| "insert_timeout t (x # xs) =
    (if os_reltime_before (to_time t) (to_time x) then t # x # xs else x # insert_timeout t xs)"

definition eloop_register_timeout ::
    "bool \<Rightarrow> os_reltime option \<Rightarrow> u32 \<Rightarrow> u32 \<Rightarrow> fn \<Rightarrow> ptr \<Rightarrow> ptr \<Rightarrow> eloop_data \<Rightarrow> int \<times> eloop_data" where
  "eloop_register_timeout alloc_ok clock secs usecs h d u e =
    (if \<not> alloc_ok then (-1, e)
     else case clock of
       None \<Rightarrow> (-1, e)
     | Some now \<Rightarrow>
         let sec = wrap_long (rt_sec now + uint secs)
         in if sec < rt_sec now then (0, e)
            else let t = norm_usec \<lparr>rt_sec = sec, rt_usec = rt_usec now + uint usecs\<rparr>
                 in (0, e\<lparr>timeouts := insert_timeout
                      \<lparr>to_time = t, to_eloop_data = d, to_user_data = u, to_handler = h\<rparr> (timeouts e)\<rparr>))"

text \<open>Unlinks the timeout at position \<open>i\<close> of the list.\<close>

definition eloop_remove_timeout :: "nat \<Rightarrow> eloop_data \<Rightarrow> eloop_data" where
  "eloop_remove_timeout i e = e\<lparr>timeouts := take i (timeouts e) @ drop (Suc i) (timeouts e)\<rparr>"

definition timeout_matches :: "fn \<Rightarrow> ptr \<Rightarrow> ptr \<Rightarrow> eloop_timeout \<Rightarrow> bool" where
  "timeout_matches h d u t = (to_handler t = h \<and> to_eloop_data t = d \<and> to_user_data t = u)"

definition cancel_matches :: "fn \<Rightarrow> ptr \<Rightarrow> ptr \<Rightarrow> eloop_timeout \<Rightarrow> bool" where
  "cancel_matches h d u t =
    (to_handler t = h \<and> (to_eloop_data t = d \<or> d = ELOOP_ALL_CTX) \<and> (to_user_data t = u \<or> u = ELOOP_ALL_CTX))"

primrec cancel_loop :: "fn \<Rightarrow> ptr \<Rightarrow> ptr \<Rightarrow> eloop_timeout list \<Rightarrow> int \<Rightarrow> int \<times> eloop_timeout list" where
  "cancel_loop h d u [] removed = (removed, [])"
| "cancel_loop h d u (t # ts) removed =
    (if cancel_matches h d u t then cancel_loop h d u ts (removed + 1)
     else let (r, ts') = cancel_loop h d u ts removed in (r, t # ts'))"

definition eloop_cancel_timeout :: "fn \<Rightarrow> ptr \<Rightarrow> ptr \<Rightarrow> eloop_data \<Rightarrow> int \<times> eloop_data" where
  "eloop_cancel_timeout h d u e =
    (let (r, ts) = cancel_loop h d u (timeouts e) 0 in (r, e\<lparr>timeouts := ts\<rparr>))"

primrec cancel_one_loop ::
    "fn \<Rightarrow> ptr \<Rightarrow> ptr \<Rightarrow> os_reltime \<Rightarrow> eloop_timeout list \<Rightarrow> int \<times> os_reltime \<times> eloop_timeout list" where
  "cancel_one_loop h d u now [] = (0, \<lparr>rt_sec = 0, rt_usec = 0\<rparr>, [])"
| "cancel_one_loop h d u now (t # ts) =
    (if timeout_matches h d u t
     then (1, if os_reltime_before now (to_time t) then os_reltime_sub (to_time t) now
              else \<lparr>rt_sec = 0, rt_usec = 0\<rparr>, ts)
     else let (r, rem, ts') = cancel_one_loop h d u now ts in (r, rem, t # ts'))"

definition eloop_cancel_timeout_one ::
    "fn \<Rightarrow> ptr \<Rightarrow> ptr \<Rightarrow> os_reltime \<Rightarrow> eloop_data \<Rightarrow> int \<times> os_reltime \<times> eloop_data" where
  "eloop_cancel_timeout_one h d u now e =
    (let (r, rem, ts) = cancel_one_loop h d u now (timeouts e) in (r, rem, e\<lparr>timeouts := ts\<rparr>))"

definition eloop_is_timeout_registered :: "fn \<Rightarrow> ptr \<Rightarrow> ptr \<Rightarrow> eloop_data \<Rightarrow> bool" where
  "eloop_is_timeout_registered h d u e = list_ex (timeout_matches h d u) (timeouts e)"

text \<open>
  \<open>eloop_deplete_timeout\<close> and \<open>eloop_replenish_timeout\<close> replace the first matching timeout when the requested one
  is earlier (later) than what remains. The clock is read here and again by the registration.
\<close>

definition retime ::
    "(os_reltime \<Rightarrow> os_reltime \<Rightarrow> bool) \<Rightarrow> os_reltime \<Rightarrow> bool \<Rightarrow> os_reltime option
     \<Rightarrow> u32 \<Rightarrow> u32 \<Rightarrow> fn \<Rightarrow> ptr \<Rightarrow> ptr \<Rightarrow> eloop_data \<Rightarrow> int \<times> eloop_data" where
  "retime wanted now alloc_ok clock req_secs req_usecs h d u e =
    (case find (timeout_matches h d u) (timeouts e) of
       None \<Rightarrow> (-1, e)
     | Some tmp \<Rightarrow>
         let requested = \<lparr>rt_sec = uint req_secs, rt_usec = uint req_usecs\<rparr>;
             remaining = os_reltime_sub (to_time tmp) now
         in if wanted requested remaining
            then (1, snd (eloop_register_timeout alloc_ok clock req_secs req_usecs h d u
                       (snd (eloop_cancel_timeout h d u e))))
            else (0, e))"

definition eloop_deplete_timeout ::
    "os_reltime \<Rightarrow> bool \<Rightarrow> os_reltime option \<Rightarrow> u32 \<Rightarrow> u32 \<Rightarrow> fn \<Rightarrow> ptr \<Rightarrow> ptr \<Rightarrow> eloop_data \<Rightarrow> int \<times> eloop_data" where
  "eloop_deplete_timeout = retime (\<lambda>requested remaining. os_reltime_before requested remaining)"

definition eloop_replenish_timeout ::
    "os_reltime \<Rightarrow> bool \<Rightarrow> os_reltime option \<Rightarrow> u32 \<Rightarrow> u32 \<Rightarrow> fn \<Rightarrow> ptr \<Rightarrow> ptr \<Rightarrow> eloop_data \<Rightarrow> int \<times> eloop_data" where
  "eloop_replenish_timeout = retime (\<lambda>requested remaining. os_reltime_before remaining requested)"

subsection \<open>Signals\<close>

definition SIGINT :: int where "SIGINT = 2"

definition SIGTERM :: int where "SIGTERM = 15"

definition SIGHUP :: int where "SIGHUP = 1"

primrec mark_signal :: "int \<Rightarrow> eloop_signal list \<Rightarrow> eloop_signal list" where
  "mark_signal s [] = []"
| "mark_signal s (x # xs) =
    (if sg_sig x = s then x\<lparr>sg_signaled := sg_signaled x + 1\<rparr> # xs else x # mark_signal s xs)"

definition eloop_handle_signal :: "int \<Rightarrow> eloop_data \<Rightarrow> eloop_data" where
  "eloop_handle_signal s e =
    (let e = (if (s = SIGINT \<or> s = SIGTERM) \<and> \<not> pending_terminate e then e\<lparr>pending_terminate := True\<rparr> else e)
     in e\<lparr>signaled := signaled e + 1, signals := mark_signal s (signals e)\<rparr>)"

definition eloop_register_signal :: "bool \<Rightarrow> int \<Rightarrow> fn \<Rightarrow> ptr \<Rightarrow> eloop_data \<Rightarrow> int \<times> eloop_data" where
  "eloop_register_signal realloc_ok s h u e =
    (if \<not> realloc_ok then (-1, e)
     else (0, e\<lparr>signals := signals e @ [\<lparr>sg_sig = s, sg_user_data = u, sg_handler = h, sg_signaled = 0\<rparr>]\<rparr>))"

definition eloop_register_signal_terminate :: "bool \<Rightarrow> bool \<Rightarrow> fn \<Rightarrow> ptr \<Rightarrow> eloop_data \<Rightarrow> int \<times> eloop_data" where
  "eloop_register_signal_terminate ok1 ok2 h u e =
    (let (ret, e) = eloop_register_signal ok1 SIGINT h u e
     in if ret = 0 then eloop_register_signal ok2 SIGTERM h u e else (ret, e))"

definition eloop_register_signal_reconfig :: "bool \<Rightarrow> fn \<Rightarrow> ptr \<Rightarrow> eloop_data \<Rightarrow> int \<times> eloop_data" where
  "eloop_register_signal_reconfig ok h u e = eloop_register_signal ok SIGHUP h u e"

definition eloop_terminate :: "eloop_data \<Rightarrow> eloop_data" where
  "eloop_terminate e = e\<lparr>terminate := True\<rparr>"

definition eloop_terminated :: "eloop_data \<Rightarrow> bool" where
  "eloop_terminated e = (terminate e \<or> pending_terminate e)"

subsection \<open>The loop\<close>

record 's handlers =
  h_timeout :: "fn \<Rightarrow> ptr \<Rightarrow> ptr \<Rightarrow> eloop_data \<times> 's \<Rightarrow> eloop_data \<times> 's"
  h_sock :: "fn \<Rightarrow> int \<Rightarrow> ptr \<Rightarrow> ptr \<Rightarrow> eloop_data \<times> 's \<Rightarrow> eloop_data \<times> 's"
  h_signal :: "fn \<Rightarrow> int \<Rightarrow> ptr \<Rightarrow> eloop_data \<times> 's \<Rightarrow> eloop_data \<times> 's"

text \<open>Signal handlers may register signals, so this loop need not end: that is \<open>None\<close>.\<close>

partial_function (option) signals_loop ::
    "'s handlers \<Rightarrow> nat \<Rightarrow> eloop_data \<times> 's \<Rightarrow> (eloop_data \<times> 's) option" where
  "signals_loop H i st =
    (if i < length (signals (fst st))
     then let g = signals (fst st) ! i
          in if sg_signaled g \<noteq> 0
             then let e = (fst st)\<lparr>signals := (signals (fst st))[i := g\<lparr>sg_signaled := 0\<rparr>]\<rparr>
                  in signals_loop H (i + 1) (h_signal H (sg_handler g) (sg_sig g) (sg_user_data g) (e, snd st))
             else signals_loop H (i + 1) st
     else Some st)"

definition eloop_process_pending_signals ::
    "'s handlers \<Rightarrow> eloop_data \<times> 's \<Rightarrow> (eloop_data \<times> 's) option" where
  "eloop_process_pending_signals H st =
    (if signaled (fst st) = 0 then Some st
     else let e = (fst st)\<lparr>signaled := 0\<rparr>;
              e = (if pending_terminate e then e\<lparr>pending_terminate := False\<rparr> else e)
          in signals_loop H 0 (e, snd st))"

text \<open>The table is read again for every index: a handler may have changed it, which ends the loop.\<close>

partial_function (option) dispatch_loop ::
    "'s handlers \<Rightarrow> eloop_event_type \<Rightarrow> int list \<Rightarrow> nat \<Rightarrow> eloop_data \<times> 's \<Rightarrow> (eloop_data \<times> 's) outcome option" where
  "dispatch_loop H ty fds i st =
    (let t = eloop_get_sock_table ty (fst st)
     in if i < length (st_table t)
        then let x = st_table t ! i
             in if sk_sock x \<ge> FD_SETSIZE \<or> sk_sock x < 0 then Some UB
                else if sk_sock x \<in> set fds
                then let st' = h_sock H (sk_handler x) (sk_sock x) (sk_eloop_data x) (sk_user_data x) st
                     in if st_changed (eloop_get_sock_table ty (fst st')) then Some (Ret st')
                        else dispatch_loop H ty fds (i + 1) st'
                else dispatch_loop H ty fds (i + 1) st
        else Some (Ret st))"

definition eloop_sock_table_dispatch ::
    "'s handlers \<Rightarrow> eloop_event_type \<Rightarrow> int list \<Rightarrow> eloop_data \<times> 's \<Rightarrow> (eloop_data \<times> 's) outcome option" where
  "eloop_sock_table_dispatch H ty fds st =
    dispatch_loop H ty fds 0
      (put_sock_table ty ((eloop_get_sock_table ty (fst st))\<lparr>st_changed := False\<rparr>) (fst st), snd st)"

text \<open>What the operating system answers in one round: the clock before \<open>select\<close>, signals that arrive in it,
  its answer to the arguments it is called with, and the clock after it.\<close>

datatype select_result =
    SelError
  | SelIntr
  | SelTimeout
  | SelReady "int list" "int list" "int list"

record round_input =
  ri_now :: os_reltime
  ri_signals :: "int list"
  ri_select :: "int \<Rightarrow> int list \<Rightarrow> int list \<Rightarrow> int list \<Rightarrow> os_reltime option \<Rightarrow> select_result"
  ri_now2 :: os_reltime

definition select_timeout :: "os_reltime \<Rightarrow> eloop_data \<Rightarrow> os_reltime option" where
  "select_timeout now e =
    (case timeouts e of
       [] \<Rightarrow> None
     | t # _ \<Rightarrow> Some (if os_reltime_before now (to_time t) then os_reltime_sub (to_time t) now
                     else \<lparr>rt_sec = 0, rt_usec = 0\<rparr>))"

definition run_first_timeout :: "'s handlers \<Rightarrow> os_reltime \<Rightarrow> eloop_data \<times> 's \<Rightarrow> eloop_data \<times> 's" where
  "run_first_timeout H now st =
    (case timeouts (fst st) of
       [] \<Rightarrow> st
     | t # _ \<Rightarrow>
         if \<not> os_reltime_before now (to_time t)
         then h_timeout H (to_handler t) (to_eloop_data t) (to_user_data t) (eloop_remove_timeout 0 (fst st), snd st)
         else st)"

definition clear_changed :: "eloop_data \<Rightarrow> eloop_data" where
  "clear_changed e = e\<lparr>readers := (readers e)\<lparr>st_changed := False\<rparr>, writers := (writers e)\<lparr>st_changed := False\<rparr>,
     exceptions := (exceptions e)\<lparr>st_changed := False\<rparr>\<rparr>"

definition loop_condition :: "eloop_data \<Rightarrow> bool" where
  "loop_condition e = (\<not> terminate e \<and> (timeouts e \<noteq> [] \<or> st_table (readers e) \<noteq> []
     \<or> st_table (writers e) \<noteq> [] \<or> st_table (exceptions e) \<noteq> []))"

datatype 'a flow = Continue 'a | Break 'a | Out 'a

definition dispatch_all ::
    "'s handlers \<Rightarrow> int list \<Rightarrow> int list \<Rightarrow> int list \<Rightarrow> eloop_data \<times> 's \<Rightarrow> (eloop_data \<times> 's) outcome option" where
  "dispatch_all H rfds wfds efds st =
    (case eloop_sock_table_dispatch H EVENT_TYPE_READ rfds st of
       None \<Rightarrow> None | Some UB \<Rightarrow> Some UB | Some Abort \<Rightarrow> Some Abort
     | Some (Ret st) \<Rightarrow>
    (case eloop_sock_table_dispatch H EVENT_TYPE_WRITE wfds st of
       None \<Rightarrow> None | Some UB \<Rightarrow> Some UB | Some Abort \<Rightarrow> Some Abort
     | Some (Ret st) \<Rightarrow> eloop_sock_table_dispatch H EVENT_TYPE_EXCEPTION efds st))"

text \<open>The part of a round after \<open>select\<close> has returned.\<close>

definition after_select ::
    "'s handlers \<Rightarrow> select_result \<Rightarrow> os_reltime \<Rightarrow> eloop_data \<times> 's \<Rightarrow> (eloop_data \<times> 's) flow outcome option" where
  "after_select H res now st =
    (if res = SelError then Some (Ret (Out st))
     else case eloop_process_pending_signals H (clear_changed (fst st), snd st) of
       None \<Rightarrow> None
     | Some st \<Rightarrow>
         let st = run_first_timeout H now st
         in case res of
              SelReady rfds wfds efds \<Rightarrow>
                if st_changed (readers (fst st)) \<or> st_changed (writers (fst st)) \<or> st_changed (exceptions (fst st))
                then Some (Ret (Continue st))
                else map_option (\<lambda>r. bind_outcome r (\<lambda>st. Ret (Continue st))) (dispatch_all H rfds wfds efds st)
            | _ \<Rightarrow> Some (Ret (Continue st)))"

definition eloop_round ::
    "'s handlers \<Rightarrow> round_input \<Rightarrow> eloop_data \<times> 's \<Rightarrow> (eloop_data \<times> 's) flow outcome option" where
  "eloop_round H inp st =
    (case (if pending_terminate (fst st) then eloop_process_pending_signals H st else Some st) of
       None \<Rightarrow> None
     | Some st' \<Rightarrow>
         if pending_terminate (fst st) \<and> terminate (fst st') then Some (Ret (Break st'))
         else case bind_outcome (eloop_sock_table_set_fds (readers (fst st'))) (\<lambda>rfds.
                   bind_outcome (eloop_sock_table_set_fds (writers (fst st'))) (\<lambda>wfds.
                   bind_outcome (eloop_sock_table_set_fds (exceptions (fst st'))) (\<lambda>efds.
                   Ret (ri_select inp (max_sock (fst st') + 1) rfds wfds efds (select_timeout (ri_now inp) (fst st')))))) of
                Abort \<Rightarrow> Some Abort
              | UB \<Rightarrow> Some UB
              | Ret res \<Rightarrow> after_select H res (ri_now2 inp) (fold eloop_handle_signal (ri_signals inp) (fst st'), snd st'))"

text \<open>
  \<open>eloop_run\<close> on the inputs of its rounds: \<open>Continue\<close> when it is still in the loop after them, \<open>Break\<close> when it has
  returned by its condition, \<open>Out\<close> when \<open>select\<close> or the allocation of the sets of descriptors failed.
\<close>

fun run_loop :: "'s handlers \<Rightarrow> round_input list \<Rightarrow> eloop_data \<times> 's \<Rightarrow> (eloop_data \<times> 's) flow outcome option" where
  "run_loop H inps st =
    (if \<not> loop_condition (fst st) then Some (Ret (Break ((fst st)\<lparr>terminate := False\<rparr>, snd st)))
     else case inps of
       [] \<Rightarrow> Some (Ret (Continue st))
     | inp # inps' \<Rightarrow>
         (case eloop_round H inp st of
            Some (Ret (Continue st')) \<Rightarrow> run_loop H inps' st'
          | Some (Ret (Break st')) \<Rightarrow> Some (Ret (Break ((fst st')\<lparr>terminate := False\<rparr>, snd st')))
          | r \<Rightarrow> r))"

declare run_loop.simps [simp del]

definition eloop_run ::
    "bool \<Rightarrow> 's handlers \<Rightarrow> round_input list \<Rightarrow> eloop_data \<times> 's \<Rightarrow> (eloop_data \<times> 's) flow outcome option" where
  "eloop_run malloc_ok H inps st = (if \<not> malloc_ok then Some (Ret (Out st)) else run_loop H inps st)"


subsection \<open>Time arithmetic\<close>

text \<open>A time in microseconds, and the times for which the arithmetic of \<open>long\<close> is exact.\<close>

definition usecs_of :: "os_reltime \<Rightarrow> int" where
  "usecs_of t = rt_sec t * 1000000 + rt_usec t"

definition time_ok :: "os_reltime \<Rightarrow> bool" where
  "time_ok t = (0 \<le> rt_sec t \<and> rt_sec t < 2 ^ 62 \<and> 0 \<le> rt_usec t \<and> rt_usec t < 1000000)"

lemma wrap_long_id [simp]: "- (2 ^ 63) \<le> x \<Longrightarrow> x < 2 ^ 63 \<Longrightarrow> wrap_long x = x"
  by (simp add: wrap_long_def)

lemma before_usecs_norm:
  assumes "0 \<le> rt_usec a" "rt_usec a < 1000000" "0 \<le> rt_usec b" "rt_usec b < 1000000"
  shows "os_reltime_before a b \<longleftrightarrow> usecs_of a < usecs_of b"
  using assms by (auto simp: os_reltime_before_def usecs_of_def)

lemma before_usecs: "time_ok a \<Longrightarrow> time_ok b \<Longrightarrow> os_reltime_before a b \<longleftrightarrow> usecs_of a < usecs_of b"
  by (rule before_usecs_norm) (simp_all add: time_ok_def)

lemma os_reltime_sub_exact:
  assumes "time_ok a" and "time_ok b"
  shows "usecs_of (os_reltime_sub a b) = usecs_of a - usecs_of b"
    and "0 \<le> rt_usec (os_reltime_sub a b)" and "rt_usec (os_reltime_sub a b) < 1000000"
  using assms by (auto simp: os_reltime_sub_def time_ok_def usecs_of_def Let_def)

lemma os_reltime_expired_exact:
  assumes "time_ok now" and "time_ok ts"
  shows "os_reltime_expired now ts secs \<longleftrightarrow> usecs_of now - usecs_of ts > secs * 1000000"
  using os_reltime_sub_exact[OF assms] by (auto simp: os_reltime_expired_def Let_def usecs_of_def)

lemma norm_usec_exact:
  assumes "0 \<le> rt_sec t" and "rt_sec t + rt_usec t div 1000000 < 2 ^ 63" and "0 \<le> rt_usec t"
  shows "usecs_of (norm_usec t) = usecs_of t \<and> rt_sec (norm_usec t) = rt_sec t + rt_usec t div 1000000
    \<and> 0 \<le> rt_usec (norm_usec t) \<and> rt_usec (norm_usec t) < 1000000"
  using assms
proof (induction t rule: norm_usec.induct)
  case (1 t)
  show ?case
  proof (cases "rt_usec t \<ge> 1000000")
    case True
    have d: "rt_usec t div 1000000 = 1 + (rt_usec t - 1000000) div 1000000" by linarith
    have w: "wrap_long (rt_sec t + 1) = rt_sec t + 1" using 1(2-4) True by simp
    show ?thesis using 1(1)[OF True] 1(2-4) True
      by (subst (1 2 3 4) norm_usec.simps) (simp add: w d usecs_of_def)
  qed (use 1 in \<open>simp add: norm_usec.simps div_pos_pos_trivial\<close>)
qed

lemma norm_usec_usec:
  assumes "0 \<le> rt_usec t"
  shows "0 \<le> rt_usec (norm_usec t) \<and> rt_usec (norm_usec t) < 1000000"
  using assms
proof (induction t rule: norm_usec.induct)
  case (1 t)
  then show ?case by (cases "rt_usec t \<ge> 1000000") (simp_all add: norm_usec.simps[of t])
qed

subsection \<open>The queue of timeouts\<close>

definition timeout_before :: "eloop_timeout \<Rightarrow> eloop_timeout \<Rightarrow> bool" where
  "timeout_before a b = os_reltime_before (to_time a) (to_time b)"

interpretation tq: stable_queue timeout_before insert_timeout
  by unfold_locales (auto simp: timeout_before_def os_reltime_before_def)

lemma cancel_loop_char:
  "cancel_loop h d u ts n = (n + int (length (filter (cancel_matches h d u) ts)), filter (\<lambda>t. \<not> cancel_matches h d u t) ts)"
  by (induction ts arbitrary: n) auto

lemma eloop_cancel_timeout_char:
  "eloop_cancel_timeout h d u e =
    (int (length (filter (cancel_matches h d u) (timeouts e))),
     e\<lparr>timeouts := filter (\<lambda>t. \<not> cancel_matches h d u t) (timeouts e)\<rparr>)"
  by (simp add: eloop_cancel_timeout_def cancel_loop_char)

lemma cancel_one_loop_char:
  "cancel_one_loop h d u now ts =
    (case find (timeout_matches h d u) ts of
       None \<Rightarrow> (0, \<lparr>rt_sec = 0, rt_usec = 0\<rparr>, ts)
     | Some t \<Rightarrow> (1, if os_reltime_before now (to_time t) then os_reltime_sub (to_time t) now
                   else \<lparr>rt_sec = 0, rt_usec = 0\<rparr>, remove1 t ts))"
proof (induction ts)
  case (Cons t ts)
  show ?case
  proof (cases "find (timeout_matches h d u) ts")
    case (Some x)
    then have "timeout_matches h d u x" by (auto simp: find_Some_iff)
    then show ?thesis using Cons Some by auto
  qed (use Cons in auto)
qed simp

lemma wrap_add_u32:
  assumes "time_ok now"
  shows "wrap_long (rt_sec now + uint (secs :: u32)) = rt_sec now + uint secs"
proof (rule wrap_long_id)
  have b: "0 \<le> uint secs" "uint secs < 2 ^ 32" "0 \<le> rt_sec now" "rt_sec now < 2 ^ 62"
    using uint_bounded[of secs] assms by (simp_all add: time_ok_def)
  show "- (2 ^ 63) \<le> rt_sec now + uint secs" using add_nonneg_nonneg[OF b(3,1)] by simp
  show "rt_sec now + uint secs < 2 ^ 63" using b(2,4) by simp
qed

text \<open>The timeout that a registration at \<open>now\<close> creates.\<close>

definition timeout_at :: "os_reltime \<Rightarrow> u32 \<Rightarrow> u32 \<Rightarrow> fn \<Rightarrow> ptr \<Rightarrow> ptr \<Rightarrow> eloop_timeout" where
  "timeout_at now secs usecs h d u =
    \<lparr>to_time = norm_usec \<lparr>rt_sec = wrap_long (rt_sec now + uint secs), rt_usec = rt_usec now + uint usecs\<rparr>,
     to_eloop_data = d, to_user_data = u, to_handler = h\<rparr>"

lemma timeout_at_exact:
  assumes "time_ok now"
  shows "usecs_of (to_time (timeout_at now secs usecs h d u)) = usecs_of now + uint secs * 1000000 + uint usecs"
    and "rt_sec (to_time (timeout_at now secs usecs h d u)) < rt_sec now + uint secs + 4296"
    and "0 \<le> rt_sec (to_time (timeout_at now secs usecs h d u))"
proof -
  have b: "uint secs < 2 ^ 32" "uint usecs < 2 ^ 32" "0 \<le> uint secs" "0 \<le> uint usecs"
    using uint_bounded[of secs] uint_bounded[of usecs] by simp_all
  have w: "wrap_long (rt_sec now + uint secs) = rt_sec now + uint secs"
    by (rule wrap_add_u32[OF assms])
  have "rt_usec now + uint usecs < 4296 * 1000000" using b(2) assms by (simp add: time_ok_def)
  then have d: "(rt_usec now + uint usecs) div 1000000 < 4296" by linarith
  have n: "0 \<le> rt_usec now" "0 \<le> rt_sec now" "rt_sec now < 2 ^ 62" using assms by (simp_all add: time_ok_def)
  have p: "0 \<le> (rt_usec now + uint usecs) div 1000000" "0 \<le> rt_usec now + uint usecs" "0 \<le> rt_sec now + uint secs"
    using n b by (simp_all add: pos_imp_zdiv_nonneg_iff)
  have q: "rt_sec now + uint secs + (rt_usec now + uint usecs) div 1000000 < 2 ^ 63"
    using n(3) b(1) d by simp
  show "usecs_of (to_time (timeout_at now secs usecs h d u)) = usecs_of now + uint secs * 1000000 + uint usecs"
    and "rt_sec (to_time (timeout_at now secs usecs h d u)) < rt_sec now + uint secs + 4296"
    and "0 \<le> rt_sec (to_time (timeout_at now secs usecs h d u))"
    using norm_usec_exact[of "\<lparr>rt_sec = rt_sec now + uint secs, rt_usec = rt_usec now + uint usecs\<rparr>"] p q d
    by (auto simp: timeout_at_def w usecs_of_def algebra_simps)
qed

lemma eloop_register_timeout_char:
  assumes "time_ok now"
  shows "eloop_register_timeout True (Some now) secs usecs h d u e =
    (0, e\<lparr>timeouts := insert_timeout (timeout_at now secs usecs h d u) (timeouts e)\<rparr>)"
proof -
  have "\<not> rt_sec now + uint secs < rt_sec now" by simp
  then show ?thesis
    by (simp add: eloop_register_timeout_def Let_def timeout_at_def wrap_add_u32[OF assms])
qed

subsection \<open>What other modules do to the event loop\<close>

text \<open>
  The record is private to the module: a handler, or the program before the loop, changes it by calls of the interface
  only, and by signals that arrive meanwhile. The clock that a call reads is normalised.
\<close>

definition clock_ok :: "os_reltime option \<Rightarrow> bool" where
  "clock_ok c = (case c of None \<Rightarrow> True | Some t \<Rightarrow> 0 \<le> rt_usec t \<and> rt_usec t < 1000000)"

inductive eloop_call :: "eloop_data \<Rightarrow> eloop_data \<Rightarrow> bool" where
  register_timeout: "clock_ok c \<Longrightarrow> eloop_call e (snd (eloop_register_timeout ok c s us h d u e))"
| cancel_timeout: "eloop_call e (snd (eloop_cancel_timeout h d u e))"
| cancel_timeout_one: "eloop_call e (snd (snd (eloop_cancel_timeout_one h d u now e)))"
| deplete_timeout: "clock_ok c \<Longrightarrow> eloop_call e (snd (eloop_deplete_timeout now ok c s us h d u e))"
| replenish_timeout: "clock_ok c \<Longrightarrow> eloop_call e (snd (eloop_replenish_timeout now ok c s us h d u e))"
| register_sock: "eloop_register_sock ok sock ty h d u e = Ret (r, e') \<Longrightarrow> eloop_call e e'"
| unregister_sock: "eloop_call e (eloop_unregister_sock sock ty e)"
| register_signal: "eloop_call e (snd (eloop_register_signal ok sg h u e))"
| terminate_loop: "eloop_call e (eloop_terminate e)"
| signal_arrives: "eloop_call e (eloop_handle_signal sg e)"

definition uses_interface :: "'s handlers \<Rightarrow> bool" where
  "uses_interface H = (\<forall>f d u sg sock st.
     eloop_call\<^sup>*\<^sup>* (fst st) (fst (h_timeout H f d u st))
   \<and> eloop_call\<^sup>*\<^sup>* (fst st) (fst (h_sock H f sock d u st))
   \<and> eloop_call\<^sup>*\<^sup>* (fst st) (fst (h_signal H f sg u st)))"

text \<open>
  The invariant: timeouts are in order of time and normalised; \<open>count\<close> is the number of registered sockets; every registered
  socket is a descriptor not above \<open>max_sock\<close>, so \<open>select\<close> looks at all of them; a pending termination goes
  with a pending signal, so that it will be processed.
\<close>

definition socks_ok :: "int \<Rightarrow> eloop_sock_table \<Rightarrow> bool" where
  "socks_ok m t = (\<forall>x \<in> set (st_table t). 0 \<le> sk_sock x \<and> sk_sock x \<le> m)"

definition eloop_ok :: "eloop_data \<Rightarrow> bool" where
  "eloop_ok e = (sorted_wrt (\<lambda>a b. \<not> timeout_before b a) (timeouts e)
    \<and> (\<forall>t \<in> set (timeouts e). 0 \<le> rt_usec (to_time t) \<and> rt_usec (to_time t) < 1000000)
    \<and> ecount e = int (length (st_table (readers e)) + length (st_table (writers e)) + length (st_table (exceptions e)))
    \<and> socks_ok (max_sock e) (readers e) \<and> socks_ok (max_sock e) (writers e) \<and> socks_ok (max_sock e) (exceptions e)
    \<and> 0 \<le> signaled e \<and> (pending_terminate e \<longrightarrow> 0 < signaled e))"

lemma eloop_ok_init: "eloop_ok eloop_init"
  by (simp add: eloop_ok_def eloop_init_def socks_ok_def)

lemma length_del_sock: "list_ex (\<lambda>x. sk_sock x = s) xs \<Longrightarrow> length xs = Suc (length (del_sock s xs))"
  by (induction xs) auto

lemma set_del_sock: "set (del_sock s xs) \<subseteq> set xs"
  by (induction xs) auto

lemma ok_register_timeout:
  assumes "clock_ok c" and "eloop_ok e"
  shows "eloop_ok (snd (eloop_register_timeout ok c s us h d u e))"
  using assms norm_usec_usec
  by (auto simp: eloop_register_timeout_def Let_def eloop_ok_def clock_ok_def tq.ins_ordered split: option.splits)

lemma ok_cancel_timeout: "eloop_ok e \<Longrightarrow> eloop_ok (snd (eloop_cancel_timeout h d u e))"
  by (auto simp: eloop_cancel_timeout_char eloop_ok_def sorted_wrt_filter)

lemma sorted_wrt_remove1: "sorted_wrt P xs \<Longrightarrow> sorted_wrt P (remove1 x xs)"
  by (induction xs) (auto dest: in_set_remove1[THEN iffD1, rotated] set_remove1_subset[THEN subsetD])

lemma ok_cancel_timeout_one: "eloop_ok e \<Longrightarrow> eloop_ok (snd (snd (eloop_cancel_timeout_one h d u now e)))"
  by (auto simp: eloop_cancel_timeout_one_def cancel_one_loop_char eloop_ok_def sorted_wrt_remove1
      dest: set_remove1_subset[THEN subsetD] split: option.splits)

lemma ok_retime:
  assumes "clock_ok c" and "eloop_ok e"
  shows "eloop_ok (snd (retime w now ok c s us h d u e))"
  using assms by (auto simp: retime_def Let_def ok_register_timeout ok_cancel_timeout split: option.splits)

lemma socks_ok_mono: "socks_ok m t \<Longrightarrow> m \<le> m' \<Longrightarrow> socks_ok m' t"
  by (auto simp: socks_ok_def)

lemma socks_ok_add:
  "socks_ok m t \<Longrightarrow> 0 \<le> sk_sock x \<Longrightarrow> m \<le> m' \<Longrightarrow> sk_sock x \<le> m'
    \<Longrightarrow> socks_ok m' \<lparr>st_table = st_table t @ [x], st_changed = c\<rparr>"
  by (auto simp: socks_ok_def)

lemma ok_register_sock:
  assumes "eloop_register_sock ok sock ty h d u e = Ret (r, e')" and "eloop_ok e"
  shows "eloop_ok e'"
proof (cases ok)
  case True
  define m x where "m = (if sock > max_sock e then sock else max_sock e)"
    and "x = \<lparr>sk_sock = sock, sk_eloop_data = d, sk_user_data = u, sk_handler = h\<rparr>"
  have s: "0 \<le> sock" and e': "e' = (put_sock_table ty \<lparr>st_table = st_table (eloop_get_sock_table ty e) @ [x], st_changed = True\<rparr> e)
      \<lparr>max_sock := m, ecount := ecount e + 1\<rparr>"
    using assms(1) True
    by (auto simp: eloop_register_sock_def eloop_sock_table_add_sock_def new_max_sock_def Let_def m_def x_def split: if_splits)
  have m: "max_sock e \<le> m" "sk_sock x \<le> m" "0 \<le> sk_sock x" using s by (auto simp: m_def x_def)
  show ?thesis using assms(2)
    by (cases ty) (simp_all add: eloop_ok_def e' socks_ok_mono[OF _ m(1)] socks_ok_add[OF _ m(3,1,2)])
next
  case False
  then show ?thesis using assms
    by (auto simp: eloop_register_sock_def eloop_sock_table_add_sock_def Let_def split: if_splits)
qed

lemma ok_unregister_sock: "eloop_ok e \<Longrightarrow> eloop_ok (eloop_unregister_sock sock ty e)"
  using set_del_sock length_del_sock
  by (cases ty) (fastforce simp: eloop_unregister_sock_def eloop_sock_table_remove_sock_def Let_def eloop_ok_def socks_ok_def)+

lemma ok_handle_signal: "eloop_ok e \<Longrightarrow> eloop_ok (eloop_handle_signal sg e)"
  by (auto simp: eloop_handle_signal_def eloop_ok_def)

lemma eloop_call_ok: "eloop_call e e' \<Longrightarrow> eloop_ok e \<Longrightarrow> eloop_ok e'"
proof (induction rule: eloop_call.induct)
  case (register_signal e ok sg h u)
  then show ?case by (auto simp: eloop_register_signal_def eloop_ok_def)
next
  case (terminate_loop e)
  then show ?case by (simp add: eloop_terminate_def eloop_ok_def)
qed (simp_all add: ok_register_timeout ok_cancel_timeout ok_cancel_timeout_one ok_retime ok_register_sock
    ok_unregister_sock ok_handle_signal eloop_deplete_timeout_def eloop_replenish_timeout_def)

lemma eloop_calls_ok: "eloop_call\<^sup>*\<^sup>* e e' \<Longrightarrow> eloop_ok e \<Longrightarrow> eloop_ok e'"
  by (induction rule: rtranclp_induct) (auto intro: eloop_call_ok)

end
