(* ===== verification/EloopInv.thy ===== *)
theory EloopInv
  imports Eloop "HOL-Library.Sublist"
begin

text \<open>
  Correctness of the event loop: what a round keeps (whatever handlers do through the interface), that every round ends, that
  due timeouts fire in order, and that registering a timeout is exact.
\<close>

subsection \<open>Runs\<close>

text \<open>A call that leaves \<open>changed\<close> unset has left the table as it was.\<close>

lemma eloop_call_table:
  "eloop_call e e' \<Longrightarrow> \<not> st_changed (eloop_get_sock_table ty e') \<Longrightarrow> eloop_get_sock_table ty e' = eloop_get_sock_table ty e"
proof (induction rule: eloop_call.induct)
  case (register_sock ok sock ty' h d u e r e')
  then show ?case
    by (cases ty; cases ty') (auto simp: eloop_register_sock_def eloop_sock_table_add_sock_def Let_def split: if_splits)
next
  case (unregister_sock e sock ty')
  then show ?case
    by (cases ty; cases ty') (auto simp: eloop_unregister_sock_def eloop_sock_table_remove_sock_def Let_def split: if_splits)
qed (cases ty; auto simp: eloop_register_timeout_def eloop_cancel_timeout_char eloop_cancel_timeout_one_def
      eloop_deplete_timeout_def eloop_replenish_timeout_def retime_def eloop_register_signal_def eloop_terminate_def
      eloop_handle_signal_def Let_def split: option.splits prod.splits if_splits)+

lemma eloop_calls_table:
  "eloop_call\<^sup>*\<^sup>* e e' \<Longrightarrow> \<not> st_changed (eloop_get_sock_table ty e') \<Longrightarrow> eloop_get_sock_table ty e' = eloop_get_sock_table ty e"
  by (induction rule: rtranclp_induct) (auto dest: eloop_call_table)

lemma put_same_table: "eloop_get_sock_table ty (put_sock_table ty t e) = t"
  by (cases ty) auto

lemma ok_put_unchanged: "eloop_ok e \<Longrightarrow> eloop_ok (put_sock_table ty ((eloop_get_sock_table ty e)\<lparr>st_changed := False\<rparr>) e)"
  by (cases ty) (auto simp: eloop_ok_def socks_ok_def)

text \<open>
  \<open>fds_small\<close>: every registered descriptor fits an \<open>fd_set\<close>. \<open>keeps H I\<close>: the property \<open>I\<close> of the event loop and the
  program survives every socket and signal handler, and does not look at the bookkeeping of signals and changed tables.
\<close>

definition fds_small :: "eloop_data \<Rightarrow> bool" where
  "fds_small e = (\<forall>ty. \<forall>x \<in> set (st_table (eloop_get_sock_table ty e)). sk_sock x < FD_SETSIZE)"

definition keeps :: "'s handlers \<Rightarrow> (eloop_data \<times> 's \<Rightarrow> bool) \<Rightarrow> bool" where
  "keeps H I = (\<forall>f sock d u sg st e s. (I st \<longrightarrow> fds_small (fst st))
     \<and> (I st \<longrightarrow> I (h_sock H f sock d u st)) \<and> (I st \<longrightarrow> I (h_signal H f sg u st))
     \<and> (\<forall>ty c. I (e, s) \<longrightarrow> I (put_sock_table ty ((eloop_get_sock_table ty e)\<lparr>st_changed := c\<rparr>) e, s))
     \<and> (\<forall>gs n p. I (e, s) \<longrightarrow> I (e\<lparr>signals := gs, signaled := n, pending_terminate := p\<rparr>, s)))"

lemma keeps_rules:
  assumes "keeps H I"
  shows "I st \<Longrightarrow> fds_small (fst st)"
    and "I st \<Longrightarrow> I (h_sock H f sock d u st)" and "I st \<Longrightarrow> I (h_signal H f sg u st)"
    and "I st \<Longrightarrow> I (put_sock_table ty ((eloop_get_sock_table ty (fst st))\<lparr>st_changed := c\<rparr>) (fst st), snd st)"
    and "I (e, s) \<Longrightarrow> I (e\<lparr>signals := gs, signaled := n, pending_terminate := p\<rparr>, s)"
  using assms unfolding keeps_def by (blast, blast, blast, metis prod.collapse, blast)

lemma keeps_signals:
  assumes "keeps H I" and "I (e, s)"
  shows "I (e\<lparr>signaled := n\<rparr>, s)" and "I (e\<lparr>signaled := n, pending_terminate := p\<rparr>, s)" and "I (e\<lparr>signals := gs\<rparr>, s)"
    and "I (e\<lparr>signaled := n, signals := gs\<rparr>, s)"
    and "I (e\<lparr>pending_terminate := p, signaled := n, signals := gs\<rparr>, s)"
proof -
  have e: "I (e\<lparr>signals := gs', signaled := n', pending_terminate := p'\<rparr>, s)" for gs' n' p'
    using assms by (rule keeps_rules(5))
  show "I (e\<lparr>signaled := n\<rparr>, s)" using e[where gs' = "signals e" and n' = n and p' = "pending_terminate e"] by simp
  show "I (e\<lparr>signaled := n, pending_terminate := p\<rparr>, s)" using e[where gs' = "signals e" and n' = n and p' = p] by simp
  show "I (e\<lparr>signals := gs\<rparr>, s)" using e[where gs' = gs and n' = "signaled e" and p' = "pending_terminate e"] by simp
  have o: "e\<lparr>signaled := n, signals := gs\<rparr> = e\<lparr>signals := gs, signaled := n\<rparr>"
    "e\<lparr>pending_terminate := p, signaled := n, signals := gs\<rparr> = e\<lparr>signals := gs, signaled := n, pending_terminate := p\<rparr>"
    by simp_all
  show "I (e\<lparr>signaled := n, signals := gs\<rparr>, s)"
    unfolding o using e[where gs' = gs and n' = n and p' = "pending_terminate e"] by simp
  show "I (e\<lparr>pending_terminate := p, signaled := n, signals := gs\<rparr>, s)" unfolding o by (rule e)
qed

lemma keeps_handle_signals:
  assumes "keeps H I" and "I (e, s)" and "eloop_ok e"
  shows "I (fold eloop_handle_signal sgs e, s) \<and> eloop_ok (fold eloop_handle_signal sgs e)"
  using assms(2,3)
proof (induction sgs arbitrary: e)
  case (Cons sg sgs)
  have "I (eloop_handle_signal sg e, s)"
    using keeps_signals(4,5)[OF assms(1) Cons.prems(1)] by (simp add: eloop_handle_signal_def Let_def)
  then show ?case using Cons by (simp add: ok_handle_signal)
qed simp

lemma keeps_clear_changed:
  assumes "keeps H I" and "I (e, s)"
  shows "I (clear_changed e, s)"
proof -
  note P = keeps_rules(4)[OF assms(1), where c = False]
  have "I (e\<lparr>readers := (readers e)\<lparr>st_changed := False\<rparr>\<rparr>, s)" using P[OF assms(2), of EVENT_TYPE_READ] by simp
  from P[OF this, of EVENT_TYPE_WRITE]
  have "I (e\<lparr>readers := (readers e)\<lparr>st_changed := False\<rparr>, writers := (writers e)\<lparr>st_changed := False\<rparr>\<rparr>, s)" by simp
  from P[OF this, of EVENT_TYPE_EXCEPTION] show ?thesis by (simp add: clear_changed_def)
qed

lemma sock_range:
  assumes "eloop_ok e" and "fds_small e" and "x \<in> set (st_table (eloop_get_sock_table ty e))"
  shows "0 \<le> sk_sock x" and "sk_sock x < FD_SETSIZE"
proof -
  show "0 \<le> sk_sock x" using assms(1,3) by (cases ty) (simp_all add: eloop_ok_def socks_ok_def)
  show "sk_sock x < FD_SETSIZE" using assms(2,3) unfolding fds_small_def by blast
qed

lemma dispatch_loop_returns:
  assumes "uses_interface H" and "keeps H I" and "eloop_ok (fst st)" and "I st"
    and "\<not> st_changed (eloop_get_sock_table ty (fst st))"
  shows "\<exists>st'. dispatch_loop H ty fds i st = Some (Ret st') \<and> eloop_ok (fst st') \<and> I st'"
  using assms(3-5)
proof (induction "length (st_table (eloop_get_sock_table ty (fst st))) - i" arbitrary: i st rule: less_induct)
  case less
  let ?t = "st_table (eloop_get_sock_table ty (fst st))"
  show ?case
  proof (cases "i < length ?t")
    case True
    define st1 where "st1 = h_sock H (sk_handler (?t ! i)) (sk_sock (?t ! i)) (sk_eloop_data (?t ! i)) (sk_user_data (?t ! i)) st"
    have c: "eloop_call\<^sup>*\<^sup>* (fst st) (fst st1)" using assms(1) unfolding uses_interface_def st1_def by blast
    have ok1: "eloop_ok (fst st1)" "I st1"
      using c less.prems(1) eloop_calls_ok keeps_rules(2)[OF assms(2) less.prems(2)] by (auto simp: st1_def)
    have "sk_sock (?t ! i) < FD_SETSIZE" "0 \<le> sk_sock (?t ! i)"
      using sock_range[OF less.prems(1) keeps_rules(1)[OF assms(2) less.prems(2)] nth_mem[OF True]] by simp_all
    moreover have "\<not> st_changed (eloop_get_sock_table ty (fst st1)) \<Longrightarrow>
      \<exists>st'. dispatch_loop H ty fds (i + 1) st1 = Some (Ret st') \<and> eloop_ok (fst st') \<and> I st'"
      using less.hyps[of st1 "i + 1"] ok1 eloop_calls_table[OF c, of ty] True by simp
    moreover have "\<exists>st'. dispatch_loop H ty fds (i + 1) st = Some (Ret st') \<and> eloop_ok (fst st') \<and> I st'"
      using less.hyps[of st "i + 1"] less.prems True by simp
    ultimately show ?thesis using True ok1
      by (subst dispatch_loop.simps) (auto simp: Let_def st1_def[symmetric] simp del: split_paired_Ex)
  qed (use less.prems in \<open>auto simp: dispatch_loop.simps\<close>)
qed

lemma dispatch_returns:
  assumes "uses_interface H" and "keeps H I" and "eloop_ok (fst st)" and "I st"
  shows "\<exists>st'. eloop_sock_table_dispatch H ty fds st = Some (Ret st') \<and> eloop_ok (fst st') \<and> I st'"
  unfolding eloop_sock_table_dispatch_def
  by (rule dispatch_loop_returns[OF assms(1,2)])
    (simp_all add: assms ok_put_unchanged put_same_table keeps_rules(4)[OF assms(2,4)])

lemma dispatch_all_returns:
  assumes "uses_interface H" and "keeps H I" and "eloop_ok (fst st)" and "I st"
  shows "\<exists>st'. dispatch_all H rfds wfds efds st = Some (Ret st') \<and> eloop_ok (fst st') \<and> I st'"
proof -
  note D = dispatch_returns[OF assms(1,2)]
  obtain st1 where s1: "eloop_sock_table_dispatch H EVENT_TYPE_READ rfds st = Some (Ret st1)" "eloop_ok (fst st1)" "I st1"
    using D[OF assms(3,4)] by metis
  obtain st2 where s2: "eloop_sock_table_dispatch H EVENT_TYPE_WRITE wfds st1 = Some (Ret st2)" "eloop_ok (fst st2)" "I st2"
    using D[OF s1(2,3)] by metis
  show ?thesis using D[OF s2(2,3)] s1 s2 by (simp add: dispatch_all_def)
qed

text \<open>Processing signals ends when the signal handlers register no signals.\<close>

definition registers_no_signals :: "'s handlers \<Rightarrow> bool" where
  "registers_no_signals H = (\<forall>f sg u st. length (signals (fst (h_signal H f sg u st))) = length (signals (fst st)))"

lemma signals_loop_returns:
  assumes "uses_interface H" and "registers_no_signals H" and "keeps H I" and "eloop_ok (fst st)" and "I st"
  shows "\<exists>st'. signals_loop H i st = Some st' \<and> eloop_ok (fst st') \<and> I st'"
  using assms(4,5)
proof (induction "length (signals (fst st)) - i" arbitrary: i st rule: less_induct)
  case less
  show ?case
  proof (cases "i < length (signals (fst st))")
    case True
    let ?g = "signals (fst st) ! i"
    define e where "e = (fst st)\<lparr>signals := (signals (fst st))[i := ?g\<lparr>sg_signaled := 0\<rparr>]\<rparr>"
    define st1 where "st1 = h_signal H (sg_handler ?g) (sg_sig ?g) (sg_user_data ?g) (e, snd st)"
    have Ie: "I (e, snd st)" unfolding e_def using less.prems(2) by (intro keeps_signals(3)[OF assms(3)]) simp
    have "eloop_call\<^sup>*\<^sup>* e (fst st1)" using assms(1) unfolding uses_interface_def st1_def by (metis fst_conv)
    moreover have "eloop_ok e" using less.prems by (simp add: e_def eloop_ok_def)
    ultimately have ok1: "eloop_ok (fst st1)" by (rule eloop_calls_ok)
    have I1: "I st1" unfolding st1_def using Ie by (rule keeps_rules(3)[OF assms(3)])
    have len: "length (signals (fst st1)) = length (signals (fst st))"
      using assms(2) by (simp add: registers_no_signals_def st1_def e_def)
    have "\<exists>st'. signals_loop H (i + 1) st1 = Some st' \<and> eloop_ok (fst st') \<and> I st'"
      using less.hyps[of st1 "i + 1"] ok1 I1 len True by simp
    moreover have "\<exists>st'. signals_loop H (i + 1) st = Some st' \<and> eloop_ok (fst st') \<and> I st'"
      using less.hyps[of st "i + 1"] less.prems True by simp
    ultimately show ?thesis using True
      by (subst signals_loop.simps) (simp add: Let_def e_def[symmetric] st1_def[symmetric])
  qed (use less.prems in \<open>simp add: signals_loop.simps\<close>)
qed

lemma process_signals_returns:
  assumes "uses_interface H" and "registers_no_signals H" and "keeps H I" and "eloop_ok (fst st)" and "I st"
  shows "\<exists>st'. eloop_process_pending_signals H st = Some st' \<and> eloop_ok (fst st') \<and> I st'"
proof -
  note L = signals_loop_returns[OF assms(1-3)]
  have I: "I ((fst st)\<lparr>signaled := 0, pending_terminate := False\<rparr>, snd st)" "I ((fst st)\<lparr>signaled := 0\<rparr>, snd st)"
    using keeps_signals(1,2)[OF assms(3), of "fst st" "snd st"] assms(5) by simp_all
  have "eloop_ok ((fst st)\<lparr>signaled := 0, pending_terminate := False\<rparr>)"
    "\<not> pending_terminate (fst st) \<Longrightarrow> eloop_ok ((fst st)\<lparr>signaled := 0\<rparr>)"
    using assms(4) by (simp_all add: eloop_ok_def)
  then show ?thesis using assms I
    L[of "((fst st)\<lparr>signaled := 0, pending_terminate := False\<rparr>, snd st)" 0] L[of "((fst st)\<lparr>signaled := 0\<rparr>, snd st)" 0]
    by (auto simp: eloop_process_pending_signals_def Let_def simp del: split_paired_Ex)
qed

lemma run_first_timeout_ok:
  assumes "uses_interface H" and "eloop_ok (fst st)"
  shows "eloop_ok (fst (run_first_timeout H now st))"
proof (cases "timeouts (fst st)")
  case (Cons t ts)
  have "eloop_ok (eloop_remove_timeout 0 (fst st))"
    using assms(2) Cons by (simp add: eloop_ok_def eloop_remove_timeout_def)
  moreover have "eloop_call\<^sup>*\<^sup>* (eloop_remove_timeout 0 (fst st))
      (fst (h_timeout H (to_handler t) (to_eloop_data t) (to_user_data t) (eloop_remove_timeout 0 (fst st), snd st)))"
    using assms(1) unfolding uses_interface_def by (metis fst_conv)
  ultimately show ?thesis using assms(2) Cons eloop_calls_ok by (auto simp: run_first_timeout_def)
qed (use assms in \<open>simp add: run_first_timeout_def\<close>)

primrec flow_state :: "'a flow \<Rightarrow> 'a" where
  "flow_state (Continue st) = st"
| "flow_state (Break st) = st"
| "flow_state (Out st) = st"

text \<open>
  One round. \<open>I\<close> holds up to the moment when the first timeout is looked at, \<open>I'\<close> from there on. The round ends in the loop
  unless \<open>select\<close> fails or a handler of a pending signal has asked for termination.
\<close>

definition round_post :: "(eloop_data \<times> 's \<Rightarrow> bool) \<Rightarrow> (eloop_data \<times> 's \<Rightarrow> bool) \<Rightarrow> round_input \<Rightarrow> (eloop_data \<times> 's) flow \<Rightarrow> bool" where
  "round_post I I' inp fl = (eloop_ok (fst (flow_state fl)) \<and> (case fl of
       Continue st \<Rightarrow> I' st | Break st \<Rightarrow> I st \<and> terminate (fst st) | Out st \<Rightarrow> I st \<and> (\<exists>n r w x tv. ri_select inp n r w x tv = SelError)))"

lemma after_select_round:
  assumes "uses_interface H" and "registers_no_signals H" and "keeps H I" and "keeps H I'"
    and "\<And>st. I st \<Longrightarrow> eloop_ok (fst st) \<Longrightarrow> I' (run_first_timeout H now st)"
    and "eloop_ok (fst st)" and "I st"
  shows "\<exists>fl. after_select H (ri_select inp n r w x tv) now st = Some (Ret fl) \<and> round_post I I' inp fl"
proof (cases "ri_select inp n r w x tv = SelError")
  case False
  have "eloop_ok (clear_changed (fst st))" "I (clear_changed (fst st), snd st)"
    using assms(6,7) keeps_clear_changed[OF assms(3)] by (auto simp: clear_changed_def eloop_ok_def socks_ok_def)
  then obtain st1 where st1: "eloop_process_pending_signals H (clear_changed (fst st), snd st) = Some st1"
      "eloop_ok (fst st1)" "I st1"
    using process_signals_returns[OF assms(1-3), of "(clear_changed (fst st), snd st)"] by (metis fst_conv)
  define st2 where "st2 = run_first_timeout H now st1"
  have ok2: "eloop_ok (fst st2)" "I' st2"
    using run_first_timeout_ok[OF assms(1) st1(2)] assms(5)[OF st1(3,2)] by (simp_all add: st2_def)
  show ?thesis
  proof (cases "ri_select inp n r w x tv")
    case (SelReady rfds wfds efds)
    obtain st3 where "dispatch_all H rfds wfds efds st2 = Some (Ret st3)" "eloop_ok (fst st3)" "I' st3"
      using dispatch_all_returns[OF assms(1,4) ok2] by metis
    then show ?thesis using SelReady st1 ok2
      by (simp add: after_select_def st2_def[symmetric] round_post_def)
  qed (use False st1 ok2 in \<open>simp_all add: after_select_def st2_def round_post_def\<close>)
qed (use assms(6,7) in \<open>simp add: after_select_def round_post_def, blast\<close>)

lemma set_fds_small:
  assumes "eloop_ok e" and "fds_small e"
  shows "\<exists>fds. eloop_sock_table_set_fds (eloop_get_sock_table ty e) = Ret fds"
proof -
  have "\<forall>x \<in> set xs. 0 \<le> sk_sock x \<and> sk_sock x < FD_SETSIZE \<Longrightarrow> \<exists>r. set_fds_loop xs fds = Ret r" for xs fds
    by (induction xs arbitrary: fds) auto
  moreover have "\<forall>x \<in> set (st_table (eloop_get_sock_table ty e)). 0 \<le> sk_sock x \<and> sk_sock x < FD_SETSIZE"
    using sock_range[OF assms] by simp
  ultimately show ?thesis by (simp add: eloop_sock_table_set_fds_def)
qed

lemma eloop_round_good:
  assumes "uses_interface H" and "registers_no_signals H" and "keeps H I" and "keeps H I'"
    and "\<And>st. I st \<Longrightarrow> eloop_ok (fst st) \<Longrightarrow> I' (run_first_timeout H (ri_now2 inp) st)"
    and "eloop_ok (fst st)" and "I st"
  shows "\<exists>fl. eloop_round H inp st = Some (Ret fl) \<and> round_post I I' inp fl"
proof -
  obtain st1 where st1: "(if pending_terminate (fst st) then eloop_process_pending_signals H st else Some st) = Some st1"
    "eloop_ok (fst st1)" "I st1"
    using process_signals_returns[OF assms(1-3,6,7)] assms(6,7) by (cases "pending_terminate (fst st)") auto
  note small = set_fds_small[OF st1(2) keeps_rules(1)[OF assms(3) st1(3)]]
  obtain r w x where fds: "eloop_sock_table_set_fds (readers (fst st1)) = Ret r"
    "eloop_sock_table_set_fds (writers (fst st1)) = Ret w" "eloop_sock_table_set_fds (exceptions (fst st1)) = Ret x"
    using small[of EVENT_TYPE_READ] small[of EVENT_TYPE_WRITE] small[of EVENT_TYPE_EXCEPTION] by auto
  have "eloop_ok (fold eloop_handle_signal (ri_signals inp) (fst st1))" "I (fold eloop_handle_signal (ri_signals inp) (fst st1), snd st1)"
    using keeps_handle_signals[OF assms(3), of "fst st1" "snd st1"] st1 by simp_all
  then have "\<exists>fl. after_select H (ri_select inp n r w x tv) (ri_now2 inp) (fold eloop_handle_signal (ri_signals inp) (fst st1), snd st1)
      = Some (Ret fl) \<and> round_post I I' inp fl" for n r w x tv
    by (intro after_select_round[OF assms(1-5)]) simp_all
  then show ?thesis using st1 fds by (simp add: eloop_round_def round_post_def)
qed

subsection \<open>Correctness of the loop\<close>

text \<open>No handler registers a descriptor that does not fit an \<open>fd_set\<close>.\<close>

definition registers_small_fds :: "'s handlers \<Rightarrow> bool" where
  "registers_small_fds H = (\<forall>f sock d u sg st. fds_small (fst st) \<longrightarrow>
     fds_small (fst (h_timeout H f d u st)) \<and> fds_small (fst (h_sock H f sock d u st)) \<and> fds_small (fst (h_signal H f sg u st)))"

lemma fds_small_changed [simp]: "fds_small (put_sock_table ty ((eloop_get_sock_table ty e)\<lparr>st_changed := c\<rparr>) e) = fds_small e"
proof -
  have "st_table (eloop_get_sock_table ty' (put_sock_table ty ((eloop_get_sock_table ty e)\<lparr>st_changed := c\<rparr>) e))
      = st_table (eloop_get_sock_table ty' e)" for ty'
    by (cases ty; cases ty') auto
  then show ?thesis by (simp add: fds_small_def)
qed

lemma fds_small_other [simp]:
  "fds_small (e\<lparr>signals := gs, signaled := n, pending_terminate := p\<rparr>) = fds_small e"
  "fds_small (e\<lparr>timeouts := ts\<rparr>) = fds_small e" "fds_small (e\<lparr>terminate := b\<rparr>) = fds_small e"
proof -
  have "st_table (eloop_get_sock_table ty (e\<lparr>signals := gs, signaled := n, pending_terminate := p\<rparr>)) = st_table (eloop_get_sock_table ty e)"
    "st_table (eloop_get_sock_table ty (e\<lparr>timeouts := ts\<rparr>)) = st_table (eloop_get_sock_table ty e)"
    "st_table (eloop_get_sock_table ty (e\<lparr>terminate := b\<rparr>)) = st_table (eloop_get_sock_table ty e)" for ty
    by (cases ty; simp)+
  then show "fds_small (e\<lparr>signals := gs, signaled := n, pending_terminate := p\<rparr>) = fds_small e"
    "fds_small (e\<lparr>timeouts := ts\<rparr>) = fds_small e" "fds_small (e\<lparr>terminate := b\<rparr>) = fds_small e"
    by (simp_all add: fds_small_def)
qed

lemma keeps_fds_small: "registers_small_fds H \<Longrightarrow> keeps H (\<lambda>st. fds_small (fst st))"
  by (auto simp: keeps_def registers_small_fds_def)

lemma eloop_ok_terminate [simp]: "eloop_ok (e\<lparr>terminate := b\<rparr>) = eloop_ok e"
  by (simp add: eloop_ok_def)

lemma run_loop_good:
  assumes "uses_interface H" and "registers_no_signals H" and "registers_small_fds H"
    and "eloop_ok (fst st)" and "fds_small (fst st)"
  shows "\<exists>fl. run_loop H inps st = Some (Ret fl) \<and> eloop_ok (fst (flow_state fl)) \<and> fds_small (fst (flow_state fl))"
  using assms(4,5)
proof (induction inps arbitrary: st)
  case Nil
  then show ?case by (subst run_loop.simps) simp
next
  case (Cons inp inps)
  let ?I = "\<lambda>st. fds_small (fst st)"
  have run: "?I (run_first_timeout H now st)" if "?I st" for st now
    using that assms(3) by (auto simp: run_first_timeout_def registers_small_fds_def eloop_remove_timeout_def split: list.splits)
  obtain fl where fl: "eloop_round H inp st = Some (Ret fl)" "round_post ?I ?I inp fl"
    using eloop_round_good[OF assms(1,2) keeps_fds_small[OF assms(3)] keeps_fds_small[OF assms(3)], of inp st]
      run Cons.prems by blast
  show ?case using Cons fl
    by (subst run_loop.simps) (cases fl; auto simp: round_post_def simp del: split_paired_Ex)
qed

text \<open>
  C33. The event loop is robust against its clients. Start from any state the interface can produce; let handlers call the
  interface in any way, as long as no descriptor beyond \<open>FD_SETSIZE\<close> is registered and signal handlers register no
  signals. Then for every behaviour of the clock, of \<open>select\<close> and of signals every round ends, no assertion fails, no table or
  \<open>fd_set\<close> is accessed out of bounds, and the invariant holds: timeouts in order, counts right, \<open>max_sock\<close> an upper bound.
\<close>

theorem eloop_run_invariant:
  assumes "uses_interface H" and "registers_no_signals H" and "registers_small_fds H"
    and "eloop_call\<^sup>*\<^sup>* eloop_init e" and "fds_small e"
  shows "\<exists>fl. eloop_run malloc_ok H inps (e, s) = Some (Ret fl) \<and> eloop_ok (fst (flow_state fl))"
  using run_loop_good[OF assms(1-3), of "(e, s)" inps] eloop_calls_ok[OF assms(4) eloop_ok_init] assms(5)
  by (cases malloc_ok) (fastforce simp: eloop_run_def)+

definition tick_handlers :: "unit handlers" where
  "tick_handlers = \<lparr>h_timeout = (\<lambda>f d u st. (snd (eloop_register_timeout True (Some \<lparr>rt_sec = 10, rt_usec = 0\<rparr>) 1 0 f d u (fst st)), snd st)),
     h_sock = (\<lambda>f sock d u st. (eloop_unregister_read_sock sock (fst st), snd st)),
     h_signal = (\<lambda>f sg u st. (eloop_terminate (fst st), snd st))\<rparr>"

lemma small_unregister: "fds_small e \<Longrightarrow> fds_small (eloop_unregister_sock sock ty e)"
proof -
  have "st_table (eloop_get_sock_table ty' (eloop_unregister_sock sock ty e)) = st_table (eloop_get_sock_table ty' e)
      \<or> st_table (eloop_get_sock_table ty' (eloop_unregister_sock sock ty e)) = del_sock sock (st_table (eloop_get_sock_table ty' e))" for ty'
    by (cases ty; cases ty') (auto simp: eloop_unregister_sock_def eloop_sock_table_remove_sock_def Let_def)
  moreover assume "fds_small e"
  ultimately show ?thesis using set_del_sock unfolding fds_small_def by (metis subsetD)
qed

lemma tick_handlers_ok:
  "uses_interface tick_handlers" "registers_no_signals tick_handlers" "registers_small_fds tick_handlers"
proof -
  show "uses_interface tick_handlers"
    by (auto simp: uses_interface_def tick_handlers_def eloop_unregister_read_sock_def clock_ok_def
        intro!: r_into_rtranclp intro: eloop_call.register_timeout eloop_call.unregister_sock eloop_call.terminate_loop)
  show "registers_no_signals tick_handlers"
    by (simp add: registers_no_signals_def tick_handlers_def eloop_terminate_def)
  show "registers_small_fds tick_handlers"
    by (auto simp: registers_small_fds_def tick_handlers_def eloop_terminate_def eloop_unregister_read_sock_def
        small_unregister eloop_register_timeout_def Let_def)
qed

definition ticking :: eloop_data where
  "ticking = snd (eloop_register_timeout True (Some \<lparr>rt_sec = 5, rt_usec = 0\<rparr>) 3 0 7 1 2 eloop_init)"

theorem eloop_run_invariant_witness:
  "eloop_call\<^sup>*\<^sup>* eloop_init ticking \<and> fds_small ticking
   \<and> (\<exists>fl. eloop_run True tick_handlers [\<lparr>ri_now = \<lparr>rt_sec = 8, rt_usec = 0\<rparr>, ri_signals = [], ri_select = (\<lambda>_ _ _ _ _. SelTimeout),
        ri_now2 = \<lparr>rt_sec = 8, rt_usec = 1\<rparr>\<rparr>] (ticking, ()) = Some (Ret fl) \<and> eloop_ok (fst (flow_state fl)))"
proof -
  have c: "eloop_call\<^sup>*\<^sup>* eloop_init ticking"
    unfolding ticking_def by (rule r_into_rtranclp, rule eloop_call.register_timeout) (simp add: clock_ok_def)
  have f: "fds_small ticking"
  proof -
    have "eloop_get_sock_table ty ticking = \<lparr>st_table = [], st_changed = False\<rparr>" for ty
      by (cases ty) (simp_all add: ticking_def eloop_register_timeout_def eloop_init_def Let_def)
    then show ?thesis by (simp add: fds_small_def)
  qed
  show ?thesis using eloop_run_invariant[OF tick_handlers_ok c f] c f by blast
qed

subsection \<open>Timeouts fire\<close>

text \<open>A timeout is due at \<open>T\<close> when its time is not after \<open>T\<close>. The wrapper \<open>logged\<close> records which timeout handlers are called.\<close>

definition due :: "os_reltime \<Rightarrow> eloop_timeout \<Rightarrow> bool" where
  "due T t = (\<not> os_reltime_before T (to_time t))"

definition timeout_key :: "eloop_timeout \<Rightarrow> fn \<times> ptr \<times> ptr" where
  "timeout_key t = (to_handler t, to_eloop_data t, to_user_data t)"

definition with_log :: "(eloop_data \<times> 's \<Rightarrow> eloop_data \<times> 's) \<Rightarrow> 'l list \<Rightarrow> eloop_data \<times> 's \<times> 'l list \<Rightarrow> eloop_data \<times> 's \<times> 'l list" where
  "with_log f new st = (let r = f (fst st, fst (snd st)) in (fst r, snd r, snd (snd st) @ new))"

definition logged :: "'s handlers \<Rightarrow> ('s \<times> (fn \<times> ptr \<times> ptr) list) handlers" where
  "logged H = \<lparr>h_timeout = (\<lambda>f d u. with_log (h_timeout H f d u) [(f, d, u)]),
     h_sock = (\<lambda>f sock d u. with_log (h_sock H f sock d u) []),
     h_signal = (\<lambda>f sg u. with_log (h_signal H f sg u) [])\<rparr>"

text \<open>Handlers leave due timeouts alone: they neither cancel one nor put another before them, nor end the loop.\<close>

definition leaves_due :: "os_reltime \<Rightarrow> 's handlers \<Rightarrow> bool" where
  "leaves_due T H = (\<forall>f sock d u sg st. \<forall>r \<in> {h_timeout H f d u st, h_sock H f sock d u st, h_signal H f sg u st}.
     prefix (takeWhile (due T) (timeouts (fst st))) (timeouts (fst r)) \<and> (terminate (fst r) \<longrightarrow> terminate (fst st)))"

lemma logged_ok:
  "uses_interface H \<Longrightarrow> uses_interface (logged H)"
  "registers_no_signals H \<Longrightarrow> registers_no_signals (logged H)"
  by (simp_all add: logged_def with_log_def Let_def uses_interface_def registers_no_signals_def)

definition due_state :: "eloop_timeout list \<Rightarrow> (fn \<times> ptr \<times> ptr) list \<Rightarrow> eloop_data \<times> 's \<times> (fn \<times> ptr \<times> ptr) list \<Rightarrow> bool" where
  "due_state ts L st = (fds_small (fst st) \<and> \<not> terminate (fst st) \<and> prefix ts (timeouts (fst st)) \<and> snd (snd st) = L)"

lemma prefix_takeWhile: "prefix ts xs \<Longrightarrow> \<forall>t \<in> set ts. P t \<Longrightarrow> prefix ts (takeWhile P xs)"
  by (auto simp: prefix_def)

lemma leaves_due_step:
  assumes "leaves_due T H" and "registers_small_fds H" and "\<forall>t \<in> set ts. due T t"
    and "fds_small e" and "\<not> terminate e" and "prefix ts (timeouts e)"
    and "r \<in> {h_timeout H f d u (e, s), h_sock H f sock d u (e, s), h_signal H f sg u (e, s)}"
  shows "fds_small (fst r) \<and> \<not> terminate (fst r) \<and> prefix ts (timeouts (fst r))"
proof -
  have "prefix (takeWhile (due T) (timeouts e)) (timeouts (fst r)) \<and> (terminate (fst r) \<longrightarrow> terminate e)"
    using assms(1,7) unfolding leaves_due_def by (metis fst_conv)
  moreover have "fds_small (fst r)"
    using assms(2,4,7) unfolding registers_small_fds_def by (auto)
  ultimately show ?thesis using assms(5) prefix_takeWhile[OF assms(6,3)] prefix_order.trans by blast
qed

lemma keeps_due_state:
  assumes "leaves_due T H" and "registers_small_fds H" and "\<forall>t \<in> set ts. due T t"
  shows "keeps (logged H) (due_state ts L)"
proof -
  note S = leaves_due_step[OF assms]
  have "due_state ts L (with_log (h_sock H f sock d u) [] st)" if "due_state ts L st" for f sock d u st
    using S[of "fst st" "h_sock H f sock d u (fst st, fst (snd st))" f d u "fst (snd st)" sock] that
    by (simp add: due_state_def with_log_def Let_def)
  moreover have "due_state ts L (with_log (h_signal H f sg u) [] st)" if "due_state ts L st" for f sg u st
    using S[of "fst st" "h_signal H f sg u (fst st, fst (snd st))" f 0 u "fst (snd st)" 0 sg] that
    by (simp add: due_state_def with_log_def Let_def)
  moreover have "timeouts (put_sock_table ty t e) = timeouts e" "terminate (put_sock_table ty t e) = terminate e" for ty t e
    by (cases ty; simp)+
  ultimately show ?thesis unfolding keeps_def logged_def handlers.simps
    by (auto simp: due_state_def)
qed

lemma run_first_due:
  assumes "leaves_due T H" and "registers_small_fds H" and "\<forall>x \<in> set (t # ts). due T x"
    and "\<not> os_reltime_before now T" and "due_state (t # ts) L st"
  shows "due_state ts (L @ [timeout_key t]) (run_first_timeout (logged H) now st)"
proof -
  obtain rest where rest: "timeouts (fst st) = t # ts @ rest"
    using assms(5) by (auto simp: due_state_def prefix_def)
  have "\<not> os_reltime_before now (to_time t)"
    using assms(3,4) by (auto simp: due_def os_reltime_before_def)
  then have r: "run_first_timeout (logged H) now st =
      with_log (h_timeout H (to_handler t) (to_eloop_data t) (to_user_data t)) [timeout_key t]
        (eloop_remove_timeout 0 (fst st), snd st)"
    using rest by (simp add: run_first_timeout_def logged_def timeout_key_def)
  have "prefix ts (timeouts (eloop_remove_timeout 0 (fst st)))" using rest by (simp add: eloop_remove_timeout_def)
  moreover have "fds_small (eloop_remove_timeout 0 (fst st))" "\<not> terminate (eloop_remove_timeout 0 (fst st))"
    using assms(5) by (simp_all add: due_state_def eloop_remove_timeout_def)
  ultimately show ?thesis
    using leaves_due_step[OF assms(1,2), of ts "eloop_remove_timeout 0 (fst st)"
        "h_timeout H (to_handler t) (to_eloop_data t) (to_user_data t) (eloop_remove_timeout 0 (fst st), fst (snd st))"
        "to_handler t" "to_eloop_data t" "to_user_data t" "fst (snd st)"] assms(3,5)
    by (simp add: due_state_def r with_log_def Let_def)
qed

lemma run_due:
  assumes "uses_interface H" and "registers_no_signals H" and "registers_small_fds H" and "leaves_due T H"
    and "\<forall>inp \<in> set inps. (\<forall>n r w x tv. ri_select inp n r w x tv \<noteq> SelError) \<and> \<not> os_reltime_before (ri_now2 inp) T"
    and "\<forall>x \<in> set ts. due T x" and "length inps = length ts" and "eloop_ok (fst st)" and "due_state ts L st"
  shows "\<exists>fl. run_loop (logged H) inps st = Some (Ret fl) \<and> snd (snd (flow_state fl)) = L @ map timeout_key ts"
  using assms(5-9)
proof (induction inps arbitrary: ts L st)
  case Nil
  then show ?case by (subst run_loop.simps) (simp add: due_state_def)
next
  case (Cons inp inps)
  then obtain t ts' where ts: "ts = t # ts'" by (cases ts) auto
  have K: "keeps (logged H) (due_state ts L)" "keeps (logged H) (due_state ts' (L @ [timeout_key t]))"
    using Cons.prems(2) keeps_due_state[OF assms(4,3)] ts by auto
  have R: "due_state ts' (L @ [timeout_key t]) (run_first_timeout (logged H) (ri_now2 inp) st')" if "due_state ts L st'" for st'
    using run_first_due[OF assms(4,3)] Cons.prems(1,2) that ts by simp
  obtain fl where fl: "eloop_round (logged H) inp st = Some (Ret fl)"
    "round_post (due_state ts L) (due_state ts' (L @ [timeout_key t])) inp fl"
    using eloop_round_good[OF logged_ok(1)[OF assms(1)] logged_ok(2)[OF assms(2)] K R Cons.prems(4,5)] by blast
  obtain st' where st': "fl = Continue st'" "eloop_ok (fst st')" "due_state ts' (L @ [timeout_key t]) st'"
    using fl(2) Cons.prems(1) by (cases fl) (auto simp: round_post_def due_state_def)
  have "loop_condition (fst st)"
    using Cons.prems(5) ts by (auto simp: due_state_def loop_condition_def prefix_def)
  then show ?case using Cons.IH[OF _ _ _ st'(2,3)] Cons.prems(1-3) ts fl st'
    by (subst run_loop.simps) simp
qed

text \<open>
  Handlers that may do more: cancel timeouts, due ones too, and end the loop. They only must not leave more due timeouts than they found; what they
  register with the clock after \<open>T\<close> is not due at \<open>T\<close>.
\<close>

definition adds_no_due :: "os_reltime \<Rightarrow> 's handlers \<Rightarrow> bool" where
  "adds_no_due T H = (\<forall>f sock d u sg st. \<forall>r \<in> {h_timeout H f d u st, h_sock H f sock d u st, h_signal H f sg u st}.
     length (filter (due T) (timeouts (fst r))) \<le> length (filter (due T) (timeouts (fst st))))"

definition few_due :: "os_reltime \<Rightarrow> nat \<Rightarrow> eloop_data \<times> 's \<Rightarrow> bool" where
  "few_due T k st = (fds_small (fst st) \<and> length (filter (due T) (timeouts (fst st))) \<le> k)"

lemma adds_no_due_step:
  assumes "adds_no_due T H" and "registers_small_fds H" and "few_due T k st"
  shows "few_due T k (h_timeout H f d u st)" "few_due T k (h_sock H f sock d u st)" "few_due T k (h_signal H f sg u st)"
  using assms unfolding few_due_def registers_small_fds_def adds_no_due_def by (meson insertI1 insertI2 order_trans)+

lemma keeps_few_due:
  assumes "adds_no_due T H" and "registers_small_fds H"
  shows "keeps H (few_due T k)"
proof -
  have "timeouts (put_sock_table ty t e) = timeouts e" for ty t e by (cases ty) simp_all
  then show ?thesis unfolding keeps_def using adds_no_due_step[OF assms] by (auto simp: few_due_def)
qed

lemma run_first_few_due:
  assumes "adds_no_due T H" and "registers_small_fds H" and "\<not> os_reltime_before now T" and "eloop_ok (fst st)" and "few_due T (Suc k) st"
  shows "few_due T k (run_first_timeout H now st)"
proof (cases "timeouts (fst st)")
  case Nil
  then show ?thesis using assms(5) by (simp add: run_first_timeout_def few_due_def)
next
  case (Cons t ts)
  show ?thesis
  proof (cases "due T t")
    case True
    then have "\<not> os_reltime_before now (to_time t)" using assms(3) by (auto simp: due_def os_reltime_before_def)
    moreover have "few_due T k (eloop_remove_timeout 0 (fst st), snd st)"
      using assms(5) Cons True by (simp add: few_due_def eloop_remove_timeout_def)
    ultimately show ?thesis using adds_no_due_step(1)[OF assms(1,2)] Cons by (simp add: run_first_timeout_def)
  next
    case False
    then have "filter (due T) (timeouts (fst st)) = []"
      using assms(4) Cons by (fastforce simp: eloop_ok_def due_def timeout_before_def os_reltime_before_def filter_empty_conv)
    then have "few_due T k st" "few_due T k (eloop_remove_timeout 0 (fst st), snd st)"
      using assms(5) Cons by (simp_all add: few_due_def eloop_remove_timeout_def split: if_splits)
    then show ?thesis using adds_no_due_step(1)[OF assms(1,2)] Cons by (simp add: run_first_timeout_def)
  qed
qed

lemma run_few_due:
  assumes "uses_interface H" and "registers_no_signals H" and "registers_small_fds H" and "adds_no_due T H"
    and "\<forall>inp \<in> set inps. (\<forall>n r w x tv. ri_select inp n r w x tv \<noteq> SelError) \<and> \<not> os_reltime_before (ri_now2 inp) T"
    and "eloop_ok (fst st)" and "few_due T (length inps) st"
  shows "\<exists>st'. run_loop H inps st = Some (Ret (Break st')) \<or> run_loop H inps st = Some (Ret (Continue st')) \<and> filter (due T) (timeouts (fst st')) = []"
  using assms(5-7)
proof (induction inps arbitrary: st)
  case Nil
  then show ?case by (subst (1 2) run_loop.simps) (cases st; simp add: few_due_def)
next
  case (Cons inp inps)
  note K = keeps_few_due[OF assms(4,3)]
  have R: "few_due T (length inps) (run_first_timeout H (ri_now2 inp) st')" if "few_due T (length (inp # inps)) st'" "eloop_ok (fst st')" for st'
    using run_first_few_due[OF assms(4,3)] Cons.prems(1) that by simp
  obtain fl where fl: "eloop_round H inp st = Some (Ret fl)" "round_post (few_due T (length (inp # inps))) (few_due T (length inps)) inp fl"
    using eloop_round_good[OF assms(1,2) K K R Cons.prems(2,3)] by blast
  show ?case
  proof (cases fl)
    case (Continue st')
    with fl Cons.IH[of st'] Cons.prems(1) show ?thesis by (subst (1 2) run_loop.simps) (auto simp: round_post_def)
  next
    case (Break st')
    with fl show ?thesis by (subst (1 2) run_loop.simps) auto
  next
    case (Out st')
    with fl(2) Cons.prems(1) show ?thesis by (auto simp: round_post_def)
  qed
qed

text \<open>
  C34. No timeout is forgotten. Let \<open>n\<close> timeouts be due at time \<open>T\<close> and \<open>n\<close> rounds run at or after \<open>T\<close>, in which \<open>select\<close> does not fail; handlers use the interface only, their
  descriptors fit an \<open>fd_set\<close>, and signal handlers register no signals. First, if no handler leaves more due timeouts than it found (it may cancel
  due timeouts and ask for the end of the loop), then afterwards the loop has ended or none of the timeouts due at \<open>T\<close> is left. Second, if moreover no handler cancels a due timeout, puts
  one before it or ends the loop, then the rounds have called exactly the handlers of the due timeouts, with their data, in the order of their times (those of
  equal times as they were registered), whatever signals and socket events they handle besides; handlers may register and cancel timeouts that are not due.
\<close>

theorem eloop_due_timeouts_fire:
  assumes "uses_interface H" and "registers_no_signals H" and "registers_small_fds H"
    and "eloop_ok e" and "fds_small e" and "\<not> terminate e"
    and "length inps = length (filter (due T) (timeouts e))"
    and "\<forall>inp \<in> set inps. (\<forall>n r w x tv. ri_select inp n r w x tv \<noteq> SelError) \<and> \<not> os_reltime_before (ri_now2 inp) T"
  shows "(adds_no_due T H \<longrightarrow> (\<exists>st'. eloop_run True H inps (e, s) = Some (Ret (Break st'))
      \<or> eloop_run True H inps (e, s) = Some (Ret (Continue st')) \<and> filter (due T) (timeouts (fst st')) = []))
    \<and> (leaves_due T H \<longrightarrow> (\<exists>fl. eloop_run True (logged H) inps (e, s, []) = Some (Ret fl)
      \<and> snd (snd (flow_state fl)) = map timeout_key (filter (due T) (timeouts e))))"
proof (intro conjI impI)
  assume "adds_no_due T H"
  then show "\<exists>st'. eloop_run True H inps (e, s) = Some (Ret (Break st'))
      \<or> eloop_run True H inps (e, s) = Some (Ret (Continue st')) \<and> filter (due T) (timeouts (fst st')) = []"
    using run_few_due[OF assms(1-3) _ assms(8), of "(e, s)"] assms(4,5,7) by (simp add: eloop_run_def few_due_def)
next
  assume l: "leaves_due T H"
  have "filter (due T) (timeouts e) = takeWhile (due T) (timeouts e)"
    by (rule tq.due_prefix[symmetric])
      (use assms(4) in \<open>auto simp: eloop_ok_def due_def timeout_before_def os_reltime_before_def\<close>)
  then have "due_state (filter (due T) (timeouts e)) [] (e, s, [])"
    using assms(5,6) by (simp add: due_state_def takeWhile_is_prefix)
  then show "\<exists>fl. eloop_run True (logged H) inps (e, s, []) = Some (Ret fl)
      \<and> snd (snd (flow_state fl)) = map timeout_key (filter (due T) (timeouts e))"
    using run_due[OF assms(1-3) l assms(8) _ assms(7), of "(e, s, [])" "[]"] assms(4) by (simp add: eloop_run_def)
qed

text \<open>Registering a timeout after \<open>T\<close> is one of the things that \<open>leaves_due\<close> allows.\<close>

lemma register_leaves_due:
  assumes "time_ok now" and "os_reltime_before T (to_time (timeout_at now secs usecs h d u))"
  shows "prefix (takeWhile (due T) (timeouts e)) (timeouts (snd (eloop_register_timeout True (Some now) secs usecs h d u e)))"
proof -
  have "prefix (takeWhile (due T) ts) (insert_timeout t ts)" if "os_reltime_before T (to_time t)" for t ts
    using that by (induction ts) (auto simp: due_def os_reltime_before_def)
  then show ?thesis using assms by (simp add: eloop_register_timeout_char)
qed

text \<open>Handlers that register their timeout again, a second later, and give up a socket that is ready.\<close>

definition rearm_handlers :: "unit handlers" where
  "rearm_handlers = tick_handlers\<lparr>h_signal := (\<lambda>f sg u st. st)\<rparr>"

lemma rearm_handlers_ok:
  "uses_interface rearm_handlers" "registers_no_signals rearm_handlers" "registers_small_fds rearm_handlers"
  "leaves_due \<lparr>rt_sec = 9, rt_usec = 0\<rparr> rearm_handlers" "adds_no_due \<lparr>rt_sec = 9, rt_usec = 0\<rparr> rearm_handlers"
proof -
  show "uses_interface rearm_handlers" "registers_no_signals rearm_handlers" "registers_small_fds rearm_handlers"
    using tick_handlers_ok by (simp_all add: rearm_handlers_def uses_interface_def registers_no_signals_def registers_small_fds_def)
  let ?T = "\<lparr>rt_sec = 9, rt_usec = 0\<rparr>" and ?now = "\<lparr>rt_sec = 10, rt_usec = 0\<rparr>"
  have t: "time_ok ?now" "os_reltime_before ?T (to_time (timeout_at ?now 1 0 f d u))" for f d u
    by (simp add: time_ok_def) code_simp
  have reg: "prefix (takeWhile (due ?T) (timeouts e)) (timeouts (snd (eloop_register_timeout True (Some ?now) 1 0 f d u e)))" for e f d u
    by (rule register_leaves_due[OF t])
  have un: "timeouts (eloop_unregister_read_sock sock e) = timeouts e" "terminate (eloop_unregister_read_sock sock e) = terminate e" for sock e
    by (simp_all add: eloop_unregister_read_sock_def eloop_unregister_sock_def eloop_sock_table_remove_sock_def Let_def)
  have ends: "terminate (snd (eloop_register_timeout True (Some ?now) 1 0 f d u e)) = terminate e" for f d u e
    by (simp add: eloop_register_timeout_char[OF t(1)])
  have len: "length (filter (due ?T) (timeouts (snd (eloop_register_timeout True (Some ?now) 1 0 f d u e)))) = length (filter (due ?T) (timeouts e))" for f d u e
    using t(2)[of f d u] by (simp add: eloop_register_timeout_char[OF t(1)] tq.filter_ins_other due_def)
  show "leaves_due ?T rearm_handlers"
    unfolding leaves_due_def rearm_handlers_def tick_handlers_def handlers.simps using reg by (simp add: un ends takeWhile_is_prefix)
  show "adds_no_due ?T rearm_handlers"
    unfolding adds_no_due_def rearm_handlers_def tick_handlers_def handlers.simps by (simp add: un len)
qed

definition two_due :: eloop_data where
  "two_due = snd (eloop_register_timeout True (Some \<lparr>rt_sec = 5, rt_usec = 999999\<rparr>) 0 1 8 1 2
     (snd (eloop_register_timeout True (Some \<lparr>rt_sec = 5, rt_usec = 0\<rparr>) 90 0 7 1 2
     (snd (eloop_register_timeout True (Some \<lparr>rt_sec = 5, rt_usec = 0\<rparr>) 3 0 7 1 2 eloop_init)))))"

definition two_rounds :: "round_input list" where
  "two_rounds = replicate 2 \<lparr>ri_now = \<lparr>rt_sec = 9, rt_usec = 0\<rparr>, ri_signals = [2], ri_select = (\<lambda>_ _ _ _ _. SelTimeout), ri_now2 = \<lparr>rt_sec = 9, rt_usec = 1\<rparr>\<rparr>"

theorem eloop_due_timeouts_fire_witness:
  "(\<exists>fl. eloop_run True (logged rearm_handlers) two_rounds (two_due, (), []) = Some (Ret fl) \<and> snd (snd (flow_state fl)) = [(8, 1, 2), (7, 1, 2)])
   \<and> (\<exists>st'. eloop_run True rearm_handlers two_rounds (two_due, ()) = Some (Ret (Break st'))
      \<or> eloop_run True rearm_handlers two_rounds (two_due, ()) = Some (Ret (Continue st')) \<and> filter (due \<lparr>rt_sec = 9, rt_usec = 0\<rparr>) (timeouts (fst st')) = [])"
proof -
  have f: "fds_small two_due"
  proof -
    have "eloop_get_sock_table ty two_due = \<lparr>st_table = [], st_changed = False\<rparr>" for ty
      by (cases ty) (simp_all add: two_due_def eloop_register_timeout_def eloop_init_def Let_def)
    then show ?thesis by (simp add: fds_small_def)
  qed
  have e: "eloop_ok two_due" "\<not> terminate two_due" by code_simp+
  have d: "map timeout_key (filter (due \<lparr>rt_sec = 9, rt_usec = 0\<rparr>) (timeouts two_due)) = [(8, 1, 2), (7, 1, 2)]" by code_simp
  have l: "length two_rounds = length (filter (due \<lparr>rt_sec = 9, rt_usec = 0\<rparr>) (timeouts two_due))" by code_simp
  have i: "\<forall>inp \<in> set two_rounds. (\<forall>n r w x tv. ri_select inp n r w x tv \<noteq> SelError) \<and> \<not> os_reltime_before (ri_now2 inp) \<lparr>rt_sec = 9, rt_usec = 0\<rparr>"
    by (simp add: two_rounds_def os_reltime_before_def)
  show ?thesis using eloop_due_timeouts_fire[OF rearm_handlers_ok(1-3) e(1) f e(2) l i, of "()"] rearm_handlers_ok(4,5) d by simp
qed

text \<open>
  Registering a timeout is exact: it gets the time of the clock plus the delay, in microseconds without overflow, and goes
  behind every timeout that is not later and before every later one, which all stay as they were. From then on it is
  reported as registered, and cancelling it gives back the event loop as it was.
\<close>

lemma eloop_register_timeout_exact:
  assumes "eloop_ok e" and "time_ok now" and "e' = snd (eloop_register_timeout True (Some now) secs usecs h d u e)"
  shows "\<exists>t. timeouts e' = filter (\<lambda>x. \<not> timeout_before t x) (timeouts e) @ t # filter (timeout_before t) (timeouts e)
    \<and> usecs_of (to_time t) = usecs_of now + uint secs * 1000000 + uint usecs \<and> timeout_key t = (h, d, u)
    \<and> eloop_ok e' \<and> eloop_is_timeout_registered h d u e'
    \<and> (\<not> list_ex (cancel_matches h d u) (timeouts e) \<longrightarrow> eloop_cancel_timeout h d u e' = (1, e))"
proof -
  define t where "t = timeout_at now secs usecs h d u"
  have so: "tq.ordered (timeouts e)" using assms(1) by (simp add: eloop_ok_def)
  have e': "e' = e\<lparr>timeouts := insert_timeout t (timeouts e)\<rparr>"
    using assms(3) by (simp add: eloop_register_timeout_char[OF assms(2)] t_def)
  have key: "to_handler t = h" "to_eloop_data t = d" "to_user_data t = u" by (simp_all add: t_def timeout_at_def)
  have ok: "eloop_ok e'"
    using ok_register_timeout[OF _ assms(1)] assms(2,3) by (simp add: clock_ok_def time_ok_def)
  have c: "eloop_cancel_timeout h d u e' = (1, e)" if n: "\<not> list_ex (cancel_matches h d u) (timeouts e)"
  proof -
    have "filter (cancel_matches h d u) (timeouts e) = []" "filter (\<lambda>t. \<not> cancel_matches h d u t) (timeouts e) = timeouts e"
      using n by (simp_all add: list_ex_iff filter_empty_conv filter_id_conv)
    moreover have "cancel_matches h d u t" by (simp add: cancel_matches_def key)
    ultimately show ?thesis
      by (simp add: eloop_cancel_timeout_char e' tq.filter_ins[OF so] tq.filter_ins_other)
  qed
  show ?thesis
    by (rule exI[of _ t]) (use c ok in \<open>auto simp: e' tq.ins_stable[OF so] timeout_key_def key t_def[symmetric]
      timeout_at_exact(1)[OF assms(2), of secs usecs h d u, folded t_def] eloop_is_timeout_registered_def timeout_matches_def\<close>)
qed

text \<open>\<open>select\<close> is asked to wait exactly until the first timeout, and no timeout handler is called early.\<close>

lemma select_timeout_exact:
  assumes "time_ok now" and "\<forall>t \<in> set (timeouts e). time_ok (to_time t)"
  shows "select_timeout now e = None \<longleftrightarrow> timeouts e = []"
    and "select_timeout now e = Some tv \<Longrightarrow> usecs_of tv = max 0 (usecs_of (to_time (hd (timeouts e))) - usecs_of now)"
  using assms os_reltime_sub_exact(1)
  by (auto simp: select_timeout_def before_usecs max_def usecs_of_def[of "\<lparr>rt_sec = 0, rt_usec = 0\<rparr>"] split: list.splits if_splits)

lemma no_early_timeout:
  assumes "eloop_ok (fst st)" and "\<forall>t \<in> set (timeouts (fst st)). os_reltime_before now (to_time t)"
  shows "run_first_timeout H now st = st"
  using assms by (auto simp: run_first_timeout_def split: list.splits)

text \<open>\<open>eloop_deplete_timeout\<close> moves the only timeout of a handler to the earlier of its time and the requested one.\<close>

lemma deplete_timeout_earlier:
  assumes "eloop_ok e" and "time_ok now" and "filter (cancel_matches h d u) (timeouts e) = [t]" and "timeout_matches h d u t"
    and "time_ok (to_time t)" and "uint req_usecs < 1000000"
  shows "eloop_deplete_timeout now True (Some now) req_secs req_usecs h d u e =
    (if usecs_of now + uint req_secs * 1000000 + uint req_usecs < usecs_of (to_time t)
     then (1, e\<lparr>timeouts := insert_timeout (timeout_at now req_secs req_usecs h d u)
            (filter (\<lambda>x. \<not> cancel_matches h d u x) (timeouts e))\<rparr>)
     else (0, e))"
proof -
  have "t \<in> set (filter (cancel_matches h d u) (timeouts e))" using assms(3) by simp
  then have tin: "t \<in> set (timeouts e)" by simp
  have uniq: "x = t" if "x \<in> set (timeouts e)" "timeout_matches h d u x" for x
  proof -
    have "x \<in> set (filter (cancel_matches h d u) (timeouts e))"
      using that by (auto simp: cancel_matches_def timeout_matches_def)
    then show ?thesis using assms(3) by simp
  qed
  have f: "find (timeout_matches h d u) (timeouts e) = Some t"
  proof (cases "find (timeout_matches h d u) (timeouts e)")
    case None
    then show ?thesis using tin assms(4) by (simp add: find_None_iff)
  next
    case (Some x)
    then have "x \<in> set (timeouts e)" "timeout_matches h d u x" by (auto simp: find_Some_iff)
    then show ?thesis using uniq Some by metis
  qed
  let ?rem = "os_reltime_sub (to_time t) now" and ?req = "\<lparr>rt_sec = uint req_secs, rt_usec = uint req_usecs\<rparr>"
  have "os_reltime_before ?req ?rem \<longleftrightarrow> usecs_of ?req < usecs_of ?rem"
    by (rule before_usecs_norm) (use os_reltime_sub_exact(2,3)[OF assms(5,2)] assms(6) in simp_all)
  moreover have "usecs_of ?req = uint req_secs * 1000000 + uint req_usecs" by (simp add: usecs_of_def)
  ultimately have b: "os_reltime_before ?req ?rem \<longleftrightarrow> usecs_of now + uint req_secs * 1000000 + uint req_usecs < usecs_of (to_time t)"
    using os_reltime_sub_exact(1)[OF assms(5,2)] by linarith
  show ?thesis
    by (simp add: eloop_deplete_timeout_def retime_def f Let_def b eloop_cancel_timeout_char eloop_register_timeout_char[OF assms(2)])
qed

end
