(* ===== verification/Pmksa.thy ===== *)
theory Pmksa
  imports EloopInv
begin

text \<open>
  The PMKSA cache of the authenticator (\<open>src/ap/pmksa_cache_auth.c\<close>): pairwise master keys of stations that
  have authenticated before, in a list ordered by expiration and in 128 hash chains by PMKID, with one timeout of the
  event loop for the entry that expires first. An entry is a record with its address, which is what the code
  compares when it unlinks one; the members \<open>next\<close> and \<open>hnext\<close> are the order of the two lists. Calls of \<open>free_cb\<close> are
  recorded in \<open>pc_freed\<close>. The message authentication codes are parameters; the build has no Suite B.
\<close>

subsection \<open>Data\<close>

abbreviation PMKID_LEN :: nat where "PMKID_LEN \<equiv> 16"

abbreviation PMK_LEN :: nat where "PMK_LEN \<equiv> 32"

abbreviation ETH_ALEN :: nat where "ETH_ALEN \<equiv> 6"

abbreviation PMKID_HASH_SIZE :: nat where "PMKID_HASH_SIZE \<equiv> 128"

definition pmksa_cache_max_entries :: int where
  "pmksa_cache_max_entries = 1024"

definition dot11RSNAConfigPMKLifetime :: int where
  "dot11RSNAConfigPMKLifetime = 43200"

definition PMKID_HASH :: "bytes \<Rightarrow> nat" where
  "PMKID_HASH pmkid = unat (pmkid ! 0 AND 0x7f)"

record rsn_pmksa_cache_entry =
  pe_addr :: ptr
  pe_pmkid :: bytes
  pe_pmk :: bytes
  pe_pmk_len :: nat
  pe_expiration :: int
  pe_akmp :: u32
  pe_spa :: bytes
  pe_identity :: "bytes option"
  pe_cui :: "bytes option"
  pe_radius_class :: "bytes list option"
  pe_eap_type_authsrv :: u8
  pe_vlan_id :: int
  pe_opportunistic :: bool
  pe_acct_multi_session_id_hi :: u32
  pe_acct_multi_session_id_lo :: u32

record rsn_pmksa_cache =
  pc_self :: ptr
  pc_pmkid :: "rsn_pmksa_cache_entry list list"
  pc_pmksa :: "rsn_pmksa_cache_entry list"
  pc_count :: int
  pc_freed :: "rsn_pmksa_cache_entry list"

text \<open>What the cache reads and writes of an \<open>eapol_state_machine\<close> and of the station it belongs to.\<close>

record eapol_data =
  ed_identity :: "bytes option"
  ed_radius_cui :: "bytes option"
  ed_radius_class :: "bytes list option"
  ed_eap_type_authsrv :: u8
  ed_vlan_id :: int
  ed_acct_multi_session_id_hi :: u32
  ed_acct_multi_session_id_lo :: u32

text \<open>
  What the system grants: the allocations of a copy (for the class attributes the number that is granted, or none at all), and for a
  timeout the clock before it, its allocation and the clock in \<open>eloop_register_timeout\<close>.
\<close>

record copy_env =
  ce_identity :: bool
  ce_cui :: bool
  ce_class :: "nat option"

record timer_env =
  te_now :: os_reltime
  te_alloc :: bool
  te_clock :: "os_reltime option"

subsection \<open>PMKID\<close>

record hmacs =
  hmac_sha1_vector :: "bytes \<Rightarrow> bytes list \<Rightarrow> bytes"
  hmac_sha256_vector :: "bytes \<Rightarrow> bytes list \<Rightarrow> bytes"

definition PMK_Name :: bytes where
  "PMK_Name = [0x50, 0x4d, 0x4b, 0x20, 0x4e, 0x61, 0x6d, 0x65]"

definition rsn_pmkid :: "hmacs \<Rightarrow> bytes \<Rightarrow> bytes \<Rightarrow> bytes \<Rightarrow> bool \<Rightarrow> bytes" where
  "rsn_pmkid K pmk aa spa use_sha256 =
    take PMKID_LEN (if use_sha256 then hmac_sha256_vector K pmk [PMK_Name, aa, spa]
                    else hmac_sha1_vector K pmk [PMK_Name, aa, spa])"

definition wpa_key_mgmt_sha256 :: "u32 \<Rightarrow> bool" where
  "wpa_key_mgmt_sha256 akm = (bit akm 8 \<or> bit akm 7 \<or> bit akm 15 \<or> bit akm 16)"

definition wpa_key_mgmt_suite_b :: "u32 \<Rightarrow> bool" where
  "wpa_key_mgmt_suite_b akm = (bit akm 16 \<or> bit akm 17)"

text \<open>Without Suite B its two derivations fail and leave the PMKID as it was, which is zero.\<close>

definition entry_pmkid :: "hmacs \<Rightarrow> u32 \<Rightarrow> bytes \<Rightarrow> bytes \<Rightarrow> bytes \<Rightarrow> bytes" where
  "entry_pmkid K akmp pmk aa spa =
    (if wpa_key_mgmt_suite_b akmp then replicate PMKID_LEN 0
     else rsn_pmkid K pmk aa spa (wpa_key_mgmt_sha256 akmp))"

subsection \<open>Removing entries and expiration\<close>

primrec unlink :: "ptr \<Rightarrow> rsn_pmksa_cache_entry list \<Rightarrow> rsn_pmksa_cache_entry list" where
  "unlink a [] = []"
| "unlink a (x # xs) = (if pe_addr x = a then xs else x # unlink a xs)"

definition pmksa_cache_free_entry :: "rsn_pmksa_cache_entry \<Rightarrow> rsn_pmksa_cache \<Rightarrow> rsn_pmksa_cache" where
  "pmksa_cache_free_entry entry c =
    (let h = PMKID_HASH (pe_pmkid entry)
     in c\<lparr>pc_count := pc_count c - 1, pc_freed := pc_freed c @ [entry],
          pc_pmkid := (pc_pmkid c)[h := unlink (pe_addr entry) (pc_pmkid c ! h)],
          pc_pmksa := unlink (pe_addr entry) (pc_pmksa c)\<rparr>)"

definition pmksa_cache_expire_fn :: fn where
  "pmksa_cache_expire_fn = 1"

definition wrap_int :: "int \<Rightarrow> int" where
  "wrap_int x = (x + 2 ^ 31) mod 2 ^ 32 - 2 ^ 31"

definition pmksa_cache_set_expiration :: "timer_env \<Rightarrow> rsn_pmksa_cache \<Rightarrow> eloop_data \<Rightarrow> eloop_data" where
  "pmksa_cache_set_expiration T c e =
    (let e = snd (eloop_cancel_timeout pmksa_cache_expire_fn (pc_self c) 0 e)
     in case pc_pmksa c of
          [] \<Rightarrow> e
        | x # _ \<Rightarrow>
            let sec = wrap_int (pe_expiration x - rt_sec (te_now T));
                sec = (if sec < 0 then 0 else sec)
            in snd (eloop_register_timeout (te_alloc T) (te_clock T) (word_of_int (sec + 1)) 0
                     pmksa_cache_expire_fn (pc_self c) 0 e))"

lemma unlink_head_length: "xs \<noteq> [] \<Longrightarrow> length (unlink (pe_addr (hd xs)) xs) < length xs"
  by (cases xs) auto

function expire_loop :: "int \<Rightarrow> rsn_pmksa_cache \<Rightarrow> rsn_pmksa_cache" where
  "expire_loop now c =
    (if pc_pmksa c \<noteq> [] \<and> pe_expiration (hd (pc_pmksa c)) \<le> now
     then expire_loop now (pmksa_cache_free_entry (hd (pc_pmksa c)) c)
     else c)"
  by auto
termination
  by (relation "measure (\<lambda>(now, c). length (pc_pmksa c))")
    (auto simp: pmksa_cache_free_entry_def Let_def unlink_head_length)

declare expire_loop.simps [simp del]

definition pmksa_cache_expire ::
    "os_reltime \<Rightarrow> timer_env \<Rightarrow> rsn_pmksa_cache \<Rightarrow> eloop_data \<Rightarrow> rsn_pmksa_cache \<times> eloop_data" where
  "pmksa_cache_expire now T c e =
    (let c = expire_loop (rt_sec now) c in (c, pmksa_cache_set_expiration T c e))"

subsection \<open>Copying the data of a session\<close>

definition radius_copy_class :: "nat option \<Rightarrow> bytes list option \<Rightarrow> bytes list option \<Rightarrow> bytes list option" where
  "radius_copy_class granted dst src =
    (case src of
       None \<Rightarrow> dst
     | Some attrs \<Rightarrow> (case granted of None \<Rightarrow> None | Some n \<Rightarrow> Some (take n attrs)))"

definition pmksa_cache_from_eapol_data ::
    "copy_env \<Rightarrow> eapol_data option \<Rightarrow> rsn_pmksa_cache_entry \<Rightarrow> rsn_pmksa_cache_entry" where
  "pmksa_cache_from_eapol_data A eapol entry =
    (case eapol of
       None \<Rightarrow> entry
     | Some d \<Rightarrow>
         entry\<lparr>pe_identity := (if ed_identity d \<noteq> None \<and> ce_identity A then ed_identity d else pe_identity entry),
           pe_cui := (if ed_radius_cui d \<noteq> None then (if ce_cui A then ed_radius_cui d else None) else pe_cui entry),
           pe_radius_class := radius_copy_class (ce_class A) (pe_radius_class entry) (ed_radius_class d),
           pe_eap_type_authsrv := ed_eap_type_authsrv d, pe_vlan_id := ed_vlan_id d,
           pe_acct_multi_session_id_hi := ed_acct_multi_session_id_hi d,
           pe_acct_multi_session_id_lo := ed_acct_multi_session_id_lo d\<rparr>)"

definition pmksa_cache_to_eapol_data ::
    "copy_env \<Rightarrow> rsn_pmksa_cache_entry option \<Rightarrow> eapol_data option \<Rightarrow> eapol_data option" where
  "pmksa_cache_to_eapol_data A entry eapol =
    (case (entry, eapol) of
       (Some x, Some d) \<Rightarrow> Some
         (d\<lparr>ed_identity := (if pe_identity x \<noteq> None then (if ce_identity A then pe_identity x else None) else ed_identity d),
            ed_radius_cui := (if pe_cui x \<noteq> None then (if ce_cui A then pe_cui x else None) else ed_radius_cui d),
            ed_radius_class := radius_copy_class (ce_class A) None (pe_radius_class x),
            ed_eap_type_authsrv := pe_eap_type_authsrv x, ed_vlan_id := pe_vlan_id x,
            ed_acct_multi_session_id_hi := pe_acct_multi_session_id_hi x,
            ed_acct_multi_session_id_lo := pe_acct_multi_session_id_lo x\<rparr>)
     | _ \<Rightarrow> eapol)"

subsection \<open>Adding and finding entries\<close>

primrec insert_entry :: "rsn_pmksa_cache_entry \<Rightarrow> rsn_pmksa_cache_entry list \<Rightarrow> rsn_pmksa_cache_entry list" where
  "insert_entry x [] = [x]"
| "insert_entry x (y # ys) =
    (if pe_expiration y > pe_expiration x then x # y # ys else y # insert_entry x ys)"

definition pmksa_cache_link_entry ::
    "timer_env \<Rightarrow> rsn_pmksa_cache_entry \<Rightarrow> rsn_pmksa_cache \<Rightarrow> eloop_data \<Rightarrow> rsn_pmksa_cache \<times> eloop_data" where
  "pmksa_cache_link_entry T entry c e =
    (let first = (pc_pmksa c = [] \<or> pe_expiration (hd (pc_pmksa c)) > pe_expiration entry);
         h = PMKID_HASH (pe_pmkid entry);
         c = c\<lparr>pc_pmksa := insert_entry entry (pc_pmksa c), pc_pmkid := (pc_pmkid c)[h := entry # pc_pmkid c ! h],
               pc_count := pc_count c + 1\<rparr>
     in (c, if first then pmksa_cache_set_expiration T c e else e))"

definition pmksa_cache_auth_get :: "rsn_pmksa_cache \<Rightarrow> bytes option \<Rightarrow> bytes option \<Rightarrow> rsn_pmksa_cache_entry option" where
  "pmksa_cache_auth_get c spa pmkid =
    (case pmkid of
       Some p \<Rightarrow> find (\<lambda>x. (spa = None \<or> spa = Some (pe_spa x)) \<and> pe_pmkid x = p) (pc_pmkid c ! PMKID_HASH p)
     | None \<Rightarrow> find (\<lambda>x. spa = None \<or> spa = Some (pe_spa x)) (pc_pmksa c))"

definition new_entry ::
    "hmacs \<Rightarrow> copy_env \<Rightarrow> ptr \<Rightarrow> int \<Rightarrow> bytes \<Rightarrow> bytes \<Rightarrow> bytes \<Rightarrow> int \<Rightarrow> eapol_data option \<Rightarrow> u32 \<Rightarrow> rsn_pmksa_cache_entry" where
  "new_entry K A addr now_sec pmk aa spa session_timeout eapol akmp =
    pmksa_cache_from_eapol_data A eapol
      \<lparr>pe_addr = addr, pe_pmkid = entry_pmkid K akmp pmk aa spa,
       pe_pmk = pmk @ replicate (PMK_LEN - length pmk) 0, pe_pmk_len = length pmk,
       pe_expiration = now_sec + (if session_timeout > 0 then session_timeout else dot11RSNAConfigPMKLifetime),
       pe_akmp = akmp, pe_spa = spa, pe_identity = None, pe_cui = None, pe_radius_class = None,
       pe_eap_type_authsrv = 0, pe_vlan_id = 0, pe_opportunistic = False,
       pe_acct_multi_session_id_hi = 0, pe_acct_multi_session_id_lo = 0\<rparr>"

text \<open>The old entry of the same station is replaced, and the oldest entry is removed from a full cache.\<close>

definition replace_old :: "bytes \<Rightarrow> rsn_pmksa_cache \<Rightarrow> rsn_pmksa_cache" where
  "replace_old spa c =
    (case pmksa_cache_auth_get c (Some spa) None of
       None \<Rightarrow> c
     | Some pos \<Rightarrow> pmksa_cache_free_entry pos c)"

definition remove_oldest :: "rsn_pmksa_cache \<Rightarrow> rsn_pmksa_cache" where
  "remove_oldest c =
    (if pc_count c \<ge> pmksa_cache_max_entries \<and> pc_pmksa c \<noteq> []
     then pmksa_cache_free_entry (hd (pc_pmksa c)) c else c)"

text \<open>\<open>zalloc\<close> is the address of the new entry, or \<open>None\<close> when there is no memory.\<close>

definition pmksa_cache_auth_add ::
    "hmacs \<Rightarrow> copy_env \<Rightarrow> timer_env \<Rightarrow> ptr option \<Rightarrow> os_reltime \<Rightarrow> bytes \<Rightarrow> bytes option \<Rightarrow> bytes \<Rightarrow> bytes \<Rightarrow> int
     \<Rightarrow> eapol_data option \<Rightarrow> u32 \<Rightarrow> rsn_pmksa_cache \<Rightarrow> eloop_data \<Rightarrow> rsn_pmksa_cache_entry option \<times> rsn_pmksa_cache \<times> eloop_data" where
  "pmksa_cache_auth_add K A T zalloc now pmk kck aa spa session_timeout eapol akmp c e =
    (if length pmk > PMK_LEN then (None, c, e)
     else if wpa_key_mgmt_suite_b akmp \<and> kck = None then (None, c, e)
     else case zalloc of
       None \<Rightarrow> (None, c, e)
     | Some addr \<Rightarrow>
         let entry = new_entry K A addr (rt_sec now) pmk aa spa session_timeout eapol akmp;
             c = replace_old spa c;
             c = remove_oldest c;
             (c, e) = pmksa_cache_link_entry T entry c e
         in (Some entry, c, e))"

definition okc_entry ::
    "copy_env \<Rightarrow> ptr \<Rightarrow> rsn_pmksa_cache_entry \<Rightarrow> bytes \<Rightarrow> rsn_pmksa_cache_entry" where
  "okc_entry A addr old pmkid =
    \<lparr>pe_addr = addr, pe_pmkid = pmkid,
     pe_pmk = take (pe_pmk_len old) (pe_pmk old) @ replicate (PMK_LEN - pe_pmk_len old) 0, pe_pmk_len = pe_pmk_len old,
     pe_expiration = pe_expiration old, pe_akmp = pe_akmp old, pe_spa = pe_spa old,
     pe_identity = (if pe_identity old \<noteq> None \<and> ce_identity A then pe_identity old else None),
     pe_cui = (if pe_cui old \<noteq> None \<and> ce_cui A then pe_cui old else None),
     pe_radius_class = radius_copy_class (ce_class A) None (pe_radius_class old),
     pe_eap_type_authsrv = pe_eap_type_authsrv old, pe_vlan_id = pe_vlan_id old, pe_opportunistic = True,
     pe_acct_multi_session_id_hi = 0, pe_acct_multi_session_id_lo = 0\<rparr>"

definition pmksa_cache_add_okc ::
    "copy_env \<Rightarrow> timer_env \<Rightarrow> ptr option \<Rightarrow> rsn_pmksa_cache_entry \<Rightarrow> bytes \<Rightarrow> rsn_pmksa_cache \<Rightarrow> eloop_data
     \<Rightarrow> rsn_pmksa_cache_entry option \<times> rsn_pmksa_cache \<times> eloop_data" where
  "pmksa_cache_add_okc A T zalloc old pmkid c e =
    (case zalloc of
       None \<Rightarrow> (None, c, e)
     | Some addr \<Rightarrow>
         let entry = okc_entry A addr old pmkid;
             (c, e) = pmksa_cache_link_entry T entry c e
         in (Some entry, c, e))"

definition pmksa_cache_get_okc ::
    "hmacs \<Rightarrow> rsn_pmksa_cache \<Rightarrow> bytes \<Rightarrow> bytes \<Rightarrow> bytes \<Rightarrow> rsn_pmksa_cache_entry option" where
  "pmksa_cache_get_okc K c aa spa pmkid =
    find (\<lambda>x. pe_spa x = spa
            \<and> rsn_pmkid K (take (pe_pmk_len x) (pe_pmk x)) aa spa (wpa_key_mgmt_sha256 (pe_akmp x)) = pmkid) (pc_pmksa c)"

definition pmksa_cache_auth_init :: "ptr \<Rightarrow> rsn_pmksa_cache" where
  "pmksa_cache_auth_init self =
    \<lparr>pc_self = self, pc_pmkid = replicate PMKID_HASH_SIZE [], pc_pmksa = [], pc_count = 0, pc_freed = []\<rparr>"

text \<open>Everything is freed without \<open>free_cb\<close>, and then the cache itself.\<close>

definition pmksa_cache_auth_deinit :: "rsn_pmksa_cache \<Rightarrow> eloop_data \<Rightarrow> eloop_data" where
  "pmksa_cache_auth_deinit c e = snd (eloop_cancel_timeout pmksa_cache_expire_fn (pc_self c) 0 e)"

subsection \<open>Disconnection by a RADIUS server\<close>

record radius_das_attrs =
  da_sta_addr :: "bytes option"
  da_user_name :: "bytes option"
  da_acct_session_id :: "bytes option"
  da_acct_multi_session_id :: "bytes option"
  da_cui :: "bytes option"

definition hex_digit :: "nat \<Rightarrow> u8" where
  "hex_digit n = (if n < 10 then 0x30 + of_nat n else 0x41 + of_nat (n - 10))"

text \<open>\<open>%08X\<close>\<close>

definition hex8 :: "u32 \<Rightarrow> bytes" where
  "hex8 x = map (\<lambda>i. hex_digit (unat (drop_bit (4 * i) x) mod 16)) [7, 6, 5, 4, 3, 2, 1, 0]"

definition das_attr_match :: "rsn_pmksa_cache_entry \<Rightarrow> radius_das_attrs \<Rightarrow> nat" where
  "das_attr_match entry attr =
    (if da_sta_addr attr \<noteq> None \<and> da_sta_addr attr \<noteq> Some (pe_spa entry) then 0
     else if da_acct_multi_session_id attr \<noteq> None
       \<and> da_acct_multi_session_id attr \<noteq> Some (hex8 (pe_acct_multi_session_id_hi entry) @ [0x2b] @ hex8 (pe_acct_multi_session_id_lo entry)) then 0
     else if da_cui attr \<noteq> None \<and> da_cui attr \<noteq> pe_cui entry then 0
     else if da_user_name attr \<noteq> None \<and> da_user_name attr \<noteq> pe_identity entry then 0
     else (if da_sta_addr attr \<noteq> None then 1 else 0) + (if da_acct_multi_session_id attr \<noteq> None then 1 else 0)
        + (if da_cui attr \<noteq> None then 1 else 0) + (if da_user_name attr \<noteq> None then 1 else 0))"

text \<open>The loop walks along the entries; the successor is read before an entry is freed.\<close>

primrec das_loop ::
    "radius_das_attrs \<Rightarrow> rsn_pmksa_cache_entry list \<Rightarrow> int \<Rightarrow> rsn_pmksa_cache \<Rightarrow> int \<times> rsn_pmksa_cache" where
  "das_loop attr [] found c = (found, c)"
| "das_loop attr (x # xs) found c =
    (if das_attr_match x attr \<noteq> 0 then das_loop attr xs (found + 1) (pmksa_cache_free_entry x c)
     else das_loop attr xs found c)"

definition pmksa_cache_auth_radius_das_disconnect ::
    "radius_das_attrs \<Rightarrow> rsn_pmksa_cache \<Rightarrow> int \<times> rsn_pmksa_cache" where
  "pmksa_cache_auth_radius_das_disconnect attr c =
    (if da_acct_session_id attr \<noteq> None then (-1, c)
     else let (found, c) = das_loop attr (pc_pmksa c) 0 c
          in (if found \<noteq> 0 then 0 else -1, c))"

subsection \<open>The invariant\<close>

definition expires_before :: "rsn_pmksa_cache_entry \<Rightarrow> rsn_pmksa_cache_entry \<Rightarrow> bool" where
  "expires_before x y = (pe_expiration x < pe_expiration y)"

interpretation pq: stable_queue expires_before insert_entry
  by unfold_locales (auto simp: expires_before_def)

text \<open>
  The list is in order of expiration, its entries have different addresses, a hash chain holds exactly the entries of its hash
  value, and the count is the length of the list.
\<close>

definition chain_of :: "rsn_pmksa_cache_entry list \<Rightarrow> nat \<Rightarrow> rsn_pmksa_cache_entry list \<Rightarrow> bool" where
  "chain_of ys h xs = (distinct (map pe_addr ys) \<and> set ys = {x \<in> set xs. PMKID_HASH (pe_pmkid x) = h})"

definition cache_ok :: "rsn_pmksa_cache \<Rightarrow> bool" where
  "cache_ok c = (sorted_wrt (\<lambda>x y. \<not> expires_before y x) (pc_pmksa c) \<and> distinct (map pe_addr (pc_pmksa c))
    \<and> length (pc_pmkid c) = PMKID_HASH_SIZE
    \<and> (\<forall>h < PMKID_HASH_SIZE. chain_of (pc_pmkid c ! h) h (pc_pmksa c))
    \<and> pc_count c = int (length (pc_pmksa c)))"

lemma PMKID_HASH_less [simp]: "PMKID_HASH p < PMKID_HASH_SIZE"
proof -
  have "p ! 0 AND 0x7f \<le> 0x7f" by (rule word_and_le1)
  then show ?thesis by (simp add: PMKID_HASH_def word_le_nat_alt)
qed

lemma cache_ok_init: "cache_ok (pmksa_cache_auth_init self)"
  by (simp add: cache_ok_def chain_of_def pmksa_cache_auth_init_def)

lemma unlink_filter: "distinct (map pe_addr xs) \<Longrightarrow> unlink a xs = filter (\<lambda>x. pe_addr x \<noteq> a) xs"
proof (induction xs)
  case (Cons y ys)
  then show ?case by (auto simp: image_iff intro!: filter_True[symmetric])
qed simp

lemma same_addr: "distinct (map pe_addr xs) \<Longrightarrow> x \<in> set xs \<Longrightarrow> y \<in> set xs \<Longrightarrow> pe_addr x = pe_addr y \<longleftrightarrow> x = y"
  by (auto simp: distinct_map inj_on_def)

lemma remove_entry:
  assumes "distinct (map pe_addr xs)" and "x \<in> set xs"
  shows "unlink (pe_addr x) xs = filter (\<lambda>y. y \<noteq> x) xs"
  unfolding unlink_filter[OF assms(1)]
  by (rule filter_cong[OF refl]) (use same_addr[OF assms] in metis)

lemma free_entry_list:
  assumes "cache_ok c" and "x \<in> set (pc_pmksa c)"
  shows "pc_pmksa (pmksa_cache_free_entry x c) = filter (\<lambda>y. y \<noteq> x) (pc_pmksa c)"
  using assms remove_entry by (simp add: pmksa_cache_free_entry_def Let_def cache_ok_def)

lemma length_filter_neq: "distinct xs \<Longrightarrow> x \<in> set xs \<Longrightarrow> length xs = Suc (length (filter (\<lambda>y. y \<noteq> x) xs))"
proof (induction xs)
  case (Cons y ys)
  show ?case
  proof (cases "y = x")
    case True
    then have "filter (\<lambda>z. z \<noteq> x) ys = ys" using Cons.prems by (auto intro: filter_True)
    then show ?thesis using True by simp
  qed (use Cons in simp)
qed simp

lemma free_entry_ok:
  assumes "cache_ok c" and "x \<in> set (pc_pmksa c)"
  shows "cache_ok (pmksa_cache_free_entry x c)"
proof -
  let ?xs = "pc_pmksa c" and ?h = "PMKID_HASH (pe_pmkid x)"
  have d: "distinct (map pe_addr ?xs)" and len: "length (pc_pmkid c) = PMKID_HASH_SIZE"
    and ch: "\<And>h. h < PMKID_HASH_SIZE \<Longrightarrow> chain_of (pc_pmkid c ! h) h ?xs"
    using assms by (auto simp: cache_ok_def)
  have "chain_of (((pc_pmkid c)[?h := unlink (pe_addr x) (pc_pmkid c ! ?h)]) ! h) h (filter (\<lambda>y. y \<noteq> x) ?xs)"
    if "h < PMKID_HASH_SIZE" for h
  proof (cases "h = ?h")
    case True
    have "x \<in> set (pc_pmkid c ! ?h)" using ch[of ?h] assms(2) by (simp add: chain_of_def)
    then have "unlink (pe_addr x) (pc_pmkid c ! ?h) = filter (\<lambda>y. y \<noteq> x) (pc_pmkid c ! ?h)"
      using ch[of ?h] remove_entry by (simp add: chain_of_def)
    then show ?thesis using ch[OF that] True len
      by (auto simp: chain_of_def distinct_map inj_on_def)
  next
    case False
    then show ?thesis using ch[OF that] by (auto simp: chain_of_def)
  qed
  moreover have "int (length ?xs) - 1 = int (length (filter (\<lambda>y. y \<noteq> x) ?xs))"
    using length_filter_neq[of ?xs x] d assms(2) by (simp add: distinct_map)
  moreover have "distinct (map pe_addr (filter (\<lambda>y. y \<noteq> x) ?xs))" using d by (auto simp: distinct_map inj_on_def)
  ultimately show ?thesis using assms(1) len free_entry_list[OF assms]
    by (auto simp: cache_ok_def pmksa_cache_free_entry_def Let_def sorted_wrt_filter)
qed

lemma expire_loop_char:
  assumes "cache_ok c"
  shows "cache_ok (expire_loop now c)
    \<and> pc_pmksa (expire_loop now c) = filter (\<lambda>x. now < pe_expiration x) (pc_pmksa c)
    \<and> pc_freed (expire_loop now c) = pc_freed c @ filter (\<lambda>x. pe_expiration x \<le> now) (pc_pmksa c)
    \<and> pc_self (expire_loop now c) = pc_self c"
  using assms
proof (induction now c rule: expire_loop.induct)
  case (1 now c)
  show ?case
  proof (cases "pc_pmksa c \<noteq> [] \<and> pe_expiration (hd (pc_pmksa c)) \<le> now")
    case True
    then obtain x xs where xs: "pc_pmksa c = x # xs" "pe_expiration x \<le> now" by (cases "pc_pmksa c") auto
    have "x \<notin> set xs" using 1(2) xs by (auto simp: cache_ok_def)
    then have f: "pc_pmksa (pmksa_cache_free_entry x c) = xs" "pc_freed (pmksa_cache_free_entry x c) = pc_freed c @ [x]"
        "pc_self (pmksa_cache_free_entry x c) = pc_self c"
      using xs by (auto simp: pmksa_cache_free_entry_def Let_def)
    have "cache_ok (pmksa_cache_free_entry x c)" using 1(2) xs by (intro free_entry_ok) simp_all
    then show ?thesis using 1(1)[OF True] True xs f by (subst (1 2 3 4) expire_loop.simps) simp
  next
    case False
    have "\<forall>x \<in> set (pc_pmksa c). now < pe_expiration x"
      using False 1(2) by (cases "pc_pmksa c") (auto simp: cache_ok_def expires_before_def)
    then have "filter (\<lambda>x. now < pe_expiration x) (pc_pmksa c) = pc_pmksa c"
        "filter (\<lambda>x. pe_expiration x \<le> now) (pc_pmksa c) = []"
      by (auto simp: filter_empty_conv intro: filter_True)
    moreover have "expire_loop now c = c" using False by (subst expire_loop.simps) auto
    ultimately show ?thesis using 1(2) by simp
  qed
qed

lemma link_entry_cache:
  assumes "cache_ok c" and "pe_addr x \<notin> pe_addr ` set (pc_pmksa c)"
  shows "cache_ok (fst (pmksa_cache_link_entry T x c e))"
    and "pc_pmksa (fst (pmksa_cache_link_entry T x c e)) = insert_entry x (pc_pmksa c)"
proof -
  let ?h = "PMKID_HASH (pe_pmkid x)" and ?xs = "pc_pmksa c"
  have ch: "chain_of (pc_pmkid c ! h) h ?xs" if "h < PMKID_HASH_SIZE" for h using assms(1) that by (simp add: cache_ok_def)
  have "chain_of (((pc_pmkid c)[?h := x # pc_pmkid c ! ?h]) ! h) h (insert_entry x ?xs)" if "h < PMKID_HASH_SIZE" for h
    using ch[OF that] assms that by (cases "h = ?h") (auto simp: chain_of_def cache_ok_def)
  moreover have "distinct (map pe_addr (insert_entry x ?xs))"
  proof -
    have "distinct (map pe_addr (insert_entry x ys))" if "distinct (map pe_addr ys)" "pe_addr x \<notin> pe_addr ` set ys" for ys
      using that by (induction ys) auto
    then show ?thesis using assms by (simp add: cache_ok_def)
  qed
  ultimately show "cache_ok (fst (pmksa_cache_link_entry T x c e))"
    using assms(1) by (simp add: pmksa_cache_link_entry_def Let_def cache_ok_def pq.ins_ordered)
  show "pc_pmksa (fst (pmksa_cache_link_entry T x c e)) = insert_entry x (pc_pmksa c)"
    by (simp add: pmksa_cache_link_entry_def Let_def)
qed

lemma das_loop_char:
  assumes "cache_ok c" and "set xs \<subseteq> set (pc_pmksa c)" and "distinct xs"
  shows "cache_ok (snd (das_loop attr xs n c))
    \<and> pc_pmksa (snd (das_loop attr xs n c)) = filter (\<lambda>x. x \<notin> set xs \<or> das_attr_match x attr = 0) (pc_pmksa c)
    \<and> fst (das_loop attr xs n c) = n + int (length (filter (\<lambda>x. das_attr_match x attr \<noteq> 0) xs))
    \<and> pc_self (snd (das_loop attr xs n c)) = pc_self c"
  using assms
proof (induction xs arbitrary: n c)
  case (Cons x xs)
  show ?case
  proof (cases "das_attr_match x attr = 0")
    case False
    have x: "x \<in> set (pc_pmksa c)" using Cons.prems by simp
    note f = free_entry_list[OF Cons.prems(1) x] free_entry_ok[OF Cons.prems(1) x]
    have s: "pc_self (pmksa_cache_free_entry x c) = pc_self c" by (simp add: pmksa_cache_free_entry_def Let_def)
    have "set xs \<subseteq> set (pc_pmksa (pmksa_cache_free_entry x c))" using Cons.prems f(1) by auto
    from Cons.IH[OF f(2) this, of "n + 1"] Cons.prems(3) False show ?thesis
      by (auto simp: f(1) s intro: filter_cong)
  qed (use Cons in \<open>auto intro: filter_cong\<close>)
qed simp

end
