(* ===== verification/PmksaInv.thy ===== *)
theory PmksaInv
  imports Pmksa
begin

text \<open>
  Correctness of the PMKSA cache together with the event loop: every history keeps list, hash chains and count consistent and
  the first expiration covered by a timeout; what is added is found; expiration frees exactly the expired entries.
\<close>

subsection \<open>The timeout of the cache\<close>

definition own_timeout :: "rsn_pmksa_cache \<Rightarrow> eloop_timeout \<Rightarrow> bool" where
  "own_timeout c t = timeout_matches pmksa_cache_expire_fn (pc_self c) 0 t"

text \<open>The first entry to expire has a timeout at most a second after its expiration (or after \<open>now\<close>, when that is later).\<close>

definition covered :: "int \<Rightarrow> rsn_pmksa_cache \<Rightarrow> eloop_data \<Rightarrow> bool" where
  "covered now c e = (pc_pmksa c \<noteq> [] \<longrightarrow> (\<exists>t \<in> set (timeouts e). own_timeout c t
     \<and> rt_sec (to_time t) \<le> max (pe_expiration (hd (pc_pmksa c))) now + 1))"

text \<open>The system grants the timeout and the clock does not advance a second within the call.\<close>

definition env_ok :: "timer_env \<Rightarrow> bool" where
  "env_ok T = (te_alloc T \<and> te_clock T = Some (te_now T) \<and> time_ok (te_now T))"

lemma wrap_int_id [simp]: "- (2 ^ 31) \<le> x \<Longrightarrow> x < 2 ^ 31 \<Longrightarrow> wrap_int x = x"
  by (simp add: wrap_int_def)

lemma cancel_own:
  assumes "pc_self c \<noteq> ELOOP_ALL_CTX"
  shows "cancel_matches pmksa_cache_expire_fn (pc_self c) 0 t = own_timeout c t"
proof -
  have "(0 :: ptr) \<noteq> ELOOP_ALL_CTX" by (simp add: ELOOP_ALL_CTX_def)
  then show ?thesis using assms by (auto simp: cancel_matches_def own_timeout_def timeout_matches_def)
qed

lemma set_expiration_char:
  assumes "env_ok T" and "pc_self c \<noteq> ELOOP_ALL_CTX" and "pc_pmksa c = x # xs"
    and "pe_expiration x - rt_sec (te_now T) < 2 ^ 31" and "- (2 ^ 31) \<le> pe_expiration x - rt_sec (te_now T)"
  shows "\<exists>t. pmksa_cache_set_expiration T c e = e\<lparr>timeouts := insert_timeout t (filter (\<lambda>t. \<not> own_timeout c t) (timeouts e))\<rparr>
    \<and> own_timeout c t \<and> rt_sec (to_time t) = max (pe_expiration x) (rt_sec (te_now T)) + 1"
proof -
  let ?now = "te_now T"
  define s where "s = max 0 (pe_expiration x - rt_sec ?now)"
  define w :: u32 where "w = word_of_int (s + 1)"
  define t where "t = timeout_at ?now w 0 pmksa_cache_expire_fn (pc_self c) 0"
  have now: "time_ok ?now" using assms(1) by (simp add: env_ok_def)
  have s: "0 \<le> s" "s < 2 ^ 31" using assms(4) by (auto simp: s_def)
  then have u: "uint w = s + 1" unfolding w_def by (subst uint_word_of_int) simp
  have "rt_usec (norm_usec r) = rt_usec r \<and> rt_sec (norm_usec r) = rt_sec r" if "rt_usec r < 1000000" for r
    using that by (subst (1 2) norm_usec.simps) simp
  then have "rt_sec (to_time t) = rt_sec ?now + (s + 1)"
    using wrap_add_u32[OF now, of w] now by (simp add: t_def timeout_at_def u time_ok_def)
  then have rt: "rt_sec (to_time t) = max (pe_expiration x) (rt_sec ?now) + 1" by (simp add: s_def)
  have "wrap_int (pe_expiration x - rt_sec ?now) = pe_expiration x - rt_sec ?now"
    using assms(4,5) by (rule wrap_int_id[rotated])
  then have "(if wrap_int (pe_expiration x - rt_sec ?now) < 0 then 0 else wrap_int (pe_expiration x - rt_sec ?now)) = s"
    by (simp add: s_def)
  then have "pmksa_cache_set_expiration T c e = e\<lparr>timeouts := insert_timeout t (filter (\<lambda>t. \<not> own_timeout c t) (timeouts e))\<rparr>"
    using assms(1,3) now
    by (simp add: pmksa_cache_set_expiration_def Let_def env_ok_def eloop_cancel_timeout_char cancel_own[OF assms(2)]
        eloop_register_timeout_char t_def w_def)
  moreover have "own_timeout c t" by (simp add: t_def own_timeout_def timeout_matches_def timeout_at_def)
  ultimately show ?thesis using rt by blast
qed

text \<open>The difference of an expiration and the clock fits an \<open>int\<close> in both directions.\<close>

definition near :: "int \<Rightarrow> rsn_pmksa_cache_entry \<Rightarrow> bool" where
  "near now x = (pe_expiration x - now < 2 ^ 31 \<and> - (2 ^ 31) \<le> pe_expiration x - now)"

lemma set_expiration_covers:
  assumes "env_ok T" and "pc_self c \<noteq> ELOOP_ALL_CTX" and "pc_pmksa c \<noteq> []" and "near (rt_sec (te_now T)) (hd (pc_pmksa c))"
  shows "covered (rt_sec (te_now T)) c (pmksa_cache_set_expiration T c e)"
proof -
  obtain x xs where x: "pc_pmksa c = x # xs" using assms(3) by (cases "pc_pmksa c") auto
  then show ?thesis using set_expiration_char[OF assms(1,2) x, of e] assms(4)
    by (auto simp: near_def covered_def)
qed

lemma set_expiration_others:
  assumes "pc_self c \<noteq> ELOOP_ALL_CTX" and "env_ok T" and "pc_pmksa c \<noteq> [] \<Longrightarrow> near (rt_sec (te_now T)) (hd (pc_pmksa c))"
  shows "filter (\<lambda>t. \<not> own_timeout c t) (timeouts (pmksa_cache_set_expiration T c e)) = filter (\<lambda>t. \<not> own_timeout c t) (timeouts e)"
proof (cases "pc_pmksa c")
  case Nil
  then show ?thesis by (simp add: pmksa_cache_set_expiration_def eloop_cancel_timeout_char cancel_own[OF assms(1)])
next
  case (Cons x xs)
  then show ?thesis using set_expiration_char[OF assms(2,1) Cons, of e] assms(3)
    by (auto simp: near_def tq.filter_ins_other)
qed

lemma set_expiration_eloop_ok:
  assumes "env_ok T" and "eloop_ok e"
  shows "eloop_ok (pmksa_cache_set_expiration T c e)"
  using assms ok_cancel_timeout[OF assms(2)] ok_register_timeout
  by (auto simp: pmksa_cache_set_expiration_def Let_def env_ok_def clock_ok_def time_ok_def split: list.splits)

subsection \<open>Histories of the cache\<close>

text \<open>
  Every state of the cache and of the event loop that calls can lead to; \<open>now\<close> is the clock of the last call. Addresses of
  new entries are fresh, session timeouts are \<open>int\<close>s. When the timeout of the cache fires, the loop has removed it before it calls \<open>pmksa_cache_expire\<close>. The flag
  says that the timers have worked in the whole history: the clock answers, does not go back and does not advance within a call, the memory for a timeout is
  granted (\<open>env_ok\<close>), expirations are less than \<open>2 ^ 31\<close> seconds away from the clock (\<open>near\<close>), and other modules leave the timeout of the cache alone.
\<close>

inductive pmksa_reach :: "bool \<Rightarrow> int \<Rightarrow> rsn_pmksa_cache \<Rightarrow> eloop_data \<Rightarrow> bool" where
  init: "self \<noteq> ELOOP_ALL_CTX \<Longrightarrow> pmksa_reach (eloop_ok e) now (pmksa_cache_auth_init self) e"
| later: "pmksa_reach good now c e \<Longrightarrow> pmksa_reach (good \<and> now \<le> now') now' c e"
| add: "pmksa_reach good now c e \<Longrightarrow> addr \<notin> pe_addr ` set (pc_pmksa c) \<Longrightarrow> session_timeout < 2 ^ 31
    \<Longrightarrow> pmksa_cache_auth_add K A T (Some addr) (te_now T) pmk kck aa spa session_timeout eapol akmp c e = (r, c', e')
    \<Longrightarrow> pmksa_reach (good \<and> env_ok T \<and> now \<le> rt_sec (te_now T)) (rt_sec (te_now T)) c' e'"
| add_okc: "pmksa_reach good now c e \<Longrightarrow> addr \<notin> pe_addr ` set (pc_pmksa c)
    \<Longrightarrow> pmksa_cache_add_okc A T (Some addr) old pmkid c e = (r, c', e')
    \<Longrightarrow> pmksa_reach (good \<and> env_ok T \<and> now \<le> rt_sec (te_now T) \<and> near (rt_sec (te_now T)) old) (rt_sec (te_now T)) c' e'"
| free: "pmksa_reach good now c e \<Longrightarrow> x \<in> set (pc_pmksa c) \<Longrightarrow> pmksa_reach good now (pmksa_cache_free_entry x c) e"
| das: "pmksa_reach good now c e \<Longrightarrow> pmksa_reach good now (snd (pmksa_cache_auth_radius_das_disconnect attr c)) e"
| expire: "pmksa_reach good now c e \<Longrightarrow> pmksa_cache_expire (te_now T) T c e0 = (c', e')
    \<Longrightarrow> pmksa_reach (good \<and> env_ok T \<and> now \<le> rt_sec (te_now T) \<and> eloop_ok e0 \<and> (\<forall>x \<in> set (pc_pmksa c). near (rt_sec (te_now T)) x))
         (rt_sec (te_now T)) c' e'"
| others: "pmksa_reach good now c e
    \<Longrightarrow> pmksa_reach (good \<and> eloop_ok e' \<and> (\<forall>t \<in> set (timeouts e). own_timeout c t \<longrightarrow> t \<in> set (timeouts e'))) now c e'"

definition pmksa_inv :: "int \<Rightarrow> rsn_pmksa_cache \<Rightarrow> eloop_data \<Rightarrow> bool" where
  "pmksa_inv now c e = (cache_ok c \<and> covered now c e \<and> pc_self c \<noteq> ELOOP_ALL_CTX \<and> eloop_ok e)"

lemma covered_mono: "covered now c e \<Longrightarrow> now \<le> now' \<Longrightarrow> covered now' c e"
  by (force simp: covered_def)

lemma covered_filter:
  assumes "covered now c e" and "cache_ok c" and "pc_pmksa c' = filter P (pc_pmksa c)" and "pc_self c' = pc_self c"
  shows "covered now c' e"
proof (cases "pc_pmksa c'")
  case (Cons y ys)
  then have y: "y \<in> set (pc_pmksa c)" using assms(3) by (metis filter_is_subset list.set_intros(1) subsetD)
  then obtain x xs where x: "pc_pmksa c = x # xs" by (cases "pc_pmksa c") auto
  have "pe_expiration x \<le> pe_expiration y" using y x assms(2) by (auto simp: cache_ok_def expires_before_def)
  moreover obtain t where "t \<in> set (timeouts e)" "own_timeout c t" "rt_sec (to_time t) \<le> max (pe_expiration x) now + 1"
    using assms(1) x by (auto simp: covered_def)
  ultimately show ?thesis using Cons assms(4) by (auto simp: covered_def own_timeout_def intro!: bexI[of _ t])
qed (simp add: covered_def)

lemma free_entry_inv:
  assumes "pmksa_inv now c e" and "x \<in> set (pc_pmksa c)"
  shows "pmksa_inv now (pmksa_cache_free_entry x c) e"
proof -
  have "pc_self (pmksa_cache_free_entry x c) = pc_self c" by (simp add: pmksa_cache_free_entry_def Let_def)
  then show ?thesis using assms free_entry_ok free_entry_list[of c x] covered_filter[of now c e _ "\<lambda>y. y \<noteq> x"]
    by (auto simp: pmksa_inv_def)
qed

lemma link_entry_inv:
  assumes "pmksa_inv now c e" and "env_ok T" and "now \<le> rt_sec (te_now T)" and "pe_addr x \<notin> pe_addr ` set (pc_pmksa c)"
    and "near (rt_sec (te_now T)) x" and "pmksa_cache_link_entry T x c e = (c', e')"
  shows "pmksa_inv (rt_sec (te_now T)) c' e'"
proof -
  let ?first = "pc_pmksa c = [] \<or> pe_expiration (hd (pc_pmksa c)) > pe_expiration x"
  have c': "c' = fst (pmksa_cache_link_entry T x c e)" and e': "e' = (if ?first then pmksa_cache_set_expiration T c' e else e)"
    using assms(6) by (auto simp: pmksa_cache_link_entry_def Let_def)
  have ok: "cache_ok c'" "pc_pmksa c' = insert_entry x (pc_pmksa c)" "pc_self c' = pc_self c"
    using link_entry_cache[OF _ assms(4)] assms(1) by (auto simp: c' pmksa_inv_def) (simp add: pmksa_cache_link_entry_def Let_def)
  have "covered (rt_sec (te_now T)) c' e'"
  proof (cases ?first)
    case True
    then have "hd (pc_pmksa c') = x" "pc_pmksa c' \<noteq> []" using ok(2) by (cases "pc_pmksa c"; auto)+
    then show ?thesis using True set_expiration_covers[of T c' e] assms(1,2,5) ok(3) by (simp add: e' pmksa_inv_def)
  next
    case False
    then have "hd (pc_pmksa c') = hd (pc_pmksa c)" "pc_pmksa c \<noteq> []" using ok(2) by (cases "pc_pmksa c"; auto)+
    then show ?thesis using False assms(1) covered_mono[OF _ assms(3), of c e] ok(3)
      by (auto simp: e' pmksa_inv_def covered_def own_timeout_def)
  qed
  moreover have "eloop_ok e'" using assms(1,2) by (simp add: e' pmksa_inv_def set_expiration_eloop_ok)
  ultimately show ?thesis using assms(1) ok by (simp add: pmksa_inv_def)
qed

lemma new_entry_fields:
  "pe_addr (new_entry K A addr n pmk aa spa to eapol akmp) = addr"
  "pe_spa (new_entry K A addr n pmk aa spa to eapol akmp) = spa"
  "pe_pmkid (new_entry K A addr n pmk aa spa to eapol akmp) = entry_pmkid K akmp pmk aa spa"
  "pe_expiration (new_entry K A addr n pmk aa spa to eapol akmp) = n + (if to > 0 then to else dot11RSNAConfigPMKLifetime)"
  "pe_pmk (new_entry K A addr n pmk aa spa to eapol akmp) = pmk @ replicate (PMK_LEN - length pmk) 0"
  "pe_pmk_len (new_entry K A addr n pmk aa spa to eapol akmp) = length pmk"
  by (auto simp: new_entry_def pmksa_cache_from_eapol_data_def split: option.splits)

text \<open>The cache after the replacement of the station's old entry and the removal of the oldest one.\<close>

definition make_room :: "bytes \<Rightarrow> rsn_pmksa_cache \<Rightarrow> rsn_pmksa_cache" where
  "make_room spa c = remove_oldest (replace_old spa c)"

lemma auth_get_list: "pmksa_cache_auth_get c spa None = Some x \<Longrightarrow> x \<in> set (pc_pmksa c) \<and> (spa = None \<or> spa = Some (pe_spa x))"
  by (auto simp: pmksa_cache_auth_get_def find_Some_iff)

lemma make_room_cases:
  assumes "\<And>c x. I c \<Longrightarrow> x \<in> set (pc_pmksa c) \<Longrightarrow> I (pmksa_cache_free_entry x c)" and "I c"
  shows "I (make_room spa c)"
proof -
  have "I (replace_old spa c)"
    using assms auth_get_list[of c "Some spa"] by (auto simp: replace_old_def split: option.splits)
  then show ?thesis using assms(1) by (simp add: make_room_def remove_oldest_def)
qed

lemma make_room_inv: "pmksa_inv now c e \<Longrightarrow> pmksa_inv now (make_room spa c) e"
  using make_room_cases[where I = "\<lambda>c. pmksa_inv now c e"] free_entry_inv by blast

lemma make_room_subset:
  assumes "cache_ok c"
  shows "cache_ok (make_room spa c) \<and> set (pc_pmksa (make_room spa c)) \<subseteq> set (pc_pmksa c)"
  using make_room_cases[where I = "\<lambda>c'. cache_ok c' \<and> set (pc_pmksa c') \<subseteq> set (pc_pmksa c)"] free_entry_ok free_entry_list assms
  by (metis (no_types, lifting) filter_is_subset order_refl order_trans)

lemma auth_add_char:
  assumes "pmksa_cache_auth_add K A T (Some addr) now pmk kck aa spa to eapol akmp c e = (Some x, c', e')"
  shows "x = new_entry K A addr (rt_sec now) pmk aa spa to eapol akmp" and "pmksa_cache_link_entry T x (make_room spa c) e = (c', e')"
    and "length pmk \<le> PMK_LEN"
  using assms by (auto simp: pmksa_cache_auth_add_def make_room_def Let_def split: if_splits prod.splits)

lemma auth_add_None:
  assumes "pmksa_cache_auth_add K A T z now pmk kck aa spa to eapol akmp c e = (None, c', e')"
  shows "c' = c" and "e' = e"
  using assms by (auto simp: pmksa_cache_auth_add_def Let_def split: if_splits option.splits prod.splits)

lemma add_inv:
  assumes "pmksa_inv now c e" and "env_ok T" and "now \<le> rt_sec (te_now T)" and "addr \<notin> pe_addr ` set (pc_pmksa c)"
    and "to < 2 ^ 31"
    and "pmksa_cache_auth_add K A T (Some addr) (te_now T) pmk kck aa spa to eapol akmp c e = (r, c', e')"
  shows "pmksa_inv (rt_sec (te_now T)) c' e'"
proof (cases r)
  case None
  then show ?thesis using auth_add_None[OF assms(6)[unfolded None]] assms(1) covered_mono[OF _ assms(3)]
    by (auto simp: pmksa_inv_def)
next
  case (Some x)
  note ch = auth_add_char[OF assms(6)[unfolded Some]]
  have "addr \<notin> pe_addr ` set (pc_pmksa (make_room spa c))"
    using make_room_subset[of c spa] assms(1,4) by (auto simp: pmksa_inv_def)
  moreover have "near (rt_sec (te_now T)) x"
    using assms(5) by (simp add: near_def ch(1) new_entry_fields dot11RSNAConfigPMKLifetime_def)
  ultimately show ?thesis
    using link_entry_inv[OF make_room_inv[OF assms(1)] assms(2,3) _ _ ch(2)] ch(1) by (simp add: new_entry_fields)
qed

lemma expire_inv:
  assumes "pmksa_inv now c e" and "env_ok T" and "now \<le> rt_sec (te_now T)" and "eloop_ok e0"
    and "\<forall>x \<in> set (pc_pmksa c). near (rt_sec (te_now T)) x" and "pmksa_cache_expire (te_now T) T c e0 = (c', e')"
  shows "pmksa_inv (rt_sec (te_now T)) c' e'"
proof -
  have c': "c' = expire_loop (rt_sec (te_now T)) c" and e': "e' = pmksa_cache_set_expiration T c' e0"
    using assms(6) by (auto simp: pmksa_cache_expire_def Let_def)
  have x: "cache_ok c'" "pc_pmksa c' = filter (\<lambda>x. rt_sec (te_now T) < pe_expiration x) (pc_pmksa c)" "pc_self c' = pc_self c"
    using expire_loop_char[of c] assms(1) by (auto simp: c' pmksa_inv_def)
  have "covered (rt_sec (te_now T)) c' e'"
  proof (cases "pc_pmksa c' = []")
    case False
    then have "hd (pc_pmksa c') \<in> set (pc_pmksa c)" using x(2) by (metis filter_is_subset hd_in_set subsetD)
    then show ?thesis using set_expiration_covers[OF assms(2) _ False] assms(1,5) x(3) by (simp add: e' pmksa_inv_def)
  qed (simp add: covered_def)
  then show ?thesis using x assms(1,2,4) by (simp add: pmksa_inv_def e' set_expiration_eloop_ok)
qed

lemma das_disconnect_char:
  assumes "cache_ok c" and "da_acct_session_id attr = None"
  shows "cache_ok (snd (pmksa_cache_auth_radius_das_disconnect attr c))"
    and "pc_pmksa (snd (pmksa_cache_auth_radius_das_disconnect attr c)) = filter (\<lambda>x. das_attr_match x attr = 0) (pc_pmksa c)"
    and "fst (pmksa_cache_auth_radius_das_disconnect attr c) = (if \<exists>x \<in> set (pc_pmksa c). das_attr_match x attr \<noteq> 0 then 0 else -1)"
    and "pc_self (snd (pmksa_cache_auth_radius_das_disconnect attr c)) = pc_self c"
proof -
  have d: "distinct (pc_pmksa c)" using assms(1) by (simp add: cache_ok_def distinct_map)
  note D = das_loop_char[OF assms(1) subset_refl d, of attr 0]
  obtain n c' where l: "das_loop attr (pc_pmksa c) 0 c = (n, c')" by (cases "das_loop attr (pc_pmksa c) 0 c")
  have "pc_pmksa c' = filter (\<lambda>x. das_attr_match x attr = 0) (pc_pmksa c)" using D l by (auto intro: filter_cong)
  moreover have "n = 0 \<longleftrightarrow> \<not> (\<exists>x \<in> set (pc_pmksa c). das_attr_match x attr \<noteq> 0)"
    using D l by (auto simp: filter_empty_conv)
  ultimately show "cache_ok (snd (pmksa_cache_auth_radius_das_disconnect attr c))"
    and "pc_pmksa (snd (pmksa_cache_auth_radius_das_disconnect attr c)) = filter (\<lambda>x. das_attr_match x attr = 0) (pc_pmksa c)"
    and "fst (pmksa_cache_auth_radius_das_disconnect attr c) = (if \<exists>x \<in> set (pc_pmksa c). das_attr_match x attr \<noteq> 0 then 0 else -1)"
    and "pc_self (snd (pmksa_cache_auth_radius_das_disconnect attr c)) = pc_self c"
    using D l assms(2) by (auto simp: pmksa_cache_auth_radius_das_disconnect_def)
qed

lemma das_inv: "pmksa_inv now c e \<Longrightarrow> pmksa_inv now (snd (pmksa_cache_auth_radius_das_disconnect attr c)) e"
proof (cases "da_acct_session_id attr")
  case None
  then show "pmksa_inv now c e \<Longrightarrow> ?thesis" using das_disconnect_char[of c attr] covered_filter by (auto simp: pmksa_inv_def)
qed (simp add: pmksa_cache_auth_radius_das_disconnect_def)

lemma okc_inv:
  assumes "pmksa_inv now c e" and "env_ok T" and "now \<le> rt_sec (te_now T)" and "addr \<notin> pe_addr ` set (pc_pmksa c)"
    and "near (rt_sec (te_now T)) old" and "pmksa_cache_add_okc A T (Some addr) old pmkid c e = (r, c', e')"
  shows "pmksa_inv (rt_sec (te_now T)) c' e'"
  using assms link_entry_inv[of now c e T "okc_entry A addr old pmkid" c' e']
  by (auto simp: pmksa_cache_add_okc_def Let_def okc_entry_def near_def split: prod.splits)

lemma reach_covered: "pmksa_reach good now c e \<Longrightarrow> good \<longrightarrow> pmksa_inv now c e"
proof (induction rule: pmksa_reach.induct)
  case (init self e now)
  then show ?case by (simp add: pmksa_inv_def cache_ok_init covered_def) (simp add: pmksa_cache_auth_init_def)
next
  case (later good now c e now')
  then show ?case using covered_mono by (auto simp: pmksa_inv_def)
next
  case (others good now c e e')
  then show ?case by (auto simp: pmksa_inv_def covered_def)
next
  case (add good now c e addr to K A T pmk kck aa spa eapol akmp r c' e')
  then show ?case using add_inv[OF _ _ _ add.hyps(2-4)] by blast
next
  case (add_okc good now c e addr A T old pmkid r c' e')
  then show ?case using okc_inv[OF _ _ _ add_okc.hyps(2) _ add_okc.hyps(3)] by blast
next
  case (expire good now c e T e0 c' e')
  then show ?case using expire_inv[OF _ _ _ _ _ expire.hyps(2)] by blast
qed (use free_entry_inv das_inv in auto)

text \<open>The structure of the cache does not depend on the timers.\<close>

lemma reach_cache_ok: "pmksa_reach good now c e \<Longrightarrow> cache_ok c"
proof (induction rule: pmksa_reach.induct)
  case (add good now c e addr to K A T pmk kck aa spa eapol akmp r c' e')
  show ?case
  proof (cases r)
    case None
    then show ?thesis using auth_add_None(1) add.hyps(4) add.IH by blast
  next
    case (Some x)
    note ch = auth_add_char[OF add.hyps(4)[unfolded Some]]
    have "pe_addr x \<notin> pe_addr ` set (pc_pmksa (make_room spa c))" "cache_ok (make_room spa c)"
      using make_room_subset[OF add.IH, of spa] add.hyps(2) by (auto simp: ch(1) new_entry_fields)
    with link_entry_cache(1)[of "make_room spa c" x T e] ch(2) show ?thesis by simp
  qed
next
  case (add_okc good now c e addr A T old pmkid r c' e')
  then show ?case
    using link_entry_cache(1)[of c "okc_entry A addr old pmkid" T e]
    by (auto simp: pmksa_cache_add_okc_def Let_def okc_entry_def split: prod.splits)
next
  case (das good now c e attr)
  then show ?case using das_disconnect_char(1)[of c attr]
    by (cases "da_acct_session_id attr") (simp_all add: pmksa_cache_auth_radius_das_disconnect_def)
next
  case (expire good now c e T e0 c' e')
  then show ?case using expire_loop_char[of c] by (auto simp: pmksa_cache_expire_def Let_def)
qed (simp_all add: cache_ok_init free_entry_ok)

subsection \<open>Correctness of the cache\<close>

definition env5 :: timer_env where
  "env5 = \<lparr>te_now = \<lparr>rt_sec = 5, rt_usec = 7\<rparr>, te_alloc = True, te_clock = Some \<lparr>rt_sec = 5, rt_usec = 7\<rparr>\<rparr>"

definition all_granted :: copy_env where
  "all_granted = \<lparr>ce_identity = True, ce_cui = True, ce_class = Some 10\<rparr>"

definition toy_hmacs :: hmacs where
  "toy_hmacs = \<lparr>hmac_sha1_vector = (\<lambda>k ms. k @ concat ms), hmac_sha256_vector = (\<lambda>k ms. k @ concat ms)\<rparr>"

definition one_entry :: "bool \<Rightarrow> rsn_pmksa_cache_entry option \<times> rsn_pmksa_cache \<times> eloop_data" where
  "one_entry memory = pmksa_cache_auth_add toy_hmacs all_granted (env5\<lparr>te_alloc := memory\<rparr>) (Some 64) (te_now env5) (replicate 32 9) None
     (replicate 6 1) (replicate 6 2) 0 None 1 (pmksa_cache_auth_init 32) eloop_init"

lemma one_entry_reach: "pmksa_reach memory 5 (fst (snd (one_entry memory))) (snd (snd (one_entry memory)))"
proof -
  let ?T = "env5\<lparr>te_alloc := memory\<rparr>"
  have i: "pmksa_reach (eloop_ok eloop_init) 5 (pmksa_cache_auth_init 32) eloop_init" by (rule pmksa_reach.init) (simp add: ELOOP_ALL_CTX_def)
  have eq: "pmksa_cache_auth_add toy_hmacs all_granted ?T (Some 64) (te_now ?T) (replicate 32 9) None
     (replicate 6 1) (replicate 6 2) 0 None 1 (pmksa_cache_auth_init 32) eloop_init = (fst (one_entry memory), fst (snd (one_entry memory)), snd (snd (one_entry memory)))"
    by (simp add: one_entry_def)
  have "pmksa_reach (eloop_ok eloop_init \<and> env_ok ?T \<and> 5 \<le> rt_sec (te_now ?T)) (rt_sec (te_now ?T)) (fst (snd (one_entry memory))) (snd (snd (one_entry memory)))"
    by (rule pmksa_reach.add[OF i _ _ eq]) (simp_all add: pmksa_cache_auth_init_def)
  moreover have "(eloop_ok eloop_init \<and> env_ok ?T \<and> 5 \<le> rt_sec (te_now ?T)) = memory" "rt_sec (te_now ?T) = 5"
    using eloop_ok_init by (simp_all add: env5_def env_ok_def time_ok_def)
  ultimately show ?thesis by simp
qed

lemma one_entry_uncovered: "\<not> covered 5 (fst (snd (one_entry False))) (snd (snd (one_entry False)))"
proof -
  have "timeouts (snd (snd (one_entry False))) = []" "pc_pmksa (fst (snd (one_entry False))) \<noteq> []" by code_simp+
  then show ?thesis by (auto simp: covered_def split: list.splits)
qed

text \<open>
  C32. In every state that calls can lead to, whatever the timers do, the list and the hash chains agree (each entry is in exactly the chain of its
  PMKID, in the order of expiration in the list, and counted once). When the timers have worked all the time (the clock answers, does not go back and stays the same within a call, memory for the timeout is granted, expirations are less than
  \<open>2 ^ 31\<close> seconds away, and no other module touches the timeout of the cache), then as long as there is an entry the event loop has a
  timeout that removes the first one at most a second after its expiration. Without memory for a timeout this is lost: the result of \<open>eloop_register_timeout\<close> is ignored, and
  there are states with an entry that no timeout will remove.
\<close>

theorem pmksa_cache_invariant:
  assumes "pmksa_reach good now c e"
  shows "cache_ok c \<and> (good \<longrightarrow> covered now c e)
    \<and> (\<exists>now' c' e'. pmksa_reach False now' c' e' \<and> \<not> covered now' c' e')"
  using reach_cache_ok[OF assms] reach_covered[OF assms] one_entry_reach[of False] one_entry_uncovered by (auto simp: pmksa_inv_def)

theorem pmksa_cache_invariant_witness:
  "pmksa_reach True 5 (fst (snd (one_entry True))) (snd (snd (one_entry True))) \<and> cache_ok (fst (snd (one_entry True)))
   \<and> covered 5 (fst (snd (one_entry True))) (snd (snd (one_entry True)))"
  using pmksa_cache_invariant[OF one_entry_reach[of True]] one_entry_reach[of True] by simp

lemma env5_ok: "env_ok env5"
  by (simp add: env_ok_def env5_def time_ok_def)

lemma find_filter_eq: "filter P xs = filter P ys \<Longrightarrow> find P xs = find P ys"
proof -
  have "find P zs = (case filter P zs of [] \<Rightarrow> None | z # _ \<Rightarrow> Some z)" for zs by (induction zs) auto
  then show "filter P xs = filter P ys \<Longrightarrow> ?thesis" by simp
qed

text \<open>Searching a hash chain finds an entry exactly when a search of the whole list would.\<close>

lemma auth_get_chain:
  assumes "cache_ok c"
  shows "pmksa_cache_auth_get c spa (Some p) = Some x \<Longrightarrow> x \<in> set (pc_pmksa c) \<and> pe_pmkid x = p \<and> (spa = None \<or> spa = Some (pe_spa x))"
    and "pmksa_cache_auth_get c spa (Some p) = None \<longleftrightarrow>
      \<not> (\<exists>x \<in> set (pc_pmksa c). pe_pmkid x = p \<and> (spa = None \<or> spa = Some (pe_spa x)))"
proof -
  have ch: "set (pc_pmkid c ! PMKID_HASH p) = {x \<in> set (pc_pmksa c). PMKID_HASH (pe_pmkid x) = PMKID_HASH p}"
    using assms PMKID_HASH_less[of p] by (simp add: cache_ok_def chain_of_def)
  show "pmksa_cache_auth_get c spa (Some p) = Some x \<Longrightarrow> x \<in> set (pc_pmksa c) \<and> pe_pmkid x = p \<and> (spa = None \<or> spa = Some (pe_spa x))"
    using ch nth_mem by (fastforce simp: pmksa_cache_auth_get_def find_Some_iff)
  show "pmksa_cache_auth_get c spa (Some p) = None \<longleftrightarrow>
      \<not> (\<exists>x \<in> set (pc_pmksa c). pe_pmkid x = p \<and> (spa = None \<or> spa = Some (pe_spa x)))"
    using ch by (auto simp: pmksa_cache_auth_get_def find_None_iff)
qed

lemma free_entry_get:
  assumes "cache_ok c" and "x \<in> set (pc_pmksa c)" and "pe_spa x \<noteq> spa"
  shows "pmksa_cache_auth_get (pmksa_cache_free_entry x c) (Some spa) p = pmksa_cache_auth_get c (Some spa) p"
proof (cases p)
  case None
  have "filter (\<lambda>y. Some spa = Some (pe_spa y)) (filter (\<lambda>y. y \<noteq> x) (pc_pmksa c)) = filter (\<lambda>y. Some spa = Some (pe_spa y)) (pc_pmksa c)"
    using assms(3) by (auto intro: filter_cong)
  from find_filter_eq[OF this] show ?thesis
    by (simp add: None pmksa_cache_auth_get_def free_entry_list[OF assms(1,2)])
next
  case (Some q)
  let ?h = "PMKID_HASH (pe_pmkid x)" and ?P = "\<lambda>y. Some spa = Some (pe_spa y) \<and> pe_pmkid y = q"
  have ch: "chain_of (pc_pmkid c ! ?h) ?h (pc_pmksa c)" "length (pc_pmkid c) = PMKID_HASH_SIZE"
    using assms(1) PMKID_HASH_less[of "pe_pmkid x"] by (auto simp: cache_ok_def)
  then have "unlink (pe_addr x) (pc_pmkid c ! ?h) = filter (\<lambda>y. y \<noteq> x) (pc_pmkid c ! ?h)"
    using assms(2) by (intro remove_entry) (auto simp: chain_of_def)
  then have "filter ?P (pc_pmkid (pmksa_cache_free_entry x c) ! PMKID_HASH q) = filter ?P (pc_pmkid c ! PMKID_HASH q)"
    using assms(3) ch(2) PMKID_HASH_less[of q]
    by (cases "PMKID_HASH q = ?h") (auto simp: pmksa_cache_free_entry_def Let_def intro: filter_cong)
  from find_filter_eq[OF this] show ?thesis by (simp add: Some pmksa_cache_auth_get_def)
qed

lemma link_entry_get:
  assumes "cache_ok c" and "pe_spa x \<noteq> spa"
  shows "pmksa_cache_auth_get (fst (pmksa_cache_link_entry T x c e)) (Some spa) p = pmksa_cache_auth_get c (Some spa) p"
proof (cases p)
  case None
  have "filter (\<lambda>y. Some spa = Some (pe_spa y)) (insert_entry x (pc_pmksa c)) = filter (\<lambda>y. Some spa = Some (pe_spa y)) (pc_pmksa c)"
    using assms(2) by (intro pq.filter_ins_other) auto
  from find_filter_eq[OF this] show ?thesis
    by (simp add: None pmksa_cache_auth_get_def pmksa_cache_link_entry_def Let_def)
next
  case (Some q)
  have len: "length (pc_pmkid c) = PMKID_HASH_SIZE" using assms(1) by (simp add: cache_ok_def)
  then show ?thesis using assms(2) PMKID_HASH_less[of q]
    by (cases "PMKID_HASH q = PMKID_HASH (pe_pmkid x)")
      (auto simp: Some pmksa_cache_auth_get_def pmksa_cache_link_entry_def Let_def)
qed

lemma make_room_count:
  assumes "cache_ok c"
  shows "pc_count (make_room spa c) \<le> pc_count c"
    and "pc_count c \<le> pmksa_cache_max_entries \<Longrightarrow> pc_count (make_room spa c) < pmksa_cache_max_entries"
proof -
  have one: "pc_count (pmksa_cache_free_entry x d) = pc_count d - 1" for x d by (simp add: pmksa_cache_free_entry_def Let_def)
  define d where "d = replace_old spa c"
  have d: "pc_count d \<le> pc_count c" "cache_ok d"
    using assms free_entry_ok[OF assms] auth_get_list[of c "Some spa"] one
    by (auto simp: d_def replace_old_def split: option.splits)
  have ne: "pc_pmksa d \<noteq> []" if "pc_count d \<ge> pmksa_cache_max_entries"
    using that d(2) by (auto simp: cache_ok_def pmksa_cache_max_entries_def)
  have m: "make_room spa c = (if pc_count d \<ge> pmksa_cache_max_entries \<and> pc_pmksa d \<noteq> [] then pmksa_cache_free_entry (hd (pc_pmksa d)) d else d)"
    by (simp add: make_room_def remove_oldest_def d_def)
  show "pc_count (make_room spa c) \<le> pc_count c" using d m one by simp
  show "pc_count c \<le> pmksa_cache_max_entries \<Longrightarrow> pc_count (make_room spa c) < pmksa_cache_max_entries"
    using d(1) m one ne by auto
qed

lemma make_room_small:
  assumes "cache_ok c" and "pc_count c < pmksa_cache_max_entries"
  shows "make_room spa c = replace_old spa c"
proof -
  have "pc_count (replace_old spa c) \<le> pc_count c"
    by (auto simp: replace_old_def pmksa_cache_free_entry_def Let_def split: option.splits)
  then show ?thesis using assms(2) by (simp add: make_room_def remove_oldest_def)
qed

lemma find_filter: "find P xs = (case filter P xs of [] \<Rightarrow> None | z # _ \<Rightarrow> Some z)"
  by (induction xs) auto

lemma make_room_station:
  assumes "cache_ok c" and "length (filter (\<lambda>y. pe_spa y = spa) (pc_pmksa c)) \<le> 1"
  shows "filter (\<lambda>y. pe_spa y = spa) (pc_pmksa (make_room spa c)) = []"
proof -
  define d where "d = replace_old spa c"
  have d: "filter (\<lambda>y. pe_spa y = spa) (pc_pmksa d) = [] \<and> cache_ok d"
  proof (cases "pmksa_cache_auth_get c (Some spa) None")
    case None
    then have "d = c" by (simp add: d_def replace_old_def)
    then show ?thesis using assms(1) None by (auto simp: pmksa_cache_auth_get_def find_None_iff filter_empty_conv)
  next
    case (Some x)
    note x = auth_get_list[OF Some]
    have f: "filter (\<lambda>y. pe_spa y = spa) (pc_pmksa c) = [x]"
      using Some assms(2) by (cases "filter (\<lambda>y. pe_spa y = spa) (pc_pmksa c)")
        (auto simp: pmksa_cache_auth_get_def find_filter eq_commute[of spa])
    have "y = x" if "y \<in> set (pc_pmksa c)" "pe_spa y = spa" for y
    proof -
      have "y \<in> set (filter (\<lambda>y. pe_spa y = spa) (pc_pmksa c))" using that by simp
      then show ?thesis using f by simp
    qed
    moreover have dd: "d = pmksa_cache_free_entry x c" by (simp add: d_def replace_old_def Some)
    ultimately have "filter (\<lambda>y. pe_spa y = spa) (pc_pmksa d) = []"
      using x free_entry_list[OF assms(1), of x] by (auto simp: filter_empty_conv)
    then show ?thesis using free_entry_ok[OF assms(1), of x] x dd by simp
  qed
  show ?thesis
  proof (cases "pc_count d \<ge> pmksa_cache_max_entries \<and> pc_pmksa d \<noteq> []")
    case True
    then have "pc_pmksa (make_room spa c) = filter (\<lambda>y. y \<noteq> hd (pc_pmksa d)) (pc_pmksa d)"
      using d free_entry_list[of d "hd (pc_pmksa d)"] by (simp add: make_room_def remove_oldest_def d_def[symmetric])
    then show ?thesis using d by (auto simp: filter_empty_conv)
  qed (use d in \<open>auto simp: make_room_def remove_oldest_def d_def[symmetric]\<close>)
qed

text \<open>
  What has been added is found. After \<open>pmksa_cache_auth_add\<close> a lookup by the station's address and the PMKID, which is
  derived from the key and both addresses, returns the new entry with the whole key; a station that had one entry has only the
  new one; the lookups of all other stations are unchanged unless the cache was full, and the cache never grows beyond its limit.
\<close>

lemma pmksa_add_then_get:
  assumes "cache_ok c" and "addr \<notin> pe_addr ` set (pc_pmksa c)"
    and "pmksa_cache_auth_add K A T (Some addr) now pmk kck aa spa session_timeout eapol akmp c e = (Some x, c', e')"
  shows "pmksa_cache_auth_get c' (Some spa) (Some (entry_pmkid K akmp pmk aa spa)) = Some x
    \<and> take (pe_pmk_len x) (pe_pmk x) = pmk
    \<and> (length (filter (\<lambda>y. pe_spa y = spa) (pc_pmksa c)) \<le> 1 \<longrightarrow> filter (\<lambda>y. pe_spa y = spa) (pc_pmksa c') = [x])
    \<and> (pc_count c < pmksa_cache_max_entries \<longrightarrow>
        (\<forall>spa' p. spa' \<noteq> spa \<longrightarrow> pmksa_cache_auth_get c' (Some spa') p = pmksa_cache_auth_get c (Some spa') p))
    \<and> (pc_count c \<le> pmksa_cache_max_entries \<longrightarrow> pc_count c' \<le> pmksa_cache_max_entries)"
proof (intro conjI impI allI)
  note ch = auth_add_char[OF assms(3)]
  let ?d = "make_room spa c"
  have d: "cache_ok ?d" "pe_addr x \<notin> pe_addr ` set (pc_pmksa ?d)"
    using make_room_subset[OF assms(1), of spa] assms(2) by (auto simp: ch(1) new_entry_fields)
  have c': "c' = fst (pmksa_cache_link_entry T x ?d e)" using ch(2) by simp
  have x: "pe_spa x = spa" "pe_pmkid x = entry_pmkid K akmp pmk aa spa" by (simp_all add: ch(1) new_entry_fields)
  have "length (pc_pmkid ?d) = PMKID_HASH_SIZE" using d(1) by (simp add: cache_ok_def)
  then show "pmksa_cache_auth_get c' (Some spa) (Some (entry_pmkid K akmp pmk aa spa)) = Some x"
    using PMKID_HASH_less[of "pe_pmkid x"] by (simp add: pmksa_cache_auth_get_def c' pmksa_cache_link_entry_def Let_def x flip: x(2))
  show "take (pe_pmk_len x) (pe_pmk x) = pmk" by (simp add: ch(1) new_entry_fields)
  show "filter (\<lambda>y. pe_spa y = spa) (pc_pmksa c') = [x]" if "length (filter (\<lambda>y. pe_spa y = spa) (pc_pmksa c)) \<le> 1"
    using make_room_station[OF assms(1) that] d(1) x(1) link_entry_cache(2)[OF d, of T e]
    by (simp add: c' pq.filter_ins cache_ok_def)
  show "pmksa_cache_auth_get c' (Some spa') p = pmksa_cache_auth_get c (Some spa') p"
    if "pc_count c < pmksa_cache_max_entries" "spa' \<noteq> spa" for spa' p
  proof -
    have "pmksa_cache_auth_get c' (Some spa') p = pmksa_cache_auth_get ?d (Some spa') p"
      unfolding c' using x(1) that(2) by (intro link_entry_get[OF d(1)]) simp
    also have "\<dots> = pmksa_cache_auth_get c (Some spa') p"
      using make_room_small[OF assms(1) that(1), of spa] auth_get_list[of c "Some spa"] free_entry_get[OF assms(1)] that(2)
      by (auto simp: replace_old_def split: option.splits)
    finally show ?thesis .
  qed
  show "pc_count c' \<le> pmksa_cache_max_entries" if "pc_count c \<le> pmksa_cache_max_entries"
    using make_room_count(2)[OF assms(1) that, of spa] by (simp add: c' pmksa_cache_link_entry_def Let_def)
qed

text \<open>
  Expiration is exact. When the timeout fires, the entries whose time has come are freed, each once and in order, and only
  those; no lookup returns one of them any more; if entries are left, the cache has exactly one timeout, a second after the
  expiration of the first of them; the timeouts of other modules are untouched.
\<close>

lemma pmksa_expire_exact:
  assumes "cache_ok c" and "pc_self c \<noteq> ELOOP_ALL_CTX" and "env_ok T" and "\<forall>x \<in> set (pc_pmksa c). near (rt_sec (te_now T)) x"
    and "pmksa_cache_expire (te_now T) T c e = (c', e')"
  shows "pc_pmksa c' = filter (\<lambda>x. rt_sec (te_now T) < pe_expiration x) (pc_pmksa c)
    \<and> pc_freed c' = pc_freed c @ filter (\<lambda>x. pe_expiration x \<le> rt_sec (te_now T)) (pc_pmksa c)
    \<and> (\<forall>spa p x. pmksa_cache_auth_get c' spa p = Some x \<longrightarrow> rt_sec (te_now T) < pe_expiration x)
    \<and> map (\<lambda>t. rt_sec (to_time t)) (filter (own_timeout c) (timeouts e')) =
        (case pc_pmksa c' of [] \<Rightarrow> [] | x # _ \<Rightarrow> [pe_expiration x + 1])
    \<and> filter (\<lambda>t. \<not> own_timeout c t) (timeouts e') = filter (\<lambda>t. \<not> own_timeout c t) (timeouts e)"
proof (intro conjI)
  let ?now = "rt_sec (te_now T)"
  have c': "c' = expire_loop ?now c" and e': "e' = pmksa_cache_set_expiration T c' e"
    using assms(5) by (auto simp: pmksa_cache_expire_def Let_def)
  have x: "cache_ok c'" "pc_pmksa c' = filter (\<lambda>x. ?now < pe_expiration x) (pc_pmksa c)"
    "pc_freed c' = pc_freed c @ filter (\<lambda>x. pe_expiration x \<le> ?now) (pc_pmksa c)" "pc_self c' = pc_self c"
    using expire_loop_char[OF assms(1), of ?now] by (auto simp: c')
  have own: "own_timeout c' = own_timeout c" using x(4) by (simp add: own_timeout_def fun_eq_iff)
  show "pc_pmksa c' = filter (\<lambda>x. ?now < pe_expiration x) (pc_pmksa c)" and "pc_freed c' = pc_freed c @ filter (\<lambda>x. pe_expiration x \<le> ?now) (pc_pmksa c)"
    using x by simp_all
  show "\<forall>spa p x. pmksa_cache_auth_get c' spa p = Some x \<longrightarrow> ?now < pe_expiration x"
  proof (intro allI impI)
    fix spa p y assume "pmksa_cache_auth_get c' spa p = Some y"
    then have "y \<in> set (pc_pmksa c')" using auth_get_list auth_get_chain(1)[OF x(1)] by (cases p) blast+
    then show "?now < pe_expiration y" using x(2) by simp
  qed
  have near: "near ?now (hd (pc_pmksa c'))" if "pc_pmksa c' \<noteq> []"
    using that assms(4) x(2) by (metis filter_is_subset hd_in_set subsetD)
  show "map (\<lambda>t. rt_sec (to_time t)) (filter (own_timeout c) (timeouts e')) =
        (case pc_pmksa c' of [] \<Rightarrow> [] | x # _ \<Rightarrow> [pe_expiration x + 1])"
  proof (cases "pc_pmksa c'")
    case Nil
    then show ?thesis using assms(2) x(4)
      by (simp add: e' pmksa_cache_set_expiration_def eloop_cancel_timeout_char cancel_own own)
  next
    case (Cons y ys)
    have "y \<in> set (filter (\<lambda>x. ?now < pe_expiration x) (pc_pmksa c))" using Cons x(2) by (metis list.set_intros(1))
    then have "?now < pe_expiration y" by simp
    moreover obtain t where t: "e' = e\<lparr>timeouts := insert_timeout t (filter (\<lambda>t. \<not> own_timeout c t) (timeouts e))\<rparr>"
      "own_timeout c t" "rt_sec (to_time t) = max (pe_expiration y) ?now + 1"
      using set_expiration_char[OF assms(3) _ Cons, of e] near Cons assms(2) x(4) by (auto simp: near_def e' own)
    moreover have "filter (own_timeout c) (insert_timeout t us) = [t]" if "\<forall>u \<in> set us. \<not> own_timeout c u" for us
      using that t(2) by (induction us) (auto simp: filter_empty_conv)
    ultimately show ?thesis using Cons by simp
  qed
  show "filter (\<lambda>t. \<not> own_timeout c t) (timeouts e') = filter (\<lambda>t. \<not> own_timeout c t) (timeouts e)"
    using set_expiration_others[OF _ assms(3) near, of e] assms(2) x(4) by (simp add: e' own)
qed

text \<open>A session that is resumed from the cache has the data it was stored with, when all allocations are granted.\<close>

lemma eapol_data_round_trip:
  assumes "ce_identity A" and "ce_cui A" and "ce_class A = Some n" and "length (the (ed_radius_class d)) \<le> n"
    and "ed_identity d0 = None" and "ed_radius_cui d0 = None"
  shows "pmksa_cache_to_eapol_data A (Some (new_entry K A addr now pmk aa spa to (Some d) akmp)) (Some d0) = Some d"
  using assms
  by (cases d; cases "ed_radius_class d"; cases d0)
    (auto simp: pmksa_cache_to_eapol_data_def new_entry_def pmksa_cache_from_eapol_data_def radius_copy_class_def)

end
