(* ===== verification/WpaAuthIe.thy ===== *)
theory WpaAuthIe
  imports RsnIe PmksaInv
begin

text \<open>
  The elements of an association request and of EAPOL-Key frames on the side of the access point (\<open>src/ap/wpa_auth_ie.c\<close>):
  \<open>wpa_validate_wpa_ie\<close>, which decides whether a station may use what it asks for and selects the ciphers, the key
  management and a cached master key; the key data encapsulations \<open>wpa_add_kde\<close> and \<open>wpa_parse_kde_ies\<close>. The
  configuration is that of this build: \<open>CONFIG_IEEE80211W\<close> and \<open>CONFIG_PEERKEY\<close>, no fast transition, SAE or P2P.
\<close>

subsection \<open>Choosing a cipher\<close>

text \<open>\<open>None\<close> is the result \<open>-1\<close>.\<close>

definition wpa_pick_pairwise_cipher :: "u32 \<Rightarrow> bool \<Rightarrow> u32 option" where
  "wpa_pick_pairwise_cipher ciphers none_allowed =
    (if ciphers AND WPA_CIPHER_CCMP_256 \<noteq> 0 then Some WPA_CIPHER_CCMP_256
     else if ciphers AND WPA_CIPHER_GCMP_256 \<noteq> 0 then Some WPA_CIPHER_GCMP_256
     else if ciphers AND WPA_CIPHER_CCMP \<noteq> 0 then Some WPA_CIPHER_CCMP
     else if ciphers AND WPA_CIPHER_GCMP \<noteq> 0 then Some WPA_CIPHER_GCMP
     else if ciphers AND WPA_CIPHER_TKIP \<noteq> 0 then Some WPA_CIPHER_TKIP
     else if none_allowed \<and> ciphers AND WPA_CIPHER_NONE \<noteq> 0 then Some WPA_CIPHER_NONE
     else None)"

definition wpa_pick_group_cipher :: "u32 \<Rightarrow> u32 option" where
  "wpa_pick_group_cipher ciphers =
    (if ciphers AND WPA_CIPHER_CCMP_256 \<noteq> 0 then Some WPA_CIPHER_CCMP_256
     else if ciphers AND WPA_CIPHER_GCMP_256 \<noteq> 0 then Some WPA_CIPHER_GCMP_256
     else if ciphers AND WPA_CIPHER_CCMP \<noteq> 0 then Some WPA_CIPHER_CCMP
     else if ciphers AND WPA_CIPHER_GCMP \<noteq> 0 then Some WPA_CIPHER_GCMP
     else if ciphers AND WPA_CIPHER_GTK_NOT_USED \<noteq> 0 then Some WPA_CIPHER_GTK_NOT_USED
     else if ciphers AND WPA_CIPHER_TKIP \<noteq> 0 then Some WPA_CIPHER_TKIP
     else None)"

definition wpa_select_ap_group_cipher :: "u32 \<Rightarrow> u32 \<Rightarrow> u32 \<Rightarrow> u32" where
  "wpa_select_ap_group_cipher wpa wpa_pairwise rsn_pairwise =
    (let pairwise = (if wpa AND 1 \<noteq> 0 then wpa_pairwise else 0) OR (if wpa AND 2 \<noteq> 0 then rsn_pairwise else 0)
     in if pairwise AND WPA_CIPHER_TKIP \<noteq> 0 then WPA_CIPHER_TKIP
     else if pairwise AND (WPA_CIPHER_CCMP OR WPA_CIPHER_GCMP) = WPA_CIPHER_GCMP then WPA_CIPHER_GCMP
     else if pairwise AND (WPA_CIPHER_GCMP_256 OR WPA_CIPHER_CCMP OR WPA_CIPHER_GCMP) = WPA_CIPHER_GCMP_256 then WPA_CIPHER_GCMP_256
     else if pairwise AND (WPA_CIPHER_CCMP_256 OR WPA_CIPHER_CCMP OR WPA_CIPHER_GCMP) = WPA_CIPHER_CCMP_256 then WPA_CIPHER_CCMP_256
     else WPA_CIPHER_CCMP)"

definition wpa_cipher_key_len :: "u32 \<Rightarrow> nat" where
  "wpa_cipher_key_len c =
    (if c = WPA_CIPHER_CCMP_256 \<or> c = WPA_CIPHER_GCMP_256 \<or> c = WPA_CIPHER_BIP_GMAC_256 \<or> c = WPA_CIPHER_BIP_CMAC_256 then 32
     else if c = WPA_CIPHER_CCMP \<or> c = WPA_CIPHER_GCMP \<or> c = WPA_CIPHER_AES_128_CMAC \<or> c = WPA_CIPHER_BIP_GMAC_128 then 16
     else if c = WPA_CIPHER_TKIP then 32
     else 0)"

definition wpa_cipher_rsc_len :: "u32 \<Rightarrow> nat" where
  "wpa_cipher_rsc_len c =
    (if c = WPA_CIPHER_CCMP_256 \<or> c = WPA_CIPHER_GCMP_256 \<or> c = WPA_CIPHER_CCMP \<or> c = WPA_CIPHER_GCMP \<or> c = WPA_CIPHER_TKIP
     then 6 else 0)"

subsection \<open>Validating the element of a station\<close>

datatype wpa_validate_result =
    WPA_IE_OK | WPA_INVALID_IE | WPA_INVALID_GROUP | WPA_INVALID_PAIRWISE | WPA_INVALID_AKMP | WPA_NOT_ENABLED | WPA_ALLOC_FAIL
  | WPA_MGMT_FRAME_PROTECTION_VIOLATION | WPA_INVALID_MGMT_GROUP_CIPHER | WPA_INVALID_MDIE | WPA_INVALID_PROTO

text \<open>The members of the authenticator and of a station's state machine that the function uses.\<close>

record wpa_authenticator =
  wa_conf :: wpa_auth_config
  wa_addr :: bytes
  wa_pmksa :: rsn_pmksa_cache
  dot11RSNAAuthenticationSuiteSelected :: u32
  dot11RSNAPairwiseCipherSelected :: u32
  dot11RSNAGroupCipherSelected :: u32
  dot11RSNAPMKIDUsed :: bytes

record wpa_state_machine =
  ws_addr :: bytes
  ws_wpa_key_mgmt :: u32
  ws_pairwise :: u32
  ws_wpa :: nat
  ws_mgmt_frame_prot :: bool
  ws_pmksa :: "rsn_pmksa_cache_entry option"
  ws_wpa_ie :: "bytes option"
  ws_wpa_ie_len :: nat

text \<open>What the system grants, and the clocks for the timeout of the cache.\<close>

record validate_env =
  ve_malloc :: bool
  ve_zalloc :: "ptr option"
  ve_copy :: copy_env
  ve_timer :: timer_env

type_synonym auth_state = "wpa_authenticator \<times> wpa_state_machine \<times> eloop_data"

abbreviation WPA_VERSION_WPA :: nat where "WPA_VERSION_WPA \<equiv> 1"
abbreviation WPA_VERSION_WPA2 :: nat where "WPA_VERSION_WPA2 \<equiv> 2"
abbreviation WPA_CAPABILITY_MFPC :: u16 where "WPA_CAPABILITY_MFPC \<equiv> 0x80"

definition rsn_akm_selector :: "u32 \<Rightarrow> u32" where
  "rsn_akm_selector km =
    (if km AND WPA_KEY_MGMT_IEEE8021X_SUITE_B_192 \<noteq> 0 then 0x000fac0c
     else if km AND WPA_KEY_MGMT_IEEE8021X_SUITE_B \<noteq> 0 then 0x000fac0b
     else if km AND WPA_KEY_MGMT_IEEE8021X_SHA256 \<noteq> 0 then 0x000fac05
     else if km AND WPA_KEY_MGMT_PSK_SHA256 \<noteq> 0 then 0x000fac06
     else if km AND WPA_KEY_MGMT_IEEE8021X \<noteq> 0 then 0x000fac01
     else if km AND WPA_KEY_MGMT_PSK \<noteq> 0 then 0x000fac02
     else 0x000fac01)"

definition wpa_akm_selector :: "u32 \<Rightarrow> u32" where
  "wpa_akm_selector km =
    (if km AND WPA_KEY_MGMT_IEEE8021X \<noteq> 0 then 0x0050f201
     else if km AND WPA_KEY_MGMT_PSK \<noteq> 0 then 0x0050f202
     else 0x0050f201)"

definition suite_or :: "u32 \<Rightarrow> u32 \<Rightarrow> u32" where
  "suite_or dflt s = (if s = 0 then dflt else s)"

definition record_selected :: "u32 \<Rightarrow> wpa_ie_data \<Rightarrow> wpa_authenticator \<Rightarrow> wpa_authenticator" where
  "record_selected version d auth =
    (if version = WPA_PROTO_RSN
     then auth\<lparr>dot11RSNAAuthenticationSuiteSelected := rsn_akm_selector (wd_key_mgmt d),
               dot11RSNAPairwiseCipherSelected := suite_or 0x000fac04 (wpa_cipher_to_suite WPA_PROTO_RSN (wd_pairwise_cipher d)),
               dot11RSNAGroupCipherSelected := suite_or 0x000fac04 (wpa_cipher_to_suite WPA_PROTO_RSN (wd_group_cipher d))\<rparr>
     else auth\<lparr>dot11RSNAAuthenticationSuiteSelected := wpa_akm_selector (wd_key_mgmt d),
               dot11RSNAPairwiseCipherSelected := suite_or 0x000fac02 (wpa_cipher_to_suite WPA_PROTO_WPA (wd_pairwise_cipher d)),
               dot11RSNAGroupCipherSelected := suite_or 0x0050f202 (wpa_cipher_to_suite WPA_PROTO_WPA (wd_group_cipher d))\<rparr>)"

definition pick_key_mgmt :: "u32 \<Rightarrow> u32" where
  "pick_key_mgmt km =
    (if km AND WPA_KEY_MGMT_IEEE8021X_SUITE_B_192 \<noteq> 0 then WPA_KEY_MGMT_IEEE8021X_SUITE_B_192
     else if km AND WPA_KEY_MGMT_IEEE8021X_SUITE_B \<noteq> 0 then WPA_KEY_MGMT_IEEE8021X_SUITE_B
     else if km AND WPA_KEY_MGMT_IEEE8021X_SHA256 \<noteq> 0 then WPA_KEY_MGMT_IEEE8021X_SHA256
     else if km AND WPA_KEY_MGMT_PSK_SHA256 \<noteq> 0 then WPA_KEY_MGMT_PSK_SHA256
     else if km AND WPA_KEY_MGMT_IEEE8021X \<noteq> 0 then WPA_KEY_MGMT_IEEE8021X
     else WPA_KEY_MGMT_PSK)"

definition check_mfp :: "wpa_auth_config \<Rightarrow> wpa_ie_data \<Rightarrow> u32 \<Rightarrow> wpa_validate_result" where
  "check_mfp conf d ciphers =
    (if ac_ieee80211w conf = MGMT_FRAME_PROTECTION_REQUIRED
     then if wd_capabilities d AND WPA_CAPABILITY_MFPC = 0 then WPA_MGMT_FRAME_PROTECTION_VIOLATION
          else if ciphers AND WPA_CIPHER_TKIP \<noteq> 0 then WPA_MGMT_FRAME_PROTECTION_VIOLATION
          else if wd_mgmt_group_cipher d \<noteq> ac_group_mgmt_cipher conf then WPA_INVALID_MGMT_GROUP_CIPHER
          else WPA_IE_OK
     else WPA_IE_OK)"

text \<open>The two loops over the PMKIDs of the element: the own cache, then the caches of all authenticators.\<close>

fun cached_pmksa :: "rsn_pmksa_cache \<Rightarrow> bytes \<Rightarrow> bytes \<Rightarrow> nat \<Rightarrow> nat \<Rightarrow> rsn_pmksa_cache_entry option outcome" where
  "cached_pmksa c spa ie off 0 = Ret None"
| "cached_pmksa c spa ie off (Suc n) =
    bind_outcome (access (rd_range ie off PMKID_LEN)) (\<lambda>p.
      case pmksa_cache_auth_get c (Some spa) (Some p) of
        Some x \<Rightarrow> Ret (Some x)
      | None \<Rightarrow> cached_pmksa c spa ie (off + PMKID_LEN) n)"

fun wpa_auth_for_each_okc :: "hmacs \<Rightarrow> bytes \<Rightarrow> bytes \<Rightarrow> bytes \<Rightarrow> rsn_pmksa_cache list \<Rightarrow> rsn_pmksa_cache_entry option" where
  "wpa_auth_for_each_okc K aa spa pmkid [] = None"
| "wpa_auth_for_each_okc K aa spa pmkid (c # cs) =
    (case pmksa_cache_get_okc K c aa spa pmkid of
       Some x \<Rightarrow> Some x
     | None \<Rightarrow> wpa_auth_for_each_okc K aa spa pmkid cs)"

fun okc_pmksa :: "hmacs \<Rightarrow> rsn_pmksa_cache list \<Rightarrow> bytes \<Rightarrow> bytes \<Rightarrow> bytes \<Rightarrow> nat \<Rightarrow> nat \<Rightarrow> (rsn_pmksa_cache_entry \<times> bytes) option outcome" where
  "okc_pmksa K caches aa spa ie off 0 = Ret None"
| "okc_pmksa K caches aa spa ie off (Suc n) =
    bind_outcome (access (rd_range ie off PMKID_LEN)) (\<lambda>p.
      case wpa_auth_for_each_okc K aa spa p caches of
        Some x \<Rightarrow> Ret (Some (x, p))
      | None \<Rightarrow> okc_pmksa K caches aa spa ie (off + PMKID_LEN) n)"

definition use_pmksa :: "rsn_pmksa_cache_entry option \<Rightarrow> bytes \<Rightarrow> wpa_authenticator \<Rightarrow> wpa_state_machine \<Rightarrow> wpa_authenticator \<times> wpa_state_machine" where
  "use_pmksa x pmkid auth sm =
    (if x = None then auth else auth\<lparr>dot11RSNAPMKIDUsed := pmkid\<rparr>, sm\<lparr>ws_pmksa := x\<rparr>)"

definition select_pmksa ::
    "hmacs \<Rightarrow> validate_env \<Rightarrow> rsn_pmksa_cache list \<Rightarrow> bytes \<Rightarrow> wpa_ie_data \<Rightarrow> auth_state \<Rightarrow> auth_state outcome" where
  "select_pmksa K E caches ie d = (\<lambda>(auth, sm, e).
    let off = (case wd_pmkid d of None \<Rightarrow> 0 | Some p \<Rightarrow> p)
    in bind_outcome (cached_pmksa (wa_pmksa auth) (ws_addr sm) ie off (wd_num_pmkid d)) (\<lambda>r. case r of
        Some x \<Rightarrow> let (auth, sm) = use_pmksa (Some x) (pe_pmkid x) auth sm in Ret (auth, sm, e)
      | None \<Rightarrow>
          if ac_okc (wa_conf auth)
          then bind_outcome (okc_pmksa K caches (wa_addr auth) (ws_addr sm) ie off (wd_num_pmkid d)) (\<lambda>r. case r of
              None \<Rightarrow> Ret (auth, sm\<lparr>ws_pmksa := None\<rparr>, e)
            | Some (x, p) \<Rightarrow>
                let (y, c, e) = pmksa_cache_add_okc (ve_copy E) (ve_timer E) (ve_zalloc E) x p (wa_pmksa auth) e;
                    (auth, sm) = use_pmksa y p (auth\<lparr>wa_pmksa := c\<rparr>) sm
                in Ret (auth, sm, e))
          else Ret (auth, sm\<lparr>ws_pmksa := None\<rparr>, e)))"

definition store_ie :: "bool \<Rightarrow> bytes \<Rightarrow> wpa_state_machine \<Rightarrow> (bool \<times> wpa_state_machine) outcome" where
  "store_ie malloc_ok ie sm =
    (if ws_wpa_ie sm = None \<or> ws_wpa_ie_len sm < length ie
     then if malloc_ok then Ret (True, sm\<lparr>ws_wpa_ie := Some ie, ws_wpa_ie_len := length ie\<rparr>)
          else Ret (False, sm\<lparr>ws_wpa_ie := None\<rparr>)
     else bind_outcome (access (wr_range (the (ws_wpa_ie sm)) 0 ie)) (\<lambda>b.
       Ret (True, sm\<lparr>ws_wpa_ie := Some b, ws_wpa_ie_len := length ie\<rparr>)))"

definition validate_data ::
    "hmacs \<Rightarrow> validate_env \<Rightarrow> rsn_pmksa_cache list \<Rightarrow> bytes \<Rightarrow> u32 \<Rightarrow> wpa_ie_data \<Rightarrow> auth_state
     \<Rightarrow> (wpa_validate_result \<times> auth_state) outcome" where
  "validate_data K E caches ie version d = (\<lambda>(auth, sm, e).
    let conf = wa_conf auth;
        key_mgmt = wd_key_mgmt d AND ac_wpa_key_mgmt conf
    in if wd_group_cipher d \<noteq> ac_wpa_group conf then Ret (WPA_INVALID_GROUP, auth, sm, e)
    else if key_mgmt = 0 then Ret (WPA_INVALID_AKMP, auth, sm, e)
    else
      let sm = sm\<lparr>ws_wpa_key_mgmt := pick_key_mgmt key_mgmt\<rparr>;
          ciphers = wd_pairwise_cipher d AND (if version = WPA_PROTO_RSN then ac_rsn_pairwise conf else ac_wpa_pairwise conf)
      in if ciphers = 0 then Ret (WPA_INVALID_PAIRWISE, auth, sm, e)
      else if check_mfp conf d ciphers \<noteq> WPA_IE_OK then Ret (check_mfp conf d ciphers, auth, sm, e)
      else
        let sm = sm\<lparr>ws_mgmt_frame_prot := \<not> (ac_ieee80211w conf = NO_MGMT_FRAME_PROTECTION \<or> wd_capabilities d AND WPA_CAPABILITY_MFPC = 0)\<rparr>
        in case wpa_pick_pairwise_cipher ciphers False of
          None \<Rightarrow> Ret (WPA_INVALID_PAIRWISE, auth, sm\<lparr>ws_pairwise := -1\<rparr>, e)
        | Some c \<Rightarrow>
            let sm = sm\<lparr>ws_pairwise := c, ws_wpa := (if version = WPA_PROTO_RSN then WPA_VERSION_WPA2 else WPA_VERSION_WPA)\<rparr>
            in bind_outcome (select_pmksa K E caches ie d (auth, sm, e)) (\<lambda>(auth, sm, e).
               bind_outcome (store_ie (ve_malloc E) ie sm) (\<lambda>(ok, sm).
                 Ret (if ok then WPA_IE_OK else WPA_ALLOC_FAIL, auth, sm, e))))"

definition parse_element :: "u32 \<Rightarrow> bytes \<Rightarrow> (int \<times> wpa_ie_data) option" where
  "parse_element version ie =
    (if version = WPA_PROTO_RSN then wpa_parse_wpa_ie_rsn ie (length ie) else wpa_parse_wpa_ie_wpa ie (length ie))"

definition ie_version :: "bytes \<Rightarrow> u32" where
  "ie_version ie = (if ie ! 0 = WLAN_EID_RSN then WPA_PROTO_RSN else WPA_PROTO_WPA)"

definition validate_ie ::
    "hmacs \<Rightarrow> validate_env \<Rightarrow> rsn_pmksa_cache list \<Rightarrow> bytes \<Rightarrow> auth_state \<Rightarrow> (wpa_validate_result \<times> auth_state) outcome" where
  "validate_ie K E caches ie = (\<lambda>(auth, sm, e).
    if length ie < 1 then Ret (WPA_INVALID_IE, auth, sm, e)
    else let version = ie_version ie
    in if ac_wpa (wa_conf auth) AND version = 0 then Ret (WPA_INVALID_PROTO, auth, sm, e)
    else bind_outcome (access (parse_element version ie)) (\<lambda>(res, d).
      let auth = record_selected version d auth
      in if res \<noteq> 0 then Ret (WPA_INVALID_IE, auth, sm, e)
      else validate_data K E caches ie version d (auth, sm, e)))"

text \<open>The first checks: \<open>NULL\<close> pointers.\<close>

definition wpa_validate_wpa_ie ::
    "hmacs \<Rightarrow> validate_env \<Rightarrow> rsn_pmksa_cache list \<Rightarrow> wpa_authenticator option \<Rightarrow> wpa_state_machine option \<Rightarrow> bytes option \<Rightarrow> eloop_data
     \<Rightarrow> (wpa_validate_result \<times> wpa_authenticator option \<times> wpa_state_machine option \<times> eloop_data) outcome" where
  "wpa_validate_wpa_ie K E caches wpa_auth sm wpa_ie e =
    (case (wpa_auth, sm) of
       (Some a, Some s) \<Rightarrow>
         (case wpa_ie of
            None \<Rightarrow> Ret (WPA_INVALID_IE, wpa_auth, sm, e)
          | Some ie \<Rightarrow> bind_outcome (validate_ie K E caches ie (a, s, e)) (\<lambda>(r, a, s, e). Ret (r, Some a, Some s, e)))
     | _ \<Rightarrow> Ret (WPA_NOT_ENABLED, wpa_auth, sm, e))"

definition wpa_auth_uses_mfp :: "wpa_state_machine option \<Rightarrow> bool" where
  "wpa_auth_uses_mfp sm = (case sm of None \<Rightarrow> False | Some s \<Rightarrow> ws_mgmt_frame_prot s)"

subsection \<open>Key data\<close>

text \<open>
  A pointer member and its length member are one optional pair of an offset in the key data and a length. Members of other
  configurations are left out.
\<close>

record wpa_eapol_ie_parse =
  kp_wpa_ie :: "(nat \<times> nat) option"
  kp_rsn_ie :: "(nat \<times> nat) option"
  kp_pmkid :: "nat option"
  kp_gtk :: "(nat \<times> nat) option"
  kp_mac_addr :: "(nat \<times> nat) option"
  kp_smk :: "(nat \<times> nat) option"
  kp_nonce :: "(nat \<times> nat) option"
  kp_lifetime :: "(nat \<times> nat) option"
  kp_error :: "(nat \<times> nat) option"
  kp_igtk :: "(nat \<times> nat) option"
  kp_osen :: "(nat \<times> nat) option"

definition no_ies :: wpa_eapol_ie_parse where
  "no_ies = \<lparr>kp_wpa_ie = None, kp_rsn_ie = None, kp_pmkid = None, kp_gtk = None, kp_mac_addr = None, kp_smk = None, kp_nonce = None,
     kp_lifetime = None, kp_error = None, kp_igtk = None, kp_osen = None\<rparr>"

text \<open>The source has \<open>data2_len\<close> zero when \<open>data2\<close> is \<open>NULL\<close>. The length byte wraps around.\<close>

definition wpa_add_kde :: "u32 \<Rightarrow> bytes \<Rightarrow> bytes option \<Rightarrow> bytes" where
  "wpa_add_kde kde data data2 =
    (let data2 = (case data2 of None \<Rightarrow> [] | Some d \<Rightarrow> d)
     in [WLAN_EID_VENDOR_SPECIFIC, of_nat (4 + length data + length data2)] @ WPA_PUT_BE32 kde @ data @ data2)"

text \<open>A chain of \<open>if (guard && selector == s) { update; return 0; }\<close> is its table; the first test that holds decides.\<close>

definition kde_test :: "bytes \<Rightarrow> nat \<Rightarrow> bool \<Rightarrow> u32 \<Rightarrow> bool option" where
  "kde_test buf pos guard sel = (if guard then do { s \<leftarrow> get_sel buf (pos + 2); Some (s = sel) } else Some False)"

primrec first_kde ::
    "bytes \<Rightarrow> nat \<Rightarrow> (bool \<times> u32 \<times> (wpa_eapol_ie_parse \<Rightarrow> wpa_eapol_ie_parse)) list \<Rightarrow> wpa_eapol_ie_parse \<Rightarrow> wpa_eapol_ie_parse option" where
  "first_kde buf pos [] ie = Some ie"
| "first_kde buf pos (x # table) ie =
    (case x of (guard, sel, update) \<Rightarrow>
      do { b \<leftarrow> kde_test buf pos guard sel; if b then Some (update ie) else first_kde buf pos table ie })"

definition is_wpa_ie :: "bytes \<Rightarrow> nat \<Rightarrow> nat \<Rightarrow> bool option" where
  "is_wpa_ie buf pos l =
    do { b \<leftarrow> kde_test buf pos (l \<ge> 6) WPA_OUI_TYPE;
         if b then do { v \<leftarrow> rd buf (pos + 6); if v = 1 then do { v \<leftarrow> rd buf (pos + 7); Some (v = 0) } else Some False }
         else Some False }"

abbreviation RSN_KEY_DATA_GROUPKEY :: u32 where "RSN_KEY_DATA_GROUPKEY \<equiv> 0x000fac01"
abbreviation RSN_KEY_DATA_MAC_ADDR :: u32 where "RSN_KEY_DATA_MAC_ADDR \<equiv> 0x000fac03"
abbreviation RSN_KEY_DATA_PMKID :: u32 where "RSN_KEY_DATA_PMKID \<equiv> 0x000fac04"
abbreviation RSN_KEY_DATA_SMK :: u32 where "RSN_KEY_DATA_SMK \<equiv> 0x000fac05"
abbreviation RSN_KEY_DATA_NONCE :: u32 where "RSN_KEY_DATA_NONCE \<equiv> 0x000fac06"
abbreviation RSN_KEY_DATA_LIFETIME :: u32 where "RSN_KEY_DATA_LIFETIME \<equiv> 0x000fac07"
abbreviation RSN_KEY_DATA_ERROR :: u32 where "RSN_KEY_DATA_ERROR \<equiv> 0x000fac08"
abbreviation RSN_KEY_DATA_IGTK :: u32 where "RSN_KEY_DATA_IGTK \<equiv> 0x000fac09"

definition kde_table :: "nat \<Rightarrow> nat \<Rightarrow> nat \<Rightarrow> (bool \<times> u32 \<times> (wpa_eapol_ie_parse \<Rightarrow> wpa_eapol_ie_parse)) list" where
  "kde_table pos end_pos l =
    [(l \<ge> 4, OSEN_IE_VENDOR_TYPE, \<lambda>ie. ie\<lparr>kp_osen := Some (pos, l + 2)\<rparr>),
     (pos + 1 + 4 < end_pos \<and> l \<ge> 4 + PMKID_LEN, RSN_KEY_DATA_PMKID, \<lambda>ie. ie\<lparr>kp_pmkid := Some (pos + 6)\<rparr>),
     (l > 6, RSN_KEY_DATA_GROUPKEY, \<lambda>ie. ie\<lparr>kp_gtk := Some (pos + 6, l - 4)\<rparr>),
     (l > 6, RSN_KEY_DATA_MAC_ADDR, \<lambda>ie. ie\<lparr>kp_mac_addr := Some (pos + 6, l - 4)\<rparr>),
     (l > 6, RSN_KEY_DATA_SMK, \<lambda>ie. ie\<lparr>kp_smk := Some (pos + 6, l - 4)\<rparr>),
     (l > 6, RSN_KEY_DATA_NONCE, \<lambda>ie. ie\<lparr>kp_nonce := Some (pos + 6, l - 4)\<rparr>),
     (l > 6, RSN_KEY_DATA_LIFETIME, \<lambda>ie. ie\<lparr>kp_lifetime := Some (pos + 6, l - 4)\<rparr>),
     (l > 6, RSN_KEY_DATA_ERROR, \<lambda>ie. ie\<lparr>kp_error := Some (pos + 6, l - 4)\<rparr>),
     (l > 6, RSN_KEY_DATA_IGTK, \<lambda>ie. ie\<lparr>kp_igtk := Some (pos + 6, l - 4)\<rparr>)]"

definition wpa_parse_generic :: "bytes \<Rightarrow> nat \<Rightarrow> nat \<Rightarrow> wpa_eapol_ie_parse \<Rightarrow> (int \<times> wpa_eapol_ie_parse) option" where
  "wpa_parse_generic buf pos end_pos ie =
    do { len \<leftarrow> rd buf (pos + 1);
         let l = unat len;
         if l = 0 then Some (1, ie)
         else do {
           w \<leftarrow> is_wpa_ie buf pos l;
           if w then Some (0, ie\<lparr>kp_wpa_ie := Some (pos, l + 2)\<rparr>)
           else do { ie \<leftarrow> first_kde buf pos (kde_table pos end_pos l) ie; Some (0, ie) } } }"

text \<open>The next position of the loop, or its result.\<close>

definition kde_step :: "bytes \<Rightarrow> nat \<Rightarrow> nat \<Rightarrow> wpa_eapol_ie_parse \<Rightarrow> ((int \<times> wpa_eapol_ie_parse) + (nat \<times> wpa_eapol_ie_parse)) option" where
  "kde_step buf len pos ie =
    do { id \<leftarrow> rd buf pos;
         l \<leftarrow> rd buf (pos + 1);
         let next_pos = pos + 2 + unat l;
         if id = 0xdd \<and> (pos = len - 1 \<or> l = 0) then Some (Inl (0, ie))
         else if next_pos > len then Some (Inl (-1, ie))
         else if id = WLAN_EID_RSN then Some (Inr (next_pos, ie\<lparr>kp_rsn_ie := Some (pos, unat l + 2)\<rparr>))
         else if id = WLAN_EID_VENDOR_SPECIFIC then do {
           (ret, ie) \<leftarrow> wpa_parse_generic buf pos len ie;
           if ret < 0 then Some (Inl (ret, ie))
           else if ret > 0 then Some (Inl (0, ie))
           else Some (Inr (next_pos, ie)) }
         else Some (Inr (next_pos, ie)) }"

lemma kde_step_next: "kde_step buf len pos ie = Some (Inr (p, ie')) \<Longrightarrow> pos + 2 \<le> p"
  by (auto simp: kde_step_def Let_def bind_eq_Some_conv split: if_splits)

function kde_loop :: "bytes \<Rightarrow> nat \<Rightarrow> nat \<Rightarrow> wpa_eapol_ie_parse \<Rightarrow> (int \<times> wpa_eapol_ie_parse) option" where
  "kde_loop buf len pos ie =
    (if pos + 1 < len
     then (case kde_step buf len pos ie of
         None \<Rightarrow> None
       | Some (Inl r) \<Rightarrow> Some r
       | Some (Inr (p, ie)) \<Rightarrow> kde_loop buf len p ie)
     else Some (0, ie))"
  by auto
termination
  by (relation "measure (\<lambda>(buf, len, pos, ie). len - pos)") (auto dest: kde_step_next)

declare kde_loop.simps [simp del]

definition wpa_parse_kde_ies :: "bytes \<Rightarrow> nat \<Rightarrow> (int \<times> wpa_eapol_ie_parse) option" where
  "wpa_parse_kde_ies buf len = kde_loop buf len 0 no_ies"

subsection \<open>Key data: safety\<close>

text \<open>Everything that the parser reports lies inside the key data.\<close>

definition range_ok :: "nat \<Rightarrow> (nat \<times> nat) option \<Rightarrow> bool" where
  "range_ok n r = (case r of None \<Rightarrow> True | Some (off, len) \<Rightarrow> off + len \<le> n)"

definition kdes_ok :: "nat \<Rightarrow> wpa_eapol_ie_parse \<Rightarrow> bool" where
  "kdes_ok n ie = (range_ok n (kp_wpa_ie ie) \<and> range_ok n (kp_rsn_ie ie) \<and> (case kp_pmkid ie of None \<Rightarrow> True | Some p \<Rightarrow> p + PMKID_LEN \<le> n)
     \<and> range_ok n (kp_gtk ie) \<and> range_ok n (kp_mac_addr ie) \<and> range_ok n (kp_smk ie) \<and> range_ok n (kp_nonce ie)
     \<and> range_ok n (kp_lifetime ie) \<and> range_ok n (kp_error ie) \<and> range_ok n (kp_igtk ie) \<and> range_ok n (kp_osen ie))"

lemma kde_test_reads:
  assumes "guard \<longrightarrow> pos + 6 \<le> length buf"
  shows "\<exists>b. kde_test buf pos guard sel = Some b \<and> (b \<longrightarrow> guard)"
  using assms by (auto simp: kde_test_def get_sel_def rd_range_def)

lemma first_kde_ok:
  assumes "\<forall>(g, s, u) \<in> set table. g \<longrightarrow> pos + 6 \<le> length buf \<and> (\<forall>ie. kdes_ok n ie \<longrightarrow> kdes_ok n (u ie))" and "kdes_ok n ie"
  shows "\<exists>ie'. first_kde buf pos table ie = Some ie' \<and> kdes_ok n ie'"
  using assms
proof (induction table)
  case (Cons x table)
  obtain g s u where x: "x = (g, s, u)" by (cases x)
  then obtain b where b: "kde_test buf pos g s = Some b" "b \<longrightarrow> g"
    using kde_test_reads[of g pos buf s] Cons.prems(1) by auto
  then show ?case using Cons x by (cases b) auto
qed simp

lemma kde_table_ok:
  assumes "pos + 2 + l \<le> length buf"
  shows "\<forall>(g, s, u) \<in> set (kde_table pos e l). g \<longrightarrow> pos + 6 \<le> length buf \<and> (\<forall>ie. kdes_ok (length buf) ie \<longrightarrow> kdes_ok (length buf) (u ie))"
  using assms by (simp add: kde_table_def kdes_ok_def range_ok_def)

lemma is_wpa_ie_reads:
  assumes "pos + 2 + l \<le> length buf"
  shows "\<exists>b. is_wpa_ie buf pos l = Some b"
  using assms kde_test_reads[of "l \<ge> 6" pos buf WPA_OUI_TYPE] by (auto simp: is_wpa_ie_def rd_def)

lemma wpa_parse_generic_ok:
  assumes "rd buf (pos + 1) = Some len" and "pos + 2 + unat len \<le> length buf" and "kdes_ok (length buf) ie"
  shows "\<exists>ret ie'. wpa_parse_generic buf pos e ie = Some (ret, ie') \<and> (ret = 0 \<or> ret = 1) \<and> kdes_ok (length buf) ie'"
proof -
  obtain b where b: "is_wpa_ie buf pos (unat len) = Some b" using is_wpa_ie_reads[OF assms(2)] by blast
  have w: "kdes_ok (length buf) (ie\<lparr>kp_wpa_ie := Some (pos, unat len + 2)\<rparr>)"
    using assms by (simp add: kdes_ok_def range_ok_def)
  show ?thesis using b w assms(1,3) first_kde_ok[OF kde_table_ok[OF assms(2)] assms(3), of e]
    by (cases b) (auto simp: wpa_parse_generic_def Let_def)
qed

lemma kde_step_ok:
  assumes "pos + 1 < length buf" and "kdes_ok (length buf) ie"
  shows "\<exists>r. kde_step buf (length buf) pos ie = Some r \<and>
    (case r of Inl (ret, ie') \<Rightarrow> (ret = 0 \<or> ret = -1) \<and> kdes_ok (length buf) ie' | Inr (p, ie') \<Rightarrow> kdes_ok (length buf) ie')"
proof -
  obtain i l where r: "rd buf pos = Some i" "rd buf (pos + 1) = Some l" using assms(1) by (auto simp: rd_def)
  show ?thesis
  proof (cases "pos + 2 + unat l \<le> length buf")
    case True
    obtain ret ie' where g: "wpa_parse_generic buf pos (length buf) ie = Some (ret, ie')" "ret = 0 \<or> ret = 1" "kdes_ok (length buf) ie'"
      using wpa_parse_generic_ok[OF r(2) True assms(2)] by blast
    have w: "kdes_ok (length buf) (ie\<lparr>kp_rsn_ie := Some (pos, unat l + 2)\<rparr>)"
      using assms True by (simp add: kdes_ok_def range_ok_def)
    show ?thesis using r True g w assms(2) by (auto simp: kde_step_def Let_def)
  qed (use r assms(2) in \<open>auto simp: kde_step_def Let_def\<close>)
qed

lemma kde_loop_ok:
  assumes "kdes_ok (length buf) ie"
  shows "\<exists>ret ie'. kde_loop buf (length buf) pos ie = Some (ret, ie') \<and> (ret = 0 \<or> ret = -1) \<and> kdes_ok (length buf) ie'"
  using assms
proof (induction "length buf - pos" arbitrary: pos ie rule: less_induct)
  case less
  show ?case
  proof (cases "pos + 1 < length buf")
    case True
    then obtain r where r: "kde_step buf (length buf) pos ie = Some r"
      "case r of Inl (ret, ie') \<Rightarrow> (ret = 0 \<or> ret = -1) \<and> kdes_ok (length buf) ie' | Inr (p, ie') \<Rightarrow> kdes_ok (length buf) ie'"
      using kde_step_ok less.prems by blast
    show ?thesis
    proof (cases r)
      case (Inl x)
      then show ?thesis using r True by (subst kde_loop.simps) (auto split: prod.splits)
    next
      case (Inr x)
      obtain p ie' where x: "x = (p, ie')" by (cases x)
      then have "length buf - p < length buf - pos" using kde_step_next[of buf "length buf" pos ie p ie'] r Inr True by auto
      then show ?thesis using less.hyps[of p ie'] r Inr x True by (subst kde_loop.simps) auto
    qed
  qed (use less.prems in \<open>subst kde_loop.simps, auto\<close>)
qed

lemma wpa_parse_kde_ies_ok:
  "\<exists>ret ie. wpa_parse_kde_ies buf (length buf) = Some (ret, ie) \<and> (ret = 0 \<or> ret = -1) \<and> kdes_ok (length buf) ie"
  unfolding wpa_parse_kde_ies_def by (rule kde_loop_ok) (simp add: kdes_ok_def range_ok_def no_ies_def)

subsection \<open>Key data: round trip\<close>

text \<open>The encapsulations by selector. A PMKID has no length member: its length is fixed.\<close>

definition kde_field :: "u32 \<Rightarrow> wpa_eapol_ie_parse \<Rightarrow> (nat \<times> nat) option" where
  "kde_field sel ie =
    (if sel = RSN_KEY_DATA_GROUPKEY then kp_gtk ie else if sel = RSN_KEY_DATA_MAC_ADDR then kp_mac_addr ie
     else if sel = RSN_KEY_DATA_PMKID then map_option (\<lambda>p. (p, PMKID_LEN)) (kp_pmkid ie)
     else if sel = RSN_KEY_DATA_SMK then kp_smk ie else if sel = RSN_KEY_DATA_NONCE then kp_nonce ie
     else if sel = RSN_KEY_DATA_LIFETIME then kp_lifetime ie else if sel = RSN_KEY_DATA_ERROR then kp_error ie
     else kp_igtk ie)"

definition kde_known :: "u32 \<Rightarrow> bool" where
  "kde_known sel = (sel \<in> {RSN_KEY_DATA_GROUPKEY, RSN_KEY_DATA_MAC_ADDR, RSN_KEY_DATA_PMKID, RSN_KEY_DATA_SMK, RSN_KEY_DATA_NONCE,
     RSN_KEY_DATA_LIFETIME, RSN_KEY_DATA_ERROR, RSN_KEY_DATA_IGTK})"

text \<open>The contents that the parser takes: at least three bytes, for a PMKID its sixteen, and no more than the length byte can say.\<close>

definition kde_fits :: "u32 \<Rightarrow> bytes \<Rightarrow> bool" where
  "kde_fits sel d = (kde_known sel \<and> 2 < length d \<and> length d \<le> 251 \<and> (sel = RSN_KEY_DATA_PMKID \<longrightarrow> length d = PMKID_LEN))"

definition kde_contents :: "bytes \<Rightarrow> u32 \<Rightarrow> wpa_eapol_ie_parse \<Rightarrow> bytes option" where
  "kde_contents buf sel ie = (case kde_field sel ie of None \<Rightarrow> None | Some (off, len) \<Rightarrow> rd_range buf off len)"

text \<open>What one encapsulation changes.\<close>

lemma kde_test_put:
  assumes "get_sel buf (pos + 2) = Some sel"
  shows "kde_test buf pos g s = Some (g \<and> sel = s)"
  using assms by (simp add: kde_test_def)

lemma first_kde_known:
  assumes "get_sel buf (pos + 2) = Some sel" and "kde_known sel" and "l > 6" and "sel = RSN_KEY_DATA_PMKID \<longrightarrow> l = 4 + PMKID_LEN" and "pos + 5 < e"
  shows "\<exists>ie'. first_kde buf pos (kde_table pos e l) ie = Some ie' \<and> kde_field sel ie' = Some (pos + 6, l - 4)
    \<and> (\<forall>s. kde_known s \<and> s \<noteq> sel \<longrightarrow> kde_field s ie' = kde_field s ie)"
proof -
  note T = kde_table_def kde_test_put[OF assms(1)] kde_field_def
  from assms(2) consider "sel = RSN_KEY_DATA_GROUPKEY" | "sel = RSN_KEY_DATA_MAC_ADDR" | "sel = RSN_KEY_DATA_PMKID" | "sel = RSN_KEY_DATA_SMK" | "sel = RSN_KEY_DATA_NONCE"
    | "sel = RSN_KEY_DATA_LIFETIME" | "sel = RSN_KEY_DATA_ERROR" | "sel = RSN_KEY_DATA_IGTK"
    unfolding kde_known_def by blast
  then show ?thesis by cases (use assms(3-5) in \<open>simp_all add: T\<close>, (auto simp: kde_known_def)?)
qed

lemma kde_step_put:
  assumes "kde_fits sel d" and "buf = pre @ wpa_add_kde sel d None @ post"
  shows "\<exists>ie'. kde_step buf (length buf) (length pre) ie = Some (Inr (length (pre @ wpa_add_kde sel d None), ie'))
    \<and> kde_contents buf sel ie' = Some d \<and> (\<forall>s. kde_known s \<and> s \<noteq> sel \<longrightarrow> kde_contents buf s ie' = kde_contents buf s ie)"
proof -
  have fits: "kde_known sel" "2 < length d" "length d \<le> 251" "sel = RSN_KEY_DATA_PMKID \<longrightarrow> length d = PMKID_LEN"
    using assms(1) by (simp_all add: kde_fits_def)
  define L :: u8 where "L = of_nat (4 + length d)"
  have k: "wpa_add_kde sel d None = [221, L] @ WPA_PUT_BE32 sel @ d" by (simp add: wpa_add_kde_def L_def)
  have u: "unat L = 4 + length d" unfolding L_def unat_of_nat using fits(3) by simp
  have nz: "L \<noteq> 0" using u by (metis add_is_0 unat_0 zero_neq_numeral)
  have b: "buf = (pre @ [221, L]) @ WPA_PUT_BE32 sel @ d @ post" using assms(2) k by simp
  have sel: "get_sel buf (length pre + 2) = Some sel" using get_sel_put[of "pre @ [221, L]" sel "d @ post"] b by simp
  have r: "rd buf (length pre) = Some 221" "rd buf (length pre + 1) = Some L" by (simp_all add: rd_def b nth_append)
  have w: "is_wpa_ie buf (length pre) (4 + length d) = Some False"
  proof -
    have "sel \<noteq> WPA_OUI_TYPE" using fits(1) by (auto simp: kde_known_def)
    then show ?thesis by (simp add: is_wpa_ie_def kde_test_put[OF sel])
  qed
  obtain ie' where f: "first_kde buf (length pre) (kde_table (length pre) (length buf) (4 + length d)) ie = Some ie'"
    "kde_field sel ie' = Some (length pre + 6, length d)" "\<And>s. kde_known s \<and> s \<noteq> sel \<Longrightarrow> kde_field s ie' = kde_field s ie"
    using first_kde_known[OF sel fits(1), of "4 + length d" "length buf" ie] fits(2,4) by (auto simp: b)
  have g: "wpa_parse_generic buf (length pre) (length buf) ie = Some (0, ie')"
    using r(2) w f(1) by (simp add: wpa_parse_generic_def u)
  have c: "rd_range buf (length pre + 6) (length d) = Some d"
    using rd_range_at[of "pre @ [221, L] @ WPA_PUT_BE32 sel" d post] b by (simp add: add.commute)
  have "length buf \<ge> length pre + 2 + (4 + length d)" by (simp add: b)
  then have "kde_step buf (length buf) (length pre) ie = Some (Inr (length pre + 2 + (4 + length d), ie'))"
    using r g nz u by (simp add: kde_step_def)
  then show ?thesis using f(2,3) c by (simp add: kde_contents_def k)
qed

text \<open>An encapsulation of two pieces is one of their concatenation.\<close>

definition pieces :: "bytes \<Rightarrow> bytes option \<Rightarrow> bytes" where
  "pieces data data2 = data @ (case data2 of None \<Rightarrow> [] | Some d \<Rightarrow> d)"

lemma wpa_add_kde_pieces: "wpa_add_kde sel data data2 = wpa_add_kde sel (pieces data data2) None"
  by (simp add: wpa_add_kde_def pieces_def Let_def add.assoc)

definition put_kdes :: "(u32 \<times> bytes \<times> bytes option) list \<Rightarrow> bytes" where
  "put_kdes ks = concat (map (\<lambda>(sel, data, data2). wpa_add_kde sel data data2) ks)"

definition kde_map :: "(u32 \<times> bytes \<times> bytes option) list \<Rightarrow> u32 \<rightharpoonup> bytes" where
  "kde_map ks = map_of (rev (map (\<lambda>(sel, data, data2). (sel, pieces data data2)) ks))"

lemma kde_loop_put:
  assumes "\<forall>(sel, data, data2) \<in> set ks. kde_fits sel (pieces data data2)" and "buf = pre @ put_kdes ks"
  shows "\<exists>ie'. kde_loop buf (length buf) (length pre) ie = Some (0, ie')
    \<and> (\<forall>s. kde_known s \<longrightarrow> kde_contents buf s ie' = (case kde_map ks s of None \<Rightarrow> kde_contents buf s ie | Some d \<Rightarrow> Some d))"
  using assms
proof (induction ks arbitrary: pre ie)
  case Nil
  then show ?case by (subst kde_loop.simps) (simp add: put_kdes_def kde_map_def)
next
  case (Cons x ks)
  obtain sel data data2 where x: "x = (sel, data, data2)" by (cases x)
  define d where "d = pieces data data2"
  let ?pre = "pre @ wpa_add_kde sel d None"
  have k: "kde_fits sel d" using Cons.prems(1) x by (auto simp: d_def)
  have b: "buf = pre @ wpa_add_kde sel d None @ put_kdes ks"
    using Cons.prems(2) x by (simp add: put_kdes_def d_def wpa_add_kde_pieces[of sel data data2])
  obtain ie1 where s: "kde_step buf (length buf) (length pre) ie = Some (Inr (length ?pre, ie1))" "kde_contents buf sel ie1 = Some d"
      "\<forall>s. kde_known s \<and> s \<noteq> sel \<longrightarrow> kde_contents buf s ie1 = kde_contents buf s ie"
    using kde_step_put[OF k b, of ie] by blast
  obtain ie2 where l: "kde_loop buf (length buf) (length ?pre) ie1 = Some (0, ie2)"
      "\<forall>s. kde_known s \<longrightarrow> kde_contents buf s ie2 = (case kde_map ks s of None \<Rightarrow> kde_contents buf s ie1 | Some d \<Rightarrow> Some d)"
    using Cons.IH[of ?pre ie1] Cons.prems(1) b by auto
  have "length pre + 1 < length buf" by (simp add: b wpa_add_kde_def)
  then have "kde_loop buf (length buf) (length pre) ie = Some (0, ie2)"
    using s(1) l(1) by (subst kde_loop.simps) simp
  moreover have "kde_contents buf s ie2 = (case kde_map (x # ks) s of None \<Rightarrow> kde_contents buf s ie | Some d \<Rightarrow> Some d)"
    if "kde_known s" for s
    using l(2) s(2,3) that x by (auto simp: kde_map_def d_def map_add_def split: option.splits)
  ultimately show ?case by blast
qed

text \<open>
  C28. The key data of an EAPOL-Key frame: the parser returns on every byte string, reads nothing outside of it and reports only ranges inside of
  it. And what \<open>wpa_add_kde\<close> encapsulates under the selectors that the parser knows (group key, integrity group key, address, PMKID, SMK, nonce, lifetime, error), in one piece or in two, in
  any order and number, it finds again, where the contents have 3 to 251 bytes and a PMKID its 16: for every one of these selectors the bytes it reports are those of the last
  encapsulation under it, and where there is none it reports none.
\<close>

theorem kde_round_trip:
  "(\<exists>ret ie. wpa_parse_kde_ies buf (length buf) = Some (ret, ie) \<and> (ret = 0 \<or> ret = -1) \<and> kdes_ok (length buf) ie)
   \<and> ((\<forall>(sel, data, data2) \<in> set ks. kde_fits sel (pieces data data2)) \<longrightarrow>
       (\<exists>ie. wpa_parse_kde_ies (put_kdes ks) (length (put_kdes ks)) = Some (0, ie)
         \<and> (\<forall>s. kde_known s \<longrightarrow> kde_contents (put_kdes ks) s ie = kde_map ks s)))"
proof -
  have none: "kde_contents b s no_ies = None" for b s by (simp add: kde_contents_def kde_field_def no_ies_def)
  show ?thesis
    using wpa_parse_kde_ies_ok[of buf] kde_loop_put[of ks "put_kdes ks" "[]" no_ies]
    by (auto simp: wpa_parse_kde_ies_def none option.case_eq_if)
qed

theorem kde_round_trip_witness:
  "\<exists>ie. wpa_parse_kde_ies (put_kdes [(RSN_KEY_DATA_GROUPKEY, [1, 0], Some (replicate 16 5)), (RSN_KEY_DATA_PMKID, replicate 16 6, None)])
      (length (put_kdes [(RSN_KEY_DATA_GROUPKEY, [1, 0], Some (replicate 16 5)), (RSN_KEY_DATA_PMKID, replicate 16 6, None)])) = Some (0, ie)
    \<and> kde_contents (put_kdes [(RSN_KEY_DATA_GROUPKEY, [1, 0], Some (replicate 16 5)), (RSN_KEY_DATA_PMKID, replicate 16 6, None)]) RSN_KEY_DATA_GROUPKEY ie
      = Some ([1, 0] @ replicate 16 5)"
proof -
  let ?ks = "[(RSN_KEY_DATA_GROUPKEY, [1, 0], Some (replicate 16 5)), (RSN_KEY_DATA_PMKID, replicate 16 6, None)] :: (u32 \<times> bytes \<times> bytes option) list"
  have ok: "\<forall>(sel, data, data2) \<in> set ?ks. kde_fits sel (pieces data data2)" by (simp add: kde_fits_def kde_known_def pieces_def)
  have "kde_known RSN_KEY_DATA_GROUPKEY" "kde_map ?ks RSN_KEY_DATA_GROUPKEY = Some ([1, 0] @ replicate 16 5)" by (simp_all add: kde_known_def kde_map_def pieces_def)
  then show ?thesis using mp[OF conjunct2[OF kde_round_trip] ok] by metis
qed

subsection \<open>Validation: what is selected\<close>

lemma is_bit_and: "is_bit b \<Longrightarrow> c AND b = (if c AND b = 0 then 0 else b)"
proof -
  assume "is_bit b"
  then obtain k where k: "b = push_bit k 1" by (auto simp: is_bit_def)
  have "c AND b = (if bit c k then b else 0)" unfolding k by (rule bit_word_eqI) (auto simp: bit_simps)
  then show ?thesis by (auto split: if_splits)
qed

definition key_mgmt_ok :: "u32 \<Rightarrow> bool" where
  "key_mgmt_ok km = (km AND RSN_KEY_MGMT_MASK = km)"

lemma pick_key_mgmt_bit:
  assumes "km \<noteq> 0" and "key_mgmt_ok km"
  shows "km AND pick_key_mgmt km = pick_key_mgmt km \<and> pick_key_mgmt km \<noteq> 0"
proof -
  have m: "RSN_KEY_MGMT_MASK = 0x20000 OR 0x10000 OR 0x80 OR 0x100 OR 0x1 OR 0x2" by (simp add: RSN_KEY_MGMT_MASK_def)
  have "km = km AND 0x20000 OR km AND 0x10000 OR km AND 0x80 OR km AND 0x100 OR km AND 0x1 OR km AND 0x2"
    using assms(2) unfolding key_mgmt_ok_def m bit.conj_disj_distrib by metis
  then have psk: "km AND 0x2 \<noteq> 0"
    if "km AND 0x20000 = 0" "km AND 0x10000 = 0" "km AND 0x80 = 0" "km AND 0x100 = 0" "km AND 0x1 = 0"
    using that assms(1) by (metis or.left_neutral)
  show ?thesis
    using is_bit_and[of "0x20000" km] is_bit_and[of "0x10000" km] is_bit_and[of "0x80" km] is_bit_and[of "0x100" km]
      is_bit_and[of "0x1" km] is_bit_and[of "0x2" km] psk
    unfolding pick_key_mgmt_def by (auto split: if_splits)
qed

text \<open>Pairwise ciphers in the order of preference.\<close>

definition cipher_order :: "u32 list" where
  "cipher_order = [WPA_CIPHER_CCMP_256, WPA_CIPHER_GCMP_256, WPA_CIPHER_CCMP, WPA_CIPHER_GCMP, WPA_CIPHER_TKIP]"

lemma pick_pairwise_find: "wpa_pick_pairwise_cipher ciphers False = find (\<lambda>c. ciphers AND c \<noteq> 0) cipher_order"
  by (simp add: wpa_pick_pairwise_cipher_def cipher_order_def)

definition offered_pmkids :: "bytes \<Rightarrow> wpa_ie_data \<Rightarrow> bytes list" where
  "offered_pmkids ie d = (case wd_pmkid d of None \<Rightarrow> [] | Some off \<Rightarrow>
     map (\<lambda>i. take PMKID_LEN (drop (off + PMKID_LEN * i) ie)) [0..<wd_num_pmkid d])"

definition pmkids_from :: "bytes \<Rightarrow> nat \<Rightarrow> nat \<Rightarrow> bytes list" where
  "pmkids_from ie off n = map (\<lambda>i. take PMKID_LEN (drop (off + PMKID_LEN * i) ie)) [0..<n]"

lemma pmkids_from_Suc: "pmkids_from ie off (Suc n) = take PMKID_LEN (drop off ie) # pmkids_from ie (off + PMKID_LEN) n"
  unfolding pmkids_from_def by (subst upt_conv_Cons) (simp_all add: map_Suc_upt[symmetric] o_def add.assoc del: upt_Suc)

lemma cached_pmksa_char:
  "off + PMKID_LEN * n \<le> length ie \<Longrightarrow>
    \<exists>r. cached_pmksa c spa ie off n = Ret r \<and> (\<forall>x. r = Some x \<longrightarrow> pe_spa x = spa \<and> pe_pmkid x \<in> set (pmkids_from ie off n))"
proof (induction n arbitrary: off)
  case (Suc n)
  let ?p = "take PMKID_LEN (drop off ie)"
  have p: "rd_range ie off PMKID_LEN = Some ?p" using Suc.prems by (simp add: rd_range_def)
  show ?case
  proof (cases "pmksa_cache_auth_get c (Some spa) (Some ?p)")
    case None
    then show ?thesis using Suc.IH[of "off + PMKID_LEN"] Suc.prems p by (auto simp: pmkids_from_Suc)
  next
    case (Some x)
    then have "pe_spa x = spa" "pe_pmkid x = ?p" by (auto simp: pmksa_cache_auth_get_def find_Some_iff)
    then show ?thesis using p Some by (simp add: pmkids_from_Suc)
  qed
qed simp

lemma for_each_okc_spa: "wpa_auth_for_each_okc K aa spa p cs = Some x \<Longrightarrow> pe_spa x = spa"
  by (induction cs) (auto simp: pmksa_cache_get_okc_def find_Some_iff split: option.splits)

lemma okc_pmksa_char:
  "off + PMKID_LEN * n \<le> length ie \<Longrightarrow>
    \<exists>r. okc_pmksa K caches aa spa ie off n = Ret r \<and> (\<forall>x p. r = Some (x, p) \<longrightarrow> pe_spa x = spa \<and> p \<in> set (pmkids_from ie off n))"
proof (induction n arbitrary: off)
  case (Suc n)
  let ?p = "take PMKID_LEN (drop off ie)"
  have p: "rd_range ie off PMKID_LEN = Some ?p" using Suc.prems by (simp add: rd_range_def)
  show ?case
  proof (cases "wpa_auth_for_each_okc K aa spa ?p caches")
    case None
    then show ?thesis using Suc.IH[of "off + PMKID_LEN"] Suc.prems p by (auto simp: pmkids_from_Suc)
  next
    case (Some x)
    then show ?thesis using p for_each_okc_spa[OF Some] by (simp add: pmkids_from_Suc)
  qed
qed simp

definition pmksa_offered :: "bytes \<Rightarrow> wpa_ie_data \<Rightarrow> wpa_state_machine \<Rightarrow> bool" where
  "pmksa_offered ie d sm = (case ws_pmksa sm of None \<Rightarrow> True | Some x \<Rightarrow> pe_spa x = ws_addr sm \<and> pe_pmkid x \<in> set (offered_pmkids ie d))"

lemma add_okc_entry:
  "pmksa_cache_add_okc A T z x p c e = (y, c', e') \<Longrightarrow> y = Some w \<Longrightarrow> pe_spa w = pe_spa x \<and> pe_pmkid w = p"
  by (auto simp: pmksa_cache_add_okc_def okc_entry_def Let_def split: option.splits prod.splits)

lemma select_pmksa_char:
  assumes "ids_ok (length ie) d"
  shows "\<exists>a' y e'. select_pmksa K E caches ie d (a, s, e) = Ret (a', s\<lparr>ws_pmksa := y\<rparr>, e') \<and> wa_conf a' = wa_conf a
    \<and> pmksa_offered ie d (s\<lparr>ws_pmksa := y\<rparr>)"
proof -
  define off where "off = (case wd_pmkid d of None \<Rightarrow> 0 | Some p \<Rightarrow> p)"
  have len: "off + PMKID_LEN * wd_num_pmkid d \<le> length ie" using assms by (auto simp: ids_ok_def off_def split: option.splits)
  have ids: "offered_pmkids ie d = pmkids_from ie off (wd_num_pmkid d)"
    using assms by (auto simp: offered_pmkids_def pmkids_from_def off_def ids_ok_def split: option.splits)
  obtain r where r: "cached_pmksa (wa_pmksa a) (ws_addr s) ie off (wd_num_pmkid d) = Ret r"
    "\<And>x. r = Some x \<Longrightarrow> pe_spa x = ws_addr s \<and> pe_pmkid x \<in> set (offered_pmkids ie d)"
    using cached_pmksa_char[OF len] unfolding ids by blast
  obtain q where q: "okc_pmksa K caches (wa_addr a) (ws_addr s) ie off (wd_num_pmkid d) = Ret q"
    "\<And>x p. q = Some (x, p) \<Longrightarrow> pe_spa x = ws_addr s \<and> p \<in> set (offered_pmkids ie d)"
    using okc_pmksa_char[OF len] unfolding ids by blast
  note S = select_pmksa_def prod.case Let_def off_def[symmetric] r(1) q(1) bind_outcome.simps
  have none: "pmksa_offered ie d (s\<lparr>ws_pmksa := None\<rparr>)" by (simp add: pmksa_offered_def)
  show ?thesis
  proof (cases r)
    case (Some x)
    then have "pmksa_offered ie d (s\<lparr>ws_pmksa := Some x\<rparr>)" using r(2) by (simp add: pmksa_offered_def)
    then show ?thesis unfolding S using Some by (auto simp: use_pmksa_def intro!: exI[of _ "Some x"])
  next
    case None
    note r_None = None
    show ?thesis
    proof (cases "ac_okc (wa_conf a) \<and> q \<noteq> None")
      case True
      then obtain x p where x: "q = Some (x, p)" by auto
      obtain y c e' where y: "pmksa_cache_add_okc (ve_copy E) (ve_timer E) (ve_zalloc E) x p (wa_pmksa a) e = (y, c, e')"
        by (metis prod_cases3)
      have o: "pmksa_offered ie d (s\<lparr>ws_pmksa := y\<rparr>)"
        using add_okc_entry[OF y] q(2)[OF x] by (auto simp: pmksa_offered_def split: option.splits)
      show ?thesis
        unfolding S using r_None True x y o by (auto simp: use_pmksa_def intro!: exI[of _ y])
    next
      case False
      then show ?thesis unfolding S using r_None none by (cases q) (auto intro!: exI[of _ None])
    qed
  qed
qed

definition ws_ok :: "wpa_state_machine \<Rightarrow> bool" where
  "ws_ok sm = (case ws_wpa_ie sm of None \<Rightarrow> True | Some b \<Rightarrow> ws_wpa_ie_len sm \<le> length b)"

lemma ws_ok_update [simp]:
  "ws_ok (sm\<lparr>ws_wpa_key_mgmt := k\<rparr>) = ws_ok sm" "ws_ok (sm\<lparr>ws_mgmt_frame_prot := p\<rparr>) = ws_ok sm"
  "ws_ok (sm\<lparr>ws_pairwise := q\<rparr>) = ws_ok sm" "ws_ok (sm\<lparr>ws_wpa := v\<rparr>) = ws_ok sm" "ws_ok (sm\<lparr>ws_pmksa := y\<rparr>) = ws_ok sm"
  by (simp_all add: ws_ok_def split: option.splits)

definition can_store :: "bool \<Rightarrow> bytes \<Rightarrow> wpa_state_machine \<Rightarrow> bool" where
  "can_store malloc_ok ie sm = (malloc_ok \<or> ws_wpa_ie sm \<noteq> None \<and> length ie \<le> ws_wpa_ie_len sm)"

definition ie_stored :: "bytes \<Rightarrow> wpa_state_machine \<Rightarrow> bool" where
  "ie_stored ie sm = (case ws_wpa_ie sm of None \<Rightarrow> False | Some b \<Rightarrow> take (ws_wpa_ie_len sm) b = ie)"

lemma store_ie_char:
  assumes "ws_ok s"
  shows "\<exists>s'. store_ie m ie s = Ret (can_store m ie s, s') \<and> ws_ok s' \<and> (can_store m ie s \<longrightarrow> ie_stored ie s')
    \<and> (\<exists>b n. s' = s\<lparr>ws_wpa_ie := b, ws_wpa_ie_len := n\<rparr>)"
proof (cases "ws_wpa_ie s = None \<or> ws_wpa_ie_len s < length ie")
  case True
  show ?thesis
  proof (cases m)
    case True
    then show ?thesis using \<open>ws_wpa_ie s = None \<or> ws_wpa_ie_len s < length ie\<close>
      by (auto simp: store_ie_def can_store_def ws_ok_def ie_stored_def)
  next
    case False
    moreover have "\<exists>b n. s\<lparr>ws_wpa_ie := None\<rparr> = s\<lparr>ws_wpa_ie := b, ws_wpa_ie_len := n\<rparr>"
      by (intro exI[of _ None] exI[of _ "ws_wpa_ie_len s"]) (cases s, simp)
    ultimately show ?thesis using \<open>ws_wpa_ie s = None \<or> ws_wpa_ie_len s < length ie\<close>
      by (auto simp: store_ie_def can_store_def ws_ok_def ie_stored_def)
  qed
next
  case False
  then obtain b where b: "ws_wpa_ie s = Some b" "length ie \<le> length b" using assms by (auto simp: ws_ok_def)
  then show ?thesis using False
    by (auto simp: store_ie_def can_store_def ws_ok_def ie_stored_def wr_range_def)
qed

text \<open>
  The policy: what an element must offer to be accepted under a configuration, and what an accepted station is given.
\<close>

definition config_pairwise :: "u32 \<Rightarrow> wpa_auth_config \<Rightarrow> u32" where
  "config_pairwise version conf = (if version = WPA_PROTO_RSN then ac_rsn_pairwise conf else ac_wpa_pairwise conf)"

definition best_common :: "u32 \<Rightarrow> u32 \<Rightarrow> u32 option" where
  "best_common offered configured = find (\<lambda>c. offered AND configured AND c \<noteq> 0) cipher_order"

definition admissible :: "wpa_auth_config \<Rightarrow> u32 \<Rightarrow> wpa_ie_data \<Rightarrow> bool" where
  "admissible conf version d =
    (wd_group_cipher d = ac_wpa_group conf \<and> wd_key_mgmt d AND ac_wpa_key_mgmt conf \<noteq> 0
     \<and> best_common (wd_pairwise_cipher d) (config_pairwise version conf) \<noteq> None
     \<and> (ac_ieee80211w conf = MGMT_FRAME_PROTECTION_REQUIRED \<longrightarrow>
          wd_capabilities d AND WPA_CAPABILITY_MFPC \<noteq> 0 \<and> wd_mgmt_group_cipher d = ac_group_mgmt_cipher conf
          \<and> wd_pairwise_cipher d AND config_pairwise version conf AND WPA_CIPHER_TKIP = 0))"

definition negotiated :: "wpa_auth_config \<Rightarrow> u32 \<Rightarrow> wpa_ie_data \<Rightarrow> wpa_state_machine \<Rightarrow> bool" where
  "negotiated conf version d sm =
    (ws_wpa_key_mgmt sm \<noteq> 0 \<and> wd_key_mgmt d AND ac_wpa_key_mgmt conf AND ws_wpa_key_mgmt sm = ws_wpa_key_mgmt sm
     \<and> best_common (wd_pairwise_cipher d) (config_pairwise version conf) = Some (ws_pairwise sm)
     \<and> ws_mgmt_frame_prot sm = (ac_ieee80211w conf \<noteq> NO_MGMT_FRAME_PROTECTION \<and> wd_capabilities d AND WPA_CAPABILITY_MFPC \<noteq> 0)
     \<and> (ac_ieee80211w conf = MGMT_FRAME_PROTECTION_REQUIRED \<longrightarrow> ws_mgmt_frame_prot sm \<and> ws_pairwise sm \<noteq> WPA_CIPHER_TKIP)
     \<and> ws_wpa sm = (if version = WPA_PROTO_RSN then WPA_VERSION_WPA2 else WPA_VERSION_WPA))"

definition accepted :: "wpa_auth_config \<Rightarrow> bytes \<Rightarrow> wpa_ie_data \<Rightarrow> wpa_state_machine \<Rightarrow> bool" where
  "accepted conf ie d sm = (negotiated conf (ie_version ie) d sm \<and> pmksa_offered ie d sm \<and> ie_stored ie sm)"

lemma best_common_TKIP:
  "best_common x y = Some c \<Longrightarrow> x AND y AND WPA_CIPHER_TKIP = 0 \<Longrightarrow> c \<noteq> WPA_CIPHER_TKIP"
  by (auto simp: best_common_def cipher_order_def split: if_splits)

definition selected :: "wpa_auth_config \<Rightarrow> u32 \<Rightarrow> wpa_ie_data \<Rightarrow> u32 \<Rightarrow> wpa_state_machine \<Rightarrow> wpa_state_machine" where
  "selected conf version d c s = s\<lparr>ws_wpa_key_mgmt := pick_key_mgmt (wd_key_mgmt d AND ac_wpa_key_mgmt conf),
     ws_mgmt_frame_prot := \<not> (ac_ieee80211w conf = NO_MGMT_FRAME_PROTECTION \<or> wd_capabilities d AND WPA_CAPABILITY_MFPC = 0),
     ws_pairwise := c, ws_wpa := (if version = WPA_PROTO_RSN then WPA_VERSION_WPA2 else WPA_VERSION_WPA)\<rparr>"

lemma selected_negotiated:
  assumes adm: "admissible conf version d" and km: "key_mgmt_ok (ac_wpa_key_mgmt conf)"
    and c: "best_common (wd_pairwise_cipher d) (config_pairwise version conf) = Some c"
  shows "negotiated conf version d (selected conf version d c s\<lparr>ws_pmksa := y, ws_wpa_ie := b, ws_wpa_ie_len := n\<rparr>)"
proof -
  let ?km = "wd_key_mgmt d AND ac_wpa_key_mgmt conf"
  have "key_mgmt_ok ?km" using km by (simp add: key_mgmt_ok_def and.assoc)
  then have "?km AND pick_key_mgmt ?km = pick_key_mgmt ?km" "pick_key_mgmt ?km \<noteq> 0"
    using pick_key_mgmt_bit[of ?km] adm by (auto simp: admissible_def)
  then show ?thesis using adm c best_common_TKIP[OF c] by (auto simp: negotiated_def selected_def and.assoc admissible_def)
qed

lemma validate_data_char:
  assumes ids: "ids_ok (length ie) d" and ok: "ws_ok s" and km: "key_mgmt_ok (ac_wpa_key_mgmt (wa_conf a))"
    and v: "version = ie_version ie"
  shows "\<exists>r a' s' e'. validate_data K E caches ie version d (a, s, e) = Ret (r, a', s', e') \<and> ws_ok s'
    \<and> (r = WPA_IE_OK \<longleftrightarrow> admissible (wa_conf a) version d \<and> can_store (ve_malloc E) ie s)
    \<and> (r = WPA_IE_OK \<longrightarrow> accepted (wa_conf a) ie d s' \<and> ws_addr s' = ws_addr s)"
proof -
  let ?conf = "wa_conf a"
  let ?km = "wd_key_mgmt d AND ac_wpa_key_mgmt ?conf" and ?c = "wd_pairwise_cipher d AND config_pairwise version ?conf"
  note D = validate_data_def Let_def prod.case config_pairwise_def[symmetric]
  have best: "wpa_pick_pairwise_cipher ?c False = best_common (wd_pairwise_cipher d) (config_pairwise version ?conf)"
    by (simp add: pick_pairwise_find best_common_def and.assoc)
  have zero: "?c = 0 \<Longrightarrow> best_common (wd_pairwise_cipher d) (config_pairwise version ?conf) = None"
    by (simp add: best_common_def cipher_order_def and.assoc[symmetric])
  have mfp: "check_mfp ?conf d ?c = WPA_IE_OK \<longleftrightarrow> (ac_ieee80211w ?conf = MGMT_FRAME_PROTECTION_REQUIRED \<longrightarrow>
      wd_capabilities d AND WPA_CAPABILITY_MFPC \<noteq> 0 \<and> wd_mgmt_group_cipher d = ac_group_mgmt_cipher ?conf
      \<and> wd_pairwise_cipher d AND config_pairwise version ?conf AND WPA_CIPHER_TKIP = 0)"
    by (auto simp: check_mfp_def and.assoc)
  show ?thesis
  proof (cases "admissible ?conf version d")
    case False
    then show ?thesis
      unfolding D using ok zero mfp best
      by (auto simp: admissible_def split: option.splits)
  next
    case True
    obtain c where c: "best_common (wd_pairwise_cipher d) (config_pairwise version ?conf) = Some c" using True by (auto simp: admissible_def)
    define s1 where "s1 = selected ?conf version d c s"
    obtain a' y e' where p: "select_pmksa K E caches ie d (a, s1, e) = Ret (a', s1\<lparr>ws_pmksa := y\<rparr>, e')"
      "pmksa_offered ie d (s1\<lparr>ws_pmksa := y\<rparr>)" using select_pmksa_char[OF ids] by blast
    have "ws_ok (s1\<lparr>ws_pmksa := y\<rparr>)" using ok by (simp add: s1_def selected_def)
    then obtain s' b n where st: "store_ie (ve_malloc E) ie (s1\<lparr>ws_pmksa := y\<rparr>) = Ret (can_store (ve_malloc E) ie (s1\<lparr>ws_pmksa := y\<rparr>), s')"
      "ws_ok s'" "can_store (ve_malloc E) ie (s1\<lparr>ws_pmksa := y\<rparr>) \<longrightarrow> ie_stored ie s'"
      "s' = s1\<lparr>ws_pmksa := y, ws_wpa_ie := b, ws_wpa_ie_len := n\<rparr>"
      using store_ie_char[of "s1\<lparr>ws_pmksa := y\<rparr>" "ve_malloc E" ie] by blast
    have can: "can_store (ve_malloc E) ie (s1\<lparr>ws_pmksa := y\<rparr>) = can_store (ve_malloc E) ie s" by (simp add: can_store_def s1_def selected_def)
    have neg: "negotiated ?conf version d s'" unfolding st(4) s1_def by (rule selected_negotiated[OF True km c])
    have po: "pmksa_offered ie d s'" using p(2) by (auto simp: st(4) pmksa_offered_def split: option.splits)
    have "validate_data K E caches ie version d (a, s, e)
        = Ret (if can_store (ve_malloc E) ie s then WPA_IE_OK else WPA_ALLOC_FAIL, a', s', e')"
    proof -
      have "wd_group_cipher d = ac_wpa_group ?conf" "?km \<noteq> 0" "?c \<noteq> 0" "check_mfp ?conf d ?c = WPA_IE_OK"
        using True zero mfp c by (auto simp: admissible_def)
      then show ?thesis
        unfolding D best c option.case selected_def[symmetric] s1_def[symmetric] p(1) bind_outcome.simps st(1) can by simp
    qed
    moreover have "ws_addr s' = ws_addr s" by (simp add: st(4) s1_def selected_def)
    ultimately show ?thesis using True st(2,3) can neg po v by (auto simp: accepted_def)
  qed
qed

lemma parse_element_ok:
  "\<exists>ret d. parse_element version ie = Some (ret, d) \<and> ids_ok (length ie) d"
  using wpa_parse_rsn_good[of ie] wpa_parse_wpa_good[of ie] by (auto simp: parse_element_def)

text \<open>
  C27. Validation of the element in an association request, against its specification. For every byte string, every configuration of
  known key management methods and every state the function returns. It accepts exactly when the protocol version is enabled,
  the element parses, the group cipher is the configured one, a key management method and a pairwise cipher are offered and
  configured, required management frame protection is offered with the right cipher and without TKIP, and the element can be stored. A
  station that is accepted has an offered and configured key management method, the best common pairwise cipher, protection exactly when
  both sides have it (always when required, and then never TKIP), a cached master key only for its own address and a PMKID
  that it has offered, and its element is stored for the later comparison in the four-way handshake.
\<close>

theorem wpa_validate_refines_policy:
  assumes "ws_ok s" and "key_mgmt_ok (ac_wpa_key_mgmt (wa_conf a))"
  shows "\<exists>r a' s' e'. wpa_validate_wpa_ie K E caches (Some a) (Some s) (Some ie) e = Ret (r, Some a', Some s', e') \<and> ws_ok s'
    \<and> (r = WPA_IE_OK \<longleftrightarrow> ie \<noteq> [] \<and> ac_wpa (wa_conf a) AND ie_version ie \<noteq> 0
        \<and> (\<exists>d. parse_element (ie_version ie) ie = Some (0, d) \<and> admissible (wa_conf a) (ie_version ie) d)
        \<and> can_store (ve_malloc E) ie s)
    \<and> (r = WPA_IE_OK \<longrightarrow> (\<exists>d. parse_element (ie_version ie) ie = Some (0, d) \<and> accepted (wa_conf a) ie d s' \<and> ws_addr s' = ws_addr s))"
proof -
  obtain ret d where p: "parse_element (ie_version ie) ie = Some (ret, d)" "ids_ok (length ie) d" using parse_element_ok by blast
  define a1 where "a1 = record_selected (ie_version ie) d a"
  have c: "wa_conf a1 = wa_conf a" by (simp add: a1_def record_selected_def)
  obtain r a' s' e' where v: "validate_data K E caches ie (ie_version ie) d (a1, s, e) = Ret (r, a', s', e')" "ws_ok s'"
    "r = WPA_IE_OK \<longleftrightarrow> admissible (wa_conf a) (ie_version ie) d \<and> can_store (ve_malloc E) ie s"
    "r = WPA_IE_OK \<longrightarrow> accepted (wa_conf a) ie d s' \<and> ws_addr s' = ws_addr s"
    using validate_data_char[OF p(2) assms(1), of a1 "ie_version ie" K E caches e] assms(2) unfolding c by blast
  show ?thesis
  proof (cases "ie \<noteq> [] \<and> ac_wpa (wa_conf a) AND ie_version ie \<noteq> 0 \<and> ret = 0")
    case True
    then have "wpa_validate_wpa_ie K E caches (Some a) (Some s) (Some ie) e = Ret (r, Some a', Some s', e')"
      using p(1) v(1) by (simp add: wpa_validate_wpa_ie_def validate_ie_def Let_def Suc_le_eq a1_def)
    then show ?thesis using v(2-4) True p(1) by auto
  next
    case False
    then show ?thesis using p(1) assms(1)
      by (auto simp: wpa_validate_wpa_ie_def validate_ie_def Let_def)
  qed
qed

definition example_auth :: wpa_authenticator where
  "example_auth = \<lparr>wa_conf = example_conf\<lparr>ac_ieee80211w := NO_MGMT_FRAME_PROTECTION\<rparr>, wa_addr = replicate 6 1, wa_pmksa = pmksa_cache_auth_init 1,
     dot11RSNAAuthenticationSuiteSelected = 0, dot11RSNAPairwiseCipherSelected = 0, dot11RSNAGroupCipherSelected = 0,
     dot11RSNAPMKIDUsed = replicate 16 0\<rparr>"

definition example_sm :: wpa_state_machine where
  "example_sm = \<lparr>ws_addr = replicate 6 2, ws_wpa_key_mgmt = 0, ws_pairwise = 0, ws_wpa = 0, ws_mgmt_frame_prot = False, ws_pmksa = None,
     ws_wpa_ie = None, ws_wpa_ie_len = 0\<rparr>"

definition example_ie :: bytes where
  "example_ie = [48, 20, 1, 0, 0, 0x0f, 0xac, 4, 1, 0, 0, 0x0f, 0xac, 4, 1, 0, 0, 0x0f, 0xac, 2, 0, 0]"

definition example_env :: validate_env where
  "example_env = \<lparr>ve_malloc = True, ve_zalloc = Some 7, ve_copy = all_granted, ve_timer = env5\<rparr>"

theorem wpa_validate_refines_policy_witness:
  "\<exists>a' s' e'. wpa_validate_wpa_ie toy_hmacs example_env [] (Some example_auth) (Some example_sm) (Some example_ie) (snd (snd (one_entry True)))
      = Ret (WPA_IE_OK, Some a', Some s', e') \<and> ws_pairwise s' = WPA_CIPHER_CCMP"
proof -
  have "map_option fst (parse_element (ie_version example_ie) example_ie) = Some 0" by code_simp
  then obtain d where d: "parse_element (ie_version example_ie) example_ie = Some (0, d)" by auto
  have "map_option (\<lambda>p. admissible (wa_conf example_auth) (ie_version example_ie) (snd p)
      \<and> best_common (wd_pairwise_cipher (snd p)) (config_pairwise (ie_version example_ie) (wa_conf example_auth)) = Some WPA_CIPHER_CCMP)
      (parse_element (ie_version example_ie) example_ie) = Some True" by code_simp
  then have adm: "admissible (wa_conf example_auth) (ie_version example_ie) d"
    "best_common (wd_pairwise_cipher d) (config_pairwise (ie_version example_ie) (wa_conf example_auth)) = Some WPA_CIPHER_CCMP"
    using d by simp_all
  have h: "ws_ok example_sm" "key_mgmt_ok (ac_wpa_key_mgmt (wa_conf example_auth))" "example_ie \<noteq> []"
    "ac_wpa (wa_conf example_auth) AND ie_version example_ie \<noteq> 0" "can_store (ve_malloc example_env) example_ie example_sm"
    by code_simp+
  obtain r a' s' e' where r:
    "wpa_validate_wpa_ie toy_hmacs example_env [] (Some example_auth) (Some example_sm) (Some example_ie) (snd (snd (one_entry True))) = Ret (r, Some a', Some s', e')"
    "r = WPA_IE_OK" "\<exists>d. parse_element (ie_version example_ie) example_ie = Some (0, d) \<and> accepted (wa_conf example_auth) example_ie d s'"
    using wpa_validate_refines_policy[OF h(1,2), of toy_hmacs example_env "[]" example_ie "snd (snd (one_entry True))"] d adm(1) h(3-5) by blast
  then have "ws_pairwise s' = WPA_CIPHER_CCMP" using d adm(2) by (auto simp: accepted_def negotiated_def)
  then show ?thesis using r by blast
qed

end
