(* ===== verification/WpaKeys.thy ===== *)
theory WpaKeys
  imports WpaAuthIe HexText
begin

text \<open>
  Keys of the four-way handshake: the pseudo-random functions (\<open>src/crypto/sha1-prf.c\<close>, \<open>src/crypto/sha256-prf.c\<close>), the derivation of
  the pairwise transient key and the integrity code of EAPOL-Key frames (\<open>src/common/wpa_common.c\<close>), and the
  layout of these frames. The message authentication codes, the key wrap and the stream cipher are parameters;
  the forms of the codes that take several pieces of data are taken to succeed.
\<close>

record crypto = hmacs +
  hmac_md5 :: "bytes \<Rightarrow> bytes \<Rightarrow> bytes option"
  hmac_sha1 :: "bytes \<Rightarrow> bytes \<Rightarrow> bytes option"
  omac1_aes_128 :: "bytes \<Rightarrow> bytes \<Rightarrow> bytes option"
  aes_wrap :: "bytes \<Rightarrow> bytes \<Rightarrow> bytes option"
  rc4_skip :: "bytes \<Rightarrow> nat \<Rightarrow> bytes \<Rightarrow> bytes"

subsection \<open>Pseudo-random functions\<close>

abbreviation SHA1_MAC_LEN :: nat where "SHA1_MAC_LEN \<equiv> 20"
abbreviation SHA256_MAC_LEN :: nat where "SHA256_MAC_LEN \<equiv> 32"

function sha1_prf_loop :: "(u8 \<Rightarrow> bytes) \<Rightarrow> u8 \<Rightarrow> nat \<Rightarrow> bytes" where
  "sha1_prf_loop hash counter plen =
    (if plen = 0 then []
     else if plen \<ge> SHA1_MAC_LEN then hash counter @ sha1_prf_loop hash (counter + 1) (plen - SHA1_MAC_LEN)
     else take plen (hash counter))"
  by auto
termination by (relation "measure (\<lambda>(hash, counter, plen). plen)") auto

declare sha1_prf_loop.simps [simp del]

definition sha1_prf :: "('a hmacs_scheme) \<Rightarrow> bytes \<Rightarrow> bytes \<Rightarrow> bytes \<Rightarrow> nat \<Rightarrow> bytes" where
  "sha1_prf K key label data buf_len =
    sha1_prf_loop (\<lambda>counter. hmac_sha1_vector K key [label @ [0], data, [counter]]) 0 buf_len"

function sha256_prf_loop :: "(u16 \<Rightarrow> bytes) \<Rightarrow> u16 \<Rightarrow> nat \<Rightarrow> bytes" where
  "sha256_prf_loop hash counter plen =
    (if plen = 0 then []
     else if plen \<ge> SHA256_MAC_LEN then hash counter @ sha256_prf_loop hash (counter + 1) (plen - SHA256_MAC_LEN)
     else take plen (hash counter))"
  by auto
termination by (relation "measure (\<lambda>(hash, counter, plen). plen)") auto

declare sha256_prf_loop.simps [simp del]

definition sha256_prf_bits :: "('a hmacs_scheme) \<Rightarrow> bytes \<Rightarrow> bytes \<Rightarrow> bytes \<Rightarrow> nat \<Rightarrow> bytes" where
  "sha256_prf_bits K key label data bits =
    (let buf = sha256_prf_loop
           (\<lambda>counter. hmac_sha256_vector K key [WPA_PUT_LE16 counter, label, data, WPA_PUT_LE16 (of_nat bits)]) 1 ((bits + 7) div 8)
     in if bits mod 8 \<noteq> 0 then buf[length buf - 1 := buf ! (length buf - 1) AND push_bit (8 - bits mod 8) 0xff] else buf)"

definition sha256_prf :: "('a hmacs_scheme) \<Rightarrow> bytes \<Rightarrow> bytes \<Rightarrow> bytes \<Rightarrow> nat \<Rightarrow> bytes" where
  "sha256_prf K key label data buf_len = sha256_prf_bits K key label data (buf_len * 8)"

subsection \<open>The pairwise transient key\<close>

record wpa_ptk =
  kck :: bytes
  kek :: bytes
  tk :: bytes

definition zero_ptk :: wpa_ptk where
  "zero_ptk = \<lparr>kck = [], kek = [], tk = []\<rparr>"

definition wpa_kck_len :: "u32 \<Rightarrow> nat" where
  "wpa_kck_len akmp = (if akmp = WPA_KEY_MGMT_IEEE8021X_SUITE_B_192 then 24 else 16)"

definition wpa_kek_len :: "u32 \<Rightarrow> nat" where
  "wpa_kek_len akmp = (if akmp = WPA_KEY_MGMT_IEEE8021X_SUITE_B_192 then 32 else 16)"

definition wpa_mic_len :: "u32 \<Rightarrow> nat" where
  "wpa_mic_len akmp = (if akmp = WPA_KEY_MGMT_IEEE8021X_SUITE_B_192 then 24 else 16)"

text \<open>\<open>memcmp (a, b) < 0\<close>.\<close>

fun memcmp_less :: "bytes \<Rightarrow> bytes \<Rightarrow> bool" where
  "memcmp_less (x # xs) (y # ys) = (x < y \<or> x = y \<and> memcmp_less xs ys)"
| "memcmp_less _ _ = False"

definition ordered_pair :: "bytes \<Rightarrow> bytes \<Rightarrow> bytes" where
  "ordered_pair a b = (if memcmp_less a b then a @ b else b @ a)"

definition wpa_pmk_to_ptk ::
    "('a hmacs_scheme) \<Rightarrow> bytes \<Rightarrow> bytes \<Rightarrow> bytes \<Rightarrow> bytes \<Rightarrow> bytes \<Rightarrow> bytes \<Rightarrow> u32 \<Rightarrow> u32 \<Rightarrow> wpa_ptk" where
  "wpa_pmk_to_ptk K pmk label addr1 addr2 nonce1 nonce2 akmp cipher =
    (let data = ordered_pair addr1 addr2 @ ordered_pair nonce1 nonce2;
         n1 = wpa_kck_len akmp;
         n2 = wpa_kek_len akmp;
         n3 = wpa_cipher_key_len cipher;
         tmp = (if wpa_key_mgmt_sha256 akmp then sha256_prf K pmk label data (n1 + n2 + n3)
                else sha1_prf K pmk label data (n1 + n2 + n3))
     in \<lparr>kck = take n1 tmp, kek = take n2 (drop n1 tmp), tk = take n3 (drop (n1 + n2) tmp)\<rparr>)"

subsection \<open>EAPOL-Key frames\<close>

text \<open>Offsets in the frame, from the EAPOL header on.\<close>

abbreviation EAPOL_HDR :: nat where "EAPOL_HDR \<equiv> 4"
abbreviation KEY_LEN :: nat where "KEY_LEN \<equiv> 95"
abbreviation KEY192_LEN :: nat where "KEY192_LEN \<equiv> 103"
abbreviation MIC_OFF :: nat where "MIC_OFF \<equiv> 81"

abbreviation WPA_KEY_INFO_TYPE_MASK :: u16 where "WPA_KEY_INFO_TYPE_MASK \<equiv> 7"
abbreviation WPA_KEY_INFO_TYPE_AKM_DEFINED :: u16 where "WPA_KEY_INFO_TYPE_AKM_DEFINED \<equiv> 0"
abbreviation WPA_KEY_INFO_TYPE_HMAC_MD5_RC4 :: u16 where "WPA_KEY_INFO_TYPE_HMAC_MD5_RC4 \<equiv> 1"
abbreviation WPA_KEY_INFO_TYPE_HMAC_SHA1_AES :: u16 where "WPA_KEY_INFO_TYPE_HMAC_SHA1_AES \<equiv> 2"
abbreviation WPA_KEY_INFO_TYPE_AES_128_CMAC :: u16 where "WPA_KEY_INFO_TYPE_AES_128_CMAC \<equiv> 3"
abbreviation WPA_KEY_INFO_KEY_TYPE :: u16 where "WPA_KEY_INFO_KEY_TYPE \<equiv> 0x8"
abbreviation WPA_KEY_INFO_INSTALL :: u16 where "WPA_KEY_INFO_INSTALL \<equiv> 0x40"
abbreviation WPA_KEY_INFO_ACK :: u16 where "WPA_KEY_INFO_ACK \<equiv> 0x80"
abbreviation WPA_KEY_INFO_MIC :: u16 where "WPA_KEY_INFO_MIC \<equiv> 0x100"
abbreviation WPA_KEY_INFO_SECURE :: u16 where "WPA_KEY_INFO_SECURE \<equiv> 0x200"
abbreviation WPA_KEY_INFO_ERROR :: u16 where "WPA_KEY_INFO_ERROR \<equiv> 0x400"
abbreviation WPA_KEY_INFO_REQUEST :: u16 where "WPA_KEY_INFO_REQUEST \<equiv> 0x800"
abbreviation WPA_KEY_INFO_ENCR_KEY_DATA :: u16 where "WPA_KEY_INFO_ENCR_KEY_DATA \<equiv> 0x1000"
abbreviation WPA_KEY_INFO_SMK_MESSAGE :: u16 where "WPA_KEY_INFO_SMK_MESSAGE \<equiv> 0x2000"

abbreviation EAPOL_KEY_TYPE_RSN :: u8 where "EAPOL_KEY_TYPE_RSN \<equiv> 2"
abbreviation EAPOL_KEY_TYPE_WPA :: u8 where "EAPOL_KEY_TYPE_WPA \<equiv> 254"

definition slice :: "nat \<Rightarrow> nat \<Rightarrow> bytes \<Rightarrow> bytes" where
  "slice off n data = take n (drop off data)"

definition key_hdr_len :: "u32 \<Rightarrow> nat" where
  "key_hdr_len akmp = (if wpa_mic_len akmp = 24 then KEY192_LEN else KEY_LEN)"

definition key_type :: "bytes \<Rightarrow> u8" where
  "key_type data = data ! 4"

definition key_info :: "bytes \<Rightarrow> u16" where
  "key_info data = WPA_GET_BE16 (slice 5 2 data)"

definition replay_counter :: "bytes \<Rightarrow> bytes" where
  "replay_counter data = slice 9 8 data"

definition key_nonce :: "bytes \<Rightarrow> bytes" where
  "key_nonce data = slice 17 32 data"

definition key_data_length :: "u32 \<Rightarrow> bytes \<Rightarrow> u16" where
  "key_data_length akmp data = WPA_GET_BE16 (slice (EAPOL_HDR + key_hdr_len akmp - 2) 2 data)"

definition key_data :: "u32 \<Rightarrow> bytes \<Rightarrow> bytes" where
  "key_data akmp data = slice (EAPOL_HDR + key_hdr_len akmp) (unat (key_data_length akmp data)) data"

text \<open>The integrity code of this build: Suite B and OSEN are not compiled in.\<close>

definition wpa_eapol_key_mic :: "'a crypto_scheme \<Rightarrow> bytes \<Rightarrow> u32 \<Rightarrow> u16 \<Rightarrow> bytes \<Rightarrow> bytes option" where
  "wpa_eapol_key_mic K key akmp ver buf =
    (if ver = WPA_KEY_INFO_TYPE_HMAC_MD5_RC4 then hmac_md5 K key buf
     else if ver = WPA_KEY_INFO_TYPE_HMAC_SHA1_AES then map_option (take 16) (hmac_sha1 K key buf)
     else if ver = WPA_KEY_INFO_TYPE_AES_128_CMAC then omac1_aes_128 K key buf
     else None)"

definition put_mic :: "bytes \<Rightarrow> bytes \<Rightarrow> bytes" where
  "put_mic data mic = take MIC_OFF data @ mic @ drop (MIC_OFF + length mic) data"

text \<open>
  The result is that the return value is 0. The code is computed into the zeroed field of the frame, which may be longer; the frame
  is restored after that.
\<close>

definition wpa_verify_key_mic :: "'a crypto_scheme \<Rightarrow> u32 \<Rightarrow> wpa_ptk \<Rightarrow> bytes \<Rightarrow> bool" where
  "wpa_verify_key_mic K akmp ptk data =
    (length data \<ge> EAPOL_HDR + KEY_LEN \<and>
     (let n = wpa_mic_len akmp;
          mic = slice MIC_OFF n data
      in map_option (\<lambda>m. take n (m @ replicate n 0))
           (wpa_eapol_key_mic K (kck ptk) akmp (key_info data AND WPA_KEY_INFO_TYPE_MASK) (put_mic data (replicate n 0)))
         = Some mic))"

subsection \<open>Agreement\<close>

lemma memcmp_less_total:
  "length a = length b \<Longrightarrow> a = b \<or> memcmp_less a b \<noteq> memcmp_less b a"
proof (induction a arbitrary: b)
  case (Cons x a)
  then obtain y b' where "b = y # b'" by (cases b) auto
  with Cons show ?case by auto
qed simp

lemma ordered_pair_commute: "length a = length b \<Longrightarrow> ordered_pair a b = ordered_pair b a"
  using memcmp_less_total[of a b] by (auto simp: ordered_pair_def)

text \<open>Both sides of the handshake derive the same key.\<close>

lemma wpa_pmk_to_ptk_commute:
  "length addr1 = length addr2 \<Longrightarrow> length nonce1 = length nonce2 \<Longrightarrow>
    wpa_pmk_to_ptk K pmk label addr1 addr2 nonce1 nonce2 akmp cipher = wpa_pmk_to_ptk K pmk label addr2 addr1 nonce2 nonce1 akmp cipher"
  unfolding wpa_pmk_to_ptk_def by (simp add: ordered_pair_commute[of addr1] ordered_pair_commute[of nonce1])

lemma put_mic_zero: "length f \<ge> MIC_OFF + n \<Longrightarrow> slice MIC_OFF n f = replicate n 0 \<Longrightarrow> length mic = n \<Longrightarrow> put_mic (put_mic f mic) (replicate n 0) = f"
proof -
  assume a: "length f \<ge> MIC_OFF + n" "slice MIC_OFF n f = replicate n 0" "length mic = n"
  have "f = take MIC_OFF f @ slice MIC_OFF n f @ drop (MIC_OFF + n) f"
    unfolding slice_def by (metis append_take_drop_id drop_drop add.commute)
  with a show ?thesis by (simp add: put_mic_def)
qed

lemma slice_put_mic: "length f \<ge> MIC_OFF + n \<Longrightarrow> length mic = n \<Longrightarrow> slice MIC_OFF n (put_mic f mic) = mic"
  by (simp add: slice_def put_mic_def)

lemma key_info_put_mic: "length f \<ge> MIC_OFF \<Longrightarrow> key_info (put_mic f mic) = key_info f"
  by (simp add: key_info_def slice_def put_mic_def drop_take min_def)

lemma wpa_mic_len_cases: "wpa_mic_len akmp = 16 \<or> wpa_mic_len akmp = 24"
  by (simp add: wpa_mic_len_def)

text \<open>A frame with the code put into its zero field is accepted by who holds the key.\<close>

lemma signed_frame_verifies:
  assumes "length f \<ge> EAPOL_HDR + KEY_LEN" "length f \<ge> MIC_OFF + wpa_mic_len akmp" "slice MIC_OFF (wpa_mic_len akmp) f = replicate (wpa_mic_len akmp) 0"
    and "wpa_eapol_key_mic K (kck ptk) akmp (key_info f AND WPA_KEY_INFO_TYPE_MASK) f = Some mic" "length mic = wpa_mic_len akmp"
  shows "wpa_verify_key_mic K akmp ptk (put_mic f mic)"
proof -
  have "length (put_mic f mic) = length f" using assms(2,5) by (simp add: put_mic_def)
  with assms show ?thesis
    unfolding wpa_verify_key_mic_def Let_def by (simp add: put_mic_zero slice_put_mic key_info_put_mic)
qed

end
