(* ===== verification/WpaSm.thy ===== *)
theory WpaSm
  imports WpaKeys
begin

text \<open>
  The authenticator side of the four-way handshake and of the group key handshake for one station (\<open>src/ap/wpa_auth.c\<close>): the
  state machines \<open>WPA_PTK\<close>, \<open>WPA_PTK_GROUP\<close> and the group machine, the sending and receiving of EAPOL-Key
  frames and the timers. The state extends the record of \<open>wpa_validate_wpa_ie\<close>. Calls of the driver and of other modules
  are recorded in \<open>ws_outs\<close>; their results are functions of what was called before, so that every behaviour of them is
  covered. The other stations of the group are seen through what they add to the count of pending stations.
\<close>

subsection \<open>Data\<close>

datatype ptk_state = PTK_INITIALIZE | PTK_DISCONNECT | PTK_DISCONNECTED | PTK_AUTHENTICATION | PTK_AUTHENTICATION2 | PTK_INITPMK
  | PTK_INITPSK | PTK_PTKSTART | PTK_PTKCALCNEGOTIATING | PTK_PTKCALCNEGOTIATING2 | PTK_PTKINITNEGOTIATING | PTK_PTKINITDONE

datatype ptk_group_state = GROUP_IDLE | GROUP_REKEYNEGOTIATING | GROUP_REKEYESTABLISHED | GROUP_KEYERROR

datatype group_state = GTK_INIT | SETKEYS | SETKEYSDONE | FATAL_FAILURE

datatype wpa_eapol_variable = EAPOL_portEnabled | EAPOL_portValid | EAPOL_authorized | EAPOL_portControl_Auto | EAPOL_keyRun
  | EAPOL_keyAvailable | EAPOL_keyDone | EAPOL_inc_EapolFramesTx

datatype wpa_timer = SendEapolTimeout | RekeyPtk | RekeyGtk | RekeyGmk | CallStep

datatype wpa_alg = WPA_ALG_NONE | WPA_ALG_TKIP | WPA_ALG_CCMP | WPA_ALG_IGTK | WPA_ALG_GCMP | WPA_ALG_GCMP_256 | WPA_ALG_CCMP_256
  | WPA_ALG_BIP_GMAC_128 | WPA_ALG_BIP_GMAC_256 | WPA_ALG_BIP_CMAC_256

datatype smk_msg = SMK_m1 | SMK_m3 | SMK_error

datatype wpa_out = SetEapol wpa_eapol_variable int | InstallKey wpa_alg bytes | RemoveKey | SetGroupKey wpa_alg nat bytes
  | Disconnected | SendEapol bytes bool | PskFailure | MicFailure | GetRandom nat | Register wpa_timer nat | Cancel wpa_timer
  | Smk smk_msg bytes

record wpa_group =
  GInit :: bool
  GKeyDoneStations :: int
  GTKReKey :: bool
  GTK_len :: nat
  GN :: nat
  GM :: nat
  GTKAuthenticator :: bool
  Counter :: bytes
  wpa_group_state :: group_state
  GMK :: bytes
  GTK :: "bytes list"
  GNonce :: bytes
  gchanged :: bool
  first_sta_seen :: bool
  reject_4way_hs_for_entropy :: bool
  IGTK :: "bytes list"
  GN_igtk :: nat
  GM_igtk :: nat

record wpa_sm = wpa_state_machine +
  group :: wpa_group
  wpa_ptk_state :: ptk_state
  wpa_ptk_group_state :: ptk_group_state
  Init :: bool
  DeauthenticationRequest :: bool
  AuthenticationRequest :: bool
  ReAuthenticationRequest :: bool
  Disconnect :: bool
  TimeoutCtr :: int
  GTimeoutCtr :: int
  TimeoutEvt :: bool
  EAPOLKeyReceived :: bool
  EAPOLKeyPairwise :: bool
  EAPOLKeyRequest :: bool
  MICVerified :: bool
  GUpdateStationKeys :: bool
  ANonce :: bytes
  SNonce :: bytes
  alt_SNonce :: bytes
  alt_replay_counter :: bytes
  PMK :: bytes
  PTK :: wpa_ptk
  PTK_valid :: bool
  pairwise_set :: bool
  keycount :: int
  Pair :: bool
  key_replay :: "(bytes \<times> bool) list"
  prev_key_replay :: "(bytes \<times> bool) list"
  PInitAKeys :: bool
  PTKRequest :: bool
  has_GTK :: bool
  PtkGroupInit :: bool
  last_rx_eapol_key :: bytes
  changed :: bool
  started :: bool
  rx_eapol_key_secure :: bool
  update_snonce :: bool
  alt_snonce_valid :: bool
  is_wnmsleep :: bool
  req_replay_counter :: bytes
  req_replay_counter_used :: bool
  pending_1_of_4_timeout :: bool
  dot11RSNAStatsTKIPRemoteMICFailures :: u32
  dot11RSNA4WayHandshakeFailures :: u32
  ws_outs :: "wpa_out list"

text \<open>
  What is constant for the station (the authenticator with its configuration; \<open>we_stack\<close> is what an uninitialised buffer holds),
  and the results of calls.
\<close>

record wpa_env =
  we_conf :: wpa_auth_config
  we_addr :: bytes
  we_wpa_ie :: bytes
  we_crypto :: crypto
  we_psks :: "bytes list"
  we_group_ptr :: bytes
  we_stack :: bytes
  random_get_bytes :: "wpa_out list \<Rightarrow> nat \<Rightarrow> bytes option"
  random_pool_ready :: "wpa_out list \<Rightarrow> bool"
  ntp_timestamp :: "wpa_out list \<Rightarrow> bytes"
  set_key_result :: "wpa_out list \<Rightarrow> int"
  get_eapol :: "wpa_out list \<Rightarrow> wpa_eapol_variable \<Rightarrow> int"
  get_msk :: "wpa_out list \<Rightarrow> bytes option"
  get_seqnum :: "wpa_out list \<Rightarrow> nat \<Rightarrow> bytes option"
  alloc :: "wpa_out list \<Rightarrow> nat \<Rightarrow> bool"
  others_pending :: "wpa_out list \<Rightarrow> int"
  mic_failure_result :: "wpa_out list \<Rightarrow> int"

abbreviation dot11RSNAConfigGroupUpdateCount :: int where "dot11RSNAConfigGroupUpdateCount \<equiv> 4"
abbreviation dot11RSNAConfigPairwiseUpdateCount :: int where "dot11RSNAConfigPairwiseUpdateCount \<equiv> 4"
abbreviation RSNA_MAX_EAPOL_RETRIES :: nat where "RSNA_MAX_EAPOL_RETRIES \<equiv> 4"
abbreviation WPA_NONCE_LEN :: nat where "WPA_NONCE_LEN \<equiv> 32"

definition wpa_key_mgmt_wpa_ieee8021x :: "u32 \<Rightarrow> bool" where
  "wpa_key_mgmt_wpa_ieee8021x akm = (akm AND 0x3c0a1 \<noteq> 0)"

definition wpa_key_mgmt_wpa_psk :: "u32 \<Rightarrow> bool" where
  "wpa_key_mgmt_wpa_psk akm = (akm AND 0xd42 \<noteq> 0)"

definition wpa_use_aes_cmac :: "'a wpa_state_machine_scheme \<Rightarrow> bool" where
  "wpa_use_aes_cmac sm = (wpa_key_mgmt_sha256 (ws_wpa_key_mgmt sm) \<or> ws_wpa_key_mgmt sm = WPA_KEY_MGMT_OSEN)"

definition wpa_cipher_to_alg :: "u32 \<Rightarrow> wpa_alg" where
  "wpa_cipher_to_alg c =
    (if c = WPA_CIPHER_CCMP_256 then WPA_ALG_CCMP_256
     else if c = WPA_CIPHER_GCMP_256 then WPA_ALG_GCMP_256
     else if c = WPA_CIPHER_CCMP then WPA_ALG_CCMP
     else if c = WPA_CIPHER_GCMP then WPA_ALG_GCMP
     else if c = WPA_CIPHER_TKIP then WPA_ALG_TKIP
     else if c = WPA_CIPHER_AES_128_CMAC then WPA_ALG_IGTK
     else if c = WPA_CIPHER_BIP_GMAC_128 then WPA_ALG_BIP_GMAC_128
     else if c = WPA_CIPHER_BIP_GMAC_256 then WPA_ALG_BIP_GMAC_256
     else if c = WPA_CIPHER_BIP_CMAC_256 then WPA_ALG_BIP_CMAC_256
     else WPA_ALG_NONE)"

subsection \<open>Calls of other modules\<close>

definition emit_out :: "wpa_out \<Rightarrow> wpa_sm \<Rightarrow> wpa_sm" where
  "emit_out x sm = sm\<lparr>ws_outs := ws_outs sm @ [x]\<rparr>"

definition set_eapol :: "wpa_eapol_variable \<Rightarrow> int \<Rightarrow> wpa_sm \<Rightarrow> wpa_sm" where
  "set_eapol v x = emit_out (SetEapol v x)"

definition upd_group :: "(wpa_group \<Rightarrow> wpa_group) \<Rightarrow> wpa_sm \<Rightarrow> wpa_sm" where
  "upd_group f sm = sm\<lparr>group := f (group sm)\<rparr>"

definition wpa_remove_ptk :: "wpa_sm \<Rightarrow> wpa_sm" where
  "wpa_remove_ptk sm =
    (let sm = sm\<lparr>PTK_valid := False, PTK := zero_ptk\<rparr>;
         sm = emit_out RemoveKey sm;
         sm = sm\<lparr>pairwise_set := False\<rparr>
     in emit_out (Cancel RekeyPtk) sm)"

text \<open>
  \<open>wpa_sta_disconnect\<close> calls \<open>ap_sta_disconnect\<close>, which comes back with \<open>wpa_auth_sm_event (WPA_DEAUTH)\<close>. While the step loop runs, this
  leaves the work to the loop.
\<close>

definition deauth_request :: "wpa_sm \<Rightarrow> wpa_sm" where
  "deauth_request sm =
    wpa_remove_ptk (sm\<lparr>DeauthenticationRequest := True, PTK_valid := False, PTK := zero_ptk\<rparr>)"

definition sta_disconnect_in_loop :: "wpa_sm \<Rightarrow> wpa_sm" where
  "sta_disconnect_in_loop sm = deauth_request (emit_out Disconnected sm)\<lparr>changed := True\<rparr>"

definition get_random :: "wpa_env \<Rightarrow> nat \<Rightarrow> wpa_sm \<Rightarrow> bytes option \<times> wpa_sm" where
  "get_random env n sm = (random_get_bytes env (ws_outs sm) n, emit_out (GetRandom n) sm)"

definition group_done :: "wpa_sm \<Rightarrow> wpa_sm" where
  "group_done sm =
    (if GUpdateStationKeys sm then upd_group (\<lambda>g. g\<lparr>GKeyDoneStations := GKeyDoneStations g - 1\<rparr>) sm else sm)
      \<lparr>GUpdateStationKeys := False\<rparr>"

subsection \<open>Group keys\<close>

text \<open>Byte counters have a fixed positive length, so \<open>inc_byte_array\<close> succeeds on them.\<close>

definition inc_bytes :: "bytes \<Rightarrow> bytes" where
  "inc_bytes c = (case inc_byte_array c (length c) of Some c' \<Rightarrow> c' | None \<Rightarrow> c)"

definition ascii :: "string \<Rightarrow> bytes" where
  "ascii str = map of_char str"

definition wpa_group_init_gmk_and_counter :: "wpa_env \<Rightarrow> wpa_sm \<Rightarrow> bool \<times> wpa_sm" where
  "wpa_group_init_gmk_and_counter env sm =
    (case get_random env 32 sm of
       (None, sm) \<Rightarrow> (False, sm)
     | (Some gmk, sm) \<Rightarrow>
         let sm = upd_group (\<lambda>g. g\<lparr>GMK := gmk\<rparr>) sm;
             buf = we_addr env @ ntp_timestamp env (ws_outs sm) @ we_group_ptr env
         in (case get_random env 32 sm of
               (None, sm) \<Rightarrow> (False, sm)
             | (Some rkey, sm) \<Rightarrow>
                 (True, upd_group (\<lambda>g. g\<lparr>Counter := sha1_prf (we_crypto env) rkey (ascii ''Init Counter'') buf WPA_NONCE_LEN\<rparr>) sm)))"

definition wpa_gmk_to_gtk :: "wpa_env \<Rightarrow> bytes \<Rightarrow> bytes \<Rightarrow> nat \<Rightarrow> wpa_sm \<Rightarrow> (bool \<times> bytes) \<times> wpa_sm" where
  "wpa_gmk_to_gtk env label gnonce gtk_len sm =
    (let ts = ntp_timestamp env (ws_outs sm);
         (r, sm) = get_random env 16 sm;
         rnd = (case r of None \<Rightarrow> we_stack env | Some x \<Rightarrow> x);
         gtk = sha256_prf (we_crypto env) (GMK (group sm)) label (we_addr env @ gnonce @ ts @ rnd) gtk_len
     in ((r \<noteq> None, gtk), sm))"

definition next_gnonce :: "wpa_sm \<Rightarrow> wpa_sm" where
  "next_gnonce = upd_group (\<lambda>g. g\<lparr>GNonce := Counter g, Counter := inc_bytes (Counter g)\<rparr>)"

definition wpa_gtk_update :: "wpa_env \<Rightarrow> wpa_sm \<Rightarrow> bool \<times> wpa_sm" where
  "wpa_gtk_update env sm =
    (let sm = next_gnonce sm;
         ((ok, gtk), sm) = wpa_gmk_to_gtk env (ascii ''Group key expansion'') (GNonce (group sm)) (GTK_len (group sm)) sm;
         sm = upd_group (\<lambda>g. g\<lparr>GTK := (GTK g)[GN g - 1 := gtk]\<rparr>) sm
     in if ac_ieee80211w (we_conf env) \<noteq> NO_MGMT_FRAME_PROTECTION
        then let sm = next_gnonce sm;
                 ((ok2, igtk), sm) = wpa_gmk_to_gtk env (ascii ''IGTK key expansion'') (GNonce (group sm))
                   (wpa_cipher_key_len (ac_group_mgmt_cipher (we_conf env))) sm;
                 sm = upd_group (\<lambda>g. g\<lparr>IGTK := (IGTK g)[GN_igtk g - 4 := igtk]\<rparr>) sm
             in (ok \<and> ok2, sm)
        else (ok, sm))"

definition set_group_key :: "wpa_env \<Rightarrow> wpa_alg \<Rightarrow> nat \<Rightarrow> bytes \<Rightarrow> wpa_sm \<Rightarrow> bool \<times> wpa_sm" where
  "set_group_key env alg idx key sm =
    (let ok = \<not> set_key_result env (ws_outs sm) < 0 in (ok, emit_out (SetGroupKey alg idx key) sm))"

definition wpa_group_config_group_keys :: "wpa_env \<Rightarrow> wpa_sm \<Rightarrow> bool \<times> wpa_sm" where
  "wpa_group_config_group_keys env sm =
    (let g = group sm;
         (ok, sm) = set_group_key env (wpa_cipher_to_alg (ac_wpa_group (we_conf env))) (GN g) (GTK g ! (GN g - 1)) sm
     in if ac_ieee80211w (we_conf env) \<noteq> NO_MGMT_FRAME_PROTECTION \<and> ok
        then set_group_key env (wpa_cipher_to_alg (ac_group_mgmt_cipher (we_conf env))) (GN_igtk g) (IGTK g ! (GN_igtk g - 4)) sm
        else (ok, sm))"

definition group_setup :: "wpa_env \<Rightarrow> wpa_sm \<Rightarrow> bool \<times> wpa_sm" where
  "group_setup env sm =
    (case wpa_group_init_gmk_and_counter env sm of
       (False, sm) \<Rightarrow> (False, sm)
     | (True, sm) \<Rightarrow>
         (case wpa_gtk_update env sm of
            (False, sm) \<Rightarrow> (False, sm)
          | (True, sm) \<Rightarrow> wpa_group_config_group_keys env sm))"

definition wpa_group_ensure_init :: "wpa_env \<Rightarrow> wpa_sm \<Rightarrow> wpa_sm" where
  "wpa_group_ensure_init env sm =
    (if first_sta_seen (group sm) then sm
     else
       let ready = random_pool_ready env (ws_outs sm);
           sm = upd_group (\<lambda>g. if ready then g\<lparr>first_sta_seen := True, reject_4way_hs_for_entropy := False\<rparr>
                                else g\<lparr>reject_4way_hs_for_entropy := True\<rparr>) sm
       in case group_setup env sm of
            (True, sm) \<Rightarrow> sm
          | (False, sm) \<Rightarrow> upd_group (\<lambda>g. g\<lparr>first_sta_seen := False, reject_4way_hs_for_entropy := True\<rparr>) sm)"

subsection \<open>Sending EAPOL-Key frames\<close>

definition send_version :: "wpa_sm \<Rightarrow> u16" where
  "send_version sm =
    (if ws_wpa_key_mgmt sm = WPA_KEY_MGMT_OSEN \<or> wpa_key_mgmt_suite_b (ws_wpa_key_mgmt sm) then WPA_KEY_INFO_TYPE_AKM_DEFINED
     else if wpa_use_aes_cmac sm then WPA_KEY_INFO_TYPE_AES_128_CMAC
     else if ws_pairwise sm \<noteq> WPA_CIPHER_TKIP then WPA_KEY_INFO_TYPE_HMAC_SHA1_AES
     else WPA_KEY_INFO_TYPE_HMAC_MD5_RC4)"

definition uses_key_wrap :: "wpa_sm \<Rightarrow> u16 \<Rightarrow> bool" where
  "uses_key_wrap sm version = (version = WPA_KEY_INFO_TYPE_HMAC_SHA1_AES \<or> ws_wpa_key_mgmt sm = WPA_KEY_MGMT_OSEN
     \<or> wpa_key_mgmt_suite_b (ws_wpa_key_mgmt sm) \<or> version = WPA_KEY_INFO_TYPE_AES_128_CMAC)"

definition pad_kde :: "bytes \<Rightarrow> bytes" where
  "pad_kde k = (let r = length k mod 8 in if r = 0 then k else k @ [0xdd] @ replicate (7 - r) 0)"

text \<open>The replay counters: the last ones sent, newest first.\<close>

definition next_replay :: "(bytes \<times> bool) list \<Rightarrow> (bytes \<times> bool) list" where
  "next_replay rs = (inc_bytes (fst (hd rs)), True) # take (RSNA_MAX_EAPOL_RETRIES - 1) rs"

definition key_frame ::
    "u8 \<Rightarrow> u8 \<Rightarrow> u16 \<Rightarrow> u16 \<Rightarrow> bytes \<Rightarrow> bytes \<Rightarrow> bytes \<Rightarrow> bytes \<Rightarrow> nat \<Rightarrow> nat \<Rightarrow> bytes \<Rightarrow> bytes" where
  "key_frame version type info klen counter nonce iv rsc mic_len data_len data =
    [version, 3] @ WPA_PUT_BE16 (of_nat (79 + mic_len + length data)) @ [type] @ WPA_PUT_BE16 info @ WPA_PUT_BE16 klen
    @ counter @ nonce @ iv @ rsc @ replicate 8 0 @ replicate mic_len 0 @ WPA_PUT_BE16 (of_nat data_len) @ data"

text \<open>
  The key data field: in clear; wrapped; or encrypted with RC4, which takes the initialisation vector from the group counter. \<open>None\<close>: nothing
  is sent. The result is the field, its declared length, the initialisation vector and the state. The key data are a pointer
  and a length; of a \<open>NULL\<close> pointer the length alone makes the frame longer.
\<close>

definition key_data_field ::
    "wpa_env \<Rightarrow> u16 \<Rightarrow> nat + bytes \<Rightarrow> bool \<Rightarrow> wpa_sm \<Rightarrow> (bytes \<times> nat \<times> bytes) option \<times> wpa_sm" where
  "key_data_field env version kde encr sm =
    (case kde of
       Inl n \<Rightarrow> (Some (replicate n 0, 0, replicate 16 0), sm)
     | Inr k \<Rightarrow>
         if \<not> encr then (Some (k, length k, replicate 16 0), sm)
         else if \<not> alloc env (ws_outs sm) 1 then (None, sm)
         else if uses_key_wrap sm version
         then (map_option (\<lambda>c. (c, length (pad_kde k) + 8, replicate 16 0)) (aes_wrap (we_crypto env) (kek (PTK sm)) (pad_kde k)), sm)
         else if length (kek (PTK sm)) = 16
         then let iv = drop (WPA_NONCE_LEN - 16) (Counter (group sm));
                  sm = upd_group (\<lambda>g. g\<lparr>Counter := inc_bytes (Counter g)\<rparr>) sm
              in (Some (rc4_skip (we_crypto env) (iv @ kek (PTK sm)) 256 k, length k, iv), sm)
         else (None, sm))"

definition send_key_info :: "wpa_sm \<Rightarrow> u16 \<Rightarrow> u16 \<Rightarrow> nat \<Rightarrow> bool \<Rightarrow> u16" where
  "send_key_info sm info version keyidx encr =
    info OR version OR (if encr \<and> ws_wpa sm = WPA_VERSION_WPA2 then WPA_KEY_INFO_ENCR_KEY_DATA else 0)
    OR (if ws_wpa sm \<noteq> WPA_VERSION_WPA2 then push_bit 4 (of_nat keyidx) else 0)"

text \<open>The integrity code is put into the frame when it is asked for, which needs a valid key; then the frame is sent.\<close>

definition sign_and_send :: "wpa_env \<Rightarrow> u16 \<Rightarrow> u16 \<Rightarrow> bytes \<Rightarrow> wpa_sm \<Rightarrow> wpa_sm" where
  "sign_and_send env info version frame sm =
    (if info AND WPA_KEY_INFO_MIC \<noteq> 0 \<and> \<not> PTK_valid sm then sm
     else
       let frame = (if info AND WPA_KEY_INFO_MIC \<noteq> 0
                    then (case wpa_eapol_key_mic (we_crypto env) (kck (PTK sm)) (ws_wpa_key_mgmt sm) version frame of
                            None \<Rightarrow> frame
                          | Some mic \<Rightarrow> put_mic frame mic)
                    else frame)
       in emit_out (SendEapol frame (pairwise_set sm)) (set_eapol EAPOL_inc_EapolFramesTx 1 sm))"

definition wpa_send_eapol_frame ::
    "wpa_env \<Rightarrow> u16 \<Rightarrow> bytes option \<Rightarrow> bytes option \<Rightarrow> nat + bytes \<Rightarrow> nat \<Rightarrow> bool \<Rightarrow> wpa_sm \<Rightarrow> wpa_sm" where
  "wpa_send_eapol_frame env info rsc nonce kde keyidx encr sm =
    (if \<not> alloc env (ws_outs sm) 0 then sm
     else
       let version = send_version sm;
           pairwise = info AND WPA_KEY_INFO_KEY_TYPE \<noteq> 0;
           info = send_key_info sm info version keyidx encr;
           klen = (if info AND WPA_KEY_INFO_SMK_MESSAGE \<noteq> 0 then 0
                   else of_nat (wpa_cipher_key_len (if pairwise then ws_pairwise sm else ac_wpa_group (we_conf env))))
       in case key_data_field env version kde encr (sm\<lparr>key_replay := next_replay (key_replay sm)\<rparr>) of
            (None, sm) \<Rightarrow> sm
          | (Some (field, field_len, iv), sm) \<Rightarrow>
              sign_and_send env info version
                (key_frame (ac_eapol_version (we_conf env))
                   (if ws_wpa sm = WPA_VERSION_WPA2 then EAPOL_KEY_TYPE_RSN else EAPOL_KEY_TYPE_WPA) info klen
                   (fst (hd (key_replay sm))) (case nonce of None \<Rightarrow> replicate 32 0 | Some n \<Rightarrow> n) iv
                   (case rsc of None \<Rightarrow> replicate 8 0 | Some r \<Rightarrow> r) (wpa_mic_len (ws_wpa_key_mgmt sm)) field_len field)
                sm)"

definition wpa_send_eapol ::
    "wpa_env \<Rightarrow> u16 \<Rightarrow> bytes option \<Rightarrow> bytes option \<Rightarrow> nat + bytes \<Rightarrow> nat \<Rightarrow> bool \<Rightarrow> wpa_sm \<Rightarrow> wpa_sm" where
  "wpa_send_eapol env info rsc nonce kde keyidx encr sm =
    (let pairwise = info AND WPA_KEY_INFO_KEY_TYPE \<noteq> 0;
         sm = wpa_send_eapol_frame env info rsc nonce kde keyidx encr sm;
         ctr = (if pairwise then TimeoutCtr sm else GTimeoutCtr sm);
         timeout_ms = (if ctr = 1 \<and> ac_tx_status (we_conf env) then (if pairwise then 100 else 500) else 1000);
         sm = (if pairwise \<and> ctr = 1 \<and> info AND WPA_KEY_INFO_MIC = 0 then sm\<lparr>pending_1_of_4_timeout := True\<rparr> else sm)
     in emit_out (Register SendEapolTimeout timeout_ms) sm)"

subsection \<open>The states of \<open>WPA_PTK\<close>\<close>

definition ptk_entry :: "ptk_state \<Rightarrow> wpa_sm \<Rightarrow> wpa_sm" where
  "ptk_entry st sm = sm\<lparr>changed := True, wpa_ptk_state := st\<rparr>"

definition sm_WPA_PTK_INITIALIZE_Enter :: "wpa_sm \<Rightarrow> wpa_sm" where
  "sm_WPA_PTK_INITIALIZE_Enter sm =
    (let sm = ptk_entry PTK_INITIALIZE sm;
         sm = (if Init sm then sm\<lparr>changed := False\<rparr> else sm);
         sm = group_done (sm\<lparr>keycount := 0\<rparr>);
         sm = (if ws_wpa sm = WPA_VERSION_WPA then sm\<lparr>PInitAKeys := False\<rparr> else sm);
         sm = set_eapol EAPOL_portEnabled 0 (sm\<lparr>Pair := True\<rparr>);
         sm = set_eapol EAPOL_portValid 0 (wpa_remove_ptk sm);
         sm = sm\<lparr>TimeoutCtr := 0\<rparr>
     in if wpa_key_mgmt_wpa_psk (ws_wpa_key_mgmt sm) then set_eapol EAPOL_authorized 0 sm else sm)"

definition sm_WPA_PTK_DISCONNECT_Enter :: "wpa_sm \<Rightarrow> wpa_sm" where
  "sm_WPA_PTK_DISCONNECT_Enter sm = sta_disconnect_in_loop (ptk_entry PTK_DISCONNECT sm\<lparr>Disconnect := False\<rparr>)"

definition sm_WPA_PTK_DISCONNECTED_Enter :: "wpa_sm \<Rightarrow> wpa_sm" where
  "sm_WPA_PTK_DISCONNECTED_Enter sm = ptk_entry PTK_DISCONNECTED sm\<lparr>DeauthenticationRequest := False\<rparr>"

definition sm_WPA_PTK_AUTHENTICATION_Enter :: "wpa_sm \<Rightarrow> wpa_sm" where
  "sm_WPA_PTK_AUTHENTICATION_Enter sm =
    (let sm = ptk_entry PTK_AUTHENTICATION sm\<lparr>PTK := zero_ptk, PTK_valid := False\<rparr>
     in set_eapol EAPOL_portEnabled 1 (set_eapol EAPOL_portControl_Auto 1 sm)\<lparr>AuthenticationRequest := False\<rparr>)"

definition sm_WPA_PTK_AUTHENTICATION2_Enter :: "wpa_env \<Rightarrow> wpa_sm \<Rightarrow> wpa_sm" where
  "sm_WPA_PTK_AUTHENTICATION2_Enter env sm =
    (let sm = wpa_group_ensure_init env (ptk_entry PTK_AUTHENTICATION2 sm)\<lparr>ReAuthenticationRequest := False\<rparr>
     in case get_random env WPA_NONCE_LEN sm of
          (None, sm) \<Rightarrow> sm\<lparr>Disconnect := True\<rparr>
        | (Some n, sm) \<Rightarrow> sm\<lparr>ANonce := n, TimeoutCtr := 0\<rparr>)"

definition sm_WPA_PTK_INITPMK_Enter :: "wpa_env \<Rightarrow> wpa_sm \<Rightarrow> wpa_sm" where
  "sm_WPA_PTK_INITPMK_Enter env sm =
    (let sm = ptk_entry PTK_INITPMK sm
     in case (case ws_pmksa sm of Some x \<Rightarrow> Some (pe_pmk x) | None \<Rightarrow> get_msk env (ws_outs sm)) of
          None \<Rightarrow> sm\<lparr>Disconnect := True\<rparr>
        | Some key \<Rightarrow> set_eapol EAPOL_keyRun 0 (sm\<lparr>PMK := take PMK_LEN key, req_replay_counter_used := False\<rparr>))"

definition sm_WPA_PTK_INITPSK_Enter :: "wpa_env \<Rightarrow> wpa_sm \<Rightarrow> wpa_sm" where
  "sm_WPA_PTK_INITPSK_Enter env sm =
    (let sm = ptk_entry PTK_INITPSK sm;
         sm = (case we_psks env of [] \<Rightarrow> sm | psk # _ \<Rightarrow> sm\<lparr>PMK := take PMK_LEN psk\<rparr>)
     in sm\<lparr>req_replay_counter_used := False\<rparr>)"

definition pmkid_kde :: "wpa_env \<Rightarrow> wpa_sm \<Rightarrow> nat + bytes" where
  "pmkid_kde env sm =
    (if ws_wpa sm = WPA_VERSION_WPA2 \<and> wpa_key_mgmt_wpa_ieee8021x (ws_wpa_key_mgmt sm) \<and> ws_wpa_key_mgmt sm \<noteq> WPA_KEY_MGMT_OSEN
     then let hdr = [WLAN_EID_VENDOR_SPECIFIC, 20] @ WPA_PUT_BE32 RSN_KEY_DATA_PMKID
          in (case ws_pmksa sm of
                Some x \<Rightarrow> Inr (hdr @ pe_pmkid x)
              | None \<Rightarrow>
                  if wpa_key_mgmt_suite_b (ws_wpa_key_mgmt sm) then Inl 22
                  else Inr (hdr @ rsn_pmkid (hmacs.truncate (we_crypto env)) (PMK sm) (we_addr env) (ws_addr sm)
                        (wpa_key_mgmt_sha256 (ws_wpa_key_mgmt sm))))
     else Inl 0)"

definition sm_WPA_PTK_PTKSTART_Enter :: "wpa_env \<Rightarrow> wpa_sm \<Rightarrow> wpa_sm" where
  "sm_WPA_PTK_PTKSTART_Enter env sm =
    (let sm = ptk_entry PTK_PTKSTART sm\<lparr>PTKRequest := False, TimeoutEvt := False, alt_snonce_valid := False, TimeoutCtr := TimeoutCtr sm + 1\<rparr>
     in if TimeoutCtr sm > dot11RSNAConfigPairwiseUpdateCount then sm
        else wpa_send_eapol env (WPA_KEY_INFO_ACK OR WPA_KEY_INFO_KEY_TYPE) None (Some (ANonce sm)) (pmkid_kde env sm) 0 False sm)"

definition wpa_derive_ptk :: "wpa_env \<Rightarrow> wpa_sm \<Rightarrow> bytes \<Rightarrow> bytes \<Rightarrow> wpa_ptk" where
  "wpa_derive_ptk env sm snonce pmk =
    wpa_pmk_to_ptk (we_crypto env) pmk (ascii ''Pairwise key expansion'') (we_addr env) (ws_addr sm) (ANonce sm) snonce
      (ws_wpa_key_mgmt sm) (ws_pairwise sm)"

text \<open>The loop over the keys: all keys that are configured for the station, or the one of the authentication server.\<close>

definition candidate_pmks :: "wpa_env \<Rightarrow> wpa_sm \<Rightarrow> bytes list" where
  "candidate_pmks env sm = (if wpa_key_mgmt_wpa_psk (ws_wpa_key_mgmt sm) then we_psks env else [PMK sm])"

definition matching_pmk :: "wpa_env \<Rightarrow> wpa_sm \<Rightarrow> bytes \<Rightarrow> bytes \<Rightarrow> bytes option" where
  "matching_pmk env sm snonce data =
    find (\<lambda>pmk. wpa_verify_key_mic (we_crypto env) (ws_wpa_key_mgmt sm) (wpa_derive_ptk env sm snonce (take PMK_LEN pmk)) data) (candidate_pmks env sm)"

definition sm_WPA_PTK_PTKCALCNEGOTIATING_Enter :: "wpa_env \<Rightarrow> wpa_sm \<Rightarrow> wpa_sm" where
  "sm_WPA_PTK_PTKCALCNEGOTIATING_Enter env sm =
    (let sm = ptk_entry PTK_PTKCALCNEGOTIATING sm\<lparr>EAPOLKeyReceived := False, update_snonce := False\<rparr>
     in case matching_pmk env sm (SNonce sm) (last_rx_eapol_key sm) of
          None \<Rightarrow> if wpa_key_mgmt_wpa_psk (ws_wpa_key_mgmt sm) \<and> we_psks env \<noteq> [] then emit_out PskFailure sm else sm
        | Some pmk \<Rightarrow>
            let ptk = wpa_derive_ptk env sm (SNonce sm) (take PMK_LEN pmk);
                sm = emit_out (Cancel SendEapolTimeout) (sm\<lparr>pending_1_of_4_timeout := False\<rparr>);
                sm = (if wpa_key_mgmt_wpa_psk (ws_wpa_key_mgmt sm) then sm\<lparr>PMK := take PMK_LEN pmk\<rparr> else sm)
            in sm\<lparr>MICVerified := True, PTK := ptk, PTK_valid := True\<rparr>)"

definition sm_WPA_PTK_PTKCALCNEGOTIATING2_Enter :: "wpa_sm \<Rightarrow> wpa_sm" where
  "sm_WPA_PTK_PTKCALCNEGOTIATING2_Enter sm = ptk_entry PTK_PTKCALCNEGOTIATING2 sm\<lparr>TimeoutCtr := 0\<rparr>"

definition ieee80211w_kde_add :: "wpa_env \<Rightarrow> wpa_sm \<Rightarrow> bytes \<times> wpa_sm" where
  "ieee80211w_kde_add env sm =
    (if \<not> ws_mgmt_frame_prot sm then ([], sm)
     else
       let g = group sm;
           len = wpa_cipher_key_len (ac_group_mgmt_cipher (we_conf env));
           pn = (if wpa_group_state g \<noteq> SETKEYSDONE then replicate 6 0
                 else case get_seqnum env (ws_outs sm) (GN_igtk g) of None \<Rightarrow> replicate 6 0 | Some rsc \<Rightarrow> take 6 rsc);
           igtk = take len (IGTK g ! (GN_igtk g - 4));
           kde = (\<lambda>key. wpa_add_kde RSN_KEY_DATA_IGTK ([of_nat (GN_igtk g), 0] @ pn @ key) None)
       in if ac_disable_gtk (we_conf env)
          then (case get_random env len sm of (None, sm) \<Rightarrow> ([], sm) | (Some key, sm) \<Rightarrow> (kde key, sm))
          else (kde igtk, sm))"

text \<open>A group key for this station: its own random one where sharing is disabled.\<close>

definition station_gtk :: "wpa_env \<Rightarrow> wpa_sm \<Rightarrow> bytes option \<times> wpa_sm" where
  "station_gtk env sm =
    (if ac_disable_gtk (we_conf env) then get_random env (GTK_len (group sm)) sm
     else (Some (take (GTK_len (group sm)) (GTK (group sm) ! (GN (group sm) - 1))), sm))"

definition rsc_of :: "wpa_env \<Rightarrow> wpa_sm \<Rightarrow> bytes" where
  "rsc_of env sm = (case get_seqnum env (ws_outs sm) (GN (group sm)) of None \<Rightarrow> replicate 8 0 | Some r \<Rightarrow> r)"

definition own_ie :: "wpa_env \<Rightarrow> wpa_sm \<Rightarrow> bytes" where
  "own_ie env sm =
    (let ie = we_wpa_ie env
     in if ws_wpa sm = WPA_VERSION_WPA \<and> ac_wpa (we_conf env) AND WPA_PROTO_RSN \<noteq> 0 \<and> length ie > unat (ie ! 1) + 2 \<and> ie ! 0 = WLAN_EID_RSN
        then let ie = drop (unat (ie ! 1) + 2) ie;
                 ie = (if ie ! 0 = 54 then drop (unat (ie ! 1) + 2) ie else ie)
             in take (unat (ie ! 1) + 2) ie
        else ie)"

text \<open>What message 3/4 carries: security bit, sequence number, key index, encryption and the group key, which WPA does not send here.\<close>

definition msg3_params :: "wpa_env \<Rightarrow> wpa_sm \<Rightarrow> (bool \<times> bytes option \<times> nat \<times> bool \<times> bytes) option \<times> wpa_sm" where
  "msg3_params env sm =
    (if ws_wpa sm = WPA_VERSION_WPA2
     then let rsc = rsc_of env sm in case station_gtk env sm of
         (None, sm) \<Rightarrow> (None, sm)
       | (Some gtk, sm) \<Rightarrow>
           (Some (True, Some rsc, GN (group sm), True,
              wpa_add_kde RSN_KEY_DATA_GROUPKEY [of_nat (GN (group sm)) AND 3, 0] (Some gtk)), sm)
     else (Some (rx_eapol_key_secure sm, None, 0, False, []), sm))"

definition sm_WPA_PTK_PTKINITNEGOTIATING_Enter :: "wpa_env \<Rightarrow> wpa_sm \<Rightarrow> wpa_sm" where
  "sm_WPA_PTK_PTKINITNEGOTIATING_Enter env sm =
    (let sm = ptk_entry PTK_PTKINITNEGOTIATING sm\<lparr>TimeoutEvt := False, TimeoutCtr := TimeoutCtr sm + 1\<rparr>
     in if TimeoutCtr sm > dot11RSNAConfigPairwiseUpdateCount then sm
        else case msg3_params env sm of
          (None, sm) \<Rightarrow> sm
        | (Some (secure, rsc, keyidx, encr, gtk_kde), sm) \<Rightarrow>
            if \<not> alloc env (ws_outs sm) 2 then sm
            else
              let (igtk_kde, sm) = ieee80211w_kde_add env sm
              in wpa_send_eapol env ((if secure then WPA_KEY_INFO_SECURE else 0) OR WPA_KEY_INFO_MIC OR WPA_KEY_INFO_ACK
                     OR WPA_KEY_INFO_INSTALL OR WPA_KEY_INFO_KEY_TYPE)
                   rsc (Some (ANonce sm)) (Inr (own_ie env sm @ gtk_kde @ igtk_kde)) keyidx encr sm)"

definition sm_WPA_PTK_PTKINITDONE_Enter :: "wpa_env \<Rightarrow> wpa_sm \<Rightarrow> wpa_sm" where
  "sm_WPA_PTK_PTKINITDONE_Enter env sm =
    (let sm = ptk_entry PTK_PTKINITDONE sm\<lparr>EAPOLKeyReceived := False\<rparr>;
         failed = Pair sm \<and> set_key_result env (ws_outs sm) \<noteq> 0;
         sm = (if Pair sm
               then emit_out (InstallKey (wpa_cipher_to_alg (ws_pairwise sm)) (take (wpa_cipher_key_len (ws_pairwise sm)) (tk (PTK sm)))) sm
               else sm)
     in if failed then sta_disconnect_in_loop sm
        else
          let sm = (if Pair sm
                    then let sm = sm\<lparr>pairwise_set := True\<rparr>;
                             sm = (if ac_wpa_ptk_rekey (we_conf env) \<noteq> 0
                                   then emit_out (Register RekeyPtk (1000 * unat (ac_wpa_ptk_rekey (we_conf env)))) (emit_out (Cancel RekeyPtk) sm)
                                   else sm)
                         in if wpa_key_mgmt_wpa_psk (ws_wpa_key_mgmt sm) then set_eapol EAPOL_authorized 1 sm else sm
                    else sm);
              sm = set_eapol EAPOL_keyDone 1 (set_eapol EAPOL_keyAvailable 0 (set_eapol EAPOL_portValid 1 sm))
          in if ws_wpa sm = WPA_VERSION_WPA then sm\<lparr>PInitAKeys := True\<rparr> else sm\<lparr>has_GTK := True\<rparr>)"

subsection \<open>What is sent\<close>

lemma length_put_be16 [simp]: "length (WPA_PUT_BE16 v) = 2"
  by (simp add: WPA_PUT_BE16_def)

lemma key_frame_layout:
  assumes "length counter = 8" "length nonce = 32" "length iv = 16" "length rsc = 8"
    and "f = key_frame version type info klen counter nonce iv rsc mic_len data_len data"
  shows "length f = 83 + mic_len + length data" "key_info f = info" "slice MIC_OFF mic_len f = replicate mic_len 0"
    "replay_counter f = counter" "key_nonce f = nonce"
proof -
  have pre: "f = ([version, 3] @ WPA_PUT_BE16 (of_nat (79 + mic_len + length data)) @ [type]) @ WPA_PUT_BE16 info @ WPA_PUT_BE16 klen
    @ counter @ nonce @ iv @ rsc @ replicate 8 0 @ replicate mic_len 0 @ WPA_PUT_BE16 (of_nat data_len) @ data"
    by (simp add: assms(5) key_frame_def)
  show "length f = 83 + mic_len + length data" "key_info f = info" "slice MIC_OFF mic_len f = replicate mic_len 0"
    "replay_counter f = counter" "key_nonce f = nonce"
    unfolding pre key_info_def replay_counter_def key_nonce_def slice_def using assms(1-4) by (simp_all add: get_put_byte_order)
qed

end
