(* ===== verification/WpaSmStep.thy ===== *)
theory WpaSmStep
  imports WpaSm
begin

text \<open>
  The transitions of the state machines of a station and of its group (\<open>SM_STEP\<close> of \<open>WPA_PTK\<close> and of \<open>WPA_PTK_GROUP\<close>,
  \<open>wpa_group_sm_step\<close> in \<open>src/ap/wpa_auth.c\<close>), and the loop \<open>wpa_sm_step\<close> that runs them until nothing changes. The loop is a
  total function: its termination proof is that no two machines can keep each other busy.
\<close>

subsection \<open>\<open>SM_STEP (WPA_PTK)\<close>\<close>

definition count_failure :: "wpa_sm \<Rightarrow> wpa_sm" where
  "count_failure sm = sm\<lparr>dot11RSNA4WayHandshakeFailures := dot11RSNA4WayHandshakeFailures sm + 1\<rparr>"

definition pairwise_reply :: "wpa_sm \<Rightarrow> bool" where
  "pairwise_reply sm = (EAPOLKeyReceived sm \<and> \<not> EAPOLKeyRequest sm \<and> EAPOLKeyPairwise sm)"

definition ptk_switch :: "wpa_env \<Rightarrow> wpa_sm \<Rightarrow> wpa_sm" where
  "ptk_switch env sm =
    (case wpa_ptk_state sm of
       PTK_INITIALIZE \<Rightarrow> sm
     | PTK_DISCONNECT \<Rightarrow> sm_WPA_PTK_DISCONNECTED_Enter sm
     | PTK_DISCONNECTED \<Rightarrow> sm_WPA_PTK_INITIALIZE_Enter sm
     | PTK_AUTHENTICATION \<Rightarrow> sm_WPA_PTK_AUTHENTICATION2_Enter env sm
     | PTK_AUTHENTICATION2 \<Rightarrow>
         if wpa_key_mgmt_wpa_ieee8021x (ws_wpa_key_mgmt sm) \<and> get_eapol env (ws_outs sm) EAPOL_keyRun > 0
         then sm_WPA_PTK_INITPMK_Enter env sm
         else if wpa_key_mgmt_wpa_psk (ws_wpa_key_mgmt sm) then sm_WPA_PTK_INITPSK_Enter env sm
         else sm
     | PTK_INITPMK \<Rightarrow>
         if get_eapol env (ws_outs sm) EAPOL_keyAvailable > 0 then sm_WPA_PTK_PTKSTART_Enter env sm
         else sm_WPA_PTK_DISCONNECT_Enter (count_failure sm)
     | PTK_INITPSK \<Rightarrow>
         if we_psks env \<noteq> [] then sm_WPA_PTK_PTKSTART_Enter env sm
         else sm_WPA_PTK_DISCONNECT_Enter (count_failure sm)
     | PTK_PTKSTART \<Rightarrow>
         if pairwise_reply sm then sm_WPA_PTK_PTKCALCNEGOTIATING_Enter env sm
         else if TimeoutCtr sm > dot11RSNAConfigPairwiseUpdateCount then sm_WPA_PTK_DISCONNECT_Enter (count_failure sm)
         else if TimeoutEvt sm then sm_WPA_PTK_PTKSTART_Enter env sm
         else sm
     | PTK_PTKCALCNEGOTIATING \<Rightarrow>
         if MICVerified sm then sm_WPA_PTK_PTKCALCNEGOTIATING2_Enter sm
         else if pairwise_reply sm then sm_WPA_PTK_PTKCALCNEGOTIATING_Enter env sm
         else if TimeoutEvt sm then sm_WPA_PTK_PTKSTART_Enter env sm
         else sm
     | PTK_PTKCALCNEGOTIATING2 \<Rightarrow> sm_WPA_PTK_PTKINITNEGOTIATING_Enter env sm
     | PTK_PTKINITNEGOTIATING \<Rightarrow>
         if update_snonce sm then sm_WPA_PTK_PTKCALCNEGOTIATING_Enter env sm
         else if pairwise_reply sm \<and> MICVerified sm then sm_WPA_PTK_PTKINITDONE_Enter env sm
         else if TimeoutCtr sm > dot11RSNAConfigPairwiseUpdateCount then sm_WPA_PTK_DISCONNECT_Enter (count_failure sm)
         else if TimeoutEvt sm then sm_WPA_PTK_PTKINITNEGOTIATING_Enter env sm
         else sm
     | PTK_PTKINITDONE \<Rightarrow> sm)"

definition sm_WPA_PTK_Step :: "wpa_env \<Rightarrow> wpa_sm \<Rightarrow> wpa_sm" where
  "sm_WPA_PTK_Step env sm =
    (if Init sm then sm_WPA_PTK_INITIALIZE_Enter sm
     else if Disconnect sm then sm_WPA_PTK_DISCONNECT_Enter sm
     else if DeauthenticationRequest sm then sm_WPA_PTK_DISCONNECTED_Enter sm
     else if AuthenticationRequest sm then sm_WPA_PTK_AUTHENTICATION_Enter sm
     else if ReAuthenticationRequest sm then sm_WPA_PTK_AUTHENTICATION2_Enter env sm
     else if PTKRequest sm then sm_WPA_PTK_PTKSTART_Enter env sm
     else ptk_switch env sm)"

subsection \<open>\<open>WPA_PTK_GROUP\<close>\<close>

definition group_entry :: "ptk_group_state \<Rightarrow> wpa_sm \<Rightarrow> wpa_sm" where
  "group_entry st sm = sm\<lparr>changed := True, wpa_ptk_group_state := st\<rparr>"

definition sm_WPA_PTK_GROUP_IDLE_Enter :: "wpa_sm \<Rightarrow> wpa_sm" where
  "sm_WPA_PTK_GROUP_IDLE_Enter sm =
    (let sm = group_entry GROUP_IDLE sm
     in (if Init sm then sm\<lparr>changed := False\<rparr> else sm)\<lparr>GTimeoutCtr := 0\<rparr>)"

text \<open>The key data of message 1/2: encapsulated for RSN, the bare key for WPA; \<open>None\<close> when there is no memory.\<close>

definition group_key_data :: "wpa_env \<Rightarrow> bytes \<Rightarrow> wpa_sm \<Rightarrow> bytes option \<times> wpa_sm" where
  "group_key_data env gtk sm =
    (if ws_wpa sm = WPA_VERSION_WPA2
     then if \<not> alloc env (ws_outs sm) 3 then (None, sm)
          else let (igtk_kde, sm) = ieee80211w_kde_add env sm
               in (Some (wpa_add_kde RSN_KEY_DATA_GROUPKEY [of_nat (GN (group sm)) AND 3, 0] (Some gtk) @ igtk_kde), sm)
     else (Some gtk, sm))"

definition sm_WPA_PTK_GROUP_REKEYNEGOTIATING_Enter :: "wpa_env \<Rightarrow> wpa_sm \<Rightarrow> wpa_sm" where
  "sm_WPA_PTK_GROUP_REKEYNEGOTIATING_Enter env sm =
    (let sm = group_entry GROUP_REKEYNEGOTIATING sm\<lparr>GTimeoutCtr := GTimeoutCtr sm + 1\<rparr>
     in if GTimeoutCtr sm > dot11RSNAConfigGroupUpdateCount then sm
        else
          let sm = (if ws_wpa sm = WPA_VERSION_WPA then sm\<lparr>PInitAKeys := False\<rparr> else sm)\<lparr>TimeoutEvt := False\<rparr>;
              rsc = (if wpa_group_state (group sm) = SETKEYSDONE then rsc_of env sm else replicate 8 0)
          in case station_gtk env sm of
               (None, sm) \<Rightarrow> sm
             | (Some gtk, sm) \<Rightarrow>
                 (case group_key_data env gtk sm of
                    (None, sm) \<Rightarrow> sm
                  | (Some kde, sm) \<Rightarrow>
                      wpa_send_eapol env (WPA_KEY_INFO_SECURE OR WPA_KEY_INFO_MIC OR WPA_KEY_INFO_ACK
                          OR (if Pair sm then 0 else WPA_KEY_INFO_INSTALL))
                        (Some rsc) (Some (GNonce (group sm))) (Inr kde) (GN (group sm)) True sm))"

definition sm_WPA_PTK_GROUP_REKEYESTABLISHED_Enter :: "wpa_sm \<Rightarrow> wpa_sm" where
  "sm_WPA_PTK_GROUP_REKEYESTABLISHED_Enter sm =
    group_done (group_entry GROUP_REKEYESTABLISHED sm\<lparr>EAPOLKeyReceived := False\<rparr>)\<lparr>GTimeoutCtr := 0, has_GTK := True\<rparr>"

definition sm_WPA_PTK_GROUP_KEYERROR_Enter :: "wpa_sm \<Rightarrow> wpa_sm" where
  "sm_WPA_PTK_GROUP_KEYERROR_Enter sm = group_done (group_entry GROUP_KEYERROR sm)\<lparr>Disconnect := True\<rparr>"

definition sm_WPA_PTK_GROUP_Step :: "wpa_env \<Rightarrow> wpa_sm \<Rightarrow> wpa_sm" where
  "sm_WPA_PTK_GROUP_Step env sm =
    (if Init sm \<or> PtkGroupInit sm then sm_WPA_PTK_GROUP_IDLE_Enter sm\<lparr>PtkGroupInit := False\<rparr>
     else
       (case wpa_ptk_group_state sm of
          GROUP_IDLE \<Rightarrow>
            if GUpdateStationKeys sm \<or> ws_wpa sm = WPA_VERSION_WPA \<and> PInitAKeys sm
            then sm_WPA_PTK_GROUP_REKEYNEGOTIATING_Enter env sm
            else sm
        | GROUP_REKEYNEGOTIATING \<Rightarrow>
            if EAPOLKeyReceived sm \<and> \<not> EAPOLKeyRequest sm \<and> \<not> EAPOLKeyPairwise sm \<and> MICVerified sm
            then sm_WPA_PTK_GROUP_REKEYESTABLISHED_Enter sm
            else if GTimeoutCtr sm > dot11RSNAConfigGroupUpdateCount then sm_WPA_PTK_GROUP_KEYERROR_Enter sm
            else if TimeoutEvt sm then sm_WPA_PTK_GROUP_REKEYNEGOTIATING_Enter env sm
            else sm
        | GROUP_KEYERROR \<Rightarrow> sm_WPA_PTK_GROUP_IDLE_Enter sm
        | GROUP_REKEYESTABLISHED \<Rightarrow> sm_WPA_PTK_GROUP_IDLE_Enter sm))"

subsection \<open>The machine of the group\<close>

definition wpa_group_gtk_init :: "wpa_env \<Rightarrow> wpa_sm \<Rightarrow> wpa_sm" where
  "wpa_group_gtk_init env sm =
    snd (wpa_gtk_update env (upd_group (\<lambda>g. g\<lparr>gchanged := False, wpa_group_state := GTK_INIT, GTK := [replicate 32 0, replicate 32 0],
      GN := 1, GM := 2, GN_igtk := 4, GM_igtk := 5\<rparr>) sm))"

text \<open>
  A station is marked for the update of its group key. Then its machines are stepped: \<open>step\<close> is \<open>wpa_sm_step\<close>, which does nothing
  when it is called again while the loop of the station runs.
\<close>

definition wpa_group_update_sta :: "(wpa_sm \<Rightarrow> wpa_sm) \<Rightarrow> wpa_sm \<Rightarrow> wpa_sm" where
  "wpa_group_update_sta step sm =
    (if wpa_ptk_state sm \<noteq> PTK_PTKINITDONE then sm\<lparr>GUpdateStationKeys := False\<rparr>
     else if is_wnmsleep sm then sm
     else step (upd_group (\<lambda>g. g\<lparr>GKeyDoneStations := GKeyDoneStations g + 1\<rparr>) sm\<lparr>GUpdateStationKeys := True\<rparr>))"

definition swap_keys :: "wpa_group \<Rightarrow> wpa_group" where
  "swap_keys g = g\<lparr>GM := GN g, GN := GM g, GM_igtk := GN_igtk g, GN_igtk := GM_igtk g\<rparr>"

text \<open>The stations before this one in the list have been marked first; \<open>others_pending\<close> counts all others.\<close>

definition wpa_group_setkeys :: "wpa_env \<Rightarrow> (wpa_sm \<Rightarrow> wpa_sm) \<Rightarrow> wpa_sm \<Rightarrow> wpa_sm" where
  "wpa_group_setkeys env step sm =
    (let sm = upd_group (\<lambda>g. swap_keys (g\<lparr>gchanged := True, wpa_group_state := SETKEYS, GTKReKey := False\<rparr>)) sm;
         sm = snd (wpa_gtk_update env sm);
         sm = upd_group (\<lambda>g. g\<lparr>GKeyDoneStations := others_pending env (ws_outs sm)\<rparr>) sm
     in wpa_group_update_sta step sm)"

definition wpa_group_fatal_failure :: "wpa_sm \<Rightarrow> wpa_sm" where
  "wpa_group_fatal_failure sm = upd_group (\<lambda>g. g\<lparr>gchanged := True, wpa_group_state := FATAL_FAILURE\<rparr>) sm\<lparr>Disconnect := True\<rparr>"

definition wpa_group_setkeysdone :: "wpa_env \<Rightarrow> wpa_sm \<Rightarrow> wpa_sm" where
  "wpa_group_setkeysdone env sm =
    (let sm = upd_group (\<lambda>g. g\<lparr>gchanged := True, wpa_group_state := SETKEYSDONE\<rparr>) sm;
         (ok, sm) = wpa_group_config_group_keys env sm
     in if ok then sm else wpa_group_fatal_failure sm)"

definition wpa_group_sm_step :: "wpa_env \<Rightarrow> (wpa_sm \<Rightarrow> wpa_sm) \<Rightarrow> wpa_sm \<Rightarrow> wpa_sm" where
  "wpa_group_sm_step env step sm =
    (let g = group sm
     in if GInit g then wpa_group_gtk_init env sm
        else if wpa_group_state g = FATAL_FAILURE then sm
        else if wpa_group_state g = GTK_INIT \<and> GTKAuthenticator g then wpa_group_setkeysdone env sm
        else if wpa_group_state g = SETKEYSDONE \<and> GTKReKey g then wpa_group_setkeys env step sm
        else if wpa_group_state g = SETKEYS
        then if GKeyDoneStations g = 0 then wpa_group_setkeysdone env sm
             else if GTKReKey g then wpa_group_setkeys env step sm
             else sm
        else sm)"

subsection \<open>The step loop\<close>

text \<open>
  One round. The source clears and tests the flag of \<open>sm->wpa_auth->group\<close>, the first group of the access point, and steps \<open>sm->group\<close>; the model has one
  group, that of the station, which is the same one unless stations are put into groups of their own (per-VLAN groups, \<open>wpa_auth_sta_set_vlan\<close>). The
  breaks on \<open>pending_deinit\<close> (the entry of the station was deleted by a callback while the loop runs) are left out: the station no longer exists then.
\<close>

definition step_once :: "wpa_env \<Rightarrow> wpa_sm \<Rightarrow> wpa_sm" where
  "step_once env sm =
    wpa_group_sm_step env (\<lambda>sm. sm)
      (sm_WPA_PTK_GROUP_Step env (sm_WPA_PTK_Step env (upd_group (\<lambda>g. g\<lparr>gchanged := False\<rparr>) sm\<lparr>changed := False\<rparr>)))"

subsection \<open>What the auxiliary calls leave alone\<close>

text \<open>
  Random numbers, group keys and frames: these calls only add to the log, use up replay counters, and change
  key material of the group. What steers the machines is as before.
\<close>

definition gctl :: "wpa_group \<Rightarrow> bool \<times> int \<times> bool \<times> bool \<times> group_state \<times> bool" where
  "gctl g = (GInit g, GKeyDoneStations g, GTKReKey g, GTKAuthenticator g, wpa_group_state g, gchanged g)"

fun quiet_out :: "wpa_out \<Rightarrow> bool" where
  "quiet_out (GetRandom n) = True"
| "quiet_out (SetGroupKey alg idx key) = True"
| "quiet_out (SendEapol frame encr) = True"
| "quiet_out (Register t ms) = (t = SendEapolTimeout)"
| "quiet_out (SetEapol v x) = (v = EAPOL_inc_EapolFramesTx)"
| "quiet_out _ = False"

definition quiet :: "wpa_sm \<Rightarrow> wpa_sm \<Rightarrow> bool" where
  "quiet sm sm' =
    (\<exists>g n p outs. sm' = sm\<lparr>group := g, key_replay := (next_replay ^^ n) (key_replay sm), pending_1_of_4_timeout := p, ws_outs := ws_outs sm @ outs\<rparr>
       \<and> gctl g = gctl (group sm) \<and> list_all quiet_out outs)"

lemma quietI:
  assumes "sm' = sm\<lparr>group := g, key_replay := (next_replay ^^ n) (key_replay sm), pending_1_of_4_timeout := p, ws_outs := ws_outs sm @ outs\<rparr>"
    and "gctl g = gctl (group sm)" "list_all quiet_out outs"
  shows "quiet sm sm'"
  unfolding quiet_def using assms by blast

lemma quietE:
  assumes "quiet sm sm'"
  obtains g n p outs where
    "sm' = sm\<lparr>group := g, key_replay := (next_replay ^^ n) (key_replay sm), pending_1_of_4_timeout := p, ws_outs := ws_outs sm @ outs\<rparr>"
    "gctl g = gctl (group sm)" "list_all quiet_out outs"
  using assms unfolding quiet_def by blast

lemma quiet_refl: "quiet sm sm"
  by (rule quietI[where g = "group sm" and n = 0 and p = "pending_1_of_4_timeout sm" and outs = "[]"]) simp_all

lemma quiet_trans:
  assumes "quiet a b" "quiet b c"
  shows "quiet a c"
proof -
  obtain g n p os where b: "b = a\<lparr>group := g, key_replay := (next_replay ^^ n) (key_replay a), pending_1_of_4_timeout := p, ws_outs := ws_outs a @ os\<rparr>"
      "gctl g = gctl (group a)" "list_all quiet_out os"
    using assms(1) by (rule quietE)
  obtain g' n' p' os' where c: "c = b\<lparr>group := g', key_replay := (next_replay ^^ n') (key_replay b), pending_1_of_4_timeout := p', ws_outs := ws_outs b @ os'\<rparr>"
      "gctl g' = gctl (group b)" "list_all quiet_out os'"
    using assms(2) by (rule quietE)
  show ?thesis
    by (rule quietI[where g = g' and n = "n' + n" and p = p' and outs = "os @ os'"]) (use b c in \<open>simp_all add: funpow_add\<close>)
qed

lemma quiet_emit: "quiet_out x \<Longrightarrow> quiet sm (emit_out x sm)"
  by (rule quietI[where g = "group sm" and n = 0 and p = "pending_1_of_4_timeout sm" and outs = "[x]"]) (simp_all add: emit_out_def)

lemma quiet_upd_group: "gctl (f (group sm)) = gctl (group sm) \<Longrightarrow> quiet sm (upd_group f sm)"
  by (rule quietI[where g = "f (group sm)" and n = 0 and p = "pending_1_of_4_timeout sm" and outs = "[]"]) (simp_all add: upd_group_def)

lemma quiet_pending: "quiet sm (sm\<lparr>pending_1_of_4_timeout := p\<rparr>)"
  by (rule quietI[where g = "group sm" and n = 0 and p = p and outs = "[]"]) simp_all

lemma quiet_replay: "quiet sm (sm\<lparr>key_replay := next_replay (key_replay sm)\<rparr>)"
  by (rule quietI[where g = "group sm" and n = 1 and p = "pending_1_of_4_timeout sm" and outs = "[]"]) simp_all


lemma quiet_upds:
  "quiet a sm \<Longrightarrow> quiet_out x \<Longrightarrow> quiet a (emit_out x sm)"
  "quiet a sm \<Longrightarrow> gctl (f (group sm)) = gctl (group sm) \<Longrightarrow> quiet a (upd_group f sm)"
  "quiet a sm \<Longrightarrow> quiet a (sm\<lparr>pending_1_of_4_timeout := p\<rparr>)"
  "quiet a sm \<Longrightarrow> quiet a (sm\<lparr>key_replay := next_replay (key_replay sm)\<rparr>)"
  by (blast intro: quiet_trans quiet_emit quiet_upd_group quiet_pending quiet_replay)+

lemma quiet_get_random: "get_random env n sm = (r, sm') \<Longrightarrow> quiet a sm \<Longrightarrow> quiet a sm'"
  by (auto simp: get_random_def intro: quiet_upds)

lemma quiet_init_gmk: "wpa_group_init_gmk_and_counter env sm = (r, sm') \<Longrightarrow> quiet a sm \<Longrightarrow> quiet a sm'"
  unfolding wpa_group_init_gmk_and_counter_def Let_def
  by (auto split: prod.splits option.splits simp: gctl_def intro!: quiet_upds elim!: quiet_get_random)

lemma quiet_gmk_to_gtk: "wpa_gmk_to_gtk env label gnonce n sm = (r, sm') \<Longrightarrow> quiet a sm \<Longrightarrow> quiet a sm'"
  unfolding wpa_gmk_to_gtk_def Let_def by (auto split: prod.splits elim!: quiet_get_random)

lemma quiet_next_gnonce: "quiet a sm \<Longrightarrow> quiet a (next_gnonce sm)"
  unfolding next_gnonce_def by (rule quiet_upds) (simp_all add: gctl_def)

lemma quiet_gtk_update: "wpa_gtk_update env sm = (r, sm') \<Longrightarrow> quiet a sm \<Longrightarrow> quiet a sm'"
  unfolding wpa_gtk_update_def Let_def
  by (auto split: prod.splits if_splits simp: gctl_def intro!: quiet_upds quiet_next_gnonce elim!: quiet_gmk_to_gtk)

lemma quiet_set_group_key: "set_group_key env alg idx key sm = (r, sm') \<Longrightarrow> quiet a sm \<Longrightarrow> quiet a sm'"
  by (auto simp: set_group_key_def Let_def intro: quiet_upds)

lemma quiet_config: "wpa_group_config_group_keys env sm = (r, sm') \<Longrightarrow> quiet a sm \<Longrightarrow> quiet a sm'"
  unfolding wpa_group_config_group_keys_def Let_def by (auto split: prod.splits if_splits elim!: quiet_set_group_key)

lemma quiet_snds:
  "quiet a sm \<Longrightarrow> quiet a (snd (wpa_group_init_gmk_and_counter env sm))"
  "quiet a sm \<Longrightarrow> quiet a (snd (wpa_gtk_update env sm))"
  "quiet a sm \<Longrightarrow> quiet a (snd (wpa_group_config_group_keys env sm))"
  by (rule quiet_init_gmk quiet_gtk_update quiet_config, rule prod.collapse[symmetric], assumption)+

lemma quiet_group_setup: "group_setup env sm = (r, sm') \<Longrightarrow> quiet a sm \<Longrightarrow> quiet a sm'"
  unfolding group_setup_def
  by (auto split: prod.splits bool.splits elim!: quiet_init_gmk quiet_gtk_update quiet_config)

lemma quiet_ensure_init: 
  assumes "quiet a sm"
  shows "quiet a (wpa_group_ensure_init env sm)"
proof -
  define sm1 where "sm1 = upd_group (\<lambda>g. if random_pool_ready env (ws_outs sm) then g\<lparr>first_sta_seen := True, reject_4way_hs_for_entropy := False\<rparr>
      else g\<lparr>reject_4way_hs_for_entropy := True\<rparr>) sm"
  obtain ok sm2 where s: "group_setup env sm1 = (ok, sm2)" by fastforce
  have "quiet a sm1" unfolding sm1_def using assms by (rule quiet_upds(2)) (simp add: gctl_def)
  with s have "quiet a sm2" by (rule quiet_group_setup)
  then have "quiet a (upd_group (\<lambda>g. g\<lparr>first_sta_seen := False, reject_4way_hs_for_entropy := True\<rparr>) sm2)"
    by (rule quiet_upds(2)) (simp add: gctl_def)
  with \<open>quiet a sm2\<close> s assms show ?thesis
    unfolding wpa_group_ensure_init_def Let_def sm1_def[symmetric] s by (cases ok) simp_all
qed

lemma quiet_key_data_field: "key_data_field env version kde encr sm = (r, sm') \<Longrightarrow> quiet a sm \<Longrightarrow> quiet a sm'"
  unfolding key_data_field_def Let_def by (auto split: sum.splits if_splits simp: gctl_def intro!: quiet_upds)

lemma quiet_sign_and_send: "quiet a sm \<Longrightarrow> quiet a (sign_and_send env info version frame sm)"
  unfolding sign_and_send_def Let_def set_eapol_def by (simp add: quiet_upds)

lemma quiet_send_frame:
  assumes "quiet a sm"
  shows "quiet a (wpa_send_eapol_frame env info rsc nonce kde keyidx encr sm)"
proof -
  obtain r sm' where k: "key_data_field env (send_version sm) kde encr (sm\<lparr>key_replay := next_replay (key_replay sm)\<rparr>) = (r, sm')"
    by fastforce
  then have "quiet a sm'" using assms by (rule quiet_key_data_field[OF _ quiet_upds(4)])
  then show ?thesis
    unfolding wpa_send_eapol_frame_def Let_def k by (auto split: option.split prod.split intro: assms quiet_sign_and_send)
qed

lemma quiet_send: "quiet a sm \<Longrightarrow> quiet a (wpa_send_eapol env info rsc nonce kde keyidx encr sm)"
  unfolding wpa_send_eapol_def Let_def by (auto intro!: quiet_upds quiet_send_frame)

lemma quiet_kde_add: "ieee80211w_kde_add env sm = (r, sm') \<Longrightarrow> quiet a sm \<Longrightarrow> quiet a sm'"
  unfolding ieee80211w_kde_add_def Let_def by (auto split: prod.splits option.splits if_splits elim!: quiet_get_random)

lemma quiet_station_gtk: "station_gtk env sm = (r, sm') \<Longrightarrow> quiet a sm \<Longrightarrow> quiet a sm'"
  unfolding station_gtk_def by (auto split: if_splits elim!: quiet_get_random)

lemma quiet_msg3_params: "msg3_params env sm = (r, sm') \<Longrightarrow> quiet a sm \<Longrightarrow> quiet a sm'"
  unfolding msg3_params_def Let_def by (auto split: prod.splits option.splits if_splits elim!: quiet_station_gtk)

lemma quiet_group_key_data: "group_key_data env gtk sm = (r, sm') \<Longrightarrow> quiet a sm \<Longrightarrow> quiet a sm'"
  unfolding group_key_data_def Let_def by (auto split: prod.splits option.splits if_splits elim!: quiet_kde_add)

lemmas quiets = quiet_refl quiet_upds quiet_next_gnonce quiet_ensure_init quiet_send_frame quiet_send

lemmas quiet_elims = quiet_get_random quiet_gtk_update quiet_config quiet_kde_add quiet_station_gtk quiet_msg3_params quiet_group_key_data

subsection \<open>Termination\<close>

text \<open>
  The work that is left. The rank of the group comes first: a step of the group may give the station new work. Between two steps
  of the group, each entry of a state of the station takes off more than the requests that it raises.
\<close>

fun group_state_rank :: "group_state \<Rightarrow> bool \<Rightarrow> nat" where
  "group_state_rank FATAL_FAILURE rekey = 0"
| "group_state_rank SETKEYSDONE rekey = (if rekey then 3 else 1)"
| "group_state_rank SETKEYS rekey = (if rekey then 4 else 2)"
| "group_state_rank GTK_INIT rekey = 5"

definition group_rank :: "wpa_sm \<Rightarrow> nat" where
  "group_rank sm = (if GInit (group sm) then 0 else group_state_rank (wpa_group_state (group sm)) (GTKReKey (group sm)))"

fun ptk_rank :: "ptk_state \<Rightarrow> nat" where
  "ptk_rank PTK_INITIALIZE = 0"
| "ptk_rank PTK_DISCONNECTED = 1"
| "ptk_rank PTK_DISCONNECT = 2"
| "ptk_rank PTK_PTKINITDONE = 0"
| "ptk_rank PTK_PTKINITNEGOTIATING = 50"
| "ptk_rank PTK_PTKCALCNEGOTIATING2 = 51"
| "ptk_rank PTK_PTKCALCNEGOTIATING = 52"
| "ptk_rank PTK_PTKSTART = 50"
| "ptk_rank PTK_INITPSK = 51"
| "ptk_rank PTK_INITPMK = 51"
| "ptk_rank PTK_AUTHENTICATION2 = 57"
| "ptk_rank PTK_AUTHENTICATION = 63"

definition ptk_group_rank :: "wpa_sm \<Rightarrow> nat" where
  "ptk_group_rank sm =
    (case wpa_ptk_group_state sm of
       GROUP_IDLE \<Rightarrow> 20 * of_bool (GUpdateStationKeys sm) + 10 * of_bool (GTimeoutCtr sm \<ge> 4)
     | GROUP_REKEYNEGOTIATING \<Rightarrow> if GTimeoutCtr sm \<le> 4 then 9 else 7
     | _ \<Rightarrow> 1 + 20 * of_bool (GUpdateStationKeys sm))"

definition requests :: "wpa_sm \<Rightarrow> nat" where
  "requests sm = 2 * of_bool (DeauthenticationRequest sm) + 5 * of_bool (Disconnect sm) + 63 * of_bool (ReAuthenticationRequest sm)
     + 64 * of_bool (AuthenticationRequest sm) + 51 * of_bool (PTKRequest sm) + 3 * of_bool (EAPOLKeyReceived sm)
     + 1 * of_bool (TimeoutEvt sm) + 3 * of_bool (update_snonce sm) + 40 * of_bool (PInitAKeys sm)
     + 50 * of_bool (PtkGroupInit sm)"

definition work :: "wpa_sm \<Rightarrow> nat" where
  "work sm = ptk_rank (wpa_ptk_state sm) + ptk_group_rank sm + requests sm"

lemma quiet_work: "quiet sm sm' \<Longrightarrow> work sm' = work sm \<and> group_rank sm' = group_rank sm \<and> Init sm' = Init sm \<and> changed sm' = changed sm
     \<and> gchanged (group sm') = gchanged (group sm) \<and> GInit (group sm') = GInit (group sm)"
  by (erule quietE) (simp add: work_def ptk_group_rank_def requests_def group_rank_def gctl_def)

lemmas entry_simps = ptk_entry_def group_entry_def group_done_def upd_group_def emit_out_def set_eapol_def wpa_remove_ptk_def
  deauth_request_def sta_disconnect_in_loop_def count_failure_def

lemmas work_simps = work_def ptk_group_rank_def requests_def group_rank_def

lemma work_frame [simp]:
  "work (sm\<lparr>ws_outs := v_ws_outs\<rparr>) = work sm"
  "work (sm\<lparr>PTK := v_PTK\<rparr>) = work sm"
  "work (sm\<lparr>PTK_valid := v_PTK_valid\<rparr>) = work sm"
  "work (sm\<lparr>MICVerified := v_MICVerified\<rparr>) = work sm"
  "work (sm\<lparr>PMK := v_PMK\<rparr>) = work sm"
  "work (sm\<lparr>pairwise_set := v_pairwise_set\<rparr>) = work sm"
  "work (sm\<lparr>pending_1_of_4_timeout := v_pending_1_of_4_timeout\<rparr>) = work sm"
  "work (sm\<lparr>changed := v_changed\<rparr>) = work sm"
  "work (sm\<lparr>key_replay := v_key_replay\<rparr>) = work sm"
  "work (sm\<lparr>TimeoutCtr := v_TimeoutCtr\<rparr>) = work sm"
  "work (sm\<lparr>ANonce := v_ANonce\<rparr>) = work sm"
  "work (sm\<lparr>has_GTK := v_has_GTK\<rparr>) = work sm"
  "work (sm\<lparr>req_replay_counter_used := v_req_replay_counter_used\<rparr>) = work sm"
  "work (sm\<lparr>group := v_group\<rparr>) = work sm"
  "work (sm\<lparr>alt_snonce_valid := v_alt_snonce_valid\<rparr>) = work sm"
  by (simp_all add: work_simps)

lemma group_rank_frame [simp]:
  "group_rank (sm\<lparr>ws_outs := v_ws_outs\<rparr>) = group_rank sm"
  "group_rank (sm\<lparr>PTK := v_PTK\<rparr>) = group_rank sm"
  "group_rank (sm\<lparr>PTK_valid := v_PTK_valid\<rparr>) = group_rank sm"
  "group_rank (sm\<lparr>MICVerified := v_MICVerified\<rparr>) = group_rank sm"
  "group_rank (sm\<lparr>PMK := v_PMK\<rparr>) = group_rank sm"
  "group_rank (sm\<lparr>pairwise_set := v_pairwise_set\<rparr>) = group_rank sm"
  "group_rank (sm\<lparr>pending_1_of_4_timeout := v_pending_1_of_4_timeout\<rparr>) = group_rank sm"
  "group_rank (sm\<lparr>changed := v_changed\<rparr>) = group_rank sm"
  "group_rank (sm\<lparr>key_replay := v_key_replay\<rparr>) = group_rank sm"
  "group_rank (sm\<lparr>TimeoutCtr := v_TimeoutCtr\<rparr>) = group_rank sm"
  "group_rank (sm\<lparr>ANonce := v_ANonce\<rparr>) = group_rank sm"
  "group_rank (sm\<lparr>has_GTK := v_has_GTK\<rparr>) = group_rank sm"
  "group_rank (sm\<lparr>req_replay_counter_used := v_req_replay_counter_used\<rparr>) = group_rank sm"
  "group_rank (sm\<lparr>alt_snonce_valid := v_alt_snonce_valid\<rparr>) = group_rank sm"
  "group_rank (sm\<lparr>DeauthenticationRequest := v_DeauthenticationRequest\<rparr>) = group_rank sm"
  "group_rank (sm\<lparr>Disconnect := v_Disconnect\<rparr>) = group_rank sm"
  "group_rank (sm\<lparr>PInitAKeys := v_PInitAKeys\<rparr>) = group_rank sm"
  "group_rank (sm\<lparr>ReAuthenticationRequest := v_ReAuthenticationRequest\<rparr>) = group_rank sm"
  "group_rank (sm\<lparr>EAPOLKeyReceived := v_EAPOLKeyReceived\<rparr>) = group_rank sm"
  "group_rank (sm\<lparr>update_snonce := v_update_snonce\<rparr>) = group_rank sm"
  "group_rank (sm\<lparr>PTKRequest := v_PTKRequest\<rparr>) = group_rank sm"
  "group_rank (sm\<lparr>TimeoutEvt := v_TimeoutEvt\<rparr>) = group_rank sm"
  "group_rank (sm\<lparr>wpa_ptk_state := v_wpa_ptk_state\<rparr>) = group_rank sm"
  "group_rank (sm\<lparr>GUpdateStationKeys := v_GUpdateStationKeys\<rparr>) = group_rank sm"
  "group_rank (upd_group (\<lambda>g. g\<lparr>GKeyDoneStations := v_count g\<rparr>) sm) = group_rank sm"
  by (simp_all add: group_rank_def upd_group_def)

lemma work_flags:
  "work (sm\<lparr>DeauthenticationRequest := b\<rparr>) + 2 * of_bool (DeauthenticationRequest sm) = work sm + 2 * of_bool b"
  "work (sm\<lparr>Disconnect := b\<rparr>) + 5 * of_bool (Disconnect sm) = work sm + 5 * of_bool b"
  "work (sm\<lparr>PInitAKeys := b\<rparr>) + 40 * of_bool (PInitAKeys sm) = work sm + 40 * of_bool b"
  "work (sm\<lparr>ReAuthenticationRequest := b\<rparr>) + 63 * of_bool (ReAuthenticationRequest sm) = work sm + 63 * of_bool b"
  "work (sm\<lparr>EAPOLKeyReceived := b\<rparr>) + 3 * of_bool (EAPOLKeyReceived sm) = work sm + 3 * of_bool b"
  "work (sm\<lparr>update_snonce := b\<rparr>) + 3 * of_bool (update_snonce sm) = work sm + 3 * of_bool b"
  "work (sm\<lparr>PTKRequest := b\<rparr>) + 51 * of_bool (PTKRequest sm) = work sm + 51 * of_bool b"
  "work (sm\<lparr>TimeoutEvt := b\<rparr>) + of_bool (TimeoutEvt sm) = work sm + of_bool b"
  "work (sm\<lparr>wpa_ptk_state := st\<rparr>) + ptk_rank (wpa_ptk_state sm) = work sm + ptk_rank st"
  by (simp_all add: work_def ptk_group_rank_def requests_def)

lemma work_raise:
  "work (sm\<lparr>DeauthenticationRequest := b\<rparr>) \<le> work sm + 2"
  "work (sm\<lparr>Disconnect := b\<rparr>) \<le> work sm + 5"
  "work (sm\<lparr>PInitAKeys := b\<rparr>) \<le> work sm + 40"
  using work_flags(1-3)[where sm = sm and b = b] by (auto simp: of_bool_def split: if_splits)

text \<open>\<open>steps_down a b\<close>: from \<open>a\<close> to \<open>b\<close> work was taken off, the change is flagged, and the group is where it was.\<close>

definition steps_down :: "wpa_sm \<Rightarrow> wpa_sm \<Rightarrow> bool" where
  "steps_down a b = (work b < work a \<and> group_rank b = group_rank a \<and> Init b = Init a \<and> gchanged (group b) = gchanged (group a)
     \<and> GInit (group b) = GInit (group a) \<and> changed b)"

lemma steps_down_quiet: "steps_down a b \<Longrightarrow> quiet b c \<Longrightarrow> steps_down a c"
  by (simp add: steps_down_def quiet_work)

lemma disconnect_down:
  assumes "Disconnect sm \<or> ptk_rank (wpa_ptk_state sm) > 10"
  shows "steps_down sm (sm_WPA_PTK_DISCONNECT_Enter sm)" "steps_down sm (sm_WPA_PTK_DISCONNECT_Enter (count_failure sm))"
  using assms
  by (auto simp: sm_WPA_PTK_DISCONNECT_Enter_def entry_simps steps_down_def work_simps Let_def)

lemma initialize_down: "\<not> Init sm \<Longrightarrow> wpa_ptk_state sm = PTK_DISCONNECTED \<Longrightarrow> steps_down sm (sm_WPA_PTK_INITIALIZE_Enter sm)"
  unfolding sm_WPA_PTK_INITIALIZE_Enter_def Let_def
  by (cases "GUpdateStationKeys sm"; cases "ws_wpa sm = WPA_VERSION_WPA"; cases "wpa_key_mgmt_wpa_psk (ws_wpa_key_mgmt sm)";
      cases "wpa_ptk_group_state sm")
    (simp_all add: entry_simps steps_down_def work_simps)

lemma disconnected_down:
  "DeauthenticationRequest sm \<or> wpa_ptk_state sm = PTK_DISCONNECT \<Longrightarrow> steps_down sm (sm_WPA_PTK_DISCONNECTED_Enter sm)"
  by (auto simp: sm_WPA_PTK_DISCONNECTED_Enter_def entry_simps steps_down_def work_simps)

lemma authentication_down: "AuthenticationRequest sm \<Longrightarrow> steps_down sm (sm_WPA_PTK_AUTHENTICATION_Enter sm)"
  by (auto simp: sm_WPA_PTK_AUTHENTICATION_Enter_def entry_simps steps_down_def work_simps Let_def)

lemma authentication2_down:
  assumes "ReAuthenticationRequest sm \<or> wpa_ptk_state sm = PTK_AUTHENTICATION"
  shows "steps_down sm (sm_WPA_PTK_AUTHENTICATION2_Enter env sm)"
proof -
  define sm0 where "sm0 = ptk_entry PTK_AUTHENTICATION2 sm"
  define sm1 where "sm1 = wpa_group_ensure_init env sm0\<lparr>ReAuthenticationRequest := False\<rparr>"
  obtain r sm2 where g: "get_random env WPA_NONCE_LEN sm1 = (r, sm2)" by fastforce
  have q: "quiet sm0 (wpa_group_ensure_init env sm0)" "quiet sm1 sm2"
    using g by (auto intro: quiets quiet_get_random)
  have "work sm0 + ptk_rank (wpa_ptk_state sm) = work sm + 57" "group_rank sm0 = group_rank sm" "Init sm0 = Init sm" "gchanged (group sm0) = gchanged (group sm)"
    "GInit (group sm0) = GInit (group sm)" "changed sm0"
    using work_flags(9)[where sm = "sm\<lparr>changed := True\<rparr>" and st = PTK_AUTHENTICATION2] by (simp_all add: sm0_def ptk_entry_def)
  moreover have "ReAuthenticationRequest (wpa_group_ensure_init env sm0) = ReAuthenticationRequest sm"
    using q(1) by (auto simp: sm0_def ptk_entry_def elim: quietE)
  ultimately have "work sm1 + 5 < work sm" "group_rank sm1 = group_rank sm" "Init sm1 = Init sm" "gchanged (group sm1) = gchanged (group sm)"
    "GInit (group sm1) = GInit (group sm)" "changed sm1"
    using assms quiet_work[OF q(1)] work_flags(4)[where sm = "wpa_group_ensure_init env sm0" and b = False]
    unfolding sm1_def by auto
  with quiet_work[OF q(2)] show ?thesis
    unfolding sm_WPA_PTK_AUTHENTICATION2_Enter_def Let_def sm0_def[symmetric] sm1_def[symmetric] g
    using work_raise(2)[where sm = sm2 and b = True] by (cases r) (auto simp: steps_down_def)
qed

lemma initpmk_down: "wpa_ptk_state sm = PTK_AUTHENTICATION2 \<Longrightarrow> steps_down sm (sm_WPA_PTK_INITPMK_Enter env sm)"
  unfolding sm_WPA_PTK_INITPMK_Enter_def Let_def
  by (cases "ws_pmksa sm"; cases "get_msk env (ws_outs sm)")
    (simp_all add: entry_simps steps_down_def work_simps of_bool_def)

lemma initpsk_down: "wpa_ptk_state sm = PTK_AUTHENTICATION2 \<Longrightarrow> steps_down sm (sm_WPA_PTK_INITPSK_Enter env sm)"
  unfolding sm_WPA_PTK_INITPSK_Enter_def Let_def
  by (cases "we_psks env") (simp_all add: entry_simps steps_down_def work_simps)

lemma ptkstart_down:
  assumes "PTKRequest sm \<or> wpa_ptk_state sm \<in> {PTK_INITPMK, PTK_INITPSK}
    \<or> TimeoutEvt sm \<and> wpa_ptk_state sm \<in> {PTK_PTKSTART, PTK_PTKCALCNEGOTIATING}"
  shows "steps_down sm (sm_WPA_PTK_PTKSTART_Enter env sm)"
proof -
  define sm0 where "sm0 = ptk_entry PTK_PTKSTART sm\<lparr>PTKRequest := False, TimeoutEvt := False, alt_snonce_valid := False, TimeoutCtr := TimeoutCtr sm + 1\<rparr>"
  have "steps_down sm sm0"
    using assms by (auto simp: sm0_def ptk_entry_def steps_down_def work_simps)
  then show ?thesis
    unfolding sm_WPA_PTK_PTKSTART_Enter_def Let_def sm0_def[symmetric] by (auto intro: steps_down_quiet quiets)
qed

lemma calc_down:
  assumes "EAPOLKeyReceived sm \<and> wpa_ptk_state sm \<in> {PTK_PTKSTART, PTK_PTKCALCNEGOTIATING}
    \<or> update_snonce sm \<and> wpa_ptk_state sm = PTK_PTKINITNEGOTIATING"
  shows "steps_down sm (sm_WPA_PTK_PTKCALCNEGOTIATING_Enter env sm)"
proof -
  define sm0 where "sm0 = ptk_entry PTK_PTKCALCNEGOTIATING sm\<lparr>EAPOLKeyReceived := False, update_snonce := False\<rparr>"
  have "steps_down sm sm0"
    using assms by (auto simp: sm0_def ptk_entry_def steps_down_def work_simps)
  then show ?thesis
    unfolding sm_WPA_PTK_PTKCALCNEGOTIATING_Enter_def Let_def sm0_def[symmetric]
    by (cases "matching_pmk env sm0 (SNonce sm0) (last_rx_eapol_key sm0)"; cases "wpa_key_mgmt_wpa_psk (ws_wpa_key_mgmt sm0)"; cases "we_psks env")
      (simp_all add: emit_out_def steps_down_def)
qed

lemma calc2_down: "wpa_ptk_state sm = PTK_PTKCALCNEGOTIATING \<Longrightarrow> steps_down sm (sm_WPA_PTK_PTKCALCNEGOTIATING2_Enter sm)"
  by (auto simp: sm_WPA_PTK_PTKCALCNEGOTIATING2_Enter_def entry_simps steps_down_def work_simps)

lemma initnegotiating_quiet:
  "quiet (ptk_entry PTK_PTKINITNEGOTIATING sm\<lparr>TimeoutEvt := False, TimeoutCtr := TimeoutCtr sm + 1\<rparr>) (sm_WPA_PTK_PTKINITNEGOTIATING_Enter env sm)"
proof -
  define sm0 where "sm0 = ptk_entry PTK_PTKINITNEGOTIATING sm\<lparr>TimeoutEvt := False, TimeoutCtr := TimeoutCtr sm + 1\<rparr>"
  obtain r sm1 where m: "msg3_params env sm0 = (r, sm1)" by fastforce
  obtain kde sm2 where k: "ieee80211w_kde_add env sm1 = (kde, sm2)" by fastforce
  have q: "quiet sm0 sm1" "quiet sm0 sm2"
    using m k by (blast intro: quiet_refl quiet_msg3_params quiet_kde_add)+
  show ?thesis
    unfolding sm_WPA_PTK_PTKINITNEGOTIATING_Enter_def Let_def sm0_def[symmetric] m
    by (auto simp: k q intro: quiets split: option.split)
qed

lemma initnegotiating_down:
  assumes "wpa_ptk_state sm = PTK_PTKCALCNEGOTIATING2 \<or> TimeoutEvt sm \<and> wpa_ptk_state sm = PTK_PTKINITNEGOTIATING"
  shows "steps_down sm (sm_WPA_PTK_PTKINITNEGOTIATING_Enter env sm)"
  by (rule steps_down_quiet[OF _ initnegotiating_quiet]) (use assms in \<open>auto simp: ptk_entry_def steps_down_def work_simps\<close>)

lemma initdone_down:
  assumes "wpa_ptk_state sm = PTK_PTKINITNEGOTIATING"
  shows "steps_down sm (sm_WPA_PTK_PTKINITDONE_Enter env sm)"
proof -
  define sm0 where "sm0 = ptk_entry PTK_PTKINITDONE sm\<lparr>EAPOLKeyReceived := False\<rparr>"
  have "work sm0 + 42 < work sm" "group_rank sm0 = group_rank sm" "Init sm0 = Init sm" "gchanged (group sm0) = gchanged (group sm)"
    "GInit (group sm0) = GInit (group sm)" "changed sm0"
    using assms by (auto simp: sm0_def ptk_entry_def work_simps)
  then show ?thesis
    unfolding sm_WPA_PTK_PTKINITDONE_Enter_def Let_def sm0_def[symmetric]
    by (cases "Pair sm0"; cases "set_key_result env (ws_outs sm0) = 0"; cases "ac_wpa_ptk_rekey (we_conf env) = 0";
        cases "wpa_key_mgmt_wpa_psk (ws_wpa_key_mgmt sm0)"; cases "ws_wpa sm0 = WPA_VERSION_WPA")
      (simp_all add: entry_simps steps_down_def le_less_trans[OF work_raise(3)] le_less_trans[OF work_raise(1)])
qed

lemma ptk_switch_down: "\<not> Init sm \<Longrightarrow> ptk_switch env sm = sm \<or> steps_down sm (ptk_switch env sm)"
  unfolding ptk_switch_def pairwise_reply_def
  by (cases "wpa_ptk_state sm")
    (simp_all add: disconnect_down initialize_down disconnected_down authentication2_down initpmk_down initpsk_down
      ptkstart_down calc_down calc2_down initnegotiating_down initdone_down)

lemma ptk_step_down: "\<not> Init sm \<Longrightarrow> sm_WPA_PTK_Step env sm = sm \<or> steps_down sm (sm_WPA_PTK_Step env sm)"
  unfolding sm_WPA_PTK_Step_def
  using ptk_switch_down
  by (simp add: disconnect_down disconnected_down authentication_down authentication2_down ptkstart_down)

lemma ptk_step_init:
  assumes "Init sm"
  shows "\<not> changed (sm_WPA_PTK_Step env sm)" "group_rank (sm_WPA_PTK_Step env sm) = group_rank sm" "Init (sm_WPA_PTK_Step env sm)"
    "gchanged (group (sm_WPA_PTK_Step env sm)) = gchanged (group sm)"
  unfolding sm_WPA_PTK_Step_def sm_WPA_PTK_INITIALIZE_Enter_def Let_def
  using assms
  by (cases "GUpdateStationKeys sm"; cases "ws_wpa sm = WPA_VERSION_WPA"; cases "wpa_key_mgmt_wpa_psk (ws_wpa_key_mgmt sm)";
      simp add: entry_simps group_rank_def)+

lemma rekeynegotiating_quiet:
  "quiet ((let sm = group_entry GROUP_REKEYNEGOTIATING sm\<lparr>GTimeoutCtr := GTimeoutCtr sm + 1\<rparr>
           in if GTimeoutCtr sm > dot11RSNAConfigGroupUpdateCount then sm
              else (if ws_wpa sm = WPA_VERSION_WPA then sm\<lparr>PInitAKeys := False\<rparr> else sm)\<lparr>TimeoutEvt := False\<rparr>))
     (sm_WPA_PTK_GROUP_REKEYNEGOTIATING_Enter env sm)"
proof -
  define sm0 where "sm0 = group_entry GROUP_REKEYNEGOTIATING sm\<lparr>GTimeoutCtr := GTimeoutCtr sm + 1\<rparr>"
  define sm1 where "sm1 = (if ws_wpa sm0 = WPA_VERSION_WPA then sm0\<lparr>PInitAKeys := False\<rparr> else sm0)\<lparr>TimeoutEvt := False\<rparr>"
  obtain r sm2 where g: "station_gtk env sm1 = (r, sm2)" by fastforce
  obtain k sm3 where k: "group_key_data env (the r) sm2 = (k, sm3)" by fastforce
  have q: "quiet sm1 sm2" using g by (rule quiet_station_gtk) (rule quiet_refl)
  then have "quiet sm1 sm3" using k by (blast intro: quiet_group_key_data)
  with q k show ?thesis
    unfolding sm_WPA_PTK_GROUP_REKEYNEGOTIATING_Enter_def Let_def sm0_def[symmetric] sm1_def[symmetric] g
    by (auto split: option.split intro: quiets)
qed

lemma rekeynegotiating_down:
  assumes "wpa_ptk_group_state sm = GROUP_IDLE \<and> (GUpdateStationKeys sm \<or> ws_wpa sm = WPA_VERSION_WPA \<and> PInitAKeys sm)
    \<or> wpa_ptk_group_state sm = GROUP_REKEYNEGOTIATING \<and> TimeoutEvt sm \<and> GTimeoutCtr sm \<le> 4"
  shows "steps_down sm (sm_WPA_PTK_GROUP_REKEYNEGOTIATING_Enter env sm)"
  by (rule steps_down_quiet[OF _ rekeynegotiating_quiet], cases "GTimeoutCtr sm \<le> 3"; cases "ws_wpa sm = WPA_VERSION_WPA")
    (use assms in \<open>auto simp: group_entry_def steps_down_def work_simps Let_def\<close>)

lemma group_step_down:
  assumes "\<not> Init sm"
  shows "sm_WPA_PTK_GROUP_Step env sm = sm \<or> steps_down sm (sm_WPA_PTK_GROUP_Step env sm)"
proof (cases "PtkGroupInit sm")
  case True
  then show ?thesis
    using assms by (simp add: sm_WPA_PTK_GROUP_Step_def sm_WPA_PTK_GROUP_IDLE_Enter_def group_entry_def Let_def steps_down_def work_simps of_bool_def)
next
  case False
  have idle: "wpa_ptk_group_state sm = GROUP_KEYERROR \<or> wpa_ptk_group_state sm = GROUP_REKEYESTABLISHED
      \<Longrightarrow> steps_down sm (sm_WPA_PTK_GROUP_IDLE_Enter sm)"
    using assms by (auto simp: sm_WPA_PTK_GROUP_IDLE_Enter_def group_entry_def Let_def steps_down_def work_simps)
  have est: "wpa_ptk_group_state sm = GROUP_REKEYNEGOTIATING \<Longrightarrow> steps_down sm (sm_WPA_PTK_GROUP_REKEYESTABLISHED_Enter sm)"
    by (cases "GUpdateStationKeys sm"; cases "GTimeoutCtr sm \<le> 4")
      (simp_all add: sm_WPA_PTK_GROUP_REKEYESTABLISHED_Enter_def entry_simps steps_down_def work_simps)
  have err: "wpa_ptk_group_state sm = GROUP_REKEYNEGOTIATING \<Longrightarrow> GTimeoutCtr sm > 4 \<Longrightarrow> steps_down sm (sm_WPA_PTK_GROUP_KEYERROR_Enter sm)"
    by (cases "GUpdateStationKeys sm"; cases "Disconnect sm")
      (simp_all add: sm_WPA_PTK_GROUP_KEYERROR_Enter_def entry_simps steps_down_def work_simps)
  show ?thesis
    using False assms unfolding sm_WPA_PTK_GROUP_Step_def
    by (cases "wpa_ptk_group_state sm") (simp_all add: idle est err rekeynegotiating_down)
qed

lemma group_step_init:
  assumes "Init sm"
  shows "\<not> changed (sm_WPA_PTK_GROUP_Step env sm)" "group_rank (sm_WPA_PTK_GROUP_Step env sm) = group_rank sm" "Init (sm_WPA_PTK_GROUP_Step env sm)"
    "gchanged (group (sm_WPA_PTK_GROUP_Step env sm)) = gchanged (group sm)"
  using assms by (simp_all add: sm_WPA_PTK_GROUP_Step_def sm_WPA_PTK_GROUP_IDLE_Enter_def group_entry_def Let_def group_rank_def)

lemma gtk_update_quiet: "quiet sm (snd (wpa_gtk_update env sm))"
  by (rule quiet_snds) (rule quiet_refl)

lemma group_rank_gctl: "gctl g = gctl (group sm) \<Longrightarrow> group_rank (sm\<lparr>group := g\<rparr>) = group_rank sm"
  by (simp add: group_rank_def gctl_def)

lemma setkeysdone_rank:
  assumes "\<not> GInit (group sm)" "wpa_group_state (group sm) = GTK_INIT \<or> wpa_group_state (group sm) = SETKEYS"
  shows "group_rank (wpa_group_setkeysdone env sm) < group_rank sm"
proof -
  define sm1 where "sm1 = upd_group (\<lambda>g. g\<lparr>gchanged := True, wpa_group_state := SETKEYSDONE\<rparr>) sm"
  obtain ok sm2 where c: "wpa_group_config_group_keys env sm1 = (ok, sm2)" by fastforce
  then have "quiet sm1 sm2" using quiet_config quiet_refl by blast
  then have "group_rank sm2 = group_rank sm1" "GInit (group sm2) = GInit (group sm1)"
    using quiet_work by (auto elim!: quietE simp: gctl_def)
  moreover have "group_rank sm1 < group_rank sm"
    using assms by (auto simp: sm1_def upd_group_def group_rank_def)
  ultimately show ?thesis
    using assms unfolding wpa_group_setkeysdone_def Let_def sm1_def[symmetric] c
    by (auto simp: wpa_group_fatal_failure_def upd_group_def group_rank_def)
qed

lemma setkeys_rank:
  assumes "\<And>s. group_rank (step s) \<le> group_rank s" "\<not> GInit (group sm)" "GTKReKey (group sm)"
    "wpa_group_state (group sm) = SETKEYSDONE \<or> wpa_group_state (group sm) = SETKEYS"
  shows "group_rank (wpa_group_setkeys env step sm) < group_rank sm"
proof -
  define sm1 where "sm1 = upd_group (\<lambda>g. swap_keys (g\<lparr>gchanged := True, wpa_group_state := SETKEYS, GTKReKey := False\<rparr>)) sm"
  define sm2 where "sm2 = snd (wpa_gtk_update env sm1)"
  have "group_rank sm2 = group_rank sm1" unfolding sm2_def using gtk_update_quiet quiet_work by blast
  moreover have "group_rank sm1 < group_rank sm"
    using assms(2-) by (auto simp: sm1_def upd_group_def swap_keys_def group_rank_def)
  moreover have "group_rank (wpa_group_setkeys env step sm) \<le> group_rank sm2"
    unfolding wpa_group_setkeys_def Let_def sm1_def[symmetric] sm2_def[symmetric] wpa_group_update_sta_def
    by (simp add: order_trans[OF assms(1)])
  ultimately show ?thesis by simp
qed

text \<open>A step of the group's machine either moves the group on, or it changes nothing that the loop looks at.\<close>

lemma group_sm_step_rank:
  assumes "\<And>s. group_rank (step s) \<le> group_rank s"
  shows "group_rank (wpa_group_sm_step env step sm) < group_rank sm
     \<or> wpa_group_sm_step env step sm = sm
     \<or> GInit (group sm) \<and> (\<exists>g. quiet (sm\<lparr>group := g\<rparr>) (wpa_group_sm_step env step sm) \<and> GInit g \<and> \<not> gchanged g)"
proof (cases "GInit (group sm)")
  case True
  define g where "g = (group sm)\<lparr>gchanged := False, wpa_group_state := GTK_INIT, GTK := [replicate 32 0, replicate 32 0],
      GN := 1, GM := 2, GN_igtk := 4, GM_igtk := 5\<rparr>"
  have "wpa_group_sm_step env step sm = snd (wpa_gtk_update env (sm\<lparr>group := g\<rparr>))"
    using True by (simp add: wpa_group_sm_step_def wpa_group_gtk_init_def upd_group_def g_def)
  then have "quiet (sm\<lparr>group := g\<rparr>) (wpa_group_sm_step env step sm)" using gtk_update_quiet by simp
  moreover have "GInit g" "\<not> gchanged g" using True by (simp_all add: g_def)
  ultimately show ?thesis using True by blast
next
  case False
  with setkeysdone_rank setkeys_rank[OF assms] show ?thesis
    unfolding wpa_group_sm_step_def Let_def by auto
qed

lemma step_once_progress:
  "group_rank (step_once env sm) < group_rank sm
    \<or> group_rank (step_once env sm) = group_rank sm \<and> \<not> gchanged (group (step_once env sm)) \<and> (changed (step_once env sm) \<longrightarrow> work (step_once env sm) < work sm)"
proof -
  define sm0 where "sm0 = upd_group (\<lambda>g. g\<lparr>gchanged := False\<rparr>) sm\<lparr>changed := False\<rparr>"
  define sm1 where "sm1 = sm_WPA_PTK_Step env sm0"
  define sm2 where "sm2 = sm_WPA_PTK_GROUP_Step env sm1"
  have s0: "group_rank sm0 = group_rank sm" "work sm0 = work sm" "\<not> changed sm0" "\<not> gchanged (group sm0)"
    by (simp_all add: sm0_def upd_group_def group_rank_def)
  have s2: "group_rank sm2 = group_rank sm0" "\<not> gchanged (group sm2)" "changed sm2 \<Longrightarrow> work sm2 < work sm0"
    using s0 ptk_step_init[of sm0 env] group_step_init[of sm1 env] ptk_step_down[of sm0 env] group_step_down[of sm1 env]
    unfolding sm1_def[symmetric] sm2_def[symmetric] steps_down_def
    by (cases "Init sm0"; auto)+
  have once: "step_once env sm = wpa_group_sm_step env (\<lambda>s. s) sm2"
    by (simp add: step_once_def sm0_def sm1_def sm2_def)
  consider "group_rank (step_once env sm) < group_rank sm2" | "step_once env sm = sm2"
    | g where "GInit (group sm2)" "quiet (sm2\<lparr>group := g\<rparr>) (step_once env sm)" "GInit g" "\<not> gchanged g"
    using group_sm_step_rank[of "\<lambda>s. s" env sm2] unfolding once by auto
  then show ?thesis
  proof cases
    case 3
    then have "group_rank (sm2\<lparr>group := g\<rparr>) = group_rank sm2" by (simp add: group_rank_def)
    with quiet_work[OF 3(2)] 3(4) s0 s2 show ?thesis by simp
  qed (use s0 s2 in auto)
qed

function wpa_sm_step :: "wpa_env \<Rightarrow> wpa_sm \<Rightarrow> wpa_sm" where
  "wpa_sm_step env sm =
    (let sm' = step_once env sm
     in if changed sm' \<or> gchanged (group sm') then wpa_sm_step env sm' else sm')"
  by pat_completeness auto
termination
  by (relation "measures [\<lambda>(env, sm). group_rank sm, \<lambda>(env, sm). work sm]") (use step_once_progress in fastforce)+

declare wpa_sm_step.simps [simp del]

text \<open>An invariant of the rounds is one of the loop.\<close>

lemma wpa_sm_step_invariant:
  assumes "P sm" "\<And>sm. P sm \<Longrightarrow> P (step_once env sm)"
  shows "P (wpa_sm_step env sm)"
  using assms
proof (induction env sm rule: wpa_sm_step.induct)
  case (1 env sm)
  then show ?case by (subst wpa_sm_step.simps) (auto simp: Let_def)
qed

text \<open>The group does not go back.\<close>

lemma step_once_rank: "group_rank (step_once env sm) \<le> group_rank sm"
  using step_once_progress[of env sm] by auto

lemma wpa_sm_step_rank: "group_rank (wpa_sm_step env sm) \<le> group_rank sm"
  by (rule wpa_sm_step_invariant) (auto intro: order_trans step_once_rank)

text \<open>When the loop has ended, the last round has changed nothing, and one more round would not either.\<close>

lemma setkeysdone_changed:
  "gchanged (group (wpa_group_setkeysdone env sm))" "changed (wpa_group_setkeysdone env sm) = changed sm"
  "Init (wpa_group_setkeysdone env sm) = Init sm" "GInit (group (wpa_group_setkeysdone env sm)) = GInit (group sm)"
proof -
  define sm1 where "sm1 = upd_group (\<lambda>g. g\<lparr>gchanged := True, wpa_group_state := SETKEYSDONE\<rparr>) sm"
  obtain ok sm2 where c: "wpa_group_config_group_keys env sm1 = (ok, sm2)" by fastforce
  then have "quiet sm1 sm2" using quiet_config quiet_refl by blast
  note w = quiet_work[OF this]
  show "gchanged (group (wpa_group_setkeysdone env sm))" "changed (wpa_group_setkeysdone env sm) = changed sm"
    "Init (wpa_group_setkeysdone env sm) = Init sm" "GInit (group (wpa_group_setkeysdone env sm)) = GInit (group sm)"
    unfolding wpa_group_setkeysdone_def Let_def sm1_def[symmetric] c
    using w by (simp_all add: wpa_group_fatal_failure_def upd_group_def sm1_def)
qed

lemma setkeys_changed:
  defines "sm' \<equiv> \<lambda>env sm. wpa_group_setkeys env (\<lambda>s. s) sm"
  shows "gchanged (group (sm' env sm))" "changed (sm' env sm) = changed sm" "Init (sm' env sm) = Init sm" "GInit (group (sm' env sm)) = GInit (group sm)"
proof -
  define sm1 where "sm1 = upd_group (\<lambda>g. swap_keys (g\<lparr>gchanged := True, wpa_group_state := SETKEYS, GTKReKey := False\<rparr>)) sm"
  have q: "quiet sm1 (snd (wpa_gtk_update env sm1))" by (rule gtk_update_quiet)
  note w = quiet_work[OF q]
  show "gchanged (group (sm' env sm))" "changed (sm' env sm) = changed sm" "Init (sm' env sm) = Init sm" "GInit (group (sm' env sm)) = GInit (group sm)"
    unfolding sm'_def wpa_group_setkeys_def Let_def sm1_def[symmetric] wpa_group_update_sta_def
    using w by (simp_all add: upd_group_def sm1_def swap_keys_def)
qed

lemma gtk_init_changed:
  "changed (wpa_group_gtk_init env sm) = changed sm" "Init (wpa_group_gtk_init env sm) = Init sm" "GInit (group (wpa_group_gtk_init env sm)) = GInit (group sm)"
  unfolding wpa_group_gtk_init_def using quiet_work[OF gtk_update_quiet] by (simp_all add: upd_group_def)

lemma group_sm_step_changed:
  defines "sm' \<equiv> \<lambda>env sm. wpa_group_sm_step env (\<lambda>s. s) sm"
  shows "changed (sm' env sm) = changed sm" "Init (sm' env sm) = Init sm" "GInit (group (sm' env sm)) = GInit (group sm)"
    "\<not> GInit (group sm) \<Longrightarrow> sm' env sm = sm \<or> gchanged (group (sm' env sm))"
  unfolding sm'_def wpa_group_sm_step_def Let_def
  by (simp_all add: setkeysdone_changed setkeys_changed gtk_init_changed)

definition settled :: "wpa_env \<Rightarrow> wpa_sm \<Rightarrow> bool" where
  "settled env sm = (step_once env sm = sm \<and> \<not> changed sm \<and> \<not> gchanged (group sm))"

definition running :: "wpa_sm \<Rightarrow> bool" where
  "running sm = (\<not> Init sm \<and> \<not> GInit (group sm))"

lemma step_once_settles:
  assumes "running sm"
  shows "running (step_once env sm)"
    "\<not> changed (step_once env sm) \<Longrightarrow> \<not> gchanged (group (step_once env sm)) \<Longrightarrow> settled env (step_once env sm)"
proof -
  define sm0 where "sm0 = upd_group (\<lambda>g. g\<lparr>gchanged := False\<rparr>) sm\<lparr>changed := False\<rparr>"
  define sm1 where "sm1 = sm_WPA_PTK_Step env sm0"
  define sm2 where "sm2 = sm_WPA_PTK_GROUP_Step env sm1"
  have r0: "\<not> Init sm0" "\<not> GInit (group sm0)" "\<not> changed sm0" "\<not> gchanged (group sm0)"
    using assms by (simp_all add: sm0_def upd_group_def running_def)
  have s1: "sm1 = sm0 \<or> steps_down sm0 sm1" unfolding sm1_def using ptk_step_down r0 by blast
  with r0 have "\<not> Init sm1" unfolding steps_down_def by auto
  then have s2: "sm2 = sm1 \<or> steps_down sm1 sm2" unfolding sm2_def by (rule group_step_down)
  with s1 r0 have r2: "\<not> Init sm2" "\<not> GInit (group sm2)" unfolding steps_down_def by auto
  have once: "step_once env sm = wpa_group_sm_step env (\<lambda>s. s) sm2"
    by (simp add: step_once_def sm0_def sm1_def sm2_def)
  show "running (step_once env sm)"
    unfolding once running_def using r2 by (simp add: group_sm_step_changed)
  assume "\<not> changed (step_once env sm)" "\<not> gchanged (group (step_once env sm))"
  then have "step_once env sm = sm2" "\<not> changed sm2"
    unfolding once using r2 group_sm_step_changed by blast+
  with s1 s2 have "step_once env sm = sm0" "sm1 = sm0" "sm2 = sm0" unfolding steps_down_def by auto
  moreover have "upd_group (\<lambda>g. g\<lparr>gchanged := False\<rparr>) sm0\<lparr>changed := False\<rparr> = sm0" by (simp add: sm0_def upd_group_def)
  then have "step_once env sm0 = wpa_group_sm_step env (\<lambda>s. s) sm2"
    unfolding step_once_def sm1_def sm2_def by simp
  ultimately show "settled env (step_once env sm)"
    unfolding settled_def using r0 once by simp
qed

lemma wpa_sm_step_running: "running sm \<Longrightarrow> running (wpa_sm_step env sm)"
  by (rule wpa_sm_step_invariant) (auto intro: step_once_settles)

lemma wpa_sm_step_settled: "running sm \<Longrightarrow> settled env (wpa_sm_step env sm)"
proof (induction env sm rule: wpa_sm_step.induct)
  case (1 env sm)
  then show ?case using step_once_settles[OF 1(2), of env] by (subst wpa_sm_step.simps) (auto simp: Let_def)
qed

lemma work_less: "work sm < 400"
proof -
  have "ptk_rank (wpa_ptk_state sm) \<le> 63" by (cases "wpa_ptk_state sm") simp_all
  moreover have "ptk_group_rank sm \<le> 30" unfolding ptk_group_rank_def by (cases "wpa_ptk_group_state sm") (auto simp: of_bool_def)
  moreover have "requests sm \<le> 282" unfolding requests_def by (auto simp: of_bool_def)
  ultimately show ?thesis unfolding work_def by linarith
qed

lemma group_rank_le: "group_rank sm \<le> 5"
  unfolding group_rank_def by (cases "wpa_group_state (group sm)") auto

text \<open>The rounds of the loop: there are at most as many as there is work, and the last one changed nothing.\<close>

definition rounds_left :: "wpa_sm \<Rightarrow> nat" where
  "rounds_left sm = 400 * group_rank sm + work sm"

lemma rounds_left_le: "rounds_left sm \<le> 2399"
  using work_less[of sm] group_rank_le[of sm] unfolding rounds_left_def by linarith

lemma rounds_left_step:
  "changed (step_once env sm) \<or> gchanged (group (step_once env sm)) \<Longrightarrow> rounds_left (step_once env sm) < rounds_left sm"
  using step_once_progress[of env sm] work_less[of "step_once env sm"] unfolding rounds_left_def by auto

lemma wpa_sm_step_rounds:
  "\<exists>n \<le> rounds_left sm. wpa_sm_step env sm = step_once env ((step_once env ^^ n) sm)
     \<and> \<not> changed (wpa_sm_step env sm) \<and> \<not> gchanged (group (wpa_sm_step env sm))"
proof (induction env sm rule: wpa_sm_step.induct)
  case (1 env sm)
  show ?case
  proof (cases "changed (step_once env sm) \<or> gchanged (group (step_once env sm))")
    case True
    then have eq: "wpa_sm_step env sm = wpa_sm_step env (step_once env sm)" by (subst wpa_sm_step.simps) (simp add: Let_def)
    from 1[OF refl True] obtain n where n: "n \<le> rounds_left (step_once env sm)"
        "wpa_sm_step env sm = step_once env ((step_once env ^^ Suc n) sm)" "\<not> changed (wpa_sm_step env sm)" "\<not> gchanged (group (wpa_sm_step env sm))"
      unfolding eq by (auto simp: funpow_swap1)
    moreover have "Suc n \<le> rounds_left sm" using rounds_left_step[OF True] n(1) by simp
    ultimately show ?thesis by blast
  next
    case False
    then have "wpa_sm_step env sm = step_once env sm" by (subst wpa_sm_step.simps) (simp add: Let_def)
    with False show ?thesis by (intro exI[of _ 0]) simp
  qed
qed

text \<open>The rounds while a station is started: its machines are in their initial states, and the group's machine has come to rest.\<close>

lemma quiet_group_state: "quiet a b \<Longrightarrow> wpa_ptk_group_state b = wpa_ptk_group_state a \<and> wpa_ptk_state b = wpa_ptk_state a"
  by (erule quietE) simp

lemma setkeysdone_states:
  "wpa_ptk_group_state (wpa_group_setkeysdone env sm) = wpa_ptk_group_state sm \<and> wpa_ptk_state (wpa_group_setkeysdone env sm) = wpa_ptk_state sm"
proof -
  define sm1 where "sm1 = upd_group (\<lambda>g. g\<lparr>gchanged := True, wpa_group_state := SETKEYSDONE\<rparr>) sm"
  obtain ok sm2 where c: "wpa_group_config_group_keys env sm1 = (ok, sm2)" by fastforce
  then have "quiet sm1 sm2" using quiet_config quiet_refl by blast
  from quiet_group_state[OF this] show ?thesis
    unfolding wpa_group_setkeysdone_def Let_def sm1_def[symmetric] c by (simp add: wpa_group_fatal_failure_def upd_group_def sm1_def)
qed

lemma group_sm_step_states:
  "wpa_ptk_group_state (wpa_group_sm_step env (\<lambda>s. s) sm) = wpa_ptk_group_state sm \<and> wpa_ptk_state (wpa_group_sm_step env (\<lambda>s. s) sm) = wpa_ptk_state sm"
  unfolding wpa_group_sm_step_def Let_def wpa_group_gtk_init_def wpa_group_setkeys_def wpa_group_update_sta_def
  using quiet_group_state[OF gtk_update_quiet] by (simp add: setkeysdone_states upd_group_def)

definition at_start :: "wpa_env \<Rightarrow> wpa_sm \<Rightarrow> bool" where
  "at_start env sm = (Init sm \<and> wpa_ptk_state sm = PTK_INITIALIZE \<and> wpa_ptk_group_state sm = GROUP_IDLE
     \<and> (GInit (group sm) \<or> wpa_group_sm_step env (\<lambda>s. s) sm = sm))"

lemma initialize_state: "wpa_ptk_state (sm_WPA_PTK_INITIALIZE_Enter sm) = PTK_INITIALIZE"
  unfolding sm_WPA_PTK_INITIALIZE_Enter_def Let_def
  by (cases "Init sm"; cases "GUpdateStationKeys sm"; cases "ws_wpa sm = WPA_VERSION_WPA"; cases "wpa_key_mgmt_wpa_psk (ws_wpa_key_mgmt sm)";
      simp add: entry_simps)

lemma step_once_init:
  assumes "Init sm"
  shows "Init (step_once env sm)"
    "\<not> gchanged (group (step_once env sm)) \<Longrightarrow> at_start env (step_once env sm)"
proof -
  define sm0 where "sm0 = upd_group (\<lambda>g. g\<lparr>gchanged := False\<rparr>) sm\<lparr>changed := False\<rparr>"
  define sm1 where "sm1 = sm_WPA_PTK_Step env sm0"
  define sm2 where "sm2 = sm_WPA_PTK_GROUP_Step env sm1"
  have i0: "Init sm0" using assms by (simp add: sm0_def upd_group_def)
  then have i1: "Init sm1" "wpa_ptk_state sm1 = PTK_INITIALIZE"
    using ptk_step_init[of sm0 env] unfolding sm1_def by (simp_all add: sm_WPA_PTK_Step_def initialize_state)
  then have i2: "Init sm2" "wpa_ptk_state sm2 = PTK_INITIALIZE" "wpa_ptk_group_state sm2 = GROUP_IDLE"
    unfolding sm2_def by (simp_all add: sm_WPA_PTK_GROUP_Step_def sm_WPA_PTK_GROUP_IDLE_Enter_def group_entry_def Let_def)
  have once: "step_once env sm = wpa_group_sm_step env (\<lambda>s. s) sm2"
    by (simp add: step_once_def sm0_def sm1_def sm2_def)
  show "Init (step_once env sm)" unfolding once using i2 group_sm_step_changed(2) by blast
  moreover assume "\<not> gchanged (group (step_once env sm))"
  then have "GInit (group (step_once env sm)) \<or> step_once env sm = sm2"
    unfolding once using group_sm_step_changed(3,4)[where env = env and sm = sm2] by blast
  ultimately show "at_start env (step_once env sm)"
    unfolding at_start_def once using i2 group_sm_step_states[of env sm2] by (metis once)
qed

lemma wpa_sm_step_at_start:
  assumes "Init sm"
  shows "at_start env (wpa_sm_step env sm)"
proof -
  obtain n where n: "wpa_sm_step env sm = step_once env ((step_once env ^^ n) sm)" "\<not> gchanged (group (wpa_sm_step env sm))"
    using wpa_sm_step_rounds[of sm env] by blast
  have "Init ((step_once env ^^ n) sm)" using assms by (induction n) (simp_all add: step_once_init(1))
  from step_once_init(2)[OF this, of env] n show ?thesis by simp
qed

end
