(* ===== verification/WpaReceive.thy ===== *)
theory WpaReceive
  imports WpaSmStep
begin

text \<open>
  What drives the authenticator's machines of a station (\<open>src/ap/wpa_auth.c\<close>): received EAPOL-Key frames, timeouts, requests for new
  keys, and the events of association. Each handler ends with the step loop.
\<close>

subsection \<open>Start, stop and events\<close>

datatype wpa_event = WPA_AUTH | WPA_ASSOC | WPA_DISASSOC | WPA_DEAUTH | WPA_REAUTH | WPA_REAUTH_EAPOL | WPA_ASSOC_FT

abbreviation no_replay :: "(bytes \<times> bool) list" where
  "no_replay \<equiv> replicate RSNA_MAX_EAPOL_RETRIES (replicate 8 0, False)"

text \<open>A new station: all fields are zero but the address and the group. There is none for a group that has failed.\<close>

definition wpa_auth_sta_init :: "bool \<Rightarrow> bytes \<Rightarrow> wpa_group \<Rightarrow> wpa_sm option" where
  "wpa_auth_sta_init granted addr g =
    (if wpa_group_state g = FATAL_FAILURE \<or> \<not> granted then None
     else Some \<lparr>ws_addr = addr, ws_wpa_key_mgmt = 0, ws_pairwise = 0, ws_wpa = 0, ws_mgmt_frame_prot = False, ws_pmksa = None, ws_wpa_ie = None,
       ws_wpa_ie_len = 0, group = g, wpa_ptk_state = PTK_INITIALIZE, wpa_ptk_group_state = GROUP_IDLE, Init = False, DeauthenticationRequest = False,
       AuthenticationRequest = False, ReAuthenticationRequest = False, Disconnect = False, TimeoutCtr = 0, GTimeoutCtr = 0, TimeoutEvt = False,
       EAPOLKeyReceived = False, EAPOLKeyPairwise = False, EAPOLKeyRequest = False, MICVerified = False, GUpdateStationKeys = False,
       ANonce = replicate 32 0, SNonce = replicate 32 0, alt_SNonce = replicate 32 0, alt_replay_counter = replicate 8 0, PMK = replicate 32 0,
       PTK = zero_ptk, PTK_valid = False, pairwise_set = False, keycount = 0, Pair = False, key_replay = no_replay, prev_key_replay = no_replay,
       PInitAKeys = False, PTKRequest = False, has_GTK = False, PtkGroupInit = False, last_rx_eapol_key = [], changed = False, started = False,
       rx_eapol_key_secure = False, update_snonce = False, alt_snonce_valid = False, is_wnmsleep = False, req_replay_counter = replicate 8 0,
       req_replay_counter_used = False, pending_1_of_4_timeout = False, dot11RSNAStatsTKIPRemoteMICFailures = 0,
       dot11RSNA4WayHandshakeFailures = 0, ws_outs = []\<rparr>)"

text \<open>The start of the machines; the flag \<open>Init\<close> is up for one run of the loop only.\<close>

definition start_machines :: "wpa_env \<Rightarrow> wpa_sm \<Rightarrow> wpa_sm" where
  "start_machines env sm = wpa_sm_step env (sm\<lparr>started := True, Init := True\<rparr>)\<lparr>Init := False, AuthenticationRequest := True\<rparr>"

definition wpa_auth_sta_associated :: "wpa_env \<Rightarrow> wpa_sm \<Rightarrow> wpa_sm" where
  "wpa_auth_sta_associated env sm =
    (if ac_wpa (we_conf env) = 0 then sm
     else if started sm then wpa_sm_step env (sm\<lparr>key_replay := no_replay, ReAuthenticationRequest := True\<rparr>)
     else wpa_sm_step env (start_machines env sm))"

definition wpa_auth_sta_no_wpa :: "wpa_sm \<Rightarrow> wpa_sm" where
  "wpa_auth_sta_no_wpa sm = sm\<lparr>ws_wpa_key_mgmt := 0\<rparr>"

definition cancel_group_update :: "wpa_sm \<Rightarrow> wpa_sm" where
  "cancel_group_update sm = (if GUpdateStationKeys sm then group_done sm\<lparr>PtkGroupInit := True\<rparr> else sm)"

definition event_request :: "wpa_env \<Rightarrow> wpa_event \<Rightarrow> wpa_sm \<Rightarrow> wpa_sm" where
  "event_request env ev sm =
    (case ev of
       WPA_DEAUTH \<Rightarrow> sm\<lparr>DeauthenticationRequest := True\<rparr>
     | WPA_DISASSOC \<Rightarrow> sm\<lparr>DeauthenticationRequest := True\<rparr>
     | WPA_REAUTH \<Rightarrow> if started sm then cancel_group_update sm\<lparr>ReAuthenticationRequest := True\<rparr> else start_machines env sm
     | WPA_REAUTH_EAPOL \<Rightarrow> if started sm then cancel_group_update sm\<lparr>ReAuthenticationRequest := True\<rparr> else start_machines env sm
     | _ \<Rightarrow> sm)"

definition wpa_auth_sm_event :: "wpa_env \<Rightarrow> wpa_event \<Rightarrow> wpa_sm \<Rightarrow> wpa_sm" where
  "wpa_auth_sm_event env ev sm =
    (let sm = event_request env ev sm;
         remove_ptk = \<not> (ws_mgmt_frame_prot sm \<and> ev = WPA_AUTH);
         sm = (if remove_ptk then sm\<lparr>PTK_valid := False, PTK := zero_ptk\<rparr> else sm);
         sm = (if remove_ptk \<and> ev \<noteq> WPA_REAUTH_EAPOL then wpa_remove_ptk sm else sm)
     in wpa_sm_step env sm)"

text \<open>The station leaves: its timers are cancelled and the group no longer waits for it. What is left of the state are the group and the log.\<close>

definition wpa_auth_sta_deinit :: "wpa_env \<Rightarrow> wpa_sm \<Rightarrow> wpa_group \<times> wpa_out list" where
  "wpa_auth_sta_deinit env sm =
    (let sm = (if ac_wpa_strict_rekey (we_conf env) \<and> has_GTK sm then emit_out (Register RekeyGtk 500) (emit_out (Cancel RekeyGtk) sm) else sm);
         sm = emit_out (Cancel RekeyPtk) (emit_out (Cancel CallStep) (emit_out (Cancel SendEapolTimeout) sm\<lparr>pending_1_of_4_timeout := False\<rparr>));
         sm = group_done sm
     in (group sm, ws_outs sm))"

text \<open>\<open>wpa_sta_disconnect\<close> outside of the loop.\<close>

definition wpa_sta_disconnect :: "wpa_env \<Rightarrow> wpa_sm \<Rightarrow> wpa_sm" where
  "wpa_sta_disconnect env sm = wpa_auth_sm_event env WPA_DEAUTH (emit_out Disconnected sm)"

definition wpa_auth_sm_notify :: "wpa_sm \<Rightarrow> wpa_sm" where
  "wpa_auth_sm_notify = emit_out (Register CallStep 0)"

definition wpa_sm_call_step :: "wpa_env \<Rightarrow> wpa_sm \<Rightarrow> wpa_sm" where
  "wpa_sm_call_step env sm = wpa_sm_step env sm"

subsection \<open>Timeouts and new keys\<close>

definition wpa_send_eapol_timeout :: "wpa_env \<Rightarrow> wpa_sm \<Rightarrow> wpa_sm" where
  "wpa_send_eapol_timeout env sm = wpa_sm_step env (sm\<lparr>pending_1_of_4_timeout := False, TimeoutEvt := True\<rparr>)"

definition wpa_auth_eapol_key_tx_status :: "bool \<Rightarrow> wpa_sm \<Rightarrow> wpa_sm" where
  "wpa_auth_eapol_key_tx_status ack sm =
    (if pending_1_of_4_timeout sm \<and> ack then emit_out (Register SendEapolTimeout 1000) (emit_out (Cancel SendEapolTimeout) sm) else sm)"

definition wpa_request_new_ptk :: "wpa_sm \<Rightarrow> wpa_sm" where
  "wpa_request_new_ptk sm = sm\<lparr>PTKRequest := True, PTK_valid := False\<rparr>"

definition wpa_rekey_ptk :: "wpa_env \<Rightarrow> wpa_sm \<Rightarrow> wpa_sm" where
  "wpa_rekey_ptk env sm = wpa_sm_step env (wpa_request_new_ptk sm)"

definition wpa_rekey_gmk :: "wpa_env \<Rightarrow> wpa_sm \<Rightarrow> wpa_sm" where
  "wpa_rekey_gmk env sm =
    (let sm = (case get_random env 32 sm of (None, sm) \<Rightarrow> sm | (Some gmk, sm) \<Rightarrow> upd_group (\<lambda>g. g\<lparr>GMK := gmk\<rparr>) sm)
     in if ac_wpa_gmk_rekey (we_conf env) \<noteq> 0 then emit_out (Register RekeyGmk (1000 * unat (ac_wpa_gmk_rekey (we_conf env)))) sm else sm)"

text \<open>The machine of the group is run without the station's loop, so that marking the station for the update runs this loop.\<close>

definition rekey_once :: "wpa_env \<Rightarrow> wpa_sm \<Rightarrow> wpa_sm" where
  "rekey_once env sm = wpa_group_sm_step env (wpa_sm_step env) (upd_group (\<lambda>g. g\<lparr>gchanged := False\<rparr>) sm)"

lemma rekey_once_rank: "gchanged (group (rekey_once env sm)) \<Longrightarrow> group_rank (rekey_once env sm) < group_rank sm"
proof -
  define sm0 where "sm0 = upd_group (\<lambda>g. g\<lparr>gchanged := False\<rparr>) sm"
  have s0: "group_rank sm0 = group_rank sm" "\<not> gchanged (group sm0)" by (simp_all add: sm0_def upd_group_def group_rank_def)
  assume "gchanged (group (rekey_once env sm))"
  with s0 group_sm_step_rank[of "wpa_sm_step env" env sm0, OF wpa_sm_step_rank] show ?thesis
    unfolding rekey_once_def sm0_def[symmetric] using quiet_work by fastforce
qed

function rekey_loop :: "wpa_env \<Rightarrow> wpa_sm \<Rightarrow> wpa_sm" where
  "rekey_loop env sm =
    (let sm' = rekey_once env sm in if gchanged (group sm') then rekey_loop env sm' else sm')"
  by pat_completeness auto
termination by (relation "measure (\<lambda>(env, sm). group_rank sm)") (use rekey_once_rank in auto)

declare rekey_loop.simps [simp del]

definition wpa_rekey_gtk :: "wpa_env \<Rightarrow> wpa_sm \<Rightarrow> wpa_sm" where
  "wpa_rekey_gtk env sm =
    (let sm = rekey_loop env (upd_group (\<lambda>g. g\<lparr>GTKReKey := True\<rparr>) sm)
     in if ac_wpa_group_rekey (we_conf env) \<noteq> 0 then emit_out (Register RekeyGtk (1000 * unat (ac_wpa_group_rekey (we_conf env)))) sm else sm)"

definition gtk_rekey_round :: "wpa_env \<Rightarrow> wpa_sm \<Rightarrow> wpa_sm" where
  "gtk_rekey_round env sm = snd (wpa_group_config_group_keys env (snd (wpa_gtk_update env (upd_group swap_keys sm))))"

definition wpa_gtk_rekey :: "wpa_env \<Rightarrow> wpa_sm \<Rightarrow> wpa_sm" where
  "wpa_gtk_rekey env sm = gtk_rekey_round env (gtk_rekey_round env sm)"

subsection \<open>Received frames\<close>

fun wpa_replay_counter_valid :: "(bytes \<times> bool) list \<Rightarrow> bytes \<Rightarrow> bool" where
  "wpa_replay_counter_valid [] rc = False"
| "wpa_replay_counter_valid ((c, v) # ctr) rc = (v \<and> (rc = c \<or> wpa_replay_counter_valid ctr rc))"

definition wpa_replay_counter_mark_invalid :: "(bytes \<times> bool) list \<Rightarrow> bytes option \<Rightarrow> (bytes \<times> bool) list" where
  "wpa_replay_counter_mark_invalid ctr rc =
    map (\<lambda>(c, v). (c, v \<and> \<not> (rc = None \<or> rc = Some c))) ctr"

text \<open>The result is that the station's entry was removed.\<close>

definition wpa_receive_error_report :: "wpa_env \<Rightarrow> bool \<Rightarrow> wpa_sm \<Rightarrow> bool \<times> wpa_sm" where
  "wpa_receive_error_report env grp sm =
    (if grp \<and> ac_wpa_group (we_conf env) \<noteq> WPA_CIPHER_TKIP \<or> \<not> grp \<and> ws_pairwise sm \<noteq> WPA_CIPHER_TKIP
     then (False, wpa_request_new_ptk sm)
     else if mic_failure_result env (ws_outs sm) > 0 then (True, emit_out MicFailure sm)
     else (False, wpa_request_new_ptk (emit_out MicFailure sm
       \<lparr>dot11RSNAStatsTKIPRemoteMICFailures := dot11RSNAStatsTKIPRemoteMICFailures sm + 1\<rparr>)))"

definition wpa_try_alt_snonce :: "wpa_env \<Rightarrow> bytes \<Rightarrow> wpa_sm \<Rightarrow> wpa_sm option" where
  "wpa_try_alt_snonce env data sm =
    (case matching_pmk env sm (alt_SNonce sm) data of
       None \<Rightarrow> None
     | Some pmk \<Rightarrow> Some (sm\<lparr>alt_snonce_valid := False, SNonce := alt_SNonce sm,
         PTK := wpa_derive_ptk env sm (alt_SNonce sm) (take PMK_LEN pmk), PTK_valid := True\<rparr>))"

datatype eapol_msg = PAIRWISE_2 | PAIRWISE_4 | GROUP_2 | REQUEST | SMK_M1 | SMK_M3 | SMK_ERROR

definition msg_of :: "u16 \<Rightarrow> u16 \<Rightarrow> eapol_msg" where
  "msg_of info data_len =
    (if info AND (WPA_KEY_INFO_SMK_MESSAGE OR WPA_KEY_INFO_REQUEST) = WPA_KEY_INFO_SMK_MESSAGE OR WPA_KEY_INFO_REQUEST
     then if info AND WPA_KEY_INFO_ERROR \<noteq> 0 then SMK_ERROR else SMK_M1
     else if info AND WPA_KEY_INFO_SMK_MESSAGE \<noteq> 0 then SMK_M3
     else if info AND WPA_KEY_INFO_REQUEST \<noteq> 0 then REQUEST
     else if info AND WPA_KEY_INFO_KEY_TYPE = 0 then GROUP_2
     else if data_len = 0 then PAIRWISE_4
     else PAIRWISE_2)"

text \<open>The length of the frame and its key data, the type of the descriptor, the version of the descriptor.\<close>

definition frame_ok :: "wpa_sm \<Rightarrow> bytes \<Rightarrow> bool" where
  "frame_ok sm data =
    (let akmp = ws_wpa_key_mgmt sm; n = EAPOL_HDR + key_hdr_len akmp
     in length data \<ge> n \<and> \<not> unat (key_data_length akmp data) > length data - n \<and>
        (if ws_wpa sm = WPA_VERSION_WPA2 then key_type data = EAPOL_KEY_TYPE_WPA \<or> key_type data = EAPOL_KEY_TYPE_RSN
         else key_type data = EAPOL_KEY_TYPE_WPA))"

definition version_ok :: "wpa_sm \<Rightarrow> eapol_msg \<Rightarrow> u16 \<Rightarrow> bool" where
  "version_ok sm msg info =
    (msg \<notin> {REQUEST, PAIRWISE_2, PAIRWISE_4, GROUP_2} \<or>
     (let ver = info AND WPA_KEY_INFO_TYPE_MASK; akmp = ws_wpa_key_mgmt sm
      in (ws_pairwise sm = WPA_CIPHER_CCMP \<or> ws_pairwise sm = WPA_CIPHER_GCMP \<longrightarrow>
            \<not> (wpa_use_aes_cmac sm \<and> akmp \<noteq> WPA_KEY_MGMT_OSEN \<and> \<not> wpa_key_mgmt_suite_b akmp \<and> ver \<noteq> WPA_KEY_INFO_TYPE_AES_128_CMAC)
            \<and> \<not> (\<not> wpa_use_aes_cmac sm \<and> ver \<noteq> WPA_KEY_INFO_TYPE_HMAC_SHA1_AES))
         \<and> \<not> (wpa_key_mgmt_suite_b akmp \<and> ver \<noteq> WPA_KEY_INFO_TYPE_AKM_DEFINED)))"

text \<open>
  The replay counter: for requests it has to exceed the last one; for replies it has to be pending. A second message 2/4 with another
  nonce is let through (\<open>update_snonce\<close>), and so is a message 4/4 that answers the message 3/4 for the earlier nonce. \<open>None\<close>: the
  frame is dropped.
\<close>

definition replay_gate :: "eapol_msg \<Rightarrow> bytes \<Rightarrow> wpa_sm \<Rightarrow> wpa_sm option" where
  "replay_gate msg data sm =
    (let rc = replay_counter data
     in if key_info data AND WPA_KEY_INFO_REQUEST \<noteq> 0
        then if req_replay_counter_used sm \<and> \<not> memcmp_less (req_replay_counter sm) rc then None else Some sm
        else if wpa_replay_counter_valid (key_replay sm) rc then Some sm
        else if msg = PAIRWISE_2 \<and> wpa_replay_counter_valid (prev_key_replay sm) rc \<and> wpa_ptk_state sm = PTK_PTKINITNEGOTIATING
             \<and> SNonce sm \<noteq> key_nonce data
        then Some (sm\<lparr>update_snonce := True, alt_SNonce := SNonce sm, alt_snonce_valid := True, alt_replay_counter := fst (hd (key_replay sm))\<rparr>)
        else if msg = PAIRWISE_4 \<and> alt_snonce_valid sm \<and> wpa_ptk_state sm = PTK_PTKINITNEGOTIATING \<and> rc = alt_replay_counter sm
        then Some sm
        else None)"

definition wpa_compare_rsn_ie :: "bytes option \<Rightarrow> bytes option \<Rightarrow> bool" where
  "wpa_compare_rsn_ie ie1 ie2 = (ie1 \<noteq> None \<and> ie1 = ie2)"

text \<open>The element of message 2/4 that has to be the one of the association.\<close>

definition eapol_key_ie :: "bytes \<Rightarrow> wpa_eapol_ie_parse \<Rightarrow> bytes option" where
  "eapol_key_ie buf kde =
    map_option (\<lambda>(off, len). slice off len buf)
      (if kp_rsn_ie kde \<noteq> None then kp_rsn_ie kde else if kp_osen kde \<noteq> None then kp_osen kde else kp_wpa_ie kde)"

text \<open>\<open>Inl\<close>: the function returns with this state; \<open>Inr\<close>: it goes on.\<close>

definition msg2_gate :: "wpa_env \<Rightarrow> bytes \<Rightarrow> wpa_sm \<Rightarrow> wpa_sm + wpa_sm" where
  "msg2_gate env data sm =
    (if wpa_ptk_state sm \<noteq> PTK_PTKSTART \<and> wpa_ptk_state sm \<noteq> PTK_PTKCALCNEGOTIATING
        \<and> (\<not> update_snonce sm \<or> wpa_ptk_state sm \<noteq> PTK_PTKINITNEGOTIATING) then Inl sm
     else if reject_4way_hs_for_entropy (group sm) then Inl (wpa_sta_disconnect env sm)
     else
       let kd = key_data (ws_wpa_key_mgmt sm) data
       in case wpa_parse_kde_ies kd (length kd) of
            None \<Rightarrow> Inl sm
          | Some (ret, kde) \<Rightarrow>
              if ret < 0 then Inl sm
              else if \<not> wpa_compare_rsn_ie (ws_wpa_ie sm) (eapol_key_ie kd kde) then Inl (wpa_sta_disconnect env sm)
              else Inr sm)"

definition msg_gate :: "wpa_env \<Rightarrow> eapol_msg \<Rightarrow> bytes \<Rightarrow> wpa_sm \<Rightarrow> wpa_sm + wpa_sm" where
  "msg_gate env msg data sm =
    (case msg of
       PAIRWISE_2 \<Rightarrow> msg2_gate env data sm
     | PAIRWISE_4 \<Rightarrow> if wpa_ptk_state sm \<noteq> PTK_PTKINITNEGOTIATING \<or> \<not> PTK_valid sm then Inl sm else Inr sm
     | GROUP_2 \<Rightarrow> if wpa_ptk_group_state sm \<noteq> GROUP_REKEYNEGOTIATING \<or> \<not> PTK_valid sm then Inl sm else Inr sm
     | REQUEST \<Rightarrow> Inr sm
     | _ \<Rightarrow> if \<not> ac_peerkey (we_conf env) \<or> \<not> PTK_valid sm then Inl sm else Inr sm)"

text \<open>The integrity code is checked unless there is no key yet, or a message 2/4 asks for a new one.\<close>

definition mic_accepted :: "wpa_sm \<Rightarrow> wpa_sm" where
  "mic_accepted sm = emit_out (Cancel SendEapolTimeout) (sm\<lparr>MICVerified := True\<rparr>)\<lparr>pending_1_of_4_timeout := False\<rparr>"

definition mic_gate :: "wpa_env \<Rightarrow> eapol_msg \<Rightarrow> bytes \<Rightarrow> wpa_sm \<Rightarrow> wpa_sm + wpa_sm" where
  "mic_gate env msg data sm =
    (let sm = sm\<lparr>MICVerified := False\<rparr>
     in if PTK_valid sm \<and> \<not> update_snonce sm
        then if wpa_verify_key_mic (we_crypto env) (ws_wpa_key_mgmt sm) (PTK sm) data then Inr (mic_accepted sm)
             else if msg \<noteq> PAIRWISE_4 \<or> \<not> alt_snonce_valid sm then Inl sm
             else (case wpa_try_alt_snonce env data sm of None \<Rightarrow> Inl sm | Some sm \<Rightarrow> Inr (mic_accepted sm))
        else Inr sm)"

definition request_part :: "wpa_env \<Rightarrow> eapol_msg \<Rightarrow> bytes \<Rightarrow> wpa_sm \<Rightarrow> wpa_sm + wpa_sm" where
  "request_part env msg data sm =
    (let info = key_info data; kd = key_data (ws_wpa_key_mgmt sm) data
     in if \<not> MICVerified sm then Inl sm
        else
          let sm = sm\<lparr>req_replay_counter_used := True, req_replay_counter := replay_counter data\<rparr>
          in if msg = SMK_ERROR then Inl (emit_out (Smk SMK_error kd) sm)
             else if info AND WPA_KEY_INFO_ERROR \<noteq> 0
             then (case wpa_receive_error_report env (info AND WPA_KEY_INFO_KEY_TYPE = 0) sm of
                     (removed, sm) \<Rightarrow> if removed then Inl sm else Inr sm)
             else if info AND WPA_KEY_INFO_KEY_TYPE \<noteq> 0 then Inr (wpa_request_new_ptk sm)
             else if msg = SMK_M1 then Inr (emit_out (Smk SMK_m1 kd) sm)
             else if kd \<noteq> [] \<and> (case wpa_parse_kde_ies kd (length kd) of Some (ret, kde) \<Rightarrow> ret = 0 \<and> kp_mac_addr kde \<noteq> None | None \<Rightarrow> False)
             then Inr sm
             else Inr (wpa_rekey_gtk env (emit_out (Cancel RekeyGtk) sm)))"

definition reply_part :: "eapol_msg \<Rightarrow> bytes \<Rightarrow> wpa_sm \<Rightarrow> wpa_sm" where
  "reply_part msg data sm =
    (let kr = wpa_replay_counter_mark_invalid (key_replay sm) (Some (replay_counter data))
     in sm\<lparr>prev_key_replay := (if msg = PAIRWISE_2 then kr else no_replay), key_replay := wpa_replay_counter_mark_invalid kr None\<rparr>)"

text \<open>
  The frame is kept for \<open>PTKCALCNEGOTIATING\<close>, and the machines are stepped. Without memory for the copy nothing is kept.
\<close>

definition accept_frame :: "wpa_env \<Rightarrow> bytes \<Rightarrow> wpa_sm \<Rightarrow> wpa_sm" where
  "accept_frame env data sm =
    (if \<not> alloc env (ws_outs sm) 4 then sm\<lparr>last_rx_eapol_key := []\<rparr>
     else wpa_sm_step env (sm\<lparr>last_rx_eapol_key := data, rx_eapol_key_secure := key_info data AND WPA_KEY_INFO_SECURE \<noteq> 0,
       EAPOLKeyReceived := True, EAPOLKeyPairwise := key_info data AND WPA_KEY_INFO_KEY_TYPE \<noteq> 0,
       EAPOLKeyRequest := key_info data AND WPA_KEY_INFO_REQUEST \<noteq> 0, SNonce := key_nonce data\<rparr>))"

definition receive_checked :: "wpa_env \<Rightarrow> eapol_msg \<Rightarrow> bytes \<Rightarrow> wpa_sm \<Rightarrow> wpa_sm" where
  "receive_checked env msg data sm =
    (case mic_gate env msg data sm of
       Inl sm \<Rightarrow> sm
     | Inr sm \<Rightarrow>
         (case (if key_info data AND WPA_KEY_INFO_REQUEST \<noteq> 0 then request_part env msg data sm else Inr (reply_part msg data sm)) of
            Inl sm \<Rightarrow> sm
          | Inr sm \<Rightarrow>
              if msg = SMK_M3 then emit_out (Smk SMK_m3 (key_data (ws_wpa_key_mgmt sm) data)) sm
              else accept_frame env data sm))"

definition wpa_receive :: "wpa_env \<Rightarrow> bytes \<Rightarrow> wpa_sm \<Rightarrow> wpa_sm" where
  "wpa_receive env data sm =
    (let info = key_info data;
         msg = msg_of info (key_data_length (ws_wpa_key_mgmt sm) data)
     in if ac_wpa (we_conf env) = 0 \<or> \<not> frame_ok sm data \<or> \<not> version_ok sm msg info then sm
        else case replay_gate msg data sm of
               None \<Rightarrow> sm
             | Some sm \<Rightarrow>
                 (case msg_gate env msg data sm of
                    Inl sm \<Rightarrow> sm
                  | Inr sm \<Rightarrow>
                      if info AND WPA_KEY_INFO_ACK \<noteq> 0 \<or> info AND WPA_KEY_INFO_MIC = 0 then sm
                      else receive_checked env msg data sm))"

end
