(* ===== verification/WpaReplay.thy ===== *)
theory WpaReplay
  imports WpaReceive
begin

text \<open>
  The replay counters of the EAPOL-Key frames (\<open>key_replay\<close> in \<open>src/ap/wpa_auth.c\<close>): how many of them a run of the machines uses up, and
  that the pending ones are the last ones sent. The counters are eight bytes and wrap around, so what is later than what is a matter of bounds.
\<close>

subsection \<open>Counters as numbers\<close>

lemma inc_bytes_value:
  "length (inc_bytes c) = length c" "be_value (inc_bytes c) = (be_value c + 1) mod 256 ^ length c"
proof -
  from inc_byte_array_value[of "length c" c] obtain c' where "inc_byte_array c (length c) = Some c'" "length c' = length c"
      "be_value (take (length c) c') = (be_value (take (length c) c) + 1) mod 256 ^ length c" by auto
  then show "length (inc_bytes c) = length c" "be_value (inc_bytes c) = (be_value c + 1) mod 256 ^ length c" by (simp_all add: inc_bytes_def)
qed

lemma inc_bytes_times:
  "length ((inc_bytes ^^ k) c) = length c" "be_value ((inc_bytes ^^ k) c) = (be_value c + k) mod 256 ^ length c"
  by (induction k) (simp_all add: inc_bytes_value be_value_less mod_simps add.assoc add.commute)

lemma inc_bytes_returns:
  assumes "(inc_bytes ^^ k) c = c" "k < 256 ^ length c"
  shows "k = 0"
proof -
  have "(be_value c + k) mod 256 ^ length c = be_value c" using inc_bytes_times(2)[of k c] assms(1) by simp
  moreover have "be_value c < 256 ^ length c" by (rule be_value_less)
  ultimately show ?thesis using assms(2) by (cases "be_value c + k < 256 ^ length c") (simp_all add: le_mod_geq)
qed

subsection \<open>How many counters a run of the machines uses\<close>

lemma replay_get_random: "get_random env n sm = (r, sm') \<Longrightarrow> key_replay sm' = key_replay sm"
  by (auto simp: get_random_def emit_out_def)

lemma replay_upds: "key_replay (upd_group f sm) = key_replay sm" "key_replay (emit_out x sm) = key_replay sm"
  by (simp_all add: upd_group_def emit_out_def)

lemma replay_init_gmk: "wpa_group_init_gmk_and_counter env sm = (r, sm') \<Longrightarrow> key_replay sm' = key_replay sm"
  unfolding wpa_group_init_gmk_and_counter_def Let_def
  by (auto split: prod.splits option.splits simp: replay_upds dest!: replay_get_random)

lemma replay_gmk_to_gtk: "wpa_gmk_to_gtk env label gnonce n sm = (r, sm') \<Longrightarrow> key_replay sm' = key_replay sm"
  unfolding wpa_gmk_to_gtk_def Let_def by (auto split: prod.splits dest!: replay_get_random)

lemma replay_gtk_update: "wpa_gtk_update env sm = (r, sm') \<Longrightarrow> key_replay sm' = key_replay sm"
  unfolding wpa_gtk_update_def Let_def next_gnonce_def
  by (auto split: prod.splits if_splits simp: replay_upds dest!: replay_gmk_to_gtk)

lemma replay_config: "wpa_group_config_group_keys env sm = (r, sm') \<Longrightarrow> key_replay sm' = key_replay sm"
  unfolding wpa_group_config_group_keys_def set_group_key_def Let_def by (auto split: prod.splits if_splits simp: replay_upds)

lemma replay_ensure_init: "key_replay (wpa_group_ensure_init env sm) = key_replay sm"
proof -
  define sm1 where "sm1 = upd_group (\<lambda>g. if random_pool_ready env (ws_outs sm) then g\<lparr>first_sta_seen := True, reject_4way_hs_for_entropy := False\<rparr>
      else g\<lparr>reject_4way_hs_for_entropy := True\<rparr>) sm"
  obtain ok sm2 where s: "group_setup env sm1 = (ok, sm2)" by fastforce
  then have "key_replay sm2 = key_replay sm1"
    unfolding group_setup_def by (auto split: prod.splits bool.splits dest!: replay_init_gmk replay_gtk_update replay_config)
  then show ?thesis
    unfolding wpa_group_ensure_init_def Let_def sm1_def[symmetric] s by (simp add: sm1_def replay_upds split: bool.split)
qed

lemma replay_kde_add: "ieee80211w_kde_add env sm = (r, sm') \<Longrightarrow> key_replay sm' = key_replay sm"
  unfolding ieee80211w_kde_add_def Let_def by (auto split: prod.splits option.splits if_splits dest!: replay_get_random)

lemma replay_station_gtk: "station_gtk env sm = (r, sm') \<Longrightarrow> key_replay sm' = key_replay sm"
  unfolding station_gtk_def by (auto split: if_splits dest!: replay_get_random)

lemma replay_msg3_params: "msg3_params env sm = (r, sm') \<Longrightarrow> key_replay sm' = key_replay sm"
  unfolding msg3_params_def Let_def by (auto split: prod.splits option.splits if_splits dest!: replay_station_gtk)

lemma replay_group_key_data: "group_key_data env gtk sm = (r, sm') \<Longrightarrow> key_replay sm' = key_replay sm"
  unfolding group_key_data_def Let_def by (auto split: prod.splits option.splits if_splits dest!: replay_kde_add)

lemma replay_key_data_field: "key_data_field env version kde encr sm = (r, sm') \<Longrightarrow> key_replay sm' = key_replay sm"
  unfolding key_data_field_def Let_def by (auto split: sum.splits if_splits simp: replay_upds)

definition uses_counters :: "nat \<Rightarrow> wpa_sm \<Rightarrow> wpa_sm \<Rightarrow> bool" where
  "uses_counters n a b = (\<exists>k\<le>n. key_replay b = (next_replay ^^ k) (key_replay a))"

lemma uses_none: "key_replay b = key_replay a \<Longrightarrow> uses_counters n a b"
  unfolding uses_counters_def by (rule exI[of _ 0]) simp

lemma uses_trans: "uses_counters m a b \<Longrightarrow> uses_counters n b c \<Longrightarrow> uses_counters (m + n) a c"
proof -
  assume "uses_counters m a b" "uses_counters n b c"
  then obtain k j where "k \<le> m" "key_replay b = (next_replay ^^ k) (key_replay a)" "j \<le> n" "key_replay c = (next_replay ^^ j) (key_replay b)"
    unfolding uses_counters_def by blast
  then have "j + k \<le> m + n" "key_replay c = (next_replay ^^ (j + k)) (key_replay a)" by (simp_all add: funpow_add)
  then show ?thesis unfolding uses_counters_def by blast
qed

lemma uses_send: "key_replay a = key_replay sm \<Longrightarrow> uses_counters (Suc 0) a (wpa_send_eapol env info rsc nonce kde keyidx encr sm)"
proof -
  obtain r sm' where k: "key_data_field env (send_version sm) kde encr (sm\<lparr>key_replay := next_replay (key_replay sm)\<rparr>) = (r, sm')"
    by fastforce
  have "key_replay (wpa_send_eapol env info rsc nonce kde keyidx encr sm) = key_replay sm
      \<or> key_replay (wpa_send_eapol env info rsc nonce kde keyidx encr sm) = next_replay (key_replay sm)"
    using replay_key_data_field[OF k]
    unfolding wpa_send_eapol_def wpa_send_eapol_frame_def Let_def k sign_and_send_def set_eapol_def
    by (auto split: option.split prod.split simp: replay_upds)
  then have "\<exists>k\<le>Suc 0. key_replay (wpa_send_eapol env info rsc nonce kde keyidx encr sm) = (next_replay ^^ k) (key_replay sm)"
    by (elim disjE) (rule exI[of _ 0], simp, rule exI[of _ "Suc 0"], simp)
  moreover assume "key_replay a = key_replay sm"
  ultimately show ?thesis unfolding uses_counters_def by simp
qed

lemma replay_enter_initialize: "uses_counters (Suc 0) sm (sm_WPA_PTK_INITIALIZE_Enter sm)"
  unfolding sm_WPA_PTK_INITIALIZE_Enter_def Let_def
  by (cases "Init sm"; cases "GUpdateStationKeys sm"; cases "ws_wpa sm = WPA_VERSION_WPA"; cases "wpa_key_mgmt_wpa_psk (ws_wpa_key_mgmt sm)")
    (simp_all add: entry_simps uses_none)

lemma replay_enter_disconnect:
  "uses_counters (Suc 0) sm (sm_WPA_PTK_DISCONNECT_Enter sm)" "uses_counters (Suc 0) sm (sm_WPA_PTK_DISCONNECT_Enter (count_failure sm))"
  "uses_counters (Suc 0) sm (sm_WPA_PTK_DISCONNECTED_Enter sm)" "uses_counters (Suc 0) sm (sm_WPA_PTK_AUTHENTICATION_Enter sm)"
  "uses_counters (Suc 0) sm (sm_WPA_PTK_PTKCALCNEGOTIATING2_Enter sm)"
  by (simp_all add: sm_WPA_PTK_DISCONNECT_Enter_def sm_WPA_PTK_DISCONNECTED_Enter_def sm_WPA_PTK_AUTHENTICATION_Enter_def
      sm_WPA_PTK_PTKCALCNEGOTIATING2_Enter_def entry_simps Let_def uses_none)

lemma replay_enter_authentication2: "uses_counters (Suc 0) sm (sm_WPA_PTK_AUTHENTICATION2_Enter env sm)"
proof -
  define sm0 where "sm0 = ptk_entry PTK_AUTHENTICATION2 sm"
  define sm1 where "sm1 = wpa_group_ensure_init env sm0\<lparr>ReAuthenticationRequest := False\<rparr>"
  obtain r sm2 where g: "get_random env WPA_NONCE_LEN sm1 = (r, sm2)" by fastforce
  have "key_replay sm1 = key_replay sm" by (simp add: sm1_def sm0_def replay_ensure_init ptk_entry_def)
  with replay_get_random[OF g] show ?thesis
    unfolding sm_WPA_PTK_AUTHENTICATION2_Enter_def Let_def sm0_def[symmetric] sm1_def[symmetric] g
    by (cases r) (simp_all add: uses_none)
qed

lemma replay_enter_pmk: "uses_counters (Suc 0) sm (sm_WPA_PTK_INITPMK_Enter env sm)" "uses_counters (Suc 0) sm (sm_WPA_PTK_INITPSK_Enter env sm)"
  unfolding sm_WPA_PTK_INITPMK_Enter_def sm_WPA_PTK_INITPSK_Enter_def Let_def
  by (cases "ws_pmksa sm"; cases "get_msk env (ws_outs sm)"; simp add: entry_simps uses_none)
    (cases "we_psks env"; simp add: entry_simps uses_none)

lemma replay_enter_start: "uses_counters (Suc 0) sm (sm_WPA_PTK_PTKSTART_Enter env sm)"
proof -
  define sm0 where "sm0 = ptk_entry PTK_PTKSTART sm\<lparr>PTKRequest := False, TimeoutEvt := False, alt_snonce_valid := False, TimeoutCtr := TimeoutCtr sm + 1\<rparr>"
  have "key_replay sm = key_replay sm0" by (simp add: sm0_def ptk_entry_def)
  then show ?thesis
    unfolding sm_WPA_PTK_PTKSTART_Enter_def Let_def sm0_def[symmetric] by (auto intro: uses_send simp: uses_none)
qed

lemma replay_enter_initnegotiating: "uses_counters (Suc 0) sm (sm_WPA_PTK_PTKINITNEGOTIATING_Enter env sm)"
proof -
  define sm0 where "sm0 = ptk_entry PTK_PTKINITNEGOTIATING sm\<lparr>TimeoutEvt := False, TimeoutCtr := TimeoutCtr sm + 1\<rparr>"
  obtain r sm1 where m: "msg3_params env sm0 = (r, sm1)" by fastforce
  obtain kde sm2 where k: "ieee80211w_kde_add env sm1 = (kde, sm2)" by fastforce
  have "key_replay sm = key_replay sm0" by (simp add: sm0_def ptk_entry_def)
  with replay_msg3_params[OF m] replay_kde_add[OF k]
  have "key_replay sm0 = key_replay sm" "key_replay sm1 = key_replay sm" "key_replay sm = key_replay sm2" by simp_all
  then show ?thesis
    unfolding sm_WPA_PTK_PTKINITNEGOTIATING_Enter_def Let_def sm0_def[symmetric] m
    by (auto simp: k uses_none intro: uses_send split: option.split)
qed

lemma replay_enter_rekeynegotiating: "uses_counters (Suc 0) sm (sm_WPA_PTK_GROUP_REKEYNEGOTIATING_Enter env sm)"
proof -
  define sm0 where "sm0 = group_entry GROUP_REKEYNEGOTIATING sm\<lparr>GTimeoutCtr := GTimeoutCtr sm + 1\<rparr>"
  define sm1 where "sm1 = (if ws_wpa sm0 = WPA_VERSION_WPA then sm0\<lparr>PInitAKeys := False\<rparr> else sm0)\<lparr>TimeoutEvt := False\<rparr>"
  obtain r sm2 where g: "station_gtk env sm1 = (r, sm2)" by fastforce
  obtain k sm3 where k: "group_key_data env (the r) sm2 = (k, sm3)" by fastforce
  have "key_replay sm0 = key_replay sm" "key_replay sm1 = key_replay sm" by (simp_all add: sm0_def sm1_def group_entry_def)
  with replay_station_gtk[OF g] replay_group_key_data[OF k]
  have "key_replay sm0 = key_replay sm" "key_replay sm2 = key_replay sm" "key_replay sm = key_replay sm3" by simp_all
  with k show ?thesis
    unfolding sm_WPA_PTK_GROUP_REKEYNEGOTIATING_Enter_def Let_def sm0_def[symmetric] sm1_def[symmetric] g
    by (auto split: option.split intro: uses_send simp: uses_none)
qed

lemma replay_enter_calc: "uses_counters (Suc 0) sm (sm_WPA_PTK_PTKCALCNEGOTIATING_Enter env sm)"
proof -
  define sm0 where "sm0 = ptk_entry PTK_PTKCALCNEGOTIATING sm\<lparr>EAPOLKeyReceived := False, update_snonce := False\<rparr>"
  have "key_replay sm0 = key_replay sm" by (simp add: sm0_def ptk_entry_def)
  then show ?thesis
    unfolding sm_WPA_PTK_PTKCALCNEGOTIATING_Enter_def Let_def sm0_def[symmetric]
    by (cases "matching_pmk env sm0 (SNonce sm0) (last_rx_eapol_key sm0)"; cases "wpa_key_mgmt_wpa_psk (ws_wpa_key_mgmt sm0)"; cases "we_psks env")
      (simp_all add: emit_out_def uses_none)
qed

lemma replay_enter_done: "uses_counters (Suc 0) sm (sm_WPA_PTK_PTKINITDONE_Enter env sm)"
proof -
  define sm0 where "sm0 = ptk_entry PTK_PTKINITDONE sm\<lparr>EAPOLKeyReceived := False\<rparr>"
  have "key_replay sm0 = key_replay sm" by (simp add: sm0_def ptk_entry_def)
  then show ?thesis
    unfolding sm_WPA_PTK_PTKINITDONE_Enter_def Let_def sm0_def[symmetric]
    by (cases "Pair sm0"; cases "set_key_result env (ws_outs sm0) = 0"; cases "ac_wpa_ptk_rekey (we_conf env) = 0";
        cases "wpa_key_mgmt_wpa_psk (ws_wpa_key_mgmt sm0)"; cases "ws_wpa sm0 = WPA_VERSION_WPA")
      (simp_all add: entry_simps uses_none)
qed

lemmas replay_enters = replay_enter_initialize replay_enter_disconnect replay_enter_authentication2 replay_enter_pmk replay_enter_start
  replay_enter_initnegotiating
  replay_enter_calc replay_enter_done

lemma replay_ptk_step: "uses_counters (Suc 0) sm (sm_WPA_PTK_Step env sm)"
  unfolding sm_WPA_PTK_Step_def ptk_switch_def
  by (cases "wpa_ptk_state sm") (simp_all add: replay_enters uses_none)

lemma replay_group_step: "uses_counters (Suc 0) sm (sm_WPA_PTK_GROUP_Step env sm)"
  unfolding sm_WPA_PTK_GROUP_Step_def sm_WPA_PTK_GROUP_IDLE_Enter_def sm_WPA_PTK_GROUP_REKEYESTABLISHED_Enter_def sm_WPA_PTK_GROUP_KEYERROR_Enter_def
  by (cases "wpa_ptk_group_state sm") (simp_all add: replay_enter_rekeynegotiating uses_none entry_simps Let_def)

lemma replay_setkeysdone: "key_replay (wpa_group_setkeysdone env sm) = key_replay sm"
proof -
  define sm1 where "sm1 = upd_group (\<lambda>g. g\<lparr>gchanged := True, wpa_group_state := SETKEYSDONE\<rparr>) sm"
  obtain ok sm2 where c: "wpa_group_config_group_keys env sm1 = (ok, sm2)" by fastforce
  from replay_config[OF this] show ?thesis
    unfolding wpa_group_setkeysdone_def Let_def sm1_def[symmetric] c by (simp add: wpa_group_fatal_failure_def upd_group_def sm1_def)
qed

lemma replay_group_sm_step: "key_replay (wpa_group_sm_step env (\<lambda>s. s) sm) = key_replay sm"
proof -
  have "key_replay (snd (wpa_gtk_update env s)) = key_replay s" for s
    by (rule replay_gtk_update) (rule prod.collapse[symmetric])
  then show ?thesis
    unfolding wpa_group_sm_step_def wpa_group_gtk_init_def wpa_group_setkeys_def wpa_group_update_sta_def Let_def
    by (simp add: replay_upds replay_setkeysdone)
qed

lemma replay_step_once: "uses_counters (Suc (Suc 0)) sm (step_once env sm)"
proof -
  define sm0 where "sm0 = upd_group (\<lambda>g. g\<lparr>gchanged := False\<rparr>) sm\<lparr>changed := False\<rparr>"
  have "uses_counters (Suc 0 + Suc 0) sm0 (sm_WPA_PTK_GROUP_Step env (sm_WPA_PTK_Step env sm0))"
    by (rule uses_trans[OF replay_ptk_step replay_group_step])
  then show ?thesis
    unfolding step_once_def sm0_def[symmetric] by (simp add: uses_counters_def replay_group_sm_step) (simp add: sm0_def upd_group_def)
qed

text \<open>A run of the machines uses fewer than 4801 counters.\<close>

definition counter_bound :: nat where
  "counter_bound = 4800"

lemma replay_rounds: "uses_counters (2 * n) sm ((step_once env ^^ n) sm)"
proof (induction n)
  case (Suc n)
  from uses_trans[OF Suc replay_step_once[of _ env]] show ?case by (simp add: add.commute)
qed (simp add: uses_none)

lemma replay_loop: "uses_counters counter_bound sm (wpa_sm_step env sm)"
proof -
  obtain n where n: "n \<le> rounds_left sm" "wpa_sm_step env sm = (step_once env ^^ Suc n) sm"
    using wpa_sm_step_rounds[of sm env] by auto
  moreover have "2 * Suc n \<le> counter_bound" using n(1) rounds_left_le[of sm] by (simp add: counter_bound_def)
  ultimately show ?thesis using replay_rounds[of "Suc n" sm env] unfolding uses_counters_def by (metis order_trans)
qed

subsection \<open>The counters that are pending\<close>

text \<open>The entry at position \<open>i\<close>, while it is valid, is the counter that was sent \<open>i\<close> frames before the newest.\<close>

definition counters_ok :: "(bytes \<times> bool) list \<Rightarrow> bool" where
  "counters_ok kr = (kr \<noteq> [] \<and> length kr \<le> 4 \<and> length (fst (hd kr)) = 8
     \<and> (\<forall>i<length kr. snd (kr ! i) \<longrightarrow> (inc_bytes ^^ i) (fst (kr ! i)) = fst (hd kr)))"

lemma counters_ok_none: "counters_ok no_replay"
  by (simp add: counters_ok_def)

lemma counters_ok_next: "counters_ok kr \<Longrightarrow> counters_ok ((next_replay ^^ n) kr)"
proof (induction n)
  case (Suc n)
  define r where "r = (next_replay ^^ n) kr"
  have ok: "counters_ok r" using Suc by (simp add: r_def)
  have "(inc_bytes ^^ i) (fst (next_replay r ! i)) = inc_bytes (fst (hd r))" if "i < length (next_replay r)" "snd (next_replay r ! i)" for i
    using that ok by (cases i) (auto simp: next_replay_def counters_ok_def)
  then show ?case using ok unfolding funpow.simps comp_apply r_def[symmetric] counters_ok_def
    by (auto simp: next_replay_def inc_bytes_value)
qed simp

lemma counters_ok_invalid: "counters_ok kr \<Longrightarrow> counters_ok (wpa_replay_counter_mark_invalid kr rc)"
  by (auto simp: counters_ok_def wpa_replay_counter_mark_invalid_def hd_map split: prod.splits)

lemma valid_in: "wpa_replay_counter_valid kr rc \<Longrightarrow> (rc, True) \<in> set kr"
  by (induction kr rc rule: wpa_replay_counter_valid.induct) auto

lemma counters_ok_pending:
  assumes "counters_ok kr" "wpa_replay_counter_valid kr rc"
  shows "\<exists>i<4. (inc_bytes ^^ i) rc = fst (hd kr)"
proof -
  obtain i where "i < length kr" "kr ! i = (rc, True)" using valid_in[OF assms(2)] by (auto simp: in_set_conv_nth)
  with assms(1) show ?thesis unfolding counters_ok_def by (intro exI[of _ i]) force
qed

text \<open>When no counter was valid, the valid ones are new.\<close>

lemma next_replay_fresh:
  assumes "\<forall>(c, v)\<in>set kr. \<not> v"
  shows "fst (hd ((next_replay ^^ n) kr)) = (inc_bytes ^^ n) (fst (hd kr))
    \<and> (\<forall>c. (c, True) \<in> set ((next_replay ^^ n) kr) \<longrightarrow> (\<exists>k. 0 < k \<and> k \<le> n \<and> c = (inc_bytes ^^ k) (fst (hd kr))))"
proof (induction n)
  case 0
  then show ?case using assms by auto
next
  case (Suc n)
  have eq: "(next_replay ^^ Suc n) kr = (inc_bytes (fst (hd ((next_replay ^^ n) kr))), True) # take 3 ((next_replay ^^ n) kr)"
    by (simp add: next_replay_def)
  have "\<exists>k. 0 < k \<and> k \<le> Suc n \<and> c = (inc_bytes ^^ k) (fst (hd kr))" if "(c, True) \<in> set ((next_replay ^^ Suc n) kr)" for c
  proof (cases "c = (inc_bytes ^^ Suc n) (fst (hd kr))")
    case False
    with that Suc show ?thesis unfolding eq by (auto dest!: in_set_takeD) (metis le_SucI)
  qed blast
  with Suc show ?case unfolding eq by simp
qed

text \<open>
  What is pending in \<open>b\<close> was not pending in \<open>a\<close>: the counters are between 1 and 4800 ahead of the newest one of \<open>a\<close>, as
  numbers of 64 bits.
\<close>

definition newest_counter :: "wpa_sm \<Rightarrow> nat" where
  "newest_counter sm = be_value (fst (hd (key_replay sm)))"

definition fresh_counters :: "wpa_sm \<Rightarrow> wpa_sm \<Rightarrow> bool" where
  "fresh_counters a b = (\<forall>rc. wpa_replay_counter_valid (key_replay b) rc \<longrightarrow> \<not> wpa_replay_counter_valid (key_replay a) rc
     \<and> (\<exists>k. 0 < k \<and> k \<le> 4800 \<and> be_value rc = (newest_counter a + k) mod 2 ^ 64))"

lemma fresh_after_invalid:
  assumes "counters_ok (key_replay a)" "\<forall>(c, v)\<in>set kr. \<not> v" "fst (hd kr) = fst (hd (key_replay a))"
    and "key_replay b = (next_replay ^^ n) kr" "n \<le> counter_bound"
  shows "fresh_counters a b"
  unfolding fresh_counters_def
proof (intro allI impI)
  fix rc assume "wpa_replay_counter_valid (key_replay b) rc"
  then obtain k where k: "0 < k" "k \<le> n" "rc = (inc_bytes ^^ k) (fst (hd (key_replay a)))"
    using next_replay_fresh[OF assms(2), of n] assms(3,4) by (auto dest!: valid_in)
  have len: "length (fst (hd (key_replay a))) = 8" using assms(1) by (simp add: counters_ok_def)
  have "\<not> wpa_replay_counter_valid (key_replay a) rc"
  proof
    assume "wpa_replay_counter_valid (key_replay a) rc"
    with counters_ok_pending[OF assms(1)] obtain i where i: "i < 4" "(inc_bytes ^^ i) rc = fst (hd (key_replay a))" by blast
    then have "(inc_bytes ^^ (k + i)) rc = rc" using k(3) by (simp add: funpow_add)
    moreover have "length rc = 8" using len k(3) by (simp add: inc_bytes_times)
    ultimately show False using inc_bytes_returns[of "k + i" rc] k(1,2) i(1) assms(5) by (simp add: counter_bound_def)
  qed
  moreover have "be_value rc = (newest_counter a + k) mod 2 ^ 64" unfolding newest_counter_def k(3) by (simp add: inc_bytes_times len)
  ultimately show "\<not> wpa_replay_counter_valid (key_replay a) rc \<and> (\<exists>k. 0 < k \<and> k \<le> 4800 \<and> be_value rc = (newest_counter a + k) mod 2 ^ 64)"
    using k(1,2) assms(5) by (auto simp: counter_bound_def)
qed

lemma reply_part_fresh:
  assumes "uses_counters counter_bound (reply_part msg data s) b" "key_replay s = key_replay a" "counters_ok (key_replay a)"
  shows "fresh_counters a b"
proof -
  define kr where "kr = key_replay (reply_part msg data s)"
  have kr: "\<forall>(c, v)\<in>set kr. \<not> v" "fst (hd kr) = fst (hd (key_replay a))"
    using assms(2) by (auto simp: kr_def reply_part_def Let_def wpa_replay_counter_mark_invalid_def hd_map) (cases "key_replay a"; auto)
  obtain n where "n \<le> counter_bound" "key_replay b = (next_replay ^^ n) kr" using assms(1) by (auto simp: uses_counters_def kr_def)
  with fresh_after_invalid[OF assms(3) kr] show ?thesis by blast
qed

end
