(* ===== verification/WpaSmInv.thy ===== *)
theory WpaSmInv
  imports WpaReplay
begin

text \<open>
  Properties of the authenticator's machines over all sequences of events.
\<close>

subsection \<open>What the machines of the group do to the pairwise part\<close>

text \<open>Outputs that open the port or install a pairwise key.\<close>

fun opens :: "wpa_out \<Rightarrow> bool" where
  "opens (InstallKey alg key) = True"
| "opens (SetEapol v x) = (x \<noteq> 0 \<and> (v = EAPOL_authorized \<or> v = EAPOL_portValid))"
| "opens _ = False"

definition openings :: "wpa_sm \<Rightarrow> wpa_out list" where
  "openings sm = filter opens (ws_outs sm)"

text \<open>
  \<open>group_side a b\<close>: from \<open>a\<close> to \<open>b\<close> only the group key part was at work. It may use up a received frame or a timeout, and ask for disconnection.
\<close>

definition pairwise_part where
  "pairwise_part sm = (wpa_state_machine.truncate sm, wpa_ptk_state sm, Init sm, DeauthenticationRequest sm, AuthenticationRequest sm,
     ReAuthenticationRequest sm, PTKRequest sm, TimeoutCtr sm, EAPOLKeyPairwise sm, EAPOLKeyRequest sm, MICVerified sm, ANonce sm, SNonce sm,
     alt_SNonce sm, alt_replay_counter sm, PMK sm, PTK sm, PTK_valid sm, pairwise_set sm, Pair sm, last_rx_eapol_key sm, update_snonce sm,
     alt_snonce_valid sm, started sm, prev_key_replay sm)"

definition group_side :: "wpa_sm \<Rightarrow> wpa_sm \<Rightarrow> bool" where
  "group_side a b = (pairwise_part b = pairwise_part a \<and> (Disconnect a \<longrightarrow> Disconnect b) \<and> (TimeoutEvt b \<longrightarrow> TimeoutEvt a)
     \<and> (EAPOLKeyReceived b \<longrightarrow> EAPOLKeyReceived a) \<and> openings b = openings a \<and> set (ws_outs a) \<subseteq> set (ws_outs b))"

lemmas group_side_simps = group_side_def pairwise_part_def wpa_state_machine.truncate_def openings_def

lemma openings_quiet: "list_all quiet_out outs \<Longrightarrow> filter opens outs = []"
  by (induction outs) (auto elim!: quiet_out.elims)

lemma group_side_refl: "group_side a a"
  unfolding group_side_def by simp

lemma group_side_trans: "group_side a b \<Longrightarrow> group_side b c \<Longrightarrow> group_side a c"
  unfolding group_side_def by (simp, blast)

lemma group_side_quiet: "quiet a b \<Longrightarrow> group_side a b"
  by (erule quietE) (auto simp: group_side_simps openings_quiet)

lemma group_side_idle: "group_side sm (sm_WPA_PTK_GROUP_IDLE_Enter sm)"
  by (simp add: sm_WPA_PTK_GROUP_IDLE_Enter_def group_entry_def group_side_simps Let_def)

lemma group_side_established: "group_side sm (sm_WPA_PTK_GROUP_REKEYESTABLISHED_Enter sm)"
  by (simp add: sm_WPA_PTK_GROUP_REKEYESTABLISHED_Enter_def entry_simps group_side_simps)

lemma group_side_keyerror: "group_side sm (sm_WPA_PTK_GROUP_KEYERROR_Enter sm)"
  by (simp add: sm_WPA_PTK_GROUP_KEYERROR_Enter_def entry_simps group_side_simps)

lemma group_side_rekeynegotiating: "group_side sm (sm_WPA_PTK_GROUP_REKEYNEGOTIATING_Enter env sm)"
  by (rule group_side_trans[OF _ group_side_quiet[OF rekeynegotiating_quiet]])
    (simp add: Let_def group_entry_def group_side_simps)

lemma group_side_upds:
  "group_side a sm \<Longrightarrow> group_side a (upd_group f sm)"
  "group_side a sm \<Longrightarrow> group_side a (sm\<lparr>GUpdateStationKeys := u\<rparr>)"
  "group_side a sm \<Longrightarrow> group_side a (sm\<lparr>PtkGroupInit := u\<rparr>)"
  "group_side a sm \<Longrightarrow> group_side a (sm\<lparr>Disconnect := True\<rparr>)"
  by (auto simp: group_side_simps upd_group_def)

lemma group_side_group_step: "group_side sm (sm_WPA_PTK_GROUP_Step env sm)"
  unfolding sm_WPA_PTK_GROUP_Step_def
  by (auto split: ptk_group_state.split
      intro!: group_side_upds group_side_idle group_side_established group_side_keyerror group_side_rekeynegotiating group_side_refl)

lemma group_side_setkeysdone: "group_side sm (wpa_group_setkeysdone env sm)"
proof -
  define sm1 where "sm1 = upd_group (\<lambda>g. g\<lparr>gchanged := True, wpa_group_state := SETKEYSDONE\<rparr>) sm"
  obtain ok sm2 where c: "wpa_group_config_group_keys env sm1 = (ok, sm2)" by fastforce
  then have "quiet sm1 sm2" using quiet_config quiet_refl by blast
  moreover have "group_side sm sm1" unfolding sm1_def by (rule group_side_upds group_side_refl)+
  ultimately have "group_side sm sm2" by (blast intro: group_side_trans group_side_quiet)
  then show ?thesis
    unfolding wpa_group_setkeysdone_def Let_def sm1_def[symmetric] c wpa_group_fatal_failure_def by (auto intro: group_side_upds)
qed

lemma group_side_setkeys: "group_side sm (wpa_group_setkeys env (\<lambda>s. s) sm)"
  unfolding wpa_group_setkeys_def Let_def wpa_group_update_sta_def
  by (auto intro!: group_side_upds intro: group_side_trans[OF _ group_side_quiet[OF gtk_update_quiet]] group_side_refl)

lemma group_side_sm_step: "group_side sm (wpa_group_sm_step env (\<lambda>s. s) sm)"
  unfolding wpa_group_sm_step_def Let_def wpa_group_gtk_init_def
  by (auto intro!: group_side_upds group_side_setkeysdone group_side_setkeys
      intro: group_side_trans[OF _ group_side_quiet[OF gtk_update_quiet]] group_side_refl)

text \<open>An invariant that the group's part respects needs to be shown for the pairwise machine only.\<close>

lemma step_once_inv:
  assumes "\<And>a b. P a \<Longrightarrow> group_side a b \<Longrightarrow> P b" "\<And>sm. P sm \<Longrightarrow> P (sm_WPA_PTK_Step env sm)" "P sm"
  shows "P (step_once env sm)"
proof -
  have "group_side sm (upd_group (\<lambda>g. g\<lparr>gchanged := False\<rparr>) sm\<lparr>changed := False\<rparr>)"
    by (simp add: group_side_simps upd_group_def)
  with assms have "P (upd_group (\<lambda>g. g\<lparr>gchanged := False\<rparr>) sm\<lparr>changed := False\<rparr>)" by blast
  then show ?thesis
    unfolding step_once_def by (intro assms(1)[OF _ group_side_sm_step] assms(1)[OF _ group_side_group_step] assms(2))
qed

subsection \<open>Replies that are waiting to be used\<close>

text \<open>A reply is waiting in a state in which it could complete the handshake. Between events there is none.\<close>

definition late_state :: "ptk_state \<Rightarrow> bool" where
  "late_state st = (st = PTK_PTKCALCNEGOTIATING \<or> st = PTK_PTKCALCNEGOTIATING2 \<or> st = PTK_PTKINITNEGOTIATING)"

definition waiting :: "wpa_sm \<Rightarrow> bool" where
  "waiting sm = (pairwise_reply sm \<and> late_state (wpa_ptk_state sm))"

definition rx_part where
  "rx_part sm = (wpa_state_machine.truncate sm, EAPOLKeyReceived sm, EAPOLKeyPairwise sm, EAPOLKeyRequest sm, MICVerified sm, PTK sm, PTK_valid sm,
     last_rx_eapol_key sm, update_snonce sm)"

lemmas rx_simps = rx_part_def wpa_state_machine.truncate_def openings_def late_state_def pairwise_reply_def

lemma quiet_rx: "quiet a b \<Longrightarrow> rx_part b = rx_part a \<and> openings b = openings a \<and> wpa_ptk_state b = wpa_ptk_state a
    \<and> TimeoutCtr b = TimeoutCtr a \<and> TimeoutEvt b = TimeoutEvt a"
  by (erule quietE) (simp add: rx_part_def wpa_state_machine.truncate_def openings_def openings_quiet)

lemma enter_initialize:
  "wpa_ptk_state (sm_WPA_PTK_INITIALIZE_Enter sm) = PTK_INITIALIZE" "openings (sm_WPA_PTK_INITIALIZE_Enter sm) = openings sm"
  unfolding sm_WPA_PTK_INITIALIZE_Enter_def Let_def
  by (cases "Init sm"; cases "GUpdateStationKeys sm"; cases "ws_wpa sm = WPA_VERSION_WPA"; cases "wpa_key_mgmt_wpa_psk (ws_wpa_key_mgmt sm)";
      simp add: entry_simps openings_def)+

lemma enter_disconnect:
  "wpa_ptk_state (sm_WPA_PTK_DISCONNECT_Enter sm) = PTK_DISCONNECT" "openings (sm_WPA_PTK_DISCONNECT_Enter sm) = openings sm"
  by (simp_all add: sm_WPA_PTK_DISCONNECT_Enter_def entry_simps openings_def Let_def)

lemma enter_disconnected:
  "wpa_ptk_state (sm_WPA_PTK_DISCONNECTED_Enter sm) = PTK_DISCONNECTED" "openings (sm_WPA_PTK_DISCONNECTED_Enter sm) = openings sm"
  by (simp_all add: sm_WPA_PTK_DISCONNECTED_Enter_def entry_simps openings_def)

lemma enter_authentication:
  "wpa_ptk_state (sm_WPA_PTK_AUTHENTICATION_Enter sm) = PTK_AUTHENTICATION" "openings (sm_WPA_PTK_AUTHENTICATION_Enter sm) = openings sm"
  by (simp_all add: sm_WPA_PTK_AUTHENTICATION_Enter_def entry_simps openings_def Let_def)

lemma enter_authentication2:
  "wpa_ptk_state (sm_WPA_PTK_AUTHENTICATION2_Enter env sm) = PTK_AUTHENTICATION2" "openings (sm_WPA_PTK_AUTHENTICATION2_Enter env sm) = openings sm"
proof -
  define sm0 where "sm0 = ptk_entry PTK_AUTHENTICATION2 sm"
  define sm1 where "sm1 = wpa_group_ensure_init env sm0\<lparr>ReAuthenticationRequest := False\<rparr>"
  obtain r sm2 where g: "get_random env WPA_NONCE_LEN sm1 = (r, sm2)" by fastforce
  have q: "quiet sm0 (wpa_group_ensure_init env sm0)" "quiet sm1 sm2"
    using g by (auto intro: quiets quiet_get_random)
  have "wpa_ptk_state sm2 = PTK_AUTHENTICATION2" "openings sm2 = openings sm"
    using quiet_rx[OF q(1)] quiet_rx[OF q(2)] unfolding sm1_def by (simp_all add: sm0_def ptk_entry_def openings_def)
  then show "wpa_ptk_state (sm_WPA_PTK_AUTHENTICATION2_Enter env sm) = PTK_AUTHENTICATION2" "openings (sm_WPA_PTK_AUTHENTICATION2_Enter env sm) = openings sm"
    unfolding sm_WPA_PTK_AUTHENTICATION2_Enter_def Let_def sm0_def[symmetric] sm1_def[symmetric] g
    by (simp_all add: openings_def split: option.split)
qed

lemma enter_initpmk:
  "wpa_ptk_state (sm_WPA_PTK_INITPMK_Enter env sm) = PTK_INITPMK" "openings (sm_WPA_PTK_INITPMK_Enter env sm) = openings sm"
  unfolding sm_WPA_PTK_INITPMK_Enter_def Let_def
  by (cases "ws_pmksa sm"; cases "get_msk env (ws_outs sm)"; simp add: entry_simps openings_def)+

lemma enter_initpsk:
  "wpa_ptk_state (sm_WPA_PTK_INITPSK_Enter env sm) = PTK_INITPSK" "openings (sm_WPA_PTK_INITPSK_Enter env sm) = openings sm"
  unfolding sm_WPA_PTK_INITPSK_Enter_def Let_def
  by (cases "we_psks env"; simp add: entry_simps openings_def)+

lemma ptkstart_quiet:
  "quiet (ptk_entry PTK_PTKSTART sm\<lparr>PTKRequest := False, TimeoutEvt := False, alt_snonce_valid := False, TimeoutCtr := TimeoutCtr sm + 1\<rparr>)
     (sm_WPA_PTK_PTKSTART_Enter env sm)"
  unfolding sm_WPA_PTK_PTKSTART_Enter_def Let_def by (auto intro: quiets)

lemma enter_ptkstart:
  "wpa_ptk_state (sm_WPA_PTK_PTKSTART_Enter env sm) = PTK_PTKSTART" "openings (sm_WPA_PTK_PTKSTART_Enter env sm) = openings sm"
  using quiet_rx[OF ptkstart_quiet[of sm env]] by (simp_all add: ptk_entry_def openings_def)

lemma enter_calc:
  "wpa_ptk_state (sm_WPA_PTK_PTKCALCNEGOTIATING_Enter env sm) = PTK_PTKCALCNEGOTIATING"
  "openings (sm_WPA_PTK_PTKCALCNEGOTIATING_Enter env sm) = openings sm"
  "\<not> EAPOLKeyReceived (sm_WPA_PTK_PTKCALCNEGOTIATING_Enter env sm)"
proof -
  define sm0 where "sm0 = ptk_entry PTK_PTKCALCNEGOTIATING sm\<lparr>EAPOLKeyReceived := False, update_snonce := False\<rparr>"
  have s0: "wpa_ptk_state sm0 = PTK_PTKCALCNEGOTIATING" "openings sm0 = openings sm" "\<not> EAPOLKeyReceived sm0"
    by (simp_all add: sm0_def ptk_entry_def openings_def)
  show "wpa_ptk_state (sm_WPA_PTK_PTKCALCNEGOTIATING_Enter env sm) = PTK_PTKCALCNEGOTIATING"
    "openings (sm_WPA_PTK_PTKCALCNEGOTIATING_Enter env sm) = openings sm"
    "\<not> EAPOLKeyReceived (sm_WPA_PTK_PTKCALCNEGOTIATING_Enter env sm)"
    using s0 unfolding sm_WPA_PTK_PTKCALCNEGOTIATING_Enter_def Let_def sm0_def[symmetric]
    by (cases "matching_pmk env sm0 (SNonce sm0) (last_rx_eapol_key sm0)"; cases "wpa_key_mgmt_wpa_psk (ws_wpa_key_mgmt sm0)"; cases "we_psks env";
        simp add: emit_out_def openings_def)+
qed

lemma enter_calc2:
  "wpa_ptk_state (sm_WPA_PTK_PTKCALCNEGOTIATING2_Enter sm) = PTK_PTKCALCNEGOTIATING2"
  "openings (sm_WPA_PTK_PTKCALCNEGOTIATING2_Enter sm) = openings sm" "rx_part (sm_WPA_PTK_PTKCALCNEGOTIATING2_Enter sm) = rx_part sm"
  by (simp_all add: sm_WPA_PTK_PTKCALCNEGOTIATING2_Enter_def ptk_entry_def rx_simps)

lemma enter_initnegotiating:
  "wpa_ptk_state (sm_WPA_PTK_PTKINITNEGOTIATING_Enter env sm) = PTK_PTKINITNEGOTIATING"
  "openings (sm_WPA_PTK_PTKINITNEGOTIATING_Enter env sm) = openings sm" "rx_part (sm_WPA_PTK_PTKINITNEGOTIATING_Enter env sm) = rx_part sm"
  using quiet_rx[OF initnegotiating_quiet[of sm env]] by (simp_all add: ptk_entry_def rx_simps)

lemma enter_initdone:
  "wpa_ptk_state (sm_WPA_PTK_PTKINITDONE_Enter env sm) = PTK_PTKINITDONE"
  "\<exists>xs. openings (sm_WPA_PTK_PTKINITDONE_Enter env sm) = openings sm @ xs
     \<and> (\<forall>x\<in>set xs. (\<exists>v. x = SetEapol v 1) \<or> x = InstallKey (wpa_cipher_to_alg (ws_pairwise sm)) (take (wpa_cipher_key_len (ws_pairwise sm)) (tk (PTK sm))))"
proof -
  define sm0 where "sm0 = ptk_entry PTK_PTKINITDONE sm\<lparr>EAPOLKeyReceived := False\<rparr>"
  have s0: "wpa_ptk_state sm0 = PTK_PTKINITDONE" "openings sm0 = openings sm" "PTK sm0 = PTK sm" "ws_pairwise sm0 = ws_pairwise sm"
    by (simp_all add: sm0_def ptk_entry_def openings_def)
  show "wpa_ptk_state (sm_WPA_PTK_PTKINITDONE_Enter env sm) = PTK_PTKINITDONE"
    "\<exists>xs. openings (sm_WPA_PTK_PTKINITDONE_Enter env sm) = openings sm @ xs
     \<and> (\<forall>x\<in>set xs. (\<exists>v. x = SetEapol v 1) \<or> x = InstallKey (wpa_cipher_to_alg (ws_pairwise sm)) (take (wpa_cipher_key_len (ws_pairwise sm)) (tk (PTK sm))))"
    using s0 unfolding sm_WPA_PTK_PTKINITDONE_Enter_def Let_def sm0_def[symmetric]
    by (cases "Pair sm0"; cases "set_key_result env (ws_outs sm0) = 0"; cases "ac_wpa_ptk_rekey (we_conf env) = 0";
        cases "wpa_key_mgmt_wpa_psk (ws_wpa_key_mgmt sm0)"; cases "ws_wpa sm0 = WPA_VERSION_WPA";
        simp add: entry_simps openings_def)+
qed

lemma rx_part_reply: "rx_part a = rx_part b \<Longrightarrow> pairwise_reply a = pairwise_reply b \<and> MICVerified a = MICVerified b \<and> update_snonce a = update_snonce b"
  by (simp add: rx_part_def pairwise_reply_def)

lemma group_side_waiting:
  assumes "group_side a b"
  shows "waiting b \<Longrightarrow> waiting a \<and> rx_part b = rx_part a" "openings b = openings a" "wpa_ptk_state b = wpa_ptk_state a"
  using assms by (auto simp: waiting_def group_side_def pairwise_part_def pairwise_reply_def rx_part_def)

lemmas enters = enter_initialize enter_disconnect enter_disconnected enter_authentication enter_authentication2 enter_initpmk
  enter_initpsk enter_ptkstart enter_calc enter_calc2 enter_initnegotiating

lemma openings_count_failure: "openings (count_failure sm) = openings sm"
  by (simp add: count_failure_def openings_def)

text \<open>\<open>calm a b\<close>: nothing was opened, and no reply is waiting unless one was, in which case it is untouched.\<close>

definition calm :: "wpa_sm \<Rightarrow> wpa_sm \<Rightarrow> bool" where
  "calm a b = (openings b = openings a \<and>
     (waiting b \<longrightarrow> waiting a \<and> rx_part b = rx_part a \<and> (wpa_ptk_state b = PTK_PTKCALCNEGOTIATING \<or> wpa_ptk_state b = wpa_ptk_state a \<or> MICVerified b
       \<or> wpa_ptk_state a = PTK_PTKCALCNEGOTIATING2)))"

lemma calm_simps:
  "openings b = openings a \<Longrightarrow> \<not> late_state (wpa_ptk_state b) \<Longrightarrow> calm a b"
  "openings b = openings a \<Longrightarrow> \<not> EAPOLKeyReceived b \<Longrightarrow> calm a b"
  by (auto simp: calm_def waiting_def pairwise_reply_def)

text \<open>The pairwise machine is calm, but for one transition.\<close>

definition completes :: "wpa_sm \<Rightarrow> bool" where
  "completes sm = (\<not> Init sm \<and> \<not> Disconnect sm \<and> \<not> DeauthenticationRequest sm \<and> \<not> AuthenticationRequest sm \<and> \<not> ReAuthenticationRequest sm \<and> \<not> PTKRequest sm
     \<and> wpa_ptk_state sm = PTK_PTKINITNEGOTIATING \<and> \<not> update_snonce sm \<and> pairwise_reply sm \<and> MICVerified sm)"

lemma calm_refl: "calm sm sm"
  by (simp add: calm_def)

lemma calm_enters:
  "calm sm (sm_WPA_PTK_INITIALIZE_Enter sm)" "calm sm (sm_WPA_PTK_DISCONNECT_Enter sm)" "calm sm (sm_WPA_PTK_DISCONNECT_Enter (count_failure sm))"
  "calm sm (sm_WPA_PTK_DISCONNECTED_Enter sm)" "calm sm (sm_WPA_PTK_AUTHENTICATION_Enter sm)" "calm sm (sm_WPA_PTK_AUTHENTICATION2_Enter env sm)"
  "calm sm (sm_WPA_PTK_INITPMK_Enter env sm)" "calm sm (sm_WPA_PTK_INITPSK_Enter env sm)" "calm sm (sm_WPA_PTK_PTKSTART_Enter env sm)"
  by (rule calm_simps(1); simp add: enters openings_count_failure late_state_def)+

lemma calm_calc: "calm sm (sm_WPA_PTK_PTKCALCNEGOTIATING_Enter env sm)"
  by (rule calm_simps(2)) (simp_all add: enters)

lemma calm_calc2: "wpa_ptk_state sm = PTK_PTKCALCNEGOTIATING \<Longrightarrow> MICVerified sm \<Longrightarrow> calm sm (sm_WPA_PTK_PTKCALCNEGOTIATING2_Enter sm)"
  using rx_part_reply[OF enter_calc2(3)[of sm]] by (simp add: calm_def waiting_def enters late_state_def)

lemma calm_initnegotiating:
  "wpa_ptk_state sm = PTK_PTKCALCNEGOTIATING2 \<or> wpa_ptk_state sm = PTK_PTKINITNEGOTIATING \<Longrightarrow> calm sm (sm_WPA_PTK_PTKINITNEGOTIATING_Enter env sm)"
  using rx_part_reply[OF enter_initnegotiating(3)[of env sm]] by (auto simp: calm_def waiting_def enters late_state_def)

lemma ptk_switch_calm:
  "\<not> (wpa_ptk_state sm = PTK_PTKINITNEGOTIATING \<and> \<not> update_snonce sm \<and> pairwise_reply sm \<and> MICVerified sm) \<Longrightarrow> calm sm (ptk_switch env sm)"
  unfolding ptk_switch_def
  by (cases "wpa_ptk_state sm") (auto simp: calm_refl calm_enters calm_calc calm_calc2 calm_initnegotiating)

lemma ptk_step_calm: "\<not> completes sm \<Longrightarrow> calm sm (sm_WPA_PTK_Step env sm)"
  unfolding sm_WPA_PTK_Step_def completes_def by (auto simp: calm_enters intro: ptk_switch_calm)

lemma ptk_step_completes: "completes sm \<Longrightarrow> sm_WPA_PTK_Step env sm = sm_WPA_PTK_PTKINITDONE_Enter env sm"
  unfolding sm_WPA_PTK_Step_def ptk_switch_def completes_def by simp

text \<open>No reply waiting: the loop opens nothing, and none is waiting afterwards.\<close>

lemma step_once_idle:
  assumes "\<not> waiting sm"
  shows "\<not> waiting (step_once env sm) \<and> openings (step_once env sm) = openings sm"
proof -
  have "\<not> waiting x \<and> openings x = openings sm \<Longrightarrow> \<not> waiting (sm_WPA_PTK_Step env x) \<and> openings (sm_WPA_PTK_Step env x) = openings sm" for x
    using ptk_step_calm[of x env] by (auto simp: calm_def completes_def waiting_def late_state_def)
  then show ?thesis
    by (rule step_once_inv[where P = "\<lambda>x. \<not> waiting x \<and> openings x = openings sm", rotated]) (use assms group_side_waiting(1,2) in auto)
qed

lemma loop_idle: "\<not> waiting sm \<Longrightarrow> \<not> waiting (wpa_sm_step env sm) \<and> openings (wpa_sm_step env sm) = openings sm"
  by (rule wpa_sm_step_invariant[where P = "\<lambda>x. \<not> waiting x \<and> openings x = openings sm"]) (use step_once_idle in auto)

text \<open>
  A reply that is waiting: the key that is installed is the one the reply was checked with.
\<close>

definition opened_by :: "wpa_sm \<Rightarrow> wpa_sm \<Rightarrow> bool" where
  "opened_by a b = (\<exists>xs. openings b = openings a @ xs
     \<and> (\<forall>x\<in>set xs. (\<exists>v. x = SetEapol v 1) \<or> x = InstallKey (wpa_cipher_to_alg (ws_pairwise a)) (take (wpa_cipher_key_len (ws_pairwise a)) (tk (PTK a)))))"

definition held :: "wpa_sm \<Rightarrow> wpa_sm \<Rightarrow> bool" where
  "held a b = ((waiting b \<longrightarrow> rx_part b = rx_part a \<and> openings b = openings a \<and> (wpa_ptk_state b = PTK_PTKCALCNEGOTIATING \<or> MICVerified b \<or> update_snonce b))
     \<and> (openings b = openings a \<or> MICVerified a \<and> opened_by a b))"

lemma held_ptk_step:
  assumes "held a sm"
  shows "held a (sm_WPA_PTK_Step env sm)"
proof (cases "completes sm")
  case True
  then have w: "waiting sm" "MICVerified sm" by (auto simp: completes_def waiting_def late_state_def)
  with assms have r: "rx_part sm = rx_part a" "openings sm = openings a" by (auto simp: held_def)
  then have "PTK sm = PTK a" "ws_pairwise sm = ws_pairwise a" "MICVerified a" using w(2)
    by (auto simp: rx_part_def wpa_state_machine.truncate_def)
  with enter_initdone[of env sm] r have "opened_by a (sm_WPA_PTK_PTKINITDONE_Enter env sm)" "\<not> waiting (sm_WPA_PTK_PTKINITDONE_Enter env sm)"
    by (auto simp: opened_by_def waiting_def late_state_def)
  with \<open>MICVerified a\<close> show ?thesis by (simp add: held_def ptk_step_completes[OF True])
next
  case False
  then show ?thesis
    using assms ptk_step_calm[OF False, of env]
    by (auto simp: held_def calm_def opened_by_def dest: rx_part_reply)
qed

lemma held_group_side: "held a b \<Longrightarrow> group_side b c \<Longrightarrow> held a c"
  using group_side_waiting[of b c] rx_part_reply[of c b]
  unfolding held_def opened_by_def by auto

lemma loop_held: "held a sm \<Longrightarrow> held a (wpa_sm_step env sm)"
  by (erule wpa_sm_step_invariant[where P = "held a"]) (rule step_once_inv[where P = "held a"], auto intro: held_group_side held_ptk_step)

lemma settled_ptk_step:
  assumes "running sm" "settled env sm"
  shows "sm_WPA_PTK_Step env sm = sm"
proof -
  have r: "upd_group (\<lambda>g. g\<lparr>gchanged := False\<rparr>) sm\<lparr>changed := False\<rparr> = sm"
    using assms(2) by (simp add: settled_def upd_group_def)
  define sm1 where "sm1 = sm_WPA_PTK_Step env sm"
  define sm2 where "sm2 = sm_WPA_PTK_GROUP_Step env sm1"
  have s1: "sm1 = sm \<or> steps_down sm sm1" unfolding sm1_def using assms(1) ptk_step_down unfolding running_def by blast
  then have "\<not> Init sm1" using assms(1) unfolding steps_down_def running_def by auto
  then have s2: "sm2 = sm1 \<or> steps_down sm1 sm2" unfolding sm2_def by (rule group_step_down)
  have "step_once env sm = wpa_group_sm_step env (\<lambda>s. s) sm2" unfolding step_once_def r sm1_def sm2_def ..
  then have "\<not> changed sm2" using assms(2) group_sm_step_changed(1)[of env sm2] by (simp add: settled_def)
  with s1 s2 show ?thesis unfolding sm1_def steps_down_def by auto
qed

lemma waiting_moves:
  assumes "waiting sm" "wpa_ptk_state sm = PTK_PTKCALCNEGOTIATING \<or> MICVerified sm \<or> update_snonce sm"
  shows "sm_WPA_PTK_Step env sm \<noteq> sm"
proof
  assume eq: "sm_WPA_PTK_Step env sm = sm"
  have late: "late_state (wpa_ptk_state (sm_WPA_PTK_Step env sm))" using assms(1) unfolding eq waiting_def by simp
  then have "sm_WPA_PTK_Step env sm = ptk_switch env sm"
    unfolding sm_WPA_PTK_Step_def by (auto simp: enters late_state_def split: if_splits)
  with eq have eq: "ptk_switch env sm = sm" by simp
  then have st: "wpa_ptk_state (ptk_switch env sm) = wpa_ptk_state sm" "EAPOLKeyReceived (ptk_switch env sm) = EAPOLKeyReceived sm" by simp_all
  consider "wpa_ptk_state sm = PTK_PTKCALCNEGOTIATING" | "wpa_ptk_state sm = PTK_PTKCALCNEGOTIATING2"
    | "wpa_ptk_state sm = PTK_PTKINITNEGOTIATING" "update_snonce sm \<or> MICVerified sm"
    using assms by (auto simp: waiting_def late_state_def)
  then show False
    using st assms(1) unfolding ptk_switch_def waiting_def
    by cases (auto simp: enters enter_initdone pairwise_reply_def split: if_splits)
qed

text \<open>After the loop no reply is waiting, whatever it started with.\<close>

lemma loop_consumes:
  assumes "running sm" "held a sm"
  shows "\<not> waiting (wpa_sm_step env sm)"
proof
  assume w: "waiting (wpa_sm_step env sm)"
  with loop_held[OF assms(2), of env] have "wpa_ptk_state (wpa_sm_step env sm) = PTK_PTKCALCNEGOTIATING \<or> MICVerified (wpa_sm_step env sm)
      \<or> update_snonce (wpa_sm_step env sm)"
    by (simp add: held_def)
  with w have "sm_WPA_PTK_Step env (wpa_sm_step env sm) \<noteq> wpa_sm_step env sm" by (rule waiting_moves)
  with settled_ptk_step[OF wpa_sm_step_running[OF assms(1)] wpa_sm_step_settled[OF assms(1)]] show False by blast
qed

subsection \<open>Events\<close>

text \<open>
  What can happen to a station. Besides the handlers: other stations of the group change it, mark this station for a new group key, or have it
  disconnected when the group fails; the elements of a new association are accepted; another station's \<open>wpa_group_update_sta\<close> marks this one.
\<close>

datatype sm_event = Receive bytes | EapolTimeout | TxStatus bool | TimerRekeyPtk | TimerRekeyGtk | TimerRekeyGmk | GtkRekey | AuthEvent wpa_event
  | Associated | NoWpa | Notify | TimerCallStep | MarkedForUpdate | OtherStations wpa_group | GroupFailed | Validated wpa_state_machine

definition set_validated :: "wpa_state_machine \<Rightarrow> wpa_sm \<Rightarrow> wpa_sm" where
  "set_validated v sm = sm\<lparr>ws_wpa_key_mgmt := ws_wpa_key_mgmt v, ws_pairwise := ws_pairwise v, ws_wpa := ws_wpa v,
     ws_mgmt_frame_prot := ws_mgmt_frame_prot v, ws_pmksa := ws_pmksa v, ws_wpa_ie := ws_wpa_ie v, ws_wpa_ie_len := ws_wpa_ie_len v\<rparr>"

fun handle :: "wpa_env \<Rightarrow> sm_event \<Rightarrow> wpa_sm \<Rightarrow> wpa_sm" where
  "handle env (Receive data) sm = wpa_receive env data sm"
| "handle env EapolTimeout sm = wpa_send_eapol_timeout env sm"
| "handle env (TxStatus ack) sm = wpa_auth_eapol_key_tx_status ack sm"
| "handle env TimerRekeyPtk sm = wpa_rekey_ptk env sm"
| "handle env TimerRekeyGtk sm = wpa_rekey_gtk env sm"
| "handle env TimerRekeyGmk sm = wpa_rekey_gmk env sm"
| "handle env GtkRekey sm = wpa_gtk_rekey env sm"
| "handle env (AuthEvent ev) sm = wpa_auth_sm_event env ev sm"
| "handle env Associated sm = wpa_auth_sta_associated env sm"
| "handle env NoWpa sm = wpa_auth_sta_no_wpa sm"
| "handle env Notify sm = wpa_auth_sm_notify sm"
| "handle env TimerCallStep sm = wpa_sm_call_step env sm"
| "handle env MarkedForUpdate sm = wpa_group_update_sta (wpa_sm_step env) sm"
| "handle env (OtherStations g) sm = (if GInit g then sm else sm\<lparr>group := g\<rparr>)"
| "handle env GroupFailed sm = sm\<lparr>Disconnect := True\<rparr>"
| "handle env (Validated v) sm = set_validated v sm"

text \<open>
  The states of a station between events. The results of calls may be others in each event.
\<close>

inductive station :: "wpa_sm \<Rightarrow> bool" where
  station_init: "wpa_auth_sta_init True addr g = Some sm \<Longrightarrow> \<not> GInit g \<Longrightarrow> station sm"
| station_event: "station sm \<Longrightarrow> station (handle env ev sm)"

definition rest :: "wpa_sm \<Rightarrow> bool" where
  "rest sm = (running sm \<and> \<not> waiting sm \<and> counters_ok (key_replay sm))"

definition undisturbed :: "wpa_sm \<Rightarrow> wpa_sm \<Rightarrow> bool" where
  "undisturbed a b = (rest b \<and> openings b = openings a)"

lemma counters_ok_loop: "counters_ok (key_replay sm) \<Longrightarrow> counters_ok (key_replay (wpa_sm_step env sm))"
  using replay_loop[of sm env] counters_ok_next by (auto simp: uses_counters_def)

lemma undisturbed_loop: "rest sm \<Longrightarrow> undisturbed sm (wpa_sm_step env sm)"
  by (simp add: rest_def undisturbed_def loop_idle wpa_sm_step_running counters_ok_loop)

lemma undisturbed_loop': "undisturbed a sm \<Longrightarrow> undisturbed a (wpa_sm_step env sm)"
  using undisturbed_loop[of sm env] by (simp add: undisturbed_def)

lemma undisturbed_refl: "rest sm \<Longrightarrow> undisturbed sm sm"
  by (simp add: undisturbed_def)

lemmas rest_simps = undisturbed_def rest_def running_def waiting_def pairwise_reply_def openings_def

lemma undisturbed_upds:
  "undisturbed a sm \<Longrightarrow> \<not> opens x \<Longrightarrow> undisturbed a (emit_out x sm)"
  "undisturbed a sm \<Longrightarrow> GInit (f (group sm)) = GInit (group sm) \<Longrightarrow> undisturbed a (upd_group f sm)"
  "undisturbed a sm \<Longrightarrow> undisturbed a (sm\<lparr>pending_1_of_4_timeout := b\<rparr>)"
  "undisturbed a sm \<Longrightarrow> undisturbed a (sm\<lparr>TimeoutEvt := b\<rparr>)"
  "undisturbed a sm \<Longrightarrow> undisturbed a (sm\<lparr>started := b\<rparr>)"
  "undisturbed a sm \<Longrightarrow> counters_ok kr \<Longrightarrow> undisturbed a (sm\<lparr>key_replay := kr\<rparr>)"
  "undisturbed a sm \<Longrightarrow> undisturbed a (sm\<lparr>ReAuthenticationRequest := b\<rparr>)"
  "undisturbed a sm \<Longrightarrow> undisturbed a (sm\<lparr>AuthenticationRequest := b\<rparr>)"
  "undisturbed a sm \<Longrightarrow> undisturbed a (sm\<lparr>DeauthenticationRequest := b\<rparr>)"
  "undisturbed a sm \<Longrightarrow> undisturbed a (sm\<lparr>PTK_valid := b\<rparr>)"
  "undisturbed a sm \<Longrightarrow> undisturbed a (sm\<lparr>PTK := k\<rparr>)"
  "undisturbed a sm \<Longrightarrow> undisturbed a (sm\<lparr>pairwise_set := b\<rparr>)"
  "undisturbed a sm \<Longrightarrow> undisturbed a (sm\<lparr>PTKRequest := b\<rparr>)"
  "undisturbed a sm \<Longrightarrow> undisturbed a (sm\<lparr>PtkGroupInit := b\<rparr>)"
  "undisturbed a sm \<Longrightarrow> undisturbed a (sm\<lparr>GUpdateStationKeys := b\<rparr>)"
  "undisturbed a sm \<Longrightarrow> undisturbed a (sm\<lparr>Disconnect := b\<rparr>)"
  "undisturbed a sm \<Longrightarrow> undisturbed a (sm\<lparr>MICVerified := b\<rparr>)"
  "undisturbed a sm \<Longrightarrow> undisturbed a (sm\<lparr>update_snonce := b\<rparr>)"
  "undisturbed a sm \<Longrightarrow> undisturbed a (sm\<lparr>alt_SNonce := ys\<rparr>)"
  "undisturbed a sm \<Longrightarrow> undisturbed a (sm\<lparr>alt_snonce_valid := b\<rparr>)"
  "undisturbed a sm \<Longrightarrow> undisturbed a (sm\<lparr>alt_replay_counter := ys\<rparr>)"
  "undisturbed a sm \<Longrightarrow> undisturbed a (sm\<lparr>SNonce := ys\<rparr>)"
  "undisturbed a sm \<Longrightarrow> undisturbed a (sm\<lparr>req_replay_counter_used := b\<rparr>)"
  "undisturbed a sm \<Longrightarrow> undisturbed a (sm\<lparr>req_replay_counter := ys\<rparr>)"
  "undisturbed a sm \<Longrightarrow> undisturbed a (sm\<lparr>prev_key_replay := kr\<rparr>)"
  "undisturbed a sm \<Longrightarrow> undisturbed a (sm\<lparr>last_rx_eapol_key := ys\<rparr>)"
  "undisturbed a sm \<Longrightarrow> undisturbed a (sm\<lparr>dot11RSNAStatsTKIPRemoteMICFailures := w\<rparr>)"
  by (simp_all add: rest_simps upd_group_def emit_out_def)

lemma undisturbed_quiet: "undisturbed a b \<Longrightarrow> quiet b c \<Longrightarrow> undisturbed a c"
  by (erule quietE) (simp add: rest_simps openings_quiet gctl_def counters_ok_next)

lemma undisturbed_set_validated: "undisturbed a sm \<Longrightarrow> undisturbed a (set_validated v sm)"
  by (simp add: rest_simps set_validated_def)

lemma undisturbed_remove_ptk: "undisturbed a sm \<Longrightarrow> undisturbed a (wpa_remove_ptk sm)"
  unfolding wpa_remove_ptk_def Let_def by (intro undisturbed_upds) simp_all

lemma undisturbed_group_done: "undisturbed a sm \<Longrightarrow> undisturbed a (group_done sm)"
  unfolding group_done_def by (auto intro!: undisturbed_upds)

lemma step_once_ginit: "GInit (group (step_once env sm)) = GInit (group sm)"
proof -
  define sm0 where "sm0 = upd_group (\<lambda>g. g\<lparr>gchanged := False\<rparr>) sm\<lparr>changed := False\<rparr>"
  define sm1 where "sm1 = sm_WPA_PTK_Step env sm0"
  define sm2 where "sm2 = sm_WPA_PTK_GROUP_Step env sm1"
  have s0: "GInit (group sm0) = GInit (group sm)" by (simp add: sm0_def upd_group_def)
  have "GInit (group (sm_WPA_PTK_INITIALIZE_Enter sm0)) = GInit (group sm0)"
    unfolding sm_WPA_PTK_INITIALIZE_Enter_def Let_def
    by (cases "Init sm0"; cases "GUpdateStationKeys sm0"; cases "ws_wpa sm0 = WPA_VERSION_WPA"; cases "wpa_key_mgmt_wpa_psk (ws_wpa_key_mgmt sm0)")
      (simp_all add: entry_simps)
  then have s1: "GInit (group sm1) = GInit (group sm0)"
    using ptk_step_down[of sm0 env] unfolding sm1_def steps_down_def by (cases "Init sm0") (auto simp: sm_WPA_PTK_Step_def)
  have s2: "GInit (group sm2) = GInit (group sm1)"
  proof (cases "Init sm1")
    case True
    then show ?thesis by (simp add: sm2_def sm_WPA_PTK_GROUP_Step_def sm_WPA_PTK_GROUP_IDLE_Enter_def group_entry_def Let_def)
  next
    case False
    with group_step_down[of sm1 env] show ?thesis unfolding sm2_def steps_down_def by auto
  qed
  show ?thesis
    unfolding step_once_def sm0_def[symmetric] sm1_def[symmetric] sm2_def[symmetric] group_sm_step_changed using s0 s1 s2 by simp
qed

lemma loop_ginit: "GInit (group (wpa_sm_step env sm)) = GInit (group sm)"
  by (rule wpa_sm_step_invariant[where P = "\<lambda>x. GInit (group x) = GInit (group sm)"]) (simp_all add: step_once_ginit)

lemma undisturbed_start: "undisturbed a sm \<Longrightarrow> undisturbed a (start_machines env sm)"
  using loop_idle[of "sm\<lparr>started := True, Init := True\<rparr>" env] loop_ginit[of env "sm\<lparr>started := True, Init := True\<rparr>"]
  counters_ok_loop[of "sm\<lparr>started := True, Init := True\<rparr>" env]
  unfolding start_machines_def by (simp add: rest_simps)

lemma undisturbed_associated: "undisturbed a sm \<Longrightarrow> undisturbed a (wpa_auth_sta_associated env sm)"
  unfolding wpa_auth_sta_associated_def by (auto intro!: undisturbed_loop' undisturbed_upds undisturbed_start counters_ok_none)

lemma undisturbed_event: "undisturbed a sm \<Longrightarrow> undisturbed a (wpa_auth_sm_event env ev sm)"
  unfolding wpa_auth_sm_event_def event_request_def cancel_group_update_def Let_def
  by (cases ev) (auto intro!: undisturbed_loop' undisturbed_upds undisturbed_start undisturbed_remove_ptk undisturbed_group_done)

lemma undisturbed_disconnect: "undisturbed a sm \<Longrightarrow> undisturbed a (wpa_sta_disconnect env sm)"
  unfolding wpa_sta_disconnect_def by (auto intro!: undisturbed_event undisturbed_upds)

lemma undisturbed_update_sta: "undisturbed a sm \<Longrightarrow> undisturbed a (wpa_group_update_sta (wpa_sm_step env) sm)"
  unfolding wpa_group_update_sta_def by (auto intro!: undisturbed_loop' undisturbed_upds)

lemma undisturbed_gtk_update: "undisturbed a sm \<Longrightarrow> undisturbed a (snd (wpa_gtk_update env sm))"
  by (erule undisturbed_quiet) (rule gtk_update_quiet)

lemma undisturbed_config: "undisturbed a sm \<Longrightarrow> undisturbed a (snd (wpa_group_config_group_keys env sm))"
  by (erule undisturbed_quiet) (rule quiet_snds, rule quiet_refl)

lemma undisturbed_setkeysdone:
  assumes "undisturbed a sm"
  shows "undisturbed a (wpa_group_setkeysdone env sm)"
proof -
  define sm1 where "sm1 = upd_group (\<lambda>g. g\<lparr>gchanged := True, wpa_group_state := SETKEYSDONE\<rparr>) sm"
  obtain ok sm2 where c: "wpa_group_config_group_keys env sm1 = (ok, sm2)" by fastforce
  have "undisturbed a sm1" unfolding sm1_def using assms by (rule undisturbed_upds) simp
  then have "undisturbed a sm2" using undisturbed_config[of a sm1 env] c by simp
  then show ?thesis
    unfolding wpa_group_setkeysdone_def Let_def sm1_def[symmetric] c wpa_group_fatal_failure_def by (auto intro!: undisturbed_upds)
qed

lemma undisturbed_setkeys: "undisturbed a sm \<Longrightarrow> undisturbed a (wpa_group_setkeys env (wpa_sm_step env) sm)"
  unfolding wpa_group_setkeys_def Let_def
  by (intro undisturbed_update_sta undisturbed_upds undisturbed_gtk_update) (simp_all add: swap_keys_def)

lemma undisturbed_rekey_once: "undisturbed a sm \<Longrightarrow> undisturbed a (rekey_once env sm)"
  unfolding rekey_once_def wpa_group_sm_step_def wpa_group_gtk_init_def Let_def
  by (auto intro!: undisturbed_setkeys undisturbed_setkeysdone undisturbed_gtk_update undisturbed_upds)

lemma undisturbed_rekey_loop: "undisturbed a sm \<Longrightarrow> undisturbed a (rekey_loop env sm)"
proof (induction env sm rule: rekey_loop.induct)
  case (1 env sm)
  then show ?case using undisturbed_rekey_once[OF 1(2), of env] by (subst rekey_loop.simps) (auto simp: Let_def)
qed

lemma undisturbed_rekey_gtk: "undisturbed a sm \<Longrightarrow> undisturbed a (wpa_rekey_gtk env sm)"
  unfolding wpa_rekey_gtk_def Let_def by (auto intro!: undisturbed_upds undisturbed_rekey_loop)

lemma undisturbed_gtk_rekey: "undisturbed a sm \<Longrightarrow> undisturbed a (wpa_gtk_rekey env sm)"
  unfolding wpa_gtk_rekey_def gtk_rekey_round_def
  by (intro undisturbed_config undisturbed_gtk_update undisturbed_upds) (simp_all add: swap_keys_def)

lemma undisturbed_rekey_gmk:
  assumes "undisturbed a sm"
  shows "undisturbed a (wpa_rekey_gmk env sm)"
proof -
  obtain r sm' where g: "get_random env 32 sm = (r, sm')" by fastforce
  then have "undisturbed a sm'" using assms by (blast intro: undisturbed_quiet quiet_get_random quiet_refl)
  then show ?thesis unfolding wpa_rekey_gmk_def Let_def g by (auto intro!: undisturbed_upds split: option.split)
qed

lemma undisturbed_no_wpa: "undisturbed a sm \<Longrightarrow> undisturbed a (wpa_auth_sta_no_wpa sm)"
  by (simp add: rest_simps wpa_auth_sta_no_wpa_def)

text \<open>Every event but a received frame opens nothing.\<close>

lemma undisturbed_handle:
  assumes "rest sm" "\<And>data. ev \<noteq> Receive data"
  shows "undisturbed sm (handle env ev sm)"
proof -
  note u = undisturbed_refl[OF assms(1)]
  show ?thesis
  proof (cases ev)
    case (Receive data)
    then show ?thesis using assms(2) by blast
  next
    case (OtherStations g)
    then show ?thesis using assms(1) by (simp add: rest_simps)
  qed (auto simp: wpa_send_eapol_timeout_def wpa_auth_eapol_key_tx_status_def wpa_rekey_ptk_def wpa_request_new_ptk_def
      wpa_auth_sm_notify_def wpa_sm_call_step_def u undisturbed_no_wpa
      intro!: undisturbed_loop' undisturbed_upds undisturbed_rekey_gtk undisturbed_rekey_gmk undisturbed_gtk_rekey undisturbed_event
        undisturbed_associated undisturbed_update_sta undisturbed_set_validated)
qed

subsection \<open>Received frames\<close>

text \<open>
  The frame is a reply of the pairwise handshake, answers a pending message, and its integrity code was made with a key that the
  station's state holds, or that follows from the earlier nonce.
\<close>

definition verified_reply :: "wpa_env \<Rightarrow> bytes \<Rightarrow> wpa_ptk \<Rightarrow> wpa_sm \<Rightarrow> bool" where
  "verified_reply env data ptk sm =
    (key_info data AND WPA_KEY_INFO_KEY_TYPE \<noteq> 0 \<and> key_info data AND WPA_KEY_INFO_REQUEST = 0 \<and> key_info data AND WPA_KEY_INFO_MIC \<noteq> 0
     \<and> wpa_verify_key_mic (we_crypto env) (ws_wpa_key_mgmt sm) ptk data
     \<and> (wpa_replay_counter_valid (key_replay sm) (replay_counter data) \<or> alt_snonce_valid sm \<and> replay_counter data = alt_replay_counter sm)
     \<and> PTK_valid sm
     \<and> (ptk = PTK sm \<or> alt_snonce_valid sm \<and> (\<exists>pmk\<in>set (candidate_pmks env sm). ptk = wpa_derive_ptk env sm (alt_SNonce sm) (take PMK_LEN pmk))))"

lemma gate_cases:
  "(if r then if b then None else Some x else if c then Some x else if d then Some y else if m \<and> e \<and> f \<and> g then Some x else None) = Some z
   \<Longrightarrow> z = x \<and> (r \<or> c \<or> e \<and> g) \<or> z = y"
  by (auto split: if_splits)

lemma replay_gate_cases:
  "replay_gate msg data sm = Some sm1 \<Longrightarrow> sm1 = sm \<and> (key_info data AND WPA_KEY_INFO_REQUEST \<noteq> 0 \<or> wpa_replay_counter_valid (key_replay sm) (replay_counter data)
        \<or> alt_snonce_valid sm \<and> replay_counter data = alt_replay_counter sm)
    \<or> sm1 = sm\<lparr>update_snonce := True, alt_SNonce := SNonce sm, alt_snonce_valid := True, alt_replay_counter := fst (hd (key_replay sm))\<rparr>"
  unfolding replay_gate_def Let_def by (rule gate_cases)

lemma msg2_gate_cases:
  assumes "undisturbed a sm"
  shows "case msg2_gate env data sm of Inl sm' \<Rightarrow> undisturbed a sm'
    | Inr sm' \<Rightarrow> sm' = sm \<and> (wpa_ptk_state sm = PTK_PTKSTART \<or> wpa_ptk_state sm = PTK_PTKCALCNEGOTIATING \<or> update_snonce sm)"
  using assms undisturbed_disconnect[OF assms, of env]
  unfolding msg2_gate_def Let_def by (auto split: option.split)

lemma msg_gate_cases:
  assumes "undisturbed a sm"
  shows "case msg_gate env msg data sm of Inl sm' \<Rightarrow> undisturbed a sm'
    | Inr sm' \<Rightarrow> sm' = sm \<and> (msg = PAIRWISE_2 \<longrightarrow> wpa_ptk_state sm = PTK_PTKSTART \<or> wpa_ptk_state sm = PTK_PTKCALCNEGOTIATING \<or> update_snonce sm)
         \<and> (msg = PAIRWISE_4 \<longrightarrow> PTK_valid sm)"
  using assms msg2_gate_cases[OF assms, of env data] unfolding msg_gate_def by (cases msg) (auto split: sum.splits)

lemma find_set: "find P xs = Some x \<Longrightarrow> x \<in> set xs \<and> P x"
  by (induction xs) (auto split: if_splits)

lemma mic_gate_cases:
  assumes "undisturbed a sm"
  shows "case mic_gate env msg data sm of Inl sm' \<Rightarrow> undisturbed a sm'
    | Inr sm' \<Rightarrow> undisturbed a sm' \<and> wpa_ptk_state sm' = wpa_ptk_state sm \<and> update_snonce sm' = update_snonce sm \<and> ws_pairwise sm' = ws_pairwise sm
         \<and> key_replay sm' = key_replay sm
         \<and> (if PTK_valid sm \<and> \<not> update_snonce sm
            then MICVerified sm' \<and> wpa_verify_key_mic (we_crypto env) (ws_wpa_key_mgmt sm) (PTK sm') data
              \<and> (PTK sm' = PTK sm \<or> alt_snonce_valid sm
                   \<and> (\<exists>pmk\<in>set (candidate_pmks env sm). PTK sm' = wpa_derive_ptk env sm (alt_SNonce sm) (take PMK_LEN pmk)))
            else \<not> MICVerified sm')"
proof -
  define sm0 where "sm0 = sm\<lparr>MICVerified := False\<rparr>"
  have u: "undisturbed a sm0" unfolding sm0_def using assms by (rule undisturbed_upds)
  have eqs: "PTK_valid sm0 = PTK_valid sm" "update_snonce sm0 = update_snonce sm" "ws_wpa_key_mgmt sm0 = ws_wpa_key_mgmt sm" "PTK sm0 = PTK sm"
    "wpa_ptk_state sm0 = wpa_ptk_state sm" "ws_pairwise sm0 = ws_pairwise sm" "alt_snonce_valid sm0 = alt_snonce_valid sm" "\<not> MICVerified sm0"
    "candidate_pmks env sm0 = candidate_pmks env sm" "wpa_derive_ptk env sm0 = wpa_derive_ptk env sm" "alt_SNonce sm0 = alt_SNonce sm"
    "key_replay sm0 = key_replay sm"
    by (simp_all add: sm0_def candidate_pmks_def wpa_derive_ptk_def fun_eq_iff)
  have alt: "wpa_try_alt_snonce env data sm0 = Some sm1 \<Longrightarrow> undisturbed a sm1 \<and> wpa_ptk_state sm1 = wpa_ptk_state sm \<and> update_snonce sm1 = update_snonce sm
      \<and> ws_pairwise sm1 = ws_pairwise sm \<and> key_replay sm1 = key_replay sm \<and> wpa_verify_key_mic (we_crypto env) (ws_wpa_key_mgmt sm) (PTK sm1) data
      \<and> (\<exists>pmk\<in>set (candidate_pmks env sm). PTK sm1 = wpa_derive_ptk env sm (alt_SNonce sm) (take PMK_LEN pmk))" for sm1
    unfolding wpa_try_alt_snonce_def matching_pmk_def
    by (auto split: option.splits dest!: find_set intro!: undisturbed_upds simp: u eqs)
  have acc: "undisturbed a s \<Longrightarrow> undisturbed a (mic_accepted s)" "wpa_ptk_state (mic_accepted s) = wpa_ptk_state s" "update_snonce (mic_accepted s) = update_snonce s"
    "ws_pairwise (mic_accepted s) = ws_pairwise s" "MICVerified (mic_accepted s)" "PTK (mic_accepted s) = PTK s" "key_replay (mic_accepted s) = key_replay s" for s
    unfolding mic_accepted_def by (intro undisturbed_upds; simp) (simp_all add: emit_out_def)
  show ?thesis
    unfolding mic_gate_def Let_def sm0_def[symmetric] eqs
    using alt by (auto simp: acc u eqs split: option.split)
qed

lemma undisturbed_error_report: "undisturbed a sm \<Longrightarrow> wpa_receive_error_report env grp sm = (r, sm') \<Longrightarrow> undisturbed a sm'"
  unfolding wpa_receive_error_report_def wpa_request_new_ptk_def by (auto split: if_splits intro!: undisturbed_upds)

lemma request_cases:
  assumes "undisturbed a sm"
  shows "case request_part env msg data sm of Inl s \<Rightarrow> undisturbed a s | Inr s \<Rightarrow> undisturbed a s"
proof -
  define sm1 where "sm1 = sm\<lparr>req_replay_counter_used := True, req_replay_counter := replay_counter data\<rparr>"
  have u: "undisturbed a sm1" unfolding sm1_def using assms by (intro undisturbed_upds)
  obtain r sm2 where e: "wpa_receive_error_report env (key_info data AND WPA_KEY_INFO_KEY_TYPE = 0) sm1 = (r, sm2)" by fastforce
  have u2: "undisturbed a sm2" using u e by (rule undisturbed_error_report)
  have u3: "undisturbed a (emit_out (Smk m x) sm1)" "undisturbed a (wpa_request_new_ptk sm1)" "undisturbed a (wpa_rekey_gtk env (emit_out (Cancel RekeyGtk) sm1))" for m x
    unfolding wpa_request_new_ptk_def by (intro undisturbed_upds undisturbed_rekey_gtk u; simp)+
  show ?thesis
    unfolding request_part_def Let_def sm1_def[symmetric] e prod.case
    by (simp add: u u2 u3 assms)
qed

lemma undisturbed_reply_part: "undisturbed a sm \<Longrightarrow> undisturbed a (reply_part msg data sm)"
  unfolding reply_part_def Let_def by (intro undisturbed_upds counters_ok_invalid) (simp_all add: undisturbed_def rest_def)

text \<open>The frame is handed to the machines.\<close>

lemma accept_frame_cases:
  assumes "undisturbed a sm"
    and "key_info data AND WPA_KEY_INFO_KEY_TYPE \<noteq> 0 \<and> key_info data AND WPA_KEY_INFO_REQUEST = 0 \<and> late_state (wpa_ptk_state sm)
      \<longrightarrow> wpa_ptk_state sm = PTK_PTKCALCNEGOTIATING \<or> MICVerified sm \<or> update_snonce sm"
  shows "undisturbed a (accept_frame env data sm)
    \<or> rest (accept_frame env data sm) \<and> MICVerified sm \<and> key_info data AND WPA_KEY_INFO_KEY_TYPE \<noteq> 0 \<and> key_info data AND WPA_KEY_INFO_REQUEST = 0
      \<and> opened_by (sm\<lparr>ws_outs := ws_outs a\<rparr>) (accept_frame env data sm)"
proof (cases "alloc env (ws_outs sm) 4")
  case False
  then show ?thesis unfolding accept_frame_def using undisturbed_upds(26)[OF assms(1), of "[]"] by simp
next
  case True
  define sm5 where "sm5 = sm\<lparr>last_rx_eapol_key := data, rx_eapol_key_secure := key_info data AND WPA_KEY_INFO_SECURE \<noteq> 0,
       EAPOLKeyReceived := True, EAPOLKeyPairwise := key_info data AND WPA_KEY_INFO_KEY_TYPE \<noteq> 0,
       EAPOLKeyRequest := key_info data AND WPA_KEY_INFO_REQUEST \<noteq> 0, SNonce := key_nonce data\<rparr>"
  have acc: "accept_frame env data sm = wpa_sm_step env sm5" using True by (simp add: accept_frame_def sm5_def)
  have run: "running sm5" "openings sm5 = openings a" "counters_ok (key_replay sm5)" using assms(1) by (simp_all add: sm5_def rest_simps)
  show ?thesis
  proof (cases "waiting sm5")
    case False
    then have "undisturbed a sm5" using run by (simp add: undisturbed_def rest_def)
    then show ?thesis unfolding acc using undisturbed_loop' by blast
  next
    case True
    then have info: "key_info data AND WPA_KEY_INFO_KEY_TYPE \<noteq> 0 \<and> key_info data AND WPA_KEY_INFO_REQUEST = 0 \<and> late_state (wpa_ptk_state sm)"
      by (simp add: sm5_def waiting_def pairwise_reply_def)
    with assms(2) have held: "held sm5 sm5" by (simp add: held_def sm5_def)
    have "rest (wpa_sm_step env sm5)" using loop_consumes[OF run(1) held] wpa_sm_step_running[OF run(1)] counters_ok_loop[OF run(3)] by (simp add: rest_def)
    moreover have "openings (wpa_sm_step env sm5) = openings a \<or> MICVerified sm \<and> opened_by (sm\<lparr>ws_outs := ws_outs a\<rparr>) (wpa_sm_step env sm5)"
      using loop_held[OF held, of env] run(2) by (auto simp: held_def sm5_def opened_by_def openings_def)
    ultimately show ?thesis unfolding acc undisturbed_def using info by blast
  qed
qed

lemma accept_frame_replay: "uses_counters counter_bound sm (accept_frame env data sm)"
proof (cases "alloc env (ws_outs sm) 4")
  case True
  define sm5 where "sm5 = sm\<lparr>last_rx_eapol_key := data, rx_eapol_key_secure := key_info data AND WPA_KEY_INFO_SECURE \<noteq> 0,
       EAPOLKeyReceived := True, EAPOLKeyPairwise := key_info data AND WPA_KEY_INFO_KEY_TYPE \<noteq> 0,
       EAPOLKeyRequest := key_info data AND WPA_KEY_INFO_REQUEST \<noteq> 0, SNonce := key_nonce data\<rparr>"
  have "key_replay sm5 = key_replay sm" by (simp add: sm5_def)
  then show ?thesis using True replay_loop[of sm5 env] by (simp add: accept_frame_def sm5_def uses_counters_def)
qed (simp add: accept_frame_def uses_none)

definition opened_with :: "wpa_ptk \<Rightarrow> wpa_sm \<Rightarrow> wpa_sm \<Rightarrow> bool" where
  "opened_with ptk a b = (\<exists>xs. openings b = openings a @ xs
     \<and> (\<forall>x\<in>set xs. (\<exists>v. x = SetEapol v 1) \<or> x = InstallKey (wpa_cipher_to_alg (ws_pairwise a)) (take (wpa_cipher_key_len (ws_pairwise a)) (tk ptk))))"

lemma msg_of_kinds:
  "info AND WPA_KEY_INFO_KEY_TYPE \<noteq> 0 \<Longrightarrow> info AND WPA_KEY_INFO_REQUEST = 0 \<Longrightarrow> msg_of info n = SMK_M3 \<or> msg_of info n = PAIRWISE_2 \<or> msg_of info n = PAIRWISE_4"
  "info AND WPA_KEY_INFO_REQUEST \<noteq> 0 \<Longrightarrow> msg_of info n \<noteq> PAIRWISE_2 \<and> msg_of info n \<noteq> PAIRWISE_4"
proof -
  have "info AND (WPA_KEY_INFO_SMK_MESSAGE OR WPA_KEY_INFO_REQUEST) = WPA_KEY_INFO_SMK_MESSAGE OR WPA_KEY_INFO_REQUEST \<Longrightarrow> info AND WPA_KEY_INFO_REQUEST = WPA_KEY_INFO_REQUEST"
  proof -
    assume "info AND (WPA_KEY_INFO_SMK_MESSAGE OR WPA_KEY_INFO_REQUEST) = WPA_KEY_INFO_SMK_MESSAGE OR WPA_KEY_INFO_REQUEST"
    then have "info AND (WPA_KEY_INFO_SMK_MESSAGE OR WPA_KEY_INFO_REQUEST) AND WPA_KEY_INFO_REQUEST = (WPA_KEY_INFO_SMK_MESSAGE OR WPA_KEY_INFO_REQUEST) AND WPA_KEY_INFO_REQUEST"
      by (simp only: and.assoc[symmetric])
    then show ?thesis by simp
  qed
  then show "info AND WPA_KEY_INFO_KEY_TYPE \<noteq> 0 \<Longrightarrow> info AND WPA_KEY_INFO_REQUEST = 0 \<Longrightarrow> msg_of info n = SMK_M3 \<or> msg_of info n = PAIRWISE_2 \<or> msg_of info n = PAIRWISE_4"
    "info AND WPA_KEY_INFO_REQUEST \<noteq> 0 \<Longrightarrow> msg_of info n \<noteq> PAIRWISE_2 \<and> msg_of info n \<noteq> PAIRWISE_4"
    unfolding msg_of_def by auto
qed

text \<open>From the check of the integrity code on, for a frame that is allowed in this state.\<close>

lemma receive_checked_cases:
  assumes u: "undisturbed a sm"
    and msg: "msg = msg_of (key_info data) n"
    and st: "msg = PAIRWISE_2 \<longrightarrow> wpa_ptk_state sm = PTK_PTKSTART \<or> wpa_ptk_state sm = PTK_PTKCALCNEGOTIATING \<or> update_snonce sm"
      "msg = PAIRWISE_4 \<longrightarrow> PTK_valid sm"
  shows "undisturbed a (receive_checked env msg data sm)
    \<or> rest (receive_checked env msg data sm) \<and> fresh_counters sm (receive_checked env msg data sm)
      \<and> (\<exists>ptk. opened_with ptk (sm\<lparr>ws_outs := ws_outs a\<rparr>) (receive_checked env msg data sm)
        \<and> key_info data AND WPA_KEY_INFO_KEY_TYPE \<noteq> 0 \<and> key_info data AND WPA_KEY_INFO_REQUEST = 0 \<and> PTK_valid sm \<and> \<not> update_snonce sm
        \<and> wpa_verify_key_mic (we_crypto env) (ws_wpa_key_mgmt sm) ptk data
        \<and> (ptk = PTK sm \<or> alt_snonce_valid sm \<and> (\<exists>pmk\<in>set (candidate_pmks env sm). ptk = wpa_derive_ptk env sm (alt_SNonce sm) (take PMK_LEN pmk))))"
proof (cases "mic_gate env msg data sm")
  case (Inl s)
  with mic_gate_cases[OF u, where env = env and msg = msg and data = data] show ?thesis by (simp add: receive_checked_def)
next
  case (Inr s)
  note mic = mic_gate_cases[OF u, where env = env and msg = msg and data = data, unfolded Inr sum.case]
  then have us: "undisturbed a s" by blast
  show ?thesis
  proof (cases "key_info data AND WPA_KEY_INFO_REQUEST = 0")
    case False
    define r where "r = request_part env msg data s"
    have ur: "case r of Inl s \<Rightarrow> undisturbed a s | Inr s \<Rightarrow> undisturbed a s" unfolding r_def using us by (rule request_cases)
    have "undisturbed a (accept_frame env data s')" if "undisturbed a s'" for s'
      using accept_frame_cases[OF that, where data = data and env = env] False by blast
    moreover have "receive_checked env msg data sm = (case r of Inl s' \<Rightarrow> s' | Inr s' \<Rightarrow> if msg = SMK_M3
        then emit_out (Smk SMK_m3 (key_data (ws_wpa_key_mgmt s') data)) s' else accept_frame env data s')"
      using False by (simp add: receive_checked_def Inr r_def)
    ultimately show ?thesis using ur by (cases r) (simp_all add: undisturbed_upds(1))
  next
    case True
    define s4 where "s4 = reply_part msg data s"
    have rc: "receive_checked env msg data sm = (if msg = SMK_M3 then emit_out (Smk SMK_m3 (key_data (ws_wpa_key_mgmt s4) data)) s4 else accept_frame env data s4)"
      using True by (simp add: receive_checked_def Inr s4_def)
    have u4: "undisturbed a s4" unfolding s4_def using us by (rule undisturbed_reply_part)
    have eq4: "wpa_ptk_state s4 = wpa_ptk_state s" "update_snonce s4 = update_snonce s" "MICVerified s4 = MICVerified s" "PTK s4 = PTK s" "ws_pairwise s4 = ws_pairwise s"
      by (simp_all add: s4_def reply_part_def Let_def)
    show ?thesis
    proof (cases "msg = SMK_M3")
      case True
      then show ?thesis unfolding rc using undisturbed_upds(1)[OF u4] by simp
    next
      case m3: False
      have "key_info data AND WPA_KEY_INFO_KEY_TYPE \<noteq> 0 \<and> key_info data AND WPA_KEY_INFO_REQUEST = 0 \<and> late_state (wpa_ptk_state s4)
          \<longrightarrow> wpa_ptk_state s4 = PTK_PTKCALCNEGOTIATING \<or> MICVerified s4 \<or> update_snonce s4"
        using msg_of_kinds(1)[of "key_info data" n] m3 st mic unfolding msg[symmetric] eq4 by (auto simp: late_state_def split: if_splits)
      moreover have "fresh_counters sm (accept_frame env data s4)"
        using mic u unfolding s4_def by (intro reply_part_fresh[OF accept_frame_replay]) (simp_all add: undisturbed_def rest_def)
      ultimately show ?thesis
        using accept_frame_cases[OF u4, of data env] m3 mic unfolding rc by (auto simp: eq4 opened_by_def opened_with_def openings_def split: if_splits)
    qed
  qed
qed

lemma receive_gated:
  assumes r: "rest sm" and s: "replay_gate msg data sm = Some s" "msg_gate env msg data s = Inr s'" "key_info data AND WPA_KEY_INFO_MIC \<noteq> 0"
    and msg: "msg = msg_of (key_info data) n"
  shows "undisturbed sm (receive_checked env msg data s')
    \<or> rest (receive_checked env msg data s') \<and> fresh_counters sm (receive_checked env msg data s') \<and> (\<exists>ptk. verified_reply env data ptk sm \<and> opened_with ptk sm (receive_checked env msg data s'))"
proof -
  have us: "undisturbed sm s"
    using replay_gate_cases[OF s(1)] undisturbed_refl[OF r] by (auto intro!: undisturbed_upds)
  from msg_gate_cases[OF us, where env = env and msg = msg and data = data] s(2)
  have gate: "s' = s" "msg = PAIRWISE_2 \<longrightarrow> wpa_ptk_state s = PTK_PTKSTART \<or> wpa_ptk_state s = PTK_PTKCALCNEGOTIATING \<or> update_snonce s"
    "msg = PAIRWISE_4 \<longrightarrow> PTK_valid s" by simp_all
  show ?thesis
  proof (cases "update_snonce s \<or> undisturbed sm (receive_checked env msg data s)")
    case True
    with receive_checked_cases[OF us msg gate(2,3), of env] gate(1) show ?thesis by blast
  next
    case False
    with replay_gate_cases[OF s(1)] have "s = sm" "key_info data AND WPA_KEY_INFO_REQUEST \<noteq> 0 \<or> wpa_replay_counter_valid (key_replay sm) (replay_counter data)
        \<or> alt_snonce_valid sm \<and> replay_counter data = alt_replay_counter sm" by auto
    with False receive_checked_cases[OF us msg gate(2,3), of env] gate(1) s(3) show ?thesis
      by (auto simp: verified_reply_def)
  qed
qed

text \<open>A received frame: either nothing is opened, or it is a verified reply and the key of the check is the one that is installed.\<close>

lemma receive_cases:
  assumes r: "rest sm"
  shows "undisturbed sm (wpa_receive env data sm)
    \<or> rest (wpa_receive env data sm) \<and> fresh_counters sm (wpa_receive env data sm) \<and> (\<exists>ptk. verified_reply env data ptk sm \<and> opened_with ptk sm (wpa_receive env data sm))"
proof -
  define msg where "msg = msg_of (key_info data) (key_data_length (ws_wpa_key_mgmt sm) data)"
  note u = undisturbed_refl[OF r]
  have unfold: "wpa_receive env data sm =
    (if ac_wpa (we_conf env) = 0 \<or> \<not> frame_ok sm data \<or> \<not> version_ok sm msg (key_info data) then sm
     else case replay_gate msg data sm of None \<Rightarrow> sm
        | Some s \<Rightarrow> (case msg_gate env msg data s of Inl s \<Rightarrow> s
            | Inr s \<Rightarrow> if key_info data AND WPA_KEY_INFO_ACK \<noteq> 0 \<or> key_info data AND WPA_KEY_INFO_MIC = 0 then s else receive_checked env msg data s))"
    unfolding wpa_receive_def Let_def msg_def ..
  show ?thesis
  proof (cases "ac_wpa (we_conf env) = 0 \<or> \<not> frame_ok sm data \<or> \<not> version_ok sm msg (key_info data) \<or> replay_gate msg data sm = None")
    case True
    then show ?thesis unfolding unfold using u by auto
  next
    case False
    then obtain s where s: "replay_gate msg data sm = Some s" by blast
    have us: "undisturbed sm s"
      using replay_gate_cases[OF s] u by (auto intro!: undisturbed_upds)
    note gate = msg_gate_cases[OF us, where env = env and msg = msg and data = data]
    show ?thesis
    proof (cases "msg_gate env msg data s")
      case (Inl s')
      then show ?thesis using gate False unfolding unfold s by simp
    next
      case (Inr s')
      with receive_gated[OF r s Inr _ msg_def] gate us False show ?thesis unfolding unfold s by auto
    qed
  qed
qed

lemma station_rest: "station sm \<Longrightarrow> rest sm"
proof (induction rule: station.induct)
  case (station_init addr g sm)
  then show ?case by (auto simp: wpa_auth_sta_init_def rest_simps counters_ok_none split: if_splits)
next
  case (station_event sm env ev)
  then show ?case using undisturbed_handle[of sm ev env] receive_cases[of sm env] by (cases ev) (auto simp: undisturbed_def)
qed

subsection \<open>A station that does not answer\<close>

definition req_part where
  "req_part sm = (AuthenticationRequest sm, ReAuthenticationRequest sm, PTKRequest sm, EAPOLKeyReceived sm, EAPOLKeyPairwise sm, EAPOLKeyRequest sm)"

definition no_requests :: "wpa_sm \<Rightarrow> bool" where
  "no_requests sm = (\<not> AuthenticationRequest sm \<and> \<not> ReAuthenticationRequest sm \<and> \<not> PTKRequest sm \<and> \<not> pairwise_reply sm)"

definition ended :: "wpa_sm \<Rightarrow> bool" where
  "ended sm = (wpa_ptk_state sm = PTK_DISCONNECT \<or> wpa_ptk_state sm = PTK_DISCONNECTED \<or> wpa_ptk_state sm = PTK_INITIALIZE)"

definition dropped :: "wpa_sm \<Rightarrow> bool" where
  "dropped sm = (\<not> PTK_valid sm \<and> Disconnected \<in> set (ws_outs sm))"

definition fading :: "int \<Rightarrow> wpa_sm \<Rightarrow> bool" where
  "fading c sm = (no_requests sm \<and> \<not> Init sm \<and> (DeauthenticationRequest sm \<longrightarrow> dropped sm)
     \<and> (wpa_ptk_state sm = PTK_PTKSTART \<and> TimeoutCtr sm = c \<and> \<not> TimeoutEvt sm \<or> ended sm \<and> dropped sm))"

lemma enter_disconnect_req:
  "req_part (sm_WPA_PTK_DISCONNECT_Enter sm) = req_part sm" "dropped (sm_WPA_PTK_DISCONNECT_Enter sm)"
  by (simp_all add: sm_WPA_PTK_DISCONNECT_Enter_def entry_simps req_part_def dropped_def Let_def)

lemma enter_disconnected_req:
  "req_part (sm_WPA_PTK_DISCONNECTED_Enter sm) = req_part sm" "dropped (sm_WPA_PTK_DISCONNECTED_Enter sm) = dropped sm"
  "\<not> DeauthenticationRequest (sm_WPA_PTK_DISCONNECTED_Enter sm)"
  by (simp_all add: sm_WPA_PTK_DISCONNECTED_Enter_def entry_simps req_part_def dropped_def)

lemma enter_initialize_req:
  "req_part (sm_WPA_PTK_INITIALIZE_Enter sm) = req_part sm" "dropped sm \<Longrightarrow> dropped (sm_WPA_PTK_INITIALIZE_Enter sm)"
  unfolding sm_WPA_PTK_INITIALIZE_Enter_def Let_def
  by (cases "Init sm"; cases "GUpdateStationKeys sm"; cases "ws_wpa sm = WPA_VERSION_WPA"; cases "wpa_key_mgmt_wpa_psk (ws_wpa_key_mgmt sm)";
      simp add: entry_simps req_part_def dropped_def)+

lemma enter_ptkstart_req:
  "AuthenticationRequest (sm_WPA_PTK_PTKSTART_Enter env sm) = AuthenticationRequest sm" "ReAuthenticationRequest (sm_WPA_PTK_PTKSTART_Enter env sm) = ReAuthenticationRequest sm"
  "\<not> PTKRequest (sm_WPA_PTK_PTKSTART_Enter env sm)" "pairwise_reply (sm_WPA_PTK_PTKSTART_Enter env sm) = pairwise_reply sm"
  "TimeoutCtr (sm_WPA_PTK_PTKSTART_Enter env sm) = TimeoutCtr sm + 1" "\<not> TimeoutEvt (sm_WPA_PTK_PTKSTART_Enter env sm)"
  "DeauthenticationRequest (sm_WPA_PTK_PTKSTART_Enter env sm) = DeauthenticationRequest sm"
  using ptkstart_quiet[of sm env] by (auto elim!: quietE simp: ptk_entry_def pairwise_reply_def)

lemma no_requests_req_part: "req_part a = req_part b \<Longrightarrow> no_requests a = no_requests b"
  by (simp add: req_part_def no_requests_def pairwise_reply_def)

lemma count_failure_req: "req_part (count_failure sm) = req_part sm"
  by (simp add: count_failure_def req_part_def)

lemma fading_group_side: "fading c a \<Longrightarrow> group_side a b \<Longrightarrow> fading c b"
proof -
  assume f: "fading c a" and g: "group_side a b"
  have eqs: "AuthenticationRequest b = AuthenticationRequest a" "ReAuthenticationRequest b = ReAuthenticationRequest a" "PTKRequest b = PTKRequest a"
    "Init b = Init a" "DeauthenticationRequest b = DeauthenticationRequest a" "wpa_ptk_state b = wpa_ptk_state a" "TimeoutCtr b = TimeoutCtr a"
    "PTK_valid b = PTK_valid a" "EAPOLKeyPairwise b = EAPOLKeyPairwise a" "EAPOLKeyRequest b = EAPOLKeyRequest a"
    using g by (simp_all add: group_side_def pairwise_part_def)
  have "TimeoutEvt b \<longrightarrow> TimeoutEvt a" "EAPOLKeyReceived b \<longrightarrow> EAPOLKeyReceived a" "set (ws_outs a) \<subseteq> set (ws_outs b)"
    using g by (simp_all add: group_side_def)
  then have "no_requests a \<longrightarrow> no_requests b" "dropped a \<longrightarrow> dropped b" "ended b = ended a" "TimeoutEvt b \<longrightarrow> TimeoutEvt a"
    by (auto simp: no_requests_def pairwise_reply_def dropped_def ended_def eqs)
  with f show "fading c b" unfolding fading_def eqs by blast
qed

lemma fading_disconnect: "no_requests sm \<Longrightarrow> \<not> Init sm \<Longrightarrow> fading c (sm_WPA_PTK_DISCONNECT_Enter sm)"
  using no_requests_req_part[OF enter_disconnect_req(1)[of sm]]
  by (simp add: fading_def ended_def enters enter_disconnect_req) (simp add: sm_WPA_PTK_DISCONNECT_Enter_def entry_simps Let_def)

lemma fading_ptk_step:
  assumes "fading c sm"
  shows "fading c (sm_WPA_PTK_Step env sm)"
proof -
  have n: "no_requests sm" "\<not> Init sm" "DeauthenticationRequest sm \<longrightarrow> dropped sm"
    "wpa_ptk_state sm = PTK_PTKSTART \<and> TimeoutCtr sm = c \<and> \<not> TimeoutEvt sm \<or> ended sm \<and> dropped sm"
    using assms by (auto simp: fading_def)
  have req: "\<not> AuthenticationRequest sm" "\<not> ReAuthenticationRequest sm" "\<not> PTKRequest sm" "\<not> pairwise_reply sm"
    using n(1) by (auto simp: no_requests_def)
  have disc: "fading c (sm_WPA_PTK_DISCONNECT_Enter sm)" "fading c (sm_WPA_PTK_DISCONNECT_Enter (count_failure sm))"
    using n(1,2) no_requests_req_part[OF count_failure_req[of sm]] by (auto intro!: fading_disconnect simp: count_failure_def)
  have ded: "fading c (sm_WPA_PTK_DISCONNECTED_Enter sm)" if "dropped sm"
    using n(1,2) that no_requests_req_part[OF enter_disconnected_req(1)[of sm]]
    by (simp add: fading_def ended_def enters enter_disconnected_req) (simp add: sm_WPA_PTK_DISCONNECTED_Enter_def entry_simps)
  have ini: "fading c (sm_WPA_PTK_INITIALIZE_Enter sm)" if "dropped sm"
    using n(1,2) that no_requests_req_part[OF enter_initialize_req(1)[of sm]] ptk_step_init initialize_down
    by (simp add: fading_def ended_def enters enter_initialize_req) (simp add: sm_WPA_PTK_INITIALIZE_Enter_def entry_simps Let_def)
  show ?thesis
  proof (cases "Disconnect sm \<or> DeauthenticationRequest sm")
    case True
    then show ?thesis using n disc ded by (auto simp: sm_WPA_PTK_Step_def)
  next
    case False
    then have "sm_WPA_PTK_Step env sm = ptk_switch env sm" using n(2) req by (simp add: sm_WPA_PTK_Step_def)
    moreover have "fading c (ptk_switch env sm)"
    proof (cases "wpa_ptk_state sm = PTK_PTKSTART")
      case True
      with n(4) have "\<not> TimeoutEvt sm" by (auto simp: ended_def)
      then show ?thesis unfolding ptk_switch_def True ptk_state.case using req disc assms by simp
    next
      case False
      with n(4) have "ended sm" "dropped sm" by auto
      then consider "wpa_ptk_state sm = PTK_DISCONNECT" | "wpa_ptk_state sm = PTK_DISCONNECTED" | "wpa_ptk_state sm = PTK_INITIALIZE"
        unfolding ended_def by blast
      then show ?thesis using assms ded[OF \<open>dropped sm\<close>] ini[OF \<open>dropped sm\<close>] by cases (simp_all add: ptk_switch_def)
    qed
    ultimately show ?thesis by simp
  qed
qed

lemma fading_loop: "fading c sm \<Longrightarrow> fading c (wpa_sm_step env sm)"
  by (erule wpa_sm_step_invariant[where P = "fading c"]) (rule step_once_inv[where P = "fading c"], auto intro: fading_group_side fading_ptk_step)

text \<open>A station that was sent message 1/4, and from which nothing is waiting.\<close>

definition awaiting :: "wpa_sm \<Rightarrow> bool" where
  "awaiting sm = (running sm \<and> no_requests sm \<and> \<not> DeauthenticationRequest sm \<and> wpa_ptk_state sm = PTK_PTKSTART)"

lemma timeout_fading:
  assumes "awaiting sm"
  shows "fading (TimeoutCtr sm + 1) (wpa_send_eapol_timeout env sm)"
proof -
  define sm0 where "sm0 = upd_group (\<lambda>g. g\<lparr>gchanged := False\<rparr>) (sm\<lparr>pending_1_of_4_timeout := False, TimeoutEvt := True\<rparr>)\<lparr>changed := False\<rparr>"
  have a: "no_requests sm0" "\<not> Init sm0" "\<not> DeauthenticationRequest sm0" "wpa_ptk_state sm0 = PTK_PTKSTART" "TimeoutEvt sm0" "TimeoutCtr sm0 = TimeoutCtr sm"
    using assms by (auto simp: awaiting_def running_def sm0_def upd_group_def no_requests_def pairwise_reply_def)
  have "fading (TimeoutCtr sm + 1) (sm_WPA_PTK_Step env sm0)"
  proof (cases "Disconnect sm0 \<or> TimeoutCtr sm0 > dot11RSNAConfigPairwiseUpdateCount")
    case True
    have "fading c (sm_WPA_PTK_DISCONNECT_Enter sm0)" "fading c (sm_WPA_PTK_DISCONNECT_Enter (count_failure sm0))" for c
      using a(1,2) no_requests_req_part[OF count_failure_req[of sm0]] by (auto intro!: fading_disconnect simp: count_failure_def)
    then show ?thesis using True a by (auto simp: sm_WPA_PTK_Step_def ptk_switch_def no_requests_def)
  next
    case False
    then have "sm_WPA_PTK_Step env sm0 = sm_WPA_PTK_PTKSTART_Enter env sm0"
      using a by (auto simp: sm_WPA_PTK_Step_def ptk_switch_def no_requests_def)
    moreover have "Init (sm_WPA_PTK_PTKSTART_Enter env sm0) = Init sm0"
      using ptkstart_quiet[of sm0 env] by (auto elim!: quietE simp: ptk_entry_def)
    ultimately show ?thesis using a by (auto simp: fading_def no_requests_def enters enter_ptkstart_req)
  qed
  then have "fading (TimeoutCtr sm + 1) (step_once env (sm\<lparr>pending_1_of_4_timeout := False, TimeoutEvt := True\<rparr>))"
    unfolding step_once_def sm0_def[symmetric] by (intro fading_group_side[OF _ group_side_sm_step] fading_group_side[OF _ group_side_group_step])
  then show ?thesis
    unfolding wpa_send_eapol_timeout_def by (subst wpa_sm_step.simps) (auto simp: Let_def intro: fading_loop)
qed

definition finished :: "wpa_sm \<Rightarrow> bool" where
  "finished sm = (running sm \<and> no_requests sm \<and> wpa_ptk_state sm = PTK_INITIALIZE \<and> dropped sm)"

lemma fading_settled:
  assumes "fading c sm" "running sm" "settled env sm"
  shows "awaiting sm \<and> TimeoutCtr sm = c \<and> c \<le> 4 \<or> finished sm"
proof -
  have id: "sm_WPA_PTK_Step env sm = sm" using settled_ptk_step assms by blast
  then have st: "wpa_ptk_state (sm_WPA_PTK_Step env sm) = wpa_ptk_state sm" "DeauthenticationRequest (sm_WPA_PTK_Step env sm) = DeauthenticationRequest sm" by simp_all
  have n: "no_requests sm" "\<not> Init sm" "\<not> AuthenticationRequest sm" "\<not> ReAuthenticationRequest sm" "\<not> PTKRequest sm" "\<not> pairwise_reply sm"
    using assms(1) by (auto simp: fading_def no_requests_def)
  have "\<not> Disconnect sm"
    using steps_down_def disconnect_down(1)[of sm] id n(2) by (auto simp: sm_WPA_PTK_Step_def)
  moreover from this have "\<not> DeauthenticationRequest sm" using st(2) n(2) by (auto simp: sm_WPA_PTK_Step_def enter_disconnected_req)
  ultimately have "sm_WPA_PTK_Step env sm = ptk_switch env sm" using n by (simp add: sm_WPA_PTK_Step_def)
  with st(1) have sw: "wpa_ptk_state (ptk_switch env sm) = wpa_ptk_state sm" by simp
  show ?thesis
  proof (cases "wpa_ptk_state sm = PTK_PTKSTART")
    case True
    then have "TimeoutCtr sm \<le> 4" using sw n(6) by (auto simp: ptk_switch_def enters split: if_splits)
    then show ?thesis using True assms n \<open>\<not> DeauthenticationRequest sm\<close> by (auto simp: awaiting_def fading_def ended_def)
  next
    case False
    then have "ended sm" "dropped sm" using assms(1) by (auto simp: fading_def)
    then have "wpa_ptk_state sm = PTK_INITIALIZE" using sw by (auto simp: ended_def ptk_switch_def enters)
    then show ?thesis using assms n \<open>dropped sm\<close> by (simp add: finished_def)
  qed
qed

lemma timeout_running: "running sm \<Longrightarrow> running (wpa_send_eapol_timeout env sm) \<and> settled env (wpa_send_eapol_timeout env sm)"
  unfolding wpa_send_eapol_timeout_def using wpa_sm_step_running wpa_sm_step_settled by (simp add: running_def)

lemma timeout_awaiting:
  assumes "awaiting sm"
  shows "awaiting (wpa_send_eapol_timeout env sm) \<and> TimeoutCtr (wpa_send_eapol_timeout env sm) = TimeoutCtr sm + 1 \<and> TimeoutCtr sm + 1 \<le> 4
    \<or> finished (wpa_send_eapol_timeout env sm)"
  using fading_settled[OF timeout_fading[OF assms]] timeout_running assms unfolding awaiting_def by blast

lemma timeout_finished:
  assumes "finished sm"
  shows "finished (wpa_send_eapol_timeout env sm)"
proof -
  have "fading 5 (sm\<lparr>pending_1_of_4_timeout := False, TimeoutEvt := True\<rparr>)"
    using assms by (auto simp: finished_def fading_def ended_def dropped_def running_def no_requests_def pairwise_reply_def)
  then have "fading 5 (wpa_send_eapol_timeout env sm)" unfolding wpa_send_eapol_timeout_def by (rule fading_loop)
  with fading_settled[of 5] timeout_running[of sm env] assms show ?thesis by (auto simp: finished_def)
qed

lemma timeouts_finished: "finished sm \<Longrightarrow> finished (fold wpa_send_eapol_timeout envs sm)"
  by (induction envs arbitrary: sm) (auto intro: timeout_finished)

lemma timeouts_awaiting:
  "awaiting sm \<Longrightarrow> TimeoutCtr sm + int (length envs) > 4 \<Longrightarrow> envs \<noteq> [] \<Longrightarrow> finished (fold wpa_send_eapol_timeout envs sm)"
proof (induction envs arbitrary: sm)
  case (Cons env envs)
  show ?case
  proof (cases "finished (wpa_send_eapol_timeout env sm)")
    case True
    then show ?thesis by (simp add: timeouts_finished)
  next
    case False
    with timeout_awaiting[OF Cons.prems(1), of env] have a: "awaiting (wpa_send_eapol_timeout env sm)"
      "TimeoutCtr (wpa_send_eapol_timeout env sm) = TimeoutCtr sm + 1" "TimeoutCtr sm + 1 \<le> 4" by auto
    with Cons.prems(2) have "envs \<noteq> []" by auto
    with Cons.IH[OF a(1)] a(2) Cons.prems(2) show ?thesis by simp
  qed
qed simp

end
