(* ===== verification/WpaHandshake.thy ===== *)
theory WpaHandshake
  imports WpaSmInv
begin

text \<open>
  The properties of the four-way handshake (\<open>src/ap/wpa_auth.c\<close>), with a run of it as an example.
\<close>

subsection \<open>The properties of the handshake\<close>

text \<open>
  C2. The loop of \<open>wpa_sm_step\<close> ends for every state of the three machines, after at most 2400 rounds, with both change flags clear. What it leaves depends on
  the flag \<open>Init\<close>. While a station is started (\<open>Init\<close> set, the first run in \<open>wpa_auth_sta_associated\<close> and after \<open>WPA_REAUTH\<close>), the station's two machines are
  in their initial states and the group's machine has nothing to do, unless the group itself is being started. Otherwise (\<open>Init\<close> clear, and \<open>GInit\<close> of the group too) no
  machine has anything left to do: one more round changes nothing at all.
\<close>

theorem wpa_sm_step_settles:
  "(\<exists>n\<le>2400. wpa_sm_step env sm = (step_once env ^^ n) sm) \<and> \<not> changed (wpa_sm_step env sm) \<and> \<not> gchanged (group (wpa_sm_step env sm))
    \<and> (Init sm \<longrightarrow> at_start env (wpa_sm_step env sm))
    \<and> (\<not> Init sm \<longrightarrow> \<not> GInit (group sm) \<longrightarrow> settled env (wpa_sm_step env sm))"
proof -
  obtain n where n: "n \<le> rounds_left sm" "wpa_sm_step env sm = (step_once env ^^ Suc n) sm" "\<not> changed (wpa_sm_step env sm)" "\<not> gchanged (group (wpa_sm_step env sm))"
    using wpa_sm_step_rounds[of sm env] by auto
  moreover have "Suc n \<le> 2400" using n(1) rounds_left_le[of sm] by simp
  ultimately show ?thesis using wpa_sm_step_at_start[of sm env] wpa_sm_step_settled[of sm env] unfolding running_def by blast
qed

text \<open>
  C1. Whatever happens to a station, the port is opened and a pairwise key installed only when a frame is received that is a reply of the pairwise
  handshake, answers a message that is pending, and whose integrity code was made with the pairwise key of the station; the key that is
  installed is the temporal key belonging to that pairwise key. After that, none of the replay counters that were pending before is pending any more: those that are
  pending then are new, between 1 and 4800 ahead of the newest one sent before (as numbers modulo \<open>2 ^ 64\<close>).
\<close>

theorem opens_only_for_verified_reply:
  assumes "station sm" "openings (handle env ev sm) \<noteq> openings sm"
  shows "\<exists>data ptk. ev = Receive data \<and> verified_reply env data ptk sm \<and> opened_with ptk sm (handle env ev sm) \<and> fresh_counters sm (handle env ev sm)"
proof -
  have r: "rest sm" using assms(1) by (rule station_rest)
  from undisturbed_handle[OF r] assms(2) obtain data where ev: "ev = Receive data" by (auto simp: undisturbed_def)
  with receive_cases[OF r, of env data] assms(2) show ?thesis by (auto simp: undisturbed_def)
qed

text \<open>
  C4. A station that does not answer message 1/4 is disconnected after at most five timeouts: the machine is back in its initial state, no pairwise key is valid,
  and the disconnection was ordered.
\<close>

theorem silent_station_is_dropped:
  assumes "awaiting sm" "0 \<le> TimeoutCtr sm" "length envs \<ge> 5"
  shows "wpa_ptk_state (fold wpa_send_eapol_timeout envs sm) = PTK_INITIALIZE \<and> \<not> PTK_valid (fold wpa_send_eapol_timeout envs sm)
    \<and> Disconnected \<in> set (ws_outs (fold wpa_send_eapol_timeout envs sm))"
proof -
  have "envs \<noteq> []" "TimeoutCtr sm + int (length envs) > 4" using assms(2,3) by auto
  from timeouts_awaiting[OF assms(1) this(2,1)] show ?thesis by (simp add: finished_def dropped_def)
qed

text \<open>
  C6. The two ends agree: what the authenticator sends with an integrity code is accepted by an end that has derived the pairwise key from the same
  master key, addresses and nonces in its own order.
\<close>

theorem signed_frame_accepted_by_peer:
  assumes "PTK_valid sm" "info AND WPA_KEY_INFO_MIC \<noteq> 0" "info AND WPA_KEY_INFO_TYPE_MASK = version"
    and "length counter = 8" "length nonce = 32" "length iv = 16" "length rsc = 8"
    and "frame = key_frame eapol type info klen counter nonce iv rsc (wpa_mic_len (ws_wpa_key_mgmt sm)) data_len data"
    and "PTK sm = wpa_pmk_to_ptk K pmk label aa spa anonce snonce (ws_wpa_key_mgmt sm) cipher" "length aa = length spa" "length anonce = length snonce"
    and "K = we_crypto env" "wpa_eapol_key_mic K (kck (PTK sm)) (ws_wpa_key_mgmt sm) version frame = Some mic" "length mic = wpa_mic_len (ws_wpa_key_mgmt sm)"
  shows "\<exists>f. ws_outs (sign_and_send env info version frame sm) = ws_outs sm @ [SetEapol EAPOL_inc_EapolFramesTx 1, SendEapol f (pairwise_set sm)]
    \<and> replay_counter f = counter \<and> key_nonce f = nonce
    \<and> wpa_verify_key_mic K (ws_wpa_key_mgmt sm) (wpa_pmk_to_ptk K pmk label spa aa snonce anonce (ws_wpa_key_mgmt sm) cipher) f"
proof -
  note lay = key_frame_layout[OF assms(4-7,8)]
  have len: "length frame \<ge> EAPOL_HDR + KEY_LEN" "length frame \<ge> MIC_OFF + wpa_mic_len (ws_wpa_key_mgmt sm)"
    using lay(1) wpa_mic_len_cases[of "ws_wpa_key_mgmt sm"] by auto
  have "wpa_verify_key_mic K (ws_wpa_key_mgmt sm) (PTK sm) (put_mic frame mic)"
    by (rule signed_frame_verifies[OF len]) (use lay assms in simp_all)
  moreover have "replay_counter (put_mic frame mic) = counter" "key_nonce (put_mic frame mic) = nonce"
    using lay(4,5) len by (simp_all add: replay_counter_def key_nonce_def slice_def put_mic_def drop_take min_def)
  moreover have "ws_outs (sign_and_send env info version frame sm) = ws_outs sm @ [SetEapol EAPOL_inc_EapolFramesTx 1, SendEapol (put_mic frame mic) (pairwise_set sm)]"
    using assms(1,2,12,13) by (simp add: sign_and_send_def Let_def emit_out_def set_eapol_def)
  ultimately show ?thesis
    using assms(9) wpa_pmk_to_ptk_commute[OF assms(10,11), of K pmk label "ws_wpa_key_mgmt sm" cipher] by auto
qed

subsection \<open>An example\<close>

text \<open>
  A station with a pre-shared key and CCMP goes through the handshake. The codes and random numbers of the example are constant.
\<close>

definition example_crypto :: crypto where
  "example_crypto = \<lparr>hmac_sha1_vector = (\<lambda>key parts. replicate 20 7), hmac_sha256_vector = (\<lambda>key parts. replicate 32 9),
     hmac_md5 = (\<lambda>key buf. Some (replicate 16 4)), hmac_sha1 = (\<lambda>key buf. Some (replicate 20 5)), omac1_aes_128 = (\<lambda>key buf. Some (replicate 16 6)),
     aes_wrap = (\<lambda>kek plain. Some (replicate 8 0 @ plain)), rc4_skip = (\<lambda>key skip buf. buf)\<rparr>"

definition example_rsn_ie :: bytes where
  "example_rsn_ie = [48, 2, 1, 0]"

definition example_env :: wpa_env where
  "example_env = \<lparr>we_conf = example_conf\<lparr>ac_ieee80211w := NO_MGMT_FRAME_PROTECTION\<rparr>, we_addr = [2, 0, 0, 0, 0, 1], we_wpa_ie = example_rsn_ie, we_crypto = example_crypto,
     we_psks = [replicate 32 1], we_group_ptr = replicate 8 0, we_stack = replicate 16 0, random_get_bytes = (\<lambda>outs n. Some (replicate n 3)),
     random_pool_ready = (\<lambda>outs. True), ntp_timestamp = (\<lambda>outs. replicate 8 0), set_key_result = (\<lambda>outs. 0), get_eapol = (\<lambda>outs v. 0),
     get_msk = (\<lambda>outs. None), get_seqnum = (\<lambda>outs i. None), alloc = (\<lambda>outs n. True), others_pending = (\<lambda>outs. 0), mic_failure_result = (\<lambda>outs. 0)\<rparr>"

definition example_group :: wpa_group where
  "example_group = \<lparr>GInit = False, GKeyDoneStations = 0, GTKReKey = False, GTK_len = 16, GN = 1, GM = 2, GTKAuthenticator = True, Counter = replicate 32 0,
     wpa_group_state = SETKEYSDONE, GMK = replicate 32 2, GTK = [replicate 16 8, replicate 16 0], GNonce = replicate 32 0, gchanged = False, first_sta_seen = True,
     reject_4way_hs_for_entropy = False, IGTK = [[], []], GN_igtk = 4, GM_igtk = 5\<rparr>"

definition example_station :: wpa_sm where
  "example_station = the (wpa_auth_sta_init True [2, 0, 0, 0, 0, 9] example_group)"

definition example_validated :: wpa_state_machine where
  "example_validated = \<lparr>ws_addr = [2, 0, 0, 0, 0, 9], ws_wpa_key_mgmt = 2, ws_pairwise = 0x10, ws_wpa = 2, ws_mgmt_frame_prot = False, ws_pmksa = None,
     ws_wpa_ie = Some example_rsn_ie, ws_wpa_ie_len = 4\<rparr>"

text \<open>The station's replies: message 2/4 with its element, and message 4/4.\<close>

definition example_reply :: "u16 \<Rightarrow> u8 \<Rightarrow> bytes \<Rightarrow> bytes" where
  "example_reply info n kd = put_mic (key_frame 1 2 info 16 (replicate 7 0 @ [n]) (replicate 32 4) (replicate 16 0) (replicate 8 0) 16 (length kd) kd) (replicate 16 5)"

definition after_msg1 :: wpa_sm where
  "after_msg1 = handle example_env Associated (handle example_env (Validated example_validated) example_station)"

definition after_msg2 :: wpa_sm where
  "after_msg2 = handle example_env (Receive (example_reply 0x10a 1 example_rsn_ie)) after_msg1"

lemma example_station_station: "station after_msg2"
  unfolding after_msg2_def after_msg1_def
  by (intro station_event station_init[of "[2, 0, 0, 0, 0, 9]" example_group])
    (simp_all add: example_station_def wpa_auth_sta_init_def example_group_def)

theorem wpa_sm_step_settles_witness:
  "\<not> Init after_msg1 \<and> \<not> GInit (group after_msg1) \<and> settled example_env (wpa_sm_step example_env after_msg1)
    \<and> at_start example_env (wpa_sm_step example_env (example_station\<lparr>Init := True\<rparr>))"
proof -
  have "\<not> Init after_msg1" "\<not> GInit (group after_msg1)" by code_simp+
  with wpa_sm_step_settles[of example_env after_msg1] wpa_sm_step_settles[of example_env "example_station\<lparr>Init := True\<rparr>"] show ?thesis by simp
qed

theorem opens_only_for_verified_reply_witness:
  "station after_msg2 \<and> openings (handle example_env (Receive (example_reply 0x10a 2 [])) after_msg2) \<noteq> openings after_msg2
    \<and> (\<exists>ptk. verified_reply example_env (example_reply 0x10a 2 []) ptk after_msg2)
    \<and> fresh_counters after_msg2 (handle example_env (Receive (example_reply 0x10a 2 [])) after_msg2)"
proof -
  have o: "openings (handle example_env (Receive (example_reply 0x10a 2 [])) after_msg2) \<noteq> openings after_msg2" by code_simp
  from opens_only_for_verified_reply[OF example_station_station o] show ?thesis using o example_station_station by auto
qed

theorem silent_station_is_dropped_witness:
  "awaiting after_msg1 \<and> 0 \<le> TimeoutCtr after_msg1 \<and> wpa_ptk_state (fold wpa_send_eapol_timeout (replicate 5 example_env) after_msg1) = PTK_INITIALIZE"
proof -
  have "awaiting after_msg1" "0 \<le> TimeoutCtr after_msg1" by code_simp+
  with silent_station_is_dropped[of after_msg1 "replicate 5 example_env"] show ?thesis by simp
qed

theorem signed_frame_accepted_by_peer_witness:
  "PTK_valid after_msg2 \<and> (\<exists>f. ws_outs (sign_and_send example_env 0x10a 2
      (key_frame 2 2 0x10a 16 (replicate 8 0) (replicate 32 3) (replicate 16 0) (replicate 8 0) 16 0 []) after_msg2)
      = ws_outs after_msg2 @ [SetEapol EAPOL_inc_EapolFramesTx 1, SendEapol f (pairwise_set after_msg2)]
    \<and> wpa_verify_key_mic example_crypto 2
        (wpa_pmk_to_ptk example_crypto (replicate 32 1) (ascii ''Pairwise key expansion'') [2, 0, 0, 0, 0, 9] [2, 0, 0, 0, 0, 1] (replicate 32 4) (replicate 32 3) 2 0x10) f)"
proof -
  have h: "PTK_valid after_msg2" "(0x10a :: u16) AND WPA_KEY_INFO_MIC \<noteq> 0" "(0x10a :: u16) AND WPA_KEY_INFO_TYPE_MASK = 2" "ws_wpa_key_mgmt after_msg2 = 2"
    "PTK after_msg2 = wpa_pmk_to_ptk example_crypto (replicate 32 1) (ascii ''Pairwise key expansion'') [2, 0, 0, 0, 0, 1] [2, 0, 0, 0, 0, 9] (replicate 32 3) (replicate 32 4) 2 0x10"
    by code_simp+
  have e: "we_crypto example_env = example_crypto" "wpa_mic_len 2 = 16" by (simp_all add: example_env_def wpa_mic_len_def)
  have mic: "wpa_eapol_key_mic example_crypto (kck (PTK after_msg2)) 2 2 x = Some (replicate 16 5)" for x
    by (simp add: wpa_eapol_key_mic_def example_crypto_def)
  show ?thesis
    using signed_frame_accepted_by_peer[OF h(1-3), where env = example_env and counter = "replicate 8 0" and nonce = "replicate 32 3" and iv = "replicate 16 0"
        and rsc = "replicate 8 0" and eapol = 2 and type = 2 and klen = 16 and data_len = 0 and data = "[]" and K = example_crypto
        and pmk = "replicate 32 1" and label = "ascii ''Pairwise key expansion''" and aa = "[2, 0, 0, 0, 0, 1]" and spa = "[2, 0, 0, 0, 0, 9]"
        and anonce = "replicate 32 3" and snonce = "replicate 32 4" and cipher = "0x10" and mic = "replicate 16 5", OF _ _ _ _ refl] h e mic
    by (auto simp: h(4) e(2))
qed

subsection \<open>Two weaknesses\<close>

text \<open>
  The retry counter is not reset when the handshake is complete. Where message 3/4 had to be sent four times, the next rekeying starts beyond the
  limit: the station is disconnected without being asked.
\<close>

lemma rekey_beyond_limit_disconnects:
  assumes "running sm" "\<not> AuthenticationRequest sm" "\<not> ReAuthenticationRequest sm" "\<not> pairwise_reply sm" "\<not> DeauthenticationRequest sm" "\<not> Disconnect sm"
    and "TimeoutCtr sm \<ge> 4"
  shows "finished (wpa_rekey_ptk env sm)"
proof -
  define sm0 where "sm0 = upd_group (\<lambda>g. g\<lparr>gchanged := False\<rparr>) (wpa_request_new_ptk sm)\<lparr>changed := False\<rparr>"
  have a: "\<not> Init sm0" "\<not> AuthenticationRequest sm0" "\<not> ReAuthenticationRequest sm0" "\<not> pairwise_reply sm0" "\<not> DeauthenticationRequest sm0"
    "\<not> Disconnect sm0" "PTKRequest sm0" "TimeoutCtr sm0 = TimeoutCtr sm"
    using assms by (auto simp: running_def sm0_def upd_group_def wpa_request_new_ptk_def pairwise_reply_def)
  then have "sm_WPA_PTK_Step env sm0 = sm_WPA_PTK_PTKSTART_Enter env sm0" by (simp add: sm_WPA_PTK_Step_def)
  moreover have "Init (sm_WPA_PTK_PTKSTART_Enter env sm0) = Init sm0"
    using ptkstart_quiet[of sm0 env] by (auto elim!: quietE simp: ptk_entry_def)
  ultimately have "fading (TimeoutCtr sm + 1) (sm_WPA_PTK_Step env sm0)"
    using a by (simp add: fading_def no_requests_def enters enter_ptkstart_req)
  then have "fading (TimeoutCtr sm + 1) (step_once env (wpa_request_new_ptk sm))"
    unfolding step_once_def sm0_def[symmetric] by (intro fading_group_side[OF _ group_side_sm_step] fading_group_side[OF _ group_side_group_step])
  then have f: "fading (TimeoutCtr sm + 1) (wpa_rekey_ptk env sm)"
    unfolding wpa_rekey_ptk_def by (subst wpa_sm_step.simps) (auto simp: Let_def intro: fading_loop)
  have "running (wpa_request_new_ptk sm)" using assms(1) by (simp add: running_def wpa_request_new_ptk_def)
  then have "running (wpa_rekey_ptk env sm)" "settled env (wpa_rekey_ptk env sm)"
    unfolding wpa_rekey_ptk_def by (rule wpa_sm_step_running wpa_sm_step_settled)+
  with fading_settled[OF f] assms(7) show ?thesis by auto
qed

text \<open>
  A message 2/4 without valid key data is dropped, but the request for a new nonce that it makes stays. The genuine message 4/4 that follows is not
  checked against the key, and the handshake goes back instead of being completed.
\<close>

definition before_forged :: wpa_sm where
  "before_forged = handle example_env (Receive (example_reply 0x10a 1 example_rsn_ie)) (handle example_env EapolTimeout after_msg1)"

definition forged_reply :: bytes where
  "forged_reply = key_frame 1 2 0x10a 16 (replicate 7 0 @ [2]) (replicate 32 66) (replicate 16 0) (replicate 8 0) 16 2 [0xdd, 200]"

lemma forged_message_2_blocks_completion:
  "wpa_ptk_state (handle example_env (Receive (example_reply 0x10a 3 [])) before_forged) = PTK_PTKINITDONE"
  "wpa_ptk_state (handle example_env (Receive (example_reply 0x10a 3 [])) (handle example_env (Receive forged_reply) before_forged)) \<noteq> PTK_PTKINITDONE"
  by code_simp+

end
