(* ===== verification/AesModes.thy ===== *)
theory AesModes
  imports WpaBuf
begin

text \<open>
  Modes of operation of the block cipher (\<open>src/crypto\<close>): key wrap, CBC, counter mode, OMAC1, and the authenticated
  modes EAX, SIV, CCM and GCM. They call the cipher only through the functions that \<open>aes.h\<close> declares, of which the
  sources hold two implementations; so the definitions take the cipher as an argument, and what they need of it is the
  interface \<open>block_cipher\<close>. A context that cannot be created is the value \<open>None\<close>, with which the modes return -1.

  In-place operations return the new contents of the buffer. Blocks have 16 bytes.
\<close>

record aes =
  enc_init :: "bytes \<Rightarrow> (bytes \<Rightarrow> bytes) option"
  dec_init :: "bytes \<Rightarrow> (bytes \<Rightarrow> bytes) option"

definition xor_bytes :: "bytes \<Rightarrow> bytes \<Rightarrow> bytes" where
  "xor_bytes a b = map2 (XOR) a b"

subsection \<open>Key wrap\<close>

definition xor_t :: "u32 \<Rightarrow> bytes \<Rightarrow> bytes" where
  "xor_t t a =
    a[7 := a ! 7 XOR ucast t, 6 := a ! 6 XOR ucast (drop_bit 8 t),
      5 := a ! 5 XOR ucast (drop_bit 16 t), 4 := a ! 4 XOR ucast (drop_bit 24 t)]"

definition put_block :: "nat \<Rightarrow> bytes \<Rightarrow> bytes \<Rightarrow> bytes" where
  "put_block i blk r = take (8 * (i - 1)) r @ blk @ drop (8 * i) r"

definition get_block :: "nat \<Rightarrow> bytes \<Rightarrow> bytes" where
  "get_block i r = take 8 (drop (8 * (i - 1)) r)"

text \<open>One pass of the inner loop: \<open>j\<close> and \<open>i\<close> are the loop variables, \<open>a\<close> and \<open>r\<close> the two parts of the buffer.\<close>

fun wrap_step :: "(bytes \<Rightarrow> bytes) \<Rightarrow> nat \<Rightarrow> nat \<times> nat \<Rightarrow> bytes \<times> bytes \<Rightarrow> bytes \<times> bytes" where
  "wrap_step E n (j, i) (a, r) =
    (let b = E (a @ get_block i r)
     in (xor_t (of_nat (n * j + i)) (take 8 b), put_block i (drop 8 b) r))"

definition aes_wrap :: "aes \<Rightarrow> bytes \<Rightarrow> nat \<Rightarrow> bytes \<Rightarrow> bytes option" where
  "aes_wrap A kek n plain =
    (case enc_init A kek of
       None \<Rightarrow> None
     | Some E \<Rightarrow> (case fold (wrap_step E n) (List.product [0..<6] [1..<Suc n]) (replicate 8 0xa6, take (8 * n) plain) of
                   (a, r) \<Rightarrow> Some (a @ r)))"

fun unwrap_step :: "(bytes \<Rightarrow> bytes) \<Rightarrow> nat \<Rightarrow> nat \<times> nat \<Rightarrow> bytes \<times> bytes \<Rightarrow> bytes \<times> bytes" where
  "unwrap_step D n (j, i) (a, r) =
    (let b = D (xor_t (of_nat (n * j + i)) a @ get_block i r)
     in (take 8 b, put_block i (drop 8 b) r))"

definition aes_unwrap :: "aes \<Rightarrow> bytes \<Rightarrow> nat \<Rightarrow> bytes \<Rightarrow> bytes option" where
  "aes_unwrap A kek n cipher =
    (case dec_init A kek of
       None \<Rightarrow> None
     | Some D \<Rightarrow> (case fold (unwrap_step D n) (List.product (rev [0..<6]) (rev [1..<Suc n]))
                          (take 8 cipher, take (8 * n) (drop 8 cipher)) of
                   (a, r) \<Rightarrow> if list_all (\<lambda>x. x = 0xa6) a then Some r else None))"

subsection \<open>Cipher block chaining\<close>

fun cbc_encrypt_loop :: "(bytes \<Rightarrow> bytes) \<Rightarrow> nat \<Rightarrow> bytes \<Rightarrow> bytes \<Rightarrow> bytes" where
  "cbc_encrypt_loop E 0 cbc pos = pos"
| "cbc_encrypt_loop E (Suc blocks) cbc pos =
    (let cbc = E (xor_bytes cbc (take 16 pos)) in cbc @ cbc_encrypt_loop E blocks cbc (drop 16 pos))"

definition aes_128_cbc_encrypt :: "aes \<Rightarrow> bytes \<Rightarrow> bytes \<Rightarrow> bytes \<Rightarrow> bytes option" where
  "aes_128_cbc_encrypt A key iv data =
    map_option (\<lambda>E. cbc_encrypt_loop E (length data div 16) iv data) (enc_init A (take 16 key))"

fun cbc_decrypt_loop :: "(bytes \<Rightarrow> bytes) \<Rightarrow> nat \<Rightarrow> bytes \<Rightarrow> bytes \<Rightarrow> bytes" where
  "cbc_decrypt_loop D 0 cbc pos = pos"
| "cbc_decrypt_loop D (Suc blocks) cbc pos =
    (let tmp = take 16 pos in xor_bytes (D tmp) cbc @ cbc_decrypt_loop D blocks tmp (drop 16 pos))"

definition aes_128_cbc_decrypt :: "aes \<Rightarrow> bytes \<Rightarrow> bytes \<Rightarrow> bytes \<Rightarrow> bytes option" where
  "aes_128_cbc_decrypt A key iv data =
    map_option (\<lambda>D. cbc_decrypt_loop D (length data div 16) iv data) (dec_init A (take 16 key))"

subsection \<open>Counter mode\<close>

text \<open>The counter is incremented from its last byte on.\<close>

fun inc_from_end :: "bytes \<Rightarrow> bytes" where
  "inc_from_end [] = []"
| "inc_from_end (x # xs) = (if x + 1 \<noteq> 0 then (x + 1) # xs else (x + 1) # inc_from_end xs)"

definition inc_counter :: "bytes \<Rightarrow> bytes" where
  "inc_counter c = rev (inc_from_end (rev c))"

function ctr_loop :: "(bytes \<Rightarrow> bytes) \<Rightarrow> bytes \<Rightarrow> bytes \<Rightarrow> bytes" where
  "ctr_loop E counter pos =
    (if pos = [] then []
     else xor_bytes (take 16 pos) (E counter) @ ctr_loop E (inc_counter counter) (drop 16 pos))"
  by auto
termination by (relation "measure (\<lambda>(E, counter, pos). length pos)") auto

declare ctr_loop.simps [simp del]

definition aes_128_ctr_encrypt :: "aes \<Rightarrow> bytes \<Rightarrow> bytes \<Rightarrow> bytes \<Rightarrow> bytes option" where
  "aes_128_ctr_encrypt A key nonce data =
    map_option (\<lambda>E. ctr_loop E nonce data) (enc_init A (take 16 key))"

subsection \<open>One-key CBC MAC\<close>

definition gf_mulx :: "bytes \<Rightarrow> bytes" where
  "gf_mulx pad =
    (let carry = pad ! 0 AND 0x80;
         pad = map (\<lambda>i. if i < 15 then push_bit 1 (pad ! i) OR drop_bit 7 (pad ! (i + 1)) else push_bit 1 (pad ! 15)) [0..<16]
     in if carry \<noteq> 0 then pad[15 := pad ! 15 XOR 0x87] else pad)"

text \<open>
  The position in the data vector: what is left of the element \<open>pos\<close> is in, and the elements after it. The next byte
  of an element of length zero and the element after the last one are outside the data: \<open>None\<close>.
\<close>

type_synonym cursor = "bytes \<times> bytes list"

fun next_byte :: "bool \<Rightarrow> cursor \<Rightarrow> (u8 \<times> cursor) option" where
  "next_byte stop ([], es) = None"
| "next_byte stop (x # y # xs, es) = Some (x, (y # xs, es))"
| "next_byte stop ([x], es) =
    (if stop then Some (x, ([], es)) else case es of [] \<Rightarrow> None | e # es \<Rightarrow> Some (x, (e, es)))"

text \<open>\<open>n\<close> bytes are combined with \<open>cbc\<close> from position \<open>i\<close> on; \<open>fin\<close> tells that no byte is needed after them.\<close>

fun absorb :: "bool \<Rightarrow> nat \<Rightarrow> nat \<Rightarrow> bytes \<Rightarrow> cursor \<Rightarrow> (bytes \<times> cursor) option" where
  "absorb fin i 0 cbc c = Some (cbc, c)"
| "absorb fin i (Suc n) cbc c =
    (case next_byte (n = 0 \<and> fin) c of
       None \<Rightarrow> None
     | Some (x, c) \<Rightarrow> absorb fin (Suc i) n (cbc[i := cbc ! i XOR x]) c)"

function omac1_blocks :: "(bytes \<Rightarrow> bytes) \<Rightarrow> nat \<Rightarrow> bytes \<Rightarrow> cursor \<Rightarrow> (nat \<times> bytes \<times> cursor) option" where
  "omac1_blocks E left cbc c =
    (if left \<ge> 16
     then case absorb (left = 16) 0 16 cbc c of
            None \<Rightarrow> None
          | Some (cbc, c) \<Rightarrow> omac1_blocks E (left - 16) (if left > 16 then E cbc else cbc) c
     else Some (left, cbc, c))"
  by auto
termination by (relation "measure (\<lambda>(E, left, cbc, c). left)") auto

declare omac1_blocks.simps [simp del]

definition omac1_aes_vector :: "aes \<Rightarrow> bytes \<Rightarrow> bytes list \<Rightarrow> bytes option" where
  "omac1_aes_vector A key addr =
    (case enc_init A key of
       None \<Rightarrow> None
     | Some E \<Rightarrow>
         let total_len = sum_list (map length addr)
         in case addr of
              [] \<Rightarrow> None
            | e # es \<Rightarrow>
                (case omac1_blocks E total_len (replicate 16 0) (e, es) of
                   None \<Rightarrow> None
                 | Some (left, cbc, c) \<Rightarrow>
                     let pad = gf_mulx (E (replicate 16 0))
                     in if left \<noteq> 0 \<or> total_len = 0
                        then case absorb True 0 left cbc c of
                               None \<Rightarrow> None
                             | Some (cbc, c) \<Rightarrow> Some (E (xor_bytes (gf_mulx pad) (cbc[left := cbc ! left XOR 0x80])))
                        else Some (E (xor_bytes pad cbc))))"

definition omac1_aes_128_vector :: "aes \<Rightarrow> bytes \<Rightarrow> bytes list \<Rightarrow> bytes option" where
  "omac1_aes_128_vector A key addr = omac1_aes_vector A (take 16 key) addr"

definition omac1_aes_128 :: "aes \<Rightarrow> bytes \<Rightarrow> bytes \<Rightarrow> bytes option" where
  "omac1_aes_128 A key data = omac1_aes_128_vector A key [data]"

definition omac1_aes_256 :: "aes \<Rightarrow> bytes \<Rightarrow> bytes \<Rightarrow> bytes option" where
  "omac1_aes_256 A key data = omac1_aes_vector A (take 32 key) [data]"

subsection \<open>EAX\<close>

definition eax_mac :: "aes \<Rightarrow> bytes \<Rightarrow> u8 \<Rightarrow> bytes \<Rightarrow> bytes option" where
  "eax_mac A key k data = omac1_aes_128 A key (replicate 15 0 @ [k] @ data)"

definition aes_128_eax_encrypt :: "aes \<Rightarrow> bytes \<Rightarrow> bytes \<Rightarrow> bytes \<Rightarrow> bytes \<Rightarrow> (bytes \<times> bytes) option" where
  "aes_128_eax_encrypt A key nonce hdr data = do {
     nonce_mac \<leftarrow> eax_mac A key 0 nonce;
     hdr_mac \<leftarrow> eax_mac A key 1 hdr;
     data \<leftarrow> aes_128_ctr_encrypt A key nonce_mac data;
     data_mac \<leftarrow> eax_mac A key 2 data;
     Some (data, xor_bytes (xor_bytes nonce_mac data_mac) hdr_mac)
   }"

text \<open>The result codes of the functions that check a tag, with the contents of the output buffer where it is written.\<close>

definition aes_128_eax_decrypt :: "aes \<Rightarrow> bytes \<Rightarrow> bytes \<Rightarrow> bytes \<Rightarrow> bytes \<Rightarrow> bytes \<Rightarrow> int \<times> bytes option" where
  "aes_128_eax_decrypt A key nonce hdr data tag =
    (case do {
       nonce_mac \<leftarrow> eax_mac A key 0 nonce;
       hdr_mac \<leftarrow> eax_mac A key 1 hdr;
       data_mac \<leftarrow> eax_mac A key 2 data;
       Some (nonce_mac, xor_bytes (xor_bytes nonce_mac data_mac) hdr_mac)
     } of
       None \<Rightarrow> (-1, None)
     | Some (nonce_mac, mac) \<Rightarrow>
         if take 16 tag \<noteq> mac then (-2, None)
         else case aes_128_ctr_encrypt A key nonce_mac data of None \<Rightarrow> (-1, None) | Some data \<Rightarrow> (0, Some data))"

subsection \<open>SIV\<close>

definition dbl :: "bytes \<Rightarrow> bytes" where
  "dbl pad =
    (let carry = pad ! 0 AND 0x80;
         pad = map (\<lambda>i. if i < 15 then push_bit 1 (pad ! i) OR drop_bit 7 (pad ! (i + 1)) else push_bit 1 (pad ! 15)) [0..<16]
     in if carry \<noteq> 0 then pad[15 := pad ! 15 XOR 0x87] else pad)"

definition xorend :: "bytes \<Rightarrow> bytes \<Rightarrow> bytes" where
  "xorend a b =
    (if length a < length b then a
     else take (length a - length b) a @ xor_bytes (drop (length a - length b) a) b)"

definition pad_block :: "bytes \<Rightarrow> bytes" where
  "pad_block addr = (if length addr < 16 then addr @ [0x80] @ replicate (15 - length addr) 0 else addr)"

fun s2v_loop :: "aes \<Rightarrow> bytes \<Rightarrow> bytes \<Rightarrow> bytes list \<Rightarrow> bytes option" where
  "s2v_loop A key tmp [] = omac1_aes_128 A key (replicate 15 0 @ [1])"
| "s2v_loop A key tmp [e] =
    (if length e \<ge> 16 then omac1_aes_128 A key (xorend e tmp)
     else omac1_aes_128 A key (xor_bytes (dbl tmp) (pad_block e)))"
| "s2v_loop A key tmp (e # es) = do {
     tmp2 \<leftarrow> omac1_aes_128 A key e;
     s2v_loop A key (xor_bytes (dbl tmp) tmp2) es
   }"

definition aes_s2v :: "aes \<Rightarrow> bytes \<Rightarrow> bytes list \<Rightarrow> bytes option" where
  "aes_s2v A key addr =
    (if addr = [] then omac1_aes_128 A key (replicate 15 0 @ [1])
     else do { tmp \<leftarrow> omac1_aes_128 A key (replicate 16 0); s2v_loop A key tmp addr })"

definition siv_counter :: "bytes \<Rightarrow> bytes" where
  "siv_counter v = v[8 := v ! 8 AND 0x7f, 12 := v ! 12 AND 0x7f]"

definition aes_siv_encrypt :: "aes \<Rightarrow> bytes \<Rightarrow> bytes \<Rightarrow> bytes list \<Rightarrow> bytes option" where
  "aes_siv_encrypt A key pw addr =
    (if length addr > 5 then None
     else do {
       v \<leftarrow> aes_s2v A (take 16 key) (addr @ [pw]);
       crypt_pw \<leftarrow> aes_128_ctr_encrypt A (drop 16 key) (siv_counter v) pw;
       Some (v @ crypt_pw)
     })"

definition aes_siv_decrypt :: "aes \<Rightarrow> bytes \<Rightarrow> bytes \<Rightarrow> bytes list \<Rightarrow> int \<times> bytes option" where
  "aes_siv_decrypt A key iv_crypt addr =
    (if length iv_crypt < 16 \<or> length addr > 5 then (-1, None)
     else case aes_128_ctr_encrypt A (drop 16 key) (siv_counter (take 16 iv_crypt)) (drop 16 iv_crypt) of
            None \<Rightarrow> (-1, Some (drop 16 iv_crypt))
          | Some out \<Rightarrow>
              (case aes_s2v A (take 16 key) (addr @ [out]) of
                 None \<Rightarrow> (-1, Some out)
               | Some check \<Rightarrow> if check = take 16 iv_crypt then (0, Some out) else (-1, Some out)))"

subsection \<open>CCM\<close>

definition ccm_b0 :: "nat \<Rightarrow> bytes \<Rightarrow> nat \<Rightarrow> nat \<Rightarrow> bytes" where
  "ccm_b0 M nonce aad_len plain_len =
    [(if aad_len \<noteq> 0 then 0x40 else 0) OR ucast (push_bit 3 ((of_nat M - 2 :: u64) div 2)) OR 1] @
    take 13 nonce @ WPA_PUT_BE16 (of_nat plain_len)"

definition aes_ccm_auth_start :: "(bytes \<Rightarrow> bytes) \<Rightarrow> nat \<Rightarrow> bytes \<Rightarrow> bytes \<Rightarrow> nat \<Rightarrow> bytes" where
  "aes_ccm_auth_start E M nonce aad plain_len =
    (let x = E (ccm_b0 M nonce (length aad) plain_len)
     in if aad = [] then x
        else let aad_buf = WPA_PUT_BE16 (of_nat (length aad)) @ aad @ replicate (30 - length aad) 0;
                 x = E (xor_bytes (take 16 aad_buf) x)
             in if length aad > 14 then E (xor_bytes (drop 16 aad_buf) x) else x)"

fun ccm_auth_loop :: "(bytes \<Rightarrow> bytes) \<Rightarrow> nat \<Rightarrow> bytes \<Rightarrow> bytes \<Rightarrow> bytes" where
  "ccm_auth_loop E 0 data x = (if data = [] then x else E (xor_bytes (take (length data) x) data @ drop (length data) x))"
| "ccm_auth_loop E (Suc n) data x = ccm_auth_loop E n (drop 16 data) (E (xor_bytes x (take 16 data)))"

definition aes_ccm_auth :: "(bytes \<Rightarrow> bytes) \<Rightarrow> bytes \<Rightarrow> bytes \<Rightarrow> bytes" where
  "aes_ccm_auth E data x = ccm_auth_loop E (length data div 16) data x"

text \<open>The counter block; \<open>L\<close> is 2.\<close>

definition ccm_a :: "bytes \<Rightarrow> nat \<Rightarrow> bytes" where
  "ccm_a nonce i = [1] @ take 13 nonce @ WPA_PUT_BE16 (of_nat i)"

text \<open>
  The key stream of one block is exclusive-ored into the output. For a partial last block the
  source lets \<open>aes_encrypt\<close> write all sixteen bytes of the key stream to \<open>out\<close> and then combines
  only the \<open>last\<close> bytes that exist (aes-ccm.c, lines 107 to 113), so it stores up to fifteen
  bytes past the data. The value of the definition is the data area, the first \<open>len\<close> bytes; the
  bytes behind it are outside the model, and a caller needs a buffer rounded up to whole blocks.
\<close>

fun ccm_encr_loop :: "(bytes \<Rightarrow> bytes) \<Rightarrow> bytes \<Rightarrow> nat \<Rightarrow> nat \<Rightarrow> bytes \<Rightarrow> bytes" where
  "ccm_encr_loop E nonce i 0 inp = (if inp = [] then [] else xor_bytes (take (length inp) (E (ccm_a nonce i))) inp)"
| "ccm_encr_loop E nonce i (Suc n) inp =
    xor_bytes (E (ccm_a nonce i)) (take 16 inp) @ ccm_encr_loop E nonce (Suc i) n (drop 16 inp)"

definition aes_ccm_encr :: "(bytes \<Rightarrow> bytes) \<Rightarrow> bytes \<Rightarrow> bytes \<Rightarrow> bytes" where
  "aes_ccm_encr E nonce inp = ccm_encr_loop E nonce 1 (length inp div 16) inp"

definition aes_ccm_encr_auth :: "(bytes \<Rightarrow> bytes) \<Rightarrow> bytes \<Rightarrow> nat \<Rightarrow> bytes \<Rightarrow> bytes" where
  "aes_ccm_encr_auth E nonce M x = take M (xor_bytes x (E (ccm_a nonce 0)))"

definition aes_ccm_decr_auth :: "(bytes \<Rightarrow> bytes) \<Rightarrow> bytes \<Rightarrow> nat \<Rightarrow> bytes \<Rightarrow> bytes" where
  "aes_ccm_decr_auth E nonce M auth = xor_bytes (take M auth) (take M (E (ccm_a nonce 0)))"

definition aes_ccm_ae :: "aes \<Rightarrow> bytes \<Rightarrow> bytes \<Rightarrow> nat \<Rightarrow> bytes \<Rightarrow> bytes \<Rightarrow> (bytes \<times> bytes) option" where
  "aes_ccm_ae A key nonce M plain aad =
    (if length aad > 30 \<or> M > 16 then None
     else case enc_init A key of
            None \<Rightarrow> None
          | Some E \<Rightarrow>
              let x = aes_ccm_auth E plain (aes_ccm_auth_start E M nonce aad (length plain))
              in Some (aes_ccm_encr E nonce plain, aes_ccm_encr_auth E nonce M x))"

definition aes_ccm_ad :: "aes \<Rightarrow> bytes \<Rightarrow> bytes \<Rightarrow> nat \<Rightarrow> bytes \<Rightarrow> bytes \<Rightarrow> bytes \<Rightarrow> int \<times> bytes option" where
  "aes_ccm_ad A key nonce M crypt aad auth =
    (if length aad > 30 \<or> M > 16 then (-1, None)
     else case enc_init A key of
            None \<Rightarrow> (-1, None)
          | Some E \<Rightarrow>
              let t = aes_ccm_decr_auth E nonce M auth;
                  plain = aes_ccm_encr E nonce crypt;
                  x = aes_ccm_auth E plain (aes_ccm_auth_start E M nonce aad (length crypt))
              in (if take M x \<noteq> t then -1 else 0, Some plain))"

subsection \<open>GCM\<close>

definition inc32 :: "bytes \<Rightarrow> bytes" where
  "inc32 block = take 12 block @ WPA_PUT_BE32 (WPA_GET_BE32 (drop 12 block) + 1)"

definition shift_word :: "u8 \<Rightarrow> bytes \<Rightarrow> bytes" where
  "shift_word prev v =
    WPA_PUT_BE32 (if prev AND 1 \<noteq> 0 then drop_bit 1 (WPA_GET_BE32 v) OR 0x80000000 else drop_bit 1 (WPA_GET_BE32 v))"

definition shift_right_block :: "bytes \<Rightarrow> bytes" where
  "shift_right_block v =
    shift_word 0 (take 4 v) @ shift_word (v ! 3) (take 4 (drop 4 v)) @
    shift_word (v ! 7) (take 4 (drop 8 v)) @ shift_word (v ! 11) (take 4 (drop 12 v))"

fun gf_mult_step :: "bytes \<Rightarrow> nat \<times> nat \<Rightarrow> bytes \<times> bytes \<Rightarrow> bytes \<times> bytes" where
  "gf_mult_step x (i, j) (z, v) =
    (if bit (x ! i) (7 - j) then xor_bytes z v else z,
     if v ! 15 AND 1 \<noteq> 0
     then let v = shift_right_block v in v[0 := v ! 0 XOR 0xe1]
     else shift_right_block v)"

definition gf_mult :: "bytes \<Rightarrow> bytes \<Rightarrow> bytes" where
  "gf_mult x y = fst (fold (gf_mult_step x) (List.product [0..<16] [0..<8]) (replicate 16 0, y))"

fun ghash_loop :: "bytes \<Rightarrow> nat \<Rightarrow> bytes \<Rightarrow> bytes \<Rightarrow> bytes" where
  "ghash_loop h 0 x y = (if x = [] then y else gf_mult (xor_bytes y (x @ replicate (16 - length x) 0)) h)"
| "ghash_loop h (Suc m) x y = ghash_loop h m (drop 16 x) (gf_mult (xor_bytes y (take 16 x)) h)"

definition ghash :: "bytes \<Rightarrow> bytes \<Rightarrow> bytes \<Rightarrow> bytes" where
  "ghash h x y = ghash_loop h (length x div 16) x y"

fun gctr_loop :: "(bytes \<Rightarrow> bytes) \<Rightarrow> nat \<Rightarrow> bytes \<Rightarrow> bytes \<Rightarrow> bytes" where
  "gctr_loop E 0 cb x = (if x = [] then [] else xor_bytes x (take (length x) (E cb)))"
| "gctr_loop E (Suc n) cb x = xor_bytes (E cb) (take 16 x) @ gctr_loop E n (inc32 cb) (drop 16 x)"

definition aes_gctr :: "(bytes \<Rightarrow> bytes) \<Rightarrow> bytes \<Rightarrow> bytes \<Rightarrow> bytes" where
  "aes_gctr E icb x = gctr_loop E (length x div 16) icb x"

definition WPA_PUT_BE64 :: "u64 \<Rightarrow> bytes" where
  "WPA_PUT_BE64 v = map (\<lambda>i. ucast (drop_bit (56 - 8 * i) v)) [0..<8]"

definition aes_gcm_prepare_j0 :: "bytes \<Rightarrow> bytes \<Rightarrow> bytes" where
  "aes_gcm_prepare_j0 iv H =
    (if length iv = 12 then iv @ [0, 0, 0, 1]
     else ghash H (WPA_PUT_BE64 0 @ WPA_PUT_BE64 (of_nat (length iv) * 8)) (ghash H iv (replicate 16 0)))"

definition aes_gcm_gctr :: "(bytes \<Rightarrow> bytes) \<Rightarrow> bytes \<Rightarrow> bytes \<Rightarrow> bytes" where
  "aes_gcm_gctr E J0 inp = (if inp = [] then [] else aes_gctr E (inc32 J0) inp)"

definition aes_gcm_ghash :: "bytes \<Rightarrow> bytes \<Rightarrow> bytes \<Rightarrow> bytes" where
  "aes_gcm_ghash H aad crypt =
    ghash H (WPA_PUT_BE64 (of_nat (length aad) * 8) @ WPA_PUT_BE64 (of_nat (length crypt) * 8))
      (ghash H crypt (ghash H aad (replicate 16 0)))"

definition aes_gcm_ae :: "aes \<Rightarrow> bytes \<Rightarrow> bytes \<Rightarrow> bytes \<Rightarrow> bytes \<Rightarrow> (bytes \<times> bytes) option" where
  "aes_gcm_ae A key iv plain aad =
    (case enc_init A key of
       None \<Rightarrow> None
     | Some E \<Rightarrow>
         let H = E (replicate 16 0);
             J0 = aes_gcm_prepare_j0 iv H;
             crypt = aes_gcm_gctr E J0 plain
         in Some (crypt, aes_gctr E J0 (aes_gcm_ghash H aad crypt)))"

definition aes_gcm_ad :: "aes \<Rightarrow> bytes \<Rightarrow> bytes \<Rightarrow> bytes \<Rightarrow> bytes \<Rightarrow> bytes \<Rightarrow> int \<times> bytes option" where
  "aes_gcm_ad A key iv crypt aad tag =
    (case enc_init A key of
       None \<Rightarrow> (-1, None)
     | Some E \<Rightarrow>
         let H = E (replicate 16 0);
             J0 = aes_gcm_prepare_j0 iv H;
             plain = aes_gcm_gctr E J0 crypt;
             T = aes_gctr E J0 (aes_gcm_ghash H aad crypt)
         in (if take 16 tag \<noteq> T then -1 else 0, Some plain))"

definition aes_gmac :: "aes \<Rightarrow> bytes \<Rightarrow> bytes \<Rightarrow> bytes \<Rightarrow> bytes option" where
  "aes_gmac A key iv aad = map_option snd (aes_gcm_ae A key iv [] aad)"

subsection \<open>Exclusive or of byte strings\<close>

lemma length_xor_bytes [simp]: "length (xor_bytes a b) = min (length a) (length b)"
  by (simp add: xor_bytes_def)

lemma nth_xor_bytes: "i < length a \<Longrightarrow> i < length b \<Longrightarrow> xor_bytes a b ! i = a ! i XOR b ! i"
  by (simp add: xor_bytes_def)

lemma xor_bytes_comm: "xor_bytes a b = xor_bytes b a"
  by (auto simp: xor_bytes_def xor.commute intro!: nth_equalityI)

lemma xor_bytes_cancel: "length a \<le> length b \<Longrightarrow> xor_bytes (xor_bytes a b) b = a"
  by (auto simp: nth_xor_bytes xor.assoc intro!: nth_equalityI)

lemma xor_bytes_cancel_left: "length a \<le> length b \<Longrightarrow> xor_bytes b (xor_bytes b a) = a"
  using xor_bytes_cancel[of a b] by (simp add: xor_bytes_comm)

lemma xor_bytes_nil [simp]: "xor_bytes [] b = []" "xor_bytes a [] = []"
  by (simp_all add: xor_bytes_def)

lemma xor_bytes_take: "xor_bytes a (take (length a) b) = xor_bytes a b"
  by (auto simp: nth_xor_bytes intro!: nth_equalityI)

subsection \<open>What the modes rely on\<close>

text \<open>
  The interface of the block cipher: contexts for both directions exist for the same keys, blocks have 16 bytes, and
  decryption takes encryption back.
\<close>

locale block_cipher =
  fixes A :: aes
  assumes enc_length: "enc_init A key = Some E \<Longrightarrow> length b = 16 \<Longrightarrow> length (E b) = 16"
    and dec_enc: "enc_init A key = Some E \<Longrightarrow> \<exists>D. dec_init A key = Some D \<and> (\<forall>b. length b = 16 \<longrightarrow> D (E b) = b)"
    and dec_none: "enc_init A key = None \<Longrightarrow> dec_init A key = None"
begin

lemma dec_init_SomeE:
  assumes "enc_init A key = Some E"
  obtains D where "dec_init A key = Some D" "\<And>b. length b = 16 \<Longrightarrow> D (E b) = b"
  using dec_enc[OF assms] by blast

text \<open>There are only finitely many blocks, so encryption takes decryption back as well.\<close>

lemma enc_dec:
  assumes "enc_init A key = Some E" "dec_init A key = Some D" "length c = 16"
  shows "E (D c) = c \<and> length (D c) = 16"
proof -
  let ?B = "{b :: bytes. length b = 16}"
  have D: "D (E b) = b" if "length b = 16" for b using dec_enc[OF assms(1)] assms(2) that by auto
  have "finite ?B" using finite_lists_length_eq[of "UNIV :: u8 set" 16] by simp
  moreover have "E ` ?B \<subseteq> ?B" using enc_length[OF assms(1)] by auto
  moreover have "inj_on E ?B" by (rule inj_on_inverseI[of _ D]) (simp add: D)
  ultimately have "E ` ?B = ?B" by (rule endo_inj_surj)
  then have "c \<in> E ` ?B" using assms(3) by simp
  then obtain b where "length b = 16" "E b = c" by auto
  then show ?thesis using D by auto
qed

end

subsection \<open>Key wrap\<close>

lemma length_xor_t [simp]: "length (xor_t t a) = length a"
  by (simp add: xor_t_def)

lemma xor_t_xor_t [simp]: "length a = 8 \<Longrightarrow> xor_t t (xor_t t a) = a"
  by (auto simp: xor_t_def nth_list_update xor.assoc intro!: nth_equalityI)

lemma length_get_block: "1 \<le> i \<Longrightarrow> i \<le> n \<Longrightarrow> length r = 8 * n \<Longrightarrow> length (get_block i r) = 8"
  by (cases i) (auto simp: get_block_def)

lemma block_lemmas:
  assumes "1 \<le> i" "i \<le> n" "length r = 8 * n" "length blk = 8"
  shows "length (put_block i blk r) = 8 * n" "get_block i (put_block i blk r) = blk"
    "put_block i blk' (put_block i blk r) = put_block i blk' r" "put_block i (get_block i r) r = r"
proof -
  obtain m where i: "i = Suc m" using assms(1) by (cases i) auto
  have m: "8 * m + 8 \<le> 8 * n" using assms(2) i by simp
  show "length (put_block i blk r) = 8 * n" "get_block i (put_block i blk r) = blk"
    "put_block i blk' (put_block i blk r) = put_block i blk' r"
    using assms m by (auto simp: i get_block_def put_block_def min_def)
  have "take (8 * m) r @ take 8 (drop (8 * m) r) @ drop (8 * m + 8) r = r"
    by (metis append_take_drop_id drop_drop add.commute)
  then show "put_block i (get_block i r) r = r" by (simp add: i get_block_def put_block_def add.commute)
qed

definition wrap_state :: "nat \<Rightarrow> bytes \<times> bytes \<Rightarrow> bool" where
  "wrap_state n s \<longleftrightarrow> length (fst s) = 8 \<and> length (snd s) = 8 * n"

lemma wrap_step_state:
  assumes "\<And>b. length b = 16 \<Longrightarrow> length (E b) = 16" "wrap_state n s" "1 \<le> i" "i \<le> n"
  shows "wrap_state n (wrap_step E n (j, i) s)"
proof (cases s)
  case (Pair a r)
  then have "length (E (a @ get_block i r)) = 16" using assms by (simp add: wrap_state_def length_get_block)
  then show ?thesis using assms(2-) by (simp add: Pair wrap_state_def Let_def block_lemmas length_get_block)
qed

lemma unwrap_wrap_step:
  assumes "\<And>b. length b = 16 \<Longrightarrow> length (E b) = 16" "\<And>b. length b = 16 \<Longrightarrow> D (E b) = b"
    and "wrap_state n s" "1 \<le> i" "i \<le> n"
  shows "unwrap_step D n (j, i) (wrap_step E n (j, i) s) = s"
proof (cases s)
  case (Pair a r)
  then have a: "length a = 8" "length r = 8 * n" using assms(3) by (simp_all add: wrap_state_def)
  let ?b = "E (a @ get_block i r)"
  have "length ?b = 16" using assms(1,4,5) a by (simp add: length_get_block)
  moreover have "take 8 ?b @ drop 8 ?b = ?b" by (rule append_take_drop_id)
  ultimately show ?thesis
    using a assms(2,4,5) by (simp add: Pair Let_def block_lemmas length_get_block)
qed

lemma fold_undo:
  assumes "\<And>x s. x \<in> set xs \<Longrightarrow> P s \<Longrightarrow> P (f x s) \<and> g x (f x s) = s" "P s"
  shows "P (fold f xs s) \<and> fold g (rev xs) (fold f xs s) = s"
  using assms by (induction xs arbitrary: s) auto

lemma rev_product: "List.product (rev xs) (rev ys) = rev (List.product xs ys)"
  by (simp add: product_concat_map rev_concat rev_map comp_def)

lemma wrap_unwrap_step:
  assumes "\<And>b. length b = 16 \<Longrightarrow> length (D b) = 16" "\<And>b. length b = 16 \<Longrightarrow> E (D b) = b"
    and "wrap_state n s" "1 \<le> i" "i \<le> n"
  shows "wrap_state n (unwrap_step D n (j, i) s) \<and> wrap_step E n (j, i) (unwrap_step D n (j, i) s) = s"
proof (cases s)
  case (Pair a r)
  then have a: "length a = 8" "length r = 8 * n" using assms(3) by (simp_all add: wrap_state_def)
  let ?t = "xor_t (of_nat (n * j + i)) a"
  let ?b = "D (?t @ get_block i r)"
  have "length (?t @ get_block i r) = 16" using assms(4,5) a by (simp add: length_get_block)
  from assms(1,2)[OF this] have "length ?b = 16" "E ?b = ?t @ get_block i r" .
  moreover have "take 8 ?b @ drop 8 ?b = ?b" by (rule append_take_drop_id)
  ultimately show ?thesis
    using a assms(4,5) by (simp add: Pair Let_def block_lemmas length_get_block wrap_state_def)
qed

lemma steps_range: "x \<in> set (List.product [0..<6] [1..<Suc n]) \<Longrightarrow> \<exists>j i. x = (j, i) \<and> 1 \<le> i \<and> i \<le> n"
  by auto

lemma all_a6: "length a = 8 \<Longrightarrow> list_all (\<lambda>x. x = (0xa6 :: u8)) a \<longleftrightarrow> a = replicate 8 0xa6"
  by (auto simp: list_all_iff intro: replicate_eqI)

lemmas aes_unwrap_rev = aes_unwrap_def[unfolded rev_product]

context block_cipher
begin

lemma aes_unwrap_wrap:
  assumes "enc_init A kek = Some E" "length plain = 8 * n"
  shows "\<exists>c. aes_wrap A kek n plain = Some c \<and> length c = 8 * n + 8 \<and> aes_unwrap A kek n c = Some plain"
proof -
  obtain D where D: "dec_init A kek = Some D" "\<And>b. length b = 16 \<Longrightarrow> D (E b) = b" using dec_init_SomeE[OF assms(1)] by blast
  let ?xs = "List.product [0..<6] [1..<Suc n]" and ?s = "(replicate 8 0xa6, plain) :: bytes \<times> bytes"
  obtain a r where ar: "fold (wrap_step E n) ?xs ?s = (a, r)" by fastforce
  have "wrap_state n (fold (wrap_step E n) ?xs ?s) \<and> fold (unwrap_step D n) (rev ?xs) (fold (wrap_step E n) ?xs ?s) = ?s"
  proof (rule fold_undo)
    show "wrap_state n ?s" using assms(2) by (simp add: wrap_state_def)
    fix x s
    assume "x \<in> set ?xs" and s: "wrap_state n s"
    then obtain j i where "x = (j, i)" "1 \<le> i" "i \<le> n" using steps_range by blast
    then show "wrap_state n (wrap_step E n x s) \<and> unwrap_step D n x (wrap_step E n x s) = s"
      using wrap_step_state[of E n s i j] unwrap_wrap_step[of E D n s i j] enc_length[OF assms(1)] D(2) s by blast
  qed
  then have "length a = 8" "length r = 8 * n" "fold (unwrap_step D n) (rev ?xs) (a, r) = ?s"
    using ar by (simp_all add: wrap_state_def del: upt_Suc)
  moreover have "aes_wrap A kek n plain = Some (a @ r)" using assms ar by (simp add: aes_wrap_def del: upt_Suc)
  ultimately show ?thesis using D(1) by (simp add: aes_unwrap_rev list_all_iff del: upt_Suc)
qed

text \<open>Whatever unwraps without an error is what wrapping the result gives.\<close>

lemma aes_wrap_unwrap:
  assumes "aes_unwrap A kek n c = Some plain" "length c = 8 * n + 8"
  shows "aes_wrap A kek n plain = Some c \<and> length plain = 8 * n"
proof -
  obtain E where E: "enc_init A kek = Some E" using assms(1) dec_none by (cases "enc_init A kek") (auto simp: aes_unwrap_def)
  obtain D where D: "dec_init A kek = Some D" using dec_init_SomeE[OF E] by blast
  let ?xs = "List.product [0..<6] [1..<Suc n]" and ?s = "(take 8 c, drop 8 c)"
  note inv = enc_dec[OF E D]
  have *: "wrap_state n (fold (unwrap_step D n) (rev ?xs) ?s) \<and> fold (wrap_step E n) (rev (rev ?xs)) (fold (unwrap_step D n) (rev ?xs) ?s) = ?s"
  proof (rule fold_undo)
    show "wrap_state n ?s" using assms(2) by (simp add: wrap_state_def)
    fix x s
    assume "x \<in> set (rev ?xs)" and s: "wrap_state n s"
    then obtain j i where "x = (j, i)" "1 \<le> i" "i \<le> n" using steps_range by auto
    then show "wrap_state n (unwrap_step D n x s) \<and> wrap_step E n x (unwrap_step D n x s) = s"
      using wrap_unwrap_step[of D E n s i j] inv s by blast
  qed
  obtain a r where ar: "fold (unwrap_step D n) (rev ?xs) ?s = (a, r)" by fastforce
  have "length a = 8" "length r = 8 * n" "fold (wrap_step E n) ?xs (a, r) = ?s" using * ar by (simp_all add: wrap_state_def del: upt_Suc)
  moreover from this have "plain = r" "a = replicate 8 0xa6"
    using assms D ar all_a6[of a] by (auto simp: aes_unwrap_rev simp del: upt_Suc split: if_splits)
  ultimately show ?thesis using E by (simp add: aes_wrap_def del: upt_Suc)
qed

end

subsection \<open>Cipher block chaining\<close>

lemma cbc_decrypt_encrypt_loop:
  assumes "\<And>b. length b = 16 \<Longrightarrow> length (E b) = 16" "\<And>b. length b = 16 \<Longrightarrow> D (E b) = b"
    and "length cbc = 16" "16 * blocks \<le> length pos"
  shows "length (cbc_encrypt_loop E blocks cbc pos) = length pos \<and> cbc_decrypt_loop D blocks cbc (cbc_encrypt_loop E blocks cbc pos) = pos"
  using assms(3,4)
proof (induction blocks arbitrary: cbc pos)
  case 0
  then show ?case by simp
next
  case (Suc blocks)
  let ?x = "xor_bytes cbc (take 16 pos)"
  have x: "length ?x = 16" using Suc.prems by simp
  note IH = Suc.IH[of "E ?x" "drop 16 pos"]
  have "xor_bytes ?x cbc = take 16 pos" using xor_bytes_cancel[of "take 16 pos" cbc] Suc.prems by (simp add: xor_bytes_comm)
  then show ?case using IH Suc.prems assms(1,2)[OF x] by (simp add: Let_def append_take_drop_id)
qed

subsection \<open>Counter mode\<close>

lemma length_inc_from_end [simp]: "length (inc_from_end c) = length c"
  by (induction c) auto

lemma length_inc_counter [simp]: "length (inc_counter c) = length c"
  by (simp add: inc_counter_def)

lemma ctr_loop_nil [simp]: "ctr_loop E c [] = []"
  by (simp add: ctr_loop.simps)

lemma ctr_loop_twice:
  assumes "\<And>b. length b = 16 \<Longrightarrow> length (E b) = 16" "length c = 16"
  shows "length (ctr_loop E c pos) = length pos \<and> ctr_loop E c (ctr_loop E c pos) = pos"
  using assms(2)
proof (induction "length pos" arbitrary: c pos rule: less_induct)
  case less
  show ?case
  proof (cases "pos = []")
    case False
    let ?h = "xor_bytes (take 16 pos) (E c)"
    have h: "length ?h = min 16 (length pos)" "xor_bytes ?h (E c) = take 16 pos"
      using assms(1)[OF less.prems] by (simp_all add: xor_bytes_cancel)
    have IH: "length (ctr_loop E (inc_counter c) (drop 16 pos)) = length pos - 16"
      "ctr_loop E (inc_counter c) (ctr_loop E (inc_counter c) (drop 16 pos)) = drop 16 pos"
      using less.hyps[of "drop 16 pos" "inc_counter c"] less.prems False by auto
    have e: "ctr_loop E c pos = ?h @ ctr_loop E (inc_counter c) (drop 16 pos)" using False by (subst ctr_loop.simps) simp
    moreover have "?h \<noteq> []" using h(1) False by (metis length_0_conv min_less_iff_conj length_greater_0_conv zero_less_numeral less_nat_zero_code)
    moreover have "take 16 (ctr_loop E c pos) = ?h" "drop 16 (ctr_loop E c pos) = ctr_loop E (inc_counter c) (drop 16 pos)"
      using h(1) IH(1) by (auto simp: e min_def)
    ultimately show ?thesis using h IH by (subst (2) ctr_loop.simps) (auto simp: min_def)
  qed simp
qed

subsection \<open>OMAC1 is the MAC of the concatenated data\<close>

text \<open>The message authentication code of NIST SP 800-38B, on one byte string.\<close>

function cmac_loop :: "(bytes \<Rightarrow> bytes) \<Rightarrow> bytes \<Rightarrow> bytes \<Rightarrow> bytes \<Rightarrow> bytes \<Rightarrow> bytes" where
  "cmac_loop E k1 k2 cbc msg =
    (if length msg > 16 then cmac_loop E k1 k2 (E (xor_bytes cbc (take 16 msg))) (drop 16 msg)
     else if length msg = 16 then E (xor_bytes k1 (xor_bytes cbc msg))
     else E (xor_bytes k2 (xor_bytes cbc (msg @ [0x80] @ replicate (15 - length msg) 0))))"
  by auto
termination by (relation "measure (\<lambda>(E, k1, k2, cbc, msg). length msg)") auto

declare cmac_loop.simps [simp del]

definition cmac :: "(bytes \<Rightarrow> bytes) \<Rightarrow> bytes \<Rightarrow> bytes" where
  "cmac E msg =
    (let k1 = gf_mulx (E (replicate 16 0)) in cmac_loop E k1 (gf_mulx k1) (replicate 16 0) msg)"

definition content :: "cursor \<Rightarrow> bytes" where
  "content c = fst c @ concat (snd c)"

definition cursor_ok :: "cursor \<Rightarrow> bool" where
  "cursor_ok c \<longleftrightarrow> content c \<noteq> [] \<longrightarrow> fst c \<noteq> [] \<and> [] \<notin> set (snd c)"

lemma next_byte_ok:
  assumes "cursor_ok c" "content c \<noteq> []" "stop \<longleftrightarrow> length (content c) = 1"
  shows "\<exists>c'. next_byte stop c = Some (hd (content c), c') \<and> content c' = tl (content c) \<and> cursor_ok c'"
  using assms by (cases "(stop, c)" rule: next_byte.cases) (auto simp: cursor_ok_def content_def split: list.splits)

lemma absorb_ok:
  assumes "cursor_ok c" "n \<le> length (content c)" "n > 0 \<longrightarrow> (fin \<longleftrightarrow> length (content c) = n)" "i + n \<le> length cbc"
  shows "\<exists>c'. absorb fin i n cbc c = Some (take i cbc @ xor_bytes (take n (drop i cbc)) (take n (content c)) @ drop (i + n) cbc, c') \<and>
    content c' = drop n (content c) \<and> cursor_ok c'"
  using assms
proof (induction n arbitrary: i cbc c)
  case 0
  then show ?case by simp
next
  case (Suc n)
  have ne: "content c \<noteq> []" using Suc.prems(2) by auto
  have "(n = 0 \<and> fin) \<longleftrightarrow> length (content c) = 1" using Suc.prems(2,3) by auto
  from next_byte_ok[OF Suc.prems(1) ne this] obtain c1 where
    c1: "next_byte (n = 0 \<and> fin) c = Some (hd (content c), c1)" "content c1 = tl (content c)" "cursor_ok c1" by blast
  let ?cbc = "cbc[i := cbc ! i XOR hd (content c)]"
  have "\<exists>c'. absorb fin (Suc i) n ?cbc c1 = Some (take (Suc i) ?cbc @ xor_bytes (take n (drop (Suc i) ?cbc)) (take n (content c1)) @ drop (Suc i + n) ?cbc, c') \<and>
      content c' = drop n (content c1) \<and> cursor_ok c'"
    using Suc.prems c1(2,3) by (intro Suc.IH) auto
  moreover have "take (Suc i) ?cbc = take i cbc @ [cbc ! i XOR hd (content c)]" "drop (Suc i) ?cbc = drop (Suc i) cbc"
    "drop (Suc i + n) ?cbc = drop (Suc i + n) cbc"
    using Suc.prems(4) by (simp_all add: take_Suc_conv_app_nth take_update_swap list_update_append)
  moreover have "xor_bytes (take (Suc n) (drop i cbc)) (take (Suc n) (content c)) =
      (cbc ! i XOR hd (content c)) # xor_bytes (take n (drop (Suc i) cbc)) (take n (content c1))"
    using Suc.prems(4) ne by (cases "content c") (simp_all add: c1(2) xor_bytes_def Cons_nth_drop_Suc[symmetric])
  ultimately show ?case using c1 by (auto simp: drop_Suc)
qed

lemma omac1_blocks_ok:
  assumes "cursor_ok c" "length cbc = 16" "\<And>b. length b = 16 \<Longrightarrow> length (E b) = 16"
  shows "\<exists>left cbc' c'. omac1_blocks E (length (content c)) cbc c = Some (left, cbc', c') \<and> left = length (content c') \<and> left < 16 \<and>
    length cbc' = 16 \<and> cursor_ok c' \<and>
    cmac_loop E k1 k2 cbc (content c) =
      (if left = 0 \<and> content c \<noteq> [] then E (xor_bytes k1 cbc') else cmac_loop E k1 k2 cbc' (content c'))"
  using assms(1,2)
proof (induction "length (content c)" arbitrary: c cbc rule: less_induct)
  case less
  show ?case
  proof (cases "length (content c) \<ge> 16")
    case False
    then show ?thesis using less.prems by (subst omac1_blocks.simps) auto
  next
    case True
    obtain c1 where c1: "absorb (length (content c) = 16) 0 16 cbc c = Some (xor_bytes cbc (take 16 (content c)), c1)"
      "content c1 = drop 16 (content c)" "cursor_ok c1"
      using absorb_ok[OF less.prems(1) True, of "length (content c) = 16" 0 cbc] less.prems(2) by auto
    let ?x = "xor_bytes cbc (take 16 (content c))"
    have x: "length ?x = 16" using True less.prems(2) by simp
    show ?thesis
    proof (cases "length (content c) = 16")
      case eq: True
      have "omac1_blocks E (length (content c)) cbc c = Some (0, ?x, c1)"
        using c1 eq by (subst omac1_blocks.simps) (simp add: omac1_blocks.simps)
      then show ?thesis using c1 eq x by (auto simp: cmac_loop.simps[of E k1 k2 cbc])
    next
      case False
      then have gt: "length (content c) > 16" using True by simp
      have "omac1_blocks E (length (content c)) cbc c = omac1_blocks E (length (content c1)) (E ?x) c1"
        using c1 gt by (subst omac1_blocks.simps) simp
      moreover have "cmac_loop E k1 k2 cbc (content c) = cmac_loop E k1 k2 (E ?x) (content c1)"
        using gt c1(2) by (subst cmac_loop.simps) simp
      moreover have "content c1 \<noteq> []" "length (content c1) < length (content c)" using gt c1(2) by auto
      ultimately show ?thesis using less.hyps[of c1 "E ?x"] c1(3) assms(3)[OF x] gt by fastforce
    qed
  qed
qed

lemma length_gf_mulx [simp]: "length (gf_mulx pad) = 16"
  by (simp add: gf_mulx_def Let_def)

lemma absorb_last:
  assumes "length cbc = 16" "length msg < 16"
  shows "(xor_bytes (take (length msg) cbc) msg @ drop (length msg) cbc)
      [length msg := (xor_bytes (take (length msg) cbc) msg @ drop (length msg) cbc) ! length msg XOR 0x80] =
    xor_bytes cbc (msg @ [0x80] @ replicate (15 - length msg) 0)"
proof (rule nth_equalityI)
  fix i
  assume "i < length ((xor_bytes (take (length msg) cbc) msg @ drop (length msg) cbc)
      [length msg := (xor_bytes (take (length msg) cbc) msg @ drop (length msg) cbc) ! length msg XOR 0x80])"
  then show "(xor_bytes (take (length msg) cbc) msg @ drop (length msg) cbc)
      [length msg := (xor_bytes (take (length msg) cbc) msg @ drop (length msg) cbc) ! length msg XOR 0x80] ! i =
    xor_bytes cbc (msg @ [0x80] @ replicate (15 - length msg) 0) ! i"
    using assms by (cases "i < length msg"; cases "i = length msg") (auto simp: nth_xor_bytes nth_append nth_list_update)
qed (use assms in simp)

lemma length_cmac_loop:
  assumes "\<And>b. length b = 16 \<Longrightarrow> length (E b) = 16" "length k1 = 16" "length k2 = 16" "length cbc = 16"
  shows "length (cmac_loop E k1 k2 cbc msg) = 16"
  using assms(4)
proof (induction "length msg" arbitrary: cbc msg rule: less_induct)
  case less
  then show ?case using assms(1-3) by (subst cmac_loop.simps) auto
qed

lemma length_cmac: "(\<And>b. length b = 16 \<Longrightarrow> length (E b) = 16) \<Longrightarrow> length (cmac E msg) = 16"
  by (simp add: cmac_def Let_def length_cmac_loop)

lemma content_start: "content (e, es) = concat (e # es)"
  by (simp add: content_def)

lemma omac1_aes_vector_eq:
  assumes E: "enc_init A key = Some E" "\<And>b. length b = 16 \<Longrightarrow> length (E b) = 16"
    and addr: "addr \<noteq> []" "concat addr \<noteq> [] \<Longrightarrow> [] \<notin> set addr"
  shows "omac1_aes_vector A key addr = Some (cmac E (concat addr))"
proof -
  obtain e es where a: "addr = e # es" using addr(1) by (cases addr) auto
  let ?k1 = "gf_mulx (E (replicate 16 0))"
  have ok: "cursor_ok (e, es)" using addr(2) by (auto simp: cursor_ok_def content_start a)
  have total: "sum_list (map length addr) = length (content (e, es))" by (simp add: a content_start length_concat)
  from omac1_blocks_ok[OF ok, of "replicate 16 0" E ?k1 "gf_mulx ?k1"] E(2) obtain left cbc c where
    b: "omac1_blocks E (length (content (e, es))) (replicate 16 0) (e, es) = Some (left, cbc, c)" "left = length (content c)" "left < 16"
      "length cbc = 16" "cursor_ok c"
      "cmac E (content (e, es)) = (if left = 0 \<and> content (e, es) \<noteq> [] then E (xor_bytes ?k1 cbc) else cmac_loop E ?k1 (gf_mulx ?k1) cbc (content c))"
    by (auto simp: cmac_def Let_def)
  from absorb_ok[OF b(5), of left True 0 cbc] b(2-4) obtain c' where
    "absorb True 0 left cbc c = Some (xor_bytes (take left cbc) (content c) @ drop left cbc, c')" by auto
  moreover have "cmac_loop E ?k1 (gf_mulx ?k1) cbc (content c) =
      E (xor_bytes (gf_mulx ?k1) (xor_bytes cbc (content c @ [0x80] @ replicate (15 - length (content c)) 0)))"
    using b(2,3) by (subst cmac_loop.simps) simp
  ultimately show ?thesis
    using E(1) b absorb_last[of cbc "content c"] total by (simp add: omac1_aes_vector_def Let_def a content_start) blast
qed

text \<open>An element of length zero that is reached before the last byte sends the code outside the data.\<close>

lemma omac1_empty_element:
  assumes "enc_init A key = Some E" "concat es \<noteq> []"
  shows "omac1_aes_vector A key ([] # es) = None"
proof -
  define n where "n = sum_list (map length es)"
  have "n > 0" using assms(2) by (simp add: n_def length_concat[symmetric])
  have "absorb fin i (Suc k) cbc ([], es) = None" for fin i k cbc by simp
  then have "absorb fin i 16 cbc ([], es) = None" for fin i cbc by (simp add: eval_nat_numeral)
  then have "omac1_blocks E n cbc ([], es) = (if n \<ge> 16 then None else Some (n, cbc, ([], es)))" for cbc
    by (subst omac1_blocks.simps) simp
  moreover have "absorb True 0 n cbc ([], es) = None" for cbc using \<open>n > 0\<close> by (cases n) simp_all
  ultimately show ?thesis using assms(1) \<open>n > 0\<close> by (simp add: omac1_aes_vector_def n_def Let_def split: option.splits)
qed

lemma omac1_aes_128_eq:
  assumes "enc_init A (take 16 key) = Some E" "\<And>b. length b = 16 \<Longrightarrow> length (E b) = 16"
  shows "omac1_aes_128 A key data = Some (cmac E data)"
  using omac1_aes_vector_eq[OF assms, of "[data]"] by (simp add: omac1_aes_128_def omac1_aes_128_vector_def)

lemma omac1_aes_128_None: "enc_init A (take 16 key) = None \<Longrightarrow> omac1_aes_128 A key data = None"
  by (simp add: omac1_aes_128_def omac1_aes_128_vector_def omac1_aes_vector_def)

subsection \<open>Authenticated modes\<close>

text \<open>
  For each mode: a ciphertext with its tag is accepted, and gives a plaintext, if and only if encrypting that plaintext
  gives this ciphertext and this tag.
\<close>

lemma ctr_swap:
  assumes "\<And>b. length b = 16 \<Longrightarrow> length (E b) = 16" "length c = 16"
  shows "ctr_loop E c x = y \<longleftrightarrow> x = ctr_loop E c y"
  using ctr_loop_twice[where E = E and c = c and pos = x] ctr_loop_twice[where E = E and c = c and pos = y] assms by auto

context block_cipher
begin

lemma eax_exact:
  assumes "length tag = 16"
  shows "aes_128_eax_decrypt A key nonce hdr c tag = (0, Some p) \<longleftrightarrow> aes_128_eax_encrypt A key nonce hdr p = Some (c, tag)"
proof (cases "enc_init A (take 16 key)")
  case None
  then show ?thesis by (simp add: aes_128_eax_decrypt_def aes_128_eax_encrypt_def eax_mac_def omac1_aes_128_None)
next
  case (Some E)
  note len = enc_length[OF Some]
  show ?thesis
    using ctr_swap[where E = E and c = "cmac E (replicate 15 0 @ [0] @ nonce)" and x = c and y = p, OF len length_cmac[OF len]] assms
    by (auto simp: aes_128_eax_decrypt_def aes_128_eax_encrypt_def eax_mac_def omac1_aes_128_eq[OF Some len] aes_128_ctr_encrypt_def Some)
qed

lemma length_aes_s2v:
  assumes "aes_s2v A key addr = Some v"
  shows "length v = 16"
proof -
  have m: "length w = 16" if "omac1_aes_128 A key d = Some w" for d w
    using that omac1_aes_128_None[of A key d] omac1_aes_128_eq[of A key _ d] enc_length length_cmac by (cases "enc_init A (take 16 key)") auto
  have "s2v_loop A key tmp addr = Some v \<Longrightarrow> length v = 16" for tmp
    by (induction addr arbitrary: tmp rule: induct_list012) (auto split: if_splits Option.bind_splits intro: m)
  then show ?thesis using assms m by (auto simp: aes_s2v_def split: if_splits Option.bind_splits)
qed

lemma siv_exact: "aes_siv_decrypt A key c addr = (0, Some p) \<longleftrightarrow> aes_siv_encrypt A key p addr = Some c"
proof (cases "enc_init A (take 16 (drop 16 key))")
  case None
  then show ?thesis by (auto simp: aes_siv_decrypt_def aes_siv_encrypt_def aes_128_ctr_encrypt_def split: Option.bind_splits)
next
  case (Some E)
  note len = enc_length[OF Some]
  have sw: "ctr_loop E (siv_counter v) x = y \<longleftrightarrow> x = ctr_loop E (siv_counter v) y" if "length v = 16" for v x y
    using ctr_swap[where E = E and c = "siv_counter v", OF len] that by (simp add: siv_counter_def)
  show ?thesis
  proof
    assume d: "aes_siv_decrypt A key c addr = (0, Some p)"
    then have "length c \<ge> 16" "length addr \<le> 5" "p = ctr_loop E (siv_counter (take 16 c)) (drop 16 c)"
      "aes_s2v A (take 16 key) (addr @ [p]) = Some (take 16 c)"
      by (auto simp: aes_siv_decrypt_def aes_128_ctr_encrypt_def Some split: if_splits option.splits)
    then show "aes_siv_encrypt A key p addr = Some c"
      using sw[of "take 16 c" p "drop 16 c"] by (simp add: aes_siv_encrypt_def aes_128_ctr_encrypt_def Some)
  next
    assume e: "aes_siv_encrypt A key p addr = Some c"
    then obtain v where v: "length addr \<le> 5" "aes_s2v A (take 16 key) (addr @ [p]) = Some v" "c = v @ ctr_loop E (siv_counter v) p"
      by (auto simp: aes_siv_encrypt_def aes_128_ctr_encrypt_def Some split: if_splits Option.bind_splits)
    have "ctr_loop E (siv_counter v) (ctr_loop E (siv_counter v) p) = p" using sw[OF length_aes_s2v[OF v(2)]] by simp
    then show "aes_siv_decrypt A key c addr = (0, Some p)"
      using v length_aes_s2v[OF v(2)] by (simp add: aes_siv_decrypt_def aes_128_ctr_encrypt_def Some)
  qed
qed

end

lemma length_ccm_a: "length nonce = 13 \<Longrightarrow> length (ccm_a nonce i) = 16"
  by (simp add: ccm_a_def WPA_PUT_BE16_def)

lemma ccm_encr_twice:
  assumes "\<And>b. length b = 16 \<Longrightarrow> length (E b) = 16" "length nonce = 13" "length inp div 16 = n"
  shows "length (ccm_encr_loop E nonce i n inp) = length inp \<and> ccm_encr_loop E nonce i n (ccm_encr_loop E nonce i n inp) = inp"
  using assms(3)
proof (induction n arbitrary: i inp)
  case 0
  have "length (E (ccm_a nonce i)) = 16" using assms(1) length_ccm_a[OF assms(2)] by blast
  moreover have "length inp < 16" using 0 by (simp add: div_eq_0_iff)
  ultimately show ?case using xor_bytes_cancel_left[of inp "take (length inp) (E (ccm_a nonce i))"] by (auto simp: min_def)
next
  case (Suc n)
  have S: "length (E (ccm_a nonce i)) = 16" using assms(1) length_ccm_a[OF assms(2)] by blast
  have l: "length inp \<ge> 16" using Suc.prems by (cases "length inp < 16") auto
  have "length (drop 16 inp) div 16 = n" using Suc.prems l by (simp add: div_if[of "length inp"])
  note IH = Suc.IH[OF this, of "Suc i"]
  have "xor_bytes (E (ccm_a nonce i)) (xor_bytes (E (ccm_a nonce i)) (take 16 inp)) = take 16 inp"
    using S l by (intro xor_bytes_cancel_left) simp
  then show ?case using IH S l by (simp add: min_def)
qed

lemma aes_ccm_encr_swap:
  assumes "\<And>b. length b = 16 \<Longrightarrow> length (E b) = 16" "length nonce = 13"
  shows "aes_ccm_encr E nonce x = y \<longleftrightarrow> x = aes_ccm_encr E nonce y"
  using ccm_encr_twice[where E = E and nonce = nonce and inp = x, OF assms refl] ccm_encr_twice[where E = E and nonce = nonce and inp = y, OF assms refl]
  unfolding aes_ccm_encr_def by metis

lemma length_aes_ccm_encr:
  assumes "\<And>b. length b = 16 \<Longrightarrow> length (E b) = 16" "length nonce = 13"
  shows "length (aes_ccm_encr E nonce x) = length x"
  using ccm_encr_twice[where E = E and nonce = nonce and inp = x, OF assms refl] unfolding aes_ccm_encr_def by blast

lemma ccm_tag_swap:
  assumes "length x = 16" "length s = 16" "length auth = M" "M \<le> 16"
  shows "take M x = xor_bytes (take M auth) (take M s) \<longleftrightarrow> auth = take M (xor_bytes x s)"
proof -
  have "take M (xor_bytes x s) = xor_bytes (take M x) (take M s)" by (simp add: xor_bytes_def take_map take_zip)
  moreover have "xor_bytes (xor_bytes (take M x) (take M s)) (take M s) = take M x" "xor_bytes (xor_bytes auth (take M s)) (take M s) = auth"
    using assms by (simp_all add: xor_bytes_cancel)
  ultimately show ?thesis using assms(3) by auto
qed

lemma length_ccm_auth_loop:
  assumes "\<And>b. length b = 16 \<Longrightarrow> length (E b) = 16" "length x = 16" "length data div 16 = n"
  shows "length (ccm_auth_loop E n data x) = 16"
  using assms(2,3)
proof (induction n arbitrary: data x)
  case 0
  then show ?case using assms(1) by (auto simp: div_eq_0_iff)
next
  case (Suc n)
  have l: "length data \<ge> 16" using Suc.prems(2) by (cases "length data < 16") auto
  have "length (drop 16 data) div 16 = n" using Suc.prems(2) l by (simp add: div_if[of "length data"])
  moreover have "length (E (xor_bytes x (take 16 data))) = 16" using Suc.prems(1) l assms(1) by simp
  ultimately show ?case using Suc.IH by simp
qed

lemma length_aes_ccm_auth_start:
  assumes "\<And>b. length b = 16 \<Longrightarrow> length (E b) = 16" "length nonce = 13" "length aad \<le> 30"
  shows "length (aes_ccm_auth_start E M nonce aad n) = 16"
  using assms by (auto simp: aes_ccm_auth_start_def Let_def ccm_b0_def WPA_PUT_BE16_def)

lemma length_gf_mult: "length y = 16 \<Longrightarrow> length (gf_mult x y) = 16"
proof -
  have v: "length (shift_right_block v) = 16" for v by (simp add: shift_right_block_def shift_word_def WPA_PUT_BE32_def)
  have "length (fst (fold (gf_mult_step x) ijs (z, v))) = 16 \<and> length (snd (fold (gf_mult_step x) ijs (z, v))) = 16"
    if "length z = 16" "length v = 16" for ijs z v
    using that by (induction ijs arbitrary: z v) (auto simp: Let_def v)
  then show "length y = 16 \<Longrightarrow> ?thesis" by (simp add: gf_mult_def)
qed

lemma length_ghash_loop:
  assumes "length h = 16" "length y = 16"
  shows "length (ghash_loop h n x y) = 16"
  using assms(2) by (induction n arbitrary: x y) (simp_all add: length_gf_mult assms(1))

lemma length_prepare_j0: "length H = 16 \<Longrightarrow> length (aes_gcm_prepare_j0 iv H) = 16"
  by (simp add: aes_gcm_prepare_j0_def ghash_def length_ghash_loop)

lemma length_inc32: "length c = 16 \<Longrightarrow> length (inc32 c) = 16"
  by (simp add: inc32_def WPA_PUT_BE32_def)

lemma gctr_twice:
  assumes "\<And>b. length b = 16 \<Longrightarrow> length (E b) = 16" "length cb = 16" "length x div 16 = n"
  shows "length (gctr_loop E n cb x) = length x \<and> gctr_loop E n cb (gctr_loop E n cb x) = x"
  using assms(2,3)
proof (induction n arbitrary: cb x)
  case 0
  then show ?case using assms(1)[OF 0(1)] xor_bytes_cancel[of x "take (length x) (E cb)"] by (auto simp: div_eq_0_iff min_def)
next
  case (Suc n)
  have l: "length x \<ge> 16" using Suc.prems(2) by (cases "length x < 16") auto
  have "length (drop 16 x) div 16 = n" using Suc.prems(2) l by (simp add: div_if[of "length x"])
  note IH = Suc.IH[OF length_inc32[OF Suc.prems(1)] this]
  have "xor_bytes (E cb) (xor_bytes (E cb) (take 16 x)) = take 16 x"
    using assms(1)[OF Suc.prems(1)] l by (intro xor_bytes_cancel_left) simp
  then show ?case using IH assms(1)[OF Suc.prems(1)] l by (simp add: min_def)
qed

lemma gcm_gctr_twice:
  assumes "\<And>b. length b = 16 \<Longrightarrow> length (E b) = 16" "length J0 = 16"
  shows "length (aes_gcm_gctr E J0 x) = length x \<and> aes_gcm_gctr E J0 (aes_gcm_gctr E J0 x) = x"
  using gctr_twice[where E = E and cb = "inc32 J0" and x = x, OF assms(1) length_inc32[OF assms(2)] refl]
  by (auto simp: aes_gcm_gctr_def aes_gctr_def)

context block_cipher
begin

lemma ccm_exact:
  assumes "length nonce = 13" "length auth = M"
  shows "aes_ccm_ad A key nonce M c aad auth = (0, Some p) \<longleftrightarrow> aes_ccm_ae A key nonce M p aad = Some (c, auth)"
proof (cases "length aad \<le> 30 \<and> M \<le> 16 \<and> enc_init A key \<noteq> None")
  case False
  then show ?thesis by (auto simp: aes_ccm_ad_def aes_ccm_ae_def)
next
  case True
  then obtain E where E: "enc_init A key = Some E" by blast
  note len = enc_length[OF E]
  let ?x = "\<lambda>p. aes_ccm_auth E p (aes_ccm_auth_start E M nonce aad (length p))"
  have x: "length (?x p) = 16" unfolding aes_ccm_auth_def
    using length_ccm_auth_loop[where E = E, OF len length_aes_ccm_auth_start[where E = E, OF len assms(1)] refl] True by blast
  have s: "length (E (ccm_a nonce 0)) = 16" using len length_ccm_a[OF assms(1)] by blast
  have sw: "p = aes_ccm_encr E nonce c \<longleftrightarrow> c = aes_ccm_encr E nonce p" using aes_ccm_encr_swap[where E = E, OF len assms(1)] by metis
  have lp: "p = aes_ccm_encr E nonce c \<Longrightarrow> length c = length p" using length_aes_ccm_encr[where E = E, OF len assms(1)] by metis
  have "aes_ccm_ad A key nonce M c aad auth = (0, Some p) \<longleftrightarrow> p = aes_ccm_encr E nonce c \<and> take M (?x p) = aes_ccm_decr_auth E nonce M auth"
    using True E lp by (auto simp: aes_ccm_ad_def Let_def)
  also have "\<dots> \<longleftrightarrow> c = aes_ccm_encr E nonce p \<and> auth = aes_ccm_encr_auth E nonce M (?x p)"
    using ccm_tag_swap[OF x s assms(2)] True sw by (simp add: aes_ccm_decr_auth_def aes_ccm_encr_auth_def)
  also have "\<dots> \<longleftrightarrow> aes_ccm_ae A key nonce M p aad = Some (c, auth)"
    using True E by (auto simp: aes_ccm_ae_def Let_def)
  finally show ?thesis .
qed

lemma gcm_exact:
  assumes "length tag = 16"
  shows "aes_gcm_ad A key iv c aad tag = (0, Some p) \<longleftrightarrow> aes_gcm_ae A key iv p aad = Some (c, tag)"
proof (cases "enc_init A key")
  case None
  then show ?thesis by (simp add: aes_gcm_ad_def aes_gcm_ae_def)
next
  case (Some E)
  note len = enc_length[OF Some]
  let ?J = "aes_gcm_prepare_j0 iv (E (replicate 16 0))"
  have "length ?J = 16" using len by (intro length_prepare_j0) simp
  note tw = gcm_gctr_twice[where E = E, OF len this]
  have "p = aes_gcm_gctr E ?J c \<longleftrightarrow> aes_gcm_gctr E ?J p = c" using tw by metis
  then show ?thesis using Some assms by (auto simp: aes_gcm_ad_def aes_gcm_ae_def Let_def)
qed

lemma cbc_round_trip:
  assumes "enc_init A (take 16 key) = Some E" "length iv = 16"
  shows "\<exists>c. aes_128_cbc_encrypt A key iv data = Some c \<and> length c = length data \<and> aes_128_cbc_decrypt A key iv c = Some data"
proof -
  obtain D where D: "dec_init A (take 16 key) = Some D" "\<And>b. length b = 16 \<Longrightarrow> D (E b) = b" using dec_init_SomeE[OF assms(1)] by blast
  from cbc_decrypt_encrypt_loop[where E = E and D = D, OF enc_length[OF assms(1)] D(2) assms(2), of "length data div 16" data]
  show ?thesis using assms(1) D(1) by (auto simp: aes_128_cbc_encrypt_def aes_128_cbc_decrypt_def)
qed

end

end
