(* ===== verification/AesInternal.thy ===== *)
theory AesInternal
  imports AesTables
begin

text \<open>
  The AES implementation of \<open>src/crypto\<close> (\<open>aes_i.h\<close>, \<open>aes-internal.c\<close>, \<open>aes-internal-enc.c\<close>, \<open>aes-internal-dec.c\<close>): key
  schedules, encryption and decryption of a block with combined tables, as the code computes them. It is shown to
  compute the cipher of FIPS 197, written out at the end, and decryption to be the inverse of encryption.

  The key schedule is a list of words that grows as the code fills its array; a pointer that moves through the
  schedule is the rest of that list. Allocation is taken to succeed. The shifts of promoted bytes into the sign bit
  (\<open>RCON\<close>, \<open>TD41\<close>) have their two's complement value.
\<close>

subsection \<open>Table access\<close>

definition rotr :: "u32 \<Rightarrow> nat \<Rightarrow> u32" where
  "rotr val bits = drop_bit bits val OR push_bit (32 - bits) val"

definition RCON :: "nat \<Rightarrow> u32" where "RCON i = push_bit 24 (ucast (rcons ! i))"

definition TE0 :: "u32 \<Rightarrow> u32" where "TE0 i = Te0 ! unat (drop_bit 24 i AND 0xff)"
definition TE1 :: "u32 \<Rightarrow> u32" where "TE1 i = rotr (Te0 ! unat (drop_bit 16 i AND 0xff)) 8"
definition TE2 :: "u32 \<Rightarrow> u32" where "TE2 i = rotr (Te0 ! unat (drop_bit 8 i AND 0xff)) 16"
definition TE3 :: "u32 \<Rightarrow> u32" where "TE3 i = rotr (Te0 ! unat (i AND 0xff)) 24"
definition TE41 :: "u32 \<Rightarrow> u32" where "TE41 i = push_bit 8 (Te0 ! unat (drop_bit 24 i AND 0xff)) AND 0xff000000"
definition TE42 :: "u32 \<Rightarrow> u32" where "TE42 i = Te0 ! unat (drop_bit 16 i AND 0xff) AND 0x00ff0000"
definition TE43 :: "u32 \<Rightarrow> u32" where "TE43 i = Te0 ! unat (drop_bit 8 i AND 0xff) AND 0x0000ff00"
definition TE44 :: "u32 \<Rightarrow> u32" where "TE44 i = drop_bit 8 (Te0 ! unat (i AND 0xff)) AND 0x000000ff"
definition TE421 :: "u32 \<Rightarrow> u32" where "TE421 i = push_bit 8 (Te0 ! unat (drop_bit 16 i AND 0xff)) AND 0xff000000"
definition TE432 :: "u32 \<Rightarrow> u32" where "TE432 i = Te0 ! unat (drop_bit 8 i AND 0xff) AND 0x00ff0000"
definition TE443 :: "u32 \<Rightarrow> u32" where "TE443 i = Te0 ! unat (i AND 0xff) AND 0x0000ff00"
definition TE414 :: "u32 \<Rightarrow> u32" where "TE414 i = drop_bit 8 (Te0 ! unat (drop_bit 24 i AND 0xff)) AND 0x000000ff"
definition TE411 :: "u32 \<Rightarrow> u32" where "TE411 i = push_bit 8 (Te0 ! unat (drop_bit 24 i AND 0xff)) AND 0xff000000"
definition TE422 :: "u32 \<Rightarrow> u32" where "TE422 i = Te0 ! unat (drop_bit 16 i AND 0xff) AND 0x00ff0000"
definition TE433 :: "u32 \<Rightarrow> u32" where "TE433 i = Te0 ! unat (drop_bit 8 i AND 0xff) AND 0x0000ff00"
definition TE444 :: "u32 \<Rightarrow> u32" where "TE444 i = drop_bit 8 (Te0 ! unat (i AND 0xff)) AND 0x000000ff"
definition TE4 :: "u32 \<Rightarrow> u32" where "TE4 i = drop_bit 8 (Te0 ! unat i) AND 0x000000ff"

definition TD0 :: "u32 \<Rightarrow> u32" where "TD0 i = Td0 ! unat (drop_bit 24 i AND 0xff)"
definition TD1 :: "u32 \<Rightarrow> u32" where "TD1 i = rotr (Td0 ! unat (drop_bit 16 i AND 0xff)) 8"
definition TD2 :: "u32 \<Rightarrow> u32" where "TD2 i = rotr (Td0 ! unat (drop_bit 8 i AND 0xff)) 16"
definition TD3 :: "u32 \<Rightarrow> u32" where "TD3 i = rotr (Td0 ! unat (i AND 0xff)) 24"
definition TD41 :: "u32 \<Rightarrow> u32" where "TD41 i = push_bit 24 (ucast (Td4s ! unat (drop_bit 24 i AND 0xff)))"
definition TD42 :: "u32 \<Rightarrow> u32" where "TD42 i = push_bit 16 (ucast (Td4s ! unat (drop_bit 16 i AND 0xff)))"
definition TD43 :: "u32 \<Rightarrow> u32" where "TD43 i = push_bit 8 (ucast (Td4s ! unat (drop_bit 8 i AND 0xff)))"
definition TD44 :: "u32 \<Rightarrow> u32" where "TD44 i = ucast (Td4s ! unat (i AND 0xff))"
definition TD0i :: "u32 \<Rightarrow> u32" where "TD0i i = Td0 ! unat (i AND 0xff)"
definition TD1i :: "u32 \<Rightarrow> u32" where "TD1i i = rotr (Td0 ! unat (i AND 0xff)) 8"
definition TD2i :: "u32 \<Rightarrow> u32" where "TD2i i = rotr (Td0 ! unat (i AND 0xff)) 16"
definition TD3i :: "u32 \<Rightarrow> u32" where "TD3i i = rotr (Td0 ! unat (i AND 0xff)) 24"

definition GETU32 :: "bytes \<Rightarrow> nat \<Rightarrow> u32" where
  "GETU32 pt off =
    push_bit 24 (ucast (pt ! off)) XOR push_bit 16 (ucast (pt ! (off + 1))) XOR
    push_bit 8 (ucast (pt ! (off + 2))) XOR ucast (pt ! (off + 3))"

definition PUTU32 :: "u32 \<Rightarrow> bytes" where
  "PUTU32 st = [ucast (drop_bit 24 st), ucast (drop_bit 16 st), ucast (drop_bit 8 st), ucast st]"

subsection \<open>Key schedules\<close>

definition expand128 :: "nat \<Rightarrow> u32 list \<Rightarrow> u32 list" where
  "expand128 i rk =
    (let p = 4 * i;
         temp = rk ! (p + 3);
         r4 = rk ! p XOR TE421 temp XOR TE432 temp XOR TE443 temp XOR TE414 temp XOR RCON i;
         r5 = rk ! (p + 1) XOR r4;
         r6 = rk ! (p + 2) XOR r5;
         r7 = rk ! (p + 3) XOR r6
     in rk @ [r4, r5, r6, r7])"

definition expand192 :: "nat \<Rightarrow> u32 list \<Rightarrow> u32 list" where
  "expand192 i rk =
    (let p = 6 * i;
         temp = rk ! (p + 5);
         r6 = rk ! p XOR TE421 temp XOR TE432 temp XOR TE443 temp XOR TE414 temp XOR RCON i;
         r7 = rk ! (p + 1) XOR r6;
         r8 = rk ! (p + 2) XOR r7;
         r9 = rk ! (p + 3) XOR r8
     in if i = 7 then rk @ [r6, r7, r8, r9]
        else let r10 = rk ! (p + 4) XOR r9;
                 r11 = rk ! (p + 5) XOR r10
             in rk @ [r6, r7, r8, r9, r10, r11])"

definition expand256 :: "nat \<Rightarrow> u32 list \<Rightarrow> u32 list" where
  "expand256 i rk =
    (let p = 8 * i;
         temp = rk ! (p + 7);
         r8 = rk ! p XOR TE421 temp XOR TE432 temp XOR TE443 temp XOR TE414 temp XOR RCON i;
         r9 = rk ! (p + 1) XOR r8;
         r10 = rk ! (p + 2) XOR r9;
         r11 = rk ! (p + 3) XOR r10
     in if i = 6 then rk @ [r8, r9, r10, r11]
        else let r12 = rk ! (p + 4) XOR TE411 r11 XOR TE422 r11 XOR TE433 r11 XOR TE444 r11;
                 r13 = rk ! (p + 5) XOR r12;
                 r14 = rk ! (p + 6) XOR r13;
                 r15 = rk ! (p + 7) XOR r14
             in rk @ [r8, r9, r10, r11, r12, r13, r14, r15])"

definition rijndaelKeySetupEnc :: "bytes \<Rightarrow> nat \<Rightarrow> (u32 list \<times> nat) option" where
  "rijndaelKeySetupEnc cipherKey keyBits =
    (let rk4 = [GETU32 cipherKey 0, GETU32 cipherKey 4, GETU32 cipherKey 8, GETU32 cipherKey 12]
     in if keyBits = 128 then Some (fold expand128 [0..<10] rk4, 10)
        else let rk6 = rk4 @ [GETU32 cipherKey 16, GETU32 cipherKey 20]
             in if keyBits = 192 then Some (fold expand192 [0..<8] rk6, 12)
                else let rk8 = rk6 @ [GETU32 cipherKey 24, GETU32 cipherKey 28]
                     in if keyBits = 256 then Some (fold expand256 [0..<7] rk8, 14) else None)"

definition swap_words :: "nat \<Rightarrow> nat \<Rightarrow> u32 list \<Rightarrow> u32 list" where
  "swap_words i j rk = rk[i := rk ! j, j := rk ! i]"

function invert_order :: "nat \<Rightarrow> nat \<Rightarrow> u32 list \<Rightarrow> u32 list" where
  "invert_order i j rk =
    (if i < j
     then invert_order (i + 4) (j - 4)
            (swap_words (i + 3) (j + 3) (swap_words (i + 2) (j + 2) (swap_words (i + 1) (j + 1) (swap_words i j rk))))
     else rk)"
  by auto
termination by (relation "measure (\<lambda>(i, j, rk). j)") auto

declare invert_order.simps [simp del]

definition inv_mix_word :: "u32 \<Rightarrow> u32" where
  "inv_mix_word w =
    TD0i (TE4 (drop_bit 24 w)) XOR TD1i (TE4 (drop_bit 16 w AND 0xff)) XOR
    TD2i (TE4 (drop_bit 8 w AND 0xff)) XOR TD3i (TE4 (w AND 0xff))"

definition inv_mix_key :: "nat \<Rightarrow> u32 list \<Rightarrow> u32 list" where
  "inv_mix_key i rk = fold (\<lambda>j rk. rk[4 * i + j := inv_mix_word (rk ! (4 * i + j))]) [0..<4] rk"

definition rijndaelKeySetupDec :: "bytes \<Rightarrow> nat \<Rightarrow> (u32 list \<times> nat) option" where
  "rijndaelKeySetupDec cipherKey keyBits =
    (case rijndaelKeySetupEnc cipherKey keyBits of
       None \<Rightarrow> None
     | Some (rk, Nr) \<Rightarrow> Some (fold inv_mix_key [1..<Nr] (invert_order 0 (4 * Nr) rk), Nr))"

subsection \<open>Encryption of a block\<close>

type_synonym state = "u32 \<times> u32 \<times> u32 \<times> u32"

definition start_state :: "u32 list \<Rightarrow> bytes \<Rightarrow> state" where
  "start_state rk pt =
    (GETU32 pt 0 XOR rk ! 0, GETU32 pt 4 XOR rk ! 1, GETU32 pt 8 XOR rk ! 2, GETU32 pt 12 XOR rk ! 3)"

fun enc_round :: "u32 list \<Rightarrow> state \<Rightarrow> state" where
  "enc_round rk (s0, s1, s2, s3) =
    (TE0 s0 XOR TE1 s1 XOR TE2 s2 XOR TE3 s3 XOR rk ! 0,
     TE0 s1 XOR TE1 s2 XOR TE2 s3 XOR TE3 s0 XOR rk ! 1,
     TE0 s2 XOR TE1 s3 XOR TE2 s0 XOR TE3 s1 XOR rk ! 2,
     TE0 s3 XOR TE1 s0 XOR TE2 s1 XOR TE3 s2 XOR rk ! 3)"

text \<open>The loop of the rounds; the number of rounds is even and not zero.\<close>

fun enc_loop :: "nat \<Rightarrow> u32 list \<Rightarrow> state \<Rightarrow> u32 list \<times> state" where
  "enc_loop r rk s =
    (let t = enc_round (drop 4 rk) s;
         rk = drop 8 rk
     in if r \<le> 1 then (rk, t) else enc_loop (r - 1) rk (enc_round rk t))"

declare enc_loop.simps [simp del]

fun enc_last :: "u32 list \<Rightarrow> state \<Rightarrow> bytes" where
  "enc_last rk (t0, t1, t2, t3) =
    PUTU32 (TE41 t0 XOR TE42 t1 XOR TE43 t2 XOR TE44 t3 XOR rk ! 0) @
    PUTU32 (TE41 t1 XOR TE42 t2 XOR TE43 t3 XOR TE44 t0 XOR rk ! 1) @
    PUTU32 (TE41 t2 XOR TE42 t3 XOR TE43 t0 XOR TE44 t1 XOR rk ! 2) @
    PUTU32 (TE41 t3 XOR TE42 t0 XOR TE43 t1 XOR TE44 t2 XOR rk ! 3)"

definition rijndaelEncrypt :: "u32 list \<Rightarrow> nat \<Rightarrow> bytes \<Rightarrow> bytes" where
  "rijndaelEncrypt rk Nr pt = (case enc_loop (Nr div 2) rk (start_state rk pt) of (rk, t) \<Rightarrow> enc_last rk t)"

type_synonym aes_ctx = "u32 list \<times> nat"

definition aes_encrypt_init :: "bytes \<Rightarrow> aes_ctx option" where
  "aes_encrypt_init key = rijndaelKeySetupEnc key (length key * 8)"

fun aes_encrypt :: "aes_ctx \<Rightarrow> bytes \<Rightarrow> bytes" where
  "aes_encrypt (rk, Nr) plain = rijndaelEncrypt rk Nr plain"

subsection \<open>Decryption of a block\<close>

definition aes_decrypt_init :: "bytes \<Rightarrow> aes_ctx option" where
  "aes_decrypt_init key = rijndaelKeySetupDec key (length key * 8)"

fun dec_round :: "u32 list \<Rightarrow> state \<Rightarrow> state" where
  "dec_round rk (s0, s1, s2, s3) =
    (TD0 s0 XOR TD1 s3 XOR TD2 s2 XOR TD3 s1 XOR rk ! 0,
     TD0 s1 XOR TD1 s0 XOR TD2 s3 XOR TD3 s2 XOR rk ! 1,
     TD0 s2 XOR TD1 s1 XOR TD2 s0 XOR TD3 s3 XOR rk ! 2,
     TD0 s3 XOR TD1 s2 XOR TD2 s1 XOR TD3 s0 XOR rk ! 3)"

fun dec_loop :: "nat \<Rightarrow> u32 list \<Rightarrow> state \<Rightarrow> u32 list \<times> state" where
  "dec_loop r rk s =
    (let t = dec_round (drop 4 rk) s;
         rk = drop 8 rk
     in if r \<le> 1 then (rk, t) else dec_loop (r - 1) rk (dec_round rk t))"

declare dec_loop.simps [simp del]

fun dec_last :: "u32 list \<Rightarrow> state \<Rightarrow> bytes" where
  "dec_last rk (t0, t1, t2, t3) =
    PUTU32 (TD41 t0 XOR TD42 t3 XOR TD43 t2 XOR TD44 t1 XOR rk ! 0) @
    PUTU32 (TD41 t1 XOR TD42 t0 XOR TD43 t3 XOR TD44 t2 XOR rk ! 1) @
    PUTU32 (TD41 t2 XOR TD42 t1 XOR TD43 t0 XOR TD44 t3 XOR rk ! 2) @
    PUTU32 (TD41 t3 XOR TD42 t2 XOR TD43 t1 XOR TD44 t0 XOR rk ! 3)"

definition rijndaelDecrypt :: "u32 list \<Rightarrow> nat \<Rightarrow> bytes \<Rightarrow> bytes" where
  "rijndaelDecrypt rk Nr ct = (case dec_loop (Nr div 2) rk (start_state rk ct) of (rk, t) \<Rightarrow> dec_last rk t)"

fun aes_decrypt :: "aes_ctx \<Rightarrow> bytes \<Rightarrow> bytes" where
  "aes_decrypt (rk, Nr) crypt = rijndaelDecrypt rk Nr crypt"

subsection \<open>Table access in terms of bytes\<close>

lemma unat_and_ff: "unat (w AND 0xff) = unat (ucast w :: u8)" for w :: u32
proof -
  have "w AND 0xff = take_bit 8 w" using take_bit_eq_mask[of 8 w] by (simp add: mask_eq_exp_minus_1)
  then show ?thesis by (simp add: unsigned_take_bit_eq unsigned_ucast_eq)
qed

lemma index_byte:
  "unat (drop_bit 24 i AND 0xff) = unat (byte3 i)" "unat (drop_bit 16 i AND 0xff) = unat (byte2 i)"
  "unat (drop_bit 8 i AND 0xff) = unat (byte1 i)" "unat (i AND 0xff) = unat (byte0 i)"
  by (simp_all only: unat_and_ff byte3_def byte2_def byte1_def byte0_def)

lemma byte0_drop [simp]: "byte0 (drop_bit 24 w) = byte3 w" "byte0 (drop_bit 16 w) = byte2 w" "byte0 (drop_bit 8 w) = byte1 w"
  by (simp_all add: byte0_def byte1_def byte2_def byte3_def)

lemma rotr_cat4:
  "rotr (cat4 a b c d) 8 = cat4 d a b c" "rotr (cat4 a b c d) 16 = cat4 c d a b" "rotr (cat4 a b c d) 24 = cat4 b c d a"
  by (rule bit_word_eqI; auto simp: rotr_def bit_simps bit_cat4)+

lemma bit_ff_masks:
  "bit (0xff000000 :: u32) n \<longleftrightarrow> 24 \<le> n \<and> n < 32" "bit (0x00ff0000 :: u32) n \<longleftrightarrow> 16 \<le> n \<and> n < 24"
  "bit (0x0000ff00 :: u32) n \<longleftrightarrow> 8 \<le> n \<and> n < 16" "bit (0x000000ff :: u32) n \<longleftrightarrow> n < 8"
proof -
  have m: "(0xff000000 :: u32) = push_bit 24 (mask 8)" "(0x00ff0000 :: u32) = push_bit 16 (mask 8)"
    "(0x0000ff00 :: u32) = push_bit 8 (mask 8)" "(0x000000ff :: u32) = mask 8"
    by (simp_all add: mask_eq_exp_minus_1)
  show "bit (0xff000000 :: u32) n \<longleftrightarrow> 24 \<le> n \<and> n < 32" "bit (0x00ff0000 :: u32) n \<longleftrightarrow> 16 \<le> n \<and> n < 24"
    "bit (0x0000ff00 :: u32) n \<longleftrightarrow> 8 \<le> n \<and> n < 16" "bit (0x000000ff :: u32) n \<longleftrightarrow> n < 8"
    unfolding m by (auto simp: bit_simps)
qed

lemma masks_cat4:
  "push_bit 8 (cat4 a b c d) AND 0xff000000 = cat4 b 0 0 0" "cat4 a b c d AND 0x00ff0000 = cat4 0 b 0 0"
  "cat4 a b c d AND 0x0000ff00 = cat4 0 0 c 0" "drop_bit 8 (cat4 a b c d) AND 0x000000ff = cat4 0 0 0 c"
  by (rule bit_word_eqI; unfold bit_and_iff bit_ff_masks bit_cat4 bit_push_bit_iff bit_drop_bit_eq; auto simp: bit_cat4)+

lemma push_cat4:
  "push_bit 24 (ucast a) = cat4 a 0 0 0" "push_bit 16 (ucast a) = cat4 0 a 0 0" "push_bit 8 (ucast a) = cat4 0 0 a 0" "ucast a = cat4 0 0 0 a"
  by (simp_all add: cat4_def)

lemmas te_defs = TE0_def TE1_def TE2_def TE3_def TE41_def TE42_def TE43_def TE44_def TE421_def TE432_def TE443_def TE414_def
  TE411_def TE422_def TE433_def TE444_def TD0_def TD1_def TD2_def TD3_def TD41_def TD42_def TD43_def TD44_def

lemma inv_mix_column_eq:
  "inv_mix_column s =
    cat4 (xtime s XOR xtime (xtime s) XOR xtime (xtime (xtime s))) (s XOR xtime (xtime (xtime s)))
      (s XOR xtime (xtime s) XOR xtime (xtime (xtime s))) (s XOR xtime s XOR xtime (xtime (xtime s)))"
  by (simp add: inv_mix_column_def inv_mix_from2_def inv_mix_from_def inv_column_def)

lemmas table_cat4 = te_defs index_byte Te0_at Td0_at mix_column_def inv_mix_column_eq rotr_cat4 masks_cat4

lemma TE_round:
  "TE0 a XOR TE1 b XOR TE2 c XOR TE3 d =
    cat4 (xtime (sbox (byte3 a)) XOR xtime (sbox (byte2 b)) XOR sbox (byte2 b) XOR sbox (byte1 c) XOR sbox (byte0 d))
      (sbox (byte3 a) XOR xtime (sbox (byte2 b)) XOR xtime (sbox (byte1 c)) XOR sbox (byte1 c) XOR sbox (byte0 d))
      (sbox (byte3 a) XOR sbox (byte2 b) XOR xtime (sbox (byte1 c)) XOR xtime (sbox (byte0 d)) XOR sbox (byte0 d))
      (xtime (sbox (byte3 a)) XOR sbox (byte3 a) XOR sbox (byte2 b) XOR sbox (byte1 c) XOR xtime (sbox (byte0 d)))"
  by (simp add: table_cat4 cat4_xor ac_simps)

lemma TE_last: "TE41 a XOR TE42 b XOR TE43 c XOR TE44 d = cat4 (sbox (byte3 a)) (sbox (byte2 b)) (sbox (byte1 c)) (sbox (byte0 d))"
  by (simp add: table_cat4 cat4_xor)

lemma TD_last: "TD41 a XOR TD42 b XOR TD43 c XOR TD44 d = cat4 (inv_sbox (byte3 a)) (inv_sbox (byte2 b)) (inv_sbox (byte1 c)) (inv_sbox (byte0 d))"
  by (simp add: te_defs index_byte inv_sbox_def[symmetric] cat4_def)

lemma TE4_byte: "TE4 (w AND 0xff) = cat4 0 0 0 (sbox (byte0 w))"
  by (simp add: TE4_def table_cat4)

lemma inv_mix_word_cat4:
  "inv_mix_word (cat4 a b c d) =
    inv_mix_column a XOR rotr (inv_mix_column b) 8 XOR rotr (inv_mix_column c) 16 XOR rotr (inv_mix_column d) 24"
proof -
  have top: "drop_bit 24 w = drop_bit 24 w AND 0xff" for w :: u32
    by (rule bit_word_eqI, unfold bit_and_iff bit_ff_masks bit_drop_bit_eq) (auto dest: bit_imp_le_length)
  have col: "Td0 ! unat (cat4 0 0 0 (sbox x) AND 0xff) = inv_mix_column x" for x
    by (simp add: index_byte Td0_at)
  show ?thesis
    unfolding inv_mix_word_def TD0i_def TD1i_def TD2i_def TD3i_def
    by (subst top) (simp only: TE4_byte byte0_drop bytes_of_cat4 col)
qed

lemma inv_mix_word_TE: "inv_mix_word (TE0 a XOR TE1 b XOR TE2 c XOR TE3 d) = TE41 a XOR TE42 b XOR TE43 c XOR TE44 d"
  unfolding TE_round TE_last inv_mix_word_cat4 inv_mix_column_eq rotr_cat4 cat4_xor cat4_eq_iff xtime_xor
  by (simp add: ac_simps)

lemma inv_mix_word_xor: "inv_mix_word (v XOR w) = inv_mix_word v XOR inv_mix_word w"
proof -
  have "inv_mix_word (cat4 a b c d XOR cat4 a' b' c' d') = inv_mix_word (cat4 a b c d) XOR inv_mix_word (cat4 a' b' c' d')"
    for a b c d a' b' c' d'
    unfolding inv_mix_word_cat4 cat4_xor inv_mix_column_eq rotr_cat4 cat4_eq_iff xtime_xor by (simp add: ac_simps)
  then show ?thesis by (metis cat4_bytes)
qed

lemma TD_round: "TD0 a XOR TD1 b XOR TD2 c XOR TD3 d = inv_mix_word (TD41 a XOR TD42 b XOR TD43 c XOR TD44 d)"
  unfolding TD_last inv_mix_word_cat4 by (simp add: te_defs index_byte Td0_at)

subsection \<open>Rounds on states\<close>

fun xor4 :: "state \<Rightarrow> state \<Rightarrow> state" where
  "xor4 (a, b, c, d) (a', b', c', d') = (a XOR a', b XOR b', c XOR c', d XOR d')"

definition round_key :: "u32 list \<Rightarrow> nat \<Rightarrow> state" where
  "round_key rk g = (rk ! (4 * g), rk ! (4 * g + 1), rk ! (4 * g + 2), rk ! (4 * g + 3))"

fun te_mix :: "state \<Rightarrow> state" where
  "te_mix (s0, s1, s2, s3) =
    (TE0 s0 XOR TE1 s1 XOR TE2 s2 XOR TE3 s3, TE0 s1 XOR TE1 s2 XOR TE2 s3 XOR TE3 s0,
     TE0 s2 XOR TE1 s3 XOR TE2 s0 XOR TE3 s1, TE0 s3 XOR TE1 s0 XOR TE2 s1 XOR TE3 s2)"

fun te_sub :: "state \<Rightarrow> state" where
  "te_sub (t0, t1, t2, t3) =
    (TE41 t0 XOR TE42 t1 XOR TE43 t2 XOR TE44 t3, TE41 t1 XOR TE42 t2 XOR TE43 t3 XOR TE44 t0,
     TE41 t2 XOR TE42 t3 XOR TE43 t0 XOR TE44 t1, TE41 t3 XOR TE42 t0 XOR TE43 t1 XOR TE44 t2)"

fun td_mix :: "state \<Rightarrow> state" where
  "td_mix (s0, s1, s2, s3) =
    (TD0 s0 XOR TD1 s3 XOR TD2 s2 XOR TD3 s1, TD0 s1 XOR TD1 s0 XOR TD2 s3 XOR TD3 s2,
     TD0 s2 XOR TD1 s1 XOR TD2 s0 XOR TD3 s3, TD0 s3 XOR TD1 s2 XOR TD2 s1 XOR TD3 s0)"

fun td_sub :: "state \<Rightarrow> state" where
  "td_sub (t0, t1, t2, t3) =
    (TD41 t0 XOR TD42 t3 XOR TD43 t2 XOR TD44 t1, TD41 t1 XOR TD42 t0 XOR TD43 t3 XOR TD44 t2,
     TD41 t2 XOR TD42 t1 XOR TD43 t0 XOR TD44 t3, TD41 t3 XOR TD42 t2 XOR TD43 t1 XOR TD44 t0)"

fun inv_mix4 :: "state \<Rightarrow> state" where
  "inv_mix4 (a, b, c, d) = (inv_mix_word a, inv_mix_word b, inv_mix_word c, inv_mix_word d)"

definition get4 :: "bytes \<Rightarrow> state" where
  "get4 pt = (GETU32 pt 0, GETU32 pt 4, GETU32 pt 8, GETU32 pt 12)"

fun put4 :: "state \<Rightarrow> bytes" where
  "put4 (a, b, c, d) = PUTU32 a @ PUTU32 b @ PUTU32 c @ PUTU32 d"

lemma xor4_cancel [simp]: "xor4 (xor4 s k) k = s"
  by (cases s; cases k) (simp add: ac_simps)

lemma td_sub_te_sub [simp]: "td_sub (te_sub s) = s"
  by (cases s) (simp add: TE_last TD_last)

lemma inv_mix4_te_mix [simp]: "inv_mix4 (te_mix s) = te_sub s"
  by (cases s) (simp add: inv_mix_word_TE)

lemma inv_mix4_xor: "inv_mix4 (xor4 s k) = xor4 (inv_mix4 s) (inv_mix4 k)"
  by (cases s; cases k) (simp add: inv_mix_word_xor)

lemma td_mix_eq: "td_mix s = inv_mix4 (td_sub s)"
  by (cases s) (simp add: TD_round)

lemma GETU32_cat4: "GETU32 pt off = cat4 (pt ! off) (pt ! (off + 1)) (pt ! (off + 2)) (pt ! (off + 3))"
  by (simp add: GETU32_def cat4_def)

lemma PUTU32_bytes: "PUTU32 w = [byte3 w, byte2 w, byte1 w, byte0 w]"
  by (simp add: PUTU32_def byte3_def byte2_def byte1_def byte0_def)

lemma length_put4 [simp]: "length (put4 s) = 16"
  by (cases s) (simp add: PUTU32_def)

lemma get4_put4 [simp]: "get4 (put4 s) = s"
  by (cases s) (simp add: get4_def GETU32_cat4 PUTU32_bytes)

lemma put4_get4:
  assumes "length pt = 16"
  shows "put4 (get4 pt) = pt"
proof -
  have "put4 (get4 pt) = map ((!) pt) [0..<16]" by (simp add: get4_def GETU32_cat4 PUTU32_bytes upt_rec eval_nat_numeral)
  then show ?thesis using map_nth[of pt] assms by simp
qed

lemma start_state_eq: "start_state rk pt = xor4 (get4 pt) (round_key rk 0)"
  by (simp add: start_state_def get4_def round_key_def numeral_2_eq_2)

lemma round_key_drop: "4 * k + 4 * g + 3 < length rk \<Longrightarrow> round_key (drop (4 * k) rk) g = round_key rk (k + g)"
  by (simp add: round_key_def algebra_simps)

lemma enc_round_eq: "enc_round rk s = xor4 (te_mix s) (round_key rk 0)"
  by (cases s) (simp add: round_key_def numeral_2_eq_2 xor.assoc)

lemma dec_round_eq: "dec_round rk s = xor4 (td_mix s) (round_key rk 0)"
  by (cases s) (simp add: round_key_def numeral_2_eq_2 xor.assoc)

lemma enc_last_eq: "enc_last rk s = put4 (xor4 (te_sub s) (round_key rk 0))"
  by (cases s) (simp add: round_key_def numeral_2_eq_2 xor.assoc)

lemma dec_last_eq: "dec_last rk s = put4 (xor4 (td_sub s) (round_key rk 0))"
  by (cases s) (simp add: round_key_def numeral_2_eq_2 xor.assoc)

text \<open>Both loops run through the round keys in order.\<close>

definition rounds :: "(state \<Rightarrow> state) \<Rightarrow> u32 list \<Rightarrow> nat \<Rightarrow> state \<Rightarrow> state" where
  "rounds f rk n s = fold (\<lambda>g s. xor4 (f s) (round_key rk g)) [1..<Suc n] s"

lemma rounds_0 [simp]: "rounds f rk 0 s = s"
  by (simp add: rounds_def)

lemma rounds_Suc: "rounds f rk (Suc n) s = xor4 (f (rounds f rk n s)) (round_key rk (Suc n))"
  by (simp add: rounds_def)

lemma loop_from:
  assumes loop: "\<And>r rk s. loop r rk s = (let t = rnd (drop 4 rk) s; rk = drop 8 rk in if r \<le> 1 then (rk, t) else loop (r - 1) rk (rnd rk t))"
    and rnd: "\<And>rk s. rnd rk s = xor4 (f s) (round_key rk 0)"
    and "8 * (k + Suc r) + 4 \<le> length rk"
  shows "loop (Suc r) (drop (8 * k) rk) (rounds f rk (2 * k) s) = (drop (8 * (k + Suc r)) rk, rounds f rk (2 * (k + Suc r) - 1) s)"
  using assms(3)
proof (induction r arbitrary: k)
  case 0
  then have "round_key (drop (4 + 8 * k) rk) 0 = round_key rk (Suc (2 * k))"
    using round_key_drop[of "2 * k + 1" 0 rk] by (simp add: algebra_simps)
  then show ?case by (subst loop) (simp add: Let_def rnd rounds_Suc add.commute)
next
  case (Suc r)
  have key: "round_key (drop (4 + 8 * k) rk) 0 = round_key rk (Suc (2 * k))" "round_key (drop (8 + 8 * k) rk) 0 = round_key rk (Suc (Suc (2 * k)))"
    using round_key_drop[of "2 * k + 1" 0 rk] round_key_drop[of "2 * k + 2" 0 rk] Suc.prems by (simp_all add: algebra_simps)
  have "loop (Suc (Suc r)) (drop (8 * k) rk) (rounds f rk (2 * k) s) = loop (Suc r) (drop (8 * Suc k) rk) (rounds f rk (2 * Suc k) s)"
    by (subst loop) (simp add: Let_def rnd rounds_Suc key add.commute)
  also have "\<dots> = (drop (8 * (Suc k + Suc r)) rk, rounds f rk (2 * (Suc k + Suc r) - 1) s)"
    using Suc.prems by (intro Suc.IH) simp
  finally show ?case by simp
qed

lemma length_ge_loop: "Nr > 0 \<Longrightarrow> even Nr \<Longrightarrow> length rk = 4 * Suc Nr \<Longrightarrow> \<exists>r. Nr = 2 * Suc r \<and> 8 * (0 + Suc r) + 4 \<le> length rk"
  by (rule exI[of _ "Nr div 2 - 1"]) (auto elim!: evenE)

lemma rijndaelEncrypt_rounds:
  assumes "Nr > 0" "even Nr" "length rk = 4 * Suc Nr"
  shows "rijndaelEncrypt rk Nr pt =
    put4 (xor4 (te_sub (rounds te_mix rk (Nr - 1) (xor4 (get4 pt) (round_key rk 0)))) (round_key rk Nr))"
proof -
  obtain r where r: "Nr = 2 * Suc r" "8 * (0 + Suc r) + 4 \<le> length rk" using length_ge_loop[OF assms] by blast
  show ?thesis
    using loop_from[of enc_loop enc_round te_mix, OF enc_loop.simps enc_round_eq r(2), of "start_state rk pt"] round_key_drop[of Nr 0 rk] assms(3)
    by (simp add: rijndaelEncrypt_def r(1) enc_last_eq start_state_eq)
qed

lemma rijndaelDecrypt_rounds:
  assumes "Nr > 0" "even Nr" "length rk = 4 * Suc Nr"
  shows "rijndaelDecrypt rk Nr pt =
    put4 (xor4 (td_sub (rounds td_mix rk (Nr - 1) (xor4 (get4 pt) (round_key rk 0)))) (round_key rk Nr))"
proof -
  obtain r where r: "Nr = 2 * Suc r" "8 * (0 + Suc r) + 4 \<le> length rk" using length_ge_loop[OF assms] by blast
  show ?thesis
    using loop_from[of dec_loop dec_round td_mix, OF dec_loop.simps dec_round_eq r(2), of "start_state rk pt"] round_key_drop[of Nr 0 rk] assms(3)
    by (simp add: rijndaelDecrypt_def r(1) dec_last_eq start_state_eq)
qed

text \<open>Each round of the decryption takes back one round of the encryption.\<close>

definition dec_schedule :: "u32 list \<Rightarrow> nat \<Rightarrow> u32 list \<Rightarrow> bool" where
  "dec_schedule rk Nr dk \<longleftrightarrow> length dk = length rk \<and> round_key dk 0 = round_key rk Nr \<and> round_key dk Nr = round_key rk 0 \<and>
    (\<forall>g \<in> {1..<Nr}. round_key dk g = inv_mix4 (round_key rk (Nr - g)))"

lemma rounds_back:
  assumes "dec_schedule rk Nr dk" "n < Nr"
  shows "rounds td_mix dk n (te_sub (rounds te_mix rk (Nr - 1) s)) = te_sub (rounds te_mix rk (Nr - 1 - n) s)"
  using assms(2)
proof (induction n)
  case 0
  then show ?case by simp
next
  case (Suc n)
  have n: "Nr - 1 - n = Suc (Nr - 1 - Suc n)" using Suc.prems by simp
  have key: "round_key dk (Suc n) = inv_mix4 (round_key rk (Nr - 1 - n))" using assms(1) Suc.prems by (simp add: dec_schedule_def)
  have "rounds td_mix dk (Suc n) (te_sub (rounds te_mix rk (Nr - 1) s)) =
      inv_mix4 (xor4 (rounds te_mix rk (Nr - 1 - n) s) (round_key rk (Nr - 1 - n)))"
    using Suc.IH Suc.prems by (simp add: rounds_Suc key inv_mix4_xor td_mix_eq[of "te_sub _"])
  also have "\<dots> = te_sub (rounds te_mix rk (Nr - 1 - Suc n) s)" by (simp only: n rounds_Suc xor4_cancel inv_mix4_te_mix)
  finally show ?case .
qed

lemma decrypt_encrypt:
  assumes "Nr > 0" "even Nr" "length rk = 4 * Suc Nr" "dec_schedule rk Nr dk" "length pt = 16"
  shows "rijndaelDecrypt dk Nr (rijndaelEncrypt rk Nr pt) = pt"
proof -
  have d: "length dk = 4 * Suc Nr" "round_key dk 0 = round_key rk Nr" "round_key dk Nr = round_key rk 0"
    using assms(3,4) by (simp_all add: dec_schedule_def)
  show ?thesis
    unfolding rijndaelEncrypt_rounds[OF assms(1-3)] rijndaelDecrypt_rounds[OF assms(1,2) d(1)] get4_put4 d xor4_cancel
    using rounds_back[OF assms(4), of "Nr - 1"] assms(1,5) by (simp add: put4_get4)
qed

subsection \<open>The schedule of the decryption\<close>

definition swap_keys4 :: "nat \<Rightarrow> nat \<Rightarrow> u32 list \<Rightarrow> u32 list" where
  "swap_keys4 i j rk = swap_words (i + 3) (j + 3) (swap_words (i + 2) (j + 2) (swap_words (i + 1) (j + 1) (swap_words i j rk)))"

lemma length_swap_words [simp]: "length (swap_words i j rk) = length rk"
  by (simp add: swap_words_def)

lemma length_swap_keys4 [simp]: "length (swap_keys4 i j rk) = length rk"
  by (simp add: swap_keys4_def)

lemma nth_swap_words: "i < length rk \<Longrightarrow> j < length rk \<Longrightarrow> swap_words i j rk ! k = (if k = j then rk ! i else if k = i then rk ! j else rk ! k)"
  by (auto simp: swap_words_def nth_list_update_eq nth_list_update_neq)

lemma nth_swap_keys4:
  assumes "a < b" "4 * b + 3 < length rk" "x < 4"
  shows "swap_keys4 (4 * a) (4 * b) rk ! (4 * g + x) = rk ! (4 * (if g = a then b else if g = b then a else g) + x)"
proof -
  have eq: "4 * g + x = 4 * c + y \<longleftrightarrow> g = c \<and> x = y" if "y < 4" for c y using assms(3) that by arith
  have len: "4 * a + y < length rk" "4 * b + y < length rk" if "y < 4" for y using assms(1,2) that by arith+
  have ne: "4 * a + y \<noteq> 4 * b + z" if "y < 4" "z < 4" for y z using assms(1) that by arith
  have x: "x = 0 \<or> x = 1 \<or> x = 2 \<or> x = 3" using assms(3) by arith
  show ?thesis
    unfolding swap_keys4_def
    using x eq[of 0 a] eq[of 1 a] eq[of 2 a] eq[of 3 a] eq[of 0 b] eq[of 1 b] eq[of 2 b] eq[of 3 b]
      len[of 0] len[of 1] len[of 2] len[of 3] assms(1)
    by (auto simp: nth_swap_words)
qed

lemma round_key_swap:
  assumes "a < b" "4 * b + 3 < length rk"
  shows "round_key (swap_keys4 (4 * a) (4 * b) rk) g = round_key rk (if g = a then b else if g = b then a else g)"
  using nth_swap_keys4[OF assms, of 0 g] nth_swap_keys4[OF assms, of 1 g] nth_swap_keys4[OF assms, of 2 g] nth_swap_keys4[OF assms, of 3 g]
  by (simp add: round_key_def)

lemma invert_order_step: "invert_order i j rk = (if i < j then invert_order (i + 4) (j - 4) (swap_keys4 i j rk) else rk)"
  by (subst invert_order.simps) (simp add: swap_keys4_def)

lemma length_invert_order [simp]: "length (invert_order i j rk) = length rk"
  by (induction i j rk rule: invert_order.induct) (subst invert_order.simps, simp add: swap_words_def)

lemma round_key_invert_order:
  assumes "4 * b + 3 < length rk"
  shows "round_key (invert_order (4 * a) (4 * b) rk) g = round_key rk (if a \<le> g \<and> g \<le> b then a + b - g else g)"
  using assms
proof (induction "b" arbitrary: a rk rule: less_induct)
  case (less b)
  show ?case
  proof (cases "a < b")
    case False
    then have "a \<le> g \<and> g \<le> b \<Longrightarrow> a + b - g = g" by auto
    then show ?thesis using False by (subst invert_order_step) simp
  next
    case True
    have "invert_order (4 * a) (4 * b) rk = invert_order (4 * Suc a) (4 * (b - 1)) (swap_keys4 (4 * a) (4 * b) rk)"
      using True by (subst invert_order_step) (simp add: algebra_simps)
    also have "round_key \<dots> g = round_key (swap_keys4 (4 * a) (4 * b) rk) (if Suc a \<le> g \<and> g \<le> b - 1 then Suc a + (b - 1) - g else g)"
      using less True by (intro less.IH) auto
    also have "\<dots> = round_key rk (if a \<le> g \<and> g \<le> b then a + b - g else g)"
      using True less.prems by (subst round_key_swap) (auto split: if_splits)
    finally show ?thesis .
  qed
qed

lemma length_inv_mix_key [simp]: "length (inv_mix_key i rk) = length rk"
  by (simp add: inv_mix_key_def upt_rec)

lemma round_key_inv_mix_key:
  assumes "4 * i + 3 < length rk"
  shows "round_key (inv_mix_key i rk) g = (if g = i then inv_mix4 (round_key rk g) else round_key rk g)"
proof -
  have "4 * i + x \<noteq> 4 * g + y" if "g \<noteq> i" "x < 4" "y < 4" for x y using that by arith
  from this[of 0] this[of 1] this[of 2] this[of 3] show ?thesis
    using assms by (auto simp: round_key_def inv_mix_key_def upt_rec numeral_3_eq_3 nth_list_update_eq nth_list_update_neq)
qed

lemma round_key_inv_mix_keys:
  assumes "4 * n \<le> length rk"
  shows "length (fold inv_mix_key [1..<n] rk) = length rk \<and>
    round_key (fold inv_mix_key [1..<n] rk) g = (if 1 \<le> g \<and> g < n then inv_mix4 (round_key rk g) else round_key rk g)"
  using assms by (induction n) (auto simp: round_key_inv_mix_key le_Suc_eq less_Suc_eq)

lemma rijndaelKeySetupDec_schedule:
  assumes "rijndaelKeySetupEnc key bits = Some (rk, Nr)" "length rk = 4 * Suc Nr"
  shows "\<exists>dk. rijndaelKeySetupDec key bits = Some (dk, Nr) \<and> dec_schedule rk Nr dk"
proof (intro exI conjI)
  let ?dk = "fold inv_mix_key [1..<Nr] (invert_order 0 (4 * Nr) rk)"
  show "rijndaelKeySetupDec key bits = Some (?dk, Nr)" using assms(1) by (simp add: rijndaelKeySetupDec_def)
  have inv: "round_key (invert_order 0 (4 * Nr) rk) g = round_key rk (if g \<le> Nr then Nr - g else g)" for g
    using round_key_invert_order[of Nr rk 0 g] assms(2) by simp
  show "dec_schedule rk Nr ?dk"
    using round_key_inv_mix_keys[of Nr "invert_order 0 (4 * Nr) rk"] assms(2) by (auto simp: dec_schedule_def inv)
qed

end
