(* ===== verification/AesFips.thy ===== *)
theory AesFips
  imports AesInternal
begin

text \<open>
  The cipher of FIPS 197, on the sixteen bytes of a block, and the proof that the implementation with combined tables
  computes it for the three key lengths; decryption takes the encryption back.
\<close>

subsection \<open>The standard\<close>

definition SubWord :: "u32 \<Rightarrow> u32" where
  "SubWord w = cat4 (sbox (byte3 w)) (sbox (byte2 w)) (sbox (byte1 w)) (sbox (byte0 w))"

definition RotWord :: "u32 \<Rightarrow> u32" where
  "RotWord w = cat4 (byte2 w) (byte1 w) (byte0 w) (byte3 w)"

definition Rcon :: "nat \<Rightarrow> u32" where
  "Rcon i = cat4 ((xtime ^^ (i - 1)) 1) 0 0 0"

fun key_word :: "nat \<Rightarrow> bytes \<Rightarrow> nat \<Rightarrow> u32" where
  "key_word Nk key i =
    (if i < Nk \<or> Nk = 0 then cat4 (key ! (4 * i)) (key ! (4 * i + 1)) (key ! (4 * i + 2)) (key ! (4 * i + 3))
     else key_word Nk key (i - Nk) XOR
       (if i mod Nk = 0 then SubWord (RotWord (key_word Nk key (i - 1))) XOR Rcon (i div Nk)
        else if Nk > 6 \<and> i mod Nk = 4 then SubWord (key_word Nk key (i - 1))
        else key_word Nk key (i - 1)))"

declare key_word.simps [simp del]

definition SubBytes :: "bytes \<Rightarrow> bytes" where
  "SubBytes st = map sbox st"

definition ShiftRows :: "bytes \<Rightarrow> bytes" where
  "ShiftRows st = map (\<lambda>i. st ! ((i + 4 * (i mod 4)) mod 16)) [0..<16]"

definition mix_col :: "u8 \<Rightarrow> u8 \<Rightarrow> u8 \<Rightarrow> u8 \<Rightarrow> bytes" where
  "mix_col a b c d =
    [gmul a 2 XOR gmul b 3 XOR c XOR d, a XOR gmul b 2 XOR gmul c 3 XOR d,
     a XOR b XOR gmul c 2 XOR gmul d 3, gmul a 3 XOR b XOR c XOR gmul d 2]"

definition MixColumns :: "bytes \<Rightarrow> bytes" where
  "MixColumns st = concat (map (\<lambda>c. mix_col (st ! (4 * c)) (st ! (4 * c + 1)) (st ! (4 * c + 2)) (st ! (4 * c + 3))) [0..<4])"

definition AddRoundKey :: "(nat \<Rightarrow> u32) \<Rightarrow> nat \<Rightarrow> bytes \<Rightarrow> bytes" where
  "AddRoundKey w g st = map2 (XOR) st (concat (map (\<lambda>i. PUTU32 (w (4 * g + i))) [0..<4]))"

fun cipher_rounds :: "(nat \<Rightarrow> u32) \<Rightarrow> nat \<Rightarrow> bytes \<Rightarrow> bytes" where
  "cipher_rounds w 0 st = AddRoundKey w 0 st"
| "cipher_rounds w (Suc n) st = AddRoundKey w (Suc n) (MixColumns (ShiftRows (SubBytes (cipher_rounds w n st))))"

definition Cipher :: "(nat \<Rightarrow> u32) \<Rightarrow> nat \<Rightarrow> bytes \<Rightarrow> bytes" where
  "Cipher w Nr st = AddRoundKey w Nr (ShiftRows (SubBytes (cipher_rounds w (Nr - 1) st)))"

subsection \<open>Key expansion\<close>

lemma TE_key: "TE421 t XOR TE432 t XOR TE443 t XOR TE414 t = SubWord (RotWord t)"
  "TE411 t XOR TE422 t XOR TE433 t XOR TE444 t = SubWord t"
  by (simp_all add: table_cat4 cat4_xor SubWord_def RotWord_def)

lemma TE_key_xor: "TE421 t XOR TE432 t XOR TE443 t XOR TE414 t XOR v = SubWord (RotWord t) XOR v"
  by (simp add: TE_key(1)[symmetric] xor.assoc)

lemma RCON_eq: "i < 10 \<Longrightarrow> RCON i = Rcon (Suc i)"
  by (simp add: RCON_def Rcon_def rcons_at cat4_def)

lemma map_upt_4: "map f [0..<n + 4] = map f [0..<n] @ [f n, f (n + 1), f (n + 2), f (n + 3)]"
  by (simp add: numeral_eq_Suc)

lemma key_word_0: "Nk > 0 \<Longrightarrow> i < Nk \<Longrightarrow> key_word Nk key i = GETU32 key (4 * i)"
  by (simp add: key_word.simps GETU32_cat4)

text \<open>The recurrence, row by row of the key, in the direction in which the code computes it.\<close>

lemma row_first:
  assumes "Nk > 0" "g < 10"
  shows "key_word Nk key (Nk * g) XOR SubWord (RotWord (key_word Nk key (Nk * g + (Nk - 1)))) XOR RCON g = key_word Nk key (Nk * g + Nk)"
  using assms by (subst (3) key_word.simps) (simp add: RCON_eq)

lemma row_next:
  assumes "0 < x" "x < Nk" "Nk > 6 \<longrightarrow> x \<noteq> 4" "a = Nk * g + x" "b = Nk * g + Nk + x - 1" "c = Nk * g + Nk + x"
  shows "key_word Nk key a XOR key_word Nk key b = key_word Nk key c"
proof -
  have "c = x + Nk * Suc g" using assms(6) by simp
  then have "c mod Nk = x" using assms(2) by (simp only: mod_mult_self2 mod_less)
  then show ?thesis using assms by (subst (3) key_word.simps) auto
qed

lemma row_middle:
  assumes "a = 8 * g + 4" "b = 8 * g + 11" "c = 8 * g + 12"
  shows "key_word 8 key a XOR SubWord (key_word 8 key b) = key_word 8 key c"
proof -
  have "c mod 8 = 4" using assms(3) by presburger
  then show ?thesis using assms by (subst (3) key_word.simps) (simp add: add.commute)
qed

definition words :: "nat \<Rightarrow> bytes \<Rightarrow> nat \<Rightarrow> u32 list" where
  "words Nk key n = map (key_word Nk key) [0..<n]"

lemma length_words [simp]: "length (words Nk key n) = n"
  by (simp add: words_def)

lemma nth_words [simp]: "k < n \<Longrightarrow> words Nk key n ! k = key_word Nk key k"
  by (simp add: words_def)

lemma words_append: "words Nk key n @ map (\<lambda>x. key_word Nk key (n + x)) [0..<k] = words Nk key (n + k)"
  by (induction k) (simp_all add: words_def)

text \<open>In turn for each key length: a pass of the loop adds the next words.\<close>

lemma expand128_words:
  assumes "i < 10"
  shows "expand128 i (words 4 key (4 * i + 4)) = words 4 key (4 * Suc i + 4)"
proof -
  let ?k = "key_word 4 key" and ?p = "4 * i"
  have f: "?k ?p XOR SubWord (RotWord (?k (?p + 3))) XOR RCON i = ?k (?p + 4)"
    using row_first[of 4 i key] assms by simp
  have n: "?k (?p + 1) XOR ?k (?p + 4) = ?k (?p + 5)" "?k (?p + 2) XOR ?k (?p + 5) = ?k (?p + 6)" "?k (?p + 3) XOR ?k (?p + 6) = ?k (?p + 7)"
    by (rule row_next[of 1] row_next[of 2] row_next[of 3]; simp)+
  have "expand128 i (words 4 key (?p + 4)) = words 4 key (?p + 4) @ [?k (?p + 4), ?k (?p + 5), ?k (?p + 6), ?k (?p + 7)]"
    using f n by (simp add: expand128_def Let_def TE_key_xor)
  also have "\<dots> = words 4 key (4 * Suc i + 4)" using words_append[of 4 key "?p + 4" 4] by (simp add: upt_rec add.commute)
  finally show ?thesis .
qed

lemma expand192_words:
  assumes "i < 8"
  shows "expand192 i (words 6 key (6 * i + 6)) = words 6 key (if i = 7 then 52 else 6 * Suc i + 6)"
proof -
  let ?k = "key_word 6 key" and ?p = "6 * i"
  have f: "?k ?p XOR SubWord (RotWord (?k (?p + 5))) XOR RCON i = ?k (?p + 6)"
    using row_first[of 6 i key] assms by simp
  have n: "?k (?p + 1) XOR ?k (?p + 6) = ?k (?p + 7)" "?k (?p + 2) XOR ?k (?p + 7) = ?k (?p + 8)" "?k (?p + 3) XOR ?k (?p + 8) = ?k (?p + 9)"
    "?k (?p + 4) XOR ?k (?p + 9) = ?k (?p + 10)" "?k (?p + 5) XOR ?k (?p + 10) = ?k (?p + 11)"
    by (rule row_next[of 1] row_next[of 2] row_next[of 3] row_next[of 4] row_next[of 5]; simp)+
  have "expand192 i (words 6 key (?p + 6)) = words 6 key (?p + 6) @ [?k (?p + 6), ?k (?p + 7), ?k (?p + 8), ?k (?p + 9)] @
      (if i = 7 then [] else [?k (?p + 10), ?k (?p + 11)])"
    using f n by (cases "i = 7") (simp_all add: expand192_def Let_def TE_key_xor)
  also have "\<dots> = words 6 key (if i = 7 then 52 else 6 * Suc i + 6)"
    using words_append[of 6 key "?p + 6" 4] words_append[of 6 key "?p + 6" 6] by (auto simp: upt_rec add.commute)
  finally show ?thesis .
qed

lemma expand256_words:
  assumes "i < 7"
  shows "expand256 i (words 8 key (8 * i + 8)) = words 8 key (if i = 6 then 60 else 8 * Suc i + 8)"
proof -
  let ?k = "key_word 8 key" and ?p = "8 * i"
  have f: "?k ?p XOR SubWord (RotWord (?k (?p + 7))) XOR RCON i = ?k (?p + 8)" "?k (?p + 4) XOR SubWord (?k (?p + 11)) = ?k (?p + 12)"
    using row_first[of 8 i key] row_middle[of "?p + 4" i "?p + 11" "?p + 12" key] assms by simp_all
  have n: "?k (?p + 1) XOR ?k (?p + 8) = ?k (?p + 9)" "?k (?p + 2) XOR ?k (?p + 9) = ?k (?p + 10)" "?k (?p + 3) XOR ?k (?p + 10) = ?k (?p + 11)"
    "?k (?p + 5) XOR ?k (?p + 12) = ?k (?p + 13)" "?k (?p + 6) XOR ?k (?p + 13) = ?k (?p + 14)" "?k (?p + 7) XOR ?k (?p + 14) = ?k (?p + 15)"
    by (rule row_next[of 1] row_next[of 2] row_next[of 3] row_next[of 5] row_next[of 6] row_next[of 7]; simp)+
  have "expand256 i (words 8 key (?p + 8)) = words 8 key (?p + 8) @ [?k (?p + 8), ?k (?p + 9), ?k (?p + 10), ?k (?p + 11)] @
      (if i = 6 then [] else [?k (?p + 12), ?k (?p + 13), ?k (?p + 14), ?k (?p + 15)])"
    using f n by (cases "i = 6") (simp_all add: expand256_def Let_def TE_key_xor TE_key)
  also have "\<dots> = words 8 key (if i = 6 then 60 else 8 * Suc i + 8)"
    using words_append[of 8 key "?p + 8" 4] words_append[of 8 key "?p + 8" 8] by (auto simp: upt_rec add.commute)
  finally show ?thesis .
qed

lemma fold_expand:
  shows "n \<le> 10 \<Longrightarrow> fold expand128 [0..<n] (words 4 key 4) = words 4 key (4 * n + 4)"
    and "n \<le> 7 \<Longrightarrow> fold expand192 [0..<n] (words 6 key 6) = words 6 key (6 * n + 6)"
    and "n \<le> 6 \<Longrightarrow> fold expand256 [0..<n] (words 8 key 8) = words 8 key (8 * n + 8)"
  by (induction n) (simp_all add: expand128_words[simplified] expand192_words[simplified] expand256_words[simplified])

lemma first_words:
  "[GETU32 key 0, GETU32 key 4, GETU32 key 8, GETU32 key 12] = words 4 key 4"
  "[GETU32 key 0, GETU32 key 4, GETU32 key 8, GETU32 key 12, GETU32 key 16, GETU32 key 20] = words 6 key 6"
  "[GETU32 key 0, GETU32 key 4, GETU32 key 8, GETU32 key 12, GETU32 key 16, GETU32 key 20, GETU32 key 24, GETU32 key 28] = words 8 key 8"
  by (simp_all add: words_def upt_rec key_word_0)

lemma rijndaelKeySetupEnc_words:
  "rijndaelKeySetupEnc key bits =
    (if bits = 128 then Some (words 4 key 44, 10) else if bits = 192 then Some (words 6 key 52, 12)
     else if bits = 256 then Some (words 8 key 60, 14) else None)"
proof -
  have "[0..<8] = [0..<7] @ [7]" "[0..<7] = [0..<6] @ [6 :: nat]" by (simp_all add: upt_rec)
  then have "fold expand192 [0..<8] (words 6 key 6) = words 6 key 52" "fold expand256 [0..<7] (words 8 key 8) = words 8 key 60"
    using fold_expand(2)[of 7 key] fold_expand(3)[of 6 key] expand192_words[of 7 key] expand256_words[of 6 key] by simp_all
  then show ?thesis using fold_expand(1)[of 10 key] unfolding first_words[symmetric] by (simp add: rijndaelKeySetupEnc_def Let_def)
qed

subsection \<open>Rounds\<close>

lemma xtime_0 [simp]: "xtime 0 = 0"
  by (simp add: xtime_def)

lemma gmul_2_3: "gmul a 2 = xtime a" "gmul a 3 = xtime a XOR a"
  by (simp_all add: gmul_def)

lemma put4_bytes:
  "put4 (a, b, c, d) = [byte3 a, byte2 a, byte1 a, byte0 a, byte3 b, byte2 b, byte1 b, byte0 b,
     byte3 c, byte2 c, byte1 c, byte0 c, byte3 d, byte2 d, byte1 d, byte0 d]"
  by (simp add: PUTU32_bytes)

lemma MixColumns_16:
  "MixColumns [a0, a1, a2, a3, b0, b1, b2, b3, c0, c1, c2, c3, d0, d1, d2, d3] =
    mix_col a0 a1 a2 a3 @ mix_col b0 b1 b2 b3 @ mix_col c0 c1 c2 c3 @ mix_col d0 d1 d2 d3"
  by (simp add: MixColumns_def upt_rec)

lemma ShiftRows_16:
  "ShiftRows [a0, a1, a2, a3, b0, b1, b2, b3, c0, c1, c2, c3, d0, d1, d2, d3] =
    [a0, b1, c2, d3, b0, c1, d2, a3, c0, d1, a2, b3, d0, a1, b2, c3]"
  by (simp add: ShiftRows_def upt_rec)

lemma put4_te_sub: "put4 (te_sub s) = ShiftRows (SubBytes (put4 s))"
proof (cases s)
  case (fields a b c d)
  then show ?thesis by (simp only: te_sub.simps TE_last put4_bytes SubBytes_def list.map ShiftRows_16 bytes_of_cat4)
qed

lemma PUTU32_TE:
  "PUTU32 (TE0 a XOR TE1 b XOR TE2 c XOR TE3 d) = mix_col (sbox (byte3 a)) (sbox (byte2 b)) (sbox (byte1 c)) (sbox (byte0 d))"
  by (simp add: TE_round PUTU32_bytes mix_col_def gmul_2_3 ac_simps)

lemma put4_te_mix: "put4 (te_mix s) = MixColumns (ShiftRows (SubBytes (put4 s)))"
proof (cases s)
  case (fields a b c d)
  then show ?thesis by (simp only: put4_bytes SubBytes_def list.map ShiftRows_16 MixColumns_16) (simp add: PUTU32_TE)
qed

lemma byte_xor [simp]: "byte3 (v XOR w) = byte3 v XOR byte3 w" "byte2 (v XOR w) = byte2 v XOR byte2 w"
  "byte1 (v XOR w) = byte1 v XOR byte1 w" "byte0 (v XOR w) = byte0 v XOR byte0 w"
  by (rule bit_word_eqI, simp add: byte3_def byte2_def byte1_def byte0_def bit_simps)+

lemma put4_xor: "put4 (xor4 s (w (4 * g), w (4 * g + 1), w (4 * g + 2), w (4 * g + 3))) = AddRoundKey w g (put4 s)"
  by (cases s) (simp add: put4_bytes AddRoundKey_def PUTU32_bytes upt_rec eval_nat_numeral)

lemma put4_add_key:
  assumes "4 * g + 3 < n"
  shows "put4 (xor4 s (round_key (words Nk key n) g)) = AddRoundKey (key_word Nk key) g (put4 s)"
  using put4_xor[of s "key_word Nk key" g] assms by (simp add: round_key_def)

lemma rounds_cipher:
  assumes "4 * m + 3 < n" "length pt = 16"
  shows "put4 (rounds te_mix (words Nk key n) m (xor4 (get4 pt) (round_key (words Nk key n) 0))) = cipher_rounds (key_word Nk key) m pt"
  using assms(1) by (induction m) (simp_all add: put4_add_key rounds_Suc put4_te_mix put4_get4 assms(2))

lemma encrypt_words:
  assumes "Nr > 0" "even Nr" "n = 4 * Suc Nr" "length pt = 16"
  shows "rijndaelEncrypt (words Nk key n) Nr pt = Cipher (key_word Nk key) Nr pt"
proof -
  have "4 * (Nr - 1) + 3 < n" using assms(1,3) by simp
  note rounds_cipher[OF this assms(4)]
  then show ?thesis using assms by (simp add: rijndaelEncrypt_rounds put4_add_key put4_te_sub Cipher_def)
qed

subsection \<open>The functions of the interface\<close>

lemma aes_encrypt_init_cases:
  "aes_encrypt_init key =
    (if length key = 16 then Some (words 4 key 44, 10) else if length key = 24 then Some (words 6 key 52, 12)
     else if length key = 32 then Some (words 8 key 60, 14) else None)"
  unfolding aes_encrypt_init_def rijndaelKeySetupEnc_words by auto

lemma aes_ctx_form:
  assumes "aes_encrypt_init key = Some (rk, Nr)"
  shows "Nr = length key div 4 + 6" "rk = words (length key div 4) key (4 * Suc Nr)" "Nr > 0" "even Nr" "length rk = 4 * Suc Nr"
  using assms by (auto simp: aes_encrypt_init_cases split: if_splits)

lemma length_aes_encrypt:
  assumes "aes_encrypt_init key = Some ctx"
  shows "length (aes_encrypt ctx pt) = 16"
  using assms by (cases ctx) (simp add: rijndaelEncrypt_rounds aes_ctx_form(3-5))

lemma aes_decrypt_init_ok:
  assumes "aes_encrypt_init key = Some ctx"
  shows "\<exists>dctx. aes_decrypt_init key = Some dctx \<and> (\<forall>pt. length pt = 16 \<longrightarrow> aes_decrypt dctx (aes_encrypt ctx pt) = pt)"
proof (cases ctx)
  case (Pair rk Nr)
  note c = aes_ctx_form[OF assms[unfolded Pair]]
  obtain dk where "aes_decrypt_init key = Some (dk, Nr)" "dec_schedule rk Nr dk"
    using rijndaelKeySetupDec_schedule[of key "length key * 8" rk Nr] assms c(5) by (auto simp: Pair aes_encrypt_init_def aes_decrypt_init_def)
  then show ?thesis using decrypt_encrypt[OF c(3-5)] by (auto simp: Pair)
qed

lemma aes_decrypt_init_None: "aes_decrypt_init key = None \<longleftrightarrow> aes_encrypt_init key = None"
  by (auto simp: aes_decrypt_init_def rijndaelKeySetupDec_def aes_encrypt_init_def split: option.splits)

text \<open>
  C7. For a key of 16, 24 or 32 bytes, and for no other, \<open>aes_encrypt_init\<close> gives a context, and with it
  \<open>aes_encrypt\<close> computes the cipher of FIPS 197 on every block, with the key expansion of the standard, 10, 12 or 14
  rounds, and an S-box that is the inverse in the field followed by the affine transformation.
\<close>

theorem aes_encrypt_is_fips197:
  "(aes_encrypt_init key = None \<longleftrightarrow> length key \<notin> {16, 24, 32}) \<and>
   (aes_encrypt_init key = Some ctx \<longrightarrow> length pt = 16 \<longrightarrow>
      aes_encrypt ctx pt = Cipher (key_word (length key div 4) key) (length key div 4 + 6) pt) \<and>
   (\<exists>y. sbox x = affine y \<and> (if x = 0 then y = 0 else gmul x y = 1))"
proof (intro conjI impI)
  show "aes_encrypt_init key = None \<longleftrightarrow> length key \<notin> {16, 24, 32}" by (auto simp: aes_encrypt_init_cases)
  show "\<exists>y. sbox x = affine y \<and> (if x = 0 then y = 0 else gmul x y = 1)" by (rule sbox_is_affine_inverse)
next
  assume k: "aes_encrypt_init key = Some ctx" and p: "length pt = 16"
  obtain rk Nr where ctx: "ctx = (rk, Nr)" by (cases ctx)
  note c = aes_ctx_form[OF k[unfolded ctx]]
  show "aes_encrypt ctx pt = Cipher (key_word (length key div 4) key) (length key div 4 + 6) pt"
    using encrypt_words[OF c(3,4) refl p, of "length key div 4" key] by (simp add: ctx c(1,2))
qed

text \<open>The key and the block of the example in the standard.\<close>

definition fips_key :: bytes where
  "fips_key = [0, 1, 2, 3, 4, 5, 6, 7, 8, 9, 10, 11, 12, 13, 14, 15]"

definition fips_block :: bytes where
  "fips_block = [0x00, 0x11, 0x22, 0x33, 0x44, 0x55, 0x66, 0x77, 0x88, 0x99, 0xaa, 0xbb, 0xcc, 0xdd, 0xee, 0xff]"

lemma fips_lengths [simp]: "length fips_key = 16" "length fips_block = 16"
  by (simp_all add: fips_key_def fips_block_def)

lemma fips_key_accepted: "\<exists>ctx. aes_encrypt_init fips_key = Some ctx"
  by (simp add: aes_encrypt_init_cases)

theorem aes_encrypt_is_fips197_witness:
  "\<exists>ctx. aes_encrypt_init fips_key = Some ctx \<and> aes_encrypt ctx fips_block = Cipher (key_word 4 fips_key) 10 fips_block"
  using fips_key_accepted aes_encrypt_is_fips197[of fips_key _ fips_block] by auto

text \<open>
  C8. Whenever \<open>aes_encrypt_init\<close> accepts a key \<open>aes_decrypt_init\<close> does too, and \<open>aes_decrypt\<close> gives back every
  block that \<open>aes_encrypt\<close> has encrypted.
\<close>

theorem aes_decrypt_inverts_encrypt:
  assumes "aes_encrypt_init key = Some ctx" "length pt = 16"
  shows "\<exists>dctx. aes_decrypt_init key = Some dctx \<and> length (aes_encrypt ctx pt) = 16 \<and> aes_decrypt dctx (aes_encrypt ctx pt) = pt"
  using aes_decrypt_init_ok[OF assms(1)] length_aes_encrypt[OF assms(1)] assms(2) by blast

theorem aes_decrypt_inverts_encrypt_witness:
  "\<exists>ctx dctx. aes_encrypt_init fips_key = Some ctx \<and> aes_decrypt_init fips_key = Some dctx \<and>
    aes_decrypt dctx (aes_encrypt ctx fips_block) = fips_block"
  using fips_key_accepted aes_decrypt_inverts_encrypt[of fips_key _ fips_block] by fastforce

end
