(* ===== verification/Rc4.thy ===== *)
theory Rc4
  imports Prelude "HOL-Library.Multiset"
begin

text \<open>
  The stream cipher RC4 (\<open>src/crypto/rc4.c\<close>), with which EAPOL-Key data are encrypted for stations that use TKIP. The
  indices are unsigned numbers below 256. The key is not empty.
\<close>

definition S_SWAP :: "nat \<Rightarrow> nat \<Rightarrow> bytes \<Rightarrow> bytes" where
  "S_SWAP a b S = S[a := S ! b, b := S ! a]"

fun rc4_setup_step :: "bytes \<Rightarrow> nat \<Rightarrow> bytes \<times> nat \<times> nat \<Rightarrow> bytes \<times> nat \<times> nat" where
  "rc4_setup_step key i (S, j, kpos) =
    (let j = (j + unat (S ! i) + unat (key ! kpos)) mod 256;
         kpos = kpos + 1;
         kpos = (if kpos \<ge> length key then 0 else kpos)
     in (S_SWAP i j S, j, kpos))"

definition rc4_setup :: "bytes \<Rightarrow> bytes" where
  "rc4_setup key = fst (fold (rc4_setup_step key) [0..<256] (map of_nat [0..<256], 0, 0))"

fun rc4_step :: "bytes \<times> nat \<times> nat \<Rightarrow> bytes \<times> nat \<times> nat" where
  "rc4_step (S, i, j) =
    (let i = (i + 1) mod 256;
         j = (j + unat (S ! i)) mod 256
     in (S_SWAP i j S, i, j))"

fun rc4_out :: "bytes \<times> nat \<times> nat \<Rightarrow> u8" where
  "rc4_out (S, i, j) = S ! ((unat (S ! i) + unat (S ! j)) mod 256)"

fun rc4_apply :: "bytes \<times> nat \<times> nat \<Rightarrow> bytes \<Rightarrow> bytes" where
  "rc4_apply st [] = []"
| "rc4_apply st (x # xs) = (x XOR rc4_out (rc4_step st)) # rc4_apply (rc4_step st) xs"

definition rc4_skip :: "bytes \<Rightarrow> nat \<Rightarrow> bytes \<Rightarrow> bytes" where
  "rc4_skip key skip data = rc4_apply ((rc4_step ^^ skip) (rc4_setup key, 0, 0)) data"

subsection \<open>Encrypting twice\<close>

lemma length_rc4_apply [simp]: "length (rc4_apply st xs) = length xs"
  by (induction xs arbitrary: st) simp_all

lemma rc4_apply_twice: "rc4_apply st (rc4_apply st xs) = xs"
  by (induction xs arbitrary: st) (simp_all add: xor.assoc)

lemma length_rc4_skip [simp]: "length (rc4_skip key skip data) = length data"
  by (simp add: rc4_skip_def)

lemma rc4_skip_twice: "rc4_skip key skip (rc4_skip key skip data) = data"
  by (simp add: rc4_skip_def rc4_apply_twice)

subsection \<open>The state is always a permutation\<close>

definition rc4_perm :: "bytes \<Rightarrow> bool" where
  "rc4_perm S \<longleftrightarrow> mset S = mset (map of_nat [0..<256])"

lemma rc4_perm_length: "rc4_perm S \<Longrightarrow> length S = 256"
  using mset_eq_length[of S "map of_nat [0..<256]"] by (simp add: rc4_perm_def del: mset_map upt_rec_numeral)

lemma rc4_perm_swap: "rc4_perm S \<Longrightarrow> a < 256 \<Longrightarrow> b < 256 \<Longrightarrow> rc4_perm (S_SWAP a b S)"
  using rc4_perm_length[of S] by (simp add: rc4_perm_def S_SWAP_def mset_swap)

definition setup_ok :: "bytes \<Rightarrow> bytes \<times> nat \<times> nat \<Rightarrow> bool" where
  "setup_ok key st \<longleftrightarrow> rc4_perm (fst st) \<and> fst (snd st) < 256 \<and> snd (snd st) < length key"

lemma setup_ok_step: "setup_ok key st \<Longrightarrow> i < 256 \<Longrightarrow> setup_ok key (rc4_setup_step key i st)"
  by (cases st) (auto simp: setup_ok_def Let_def rc4_perm_swap)

lemma setup_ok_fold: "setup_ok key st \<Longrightarrow> set xs \<subseteq> {..<256} \<Longrightarrow> setup_ok key (fold (rc4_setup_step key) xs st)"
  by (induction xs arbitrary: st) (auto simp: setup_ok_step)

lemma rc4_setup_perm: "key \<noteq> [] \<Longrightarrow> rc4_perm (rc4_setup key)"
  using setup_ok_fold[of key "(map of_nat [0..<256], 0, 0)" "[0..<256]"]
  by (auto simp: setup_ok_def rc4_perm_def rc4_setup_def atLeast0LessThan simp del: mset_map)

definition rc4_state :: "bytes \<times> nat \<times> nat \<Rightarrow> bool" where
  "rc4_state st \<longleftrightarrow> rc4_perm (fst st) \<and> fst (snd st) < 256 \<and> snd (snd st) < 256"

lemma rc4_state_step: "rc4_state st \<Longrightarrow> rc4_state (rc4_step st)"
  by (cases st) (auto simp: rc4_state_def Let_def rc4_perm_swap)

lemma rc4_state_start: "key \<noteq> [] \<Longrightarrow> rc4_state (rc4_setup key, 0, 0)"
  by (simp add: rc4_state_def rc4_setup_perm)

lemma rc4_state_run: "key \<noteq> [] \<Longrightarrow> rc4_state ((rc4_step ^^ n) (rc4_setup key, 0, 0))"
  by (induction n) (simp_all add: rc4_state_step rc4_state_start)

end
