(* ===== verification/AesSuite.thy ===== *)
theory AesSuite
  imports AesModes AesFips Rc4 WpaHandshake
begin

text \<open>
  The modes of operation on the internal AES implementation: it meets the interface the modes rely on, so what is shown of
  them for every block cipher holds of it. With the key wrap and RC4 it gives the encryption of EAPOL-Key data.
\<close>

definition internal_aes :: aes where
  "internal_aes = \<lparr>enc_init = (\<lambda>key. map_option aes_encrypt (aes_encrypt_init key)),
                   dec_init = (\<lambda>key. map_option aes_decrypt (aes_decrypt_init key))\<rparr>"

interpretation ia: block_cipher internal_aes
proof
  fix key E and b :: bytes
  assume "enc_init internal_aes key = Some E"
  then obtain ctx where c: "aes_encrypt_init key = Some ctx" "E = aes_encrypt ctx" by (auto simp: internal_aes_def)
  show "length (E b) = 16" using length_aes_encrypt[OF c(1)] c(2) by simp
next
  fix key E
  assume "enc_init internal_aes key = Some E"
  then obtain ctx where c: "aes_encrypt_init key = Some ctx" "E = aes_encrypt ctx" by (auto simp: internal_aes_def)
  show "\<exists>D. dec_init internal_aes key = Some D \<and> (\<forall>b. length b = 16 \<longrightarrow> D (E b) = b)"
    using aes_decrypt_init_ok[OF c(1)] c(2) by (auto simp: internal_aes_def)
next
  fix key
  assume "enc_init internal_aes key = None"
  then show "dec_init internal_aes key = None" by (simp add: internal_aes_def aes_decrypt_init_None)
qed

lemma internal_init: "length key \<in> {16, 24, 32} \<Longrightarrow> \<exists>E. enc_init internal_aes key = Some E"
  by (auto simp: internal_aes_def aes_encrypt_init_cases)

subsection \<open>Key wrap\<close>

text \<open>
  C12. Key wrap with a key of 16, 24 or 32 bytes: what \<open>aes_unwrap\<close> accepts is exactly what \<open>aes_wrap\<close> produces. The wrapped
  form of \<open>n\<close> blocks of eight bytes has \<open>n + 1\<close> blocks, unwrapping gives them back, and a wrapped form that passes the
  integrity check is the one of its result.
\<close>

theorem aes_key_wrap_exact:
  assumes "length k \<in> {16, 24, 32}" "length c = 8 * n + 8"
  shows "(length plain = 8 * n \<and> AesModes.aes_wrap internal_aes k n plain = Some c \<longleftrightarrow> aes_unwrap internal_aes k n c = Some plain) \<and>
    (length plain = 8 * n \<longrightarrow> (\<exists>c. AesModes.aes_wrap internal_aes k n plain = Some c \<and> length c = 8 * n + 8))"
proof -
  obtain E where E: "enc_init internal_aes k = Some E" using internal_init[OF assms(1)] by blast
  show ?thesis using ia.aes_unwrap_wrap[OF E, of plain n] ia.aes_wrap_unwrap[of k n c plain] assms(2) by auto
qed

definition example_gtk :: bytes where
  "example_gtk = [0, 1, 2, 3, 4, 5, 6, 7, 8, 9, 10, 11, 12, 13, 14, 15]"

theorem aes_key_wrap_exact_witness:
  "\<exists>c. AesModes.aes_wrap internal_aes fips_key 2 example_gtk = Some c \<and> aes_unwrap internal_aes fips_key 2 c = Some example_gtk"
proof -
  have l: "length example_gtk = 8 * 2" by (simp add: example_gtk_def)
  from aes_key_wrap_exact[of fips_key "replicate 24 0" 2 example_gtk] obtain c where
    "AesModes.aes_wrap internal_aes fips_key 2 example_gtk = Some c" "length c = 8 * 2 + 8" by (auto simp: example_gtk_def)
  then show ?thesis using aes_key_wrap_exact[of fips_key c 2 example_gtk] l by auto
qed

subsection \<open>Message authentication code\<close>

text \<open>
  C14. \<open>omac1_aes_vector\<close> computes the CMAC of NIST SP 800-38B of the concatenation of its elements, however the data are cut
  into elements, provided that no element is empty or all of them are; and with an empty first element before other data it
  reads outside the data.
\<close>

theorem omac1_vector_is_cmac:
  assumes "enc_init internal_aes key = Some E"
  shows "(addr \<noteq> [] \<and> (concat addr \<noteq> [] \<longrightarrow> [] \<notin> set addr) \<longrightarrow> omac1_aes_vector internal_aes key addr = Some (cmac E (concat addr))) \<and>
    (concat addr \<noteq> [] \<longrightarrow> omac1_aes_vector internal_aes key ([] # addr) = None) \<and> length (cmac E (concat addr)) = 16"
  using omac1_aes_vector_eq[OF assms ia.enc_length[OF assms]] omac1_empty_element[OF assms, of addr] length_cmac[where E = E, OF ia.enc_length[OF assms]]
  by blast

theorem omac1_vector_is_cmac_witness:
  "\<exists>mac. omac1_aes_vector internal_aes fips_key [[1, 2], [3]] = Some mac \<and> omac1_aes_vector internal_aes fips_key [[1, 2, 3]] = Some mac"
proof -
  obtain E where E: "enc_init internal_aes fips_key = Some E" using internal_init[of fips_key] by auto
  show ?thesis using omac1_vector_is_cmac[OF E, of "[[1, 2], [3]]"] omac1_vector_is_cmac[OF E, of "[[1, 2, 3]]"] by auto
qed

subsection \<open>Authenticated encryption\<close>

text \<open>
  C15. The authenticated modes CCM, GCM, EAX and SIV on the internal AES: decryption succeeds with a plaintext if and only if
  encrypting that plaintext under the same key, nonce and associated data gives this ciphertext and tag.
\<close>

theorem authenticated_modes_exact:
  assumes "length nonce = 13" "length auth = M" "length tag = 16"
  shows "(aes_ccm_ad internal_aes key nonce M c aad auth = (0, Some p) \<longleftrightarrow> aes_ccm_ae internal_aes key nonce M p aad = Some (c, auth)) \<and>
    (aes_gcm_ad internal_aes key iv c aad tag = (0, Some p) \<longleftrightarrow> aes_gcm_ae internal_aes key iv p aad = Some (c, tag)) \<and>
    (aes_128_eax_decrypt internal_aes key iv aad c tag = (0, Some p) \<longleftrightarrow> aes_128_eax_encrypt internal_aes key iv aad p = Some (c, tag)) \<and>
    (aes_siv_decrypt internal_aes key c addr = (0, Some p) \<longleftrightarrow> aes_siv_encrypt internal_aes key p addr = Some c)"
  using ia.ccm_exact[OF assms(1,2)] ia.gcm_exact[OF assms(3)] ia.eax_exact[OF assms(3)] ia.siv_exact by blast

text \<open>Encryption succeeds for every plaintext, so that these equivalences are about messages that exist.\<close>

lemma aes_gcm_ae_succeeds:
  assumes "length key \<in> {16, 24, 32}"
  shows "\<exists>c tag. aes_gcm_ae internal_aes key iv p aad = Some (c, tag) \<and> length c = length p \<and> length tag = 16"
proof -
  obtain E where E: "enc_init internal_aes key = Some E" using internal_init[OF assms] by blast
  note len = ia.enc_length[OF E]
  let ?H = "E (replicate 16 0)"
  let ?J = "aes_gcm_prepare_j0 iv ?H"
  have H: "length ?H = 16" using len by simp
  have J: "length ?J = 16" by (rule length_prepare_j0[OF H])
  have "length (aes_gcm_ghash ?H aad c) = 16" for c by (simp add: aes_gcm_ghash_def ghash_def length_ghash_loop H)
  then have "length (aes_gctr E ?J (aes_gcm_ghash ?H aad c)) = 16" for c
    using gctr_twice[where E = E, OF len J refl, of "aes_gcm_ghash ?H aad c"] by (simp add: aes_gctr_def)
  then show ?thesis using E gcm_gctr_twice[where E = E, OF len J] by (simp add: aes_gcm_ae_def Let_def)
qed

theorem authenticated_modes_exact_witness:
  "\<exists>c tag. aes_gcm_ae internal_aes fips_key [1] [2, 3] [] = Some (c, tag) \<and> aes_gcm_ad internal_aes fips_key [1] c [] tag = (0, Some [2, 3])"
proof -
  obtain c tag where "aes_gcm_ae internal_aes fips_key [1] [2, 3] [] = Some (c, tag)" "length tag = 16"
    using aes_gcm_ae_succeeds[of fips_key "[1]" "[2, 3]" "[]"] by auto
  then show ?thesis
    using authenticated_modes_exact[where nonce = "replicate 13 0" and auth = "[]" and M = 0 and tag = tag and key = fips_key and iv = "[1]" and c = c and aad = "[]" and p = "[2, 3]"]
    by auto
qed

subsection \<open>Encrypted key data\<close>

text \<open>
  C13. The encrypted key data of an EAPOL-Key frame are recovered by a station that has the same key encryption key: by
  unwrapping, up to the padding, when the frame uses the key wrap, and by RC4 under the initialisation vector of the frame
  otherwise. The length declared in the frame is the length of the field.
\<close>

theorem encrypted_key_data_recovered:
  assumes "crypto.aes_wrap (we_crypto env) = (\<lambda>key plain. AesModes.aes_wrap internal_aes key (length plain div 8) plain)"
    and "crypto.rc4_skip (we_crypto env) = Rc4.rc4_skip"
    and "length (kek (PTK sm)) = 16 \<or> uses_key_wrap sm version \<and> length (kek (PTK sm)) = 32"
    and "alloc env (ws_outs sm) 1"
  shows "\<exists>field iv sm'. key_data_field env version (Inr k) True sm = (Some (field, length field, iv), sm') \<and>
    (if uses_key_wrap sm version then aes_unwrap internal_aes (kek (PTK sm)) (length field div 8 - 1) field = Some (pad_kde k)
     else Rc4.rc4_skip (iv @ kek (PTK sm)) 256 field = k)"
proof (cases "uses_key_wrap sm version")
  case True
  have "length (kek (PTK sm)) \<in> {16, 24, 32}" using assms(3) by auto
  then obtain E where E: "enc_init internal_aes (kek (PTK sm)) = Some E" using internal_init by blast
  let ?n = "length (pad_kde k) div 8"
  have "length (pad_kde k) mod 8 = 0" by (simp add: pad_kde_def Let_def) presburger
  then have n: "length (pad_kde k) = 8 * ?n" by presburger
  from ia.aes_unwrap_wrap[OF E n] obtain c where c: "AesModes.aes_wrap internal_aes (kek (PTK sm)) ?n (pad_kde k) = Some c"
    "length c = 8 * ?n + 8" "aes_unwrap internal_aes (kek (PTK sm)) ?n c = Some (pad_kde k)" by blast
  then have "length c div 8 - 1 = ?n" by simp
  then show ?thesis using True c n assms(1,4) by (auto simp: key_data_field_def)
next
  case False
  then show ?thesis using assms(2-4) by (auto simp: key_data_field_def Let_def rc4_skip_twice upd_group_def)
qed

definition internal_crypto :: crypto where
  "internal_crypto = example_crypto
    \<lparr>crypto.aes_wrap := (\<lambda>key plain. AesModes.aes_wrap internal_aes key (length plain div 8) plain), crypto.rc4_skip := Rc4.rc4_skip\<rparr>"

definition keyed_station :: wpa_sm where
  "keyed_station = example_station\<lparr>PTK := \<lparr>kck = fips_block, kek = fips_key, tk = fips_block\<rparr>\<rparr>"

theorem encrypted_key_data_recovered_witness:
  "\<exists>field iv sm'. key_data_field (example_env\<lparr>we_crypto := internal_crypto\<rparr>) 2 (Inr [48, 2, 1, 0]) True keyed_station = (Some (field, length field, iv), sm') \<and>
    aes_unwrap internal_aes fips_key (length field div 8 - 1) field = Some [48, 2, 1, 0, 0xdd, 0, 0, 0]"
proof -
  have w: "uses_key_wrap keyed_station 2" by (simp add: uses_key_wrap_def)
  have p: "pad_kde [48, 2, 1, 0] = [48, 2, 1, 0, 0xdd, 0, 0, 0]" by code_simp
  have k: "kek (PTK keyed_station) = fips_key" by (simp add: keyed_station_def)
  show ?thesis
    using encrypted_key_data_recovered[of "example_env\<lparr>we_crypto := internal_crypto\<rparr>" keyed_station 2 "[48, 2, 1, 0]"] w k
    unfolding p by (simp add: internal_crypto_def example_env_def)
qed

end
