(* ===== verification/Spec2Isabelle.thy ===== *)
theory Spec2Isabelle
  imports CsiMain MexRead CsiDb SendData EapolInv Bitfield Base64 WpaBuf CommonLists IeParse Channels WpaHandshake AesSuite
begin

text \<open>
  Verification development for the Atheros CSI tool: the user-space programs that receive, store and
  decode channel state information (CSI), the traffic generator, and parts of the \<open>hostapd\<close> 2.5
  that the repository ships for the access point.

  \<^bold>\<open>The program.\<close> A patched Atheros driver delivers one report per received packet through a character
  device: a status header of 25 bytes, the channel matrix as packed 10-bit samples, and the payload.
  \<^item> \<open>recvCSIToFile\<close> reads reports, decodes them and appends each, with its length, to a log file.
  \<^item> \<open>recvCSIToDatabase\<close> reads and decodes the same reports and sends them to PostgreSQL.
  \<^item> \<open>matlab\<close> holds two C gateways that decode logged reports off-line (\<open>read_csi.c\<close>, \<open>read_bfee.c\<close>).
  \<^item> \<open>sendData\<close> sends the Ethernet frames whose reception is measured.
  \<^item> \<open>hostapd-2.5\<close> is the access point; its IEEE 802.1X authenticator and its WPA authenticator decide whether
    a port is open and which keys are in use, on top of an event loop and helper modules under \<open>src/utils\<close>,
    \<open>src/common\<close> and \<open>src/crypto\<close>.

  \<^bold>\<open>How C is modelled.\<close> An object accessed by index is a list, an access out of its bounds is a value of
  the model (\<open>None\<close>, or \<open>UB\<close> in \<open>WpaBuf\<close>), so "defined" in a theorem means free of out-of-bounds accesses.
  Fixed-width integers are words where wrap-around or bit operations matter, otherwise \<open>int\<close> or \<open>nat\<close> with the
  conversions written out. Loops are structural recursion or \<open>function\<close>s with a measure; the two
  endless main loops consume the list of answers the device gives. System calls, the PostgreSQL client
  library, the EAP server and callbacks of the authenticator are parameters or recorded outputs.

  \<^bold>\<open>Theories.\<close>
  \<^item> \<open>Prelude\<close>: word sizes, bytes, little-endian numbers, checked accesses, bit lemmas. \<open>CStrings\<close>:
    \<open>printf\<close> decimals, \<open>strlen\<close>, \<open>strcat\<close>. \<open>BitReader\<close>: the specification of packed samples and
    the locale of a reader that consumes them.
  \<^item> \<open>CsiFun\<close> (\<open>recvCSIToFile/csi_fun.c\<close>): header, payload and matrix; the decoder returns exactly the
    specified samples, and which header bytes are ignored. \<open>CsiMain\<close> (\<open>main.c\<close>): the receiving loop and
    the log, which can be read back.
  \<^item> \<open>MexRead\<close> (\<open>matlab/read_csi.c\<close>, \<open>read_bfee.c\<close>): the gateways; the off-line decoder agrees with the
    on-line one.
  \<^item> \<open>CsiDb\<close> (\<open>recvCSIToDatabase\<close>): connection string and queries with their fixed buffers, the
    transaction protocol, and the main loop.
  \<^item> \<open>SendData\<close> (\<open>sendData.c\<close>): command line, frame and sending loop, with the inputs that are undefined.
  \<^item> \<open>EapolSm\<close> (\<open>eapol_auth/eapol_auth_sm.c\<close>): the six state machines, their run, timers, allocation and
    configuration. \<open>EapolInv\<close>: every reachable state keeps the port as the state demands and the driver
    informed; the port opens on success only; the quiet period; bounded retries; what a forced port
    withstands, and that a cached key opens it.
  \<^item> \<open>WpaBuf\<close>, \<open>Bitfield\<close>, \<open>Base64\<close> (\<open>utils/wpabuf.c\<close>, \<open>bitfield.c\<close>, \<open>base64.c\<close>): data
    buffers as append-only strings, bit fields as finite sets, the codec's round trip.
  \<^item> \<open>HexText\<close>, \<open>CommonLists\<close> (\<open>utils/common.c\<close>): numbers, addresses, escaped strings; integer arrays and
    frequency ranges.
  \<^item> \<open>IeParse\<close>, \<open>Channels\<close> (\<open>common/ieee802_11_common.c\<close>): the element parser is memory safe and keeps
    the last element of every field; channel numbers and frequencies convert both ways.
  \<^item> \<open>DlList\<close> (\<open>utils/list.h\<close>): linked lists as pointers in a store, refined to sequences. \<open>StableQueue\<close>: insertion that
    keeps equal keys in order, for timeouts and cache entries. \<open>Eloop\<close>, \<open>EloopInv\<close> (\<open>utils/eloop.c\<close>): sockets,
    timeouts and signals; what every run of the loop keeps, and that due timeouts fire in order.
  \<^item> \<open>Pmksa\<close>, \<open>PmksaInv\<close> (\<open>ap/pmksa_cache_auth.c\<close>): the cache of master keys; its list and its hash table agree.
  \<^item> \<open>RsnIe\<close>, \<open>WpaAuthIe\<close> (\<open>common/wpa_common.c\<close>, \<open>ap/wpa_auth_ie.c\<close>): the RSN and WPA elements are read back as
    written; validation of a station refines the policy of the configuration; key data encapsulations.
  \<^item> \<open>WpaKeys\<close> (\<open>crypto/sha1-prf.c\<close>, \<open>sha256-prf.c\<close>, \<open>common/wpa_common.c\<close>): key derivation and integrity codes.
    \<open>WpaSm\<close>, \<open>WpaSmStep\<close>, \<open>WpaReceive\<close> (\<open>ap/wpa_auth.c\<close>): the states of the pairwise and group key machines, the loop
    that steps them, which ends by a measure on requests and states, and the handlers of frames, timers
    and events. \<open>WpaReplay\<close>: the replay counters that a run uses up. \<open>WpaSmInv\<close>: what all events keep. \<open>WpaHandshake\<close>: the properties of the handshake: the port
    opens for verified replies only, silent stations are dropped, both ends agree on the keys.
  \<^item> \<open>AesTables\<close>, \<open>AesInternal\<close> (\<open>crypto/aes-internal.c\<close>, \<open>aes-internal-enc.c\<close>, \<open>aes-internal-dec.c\<close>): the tables and the
    cipher made from them. \<open>AesFips\<close>: it is the cipher of FIPS 197, and decryption is its inverse. \<open>AesModes\<close>
    (\<open>crypto/aes-wrap.c\<close> and the other modes): key wrap, CBC, counter mode, OMAC1, EAX, SIV, CCM and GCM over any block
    cipher. \<open>Rc4\<close> (\<open>crypto/rc4.c\<close>). \<open>AesSuite\<close>: the modes on the internal cipher; what each accepts is exactly
    what it produces, and stations recover encrypted key data.

  \<^bold>\<open>Interfaces.\<close> The locales state what a client relies on: a bit reader (on-line and off-line decoders),
  an append buffer (\<open>wpabuf\<close>), a codec (Base64), a stable queue (timeouts and cache entries), a
  block cipher (the modes of operation), and predicates of the authenticator that each machine keeps; each is interpreted on the model's definitions.

  \<^bold>\<open>Not modelled.\<close> Log output, terminal messages and signal handlers; the Matlab scripts; of \<open>hostapd\<close> the
  drivers, digests and public key cryptography, TLS, EAP methods, RADIUS, WPS, P2P, MACsec, the station side, and the
  configuration and control interfaces, which are glue to the operating system or rest on the former. Of the event loop
  the \<open>poll\<close> and \<open>epoll\<close> variants; of the handshake the groups of VLANs, PeerKey and what this build leaves out.
\<close>

end
